(* ===== verification/Prelude.thy ===== *)
theory Prelude
  imports Main "HOL-Library.Word"
begin

text \<open>
  Shared vocabulary of the development: the Go error values as one datatype, the two result
  monads the models are written in (a pure one, \<open>go_error + 'a\<close>, and one that threads a state
  and keeps what was written before an error), finite sums over maps, and the parts of the Go
  standard library the sources use (decimal and big-endian rendering of \<^verbatim>\<open>math/big.Int\<close>).

  \<^item> A Go function \<^verbatim>\<open>func f(x) (T, error)\<close> is a HOL function into \<open>go_error + T\<close>, with
    \<open>Inl\<close> the error.  \<^verbatim>\<open>errors.Wrap\<close> keeps the cause, which is what callers test, so a
    wrapped error is modelled by its cause.
  \<^item> A Go method that mutates its receiver or the state manager is a function
    \<open>'s \<Rightarrow> (go_error + 'a) \<times> 's\<close>: the state written before an error is returned is kept, as it
    is in the program.
  \<^item> A run-time panic is the error \<open>Panic\<close>.
\<close>

unbundle bit_operations_syntax

section \<open>Types\<close>

type_synonym u64 = "64 word"
type_synonym u32 = "32 word"
type_synonym byte = "8 word"

text \<open>
  An \<^verbatim>\<open>address.Address\<close> is a 20-byte value; \<^verbatim>\<open>address.Equal\<close> compares the bytes and
  \<^verbatim>\<open>String()\<close> is an injective rendering of them, so an address stands for its own map key.
  A nil address is \<open>None\<close> of \<open>addr option\<close>.
\<close>

type_synonym addr = "160 word"

text \<open>The receipt statuses (\<^verbatim>\<open>iotextypes.ReceiptStatus\<close>) the modelled handlers return.\<close>

datatype receipt_status =
    RS_Success
  | RS_Failure
  | RS_ErrUnknown
  | RS_ErrNotEnoughBalance
  | RS_ErrWriteAccount
  | RS_ErrCandidateNotExist
  | RS_ErrCandidateConflict
  | RS_ErrCandidateAlreadyExist
  | RS_ErrInvalidBucketAmount
  | RS_ErrInvalidBucketType
  | RS_ErrInvalidBucketIndex
  | RS_ErrUnauthorizedOperator
  | RS_ErrUnstakeBeforeMaturity
  | RS_ErrWithdrawBeforeUnstake
  | RS_ErrWithdrawBeforeMaturity
  | RS_ErrReduceDurationBeforeMaturity

text \<open>
  The error values of the modelled packages.  \<open>HandleError e st\<close> is the \<^verbatim>\<open>handleError\<close>
  struct of the staking protocol, an error that carries the status of the failed receipt.
  \<open>Errorf msg\<close> is an error built in place by \<^verbatim>\<open>errors.New\<close> or \<^verbatim>\<open>errors.Errorf\<close>.
\<close>

datatype go_error =
    ErrNotEnoughBalance
  | ErrInvalidAmount
  | ErrInvalidNonce
  | ErrUnknownAccountType
  | ErrNonceOverflow
  | ErrStateNotExist
  | ErrInvalidCanName
  | ErrInvalidOwner
  | ErrInvalidOperator
  | ErrInvalidReward
  | ErrInvalidSelfStkIndex
  | ErrMissingField
  | ErrWithdrawnBucket
  | ErrCandidateNotExist
  | ErrNoSelfStakeBucket
  | ErrOversizedData
  | ErrUnderpriced
  | ErrGasFeeCapTooLow
  | ErrInsufficientFunds
  | ErrReplaceUnderpriced
  | ErrNonceTooLow
  | ErrNonceTooHigh
  | ErrTxPoolOverflow
  | ErrGasTooHigh
  | ErrExistedInPool
  | ErrNotExist
  | ErrAlreadyDeleted
  | ErrAlreadyExist
  | ErrOutOfBound
  | ErrUnexpectedType
  | ErrInvalidTrie
  | ErrEndOfIterator
  | ErrExpiredEndorsement
  | ErrInsufficientEndorsements
  | ErrInvalidCurrentTime
  | ErrOldCalibrateEvt
  | HandleError go_error receipt_status
  | Errorf string
  | Panic string

type_synonym 'a res = "go_error + 'a"
type_synonym ('s, 'a) op = "'s \<Rightarrow> 'a res \<times> 's"

section \<open>Collections of facts\<close>

named_theorems run_simps \<open>decompose a successful run into the runs of its steps\<close>
named_theorems res_simps \<open>decompose a successful pure computation\<close>

section \<open>The pure result monad\<close>

definition bindR :: "'a res \<Rightarrow> ('a \<Rightarrow> 'b res) \<Rightarrow> 'b res" where
  "bindR m f = (case m of Inl e \<Rightarrow> Inl e | Inr x \<Rightarrow> f x)"

definition checkR :: "bool \<Rightarrow> go_error \<Rightarrow> unit res" where
  "checkR b e = (if b then Inr () else Inl e)"

lemma bindR_simps [simp]:
  "bindR (Inl e) f = Inl e"
  "bindR (Inr x) f = f x"
  by (simp_all add: bindR_def)

lemma bindR_Inr [res_simps]: "bindR m f = Inr y \<longleftrightarrow> (\<exists>x. m = Inr x \<and> f x = Inr y)"
  by (cases m) auto

lemma bindR_Inl: "bindR m f = Inl e \<longleftrightarrow> m = Inl e \<or> (\<exists>x. m = Inr x \<and> f x = Inl e)"
  by (cases m) auto

lemma checkR_Inr [res_simps]: "checkR b e = Inr u \<longleftrightarrow> b"
  by (simp add: checkR_def)

section \<open>The state and error monad\<close>

definition returnS :: "'a \<Rightarrow> ('s, 'a) op" where
  "returnS x s = (Inr x, s)"

definition failS :: "go_error \<Rightarrow> ('s, 'a) op" where
  "failS e s = (Inl e, s)"

definition bindS :: "('s, 'a) op \<Rightarrow> ('a \<Rightarrow> ('s, 'b) op) \<Rightarrow> ('s, 'b) op" where
  "bindS m f s = (case m s of (Inl e, s') \<Rightarrow> (Inl e, s') | (Inr x, s') \<Rightarrow> f x s')"

definition thenS :: "('s, unit) op \<Rightarrow> ('s, 'b) op \<Rightarrow> ('s, 'b) op" where
  "thenS m k = bindS m (\<lambda>_. k)"

definition readS :: "('s \<Rightarrow> 'a) \<Rightarrow> ('s, 'a) op" where
  "readS f s = (Inr (f s), s)"

definition modifyS :: "('s \<Rightarrow> 's) \<Rightarrow> ('s, unit) op" where
  "modifyS f s = (Inr (), f s)"

definition liftS :: "'a res \<Rightarrow> ('s, 'a) op" where
  "liftS r s = (r, s)"

definition checkS :: "bool \<Rightarrow> go_error \<Rightarrow> ('s, unit) op" where
  "checkS b e = (if b then returnS () else failS e)"

definition whenS :: "bool \<Rightarrow> ('s, unit) op \<Rightarrow> ('s, unit) op" where
  "whenS b m = (if b then m else returnS ())"

text \<open>\<^verbatim>\<open>if err != nil { return &handleError{err, status} }\<close>\<close>

definition mapErrS :: "(go_error \<Rightarrow> go_error) \<Rightarrow> ('s, 'a) op \<Rightarrow> ('s, 'a) op" where
  "mapErrS g m s = (case m s of (Inl e, s') \<Rightarrow> (Inl (g e), s') | (Inr x, s') \<Rightarrow> (Inr x, s'))"

definition mapErrR :: "(go_error \<Rightarrow> go_error) \<Rightarrow> 'a res \<Rightarrow> 'a res" where
  "mapErrR g r = (case r of Inl e \<Rightarrow> Inl (g e) | Inr x \<Rightarrow> Inr x)"

lemma mapErrR_Inr [res_simps]: "mapErrR g r = Inr x \<longleftrightarrow> r = Inr x"
  by (cases r) (auto simp: mapErrR_def)

lemma returnS_run [run_simps]: "returnS x s = (Inr y, s') \<longleftrightarrow> y = x \<and> s' = s"
  by (auto simp: returnS_def)

lemma failS_run [run_simps]: "failS e s = (Inr y, s') \<longleftrightarrow> False"
  by (simp add: failS_def)

lemma bindS_run [run_simps]:
  "bindS m f s = (Inr y, s') \<longleftrightarrow> (\<exists>x s1. m s = (Inr x, s1) \<and> f x s1 = (Inr y, s'))"
  by (auto simp: bindS_def split: prod.splits sum.splits)

lemma thenS_run [run_simps]:
  "thenS m k s = (Inr y, s') \<longleftrightarrow> (\<exists>s1. m s = (Inr (), s1) \<and> k s1 = (Inr y, s'))"
  by (auto simp: thenS_def bindS_run)

lemma readS_run [run_simps]: "readS f s = (Inr y, s') \<longleftrightarrow> y = f s \<and> s' = s"
  by (auto simp: readS_def)

lemma modifyS_run [run_simps]: "modifyS f s = (Inr u, s') \<longleftrightarrow> s' = f s"
  by (auto simp: modifyS_def)

lemma liftS_run [run_simps]: "liftS r s = (Inr y, s') \<longleftrightarrow> r = Inr y \<and> s' = s"
  by (auto simp: liftS_def)

lemma checkS_run [run_simps]: "checkS b e s = (Inr u, s') \<longleftrightarrow> b \<and> s' = s"
  by (auto simp: checkS_def returnS_def failS_def)

lemma whenS_run [run_simps]:
  "whenS b m s = (Inr u, s') \<longleftrightarrow> (if b then m s = (Inr (), s') else s' = s)"
  by (auto simp: whenS_def returnS_def)

lemma mapErrS_run [run_simps]: "mapErrS g m s = (Inr x, s') \<longleftrightarrow> m s = (Inr x, s')"
  by (auto simp: mapErrS_def split: prod.splits sum.splits)

lemmas op_defs = returnS_def failS_def bindS_def thenS_def readS_def modifyS_def liftS_def
  checkS_def whenS_def mapErrS_def

text \<open>An operation preserves a predicate of the state whether it succeeds or fails.\<close>

definition preserves :: "('s \<Rightarrow> bool) \<Rightarrow> ('s, 'a) op \<Rightarrow> bool" where
  "preserves P m \<longleftrightarrow> (\<forall>s. P s \<longrightarrow> P (snd (m s)))"

named_theorems preserves_intros \<open>an operation preserves a predicate if its steps do\<close>

lemma preserves_returnS [preserves_intros]: "preserves P (returnS x)"
  by (simp add: preserves_def returnS_def)

lemma preserves_failS [preserves_intros]: "preserves P (failS e)"
  by (simp add: preserves_def failS_def)

lemma preserves_readS [preserves_intros]: "preserves P (readS f)"
  by (simp add: preserves_def readS_def)

lemma preserves_liftS [preserves_intros]: "preserves P (liftS r)"
  by (simp add: preserves_def liftS_def)

lemma preserves_checkS [preserves_intros]: "preserves P (checkS b e)"
  by (simp add: preserves_def checkS_def returnS_def failS_def)

lemma preserves_bindS [preserves_intros]:
  assumes "preserves P m" and "\<And>x. preserves P (f x)"
  shows "preserves P (bindS m f)"
  unfolding preserves_def
proof (intro allI impI)
  fix s assume "P s"
  then have "P (snd (m s))" using assms(1) by (simp add: preserves_def)
  then show "P (snd (bindS m f s))" using assms(2)
    by (auto simp: preserves_def bindS_def split: prod.splits sum.splits)
qed

lemma preserves_thenS [preserves_intros]:
  "preserves P m \<Longrightarrow> preserves P k \<Longrightarrow> preserves P (thenS m k)"
  by (simp add: thenS_def preserves_bindS)

lemma preserves_whenS [preserves_intros]:
  "(b \<Longrightarrow> preserves P m) \<Longrightarrow> preserves P (whenS b m)"
  by (simp add: whenS_def preserves_returnS)

lemma preserves_mapErrS [preserves_intros]: "preserves P m \<Longrightarrow> preserves P (mapErrS g m)"
  by (auto simp: preserves_def mapErrS_def split: prod.splits sum.splits)

lemma preserves_if [preserves_intros]:
  "(b \<Longrightarrow> preserves P m) \<Longrightarrow> (\<not> b \<Longrightarrow> preserves P k) \<Longrightarrow> preserves P (if b then m else k)"
  by simp

lemma preserves_case_option [preserves_intros]:
  "(x = None \<Longrightarrow> preserves P m) \<Longrightarrow> (\<And>y. x = Some y \<Longrightarrow> preserves P (k y)) \<Longrightarrow>
   preserves P (case x of None \<Rightarrow> m | Some y \<Rightarrow> k y)"
  by (cases x) auto

text \<open>
  A triple with two postconditions: from a state with \<open>P\<close>, success ends in \<open>Q\<close> and failure in \<open>E\<close>.
\<close>

definition triple :: "('s \<Rightarrow> bool) \<Rightarrow> ('s, 'a) op \<Rightarrow> ('a \<Rightarrow> 's \<Rightarrow> bool) \<Rightarrow> (go_error \<Rightarrow> 's \<Rightarrow> bool) \<Rightarrow> bool" where
  "triple P m Q E \<longleftrightarrow> (\<forall>s. P s \<longrightarrow> (case m s of (Inr x, s') \<Rightarrow> Q x s' | (Inl e, s') \<Rightarrow> E e s'))"

lemma triple_Inr: "triple P m Q E \<Longrightarrow> P s \<Longrightarrow> m s = (Inr x, s') \<Longrightarrow> Q x s'"
  by (auto simp: triple_def)

lemma triple_Inl: "triple P m Q E \<Longrightarrow> P s \<Longrightarrow> m s = (Inl e, s') \<Longrightarrow> E e s'"
  by (auto simp: triple_def)

lemma triple_bindS:
  assumes "triple P m R E" "\<And>x. triple (R x) (f x) Q E"
  shows "triple P (bindS m f) Q E"
  unfolding triple_def
proof (intro allI impI)
  fix s assume P: "P s"
  obtain r s1 where m: "m s = (r, s1)" by (cases "m s")
  show "case bindS m f s of (Inr x, s') \<Rightarrow> Q x s' | (Inl e, s') \<Rightarrow> E e s'"
  proof (cases r)
    case (Inl e)
    then show ?thesis using triple_Inl [OF assms(1) P] m by (simp add: bindS_def)
  next
    case (Inr x)
    then have "R x s1" using triple_Inr [OF assms(1) P] m by simp
    then show ?thesis using assms(2) [of x] m Inr by (simp add: bindS_def triple_def)
  qed
qed

lemma triple_thenS: "triple P m R E \<Longrightarrow> triple (R ()) k Q E \<Longrightarrow> triple P (thenS m k) Q E"
  unfolding thenS_def by (rule triple_bindS) simp_all

lemma triple_weaken:
  assumes "triple P m Q E" "\<And>s. P' s \<Longrightarrow> P s" "\<And>x s. Q x s \<Longrightarrow> Q' x s" "\<And>e s. E e s \<Longrightarrow> E' e s"
  shows "triple P' m Q' E'"
  using assms unfolding triple_def by (fastforce split: prod.splits sum.splits)

lemma triple_preserves: "preserves K m \<Longrightarrow> (\<And>e s. K s \<Longrightarrow> E e s) \<Longrightarrow> triple K m (\<lambda>_. K) E"
  by (fastforce simp: triple_def preserves_def split: prod.splits sum.splits)

lemma triple_returnS: "(\<And>s. P s \<Longrightarrow> Q x s) \<Longrightarrow> triple P (returnS x) Q E"
  by (simp add: triple_def returnS_def)

text \<open>A step that keeps the precondition, whatever happens, and the rest.\<close>

lemma triple_keep_bind:
  "preserves K m \<Longrightarrow> (\<And>e s. K s \<Longrightarrow> E e s) \<Longrightarrow> (\<And>x. triple K (f x) Q E) \<Longrightarrow> triple K (bindS m f) Q E"
  by (rule triple_bindS [OF triple_preserves]) auto

lemma triple_keep_then:
  "preserves K m \<Longrightarrow> (\<And>e s. K s \<Longrightarrow> E e s) \<Longrightarrow> triple K k Q E \<Longrightarrow> triple K (thenS m k) Q E"
  unfolding thenS_def by (rule triple_keep_bind) simp_all

lemma preserves_modifyS: "(\<And>s. P s \<Longrightarrow> P (f s)) \<Longrightarrow> preserves P (modifyS f)"
  by (simp add: preserves_def modifyS_def)

text \<open>
  The weakest precondition of a run with two postconditions, and the rules that take a handler apart
  step by step: every early return becomes a goal of its own.
\<close>

definition wp :: "('s, 'a) op \<Rightarrow> ('a \<Rightarrow> 's \<Rightarrow> bool) \<Rightarrow> (go_error \<Rightarrow> 's \<Rightarrow> bool) \<Rightarrow> 's \<Rightarrow> bool" where
  "wp m Q E s \<longleftrightarrow> (case m s of (Inr x, s') \<Rightarrow> Q x s' | (Inl e, s') \<Rightarrow> E e s')"

named_theorems wp_intros \<open>weakest preconditions of the combinators\<close>

lemma wpI: "(\<And>x s'. m s = (Inr x, s') \<Longrightarrow> Q x s') \<Longrightarrow> (\<And>e s'. m s = (Inl e, s') \<Longrightarrow> E e s') \<Longrightarrow> wp m Q E s"
  by (auto simp: wp_def split: prod.splits sum.splits)

lemma wp_Inr: "wp m Q E s \<Longrightarrow> m s = (Inr x, s') \<Longrightarrow> Q x s'"
  by (simp add: wp_def)

lemma wp_Inl: "wp m Q E s \<Longrightarrow> m s = (Inl e, s') \<Longrightarrow> E e s'"
  by (simp add: wp_def)

lemma wp_weaken:
  assumes "wp m Q E s" "\<And>x s'. Q x s' \<Longrightarrow> Q' x s'" "\<And>e s'. E e s' \<Longrightarrow> E' e s'"
  shows "wp m Q' E' s"
  using assms by (auto simp: wp_def split: prod.splits sum.splits)

lemma wp_bindS [wp_intros]: "wp m (\<lambda>x. wp (f x) Q E) E s \<Longrightarrow> wp (bindS m f) Q E s"
  by (auto simp: wp_def bindS_def split: prod.splits sum.splits)

lemma wp_thenS [wp_intros]: "wp m (\<lambda>_. wp k Q E) E s \<Longrightarrow> wp (thenS m k) Q E s"
  unfolding thenS_def by (rule wp_bindS)

lemma wp_returnS [wp_intros]: "Q x s \<Longrightarrow> wp (returnS x) Q E s"
  by (simp add: wp_def returnS_def)

lemma wp_failS [wp_intros]: "E e s \<Longrightarrow> wp (failS e) Q E s"
  by (simp add: wp_def failS_def)

lemma wp_readS [wp_intros]: "Q (f s) s \<Longrightarrow> wp (readS f) Q E s"
  by (simp add: wp_def readS_def)

lemma wp_modifyS [wp_intros]: "Q () (f s) \<Longrightarrow> wp (modifyS f) Q E s"
  by (simp add: wp_def modifyS_def)

lemma wp_liftS [wp_intros]: "(\<And>x. r = Inr x \<Longrightarrow> Q x s) \<Longrightarrow> (\<And>e. r = Inl e \<Longrightarrow> E e s) \<Longrightarrow> wp (liftS r) Q E s"
  by (cases r) (simp_all add: wp_def liftS_def)

lemma wp_checkS [wp_intros]: "(b \<Longrightarrow> Q () s) \<Longrightarrow> (\<not> b \<Longrightarrow> E e s) \<Longrightarrow> wp (checkS b e) Q E s"
  by (simp add: wp_def checkS_def returnS_def failS_def)

lemma wp_whenS [wp_intros]: "(b \<Longrightarrow> wp m Q E s) \<Longrightarrow> (\<not> b \<Longrightarrow> Q () s) \<Longrightarrow> wp (whenS b m) Q E s"
  by (simp add: whenS_def wp_returnS)

lemma wp_mapErrS [wp_intros]: "wp m Q (\<lambda>e. E (g e)) s \<Longrightarrow> wp (mapErrS g m) Q E s"
  by (auto simp: wp_def mapErrS_def split: prod.splits sum.splits)

lemma wp_if [wp_intros]: "(b \<Longrightarrow> wp m Q E s) \<Longrightarrow> (\<not> b \<Longrightarrow> wp k Q E s) \<Longrightarrow> wp (if b then m else k) Q E s"
  by simp

lemma wp_case_prod [wp_intros]: "(\<And>a b. x = (a, b) \<Longrightarrow> wp (f a b) Q E s) \<Longrightarrow> wp (case x of (a, b) \<Rightarrow> f a b) Q E s"
  by (cases x) simp

lemma wp_state_read: "(\<And>x. f s = Inr x \<Longrightarrow> Q x s) \<Longrightarrow> (\<And>e. f s = Inl e \<Longrightarrow> E e s) \<Longrightarrow> wp (\<lambda>s. (f s, s)) Q E s"
  by (cases "f s") (simp_all add: wp_def)

text \<open>Division of Go's signed integers truncates towards zero.\<close>

definition go_quot :: "int \<Rightarrow> int \<Rightarrow> int" where
  "go_quot x y = sgn x * sgn y * (\<bar>x\<bar> div \<bar>y\<bar>)"

section \<open>Time\<close>

text \<open>
  A \<^verbatim>\<open>time.Time\<close> is the number of nanoseconds since the Unix epoch; the zero value is the
  beginning of year 1.  A protobuf timestamp is the pair of seconds and nanoseconds.
\<close>

definition zeroTime :: int where
  "zeroTime = - 62135596800 * 1000000000"

definition timestamppb :: "int \<Rightarrow> int \<times> int" where
  "timestamppb t = (t div 1000000000, t mod 1000000000)"

definition AsTime :: "int \<times> int \<Rightarrow> int" where
  "AsTime ts = fst ts * 1000000000 + snd ts"

text \<open>From year 1 to year 9999.\<close>

definition CheckValid :: "int \<times> int \<Rightarrow> unit res" where
  "CheckValid ts = checkR (- 62135596800 \<le> fst ts \<and> fst ts \<le> 253402300799 \<and> 0 \<le> snd ts \<and> snd ts < 1000000000)
     (Errorf ''invalid timestamp'')"

lemma AsTime_timestamppb [simp]: "AsTime (timestamppb t) = t"
  by (simp add: AsTime_def timestamppb_def)

section \<open>Words and integer division\<close>

lemma uint_minus_le: "b \<le> a \<Longrightarrow> uint (a - b) = uint a - uint b"
  for a b :: "'n::len word"
  using uint_sub_lem [of b a] by (simp add: word_le_def)

lemma uint_plus_less: "uint a + uint b < 2 ^ LENGTH('n) \<Longrightarrow> uint (a + b) = uint a + uint b"
  for a b :: "'n::len word"
  using uint_add_lem [of a b] by simp

lemma zdiv_less:
  fixes x k c :: int
  assumes "0 < k" "x < c * k"
  shows "x div k < c"
proof -
  have "x div k * k \<le> x" using assms(1) by (simp flip: minus_mod_eq_div_mult)
  then have "x div k * k < c * k" using assms(2) by linarith
  then show ?thesis using assms(1) by simp
qed

section \<open>Sums over finite maps\<close>

definition msum :: "('v \<Rightarrow> int) \<Rightarrow> ('k \<rightharpoonup> 'v) \<Rightarrow> int" where
  "msum f m = (\<Sum>k\<in>dom m. f (the (m k)))"

lemma msum_empty [simp]: "msum f Map.empty = 0"
  by (simp add: msum_def)

lemma msum_upd:
  assumes "finite (dom m)"
  shows "msum f (m(k \<mapsto> v)) = msum f m - (case m k of None \<Rightarrow> 0 | Some w \<Rightarrow> f w) + f v"
proof -
  let ?D = "dom m - {k}"
  have upd: "msum f (m(k \<mapsto> v)) = (\<Sum>x\<in>?D. f (the (m x))) + f v"
  proof -
    have dom: "dom (m(k \<mapsto> v)) = insert k ?D" by auto
    have "msum f (m(k \<mapsto> v)) = f v + (\<Sum>x\<in>?D. f (the ((m(k \<mapsto> v)) x)))"
      unfolding msum_def dom using assms by (subst sum.insert) auto
    also have "(\<Sum>x\<in>?D. f (the ((m(k \<mapsto> v)) x))) = (\<Sum>x\<in>?D. f (the (m x)))"
      by (rule sum.cong) auto
    finally show ?thesis by (simp only: add.commute)
  qed
  show ?thesis
  proof (cases "m k")
    case None
    then have "?D = dom m" by auto
    then show ?thesis using upd None by (simp add: msum_def)
  next
    case (Some w)
    then have "msum f m = f w + (\<Sum>x\<in>?D. f (the (m x)))"
      unfolding msum_def using assms by (subst sum.remove [of _ k]) auto
    then show ?thesis using upd Some by simp
  qed
qed

lemma msum_delete:
  assumes "finite (dom m)"
  shows "msum f (m(k := None)) = msum f m - (case m k of None \<Rightarrow> 0 | Some w \<Rightarrow> f w)"
proof (cases "m k")
  case None
  then have "m(k := None) = m" by auto
  then show ?thesis using None by simp
next
  case (Some w)
  have "msum f m = f w + (\<Sum>x\<in>dom m - {k}. f (the (m x)))"
    unfolding msum_def using assms Some by (subst sum.remove [of _ k]) auto
  moreover have "msum f (m(k := None)) = (\<Sum>x\<in>dom m - {k}. f (the (m x)))"
    by (simp add: msum_def)
  ultimately show ?thesis using Some by simp
qed

lemma msum_nonneg: "(\<And>k v. m k = Some v \<Longrightarrow> 0 \<le> f v) \<Longrightarrow> 0 \<le> msum f m"
  unfolding msum_def by (rule sum_nonneg) auto

lemma msum_ge_elem:
  assumes "finite (dom m)" "m k = Some v" "\<And>k v. m k = Some v \<Longrightarrow> 0 \<le> f v"
  shows "f v \<le> msum f m"
proof -
  have "0 \<le> msum f (m(k := None))"
    using assms(3) by (intro msum_nonneg) (auto split: if_splits)
  then show ?thesis using msum_delete [OF assms(1), of f k] assms(2) by simp
qed

section \<open>Namespaces of the state manager\<close>

text \<open>
  What the components rely on when they read and write a namespace of the state manager: \<open>look\<close>
  is the namespace as a map, a write succeeds and is an update of that map.
\<close>

locale kv_store =
  fixes look :: "'s \<Rightarrow> 'k \<rightharpoonup> 'v" and put :: "'k \<Rightarrow> 'v \<Rightarrow> ('s, unit) op"
  assumes put_total: "fst (put k v s) = Inr ()"
    and put_look: "look (snd (put k v s)) = (look s)(k \<mapsto> v)"
begin

lemma put_run: "put k v s = (r, s') \<Longrightarrow> r = Inr () \<and> look s' = (look s)(k \<mapsto> v)"
  using put_total [of k v s] put_look [of k v s] by simp

lemma put_finite: "put k v s = (r, s') \<Longrightarrow> finite (dom (look s)) \<Longrightarrow> finite (dom (look s'))"
  by (auto dest: put_run)

lemma put_msum:
  "put k v s = (r, s') \<Longrightarrow> finite (dom (look s)) \<Longrightarrow>
   msum f (look s') = msum f (look s) - (case look s k of None \<Rightarrow> 0 | Some w \<Rightarrow> f w) + f v"
  by (auto dest!: put_run simp: msum_upd)

end

text \<open>A namespace whose keys can be deleted; deleting a missing key is not an error.\<close>

locale kv_store_del = kv_store look put
  for look :: "'s \<Rightarrow> 'k \<rightharpoonup> 'v" and put :: "'k \<Rightarrow> 'v \<Rightarrow> ('s, unit) op" +
  fixes del :: "'k \<Rightarrow> ('s, unit) op"
  assumes del_total: "fst (del k s) = Inr ()"
    and del_look: "look (snd (del k s)) = (look s)(k := None)"
begin

lemma del_run: "del k s = (r, s') \<Longrightarrow> r = Inr () \<and> look s' = (look s)(k := None)"
  using del_total [of k s] del_look [of k s] by simp

lemma del_finite: "del k s = (r, s') \<Longrightarrow> finite (dom (look s)) \<Longrightarrow> finite (dom (look s'))"
  by (auto dest: del_run)

lemma del_msum:
  "del k s = (r, s') \<Longrightarrow> finite (dom (look s)) \<Longrightarrow>
   msum f (look s') = msum f (look s) - (case look s k of None \<Rightarrow> 0 | Some w \<Rightarrow> f w)"
  by (auto dest!: del_run simp: msum_delete)

end

end
