(* ===== verification/Epoch.thy ===== *)
theory Epoch
  imports Prelude
begin

text \<open>
  The epoch arithmetic of \<^verbatim>\<open>action/protocol/rolldpos/epoch.go\<close>.

  \<^verbatim>\<open>GetEpochNum\<close> and \<^verbatim>\<open>GetEpochHeight\<close> call each other on the heights and epochs of the
  Dardanelles and Wake forks.  They are modelled with fuel, one unit per nested call: running out
  is \<open>Panic\<close>, like the stack overflow it would be, and a division by zero is a panic too.  The
  nesting is at most five deep (\<^verbatim>\<open>GetEpochNum\<close> of a height after Wake asks for the epoch height
  of the Wake epoch, which asks for the epoch of the Wake height, which asks for the Dardanelles
  epoch height, which asks for the Dardanelles epoch), so six units are enough; the lemmas prove
  it, and that the results satisfy the equations of the source.
\<close>

section \<open>The protocol (rolldpos/epoch.go)\<close>

record RollDPoS =
  numCandidateDelegates :: u64
  numDelegates :: u64
  numSubEpochs :: u64
  numSubEpochsDardanelles :: u64
  dardanellesHeight :: u64
  dardanellesOn :: bool
  numSubEpochsWake :: u64
  wakeHeight :: u64

definition EnableDardanellesSubEpoch :: "u64 \<Rightarrow> u64 \<Rightarrow> RollDPoS \<Rightarrow> RollDPoS" where
  "EnableDardanellesSubEpoch height n p =
     p\<lparr>dardanellesOn := True, numSubEpochsDardanelles := n, dardanellesHeight := height\<rparr>"

definition EnableWakeSubEpoch :: "u64 \<Rightarrow> u64 \<Rightarrow> RollDPoS \<Rightarrow> RollDPoS" where
  "EnableWakeSubEpoch height n p = p\<lparr>numSubEpochsWake := n, wakeHeight := height\<rparr>"

definition NewProtocol :: "u64 \<Rightarrow> u64 \<Rightarrow> u64 \<Rightarrow> (RollDPoS \<Rightarrow> RollDPoS) list \<Rightarrow> RollDPoS" where
  "NewProtocol cands dels subs opts = fold (\<lambda>opt p. opt p) opts
     \<lparr>numCandidateDelegates = (if cands < dels then dels else cands), numDelegates = dels,
      numSubEpochs = subs, numSubEpochsDardanelles = 0, dardanellesHeight = 0, dardanellesOn = False,
      numSubEpochsWake = 0, wakeHeight = 0\<rparr>"

definition NumSubEpochs :: "RollDPoS \<Rightarrow> u64 \<Rightarrow> u64" where
  "NumSubEpochs p height =
     (if \<not> dardanellesOn p \<or> height < dardanellesHeight p then numSubEpochs p
      else if wakeHeight p = 0 \<or> height < wakeHeight p then numSubEpochsDardanelles p
      else numSubEpochsWake p)"

definition go_div :: "u64 \<Rightarrow> u64 \<Rightarrow> u64 res" where
  "go_div x y = (if y = 0 then Inl (Panic ''integer divide by zero'') else Inr (x div y))"

definition div2 :: "u64 \<Rightarrow> u64 \<Rightarrow> u64 \<Rightarrow> u64 res" where
  "div2 x y z = bindR (go_div x y) (\<lambda>q. go_div q z)"

fun epochNumF :: "nat \<Rightarrow> RollDPoS \<Rightarrow> u64 \<Rightarrow> u64 res"
and epochHeightF :: "nat \<Rightarrow> RollDPoS \<Rightarrow> u64 \<Rightarrow> u64 res" where
  "epochNumF 0 p height = Inl (Panic ''stack overflow'')"
| "epochNumF (Suc fuel) p height =
     (if height = 0 then Inr 0
      else if \<not> dardanellesOn p \<or> height \<le> dardanellesHeight p then
        bindR (div2 (height - 1) (numDelegates p) (numSubEpochs p)) (\<lambda>q. Inr (q + 1))
      else
        bindR (epochNumF fuel p (dardanellesHeight p)) (\<lambda>dardanellesEpoch.
        bindR (epochHeightF fuel p dardanellesEpoch) (\<lambda>dardanellesEpochHeight.
        if wakeHeight p = 0 \<or> height \<le> wakeHeight p then
          bindR (div2 (height - dardanellesEpochHeight) (numDelegates p) (numSubEpochsDardanelles p))
            (\<lambda>q. Inr (dardanellesEpoch + q))
        else
          bindR (epochNumF fuel p (wakeHeight p)) (\<lambda>wakeEpoch.
          bindR (epochHeightF fuel p wakeEpoch) (\<lambda>wakeEpochHeight.
          bindR (div2 (height - wakeEpochHeight) (numDelegates p) (numSubEpochsWake p))
            (\<lambda>q. Inr (wakeEpoch + q)))))))"
| "epochHeightF 0 p epochNum = Inl (Panic ''stack overflow'')"
| "epochHeightF (Suc fuel) p epochNum =
     (if epochNum = 0 then Inr 0
      else
        bindR (epochNumF fuel p (dardanellesHeight p)) (\<lambda>dardanellesEpoch.
        if \<not> dardanellesOn p \<or> epochNum \<le> dardanellesEpoch then
          Inr ((epochNum - 1) * numDelegates p * numSubEpochs p + 1)
        else
          bindR (epochHeightF fuel p dardanellesEpoch) (\<lambda>dardanellesEpochHeight.
          bindR (epochNumF fuel p (wakeHeight p)) (\<lambda>wakeEpoch.
          if wakeHeight p = 0 \<or> epochNum \<le> wakeEpoch then
            Inr (dardanellesEpochHeight +
                 (epochNum - dardanellesEpoch) * numDelegates p * numSubEpochsDardanelles p)
          else
            bindR (epochHeightF fuel p wakeEpoch) (\<lambda>wakeEpochHeight.
            Inr (wakeEpochHeight + (epochNum - wakeEpoch) * numDelegates p * numSubEpochsWake p))))))"

definition epochFuel :: nat where "epochFuel = 6"

definition GetEpochNum :: "RollDPoS \<Rightarrow> u64 \<Rightarrow> u64 res" where
  "GetEpochNum p height = epochNumF epochFuel p height"

definition GetEpochHeight :: "RollDPoS \<Rightarrow> u64 \<Rightarrow> u64 res" where
  "GetEpochHeight p epochNum = epochHeightF epochFuel p epochNum"

definition GetEpochLastBlockHeight :: "RollDPoS \<Rightarrow> u64 \<Rightarrow> u64 res" where
  "GetEpochLastBlockHeight p epochNum = bindR (GetEpochHeight p (epochNum + 1)) (\<lambda>h. Inr (h - 1))"

definition GetSubEpochNum :: "RollDPoS \<Rightarrow> u64 \<Rightarrow> u64 res" where
  "GetSubEpochNum p height =
     bindR (GetEpochNum p height) (\<lambda>e.
     bindR (GetEpochHeight p e) (\<lambda>h. go_div (height - h) (numDelegates p)))"

text \<open>\<open>productivity\<close> is the callback that counts the blocks of each delegate in a range.\<close>

definition ProductivityByEpoch ::
  "RollDPoS \<Rightarrow> u64 \<Rightarrow> u64 \<Rightarrow> (u64 \<Rightarrow> u64 \<Rightarrow> (string \<rightharpoonup> u64) res) \<Rightarrow> (u64 \<times> (string \<rightharpoonup> u64)) res" where
  "ProductivityByEpoch p epochNum tipHeight productivity =
     (if tipHeight = 0 then Inr (0, Map.empty)
      else
        bindR (GetEpochNum p tipHeight) (\<lambda>currentEpochNum.
        if currentEpochNum < epochNum then Inl (Errorf ''epoch number is larger than current epoch number'')
        else
          bindR (GetEpochHeight p epochNum) (\<lambda>epochStartHeight.
          bindR (if epochNum = currentEpochNum then Inr tipHeight
                 else GetEpochLastBlockHeight p epochNum) (\<lambda>epochEndHeight.
          bindR (productivity epochStartHeight epochEndHeight) (\<lambda>produce.
          Inr (epochEndHeight - epochStartHeight + 1, produce))))))"

definition NumBlocksByEpoch :: "RollDPoS \<Rightarrow> u64 \<Rightarrow> u64 res" where
  "NumBlocksByEpoch p epochNum =
     bindR (GetEpochHeight p epochNum) (\<lambda>h. Inr (NumSubEpochs p h * numDelegates p))"

section \<open>The recursion always returns\<close>

text \<open>The divisors that may be used are not zero.\<close>

definition divisors_ok :: "RollDPoS \<Rightarrow> bool" where
  "divisors_ok p \<longleftrightarrow> numDelegates p \<noteq> 0 \<and> numSubEpochs p \<noteq> 0 \<and>
     (dardanellesOn p \<longrightarrow> numSubEpochsDardanelles p \<noteq> 0 \<and> (wakeHeight p \<noteq> 0 \<longrightarrow> numSubEpochsWake p \<noteq> 0))"

text \<open>The values the recursion settles on, phase by phase.\<close>

definition num0 :: "RollDPoS \<Rightarrow> u64 \<Rightarrow> u64" where
  "num0 p h = (if h = 0 then 0 else (h - 1) div numDelegates p div numSubEpochs p + 1)"

definition start0 :: "RollDPoS \<Rightarrow> u64 \<Rightarrow> u64" where
  "start0 p e = (if e = 0 then 0 else (e - 1) * numDelegates p * numSubEpochs p + 1)"

definition dEpoch :: "RollDPoS \<Rightarrow> u64" where "dEpoch p = num0 p (dardanellesHeight p)"

definition num1 :: "RollDPoS \<Rightarrow> u64 \<Rightarrow> u64" where
  "num1 p h = (if h = 0 \<or> \<not> dardanellesOn p \<or> h \<le> dardanellesHeight p then num0 p h
     else dEpoch p + (h - start0 p (dEpoch p)) div numDelegates p div numSubEpochsDardanelles p)"

definition start1 :: "RollDPoS \<Rightarrow> u64 \<Rightarrow> u64" where
  "start1 p e = (if e = 0 \<or> \<not> dardanellesOn p \<or> e \<le> dEpoch p then start0 p e
     else start0 p (dEpoch p) + (e - dEpoch p) * numDelegates p * numSubEpochsDardanelles p)"

definition wEpoch :: "RollDPoS \<Rightarrow> u64" where "wEpoch p = num1 p (wakeHeight p)"

definition num2 :: "RollDPoS \<Rightarrow> u64 \<Rightarrow> u64" where
  "num2 p h = (if h = 0 \<or> \<not> dardanellesOn p \<or> h \<le> dardanellesHeight p \<or> wakeHeight p = 0 \<or> h \<le> wakeHeight p
     then num1 p h
     else wEpoch p + (h - start1 p (wEpoch p)) div numDelegates p div numSubEpochsWake p)"

definition start2 :: "RollDPoS \<Rightarrow> u64 \<Rightarrow> u64" where
  "start2 p e = (if e = 0 \<or> \<not> dardanellesOn p \<or> e \<le> dEpoch p \<or> wakeHeight p = 0 \<or> e \<le> wEpoch p
     then start1 p e
     else start1 p (wEpoch p) + (e - wEpoch p) * numDelegates p * numSubEpochsWake p)"

lemma div2_ok [simp]: "y \<noteq> 0 \<Longrightarrow> z \<noteq> 0 \<Longrightarrow> div2 x y z = Inr (x div y div z)"
  by (simp add: div2_def go_div_def)

lemma epochNumF_0:
  "divisors_ok p \<Longrightarrow> h = 0 \<or> \<not> dardanellesOn p \<or> h \<le> dardanellesHeight p \<Longrightarrow>
   epochNumF (Suc n) p h = Inr (num0 p h)"
  by (auto simp: num0_def divisors_ok_def)

lemma epochNumF_d [simp]:
  "divisors_ok p \<Longrightarrow> epochNumF (Suc n) p (dardanellesHeight p) = Inr (dEpoch p)"
  by (simp add: epochNumF_0 dEpoch_def del: epochNumF.simps)

lemma epochHeightF_0:
  "divisors_ok p \<Longrightarrow> e = 0 \<or> \<not> dardanellesOn p \<or> e \<le> dEpoch p \<Longrightarrow>
   epochHeightF (Suc (Suc n)) p e = Inr (start0 p e)"
  by (auto simp: start0_def simp del: epochNumF.simps)

lemma epochNumF_1:
  assumes "divisors_ok p" "h = 0 \<or> \<not> dardanellesOn p \<or> h \<le> dardanellesHeight p \<or> wakeHeight p = 0 \<or> h \<le> wakeHeight p"
  shows "epochNumF (Suc (Suc (Suc n))) p h = Inr (num1 p h)"
  using assms epochHeightF_0 [OF assms(1), of "dEpoch p" n]
  by (auto simp: num1_def num0_def divisors_ok_def simp del: epochNumF.simps(2) epochHeightF.simps(2)
      simp add: epochNumF.simps(2) [of _ p h])

lemma epochNumF_w [simp]:
  "divisors_ok p \<Longrightarrow> epochNumF (Suc (Suc (Suc n))) p (wakeHeight p) = Inr (wEpoch p)"
  by (simp add: epochNumF_1 wEpoch_def del: epochNumF.simps)

lemma epochHeightF_1:
  assumes "divisors_ok p" "e = 0 \<or> \<not> dardanellesOn p \<or> e \<le> dEpoch p \<or> wakeHeight p = 0 \<or> e \<le> wEpoch p"
  shows "epochHeightF (Suc (Suc (Suc (Suc n)))) p e = Inr (start1 p e)"
  using assms epochHeightF_0 [OF assms(1), of "dEpoch p" "Suc n"]
  by (auto simp: start1_def start0_def simp del: epochNumF.simps(2) epochHeightF.simps(2)
      simp add: epochHeightF.simps(2) [of _ p e])

lemma epochNumF_2:
  assumes "divisors_ok p"
  shows "epochNumF (Suc (Suc (Suc (Suc (Suc n))))) p h = Inr (num2 p h)"
proof (cases "h = 0 \<or> \<not> dardanellesOn p \<or> h \<le> dardanellesHeight p \<or> wakeHeight p = 0 \<or> h \<le> wakeHeight p")
  case True
  then show ?thesis using epochNumF_1 [OF assms, of h "Suc (Suc n)"] by (auto simp: num2_def simp del: epochNumF.simps)
next
  case False
  then show ?thesis
    using assms epochHeightF_0 [OF assms, of "dEpoch p" "Suc (Suc n)"] epochHeightF_1 [OF assms, of "wEpoch p" n]
    by (auto simp: num2_def divisors_ok_def simp del: epochNumF.simps(2) epochHeightF.simps(2)
        simp add: epochNumF.simps(2) [of _ p h])
qed

lemma epochHeightF_2:
  assumes "divisors_ok p"
  shows "epochHeightF (Suc (Suc (Suc (Suc (Suc n))))) p e = Inr (start2 p e)"
proof (cases "e = 0 \<or> \<not> dardanellesOn p \<or> e \<le> dEpoch p \<or> wakeHeight p = 0 \<or> e \<le> wEpoch p")
  case True
  then show ?thesis using epochHeightF_1 [OF assms, of e "Suc n"] by (auto simp: start2_def simp del: epochHeightF.simps)
next
  case False
  then show ?thesis
    using assms epochHeightF_0 [OF assms, of "dEpoch p" "Suc (Suc n)"] epochHeightF_1 [OF assms, of "wEpoch p" n]
    by (auto simp: start2_def simp del: epochNumF.simps(2) epochHeightF.simps(2)
        simp add: epochHeightF.simps(2) [of _ p e])
qed

lemma GetEpochNum_eq: "divisors_ok p \<Longrightarrow> GetEpochNum p h = Inr (num2 p h)"
  using epochNumF_2 [of p 1 h] by (simp add: GetEpochNum_def epochFuel_def numeral_eq_Suc del: epochNumF.simps)

lemma GetEpochHeight_eq: "divisors_ok p \<Longrightarrow> GetEpochHeight p e = Inr (start2 p e)"
  using epochHeightF_2 [of p 1 e] by (simp add: GetEpochHeight_def epochFuel_def numeral_eq_Suc del: epochHeightF.simps)

section \<open>Epochs partition the chain\<close>

text \<open>
  The configuration of the network: both forks are on, in order, and an epoch never gets shorter.
\<close>

definition schedule_ok :: "RollDPoS \<Rightarrow> bool" where
  "schedule_ok p \<longleftrightarrow> dardanellesOn p \<and> 0 < dardanellesHeight p \<and> dardanellesHeight p < wakeHeight p \<and>
     0 < numDelegates p \<and> 0 < numSubEpochs p \<and> numSubEpochs p \<le> numSubEpochsDardanelles p \<and>
     numSubEpochsDardanelles p \<le> numSubEpochsWake p"

abbreviation len0 :: "RollDPoS \<Rightarrow> nat" where
  "len0 p \<equiv> unat (numDelegates p) * unat (numSubEpochs p)"
abbreviation len1 :: "RollDPoS \<Rightarrow> nat" where
  "len1 p \<equiv> unat (numDelegates p) * unat (numSubEpochsDardanelles p)"
abbreviation len2 :: "RollDPoS \<Rightarrow> nat" where
  "len2 p \<equiv> unat (numDelegates p) * unat (numSubEpochsWake p)"

lemma schedule_divisors: "schedule_ok p \<Longrightarrow> divisors_ok p"
  by (auto simp: schedule_ok_def divisors_ok_def word_gt_0)

text \<open>A height lies in the segment of its own epoch.\<close>

lemma segment:
  fixes S L h :: nat
  assumes "0 < L" "S \<le> h"
  shows "S + (h - S) div L * L \<le> h" "h < S + ((h - S) div L + 1) * L"
proof -
  have "(h - S) div L * L \<le> h - S" by simp
  then show "S + (h - S) div L * L \<le> h" using assms(2) by linarith
  have "h - S < ((h - S) div L + 1) * L" using assms(1) by (simp add: dividend_less_div_times)
  then show "h < S + ((h - S) div L + 1) * L" using assms(2) by linarith
qed

lemma unat_mult_fits:
  fixes a b c :: u64
  assumes "unat a * (unat b * unat c) < 2 ^ 64"
  shows "unat (a * b * c) = unat a * (unat b * unat c)"
proof -
  have "unat (a * b * c) = unat a * unat b * unat c mod 2 ^ 64"
    by (simp add: unat_word_ariths mod_mult_left_eq)
  then show ?thesis using assms by (simp add: mult.assoc)
qed

lemma unat_add_fits:
  fixes a b :: u64
  assumes "unat a + unat b < 2 ^ 64"
  shows "unat (a + b) = unat a + unat b"
  using assms by (simp add: unat_word_ariths)

lemma word_le_minus_one:
  fixes a b :: u64
  assumes "a < b"
  shows "a \<le> b - 1"
proof -
  have "(1 :: u64) \<le> b" using assms by (simp add: word_le_nat_alt word_less_nat_alt)
  then have "unat (b - 1) = unat b - 1" using unat_sub [of 1 b] by simp
  then show ?thesis using assms by (simp add: word_le_nat_alt word_less_nat_alt)
qed

text \<open>
  The abstract schedule over the natural numbers: three linear phases, each with the epoch and the
  height it starts from.
\<close>

definition nE1 :: "RollDPoS \<Rightarrow> nat" where
  "nE1 p = 1 + (unat (dardanellesHeight p) - 1) div len0 p"
definition nS1 :: "RollDPoS \<Rightarrow> nat" where
  "nS1 p = 1 + (nE1 p - 1) * len0 p"
definition nE2 :: "RollDPoS \<Rightarrow> nat" where
  "nE2 p = nE1 p + (unat (wakeHeight p) - nS1 p) div len1 p"
definition nS2 :: "RollDPoS \<Rightarrow> nat" where
  "nS2 p = nS1 p + (nE2 p - nE1 p) * len1 p"

definition specNum :: "RollDPoS \<Rightarrow> nat \<Rightarrow> nat" where
  "specNum p h = (if h \<le> unat (dardanellesHeight p) then 1 + (h - 1) div len0 p
     else if h \<le> unat (wakeHeight p) then nE1 p + (h - nS1 p) div len1 p
     else nE2 p + (h - nS2 p) div len2 p)"

definition specStart :: "RollDPoS \<Rightarrow> nat \<Rightarrow> nat" where
  "specStart p e = (if e \<le> nE1 p then 1 + (e - 1) * len0 p
     else if e \<le> nE2 p then nS1 p + (e - nE1 p) * len1 p
     else nS2 p + (e - nE2 p) * len2 p)"

lemma schedule_lens:
  assumes "schedule_ok p"
  shows "0 < len0 p" "len0 p \<le> len1 p" "len1 p \<le> len2 p"
    "0 < unat (dardanellesHeight p)" "unat (dardanellesHeight p) < unat (wakeHeight p)"
  using assms by (auto simp: schedule_ok_def word_less_nat_alt word_le_nat_alt mult_le_mono2)

lemma schedule_phases:
  assumes "schedule_ok p"
  shows "1 \<le> nE1 p" "nS1 p \<le> unat (dardanellesHeight p)" "unat (dardanellesHeight p) < nS1 p + len0 p"
    "nE1 p \<le> nE2 p" "nS2 p \<le> unat (wakeHeight p)" "unat (wakeHeight p) < nS2 p + len1 p"
    "nE1 p \<le> nS1 p" "nE2 p \<le> nS2 p"
proof -
  note l = schedule_lens [OF assms]
  show "1 \<le> nE1 p" "nE1 p \<le> nE2 p" by (simp_all add: nE1_def nE2_def)
  show s1: "nS1 p \<le> unat (dardanellesHeight p)" "unat (dardanellesHeight p) < nS1 p + len0 p"
    using segment [OF l(1), of 1 "unat (dardanellesHeight p)"] l(4)
    by (simp_all add: nS1_def nE1_def add_mult_distrib)
  have "0 < len1 p" "nS1 p \<le> unat (wakeHeight p)" using l s1 by linarith+
  then show "nS2 p \<le> unat (wakeHeight p)" "unat (wakeHeight p) < nS2 p + len1 p"
    using segment [of "len1 p" "nS1 p" "unat (wakeHeight p)"]
    by (simp_all add: nS2_def nE2_def add_mult_distrib)
  have "nE1 p - 1 \<le> (nE1 p - 1) * len0 p" using l(1) by simp
  then show e1: "nE1 p \<le> nS1 p" unfolding nS1_def by linarith
  have "nE2 p - nE1 p \<le> (nE2 p - nE1 p) * len1 p" using \<open>0 < len1 p\<close> by simp
  then show "nE2 p \<le> nS2 p" using e1 unfolding nS2_def by linarith
qed

lemma specStart_phase:
  assumes "schedule_ok p"
  shows "e \<le> nE1 p \<Longrightarrow> specStart p e = 1 + (e - 1) * len0 p"
    and "nE1 p \<le> e \<Longrightarrow> e \<le> nE2 p \<Longrightarrow> specStart p e = nS1 p + (e - nE1 p) * len1 p"
    and "nE2 p \<le> e \<Longrightarrow> specStart p e = nS2 p + (e - nE2 p) * len2 p"
  using schedule_phases(4) [OF assms] by (auto simp: specStart_def nS1_def nS2_def)

lemma specStart_step:
  assumes ok: "schedule_ok p" and "1 \<le> e"
  shows "e < nE1 p \<Longrightarrow> specStart p (Suc e) = specStart p e + len0 p"
    and "nE1 p \<le> e \<Longrightarrow> e < nE2 p \<Longrightarrow> specStart p (Suc e) = specStart p e + len1 p"
    and "nE2 p \<le> e \<Longrightarrow> specStart p (Suc e) = specStart p e + len2 p"
proof -
  have "(e - 1) * len0 p + len0 p = e * len0 p" using assms(2) by (cases e) simp_all
  then show "e < nE1 p \<Longrightarrow> specStart p (Suc e) = specStart p e + len0 p"
    by (simp add: specStart_phase(1) [OF ok])
  show "nE1 p \<le> e \<Longrightarrow> e < nE2 p \<Longrightarrow> specStart p (Suc e) = specStart p e + len1 p"
    by (simp add: specStart_phase(2) [OF ok] Suc_diff_le)
  show "nE2 p \<le> e \<Longrightarrow> specStart p (Suc e) = specStart p e + len2 p"
    by (simp add: specStart_phase(3) [OF ok] Suc_diff_le)
qed

lemma specStart_grows:
  assumes "schedule_ok p" "1 \<le> e"
  shows "specStart p e + len0 p \<le> specStart p (Suc e)"
    and "nE1 p \<le> e \<Longrightarrow> specStart p e + len1 p \<le> specStart p (Suc e)"
proof -
  note l = schedule_lens [OF assms(1)]
  consider "e < nE1 p" | "nE1 p \<le> e" "e < nE2 p" | "nE2 p \<le> e" by linarith
  then show "specStart p e + len0 p \<le> specStart p (Suc e)"
    by cases (use specStart_step [OF assms] l(2,3) in linarith)+
  consider "e < nE2 p" | "nE2 p \<le> e" by linarith
  then show "specStart p e + len1 p \<le> specStart p (Suc e)" if "nE1 p \<le> e"
    by cases (use specStart_step [OF assms] that l(2,3) in linarith)+
qed

lemma specStart_next:
  assumes "schedule_ok p" "1 \<le> e"
  shows "specStart p (Suc e) \<le> specStart p e + len2 p"
proof -
  consider "e < nE1 p" | "nE1 p \<le> e" "e < nE2 p" | "nE2 p \<le> e" by linarith
  then show ?thesis
    by cases (use specStart_step [OF assms] schedule_lens(2,3) [OF assms(1)] in linarith)+
qed

lemma specStart_mono:
  assumes "schedule_ok p" "1 \<le> e" "e < e'"
  shows "specStart p e < specStart p e'"
  using assms(3)
proof (induction e')
  case (Suc e')
  have step: "specStart p e' < specStart p (Suc e')" if "1 \<le> e'"
    using specStart_grows(1) [OF assms(1) that] schedule_lens(1) [OF assms(1)] by linarith
  show ?case
  proof (cases "e = e'")
    case True
    then show ?thesis using step assms(2) by simp
  next
    case False
    then show ?thesis using Suc step assms(2) by simp
  qed
qed simp

lemma specStart_ge: "schedule_ok p \<Longrightarrow> e \<le> specStart p e"
proof (induction e)
  case (Suc e)
  show ?case
  proof (cases "e = 0")
    case True
    then show ?thesis using schedule_phases(1) [OF Suc.prems] by (simp add: specStart_def)
  next
    case False
    then show ?thesis using Suc specStart_mono [of p e "Suc e"] by simp
  qed
qed simp

text \<open>Every height lies in its epoch.\<close>

lemma specNum_segment:
  assumes ok: "schedule_ok p" and "1 \<le> h"
  shows "1 \<le> specNum p h \<and> specStart p (specNum p h) \<le> h \<and> h < specStart p (Suc (specNum p h))"
proof -
  note l = schedule_lens [OF ok] and f = schedule_phases [OF ok]
  consider "h \<le> unat (dardanellesHeight p)" | "unat (dardanellesHeight p) < h" "h \<le> unat (wakeHeight p)"
    | "unat (wakeHeight p) < h" by linarith
  then show ?thesis
  proof cases
    case 1
    let ?e = "1 + (h - 1) div len0 p"
    have "?e \<le> nE1 p" using 1 by (simp add: nE1_def div_le_mono)
    then have "h < specStart p ?e + len0 p" "specStart p ?e \<le> h"
      using segment [OF l(1) assms(2)] by (simp_all add: specStart_phase(1) [OF ok] add_mult_distrib)
    moreover have "specNum p h = ?e" using 1 by (simp add: specNum_def)
    ultimately show ?thesis using specStart_grows(1) [OF ok, of ?e] by simp
  next
    case 2
    let ?e = "nE1 p + (h - nS1 p) div len1 p"
    have L: "0 < len1 p" "nS1 p \<le> h" using l f 2 by linarith+
    have "?e \<le> nE2 p" using 2 by (simp add: nE2_def div_le_mono diff_le_mono)
    then have "h < specStart p ?e + len1 p" "specStart p ?e \<le> h"
      using segment [OF L] by (simp_all add: specStart_phase(2) [OF ok] add_mult_distrib)
    moreover have "specNum p h = ?e" using 2 by (simp add: specNum_def)
    ultimately show ?thesis using specStart_grows(2) [OF ok, of ?e] f(1) by simp
  next
    case 3
    let ?e = "nE2 p + (h - nS2 p) div len2 p"
    have L: "0 < len2 p" "nS2 p \<le> h" using l f 3 by linarith+
    have "h < specStart p ?e + len2 p" "specStart p ?e \<le> h"
      using segment [OF L] by (simp_all add: specStart_phase(3) [OF ok] add_mult_distrib)
    moreover have "specNum p h = ?e" using 3 l by (simp add: specNum_def)
    ultimately show ?thesis using specStart_step(3) [OF ok, of ?e] f by simp
  qed
qed

lemma specNum_unique:
  assumes "schedule_ok p" "1 \<le> h" "1 \<le> e" "specStart p e \<le> h" "h < specStart p (Suc e)"
  shows "specNum p h = e"
proof -
  note n = specNum_segment [OF assms(1,2)]
  have mono: "specStart p i \<le> specStart p j" if "1 \<le> i" "i \<le> j" for i j
    using specStart_mono [OF assms(1) that(1), of j] that(2) by (cases "i = j") auto
  show ?thesis
  proof (cases "specNum p h" e rule: linorder_cases)
    case less
    then show ?thesis using mono [of "Suc (specNum p h)" e] n assms(4) by simp
  next
    case greater
    then show ?thesis using mono [of "Suc e" "specNum p h"] n assms(5) by simp
  qed
qed

section \<open>The 64-bit computation implements the schedule\<close>

lemma phase_num:
  fixes E S h d n :: u64
  assumes "S \<le> h" "unat E \<le> unat S"
  shows "unat (E + (h - S) div d div n) = unat E + (unat h - unat S) div (unat d * unat n)"
proof -
  have q: "unat ((h - S) div d div n) = (unat h - unat S) div (unat d * unat n)"
    using assms(1) by (simp add: unat_div unat_sub div_mult2_eq)
  have "unat S \<le> unat h" using assms(1) by (simp add: word_le_nat_alt)
  then have "unat E + (unat h - unat S) div (unat d * unat n) \<le> unat h"
    using assms(2) div_le_dividend [of "unat h - unat S" "unat d * unat n"] by linarith
  also have "\<dots> < 2 ^ 64" using unsigned_less [of h, where 'a = nat] by simp
  finally show ?thesis by (subst unat_add_fits) (simp_all add: q)
qed

lemma phase_start:
  fixes E S e d n :: u64
  assumes "E \<le> e" "unat S + (unat e - unat E) * (unat d * unat n) < 2 ^ 64"
  shows "unat (S + (e - E) * d * n) = unat S + (unat e - unat E) * (unat d * unat n)"
proof -
  have "unat ((e - E) * d * n) = (unat e - unat E) * (unat d * unat n)"
    using assms by (subst unat_mult_fits) (simp_all add: unat_sub)
  then show ?thesis using assms(2) by (subst unat_add_fits) simp_all
qed

lemma unat_num0: "h \<noteq> 0 \<Longrightarrow> unat (num0 p h) = 1 + (unat h - 1) div len0 p"
  using phase_num [of 1 h 1 "numDelegates p" "numSubEpochs p"]
  by (simp add: num0_def add.commute word_le_nat_alt unat_gt_0 Suc_le_eq)

lemma unat_start0:
  "e \<noteq> 0 \<Longrightarrow> 1 + (unat e - 1) * len0 p < 2 ^ 64 \<Longrightarrow> unat (start0 p e) = 1 + (unat e - 1) * len0 p"
  using phase_start [of 1 e 1 "numDelegates p" "numSubEpochs p"]
  by (simp add: start0_def add.commute word_le_nat_alt unat_gt_0 Suc_le_eq)

lemma dEpoch_nat:
  assumes ok: "schedule_ok p"
  shows "unat (dEpoch p) = nE1 p" "unat (start0 p (dEpoch p)) = nS1 p" "dEpoch p \<noteq> 0"
proof -
  have d: "dardanellesHeight p \<noteq> 0" using ok by (auto simp: schedule_ok_def)
  show e: "unat (dEpoch p) = nE1 p" by (simp add: dEpoch_def unat_num0 [OF d] nE1_def)
  then show n: "dEpoch p \<noteq> 0" using schedule_phases(1) [OF ok] by (metis not_one_le_zero unat_0)
  have "nS1 p < 2 ^ 64"
    using schedule_phases(2) [OF ok] unsigned_less [of "dardanellesHeight p", where 'a = nat] by simp
  then show "unat (start0 p (dEpoch p)) = nS1 p"
    using unat_start0 [OF n, of p] by (simp add: e nS1_def)
qed

lemma unat_num1:
  assumes ok: "schedule_ok p" and h: "dardanellesHeight p < h"
  shows "unat (num1 p h) = nE1 p + (unat h - nS1 p) div len1 p"
proof -
  have "start0 p (dEpoch p) \<le> h"
    using schedule_phases(2) [OF ok] h by (simp add: word_le_nat_alt word_less_nat_alt dEpoch_nat [OF ok])
  then have "unat (dEpoch p + (h - start0 p (dEpoch p)) div numDelegates p div numSubEpochsDardanelles p) =
      nE1 p + (unat h - nS1 p) div len1 p"
    using schedule_phases(7) [OF ok] by (simp add: phase_num dEpoch_nat [OF ok])
  moreover have "dardanellesOn p" "h \<noteq> 0" using ok h by (auto simp: schedule_ok_def)
  ultimately show ?thesis using h by (simp add: num1_def not_le [symmetric])
qed

lemma unat_start1:
  assumes ok: "schedule_ok p" and e: "nE1 p \<le> unat e" and fits: "nS1 p + (unat e - nE1 p) * len1 p < 2 ^ 64"
  shows "unat (start1 p e) = nS1 p + (unat e - nE1 p) * len1 p"
proof (cases "e \<le> dEpoch p")
  case True
  then have "e = dEpoch p" using e by (simp add: word_le_nat_alt dEpoch_nat [OF ok] word_unat_eq_iff)
  then show ?thesis by (simp add: start1_def dEpoch_nat [OF ok])
next
  case False
  then have "e \<noteq> 0" "dardanellesOn p" using ok by (auto simp: schedule_ok_def)
  then show ?thesis
    using False fits phase_start [of "dEpoch p" e "start0 p (dEpoch p)"]
    by (simp add: start1_def dEpoch_nat [OF ok])
qed

lemma wEpoch_nat:
  assumes ok: "schedule_ok p"
  shows "unat (wEpoch p) = nE2 p" "unat (start1 p (wEpoch p)) = nS2 p"
proof -
  have "dardanellesHeight p < wakeHeight p" using ok by (simp add: schedule_ok_def)
  then show e: "unat (wEpoch p) = nE2 p" by (simp add: wEpoch_def unat_num1 [OF ok] nE2_def)
  have "nS2 p < 2 ^ 64"
    using schedule_phases(5) [OF ok] unsigned_less [of "wakeHeight p", where 'a = nat] by simp
  then show "unat (start1 p (wEpoch p)) = nS2 p"
    using schedule_phases(4) [OF ok] by (subst unat_start1 [OF ok]) (simp_all add: e nS2_def)
qed

lemma unat_num2:
  assumes ok: "schedule_ok p" and h: "h \<noteq> 0"
  shows "unat (num2 p h) = specNum p (unat h)"
proof -
  note l = schedule_lens [OF ok]
  have w: "wakeHeight p \<noteq> 0" "dardanellesOn p" using ok by (auto simp: schedule_ok_def)
  consider "h \<le> dardanellesHeight p" | "dardanellesHeight p < h" "h \<le> wakeHeight p" | "wakeHeight p < h"
    by (meson not_le)
  then show ?thesis
  proof cases
    case 1
    then show ?thesis by (simp add: num2_def num1_def specNum_def unat_num0 [OF h] word_le_nat_alt)
  next
    case 2
    then show ?thesis
      by (simp add: num2_def specNum_def unat_num1 [OF ok] word_le_nat_alt word_less_nat_alt)
  next
    case 3
    then have "start1 p (wEpoch p) \<le> h"
      using schedule_phases(5) [OF ok] by (simp add: word_le_nat_alt word_less_nat_alt wEpoch_nat [OF ok])
    then have "unat (wEpoch p + (h - start1 p (wEpoch p)) div numDelegates p div numSubEpochsWake p) =
        nE2 p + (unat h - nS2 p) div len2 p"
      using schedule_phases(8) [OF ok] by (simp add: phase_num wEpoch_nat [OF ok])
    then show ?thesis using 3 w l(5) h by (auto simp: num2_def specNum_def word_le_nat_alt word_less_nat_alt)
  qed
qed

lemma unat_start2:
  assumes ok: "schedule_ok p" and e: "e \<noteq> 0" and fits: "specStart p (unat e) < 2 ^ 64"
  shows "unat (start2 p e) = specStart p (unat e)"
proof -
  have w: "wakeHeight p \<noteq> 0" "dardanellesOn p" using ok by (auto simp: schedule_ok_def)
  consider "e \<le> dEpoch p" | "dEpoch p < e" "e \<le> wEpoch p" | "dEpoch p < e" "wEpoch p < e"
    by (meson not_le)
  then show ?thesis
  proof cases
    case 1
    then have "unat e \<le> nE1 p" by (simp add: word_le_nat_alt dEpoch_nat [OF ok])
    then show ?thesis using 1 fits
      by (simp add: start2_def start1_def unat_start0 [OF e] specStart_phase(1) [OF ok])
  next
    case 2
    then have "nE1 p \<le> unat e" "unat e \<le> nE2 p"
      by (simp_all add: word_le_nat_alt word_less_nat_alt dEpoch_nat [OF ok] wEpoch_nat [OF ok])
    then show ?thesis using 2 fits
      by (simp add: start2_def unat_start1 [OF ok] specStart_phase(2) [OF ok])
  next
    case 3
    then have n: "nE2 p \<le> unat e" by (simp add: word_less_nat_alt wEpoch_nat [OF ok])
    have "unat (start1 p (wEpoch p) + (e - wEpoch p) * numDelegates p * numSubEpochsWake p) =
        nS2 p + (unat e - nE2 p) * len2 p"
      using 3 fits n phase_start [of "wEpoch p" e "start1 p (wEpoch p)"]
      by (simp add: wEpoch_nat [OF ok] specStart_phase(3) [OF ok])
    then show ?thesis using 3 w e n by (auto simp: start2_def specStart_phase(3) [OF ok])
  qed
qed

lemma specNum_pos: "schedule_ok p \<Longrightarrow> h \<noteq> 0 \<Longrightarrow> num2 p h \<noteq> 0"
  using specNum_segment [of p "unat h"] unat_num2 [of p h]
  by (auto simp: unat_gt_0 Suc_le_eq)

text \<open>With its fuel spent one call deeper, each function still returns the same.\<close>

lemma GetEpochNum_more_fuel: "divisors_ok p \<Longrightarrow> GetEpochNum p height = epochNumF (Suc epochFuel) p height"
  using epochNumF_2 [of p 2 height] GetEpochNum_eq [of p height]
  by (simp add: epochFuel_def numeral_eq_Suc del: epochNumF.simps)

lemma GetEpochHeight_more_fuel: "divisors_ok p \<Longrightarrow> GetEpochHeight p epochNum = epochHeightF (Suc epochFuel) p epochNum"
  using epochHeightF_2 [of p 2 epochNum] GetEpochHeight_eq [of p epochNum]
  by (simp add: epochFuel_def numeral_eq_Suc del: epochHeightF.simps)

text \<open>
  Property C33.  The mutual recursion of \<^verbatim>\<open>GetEpochNum\<close> and \<^verbatim>\<open>GetEpochHeight\<close> returns for every
  height and epoch when the divisors are not zero: the nesting never exceeds the fuel, so that both
  functions satisfy the equations of the source, with all recursive calls unrestricted and the
  arithmetic of 64 bits.
\<close>

theorem GetEpochNum_equation:
  assumes "divisors_ok p"
  shows "(\<exists>e. GetEpochNum p height = Inr e) \<and> (\<exists>h. GetEpochHeight p epochNum = Inr h) \<and>
    GetEpochNum p height =
     (if height = 0 then Inr 0
      else if \<not> dardanellesOn p \<or> height \<le> dardanellesHeight p then
        Inr ((height - 1) div numDelegates p div numSubEpochs p + 1)
      else
        bindR (GetEpochNum p (dardanellesHeight p)) (\<lambda>dardanellesEpoch.
        bindR (GetEpochHeight p dardanellesEpoch) (\<lambda>dardanellesEpochHeight.
        if wakeHeight p = 0 \<or> height \<le> wakeHeight p then
          Inr (dardanellesEpoch +
               (height - dardanellesEpochHeight) div numDelegates p div numSubEpochsDardanelles p)
        else
          bindR (GetEpochNum p (wakeHeight p)) (\<lambda>wakeEpoch.
          bindR (GetEpochHeight p wakeEpoch) (\<lambda>wakeEpochHeight.
          Inr (wakeEpoch + (height - wakeEpochHeight) div numDelegates p div numSubEpochsWake p)))))) \<and>
    GetEpochHeight p epochNum =
     (if epochNum = 0 then Inr 0
      else
        bindR (GetEpochNum p (dardanellesHeight p)) (\<lambda>dardanellesEpoch.
        if \<not> dardanellesOn p \<or> epochNum \<le> dardanellesEpoch then
          Inr ((epochNum - 1) * numDelegates p * numSubEpochs p + 1)
        else
          bindR (GetEpochHeight p dardanellesEpoch) (\<lambda>dardanellesEpochHeight.
          bindR (GetEpochNum p (wakeHeight p)) (\<lambda>wakeEpoch.
          if wakeHeight p = 0 \<or> epochNum \<le> wakeEpoch then
            Inr (dardanellesEpochHeight +
                 (epochNum - dardanellesEpoch) * numDelegates p * numSubEpochsDardanelles p)
          else
            bindR (GetEpochHeight p wakeEpoch) (\<lambda>wakeEpochHeight.
            Inr (wakeEpochHeight + (epochNum - wakeEpoch) * numDelegates p * numSubEpochsWake p))))))"
    (is "?returns \<and> ?returnsH \<and> _ = ?num \<and> _ = ?height")
proof (intro conjI)
  show ?returns ?returnsH using GetEpochNum_eq [OF assms] GetEpochHeight_eq [OF assms] by blast+
  show "GetEpochNum p height = ?num"
    using assms GetEpochNum_eq [OF assms] GetEpochHeight_eq [OF assms]
    by (subst GetEpochNum_more_fuel [OF assms], subst epochNumF.simps(2))
       (auto simp: divisors_ok_def simp flip: GetEpochNum_def GetEpochHeight_def)
  show "GetEpochHeight p epochNum = ?height"
    using GetEpochNum_eq [OF assms] GetEpochHeight_eq [OF assms]
    by (subst GetEpochHeight_more_fuel [OF assms], subst epochHeightF.simps(2))
       (auto simp flip: GetEpochNum_def GetEpochHeight_def)
qed

text \<open>The configuration of the main network.\<close>

definition mainnet :: RollDPoS where
  "mainnet = NewProtocol 36 24 15
     [EnableDardanellesSubEpoch 1816201 30, EnableWakeSubEpoch 36893881 60]"

theorem GetEpochNum_equation_witness:
  "GetEpochNum mainnet 40000000 = Inr 55922 \<and> GetEpochHeight mainnet 55922 = Inr 39999961 \<and>
   GetEpochHeight mainnet 55922 =
     bindR (GetEpochNum mainnet 36893881) (\<lambda>wakeEpoch. bindR (GetEpochHeight mainnet wakeEpoch) (\<lambda>wakeEpochHeight.
       Inr (wakeEpochHeight + (55922 - wakeEpoch) * 24 * 60)))"
proof -
  have ok: "divisors_ok mainnet" by code_simp
  have vals: "GetEpochNum mainnet 40000000 = Inr 55922" "GetEpochHeight mainnet 55922 = Inr 39999961"
    "GetEpochNum mainnet 1816201 = Inr 5046" "GetEpochNum mainnet 36893881 = Inr 53765"
    "GetEpochHeight mainnet 5046 = Inr 1816201"
    by code_simp+
  have conf: "dardanellesOn mainnet" "dardanellesHeight mainnet = 1816201" "wakeHeight mainnet = 36893881"
    "numDelegates mainnet = 24" "numSubEpochsWake mainnet = 60"
    by code_simp+
  have "GetEpochHeight mainnet 55922 =
     bindR (GetEpochNum mainnet 36893881) (\<lambda>wakeEpoch. bindR (GetEpochHeight mainnet wakeEpoch) (\<lambda>wakeEpochHeight.
       Inr (wakeEpochHeight + (55922 - wakeEpoch) * 24 * 60)))"
    using GetEpochNum_equation [OF ok, of 0 55922] vals(3,4,5) conf by simp
  then show ?thesis using vals by blast
qed

text \<open>
  Property C34.  The epochs partition the chain: a block height lies between the first and the last
  height of its epoch, both included, on all three phases of the schedule.
\<close>

theorem epoch_contains_height:
  assumes ok: "schedule_ok p" and h: "height \<noteq> 0" and fits: "unat height + len2 p < 2 ^ 64"
  shows "\<exists>e first last. GetEpochNum p height = Inr e \<and> GetEpochHeight p e = Inr first \<and>
    GetEpochLastBlockHeight p e = Inr last \<and> 0 < e \<and> first \<le> height \<and> height \<le> last"
proof -
  let ?e = "num2 p height"
  note d = schedule_divisors [OF ok]
  have h1: "1 \<le> unat height" using h by (simp add: Suc_le_eq unat_gt_0)
  note s = specNum_segment [OF ok h1]
  have e: "unat ?e = specNum p (unat height)" "?e \<noteq> 0" using unat_num2 [OF ok h] specNum_pos [OF ok h] by simp_all
  have start: "unat (start2 p ?e) = specStart p (unat ?e)"
    using s fits by (intro unat_start2 [OF ok e(2)]) (simp add: e(1))
  have next_le: "specStart p (Suc (unat ?e)) \<le> unat height + len2 p"
    using s specStart_next [OF ok, of "unat ?e"] e(1) by simp
  have "unat ?e + unat (1 :: u64) < 2 ^ 64"
    using specStart_ge [OF ok, of "Suc (unat ?e)"] next_le fits by simp
  then have suc: "unat (?e + 1) = Suc (unat ?e)" using unat_add_fits [of ?e 1] by simp
  then have suc': "?e + 1 \<noteq> 0" by (metis nat.distinct(1) unat_0)
  have nxt: "unat (start2 p (?e + 1)) = specStart p (Suc (unat ?e))"
    using next_le fits by (subst unat_start2 [OF ok suc']) (simp_all add: suc)
  have "height < start2 p (?e + 1)" using s nxt e(1) by (simp add: word_less_nat_alt)
  then have "height \<le> start2 p (?e + 1) - 1" by (rule word_le_minus_one)
  then show ?thesis
    using s start e by (auto simp: GetEpochNum_eq [OF d] GetEpochHeight_eq [OF d]
        GetEpochLastBlockHeight_def word_le_nat_alt word_gt_0)
qed

theorem epoch_contains_height_witness:
  "\<exists>e first last. GetEpochNum mainnet 40000000 = Inr e \<and> GetEpochHeight mainnet e = Inr first \<and>
    GetEpochLastBlockHeight mainnet e = Inr last \<and> 0 < e \<and> first \<le> 40000000 \<and> 40000000 \<le> last"
proof (rule epoch_contains_height)
  show "schedule_ok mainnet" by code_simp
qed (simp_all add: mainnet_def NewProtocol_def EnableDardanellesSubEpoch_def EnableWakeSubEpoch_def)

text \<open>
  Property C35.  The first height of an epoch belongs to that epoch: \<^verbatim>\<open>GetEpochNum\<close> inverts
  \<^verbatim>\<open>GetEpochHeight\<close> as long as the height fits in 64 bits.
\<close>

theorem GetEpochNum_GetEpochHeight:
  assumes ok: "schedule_ok p" and e: "e \<noteq> 0" and fits: "specStart p (unat e) < 2 ^ 64"
  shows "bindR (GetEpochHeight p e) (GetEpochNum p) = Inr e"
proof -
  note d = schedule_divisors [OF ok]
  have e1: "1 \<le> unat e" using e by (simp add: Suc_le_eq unat_gt_0)
  have start: "unat (start2 p e) = specStart p (unat e)" by (rule unat_start2 [OF ok e fits])
  have s1: "1 \<le> specStart p (unat e)" using specStart_ge [OF ok, of "unat e"] e1 by linarith
  then have "start2 p e \<noteq> 0" using start by (metis not_one_le_zero unat_0)
  then have "unat (num2 p (start2 p e)) = specNum p (specStart p (unat e))"
    by (simp add: unat_num2 [OF ok] start)
  also have "\<dots> = unat e"
    using specStart_mono [OF ok e1, of "Suc (unat e)"] by (intro specNum_unique [OF ok s1 e1]) simp_all
  finally show ?thesis by (simp add: GetEpochHeight_eq [OF d] GetEpochNum_eq [OF d] word_unat_eq_iff)
qed

theorem GetEpochNum_GetEpochHeight_witness:
  "bindR (GetEpochHeight mainnet 60000) (GetEpochNum mainnet) = Inr 60000"
proof (rule GetEpochNum_GetEpochHeight)
  show "schedule_ok mainnet" by code_simp
  show "specStart mainnet (unat (60000 :: u64)) < 2 ^ 64"
    by (simp add: specStart_def nE1_def nE2_def nS1_def nS2_def mainnet_def NewProtocol_def
        EnableDardanellesSubEpoch_def EnableWakeSubEpoch_def)
qed simp

end
