(* ===== verification/BigInt.thy ===== *)
theory BigInt
  imports Prelude
begin

text \<open>
  The part of Go's \<^verbatim>\<open>math/big\<close> the sources use to store amounts: \<^verbatim>\<open>Int.String\<close> and
  \<^verbatim>\<open>Int.SetString(s, 10)\<close>, which render and parse signed decimal strings, and \<^verbatim>\<open>Int.Bytes\<close>
  and \<^verbatim>\<open>Int.SetBytes\<close>, the big-endian bytes of the absolute value.  Both pairs round-trip,
  which is what the serialization code of every component relies on.  \<^verbatim>\<open>Int.Div\<close> is Euclidean
  division, which differs from HOL's floor division on negative divisors.
\<close>

section \<open>Division\<close>

definition big_Div :: "int \<Rightarrow> int \<Rightarrow> int" where
  "big_Div x y = (if y < 0 then - (x div (- y)) else x div y)"

lemma big_Div_pos [simp]: "0 < y \<Longrightarrow> big_Div x y = x div y"
  by (simp add: big_Div_def)

lemma big_Div_euclidean:
  assumes "y \<noteq> 0"
  shows "0 \<le> x - y * big_Div x y \<and> x - y * big_Div x y < \<bar>y\<bar>"
proof -
  have "x - y * big_Div x y = x mod \<bar>y\<bar>"
    using assms by (auto simp: big_Div_def abs_if minus_div_mult_eq_mod [symmetric] algebra_simps)
  then show ?thesis using assms by simp
qed

section \<open>Decimal strings\<close>

fun dec_of_nat :: "nat \<Rightarrow> string" where
  "dec_of_nat n = (if n < 10 then [char_of (48 + n)]
     else dec_of_nat (n div 10) @ [char_of (48 + n mod 10)])"

declare dec_of_nat.simps [simp del]

definition big_String :: "int \<Rightarrow> string" where
  "big_String i = (if i < 0 then CHR ''-'' # dec_of_nat (nat (- i)) else dec_of_nat (nat i))"

definition digit_val :: "char \<Rightarrow> nat option" where
  "digit_val c = (let k = of_char c in if 48 \<le> k \<and> k \<le> 57 then Some (k - 48) else None)"

fun dec_acc :: "nat \<Rightarrow> string \<Rightarrow> nat option" where
  "dec_acc a [] = Some a"
| "dec_acc a (c # cs) = (case digit_val c of None \<Rightarrow> None | Some d \<Rightarrow> dec_acc (10 * a + d) cs)"

definition parse_dec :: "string \<Rightarrow> nat option" where
  "parse_dec s = (if s = [] then None else dec_acc 0 s)"

text \<open>An optional sign followed by at least one decimal digit and nothing else.\<close>

definition big_SetString :: "string \<Rightarrow> int option" where
  "big_SetString s = (case s of
       [] \<Rightarrow> None
     | c # cs \<Rightarrow>
         (if c = CHR ''-'' then map_option (\<lambda>n. - int n) (parse_dec cs)
          else if c = CHR ''+'' then map_option int (parse_dec cs)
          else map_option int (parse_dec s)))"

lemma digit_val_char_of [simp]: "d < 10 \<Longrightarrow> digit_val (char_of (48 + d)) = Some d"
  by (simp add: digit_val_def Let_def)

lemma dec_acc_append:
  "dec_acc a (xs @ ys) = (case dec_acc a xs of None \<Rightarrow> None | Some b \<Rightarrow> dec_acc b ys)"
  by (induction xs arbitrary: a) (auto split: option.splits)

lemma dec_of_nat_nonempty [simp]: "dec_of_nat n \<noteq> []"
  by (subst dec_of_nat.simps) simp

lemma dec_acc_dec_of_nat: "dec_acc 0 (dec_of_nat n) = Some n"
proof (induction n rule: dec_of_nat.induct)
  case (1 n)
  show ?case
  proof (cases "n < 10")
    case True
    then show ?thesis by (simp add: dec_of_nat.simps [of n])
  next
    case False
    then show ?thesis using 1 by (simp add: dec_of_nat.simps [of n] dec_acc_append)
  qed
qed

lemma dec_of_nat_digits: "c \<in> set (dec_of_nat n) \<Longrightarrow> \<exists>d<(10::nat). c = char_of (48 + d)"
proof (induction n rule: dec_of_nat.induct)
  case (1 n)
  show ?case
  proof (cases "n < 10")
    case True
    then show ?thesis using "1.prems" by (auto simp: dec_of_nat.simps [of n])
  next
    case False
    then consider "c \<in> set (dec_of_nat (n div 10))" | "c = char_of (48 + n mod 10)"
      using "1.prems" by (auto simp: dec_of_nat.simps [of n])
    then show ?thesis
    proof cases
      case 1
      then show ?thesis using "1.IH" False by blast
    next
      case 2
      then show ?thesis by (intro exI [of _ "n mod 10"]) simp
    qed
  qed
qed

lemma digit_not_sign: "d < (10::nat) \<Longrightarrow> char_of (48 + d) \<noteq> CHR ''-'' \<and> char_of (48 + d) \<noteq> CHR ''+''"
proof -
  have "digit_val CHR ''-'' = None" "digit_val CHR ''+'' = None"
    by (simp_all add: digit_val_def)
  then show "d < 10 \<Longrightarrow> ?thesis" by (metis digit_val_char_of option.distinct(1))
qed

theorem big_SetString_String [simp]: "big_SetString (big_String i) = Some i"
proof (cases "i < 0")
  case True
  then show ?thesis
    by (simp add: big_String_def big_SetString_def parse_dec_def dec_acc_dec_of_nat)
next
  case False
  obtain c cs where eq: "dec_of_nat (nat i) = c # cs"
    using dec_of_nat_nonempty [of "nat i"] by (cases "dec_of_nat (nat i)") auto
  then have "c \<noteq> CHR ''-''" "c \<noteq> CHR ''+''"
    using dec_of_nat_digits [of c "nat i"] digit_not_sign by auto
  then show ?thesis using False eq dec_acc_dec_of_nat [of "nat i"]
    by (simp add: big_String_def big_SetString_def parse_dec_def)
qed

lemma big_String_nonempty [simp]: "big_String i \<noteq> []"
  by (simp add: big_String_def)

section \<open>Big-endian bytes\<close>

fun be_bytes :: "nat \<Rightarrow> byte list" where
  "be_bytes n = (if n = 0 then [] else be_bytes (n div 256) @ [of_nat (n mod 256)])"

declare be_bytes.simps [simp del]

definition big_Bytes :: "int \<Rightarrow> byte list" where
  "big_Bytes i = be_bytes (nat \<bar>i\<bar>)"

definition be_nat :: "byte list \<Rightarrow> nat" where
  "be_nat bs = foldl (\<lambda>a b. a * 256 + unat b) 0 bs"

definition big_SetBytes :: "byte list \<Rightarrow> int" where
  "big_SetBytes bs = int (be_nat bs)"

lemma be_nat_snoc: "be_nat (bs @ [b]) = be_nat bs * 256 + unat b"
  by (simp add: be_nat_def)

lemma be_nat_be_bytes [simp]: "be_nat (be_bytes n) = n"
proof (induction n rule: be_bytes.induct)
  case (1 n)
  show ?case
  proof (cases "n = 0")
    case True
    then show ?thesis by (simp add: be_bytes.simps be_nat_def)
  next
    case False
    then have "be_nat (be_bytes n) = n div 256 * 256 + unat (of_nat (n mod 256) :: byte)"
      using 1 by (simp add: be_bytes.simps [of n] be_nat_snoc)
    also have "unat (of_nat (n mod 256) :: byte) = n mod 256"
      by (simp add: unat_of_nat)
    finally show ?thesis by simp
  qed
qed

theorem big_SetBytes_Bytes [simp]: "big_SetBytes (big_Bytes i) = \<bar>i\<bar>"
  by (simp add: big_SetBytes_def big_Bytes_def)

end
