(* ===== verification/CandidateCenter.thy ===== *)
theory CandidateCenter
  imports BigInt "HOL-Library.AList"
begin

text \<open>
  Candidates and the candidate center: \<^verbatim>\<open>action/protocol/staking/candidate.go\<close>,
  \<^verbatim>\<open>candidate_center.go\<close> and \<^verbatim>\<open>candidate_center_extra.go\<close>.

  The Go structs are the records \<open>Candidate\<close>, \<open>candChange\<close>, \<open>candBase\<close> and \<open>CandidateCenter\<close>.
  Fields that \<^verbatim>\<open>Validate\<close> requires not to be nil (owner, operator, reward, votes, self stake) are
  values here, so that of \<^verbatim>\<open>Validate\<close> only the test of the name is left.  The maps that are
  iterated over (\<^verbatim>\<open>dirty\<close>, \<^verbatim>\<open>identifierMap\<close>) are association lists: Go iterates in an arbitrary
  order, and the lemmas show that what is looked up does not depend on it; the others are maps.

  \<open>cands\<close> is the abstract state of a center, a map from identifiers to candidates.  The lemmas
  show that an accepted update is an update of that map, that names, owners, operators and
  self-stake buckets stay unique, and that committing the change does not alter what is visible.
\<close>

section \<open>Candidates (candidate.go)\<close>

record Candidate =
  cOwner :: addr
  cOperator :: addr
  cReward :: addr
  cIdentifier :: "addr option"
  cBLSPubKey :: "byte list"
  cName :: string
  cVotes :: int
  cSelfStakeBucketIdx :: u64
  cSelfStake :: int

definition candidateNoSelfStakeBucketIndex :: u64 where
  "candidateNoSelfStakeBucketIndex = 18446744073709551615"

definition GetIdentifier :: "Candidate \<Rightarrow> addr" where
  "GetIdentifier d = (case cIdentifier d of None \<Rightarrow> cOwner d | Some i \<Rightarrow> i)"

lemma GetIdentifier_update [simp]:
  "GetIdentifier (d\<lparr>cVotes := v\<rparr>) = GetIdentifier d"
  "GetIdentifier (d\<lparr>cSelfStake := v\<rparr>) = GetIdentifier d"
  "GetIdentifier (d\<lparr>cSelfStakeBucketIdx := i\<rparr>) = GetIdentifier d"
  "GetIdentifier (d\<lparr>cName := n\<rparr>) = GetIdentifier d"
  "GetIdentifier (d\<lparr>cOperator := a\<rparr>) = GetIdentifier d"
  "GetIdentifier (d\<lparr>cReward := a\<rparr>) = GetIdentifier d"
  "GetIdentifier (d\<lparr>cBLSPubKey := k\<rparr>) = GetIdentifier d"
  by (simp_all add: GetIdentifier_def split: option.splits)

definition Validate :: "Candidate \<Rightarrow> unit res" where
  "Validate d = checkR (cName d \<noteq> []) ErrInvalidCanName"

definition isSelfStakeBucketSettled :: "Candidate \<Rightarrow> bool" where
  "isSelfStakeBucketSettled d \<longleftrightarrow> cSelfStakeBucketIdx d \<noteq> candidateNoSelfStakeBucketIndex"

definition Collision :: "Candidate \<Rightarrow> Candidate \<Rightarrow> unit res" where
  "Collision d c =
     (if cOwner d = cOwner c \<or> GetIdentifier d = GetIdentifier c then Inr ()
      else if cOwner d = cOwner c then Inl ErrInvalidOwner
      else if cName c = cName d then Inl ErrInvalidCanName
      else if cOperator c = cOperator d then Inl ErrInvalidOperator
      else if cSelfStakeBucketIdx c = cSelfStakeBucketIdx d \<and> isSelfStakeBucketSettled c
        then Inl ErrInvalidSelfStkIndex
      else Inr ())"

definition AddVote :: "int \<Rightarrow> Candidate \<Rightarrow> Candidate res" where
  "AddVote amount d =
     (if amount < 0 then Inl ErrInvalidAmount else Inr (d\<lparr>cVotes := cVotes d + amount\<rparr>))"

definition SubVote :: "int \<Rightarrow> Candidate \<Rightarrow> Candidate res" where
  "SubVote amount d =
     (if amount < 0 then Inl ErrInvalidAmount
      else if cVotes d < amount then Inl ErrInvalidAmount
      else Inr (d\<lparr>cVotes := cVotes d - amount\<rparr>))"

definition AddSelfStake :: "int \<Rightarrow> Candidate \<Rightarrow> Candidate res" where
  "AddSelfStake amount d =
     (if amount < 0 then Inl ErrInvalidAmount else Inr (d\<lparr>cSelfStake := cSelfStake d + amount\<rparr>))"

text \<open>As in the source, the guard compares the amount with the votes, not with the self stake.\<close>

definition SubSelfStake :: "int \<Rightarrow> Candidate \<Rightarrow> Candidate res" where
  "SubSelfStake amount d =
     (if amount < 0 then Inl ErrInvalidAmount
      else if cVotes d < amount then Inl ErrInvalidAmount
      else Inr (d\<lparr>cSelfStake := cSelfStake d - amount\<rparr>))"

text \<open>
  The protobuf form.  \<^verbatim>\<open>addrString\<close> and \<^verbatim>\<open>FromString\<close> of the address package are parameters.
\<close>

record candidate_pb =
  pb_OwnerAddress :: string
  pb_OperatorAddress :: string
  pb_RewardAddress :: string
  pb_IdentifierAddress :: string
  pb_Name :: string
  pb_Votes :: string
  pb_SelfStakeBucketIdx :: u64
  pb_SelfStake :: string
  pb_Pubkey :: "byte list"

definition cand_toProto :: "(addr \<Rightarrow> string) \<Rightarrow> Candidate \<Rightarrow> candidate_pb res" where
  "cand_toProto addrString d =
     (if length (cName d) = 0 then Inl ErrMissingField
      else Inr \<lparr>pb_OwnerAddress = addrString (cOwner d), pb_OperatorAddress = addrString (cOperator d),
        pb_RewardAddress = addrString (cReward d),
        pb_IdentifierAddress = (case cIdentifier d of None \<Rightarrow> [] | Some i \<Rightarrow> addrString i),
        pb_Name = cName d, pb_Votes = big_String (cVotes d),
        pb_SelfStakeBucketIdx = cSelfStakeBucketIdx d, pb_SelfStake = big_String (cSelfStake d),
        pb_Pubkey = cBLSPubKey d\<rparr>)"

definition cand_fromProto :: "(string \<Rightarrow> addr res) \<Rightarrow> candidate_pb \<Rightarrow> Candidate res" where
  "cand_fromProto FromString pb =
     bindR (FromString (pb_OwnerAddress pb)) (\<lambda>owner.
     bindR (FromString (pb_OperatorAddress pb)) (\<lambda>operator.
     bindR (FromString (pb_RewardAddress pb)) (\<lambda>reward.
     bindR (if length (pb_IdentifierAddress pb) > 0
            then bindR (FromString (pb_IdentifierAddress pb)) (\<lambda>i. Inr (Some i)) else Inr None) (\<lambda>id.
     bindR (checkR (length (pb_Name pb) \<noteq> 0) ErrMissingField) (\<lambda>_.
     bindR (case big_SetString (pb_Votes pb) of None \<Rightarrow> Inl ErrInvalidAmount | Some v \<Rightarrow> Inr v) (\<lambda>votes.
     bindR (case big_SetString (pb_SelfStake pb) of None \<Rightarrow> Inl ErrInvalidAmount | Some v \<Rightarrow> Inr v) (\<lambda>self.
     Inr \<lparr>cOwner = owner, cOperator = operator, cReward = reward, cIdentifier = id,
       cBLSPubKey = pb_Pubkey pb, cName = pb_Name pb, cVotes = votes,
       cSelfStakeBucketIdx = pb_SelfStakeBucketIdx pb, cSelfStake = self\<rparr>)))))))"

section \<open>Changes (candChange of candidate_center.go)\<close>

type_synonym cand_alist = "(addr \<times> Candidate) list"

record candChange =
  chCandidates :: "Candidate list"
  chDirty :: cand_alist

definition newCandChange :: candChange where
  "newCandChange = \<lparr>chCandidates = [], chDirty = []\<rparr>"

definition ch_containsIdentifier :: "addr \<Rightarrow> candChange \<Rightarrow> bool" where
  "ch_containsIdentifier i cc \<longleftrightarrow> map_of (chDirty cc) i \<noteq> None"

definition ch_find :: "(Candidate \<Rightarrow> bool) \<Rightarrow> candChange \<Rightarrow> Candidate option" where
  "ch_find P cc = find P (map snd (chDirty cc))"

definition ch_containsName :: "string \<Rightarrow> candChange \<Rightarrow> bool" where
  "ch_containsName n cc \<longleftrightarrow> (\<exists>d\<in>set (map snd (chDirty cc)). n = cName d)"

definition ch_containsOwner :: "addr \<Rightarrow> candChange \<Rightarrow> bool" where
  "ch_containsOwner a cc \<longleftrightarrow> (\<exists>d\<in>set (map snd (chDirty cc)). a = cOwner d)"

definition ch_containsOperator :: "addr \<Rightarrow> candChange \<Rightarrow> bool" where
  "ch_containsOperator a cc \<longleftrightarrow> (\<exists>d\<in>set (map snd (chDirty cc)). a = cOperator d)"

definition ch_containsSelfStakingBucket :: "u64 \<Rightarrow> candChange \<Rightarrow> bool" where
  "ch_containsSelfStakingBucket i cc \<longleftrightarrow>
     (\<exists>d\<in>set (map snd (chDirty cc)). isSelfStakeBucketSettled d \<and> i = cSelfStakeBucketIdx d)"

definition ch_getByName :: "string \<Rightarrow> candChange \<Rightarrow> Candidate option" where
  "ch_getByName n = ch_find (\<lambda>d. n = cName d)"

definition ch_getByOwner :: "addr \<Rightarrow> candChange \<Rightarrow> Candidate option" where
  "ch_getByOwner a = ch_find (\<lambda>d. a = cOwner d)"

definition ch_getByOperator :: "addr \<Rightarrow> candChange \<Rightarrow> Candidate option" where
  "ch_getByOperator a = ch_find (\<lambda>d. a = cOperator d)"

definition ch_getBySelfStakingIndex :: "u64 \<Rightarrow> candChange \<Rightarrow> Candidate option" where
  "ch_getBySelfStakingIndex i = ch_find (\<lambda>d. isSelfStakeBucketSettled d \<and> i = cSelfStakeBucketIdx d)"

definition ch_getByIdentifier :: "addr \<Rightarrow> candChange \<Rightarrow> Candidate option" where
  "ch_getByIdentifier i cc = map_of (chDirty cc) i"

definition ch_upsert :: "Candidate \<Rightarrow> candChange \<Rightarrow> candChange res" where
  "ch_upsert d cc = bindR (Validate d) (\<lambda>_.
     Inr \<lparr>chCandidates = chCandidates cc @ [d],
          chDirty = AList.update (GetIdentifier d) d (chDirty cc)\<rparr>)"

fun firstCollision :: "Candidate \<Rightarrow> Candidate list \<Rightarrow> unit res" where
  "firstCollision d [] = Inr ()"
| "firstCollision d (c # cs) = bindR (Collision d c) (\<lambda>_. firstCollision d cs)"

definition ch_collision :: "Candidate \<Rightarrow> candChange \<Rightarrow> unit res" where
  "ch_collision d cc = firstCollision d (map snd (chDirty cc))"

fun addAll :: "Candidate list \<Rightarrow> candChange \<Rightarrow> candChange res" where
  "addAll [] cc = Inr cc"
| "addAll (d # l) cc = bindR (ch_upsert d cc) (addAll l)"

definition listToCandChange :: "Candidate list \<Rightarrow> candChange res" where
  "listToCandChange l = addAll l newCandChange"

section \<open>The confirmed base (candBase of candidate_center.go)\<close>

record candBase =
  nameMap :: "string \<rightharpoonup> Candidate"
  ownerMap :: "addr \<rightharpoonup> Candidate"
  operatorMap :: "addr \<rightharpoonup> Candidate"
  identifierMap :: cand_alist
  selfStkBucketMap :: "u64 \<rightharpoonup> Candidate"
  owners :: "Candidate list"

definition newCandBase :: candBase where
  "newCandBase = \<lparr>nameMap = Map.empty, ownerMap = Map.empty, operatorMap = Map.empty,
     identifierMap = [], selfStkBucketMap = Map.empty, owners = []\<rparr>"

definition base_all :: "candBase \<Rightarrow> Candidate list" where
  "base_all cb = map snd (identifierMap cb)"

definition base_getByIdentifier :: "addr \<Rightarrow> candBase \<Rightarrow> Candidate option" where
  "base_getByIdentifier i cb = map_of (identifierMap cb) i"

text \<open>One candidate of a commit: the entries of its previous version go first.\<close>

definition forget :: "Candidate \<Rightarrow> candBase \<Rightarrow> candBase" where
  "forget cur cb = cb\<lparr>nameMap := (nameMap cb)(cName cur := None),
     operatorMap := (operatorMap cb)(cOperator cur := None),
     ownerMap := (ownerMap cb)(cOwner cur := None),
     selfStkBucketMap := (selfStkBucketMap cb)(cSelfStakeBucketIdx cur := None)\<rparr>"

definition commitOne :: "bool \<Rightarrow> Candidate \<Rightarrow> candBase \<Rightarrow> candBase" where
  "commitOne notCopyBLSKey v cb0 =
     (let d = (if notCopyBLSKey then v\<lparr>cBLSPubKey := []\<rparr> else v);
          cb = (case map_of (identifierMap cb0) (GetIdentifier d) of None \<Rightarrow> cb0 | Some cur \<Rightarrow> forget cur cb0)
      in cb\<lparr>identifierMap := AList.update (GetIdentifier d) d (identifierMap cb),
           ownerMap := (ownerMap cb)(cOwner d \<mapsto> d),
           nameMap := (nameMap cb)(cName d \<mapsto> d),
           operatorMap := (operatorMap cb)(cOperator d \<mapsto> d),
           selfStkBucketMap := (if isSelfStakeBucketSettled d
             then (selfStkBucketMap cb)(cSelfStakeBucketIdx d \<mapsto> d) else selfStkBucketMap cb)\<rparr>)"

definition legacyCommitOne :: "Candidate \<Rightarrow> candBase \<Rightarrow> candBase" where
  "legacyCommitOne d cb =
     cb\<lparr>ownerMap := (ownerMap cb)(cOwner d \<mapsto> d),
        nameMap := (nameMap cb)(cName d \<mapsto> d),
        operatorMap := (operatorMap cb)(cOperator d \<mapsto> d),
        identifierMap := AList.update (GetIdentifier d) d (identifierMap cb),
        selfStkBucketMap := (selfStkBucketMap cb)(cSelfStakeBucketIdx d \<mapsto> d)\<rparr>"

fun commitAll :: "(Candidate \<Rightarrow> candBase \<Rightarrow> candBase) \<Rightarrow> Candidate list \<Rightarrow> candBase \<Rightarrow> candBase res" where
  "commitAll one [] cb = Inr cb"
| "commitAll one (v # vs) cb = bindR (Validate v) (\<lambda>_. commitAll one vs (one v cb))"

text \<open>The new base and its size.\<close>

definition base_commit :: "candChange \<Rightarrow> bool \<Rightarrow> bool \<Rightarrow> candBase \<Rightarrow> (candBase \<times> nat) res" where
  "base_commit change keepAliasBug notCopyBLSKey cb =
     bindR (if keepAliasBug then commitAll legacyCommitOne (map snd (chDirty change)) cb
            else commitAll (commitOne notCopyBLSKey) (chCandidates change) cb) (\<lambda>cb.
     Inr (cb, length (identifierMap cb)))"

text \<open>The identifiers of the candidates that collide by name, owner, operator and self stake.\<close>

definition otherId :: "Candidate \<Rightarrow> Candidate option \<Rightarrow> addr option" where
  "otherId d hit = (case hit of None \<Rightarrow> None
     | Some c \<Rightarrow> if GetIdentifier c \<noteq> GetIdentifier d then Some (GetIdentifier c) else None)"

definition base_collision :: "Candidate \<Rightarrow> candBase \<Rightarrow> addr option \<times> addr option \<times> addr option \<times> addr option" where
  "base_collision d cb =
     (otherId d (nameMap cb (cName d)), otherId d (ownerMap cb (cOwner d)),
      otherId d (operatorMap cb (cOperator d)),
      if isSelfStakeBucketSettled d then otherId d (selfStkBucketMap cb (cSelfStakeBucketIdx d)) else None)"

definition deleteByOwner :: "addr \<Rightarrow> candBase \<Rightarrow> candBase" where
  "deleteByOwner owner cb = (case ownerMap cb owner of None \<Rightarrow> cb
     | Some d \<Rightarrow> (forget d cb)\<lparr>identifierMap := AList.delete (GetIdentifier d) (identifierMap cb)\<rparr>)"

text \<open>The list of owners that was persisted before the Easter fork (candidate\_center\_extra.go).\<close>

fun recordIn :: "Candidate \<Rightarrow> Candidate list \<Rightarrow> Candidate list" where
  "recordIn c [] = [c]"
| "recordIn c (d # ds) = (if cOwner d = cOwner c then c # ds else d # recordIn c ds)"

definition recordOwner :: "Candidate \<Rightarrow> candBase \<Rightarrow> candBase" where
  "recordOwner c cb = cb\<lparr>owners := recordIn c (owners cb)\<rparr>"

section \<open>The center (CandidateCenter of candidate_center.go)\<close>

record CandidateCenter =
  base :: candBase
  size_cc :: nat
  change :: candChange

definition NewCandidateCenter :: "Candidate list \<Rightarrow> CandidateCenter res" where
  "NewCandidateCenter all =
     bindR (listToCandChange all) (\<lambda>delta.
     if length all = 0 then Inr \<lparr>base = newCandBase, size_cc = 0, change = delta\<rparr>
     else bindR (base_commit delta False False newCandBase) (\<lambda>(cb, n).
       Inr \<lparr>base = cb, size_cc = n, change = newCandChange\<rparr>))"

definition All :: "CandidateCenter \<Rightarrow> Candidate list" where
  "All m = (if chDirty (change m) = [] then base_all (base m)
     else map snd (chDirty (change m)) @
          filter (\<lambda>d. \<not> ch_containsIdentifier (GetIdentifier d) (change m)) (base_all (base m)))"

definition commitWith :: "bool \<Rightarrow> bool \<Rightarrow> CandidateCenter \<Rightarrow> CandidateCenter res" where
  "commitWith keepAliasBug notCopyBLSKey m =
     bindR (base_commit (change m) keepAliasBug notCopyBLSKey (base m)) (\<lambda>(cb, n).
     Inr \<lparr>base = cb, size_cc = n, change = newCandChange\<rparr>)"

definition Commit :: "bool \<Rightarrow> bool \<Rightarrow> CandidateCenter \<Rightarrow> CandidateCenter res" where
  "Commit CandCenterHasAlias CandidateBLSPublicKeyNotCopied m =
     (if CandCenterHasAlias then commitWith True False m
      else if CandidateBLSPublicKeyNotCopied then commitWith False True m
      else commitWith False False m)"

definition IsDirty :: "CandidateCenter \<Rightarrow> bool" where
  "IsDirty m \<longleftrightarrow> 0 < length (chDirty (change m))"

definition containsVia ::
  "(candChange \<Rightarrow> bool) \<Rightarrow> (candBase \<Rightarrow> Candidate option) \<Rightarrow> CandidateCenter \<Rightarrow> bool" where
  "containsVia inChange inBase m =
     (if inChange (change m) then True
      else case inBase (base m) of None \<Rightarrow> False
        | Some d \<Rightarrow> \<not> ch_containsIdentifier (GetIdentifier d) (change m))"

definition ContainsName :: "string \<Rightarrow> CandidateCenter \<Rightarrow> bool" where
  "ContainsName n = containsVia (ch_containsName n) (\<lambda>cb. nameMap cb n)"

definition ContainsOwner :: "addr \<Rightarrow> CandidateCenter \<Rightarrow> bool" where
  "ContainsOwner a = containsVia (ch_containsOwner a) (\<lambda>cb. ownerMap cb a)"

definition ContainsOperator :: "addr \<Rightarrow> CandidateCenter \<Rightarrow> bool" where
  "ContainsOperator a = containsVia (ch_containsOperator a) (\<lambda>cb. operatorMap cb a)"

definition ContainsSelfStakingBucket :: "u64 \<Rightarrow> CandidateCenter \<Rightarrow> bool" where
  "ContainsSelfStakingBucket i = containsVia (ch_containsSelfStakingBucket i) (\<lambda>cb. selfStkBucketMap cb i)"

text \<open>A lookup by name or self-stake bucket ignores a base entry whose candidate has changed.\<close>

definition getFiltered ::
  "(candChange \<Rightarrow> Candidate option) \<Rightarrow> (candBase \<Rightarrow> Candidate option) \<Rightarrow> CandidateCenter \<Rightarrow> Candidate option" where
  "getFiltered inChange inBase m = (case inChange (change m) of Some d \<Rightarrow> Some d
     | None \<Rightarrow> (case inBase (base m) of None \<Rightarrow> None
        | Some d \<Rightarrow> if ch_containsIdentifier (GetIdentifier d) (change m) then None else Some d))"

text \<open>A lookup by owner, operator or identifier does not.\<close>

definition getUnfiltered ::
  "(candChange \<Rightarrow> Candidate option) \<Rightarrow> (candBase \<Rightarrow> Candidate option) \<Rightarrow> CandidateCenter \<Rightarrow> Candidate option" where
  "getUnfiltered inChange inBase m =
     (case inChange (change m) of Some d \<Rightarrow> Some d | None \<Rightarrow> inBase (base m))"

definition GetByName :: "string \<Rightarrow> CandidateCenter \<Rightarrow> Candidate option" where
  "GetByName n = getFiltered (ch_getByName n) (\<lambda>cb. nameMap cb n)"

definition GetByOwner :: "addr \<Rightarrow> CandidateCenter \<Rightarrow> Candidate option" where
  "GetByOwner a = getUnfiltered (ch_getByOwner a) (\<lambda>cb. ownerMap cb a)"

definition GetByIdentifier :: "addr \<Rightarrow> CandidateCenter \<Rightarrow> Candidate option" where
  "GetByIdentifier i = getUnfiltered (ch_getByIdentifier i) (base_getByIdentifier i)"

definition GetBySelfStakingIndex :: "u64 \<Rightarrow> CandidateCenter \<Rightarrow> Candidate option" where
  "GetBySelfStakingIndex i = getFiltered (ch_getBySelfStakingIndex i) (\<lambda>cb. selfStkBucketMap cb i)"

definition GetByOperator :: "addr \<Rightarrow> CandidateCenter \<Rightarrow> Candidate option" where
  "GetByOperator a = getUnfiltered (ch_getByOperator a) (\<lambda>cb. operatorMap cb a)"

definition unchangedOther :: "addr option \<Rightarrow> candChange \<Rightarrow> bool" where
  "unchangedOther i cc = (case i of None \<Rightarrow> False | Some x \<Rightarrow> \<not> ch_containsIdentifier x cc)"

definition collision :: "Candidate \<Rightarrow> CandidateCenter \<Rightarrow> unit res" where
  "collision d m =
     bindR (ch_collision d (change m)) (\<lambda>_.
     case base_collision d (base m) of (name, owner, oper, self) \<Rightarrow>
       if unchangedOther name (change m) then Inl ErrInvalidCanName
       else if unchangedOther owner (change m) then Inl ErrInvalidOwner
       else if unchangedOther oper (change m) then Inl ErrInvalidOperator
       else if unchangedOther self (change m) then Inl ErrInvalidSelfStkIndex
       else Inr ())"

definition Upsert :: "Candidate \<Rightarrow> CandidateCenter \<Rightarrow> CandidateCenter res" where
  "Upsert d m =
     bindR (Validate d) (\<lambda>_.
     bindR (collision d m) (\<lambda>_.
     bindR (ch_upsert d (change m)) (\<lambda>cc.
     Inr (m\<lparr>change := cc,
            size_cc := (if base_getByIdentifier (GetIdentifier d) (base m) = None
                        then size_cc m + 1 else size_cc m)\<rparr>))))"

section \<open>The abstract state and its uniqueness\<close>

text \<open>The keys a center looks candidates up by; an unsettled self-stake bucket is no key.\<close>

definition nameKey :: "Candidate \<Rightarrow> string option" where "nameKey c = Some (cName c)"
definition ownerKey :: "Candidate \<Rightarrow> addr option" where "ownerKey c = Some (cOwner c)"
definition operatorKey :: "Candidate \<Rightarrow> addr option" where "operatorKey c = Some (cOperator c)"
definition selfKey :: "Candidate \<Rightarrow> u64 option" where
  "selfKey c = (if isSelfStakeBucketSettled c then Some (cSelfStakeBucketIdx c) else None)"

lemma selfKey_update [simp]:
  "selfKey (d\<lparr>cVotes := v\<rparr>) = selfKey d" "selfKey (d\<lparr>cSelfStake := v\<rparr>) = selfKey d"
  "selfKey (d\<lparr>cName := n\<rparr>) = selfKey d" "selfKey (d\<lparr>cOperator := a\<rparr>) = selfKey d"
  "selfKey (d\<lparr>cReward := a\<rparr>) = selfKey d" "selfKey (d\<lparr>cBLSPubKey := k\<rparr>) = selfKey d"
  "selfKey (d\<lparr>cSelfStakeBucketIdx := candidateNoSelfStakeBucketIndex\<rparr>) = None"
  by (simp_all add: selfKey_def isSelfStakeBucketSettled_def)

lemmas key_defs = nameKey_def ownerKey_def operatorKey_def selfKey_def

text \<open>No two candidates of the map share a key.\<close>

definition uniqBy :: "(Candidate \<Rightarrow> 'k option) \<Rightarrow> (addr \<rightharpoonup> Candidate) \<Rightarrow> bool" where
  "uniqBy key M \<longleftrightarrow> (\<forall>i j c d k. M i = Some c \<longrightarrow> M j = Some d \<longrightarrow> key c = Some k \<longrightarrow> key d = Some k \<longrightarrow> i = j)"

definition uniq :: "(addr \<rightharpoonup> Candidate) \<Rightarrow> bool" where
  "uniq M \<longleftrightarrow> uniqBy nameKey M \<and> uniqBy ownerKey M \<and> uniqBy operatorKey M \<and> uniqBy selfKey M"

definition keyed :: "(addr \<rightharpoonup> Candidate) \<Rightarrow> bool" where
  "keyed M \<longleftrightarrow> (\<forall>i c. M i = Some c \<longrightarrow> GetIdentifier c = i \<and> cName c \<noteq> [])"

text \<open>A secondary index holds exactly the candidates of the map, by their key.\<close>

definition indexes :: "(Candidate \<Rightarrow> 'k option) \<Rightarrow> (addr \<rightharpoonup> Candidate) \<Rightarrow> ('k \<rightharpoonup> Candidate) \<Rightarrow> bool" where
  "indexes key M ix \<longleftrightarrow> (\<forall>k c. ix k = Some c \<longleftrightarrow> (\<exists>i. M i = Some c \<and> key c = Some k))"

definition unindex :: "'k option \<Rightarrow> ('k \<rightharpoonup> Candidate) \<Rightarrow> ('k \<rightharpoonup> Candidate)" where
  "unindex k ix = (case k of None \<Rightarrow> ix | Some x \<Rightarrow> ix(x := None))"

definition reindex :: "'k option \<Rightarrow> Candidate \<Rightarrow> ('k \<rightharpoonup> Candidate) \<Rightarrow> ('k \<rightharpoonup> Candidate)" where
  "reindex k d ix = (case k of None \<Rightarrow> ix | Some x \<Rightarrow> ix(x \<mapsto> d))"

lemma uniqByD: "uniqBy key M \<Longrightarrow> M i = Some c \<Longrightarrow> M j = Some d \<Longrightarrow> key c = Some k \<Longrightarrow> key d = Some k \<Longrightarrow> i = j"
  unfolding uniqBy_def by blast

text \<open>Forgetting the previous version and entering the new one keeps an index exact.\<close>

lemma indexes_unindex:
  assumes "indexes key M ix" "uniqBy key M" "M i = Some cur"
  shows "indexes key (M(i := None)) (unindex (key cur) ix)"
  unfolding indexes_def
proof (intro allI)
  fix k c
  have ix: "ix k = Some c \<longleftrightarrow> (\<exists>j. M j = Some c \<and> key c = Some k)" using assms(1) by (simp add: indexes_def)
  show "unindex (key cur) ix k = Some c \<longleftrightarrow> (\<exists>j. (M(i := None)) j = Some c \<and> key c = Some k)"
  proof (cases "key cur = Some k")
    case True
    then have "j = i" if "M j = Some c" "key c = Some k" for j
      using uniqByD [OF assms(2,3) that(1)] that(2) by simp
    then show ?thesis using True by (auto simp: unindex_def)
  next
    case False
    then have "unindex (key cur) ix k = ix k" by (auto simp: unindex_def split: option.splits)
    then show ?thesis using ix False assms(3) by (metis fun_upd_apply option.inject option.simps(3))
  qed
qed

lemma indexes_reindex:
  assumes "indexes key M ix" "M i = None" "uniqBy key (M(i \<mapsto> d))"
  shows "indexes key (M(i \<mapsto> d)) (reindex (key d) d ix)"
  unfolding indexes_def
proof (intro allI)
  fix k c
  have ix: "ix k = Some c \<longleftrightarrow> (\<exists>j. M j = Some c \<and> key c = Some k)" using assms(1) by (simp add: indexes_def)
  show "reindex (key d) d ix k = Some c \<longleftrightarrow> (\<exists>j. (M(i \<mapsto> d)) j = Some c \<and> key c = Some k)"
  proof (cases "key d = Some k")
    case True
    have "(\<exists>j. (M(i \<mapsto> d)) j = Some c \<and> key c = Some k) \<longleftrightarrow> d = c"
    proof
      assume "\<exists>j. (M(i \<mapsto> d)) j = Some c \<and> key c = Some k"
      then obtain j where j: "(M(i \<mapsto> d)) j = Some c" "key c = Some k" by blast
      have "j = i" by (rule uniqByD [OF assms(3) j(1) _ j(2) True]) simp
      then show "d = c" using j(1) by simp
    next
      assume "d = c"
      then show "\<exists>j. (M(i \<mapsto> d)) j = Some c \<and> key c = Some k" using True by (intro exI [of _ i]) simp
    qed
    then show ?thesis using True by (simp add: reindex_def)
  next
    case False
    then have "reindex (key d) d ix k = ix k" by (auto simp: reindex_def split: option.splits)
    moreover have "((M(i \<mapsto> d)) j = Some c \<and> key c = Some k) = (M j = Some c \<and> key c = Some k)" for j
      using False assms(2) by (cases "j = i") auto
    ultimately show ?thesis using ix by simp
  qed
qed

lemma uniqBy_delete: "uniqBy key M \<Longrightarrow> uniqBy key (M(i := None))"
  unfolding uniqBy_def by (auto split: if_splits)

lemma indexes_update:
  assumes "indexes key M ix" "uniqBy key M" "uniqBy key (M(i \<mapsto> d))"
  shows "indexes key (M(i \<mapsto> d))
    (reindex (key d) d (case M i of None \<Rightarrow> ix | Some cur \<Rightarrow> unindex (key cur) ix))"
proof (cases "M i")
  case None
  then show ?thesis using indexes_reindex [OF assms(1) None assms(3)] by simp
next
  case (Some cur)
  have "indexes key (M(i := None)) (unindex (key cur) ix)" by (rule indexes_unindex [OF assms(1,2) Some])
  from indexes_reindex [OF this, of i d] show ?thesis using assms(3) Some by simp
qed

section \<open>The base stays exact\<close>

definition bmap :: "candBase \<Rightarrow> addr \<rightharpoonup> Candidate" where "bmap cb = map_of (identifierMap cb)"
definition dmap :: "candChange \<Rightarrow> addr \<rightharpoonup> Candidate" where "dmap cc = map_of (chDirty cc)"

definition base_ok :: "candBase \<Rightarrow> bool" where
  "base_ok cb \<longleftrightarrow> distinct (map fst (identifierMap cb)) \<and> keyed (bmap cb) \<and> uniq (bmap cb) \<and>
     indexes nameKey (bmap cb) (nameMap cb) \<and> indexes ownerKey (bmap cb) (ownerMap cb) \<and>
     indexes operatorKey (bmap cb) (operatorMap cb) \<and> indexes selfKey (bmap cb) (selfStkBucketMap cb)"

lemma base_ok_new: "base_ok newCandBase"
  by (simp add: base_ok_def newCandBase_def bmap_def keyed_def uniq_def uniqBy_def indexes_def)

lemma selfKey_unsettled:
  assumes "indexes selfKey M ix"
  shows "ix(cSelfStakeBucketIdx c := None) = unindex (selfKey c) ix"
proof (cases "isSelfStakeBucketSettled c")
  case False
  have "ix (cSelfStakeBucketIdx c) = None"
  proof (rule ccontr)
    assume "ix (cSelfStakeBucketIdx c) \<noteq> None"
    then obtain x where "selfKey x = Some (cSelfStakeBucketIdx c)" using assms by (auto simp: indexes_def)
    then show False using False by (auto simp: selfKey_def isSelfStakeBucketSettled_def split: if_splits)
  qed
  then show ?thesis using False by (auto simp: unindex_def selfKey_def)
qed (simp add: unindex_def selfKey_def)

lemma commitOne_maps:
  assumes "base_ok cb"
  shows "bmap (commitOne False d cb) = (bmap cb)(GetIdentifier d \<mapsto> d)"
    and "nameMap (commitOne False d cb) = reindex (nameKey d) d
      (case bmap cb (GetIdentifier d) of None \<Rightarrow> nameMap cb | Some cur \<Rightarrow> unindex (nameKey cur) (nameMap cb))"
    and "ownerMap (commitOne False d cb) = reindex (ownerKey d) d
      (case bmap cb (GetIdentifier d) of None \<Rightarrow> ownerMap cb | Some cur \<Rightarrow> unindex (ownerKey cur) (ownerMap cb))"
    and "operatorMap (commitOne False d cb) = reindex (operatorKey d) d
      (case bmap cb (GetIdentifier d) of None \<Rightarrow> operatorMap cb | Some cur \<Rightarrow> unindex (operatorKey cur) (operatorMap cb))"
    and "selfStkBucketMap (commitOne False d cb) = reindex (selfKey d) d
      (case bmap cb (GetIdentifier d) of None \<Rightarrow> selfStkBucketMap cb
       | Some cur \<Rightarrow> unindex (selfKey cur) (selfStkBucketMap cb))"
  using assms selfKey_unsettled [of "bmap cb" "selfStkBucketMap cb"]
  by (auto simp: commitOne_def forget_def Let_def bmap_def update_conv' reindex_def unindex_def base_ok_def
      nameKey_def ownerKey_def operatorKey_def selfKey_def split: option.splits)

lemma commitOne_ok:
  assumes ok: "base_ok cb" and d: "cName d \<noteq> []" "uniq ((bmap cb)(GetIdentifier d \<mapsto> d))"
  shows "base_ok (commitOne False d cb)"
proof -
  note m = commitOne_maps [OF ok, of d]
  have "distinct (map fst (identifierMap (commitOne False d cb)))"
    using ok by (auto simp: commitOne_def forget_def Let_def base_ok_def distinct_update split: option.splits)
  moreover have "keyed ((bmap cb)(GetIdentifier d \<mapsto> d))" using ok d(1) by (auto simp: keyed_def base_ok_def)
  ultimately show ?thesis using ok d(2) unfolding base_ok_def m uniq_def
    by (intro conjI indexes_update) simp_all
qed

fun replay :: "(addr \<rightharpoonup> Candidate) \<Rightarrow> Candidate list \<Rightarrow> addr \<rightharpoonup> Candidate" where
  "replay M [] = M"
| "replay M (d # ds) = replay (M(GetIdentifier d \<mapsto> d)) ds"

fun replay_ok :: "(addr \<rightharpoonup> Candidate) \<Rightarrow> Candidate list \<Rightarrow> bool" where
  "replay_ok M [] = True"
| "replay_ok M (d # ds) =
     (cName d \<noteq> [] \<and> uniq (M(GetIdentifier d \<mapsto> d)) \<and> replay_ok (M(GetIdentifier d \<mapsto> d)) ds)"

lemma commitAll_ok:
  "base_ok cb \<Longrightarrow> replay_ok (bmap cb) ds \<Longrightarrow>
   \<exists>cb'. commitAll (commitOne False) ds cb = Inr cb' \<and> base_ok cb' \<and> bmap cb' = replay (bmap cb) ds"
proof (induction ds arbitrary: cb)
  case (Cons d ds)
  from Cons.prems have d: "cName d \<noteq> []" "uniq ((bmap cb)(GetIdentifier d \<mapsto> d))"
    "replay_ok (bmap (commitOne False d cb)) ds"
    unfolding replay_ok.simps commitOne_maps(1) [OF Cons.prems(1)] by blast+
  have step: "commitAll (commitOne False) (d # ds) cb = commitAll (commitOne False) ds (commitOne False d cb)"
    using d(1) by (simp add: Validate_def checkR_def)
  obtain cb' where c: "commitAll (commitOne False) ds (commitOne False d cb) = Inr cb'" "base_ok cb'"
      "bmap cb' = replay (bmap (commitOne False d cb)) ds"
    using Cons.IH [OF commitOne_ok [OF Cons.prems(1) d(1,2)] d(3)] by blast
  have "bmap cb' = replay (bmap cb) (d # ds)"
    by (simp only: c(3) replay.simps commitOne_maps(1) [OF Cons.prems(1)])
  then have "commitAll (commitOne False) (d # ds) cb = Inr cb' \<and> base_ok cb' \<and> bmap cb' = replay (bmap cb) (d # ds)"
    by (rule conjI [OF trans [OF step c(1)] conjI [OF c(2)]])
  then show ?case by (rule exI)
qed simp

lemma replay_append: "replay M (ds @ [d]) = (replay M ds)(GetIdentifier d \<mapsto> d)"
  by (induction ds arbitrary: M) simp_all

lemma replay_ok_append:
  "replay_ok M (ds @ [d]) \<longleftrightarrow> replay_ok M ds \<and> cName d \<noteq> [] \<and> uniq ((replay M ds)(GetIdentifier d \<mapsto> d))"
  by (induction ds arbitrary: M) auto

lemma replay_map_add: "replay M ds = M ++ replay Map.empty ds"
proof (induction ds arbitrary: M)
  case (Cons d ds)
  have "M(GetIdentifier d \<mapsto> d) = M ++ [GetIdentifier d \<mapsto> d]" by simp
  then have "replay (M(GetIdentifier d \<mapsto> d)) ds = M ++ ([GetIdentifier d \<mapsto> d] ++ replay Map.empty ds)"
    using Cons [of "M(GetIdentifier d \<mapsto> d)"] by (simp only: map_add_assoc)
  also have "[GetIdentifier d \<mapsto> d] ++ replay Map.empty ds = replay Map.empty (d # ds)"
    unfolding replay.simps by (rule Cons [symmetric])
  finally show ?case unfolding replay.simps .
qed simp

section \<open>What a center shows\<close>

definition cands :: "CandidateCenter \<Rightarrow> addr \<rightharpoonup> Candidate" where
  "cands m = bmap (base m) ++ dmap (change m)"

text \<open>
  The invariant of a center: its base is exact, the dirty map is the outcome of the recorded
  updates, and every state these updates went through was free of collisions.
\<close>

definition center_ok :: "CandidateCenter \<Rightarrow> bool" where
  "center_ok m \<longleftrightarrow> base_ok (base m) \<and> distinct (map fst (chDirty (change m))) \<and>
     dmap (change m) = replay Map.empty (chCandidates (change m)) \<and>
     replay_ok (bmap (base m)) (chCandidates (change m))"

lemma cands_replay: "center_ok m \<Longrightarrow> cands m = replay (bmap (base m)) (chCandidates (change m))"
  by (simp add: center_ok_def cands_def replay_map_add [of "bmap (base m)"])

lemma replay_ok_uniq: "replay_ok M ds \<Longrightarrow> uniq M \<Longrightarrow> keyed M \<Longrightarrow> uniq (replay M ds) \<and> keyed (replay M ds)"
proof (induction ds arbitrary: M)
  case (Cons d ds)
  have "keyed (M(GetIdentifier d \<mapsto> d))" using Cons.prems by (auto simp: keyed_def)
  then show ?case using Cons unfolding replay.simps replay_ok.simps by blast
qed simp

lemma center_ok_uniq: "center_ok m \<Longrightarrow> uniq (cands m) \<and> keyed (cands m)"
  using cands_replay [of m] replay_ok_uniq [of "bmap (base m)"] by (simp add: center_ok_def base_ok_def)

lemma keyedD: "keyed M \<Longrightarrow> M i = Some c \<Longrightarrow> GetIdentifier c = i \<and> cName c \<noteq> []"
  by (simp add: keyed_def)

lemma keyed_replay: "replay_ok M ds \<Longrightarrow> keyed M' \<Longrightarrow> keyed (replay M' ds)"
proof (induction ds arbitrary: M M')
  case (Cons d ds)
  then have "keyed (M'(GetIdentifier d \<mapsto> d))" by (auto simp: keyed_def)
  then show ?case using Cons unfolding replay.simps replay_ok.simps by blast
qed simp

lemma dirty_keyed: "center_ok m \<Longrightarrow> keyed (dmap (change m))"
  using keyed_replay [of "bmap (base m)" "chCandidates (change m)" Map.empty]
  by (simp add: center_ok_def keyed_def)

lemma dirty_values:
  assumes "center_ok m"
  shows "c \<in> set (map snd (chDirty (change m))) \<longleftrightarrow> (\<exists>i. dmap (change m) i = Some c)"
proof -
  have "distinct (map fst (chDirty (change m)))" using assms by (simp add: center_ok_def)
  then have "ran (dmap (change m)) = set (map snd (chDirty (change m)))"
    by (simp add: dmap_def ran_distinct)
  then show ?thesis by (auto simp: ran_def)
qed

lemma cands_cases:
  assumes "center_ok m"
  shows "cands m i = Some c \<longleftrightarrow> dmap (change m) i = Some c \<or>
    (bmap (base m) i = Some c \<and> \<not> ch_containsIdentifier i (change m))"
  by (auto simp: cands_def map_add_def ch_containsIdentifier_def dmap_def split: option.splits)

lemma GetByIdentifier_cands: "GetByIdentifier i m = cands m i"
  by (simp add: GetByIdentifier_def getUnfiltered_def ch_getByIdentifier_def base_getByIdentifier_def
      cands_def bmap_def dmap_def map_add_def split: option.splits)

text \<open>
  Membership tests and filtered lookups answer for the abstract state, whatever the order of the
  dirty map.
\<close>

lemma base_index:
  assumes "center_ok m" "indexes key (bmap (base m)) ix"
  shows "ix k = Some d \<longleftrightarrow> bmap (base m) (GetIdentifier d) = Some d \<and> key d = Some k"
proof -
  have "keyed (bmap (base m))" using assms(1) by (simp add: center_ok_def base_ok_def)
  then show ?thesis using assms(2) keyedD unfolding indexes_def by metis
qed

lemma containsVia_cands:
  assumes ok: "center_ok m" and ix: "indexes key (bmap (base m)) (ix (base m))"
    and ch: "inChange (change m) \<longleftrightarrow> (\<exists>d\<in>set (map snd (chDirty (change m))). key d = Some k)"
  shows "containsVia inChange (\<lambda>cb. ix cb k) m \<longleftrightarrow> (\<exists>i c. cands m i = Some c \<and> key c = Some k)"
proof -
  have inCh: "inChange (change m) \<longleftrightarrow> (\<exists>i d. dmap (change m) i = Some d \<and> key d = Some k)"
    using ch dirty_values [OF ok] by blast
  have base: "ix (base m) k = Some d \<longleftrightarrow> bmap (base m) (GetIdentifier d) = Some d \<and> key d = Some k" for d
    by (rule base_index [OF ok ix])
  have keyed: "GetIdentifier d = i" if "bmap (base m) i = Some d" for i d
    using that ok keyedD [of "bmap (base m)"] by (simp add: center_ok_def base_ok_def)
  show ?thesis
  proof (cases "inChange (change m)")
    case True
    then show ?thesis using inCh by (auto simp: containsVia_def cands_cases [OF ok])
  next
    case False
    have "containsVia inChange (\<lambda>cb. ix cb k) m \<longleftrightarrow>
        (\<exists>d. ix (base m) k = Some d \<and> \<not> ch_containsIdentifier (GetIdentifier d) (change m))"
      using False by (simp add: containsVia_def split: option.splits)
    also have "\<dots> \<longleftrightarrow> (\<exists>i c. cands m i = Some c \<and> key c = Some k)"
      using inCh False keyed unfolding base cands_cases [OF ok] by blast
    finally show ?thesis .
  qed
qed

lemma find_SomeD: "find P xs = Some x \<Longrightarrow> x \<in> set xs" "find P xs = Some x \<Longrightarrow> P x"
  by (induction xs) (auto split: if_splits)

lemma getFiltered_cands:
  assumes ok: "center_ok m" and uq: "uniqBy key (cands m)" and ix: "indexes key (bmap (base m)) (ix (base m))"
  shows "getFiltered (ch_find (\<lambda>d. key d = Some k)) (\<lambda>cb. ix cb k) m = Some c \<longleftrightarrow>
    (\<exists>i. cands m i = Some c \<and> key c = Some k)"
proof (cases "ch_find (\<lambda>d. key d = Some k) (change m)")
  case (Some d)
  then have "d \<in> set (map snd (chDirty (change m)))" "key d = Some k"
    unfolding ch_find_def by (fact find_SomeD(1), rule find_SomeD(2))
  then obtain i where "cands m i = Some d" using dirty_values [OF ok] cands_cases [OF ok] by blast
  then have "(\<exists>i. cands m i = Some c \<and> key c = Some k) \<longleftrightarrow> d = c"
    using uniqByD [OF uq] \<open>key d = Some k\<close> by (metis option.inject)
  then show ?thesis using Some by (simp add: getFiltered_def)
next
  case None
  then have no: "key d \<noteq> Some k" if "dmap (change m) i = Some d" for i d
    using that dirty_values [OF ok] by (fastforce simp: ch_find_def find_None_iff)
  have base: "ix (base m) k = Some d \<longleftrightarrow> bmap (base m) (GetIdentifier d) = Some d \<and> key d = Some k" for d
    by (rule base_index [OF ok ix])
  have keyed: "GetIdentifier d = i" if "bmap (base m) i = Some d" for i d
    using that ok keyedD [of "bmap (base m)"] by (simp add: center_ok_def base_ok_def)
  have "getFiltered (ch_find (\<lambda>d. key d = Some k)) (\<lambda>cb. ix cb k) m = Some c \<longleftrightarrow>
      ix (base m) k = Some c \<and> \<not> ch_containsIdentifier (GetIdentifier c) (change m)"
    using None by (auto simp: getFiltered_def split: option.splits if_splits)
  also have "\<dots> \<longleftrightarrow> (\<exists>i. cands m i = Some c \<and> key c = Some k)"
    using no keyed unfolding base cands_cases [OF ok] by blast
  finally show ?thesis .
qed

text \<open>The four lookups and the four tests, as instances.\<close>

lemma center_indexes:
  assumes "center_ok m"
  shows "indexes nameKey (bmap (base m)) (nameMap (base m))" "indexes ownerKey (bmap (base m)) (ownerMap (base m))"
    "indexes operatorKey (bmap (base m)) (operatorMap (base m))"
    "indexes selfKey (bmap (base m)) (selfStkBucketMap (base m))"
    "uniqBy nameKey (cands m)" "uniqBy ownerKey (cands m)" "uniqBy operatorKey (cands m)" "uniqBy selfKey (cands m)"
  using assms center_ok_uniq [OF assms] unfolding center_ok_def base_ok_def uniq_def by blast+

lemma GetByName_iff:
  assumes "center_ok m"
  shows "GetByName n m = Some c \<longleftrightarrow> (\<exists>i. cands m i = Some c \<and> cName c = n)"
  using getFiltered_cands [where ix = nameMap, OF assms center_indexes(5,1) [OF assms], of n c]
  by (simp add: GetByName_def ch_getByName_def nameKey_def eq_commute)

lemma GetBySelfStakingIndex_iff:
  assumes "center_ok m"
  shows "GetBySelfStakingIndex i m = Some c \<longleftrightarrow>
    (\<exists>j. cands m j = Some c \<and> isSelfStakeBucketSettled c \<and> cSelfStakeBucketIdx c = i)"
proof -
  have "ch_getBySelfStakingIndex i = ch_find (\<lambda>d. selfKey d = Some i)"
    unfolding ch_getBySelfStakingIndex_def by (rule arg_cong [of _ _ ch_find]) (auto simp: selfKey_def)
  then show ?thesis using getFiltered_cands [where ix = selfStkBucketMap, OF assms center_indexes(8,4) [OF assms], of i c]
    by (simp add: GetBySelfStakingIndex_def selfKey_def)
qed

lemma Contains_iff:
  assumes "center_ok m"
  shows "ContainsName n m \<longleftrightarrow> (\<exists>i c. cands m i = Some c \<and> cName c = n)"
    and "ContainsOwner a m \<longleftrightarrow> (\<exists>i c. cands m i = Some c \<and> cOwner c = a)"
    and "ContainsOperator a m \<longleftrightarrow> (\<exists>i c. cands m i = Some c \<and> cOperator c = a)"
    and "ContainsSelfStakingBucket j m \<longleftrightarrow>
      (\<exists>i c. cands m i = Some c \<and> isSelfStakeBucketSettled c \<and> cSelfStakeBucketIdx c = j)"
proof -
  note ix = center_indexes(1-4) [OF assms]
  show "ContainsName n m \<longleftrightarrow> (\<exists>i c. cands m i = Some c \<and> cName c = n)"
    unfolding ContainsName_def
    by (subst containsVia_cands [where ix = nameMap and k = n, OF assms ix(1)]) (auto simp: ch_containsName_def nameKey_def)
  show "ContainsOwner a m \<longleftrightarrow> (\<exists>i c. cands m i = Some c \<and> cOwner c = a)"
    unfolding ContainsOwner_def
    by (subst containsVia_cands [where ix = ownerMap and k = a, OF assms ix(2)]) (auto simp: ch_containsOwner_def ownerKey_def)
  show "ContainsOperator a m \<longleftrightarrow> (\<exists>i c. cands m i = Some c \<and> cOperator c = a)"
    unfolding ContainsOperator_def
    by (subst containsVia_cands [where ix = operatorMap and k = a, OF assms ix(3)]) (auto simp: ch_containsOperator_def operatorKey_def)
  show "ContainsSelfStakingBucket j m \<longleftrightarrow>
      (\<exists>i c. cands m i = Some c \<and> isSelfStakeBucketSettled c \<and> cSelfStakeBucketIdx c = j)"
    unfolding ContainsSelfStakingBucket_def
    by (subst containsVia_cands [where ix = selfStkBucketMap and k = j, OF assms ix(4)])
       (auto simp: ch_containsSelfStakingBucket_def selfKey_def split: if_splits)
qed

section \<open>Updates\<close>

lemma firstCollision_Inr: "firstCollision d cs = Inr u \<longleftrightarrow> (\<forall>c\<in>set cs. Collision d c = Inr ())"
  by (induction cs) (auto simp: bindR_Inr)

lemma ch_collision_Inr:
  assumes "center_ok m"
  shows "ch_collision d (change m) = Inr u \<longleftrightarrow> (\<forall>i c. dmap (change m) i = Some c \<longrightarrow> Collision d c = Inr ())"
  unfolding ch_collision_def firstCollision_Inr using dirty_values [OF assms] by blast

lemma unchangedOther_iff:
  assumes ok: "center_ok m" and ix: "indexes key (bmap (base m)) ix"
  shows "unchangedOther (otherId d (ix k)) (change m) \<longleftrightarrow>
    (\<exists>i c. bmap (base m) i = Some c \<and> \<not> ch_containsIdentifier i (change m) \<and> i \<noteq> GetIdentifier d \<and> key c = Some k)"
proof -
  have base: "ix k = Some c \<longleftrightarrow> bmap (base m) (GetIdentifier c) = Some c \<and> key c = Some k" for c
    by (rule base_index [OF ok ix])
  have keyed: "GetIdentifier c = i" if "bmap (base m) i = Some c" for i c
    using that ok keyedD [of "bmap (base m)"] by (simp add: center_ok_def base_ok_def)
  have "unchangedOther (otherId d (ix k)) (change m) \<longleftrightarrow>
      (\<exists>c. ix k = Some c \<and> GetIdentifier c \<noteq> GetIdentifier d \<and> \<not> ch_containsIdentifier (GetIdentifier c) (change m))"
    by (simp add: unchangedOther_def otherId_def split: option.splits)
  also have "\<dots> \<longleftrightarrow> (\<exists>i c. bmap (base m) i = Some c \<and> \<not> ch_containsIdentifier i (change m) \<and>
      i \<noteq> GetIdentifier d \<and> key c = Some k)"
    unfolding base using keyed by blast
  finally show ?thesis .
qed

text \<open>Candidates other than \<open>d\<close> that clash with it by a key.\<close>

definition clash :: "(Candidate \<Rightarrow> 'k option) \<Rightarrow> (addr \<rightharpoonup> Candidate) \<Rightarrow> Candidate \<Rightarrow> bool" where
  "clash key M d \<longleftrightarrow> (\<exists>i c k. M i = Some c \<and> i \<noteq> GetIdentifier d \<and> key c = Some k \<and> key d = Some k)"

lemma uniqBy_upd:
  assumes "uniqBy key M" shows "uniqBy key (M(GetIdentifier d \<mapsto> d)) \<longleftrightarrow> \<not> clash key M d"
proof
  assume u: "uniqBy key (M(GetIdentifier d \<mapsto> d))"
  show "\<not> clash key M d"
  proof
    assume "clash key M d"
    then obtain i c k where c: "M i = Some c" "i \<noteq> GetIdentifier d" "key c = Some k" "key d = Some k"
      by (auto simp: clash_def)
    have "i = GetIdentifier d" by (rule uniqByD [OF u _ _ c(3,4)]) (use c in simp_all)
    then show False using c(2) by simp
  qed
next
  assume n: "\<not> clash key M d"
  show "uniqBy key (M(GetIdentifier d \<mapsto> d))"
    unfolding uniqBy_def
  proof (intro allI impI)
    fix i j c e k
    assume "(M(GetIdentifier d \<mapsto> d)) i = Some c" "(M(GetIdentifier d \<mapsto> d)) j = Some e" "key c = Some k" "key e = Some k"
    then show "i = j" using n uniqByD [OF assms, of i c j e k]
      unfolding clash_def by (cases "i = GetIdentifier d"; cases "j = GetIdentifier d") auto
  qed
qed

text \<open>The clashes a center looks for: with dirty candidates, and with unchanged ones of the base.\<close>

definition dirtyClash :: "(Candidate \<Rightarrow> 'k option) \<Rightarrow> CandidateCenter \<Rightarrow> Candidate \<Rightarrow> bool" where
  "dirtyClash key m d \<longleftrightarrow> clash key (dmap (change m)) d"

definition baseClash :: "(Candidate \<Rightarrow> 'k option) \<Rightarrow> CandidateCenter \<Rightarrow> Candidate \<Rightarrow> bool" where
  "baseClash key m d \<longleftrightarrow> clash key (\<lambda>i. if ch_containsIdentifier i (change m) then None else bmap (base m) i) d"

lemma clash_split:
  assumes "center_ok m"
  shows "clash key (cands m) d \<longleftrightarrow> dirtyClash key m d \<or> baseClash key m d"
proof -
  have "(if ch_containsIdentifier i (change m) then None else bmap (base m) i) = Some c \<longleftrightarrow>
      bmap (base m) i = Some c \<and> \<not> ch_containsIdentifier i (change m)" for i c by simp
  then show ?thesis
    unfolding clash_def dirtyClash_def baseClash_def cands_cases [OF assms] by blast
qed

lemma baseClash_iff:
  assumes ok: "center_ok m" and ix: "indexes key (bmap (base m)) ix" and k: "key d = Some k"
  shows "unchangedOther (otherId d (ix k)) (change m) \<longleftrightarrow> baseClash key m d"
  unfolding unchangedOther_iff [OF ok ix] baseClash_def clash_def using k by (auto split: if_splits)

text \<open>
  \<^verbatim>\<open>Collision\<close> gives up on equal owners, so it finds the clashes with dirty candidates only when no
  other candidate has the owner of \<open>d\<close>.
\<close>

lemma ch_collision_iff:
  assumes ok: "center_ok m"
    and owner: "\<And>i c. cands m i = Some c \<Longrightarrow> cOwner c = cOwner d \<Longrightarrow> i = GetIdentifier d"
  shows "ch_collision d (change m) = Inr u \<longleftrightarrow>
    \<not> dirtyClash nameKey m d \<and> \<not> dirtyClash operatorKey m d \<and> \<not> dirtyClash selfKey m d"
proof -
  have "Collision d c = Inr () \<longleftrightarrow> i = GetIdentifier d \<or> (cName c \<noteq> cName d \<and> cOperator c \<noteq> cOperator d \<and>
      \<not> (\<exists>k. selfKey c = Some k \<and> selfKey d = Some k))" if "dmap (change m) i = Some c" for i c
  proof -
    have "cOwner d = cOwner c \<Longrightarrow> i = GetIdentifier d" using owner [of i c] that cands_cases [OF ok] by simp
    moreover have "GetIdentifier c = i" using that dirty_keyed [OF ok] keyedD by simp
    ultimately show ?thesis by (auto simp: Collision_def selfKey_def isSelfStakeBucketSettled_def)
  qed
  then have c1: "ch_collision d (change m) = Inr u \<longleftrightarrow> (\<forall>i c. dmap (change m) i = Some c \<longrightarrow>
      i = GetIdentifier d \<or> (cName c \<noteq> cName d \<and> cOperator c \<noteq> cOperator d \<and>
      \<not> (\<exists>k. selfKey c = Some k \<and> selfKey d = Some k)))"
    unfolding ch_collision_Inr [OF ok] by blast
  show ?thesis
    unfolding c1 dirtyClash_def clash_def nameKey_def operatorKey_def option.inject by fastforce
qed

lemma collision_Inr:
  assumes ok: "center_ok m"
    and owner: "\<And>i c. cands m i = Some c \<Longrightarrow> cOwner c = cOwner d \<Longrightarrow> i = GetIdentifier d"
  shows "collision d m = Inr u \<longleftrightarrow> \<not> clash nameKey (cands m) d \<and> \<not> clash ownerKey (cands m) d \<and>
    \<not> clash operatorKey (cands m) d \<and> \<not> clash selfKey (cands m) d"
proof -
  note ix = center_indexes(1-4) [OF ok]
  have noOwner: "\<not> clash ownerKey (cands m) d" using owner by (auto simp: clash_def ownerKey_def)
  have self: "unchangedOther (if isSelfStakeBucketSettled d
      then otherId d (selfStkBucketMap (base m) (cSelfStakeBucketIdx d)) else None) (change m) \<longleftrightarrow>
      baseClash selfKey m d"
  proof (cases "isSelfStakeBucketSettled d")
    case True
    then show ?thesis using baseClash_iff [OF ok ix(4), of d "cSelfStakeBucketIdx d"] by (simp add: selfKey_def)
  next
    case False
    then show ?thesis by (simp add: baseClash_def clash_def selfKey_def unchangedOther_def)
  qed
  have others: "unchangedOther (otherId d (nameMap (base m) (cName d))) (change m) \<longleftrightarrow> baseClash nameKey m d"
    "unchangedOther (otherId d (ownerMap (base m) (cOwner d))) (change m) \<longleftrightarrow> baseClash ownerKey m d"
    "unchangedOther (otherId d (operatorMap (base m) (cOperator d))) (change m) \<longleftrightarrow> baseClash operatorKey m d"
    by (intro baseClash_iff [OF ok] ix; simp add: nameKey_def ownerKey_def operatorKey_def)+
  have "collision d m = Inr u \<longleftrightarrow> ch_collision d (change m) = Inr () \<and> \<not> baseClash nameKey m d \<and>
      \<not> baseClash ownerKey m d \<and> \<not> baseClash operatorKey m d \<and> \<not> baseClash selfKey m d"
    by (simp add: collision_def bindR_Inr base_collision_def others self)
  moreover have "ch_collision d (change m) = Inr () \<longleftrightarrow>
      \<not> dirtyClash nameKey m d \<and> \<not> dirtyClash operatorKey m d \<and> \<not> dirtyClash selfKey m d"
    by (rule ch_collision_iff [OF ok]) (use owner in blast)
  ultimately show ?thesis using noOwner unfolding clash_split [OF ok] by blast
qed

lemma uniq_upd_iff:
  assumes "center_ok m"
  shows "uniq ((cands m)(GetIdentifier d \<mapsto> d)) \<longleftrightarrow> \<not> clash nameKey (cands m) d \<and> \<not> clash ownerKey (cands m) d \<and>
    \<not> clash operatorKey (cands m) d \<and> \<not> clash selfKey (cands m) d"
  unfolding uniq_def by (simp only: uniqBy_upd center_indexes [OF assms])

lemma Upsert_Inr:
  "Upsert d m = Inr m' \<longleftrightarrow> cName d \<noteq> [] \<and> collision d m = Inr () \<and>
   m' = m\<lparr>change := \<lparr>chCandidates = chCandidates (change m) @ [d],
            chDirty = AList.update (GetIdentifier d) d (chDirty (change m))\<rparr>,
          size_cc := (if base_getByIdentifier (GetIdentifier d) (base m) = None
                      then size_cc m + 1 else size_cc m)\<rparr>"
  by (auto simp: Upsert_def ch_upsert_def Validate_def bindR_Inr checkR_Inr)

text \<open>An accepted update is an update of the abstract state and keeps the invariant.\<close>

lemma Upsert_ok:
  assumes ok: "center_ok m" and up: "Upsert d m = Inr m'"
    and owner: "\<And>i c. cands m i = Some c \<Longrightarrow> cOwner c = cOwner d \<Longrightarrow> i = GetIdentifier d"
  shows "center_ok m' \<and> cands m' = (cands m)(GetIdentifier d \<mapsto> d)"
proof -
  from up have n: "cName d \<noteq> []" and col: "collision d m = Inr ()"
    and base': "base m' = base m" and ch: "chCandidates (change m') = chCandidates (change m) @ [d]"
      "chDirty (change m') = AList.update (GetIdentifier d) d (chDirty (change m))"
    unfolding Upsert_Inr by simp_all
  have d': "dmap (change m') = (dmap (change m))(GetIdentifier d \<mapsto> d)"
    by (simp add: dmap_def ch update_conv')
  then have c': "cands m' = (cands m)(GetIdentifier d \<mapsto> d)"
    unfolding cands_def base' by simp
  have u: "uniq ((cands m)(GetIdentifier d \<mapsto> d))"
    using collision_Inr [OF ok, of d "()"] owner col unfolding uniq_upd_iff [OF ok] by blast
  have "dmap (change m') = replay Map.empty (chCandidates (change m'))"
    using ok unfolding d' ch replay_append center_ok_def by simp
  moreover have "replay_ok (bmap (base m')) (chCandidates (change m'))"
    using ok n u cands_replay [OF ok] unfolding ch base' replay_ok_append center_ok_def by simp
  moreover have "distinct (map fst (chDirty (change m')))"
    using ok unfolding ch center_ok_def by (simp add: distinct_update)
  ultimately show ?thesis using ok c' unfolding center_ok_def base' by blast
qed

text \<open>
  A new version of a candidate that keeps its keys, or gives up its self-stake bucket, is accepted:
  handlers that only move votes never run into a collision.
\<close>

lemma uniqBy_replace:
  assumes "uniqBy key M" "M i = Some c" "key d = key c \<or> key d = None"
  shows "uniqBy key (M(i \<mapsto> d))"
  using assms unfolding uniqBy_def by (auto split: if_splits) metis+

lemma owner_of_same:
  assumes ok: "center_ok m" and c: "cands m i = Some c" and d: "cOwner d = cOwner c" "GetIdentifier d = i"
    and e: "cands m j = Some e" "cOwner e = cOwner d"
  shows "j = GetIdentifier d"
  using uniqByD [OF center_indexes(6) [OF ok] e(1) c, of "cOwner d"] d e(2) by (simp add: ownerKey_def)

lemma Upsert_same_keys:
  assumes ok: "center_ok m" and c: "cands m i = Some c"
    and d: "GetIdentifier d = i" "cName d = cName c" "cOwner d = cOwner c" "cOperator d = cOperator c"
      "selfKey d = selfKey c \<or> selfKey d = None"
  shows "\<exists>m'. Upsert d m = Inr m' \<and> center_ok m' \<and> cands m' = (cands m)(i \<mapsto> d)"
proof -
  note u = center_indexes(5-8) [OF ok]
  have "uniq ((cands m)(GetIdentifier d \<mapsto> d))"
    unfolding uniq_def d(1)
    by (intro conjI uniqBy_replace [OF u(1) c] uniqBy_replace [OF u(2) c] uniqBy_replace [OF u(3) c]
        uniqBy_replace [OF u(4) c]) (simp_all add: nameKey_def ownerKey_def operatorKey_def d)
  then have "collision d m = Inr ()"
    using owner_of_same [OF ok c d(3,1)] unfolding uniq_upd_iff [OF ok] by (subst collision_Inr [OF ok]) blast+
  moreover have "cName d \<noteq> []" using d(2) keyedD [OF conjunct2 [OF center_ok_uniq [OF ok]] c] by simp
  ultimately obtain m' where m': "Upsert d m = Inr m'" unfolding Upsert_Inr by blast
  have "center_ok m' \<and> cands m' = (cands m)(GetIdentifier d \<mapsto> d)"
    by (rule Upsert_ok [OF ok m']) (rule owner_of_same [OF ok c d(3,1)])
  then show ?thesis using m' d(1) by blast
qed

section \<open>Commits under every feature flag\<close>

text \<open>Between two forks a commit copies the candidates without their BLS keys; no index depends on these.\<close>

definition dropKey :: "bool \<Rightarrow> Candidate \<Rightarrow> Candidate" where
  "dropKey notCopied d = (if notCopied then d\<lparr>cBLSPubKey := []\<rparr> else d)"

lemma dropKey_simps [simp]:
  "GetIdentifier (dropKey n d) = GetIdentifier d" "cName (dropKey n d) = cName d" "cOwner (dropKey n d) = cOwner d"
  "cOperator (dropKey n d) = cOperator d" "selfKey (dropKey n d) = selfKey d"
  "dropKey True (dropKey n d) = dropKey True d" "dropKey False d = d"
  by (simp_all add: dropKey_def)

lemma dropKey_id: "dropKey False = id"
  by (simp add: fun_eq_iff)

lemma uniqBy_dropKey:
  "(\<And>d. key (dropKey n d) = key d) \<Longrightarrow> uniqBy key (map_option (dropKey n) \<circ> M) \<longleftrightarrow> uniqBy key M"
proof
  assume key: "\<And>d. key (dropKey n d) = key d" and L: "uniqBy key (map_option (dropKey n) \<circ> M)"
  show "uniqBy key M"
    unfolding uniqBy_def
  proof (intro allI impI)
    fix i j c d k assume "M i = Some c" "M j = Some d" "key c = Some k" "key d = Some k"
    then show "i = j" using uniqByD [OF L, of i "dropKey n c" j "dropKey n d" k] key by simp
  qed
qed (auto simp: uniqBy_def)

lemma uniq_dropKey: "uniq (map_option (dropKey n) \<circ> M) \<longleftrightarrow> uniq M"
  by (simp add: uniq_def uniqBy_dropKey nameKey_def ownerKey_def operatorKey_def)

lemma uniq_upto_keys: "map_option (dropKey True) \<circ> M = map_option (dropKey True) \<circ> M' \<Longrightarrow> uniq M \<longleftrightarrow> uniq M'"
  by (metis uniq_dropKey)

lemma replay_dropKey: "replay (map_option (dropKey n) \<circ> M) (map (dropKey n) ds) = map_option (dropKey n) \<circ> replay M ds"
proof (induction ds arbitrary: M)
  case (Cons d ds)
  have "(map_option (dropKey n) \<circ> M)(GetIdentifier d \<mapsto> dropKey n d) = map_option (dropKey n) \<circ> M(GetIdentifier d \<mapsto> d)"
    by auto
  then show ?case using Cons [of "M(GetIdentifier d \<mapsto> d)"] unfolding replay.simps list.map dropKey_simps(1) by argo
qed simp

lemma replay_ok_dropKey:
  "replay_ok M ds \<Longrightarrow> map_option (dropKey True) \<circ> M = map_option (dropKey True) \<circ> M' \<Longrightarrow>
   replay_ok M' (map (dropKey n) ds)"
proof (induction ds arbitrary: M M')
  case (Cons d ds)
  let ?i = "GetIdentifier d"
  have same: "map_option (dropKey True) \<circ> M(?i \<mapsto> d) = map_option (dropKey True) \<circ> M'(?i \<mapsto> dropKey n d)"
    using Cons.prems(2) by (auto simp: fun_eq_iff)
  show ?case
    using Cons.IH [OF _ same] uniq_upto_keys [OF same] Cons.prems(1)
    unfolding replay_ok.simps list.map dropKey_simps(1,2) by blast
qed simp

lemma commitOne_dropKey: "commitOne n d cb = commitOne False (dropKey n d) cb"
  by (simp add: commitOne_def dropKey_def)

lemma commitAll_dropKey: "commitAll (commitOne n) ds cb = commitAll (commitOne False) (map (dropKey n) ds) cb"
proof (induction ds arbitrary: cb)
  case (Cons d ds)
  have "Validate (dropKey n d) = Validate d" by (simp add: Validate_def)
  then show ?case
    unfolding commitAll.simps list.map Cons [symmetric] commitOne_dropKey [of n d] by simp
qed simp

text \<open>The commit with the alias bug never forgets an entry of an index, but it updates the identifiers alike.\<close>

lemma legacyCommit_ok:
  "\<forall>v\<in>set vs. cName v \<noteq> [] \<Longrightarrow> distinct (map fst (identifierMap cb)) \<Longrightarrow>
   \<exists>cb'. commitAll legacyCommitOne vs cb = Inr cb' \<and> bmap cb' = replay (bmap cb) vs \<and>
     distinct (map fst (identifierMap cb'))"
proof (induction vs arbitrary: cb)
  case (Cons v vs)
  have one: "bmap (legacyCommitOne v cb) = (bmap cb)(GetIdentifier v \<mapsto> v)"
    "distinct (map fst (identifierMap (legacyCommitOne v cb)))"
    using Cons.prems(2) by (simp_all add: legacyCommitOne_def bmap_def update_conv' distinct_update)
  have "commitAll legacyCommitOne (v # vs) cb = commitAll legacyCommitOne vs (legacyCommitOne v cb)"
    using Cons.prems(1) by (simp add: Validate_def checkR_def)
  then show ?case using Cons.IH [OF _ one(2)] Cons.prems(1) unfolding replay.simps one(1) by fastforce
qed simp

lemma replay_alist:
  "distinct (map fst al) \<Longrightarrow> \<forall>(i, c)\<in>set al. GetIdentifier c = i \<Longrightarrow> replay M (map snd al) = M ++ map_of al"
proof (induction al arbitrary: M)
  case (Cons ic al)
  obtain i c where ic: "ic = (i, c)" "GetIdentifier c = i" using Cons.prems(2) by auto
  have "map_of al i = None" using Cons.prems(1) ic by (simp add: map_of_eq_None_iff)
  then have "M(i \<mapsto> c) ++ map_of al = M ++ map_of (ic # al)"
    by (auto simp: fun_eq_iff map_add_def ic split: option.splits)
  moreover have "replay (M(i \<mapsto> c)) (map snd al) = M(i \<mapsto> c) ++ map_of al" using Cons by simp
  ultimately show ?case by (simp only: ic snd_conv list.map replay.simps)
qed simp

lemma replay_dirty: "center_ok m \<Longrightarrow> replay (bmap (base m)) (map snd (chDirty (change m))) = cands m"
proof -
  assume ok: "center_ok m"
  then have d: "distinct (map fst (chDirty (change m)))" by (simp add: center_ok_def)
  have "\<forall>(i, c)\<in>set (chDirty (change m)). GetIdentifier c = i"
    using keyedD [OF dirty_keyed [OF ok]] map_of_eq_Some_iff [OF d] by (auto simp: dmap_def)
  from replay_alist [OF d this] show ?thesis by (simp add: cands_def dmap_def)
qed

lemma commit_base:
  assumes ok: "center_ok m"
  obtains cb where "base_commit (change m) hasAlias nocopy (base m) = Inr (cb, card (dom (cands m)))"
    "bmap cb = (if hasAlias then cands m else bmap (base m) ++ (map_option (dropKey nocopy) \<circ> dmap (change m)))"
    "\<not> hasAlias \<Longrightarrow> base_ok cb"
proof -
  have b: "base_ok (base m)" "distinct (map fst (identifierMap (base m)))"
    using ok by (simp_all add: center_ok_def base_ok_def)
  have size: "length (identifierMap cb) = card (dom (cands m))"
    if "distinct (map fst (identifierMap cb))" "dom (bmap cb) = dom (cands m)" for cb
    using that distinct_card [OF that(1)] by (simp add: bmap_def dom_map_of_conv_image_fst)
  show thesis
  proof (cases hasAlias)
    case True
    have "\<forall>v\<in>set (map snd (chDirty (change m))). cName v \<noteq> []"
      using dirty_values [OF ok] dirty_keyed [OF ok] by (auto simp: keyed_def)
    then obtain cb where "commitAll legacyCommitOne (map snd (chDirty (change m))) (base m) = Inr cb" "bmap cb = cands m"
      "distinct (map fst (identifierMap cb))"
      using legacyCommit_ok [OF _ b(2)] replay_dirty [OF ok] by metis
    then show ?thesis using that [of cb] size [of cb] True by (simp add: base_commit_def)
  next
    case False
    let ?ds = "map (dropKey nocopy) (chCandidates (change m))"
    have "replay_ok (bmap (base m)) ?ds" using ok replay_ok_dropKey by (auto simp: center_ok_def)
    then obtain cb where cb: "commitAll (commitOne False) ?ds (base m) = Inr cb" "base_ok cb"
      "bmap cb = replay (bmap (base m)) ?ds"
      using commitAll_ok [OF b(1)] by blast
    have "replay Map.empty ?ds = map_option (dropKey nocopy) \<circ> dmap (change m)"
      using replay_dropKey [of nocopy Map.empty "chCandidates (change m)"] ok by (simp add: center_ok_def comp_def)
    then have map: "bmap cb = bmap (base m) ++ (map_option (dropKey nocopy) \<circ> dmap (change m))"
      unfolding cb(3) by (subst replay_map_add) simp
    then have "dom (bmap cb) = dom (cands m)" by (auto simp: cands_def map_add_def split: option.splits)
    then have "length (identifierMap cb) = card (dom (cands m))" using size cb(2) by (simp add: base_ok_def)
    then have "base_commit (change m) hasAlias nocopy (base m) = Inr (cb, card (dom (cands m)))"
      using False cb(1) by (simp add: base_commit_def commitAll_dropKey [of nocopy])
    then show ?thesis using that [of cb] map cb(2) False by argo
  qed
qed

section \<open>Worked examples\<close>

definition exCand :: "addr \<Rightarrow> addr \<Rightarrow> string \<Rightarrow> Candidate" where
  "exCand owner operator name = \<lparr>cOwner = owner, cOperator = operator, cReward = owner, cIdentifier = None,
     cBLSPubKey = [], cName = name, cVotes = 100, cSelfStakeBucketIdx = candidateNoSelfStakeBucketIndex,
     cSelfStake = 0\<rparr>"

definition emptyCenter :: CandidateCenter where
  "emptyCenter = \<lparr>base = newCandBase, size_cc = 0, change = newCandChange\<rparr>"

definition exCenter :: CandidateCenter where
  "exCenter = (case Upsert (exCand 1 2 ''alpha'') emptyCenter of Inr m \<Rightarrow> m | Inl _ \<Rightarrow> emptyCenter)"

lemma emptyCenter_ok: "center_ok emptyCenter" "cands emptyCenter = Map.empty"
proof -
  show "center_ok emptyCenter"
    by (simp add: center_ok_def emptyCenter_def base_ok_new newCandChange_def dmap_def)
  show "cands emptyCenter = Map.empty"
    by (simp add: cands_def emptyCenter_def newCandBase_def newCandChange_def dmap_def bmap_def)
qed

lemma exCenter_run: "Upsert (exCand 1 2 ''alpha'') emptyCenter = Inr exCenter"
proof -
  have "\<not> isl (Upsert (exCand 1 2 ''alpha'') emptyCenter)" by code_simp
  then show ?thesis by (cases "Upsert (exCand 1 2 ''alpha'') emptyCenter") (simp_all add: exCenter_def)
qed

lemma exCenter_ok: "center_ok exCenter" "cands exCenter = [1 \<mapsto> exCand 1 2 ''alpha'']"
  using Upsert_ok [OF emptyCenter_ok(1) exCenter_run] emptyCenter_ok(2)
  by (simp_all add: exCand_def GetIdentifier_def)

text \<open>
  Property C36.  Names, operators and self-stake buckets are unique.  As long as no other candidate
  has the same owner, the center accepts an update exactly when the candidate has a name and
  clashes with no other candidate, whether that one is committed or was changed in the current
  block; the accepted update is visible at once and keeps the invariant.
\<close>

theorem Upsert_unique:
  assumes ok: "center_ok m"
    and owner: "\<And>i c. cands m i = Some c \<Longrightarrow> cOwner c = cOwner d \<Longrightarrow> i = GetIdentifier d"
  shows "((\<exists>m'. Upsert d m = Inr m') \<longleftrightarrow> cName d \<noteq> [] \<and> uniq ((cands m)(GetIdentifier d \<mapsto> d))) \<and>
    (\<forall>m'. Upsert d m = Inr m' \<longrightarrow> center_ok m' \<and> cands m' = (cands m)(GetIdentifier d \<mapsto> d))"
proof -
  have "(\<exists>m'. Upsert d m = Inr m') \<longleftrightarrow> cName d \<noteq> [] \<and> collision d m = Inr ()"
    unfolding Upsert_Inr by blast
  also have "\<dots> \<longleftrightarrow> cName d \<noteq> [] \<and> uniq ((cands m)(GetIdentifier d \<mapsto> d))"
    using collision_Inr [OF ok, of d "()"] owner unfolding uniq_upd_iff [OF ok] by blast
  finally show ?thesis using Upsert_ok [OF ok] owner by blast
qed

theorem Upsert_unique_witness:
  "(\<exists>m'. Upsert (exCand 3 4 ''beta'') exCenter = Inr m' \<and> cands m' 3 = Some (exCand 3 4 ''beta'') \<and>
     cands m' 1 = Some (exCand 1 2 ''alpha'')) \<and>
   \<not> (\<exists>m'. Upsert (exCand 3 4 ''alpha'') exCenter = Inr m')"
proof -
  have o: "i = GetIdentifier (exCand 3 4 n)" if "cands exCenter i = Some c" "cOwner c = cOwner (exCand 3 4 n)" for i c n
    using that by (auto simp: exCenter_ok exCand_def split: if_splits)
  have u: "uniq ((cands exCenter)(GetIdentifier (exCand 3 4 ''beta'') \<mapsto> exCand 3 4 ''beta''))"
    by (simp add: uniq_def uniqBy_def exCenter_ok exCand_def GetIdentifier_def key_defs isSelfStakeBucketSettled_def)
  have "\<not> uniqBy nameKey ((cands exCenter)(3 \<mapsto> exCand 3 4 ''alpha''))"
    unfolding uniqBy_def exCenter_ok(2)
    by (auto simp: exCand_def key_defs intro!: exI [of _ "1::addr"] exI [of _ "3::addr"])
  then have n: "\<not> uniq ((cands exCenter)(GetIdentifier (exCand 3 4 ''alpha'') \<mapsto> exCand 3 4 ''alpha''))"
    by (simp add: uniq_def exCand_def GetIdentifier_def)
  have U: "((\<exists>m'. Upsert (exCand 3 4 n) exCenter = Inr m') \<longleftrightarrow>
        cName (exCand 3 4 n) \<noteq> [] \<and> uniq ((cands exCenter)(GetIdentifier (exCand 3 4 n) \<mapsto> exCand 3 4 n))) \<and>
      (\<forall>m'. Upsert (exCand 3 4 n) exCenter = Inr m' \<longrightarrow> center_ok m' \<and>
        cands m' = (cands exCenter)(GetIdentifier (exCand 3 4 n) \<mapsto> exCand 3 4 n))" for n
    by (rule Upsert_unique [OF exCenter_ok(1)]) (rule o)
  have "cName (exCand 3 4 ''beta'') \<noteq> []" by (simp add: exCand_def)
  then obtain m' where m': "Upsert (exCand 3 4 ''beta'') exCenter = Inr m'"
    using U [of "''beta''"] u by blast
  then have "cands m' = (cands exCenter)(GetIdentifier (exCand 3 4 ''beta'') \<mapsto> exCand 3 4 ''beta'')"
    using U [of "''beta''"] by blast
  moreover have "GetIdentifier (exCand 3 4 ''beta'') = 3" by (simp add: exCand_def GetIdentifier_def)
  ultimately show ?thesis using m' U [of "''alpha''"] n by (simp add: exCenter_ok(2))
qed

text \<open>
  Property C37.  From a consistent center, committing the changes of a block never fails, whatever the
  feature flags: nothing is dirty any more, the size is the number of candidates, and by identifier the
  center shows the same candidates as before.  Only while BLS keys are not copied, the candidates that the
  block changed lose theirs.  Without the alias bug of the first blocks the committed center is consistent
  again, with exact indexes by name, owner, operator and self-stake bucket; with it stale entries may stay
  in these.
\<close>

theorem Commit_refines:
  assumes ok: "center_ok m"
  shows "\<exists>m'. Commit hasAlias notCopied m = Inr m' \<and> \<not> IsDirty m' \<and> size_cc m' = card (dom (cands m)) \<and>
    cands m' = (if \<not> hasAlias \<and> notCopied then bmap (base m) ++ (map_option (dropKey True) \<circ> dmap (change m)) else cands m) \<and>
    (\<not> hasAlias \<longrightarrow> center_ok m')"
proof -
  let ?n = "\<not> hasAlias \<and> notCopied"
  obtain cb where cb: "base_commit (change m) hasAlias ?n (base m) = Inr (cb, card (dom (cands m)))"
    "bmap cb = (if hasAlias then cands m else bmap (base m) ++ (map_option (dropKey ?n) \<circ> dmap (change m)))"
    "\<not> hasAlias \<Longrightarrow> base_ok cb"
    using commit_base [OF ok] by metis
  let ?m = "\<lparr>base = cb, size_cc = card (dom (cands m)), change = newCandChange\<rparr>"
  have "Commit hasAlias notCopied m = Inr ?m" using cb(1) by (auto simp: Commit_def commitWith_def)
  moreover have "cands ?m = bmap cb" by (simp add: cands_def newCandChange_def dmap_def)
  moreover have "\<not> hasAlias \<Longrightarrow> center_ok ?m" using cb(3) by (simp add: center_ok_def newCandChange_def dmap_def)
  ultimately show ?thesis
    using cb(2) by (intro exI [of _ ?m]) (simp add: IsDirty_def newCandChange_def cands_def dropKey_id option.map_id0)
qed

text \<open>The candidate with a BLS key, committed before and after the key is copied.\<close>

definition exKeyed :: CandidateCenter where
  "exKeyed = (case Upsert ((exCand 1 2 ''alpha'')\<lparr>cBLSPubKey := [9]\<rparr>) emptyCenter of Inr m \<Rightarrow> m | Inl _ \<Rightarrow> emptyCenter)"

theorem Commit_refines_witness:
  "(\<exists>m'. Commit False False exCenter = Inr m' \<and> cands m' = [1 \<mapsto> exCand 1 2 ''alpha''] \<and> size_cc m' = 1 \<and> \<not> IsDirty m') \<and>
   (\<exists>m'. Commit True False exCenter = Inr m' \<and> cands m' = [1 \<mapsto> exCand 1 2 ''alpha'']) \<and>
   (\<exists>m'. Commit False True exKeyed = Inr m' \<and> cands m' 1 = Some (exCand 1 2 ''alpha'') \<and> center_ok m')"
proof -
  let ?c = "(exCand 1 2 ''alpha'')\<lparr>cBLSPubKey := [9]\<rparr>"
  have "\<not> isl (Upsert ?c emptyCenter)" by code_simp
  then have run: "Upsert ?c emptyCenter = Inr exKeyed"
    by (cases "Upsert ?c emptyCenter") (simp_all add: exKeyed_def)
  have ok: "center_ok exKeyed" using Upsert_ok [OF emptyCenter_ok(1) run] emptyCenter_ok(2) by simp
  have "dmap (change exKeyed) 1 = Some ?c" by code_simp
  moreover have "dropKey True ?c = exCand 1 2 ''alpha''" by (simp add: dropKey_def exCand_def)
  ultimately show ?thesis
    using Commit_refines [OF exCenter_ok(1), of False False] Commit_refines [OF exCenter_ok(1), of True False]
      Commit_refines [OF ok, of False True]
    by (auto simp: exCenter_ok(2) map_add_def)
qed

section \<open>Corner cases of the center\<close>

text \<open>
  \<^verbatim>\<open>Collision\<close> stops at equal owners, so within a block a second candidate of the same owner may
  take the name and the operator of the first: the hypothesis on owners of the uniqueness property
  is needed, and the handlers have to establish it (\<^verbatim>\<open>ContainsOwner\<close>).
\<close>

definition exTwin :: Candidate where
  "exTwin = (exCand 1 2 ''alpha'')\<lparr>cIdentifier := Some 7\<rparr>"

lemma Upsert_accepts_twin:
  "\<exists>m'. Upsert exTwin exCenter = Inr m' \<and> map cName (All m') = [''alpha'', ''alpha''] \<and>
     map GetIdentifier (All m') = [1, 7]"
proof -
  have "case Upsert exTwin exCenter of Inl _ \<Rightarrow> False | Inr m' \<Rightarrow>
      map cName (All m') = [''alpha'', ''alpha''] \<and> map GetIdentifier (All m') = [1, 7]" by code_simp
  then show ?thesis by (cases "Upsert exTwin exCenter") auto
qed

text \<open>The votes, not the self stake, guard \<^verbatim>\<open>SubSelfStake\<close>: the self stake can become negative.\<close>

lemma SubSelfStake_negative: "bindR (SubSelfStake 60 (exCand 1 2 ''alpha'')) (\<lambda>d. Inr (cSelfStake d)) = Inr (- 60)"
  by code_simp

text \<open>
  Within a block the old owner of a transferred candidate still resolves to it, to the version
  before the transfer, although \<^verbatim>\<open>ContainsOwner\<close> says that it owns none.
\<close>

definition transferCenter :: "CandidateCenter res" where
  "transferCenter = bindR (Commit False False exCenter)
     (Upsert ((exCand 1 2 ''alpha'')\<lparr>cOwner := 5, cIdentifier := Some 1\<rparr>))"

lemma GetByOwner_stale:
  "bindR transferCenter (\<lambda>m. Inr (ContainsOwner 1 m, map_option cOwner (GetByOwner 1 m),
     map_option cOwner (GetByIdentifier 1 m))) = Inr (False, Some 1, Some 5)"
  by code_simp

text \<open>The size counts a candidate that is new in the block once for every update of it.\<close>

lemma Upsert_twice_size:
  "bindR (Upsert (exCand 1 2 ''alpha'') exCenter) (\<lambda>m. Inr (size_cc m, length (All m))) = Inr (2, 1)"
  by code_simp

end
