(* ===== verification/LinkedList.thy ===== *)
theory LinkedList
  imports Prelude "HOL-Library.AList" "HOL-Library.Multiset"
begin

text \<open>
  Ordered lists in an unordered store: \<^verbatim>\<open>state/candidate_linklist.go\<close>.  Every entry holds the
  address of the next one; the decoder builds a map of nodes, finds the head (the node nobody points
  to) and follows the links.

  The iteration over the node map is in an arbitrary order in Go; here the map is an association
  list and the theorems hold for every order.  The loop of \<^verbatim>\<open>traverseLinkedList\<close> ends because every
  round marks another node of the map as visited; \<open>traverse\<close> is defined with that measure, so the
  decoder is total.
\<close>

record 'a linkedListNode =
  node_data :: 'a
  nextAddr :: string

type_synonym 'a nodeMap = "(string \<times> 'a linkedListNode) list"

text \<open>\<open>decoder\<close> gives the data, the address of the entry and the address of the next one.\<close>

fun buildCandidateMap ::
  "('k \<Rightarrow> 'v \<Rightarrow> ('a \<times> string \<times> string) res) \<Rightarrow> ('k \<times> 'v) list \<Rightarrow> 'a nodeMap \<Rightarrow> 'a nodeMap res" where
  "buildCandidateMap decoder [] nodes = Inr nodes"
| "buildCandidateMap decoder ((k, gv) # rest) nodes =
     bindR (decoder k gv) (\<lambda>(data, id, next).
     buildCandidateMap decoder rest (AList.update id \<lparr>node_data = data, nextAddr = next\<rparr> nodes))"

definition pointedTo :: "'a nodeMap \<Rightarrow> string \<Rightarrow> bool" where
  "pointedTo nodes a \<longleftrightarrow> (\<exists>n\<in>set (map snd nodes). nextAddr n \<noteq> [] \<and> nextAddr n = a)"

definition findLinkedListHead :: "'a nodeMap \<Rightarrow> string res" where
  "findLinkedListHead nodes =
     (case find (\<lambda>a. \<not> pointedTo nodes a) (map fst nodes) of
        None \<Rightarrow> Inl (Errorf ''failed to find head of candidate list'')
      | Some a \<Rightarrow> Inr a)"

text \<open>The loop, with the addresses still to visit and the result so far.\<close>

function traverse :: "'a nodeMap \<Rightarrow> string list \<Rightarrow> 'a list \<Rightarrow> string \<Rightarrow> 'a list res" where
  "traverse nodes visited result current =
     (if current = [] then Inr result
      else if current \<in> set visited
        then Inl (Errorf ''circular reference detected in candidate list'')
      else case map_of nodes current of
        None \<Rightarrow> Inl (Errorf ''missing candidate in linked list'')
      | Some node \<Rightarrow> traverse nodes (current # visited) (result @ [node_data node]) (nextAddr node))"
  by pat_completeness auto

termination
proof (relation "measure (\<lambda>(nodes, visited, result, current). card (dom (map_of nodes) - set visited))",
    goal_cases)
  case 1
  then show ?case by simp
next
  case (2 nodes visited result current node)
  then have "current \<in> dom (map_of nodes) - set visited" by auto
  moreover have "dom (map_of nodes) - set (current # visited) = dom (map_of nodes) - set visited - {current}" by auto
  moreover have "finite (dom (map_of nodes) - set visited)" by (simp add: finite_dom_map_of)
  ultimately show ?case by (simp add: card_Diff1_less del: card_Diff_insert)
qed

declare traverse.simps [simp del]

definition traverseLinkedList :: "string \<Rightarrow> 'a nodeMap \<Rightarrow> 'a list res" where
  "traverseLinkedList headAddr nodes =
     bindR (traverse nodes [] [] headAddr) (\<lambda>result.
     if length result \<noteq> length nodes then Inl (Errorf ''incomplete traversal'') else Inr result)"

definition DecodeOrderedKvList ::
  "('k \<Rightarrow> 'v \<Rightarrow> ('a \<times> string \<times> string) res) \<Rightarrow> ('k \<times> 'v) list \<Rightarrow> 'a list res" where
  "DecodeOrderedKvList decoder kvs =
     bindR (buildCandidateMap decoder kvs []) (\<lambda>nodes.
     bindR (findLinkedListHead nodes) (\<lambda>headAddr.
     traverseLinkedList headAddr nodes))"

section \<open>Chains\<close>

text \<open>The links of a list of addressed items: every item points to the address of the next.\<close>

fun links :: "('a \<Rightarrow> string) \<Rightarrow> 'a list \<Rightarrow> ('a \<times> string) list" where
  "links key [] = []"
| "links key [x] = [(x, [])]"
| "links key (x # y # xs) = (x, key y) # links key (y # xs)"

text \<open>A map of nodes is the chain of a list.\<close>

definition chain :: "('a \<Rightarrow> string) \<Rightarrow> 'a list \<Rightarrow> 'a nodeMap \<Rightarrow> bool" where
  "chain key xs nodes \<longleftrightarrow> distinct (map fst nodes) \<and>
     set nodes = (\<lambda>(x, next). (key x, \<lparr>node_data = x, nextAddr = next\<rparr>)) ` set (links key xs)"

lemma links_items: "map fst (links key xs) = xs"
  by (induction key xs rule: links.induct) auto

lemma links_next: "links key (x # xs) = (x, case xs of [] \<Rightarrow> [] | y # _ \<Rightarrow> key y) # links key xs"
  by (cases xs) auto

lemma links_targets: "snd ` set (links key (x # xs)) = insert [] (key ` set xs)"
  by (induction xs arbitrary: x) auto

lemma chain_lookup:
  assumes "chain key xs nodes" "(x, next) \<in> set (links key xs)"
  shows "map_of nodes (key x) = Some \<lparr>node_data = x, nextAddr = next\<rparr>"
  using assms by (intro map_of_is_SomeI) (force simp: chain_def)+

lemma chain_length:
  assumes "chain key xs nodes" "distinct (map key xs)"
  shows "length nodes = length xs"
proof -
  have "set (map fst nodes) = key ` fst ` set (links key xs)"
    using assms(1) by (auto simp: chain_def image_image split_beta)
  also have "\<dots> = set (map key xs)" by (metis links_items list.set_map)
  finally show ?thesis
    using assms distinct_card by (metis chain_def length_map)
qed

lemma traverse_chain:
  assumes "chain key (pre @ xs) nodes" "distinct (map key (pre @ xs))" "\<forall>x\<in>set xs. key x \<noteq> []"
    and "set visited = key ` set pre"
  shows "traverse nodes visited pre (case xs of [] \<Rightarrow> [] | x # _ \<Rightarrow> key x) = Inr (pre @ xs)"
  using assms
proof (induction xs arbitrary: pre visited)
  case Nil
  then show ?case by (simp add: traverse.simps)
next
  case (Cons x xs)
  have "(x, case xs of [] \<Rightarrow> [] | y # _ \<Rightarrow> key y) \<in> set (links key (pre @ x # xs))"
    by (induction pre) (auto simp: links_next)
  from chain_lookup [OF Cons.prems(1) this]
  have look: "map_of nodes (key x) = Some \<lparr>node_data = x, nextAddr = case xs of [] \<Rightarrow> [] | y # _ \<Rightarrow> key y\<rparr>" .
  have fresh: "key x \<notin> set visited" "key x \<noteq> []" using Cons.prems by auto
  have "traverse nodes (key x # visited) (pre @ [x]) (case xs of [] \<Rightarrow> [] | y # _ \<Rightarrow> key y) = Inr ((pre @ [x]) @ xs)"
    by (rule Cons.IH) (use Cons.prems in simp_all)
  then show ?case using look fresh by (simp add: traverse.simps [of nodes visited pre])
qed

lemma findHead_chain:
  assumes "chain key (x # xs) nodes" "distinct (map key (x # xs))" "\<forall>y\<in>set (x # xs). key y \<noteq> []"
  shows "findLinkedListHead nodes = Inr (key x)"
proof -
  have addrs: "set (map fst nodes) = key ` set (x # xs)"
  proof -
    have "set (map fst nodes) = key ` fst ` set (links key (x # xs))"
      using assms(1) by (auto simp: chain_def image_image split_beta)
    then show ?thesis by (metis links_items list.set_map)
  qed
  have "nextAddr ` snd ` set nodes = snd ` set (links key (x # xs))"
    using assms(1) by (auto simp: chain_def image_image split_beta)
  then have targets: "nextAddr ` snd ` set nodes = insert [] (key ` set xs)" by (simp only: links_targets)
  have pt: "pointedTo nodes a \<longleftrightarrow> a \<in> key ` set xs" for a
  proof -
    have "pointedTo nodes a \<longleftrightarrow> a \<noteq> [] \<and> a \<in> nextAddr ` snd ` set nodes" by (auto simp: pointedTo_def)
    then show ?thesis using targets assms(3) by auto
  qed
  have "find (\<lambda>a. \<not> pointedTo nodes a) (map fst nodes) = Some (key x)"
  proof (cases "find (\<lambda>a. \<not> pointedTo nodes a) (map fst nodes)")
    case None
    then have "\<forall>a\<in>set (map fst nodes). pointedTo nodes a" by (auto simp: find_None_iff)
    then have "pointedTo nodes (key x)" unfolding addrs by simp
    then show ?thesis using assms(2) by (auto simp: pt)
  next
    case (Some a)
    then have "\<not> pointedTo nodes a" "a \<in> set (map fst nodes)"
      by (auto simp: find_Some_iff)
    then show ?thesis using Some addrs by (auto simp: pt)
  qed
  then show ?thesis by (simp add: findLinkedListHead_def)
qed

text \<open>The entries may be stored in any order and still decode to the list.\<close>

lemma build_chain:
  assumes "\<forall>(k, v)\<in>set kvs. \<exists>d n. decoder k v = Inr (d, key d, n)"
    and "distinct (map fst nodes @ map (\<lambda>(k, v). case decoder k v of Inr (d, i, n) \<Rightarrow> i) kvs)"
  shows "\<exists>nodes'. buildCandidateMap decoder kvs nodes = Inr nodes' \<and> distinct (map fst nodes') \<and>
     set nodes' = set nodes \<union> (\<lambda>(k, v). case decoder k v of Inr (d, i, n) \<Rightarrow>
       (i, \<lparr>node_data = d, nextAddr = n\<rparr>)) ` set kvs"
  using assms
proof (induction kvs arbitrary: nodes)
  case Nil
  then show ?case by simp
next
  case (Cons kv kvs)
  obtain k v where kv: "kv = (k, v)" by (cases kv)
  obtain d n where d: "decoder k v = Inr (d, key d, n)" using Cons.prems(1) kv by auto
  let ?node = "\<lparr>node_data = d, nextAddr = n\<rparr>"
  have new: "key d \<notin> set (map fst nodes)" using Cons.prems(2) by (simp add: kv d)
  have upd: "AList.update (key d) ?node nodes = nodes @ [(key d, ?node)]"
    using new by (induction nodes) auto
  have "\<exists>nodes'. buildCandidateMap decoder kvs (nodes @ [(key d, ?node)]) = Inr nodes' \<and> distinct (map fst nodes') \<and>
     set nodes' = set (nodes @ [(key d, ?node)]) \<union> (\<lambda>(k, v). case decoder k v of Inr (d, i, n) \<Rightarrow>
       (i, \<lparr>node_data = d, nextAddr = n\<rparr>)) ` set kvs"
    by (rule Cons.IH) (use Cons.prems in \<open>auto simp: kv d\<close>)
  then show ?case by (auto simp: kv d upd)
qed

lemma Decode_links:
  assumes dec: "\<And>x n. (x, n) \<in> set (links key xs) \<Longrightarrow>
      decoder (fst (enc (x, n))) (snd (enc (x, n))) = Inr (x, key x, n)"
    and kvs: "mset kvs = mset (map enc (links key xs))"
    and xs: "xs \<noteq> []" "distinct (map key xs)" "\<forall>x\<in>set xs. key x \<noteq> []"
  shows "DecodeOrderedKvList decoder kvs = Inr xs"
proof -
  have kvs_set: "set kvs = enc ` set (links key xs)" using mset_eq_setD [OF kvs] by simp
  let ?id = "\<lambda>(k, v). case decoder k v of Inr (d, i, n) \<Rightarrow> i"
  have ids: "?id (enc y) = key (fst y)" if "y \<in> set (links key xs)" for y
    using dec [of "fst y" "snd y"] that by (simp add: split_beta)
  have "mset (map ?id kvs) = mset (map ?id (map enc (links key xs)))" by (simp only: mset_map kvs)
  also have "map ?id (map enc (links key xs)) = map key (map fst (links key xs))"
    using ids by simp
  finally have "mset (map ?id kvs) = mset (map key xs)" unfolding links_items .
  then have "distinct (map ?id kvs)" using xs(2) mset_eq_imp_distinct_iff by blast
  moreover have "\<forall>(k, v)\<in>set kvs. \<exists>d n. decoder k v = Inr (d, key d, n)"
    unfolding kvs_set using dec by (auto simp: split_beta)
  ultimately obtain nodes where b: "buildCandidateMap decoder kvs [] = Inr nodes" "distinct (map fst nodes)"
    "set nodes = (\<lambda>(k, v). case decoder k v of Inr (d, i, n) \<Rightarrow> (i, \<lparr>node_data = d, nextAddr = n\<rparr>)) ` set kvs"
    using build_chain [of kvs decoder key "[]"] by auto
  have "set nodes = (\<lambda>(x, next). (key x, \<lparr>node_data = x, nextAddr = next\<rparr>)) ` set (links key xs)"
    unfolding b(3) kvs_set image_image
    by (rule image_cong) (use dec in \<open>auto simp: split_beta\<close>)
  then have ch: "chain key xs nodes" using b(2) by (simp add: chain_def)
  obtain x rest where x: "xs = x # rest" using xs(1) by (cases xs) auto
  have "findLinkedListHead nodes = Inr (key x)"
    using findHead_chain [of key x rest nodes] ch xs x by simp
  moreover have "traverse nodes [] [] (key x) = Inr xs"
    using traverse_chain [of key "[]" xs nodes "[]"] ch xs x by simp
  moreover have "length nodes = length xs" by (rule chain_length [OF ch xs(2)])
  ultimately show ?thesis by (simp add: DecodeOrderedKvList_def traverseLinkedList_def b(1))
qed

end
