(* ===== verification/CandidateCodec.thy ===== *)
theory CandidateCodec
  imports CandidateCenter LinkedList "HOL-Library.Product_Lexorder" "HOL-Library.List_Lexorder" "HOL-Library.Char_ord"
begin

text \<open>
  The stored forms of a candidate and the order of a candidate list
  (\<^verbatim>\<open>action/protocol/staking/candidate.go\<close>).

  A candidate is stored either as one protobuf message or, in the system contract storage, as two:
  the primary data without the votes and the secondary data with only the votes.
  \<^verbatim>\<open>proto.Marshal\<close> of a message is the message.  The lemmas show that both forms are lossless and
  that \<^verbatim>\<open>Less\<close> is a strict order that is total on candidates with different owners, so that the
  sorted list is determined.
\<close>

section \<open>The two stored forms\<close>

text \<open>The secondary data; the empty byte string is \<open>None\<close>.\<close>

record candidate_gv =
  PrimaryData :: candidate_pb
  SecondaryData :: "string option"
  AuxiliaryData :: "addr option"

definition cand_Encode :: "(addr \<Rightarrow> string) \<Rightarrow> Candidate \<Rightarrow> candidate_gv res" where
  "cand_Encode addrString d =
     (let secondaryData = (if cVotes d > 0 then Some (big_String (cVotes d)) else None)
      in bindR (cand_toProto addrString (d\<lparr>cVotes := 0\<rparr>)) (\<lambda>primaryData.
         Inr \<lparr>PrimaryData = primaryData, SecondaryData = secondaryData, AuxiliaryData = None\<rparr>))"

definition cand_Decode :: "(string \<Rightarrow> addr res) \<Rightarrow> candidate_gv \<Rightarrow> Candidate res" where
  "cand_Decode FromString gv =
     bindR (cand_fromProto FromString (PrimaryData gv)) (\<lambda>d.
     case SecondaryData gv of None \<Rightarrow> Inr d
     | Some votes \<Rightarrow> (case big_SetString votes of None \<Rightarrow> Inl ErrInvalidAmount
         | Some vote \<Rightarrow> Inr (d\<lparr>cVotes := vote\<rparr>)))"

fun list_toProto :: "(addr \<Rightarrow> string) \<Rightarrow> Candidate list \<Rightarrow> candidate_pb list res" where
  "list_toProto addrString [] = Inr []"
| "list_toProto addrString (d # l) =
     bindR (cand_toProto addrString d) (\<lambda>pb. bindR (list_toProto addrString l) (\<lambda>pbs. Inr (pb # pbs)))"

fun list_fromProto :: "(string \<Rightarrow> addr res) \<Rightarrow> candidate_pb list \<Rightarrow> Candidate list res" where
  "list_fromProto FromString [] = Inr []"
| "list_fromProto FromString (pb # pbs) =
     bindR (cand_fromProto FromString pb) (\<lambda>d. bindR (list_fromProto FromString pbs) (\<lambda>l. Inr (d # l)))"

text \<open>
  The list in the system contract: every entry under the bytes of the identifier, with the bytes of
  the next identifier as its auxiliary data.  \<^verbatim>\<open>Bytes\<close> and \<^verbatim>\<open>FromBytes\<close> of an address are its value.
\<close>

fun list_Encodes :: "(addr \<Rightarrow> string) \<Rightarrow> Candidate list \<Rightarrow> (addr \<times> candidate_gv) list res" where
  "list_Encodes addrString [] = Inr []"
| "list_Encodes addrString (c # l) =
     bindR (cand_Encode addrString c) (\<lambda>gv.
     let nextAddr = (case l of [] \<Rightarrow> None | c' # _ \<Rightarrow> Some (GetIdentifier c'))
     in bindR (list_Encodes addrString l) (\<lambda>kvs.
        Inr ((GetIdentifier c, gv\<lparr>AuxiliaryData := nextAddr\<rparr>) # kvs)))"

definition entryDecoder ::
  "(addr \<Rightarrow> string) \<Rightarrow> (string \<Rightarrow> addr res) \<Rightarrow> addr \<Rightarrow> candidate_gv \<Rightarrow> (Candidate \<times> string \<times> string) res" where
  "entryDecoder addrString FromString k v =
     bindR (cand_Decode FromString (v)) (\<lambda>c.
     Inr (c, addrString (GetIdentifier c),
       case AuxiliaryData v of None \<Rightarrow> [] | Some a \<Rightarrow> addrString a))"

definition list_Decodes ::
  "(addr \<Rightarrow> string) \<Rightarrow> (string \<Rightarrow> addr res) \<Rightarrow> addr list \<Rightarrow> candidate_gv list \<Rightarrow> Candidate list res" where
  "list_Decodes addrString FromString keys gvs =
     (if length keys \<noteq> length gvs then Inl (Errorf ''mismatched keys and generic values length'')
      else if length keys = 0 then Inr []
      else DecodeOrderedKvList (entryDecoder addrString FromString) (zip keys gvs))"

section \<open>The order of a list\<close>

definition Less :: "(addr \<Rightarrow> string) \<Rightarrow> Candidate \<Rightarrow> Candidate \<Rightarrow> bool" where
  "Less addrString a b =
     (if cVotes a \<noteq> cVotes b then cVotes a > cVotes b
      else if addrString (cOwner a) \<noteq> addrString (cOwner b) then addrString (cOwner a) > addrString (cOwner b)
      else if addrString (cReward a) \<noteq> addrString (cReward b)
        then addrString (cReward a) > addrString (cReward b)
      else if addrString (cOperator a) \<noteq> addrString (cOperator b)
        then addrString (cOperator a) > addrString (cOperator b)
      else if cSelfStakeBucketIdx a > cSelfStakeBucketIdx b then True
      else if cSelfStakeBucketIdx a < cSelfStakeBucketIdx b then False
      else if cSelfStake a \<noteq> cSelfStake b then cSelfStake a > cSelfStake b
      else cName a > cName b)"

definition rank :: "(addr \<Rightarrow> string) \<Rightarrow> Candidate \<Rightarrow> int \<times> string \<times> string \<times> string \<times> u64 \<times> int \<times> string" where
  "rank addrString c = (cVotes c, addrString (cOwner c), addrString (cReward c), addrString (cOperator c),
     cSelfStakeBucketIdx c, cSelfStake c, cName c)"

lemma Less_rank: "Less addrString a b \<longleftrightarrow> rank addrString b < rank addrString a"
  by (auto simp: Less_def rank_def)

lemma Less_total:
  assumes "inj addrString" "cOwner a \<noteq> cOwner b"
  shows "Less addrString a b \<or> Less addrString b a"
proof -
  have "rank addrString a \<noteq> rank addrString b"
    using assms by (auto simp: rank_def dest: injD)
  then show ?thesis unfolding Less_rank by auto
qed

section \<open>Properties\<close>

text \<open>
  What the codec relies on of the address package: the string of an address is not empty and parses
  back to it.
\<close>

locale address_strings =
  fixes addrString :: "addr \<Rightarrow> string" and FromString :: "string \<Rightarrow> addr res"
  assumes FromString_addrString: "FromString (addrString a) = Inr a"
    and addrString_nonempty: "addrString a \<noteq> []"
begin

lemma cand_fromProto_toProto:
  "cName d \<noteq> [] \<Longrightarrow> bindR (cand_toProto addrString d) (cand_fromProto FromString) = Inr d"
  by (cases "cIdentifier d")
     (simp_all add: cand_toProto_def cand_fromProto_def checkR_def FromString_addrString addrString_nonempty)

lemma cand_toProto_total: "cName d \<noteq> [] \<Longrightarrow> \<exists>pb. cand_toProto addrString d = Inr pb \<and> cand_fromProto FromString pb = Inr d"
  using cand_fromProto_toProto [of d] by (auto simp: bindR_Inr)

lemma cand_Decode_Encode:
  assumes "cName d \<noteq> []" "0 \<le> cVotes d"
  shows "bindR (cand_Encode addrString d) (cand_Decode FromString) = Inr d"
proof -
  obtain pb where pb: "cand_toProto addrString (d\<lparr>cVotes := 0\<rparr>) = Inr pb"
    "cand_fromProto FromString pb = Inr (d\<lparr>cVotes := 0\<rparr>)"
    using cand_toProto_total [of "d\<lparr>cVotes := 0\<rparr>"] assms(1) by auto
  show ?thesis using assms(2) by (cases "cVotes d = 0") (simp_all add: cand_Encode_def cand_Decode_def pb)
qed

lemma list_fromProto_toProto:
  "\<forall>d\<in>set l. cName d \<noteq> [] \<Longrightarrow> \<exists>pbs. list_toProto addrString l = Inr pbs \<and> list_fromProto FromString pbs = Inr l"
proof (induction l)
  case (Cons d l)
  then obtain pbs where "list_toProto addrString l = Inr pbs" "list_fromProto FromString pbs = Inr l" by auto
  moreover obtain pb where "cand_toProto addrString d = Inr pb" "cand_fromProto FromString pb = Inr d"
    using cand_toProto_total [of d] Cons.prems by auto
  ultimately show ?case by simp
qed simp

lemma addrString_inj: "inj addrString"
proof
  fix a b assume "addrString a = addrString b"
  then show "a = b" by (metis FromString_addrString sum.inject(2))
qed

text \<open>One entry of the encoded list, from a link of the list.\<close>

definition entryOf :: "Candidate \<times> string \<Rightarrow> addr \<times> candidate_gv" where
  "entryOf y = (case cand_Encode addrString (fst y) of Inr gv \<Rightarrow>
     (GetIdentifier (fst y), gv\<lparr>AuxiliaryData :=
       (if snd y = [] then None else case FromString (snd y) of Inr a \<Rightarrow> Some a | Inl _ \<Rightarrow> None)\<rparr>))"

lemma entryOf_decodes:
  assumes "cName c \<noteq> []" "0 \<le> cVotes c" "n = [] \<or> n = addrString a"
  shows "entryDecoder addrString FromString (fst (entryOf (c, n))) (snd (entryOf (c, n))) =
    Inr (c, addrString (GetIdentifier c), n)"
proof -
  obtain gv where gv: "cand_Encode addrString c = Inr gv" "cand_Decode FromString gv = Inr c"
    using cand_Decode_Encode [OF assms(1,2)] by (auto simp: bindR_Inr)
  then show ?thesis using assms(3)
    by (auto simp: entryOf_def entryDecoder_def cand_Decode_def FromString_addrString addrString_nonempty)
qed

lemma links_entries:
  assumes "(c, n) \<in> set (links (addrString \<circ> GetIdentifier) l)"
  shows "c \<in> set l \<and> (\<exists>a. n = [] \<or> n = addrString a)"
  using assms by (induction "addrString \<circ> GetIdentifier" l rule: links.induct) auto

lemma list_Encodes_links:
  assumes "\<forall>c\<in>set l. cName c \<noteq> [] \<and> 0 \<le> cVotes c"
  shows "list_Encodes addrString l = Inr (map entryOf (links (addrString \<circ> GetIdentifier) l))"
  using assms
proof (induction l)
  case (Cons c l)
  obtain gv where gv: "cand_Encode addrString c = Inr gv"
    using cand_Decode_Encode [of c] Cons.prems by (auto simp: bindR_Inr)
  show ?case using Cons gv
    by (cases l) (simp_all add: entryOf_def FromString_addrString addrString_nonempty)
qed simp

lemma list_Decodes_Encodes:
  assumes "\<forall>c\<in>set l. cName c \<noteq> [] \<and> 0 \<le> cVotes c" "distinct (map GetIdentifier l)"
    and "list_Encodes addrString l = Inr kvs" "mset kvs' = mset kvs"
  shows "list_Decodes addrString FromString (map fst kvs') (map snd kvs') = Inr l"
proof (cases "l = []")
  case True
  then show ?thesis using assms(3,4) by (simp add: list_Decodes_def)
next
  case False
  let ?key = "addrString \<circ> GetIdentifier"
  have inj: "inj addrString" by (rule addrString_inj)
  have m: "mset kvs' = mset (map entryOf (links ?key l))" using assms list_Encodes_links by simp
  have "DecodeOrderedKvList (entryDecoder addrString FromString) kvs' = Inr l"
  proof (rule Decode_links [OF _ m False])
    show "distinct (map ?key l)"
      using assms(2) inj by (simp add: distinct_map inj_on_subset [OF inj] comp_inj_on)
    show "\<forall>x\<in>set l. ?key x \<noteq> []" by (simp add: addrString_nonempty)
    fix c n assume cn: "(c, n) \<in> set (links ?key l)"
    from links_entries [OF this] obtain a where "c \<in> set l" "n = [] \<or> n = addrString a" by blast
    then show "entryDecoder addrString FromString (fst (entryOf (c, n))) (snd (entryOf (c, n))) = Inr (c, ?key c, n)"
      using entryOf_decodes [of c n a] assms(1) by simp
  qed
  moreover have "kvs' \<noteq> []" 
  proof
    assume "kvs' = []"
    then have "map fst (links ?key l) = []" using m by simp
    then show False using False by (simp only: links_items)
  qed
  ultimately show ?thesis by (simp add: list_Decodes_def zip_map_fst_snd)
qed

end

text \<open>A rendering of addresses for which the laws hold: the decimal digits of the number.\<close>

definition decString :: "addr \<Rightarrow> string" where
  "decString a = big_String (uint a)"

definition decParse :: "string \<Rightarrow> addr res" where
  "decParse s = (case big_SetString s of None \<Rightarrow> Inl ErrInvalidOwner | Some i \<Rightarrow> Inr (word_of_int i))"

interpretation dec: address_strings decString decParse
  by unfold_locales (simp_all add: decString_def decParse_def)

text \<open>
  Property C38.  A candidate with a name and votes that are not negative survives both stored forms,
  the single message and the split one.
\<close>

theorem candidate_roundtrip:
  assumes "\<And>a. FromString (addrString a) = Inr a" "\<And>a. addrString a \<noteq> []"
    and "cName d \<noteq> []" "0 \<le> cVotes d"
  shows "bindR (cand_toProto addrString d) (cand_fromProto FromString) = Inr d \<and>
    bindR (cand_Encode addrString d) (cand_Decode FromString) = Inr d"
proof -
  have "address_strings addrString FromString" using assms(1,2) by unfold_locales
  then show ?thesis
    using assms(3,4) address_strings.cand_fromProto_toProto address_strings.cand_Decode_Encode by blast
qed

theorem candidate_roundtrip_witness:
  "bindR (cand_toProto decString (exCand 1 2 ''alpha'')) (cand_fromProto decParse) = Inr (exCand 1 2 ''alpha'') \<and>
   bindR (cand_Encode decString (exCand 1 2 ''alpha'')) (cand_Decode decParse) = Inr (exCand 1 2 ''alpha'')"
  by (rule candidate_roundtrip)
     (simp_all add: dec.FromString_addrString dec.addrString_nonempty exCand_def)

text \<open>
  Property C39.  \<^verbatim>\<open>Less\<close> is a strict order, and on candidates with different owners it is total:
  more votes come first, and ties are broken.
\<close>

theorem Less_strict_order:
  assumes "inj addrString"
  shows "\<not> Less addrString a a \<and>
    (Less addrString a b \<longrightarrow> Less addrString b c \<longrightarrow> Less addrString a c) \<and>
    (cOwner a \<noteq> cOwner b \<longrightarrow> Less addrString a b \<noteq> Less addrString b a) \<and>
    (cVotes a > cVotes b \<longrightarrow> Less addrString a b)"
proof -
  have "cOwner a \<noteq> cOwner b \<longrightarrow> Less addrString a b \<or> Less addrString b a"
    using Less_total [OF assms] by blast
  moreover have "\<not> (Less addrString a b \<and> Less addrString b a)" unfolding Less_rank using less_asym by blast
  moreover have "Less addrString a b \<longrightarrow> Less addrString b c \<longrightarrow> Less addrString a c"
    by (auto simp: Less_rank)
  moreover have "\<not> Less addrString a a" by (simp add: Less_rank)
  moreover have "cVotes a > cVotes b \<longrightarrow> Less addrString a b" by (simp add: Less_def)
  ultimately show ?thesis by blast
qed

theorem Less_strict_order_witness:
  "Less decString (exCand 1 2 ''alpha'') (exCand 3 4 ''beta'') \<noteq>
   Less decString (exCand 3 4 ''beta'') (exCand 1 2 ''alpha'')"
proof -
  have "cOwner (exCand 1 2 ''alpha'') \<noteq> cOwner (exCand 3 4 ''beta'')" by (simp add: exCand_def)
  then show ?thesis using Less_strict_order [OF dec.addrString_inj] by blast
qed

text \<open>
  Property C40.  A candidate list survives its linked-list form in the system contract: whatever
  the order in which the store returns the entries, following the links from the head gives back
  the list, in its order.
\<close>

theorem candidate_list_roundtrip:
  assumes "\<And>a. FromString (addrString a) = Inr a" "\<And>a. addrString a \<noteq> []"
    and "\<forall>c\<in>set l. cName c \<noteq> [] \<and> 0 \<le> cVotes c" "distinct (map GetIdentifier l)"
  shows "\<exists>kvs. list_Encodes addrString l = Inr kvs \<and>
    (\<forall>kvs'. mset kvs' = mset kvs \<longrightarrow>
       list_Decodes addrString FromString (map fst kvs') (map snd kvs') = Inr l)"
proof -
  have loc: "address_strings addrString FromString" using assms(1,2) by unfold_locales
  obtain kvs where "list_Encodes addrString l = Inr kvs"
    using address_strings.list_Encodes_links [OF loc assms(3)] by blast
  then show ?thesis using address_strings.list_Decodes_Encodes [OF loc assms(3,4)] by blast
qed

theorem candidate_list_roundtrip_witness:
  "\<exists>kvs. list_Encodes decString [exCand 1 2 ''alpha'', exCand 3 4 ''beta''] = Inr kvs \<and>
     list_Decodes decString decParse (map fst (rev kvs)) (map snd (rev kvs)) =
       Inr [exCand 1 2 ''alpha'', exCand 3 4 ''beta'']"
proof -
  have "\<forall>c\<in>set [exCand 1 2 ''alpha'', exCand 3 4 ''beta'']. cName c \<noteq> [] \<and> 0 \<le> cVotes c"
    "distinct (map GetIdentifier [exCand 1 2 ''alpha'', exCand 3 4 ''beta''])"
    by (simp_all add: exCand_def GetIdentifier_def)
  from candidate_list_roundtrip [OF dec.FromString_addrString dec.addrString_nonempty this]
  show ?thesis using mset_rev by blast
qed

end
