(* ===== verification/Ledger.thy ===== *)
theory Ledger
  imports BigInt
begin

text \<open>
  Accounts: \<^verbatim>\<open>state/account.go\<close> and \<^verbatim>\<open>action/protocol/account/util/util.go\<close>.

  The \<^verbatim>\<open>Account\<close> struct is the record \<open>account\<close>; its \<^verbatim>\<open>*big.Int\<close> fields are
  \<open>int option\<close> (nil is \<open>None\<close>), its nonce keeps its 64 bits.  The state manager is the record
  \<open>world\<close>: its account namespace is a finite map from addresses, a missing key being
  \<^verbatim>\<open>state.ErrStateNotExist\<close>.  Other components extend \<open>world\<close> with their own namespaces.
  Failures of the underlying key-value store are not modelled: reading and writing a namespace
  either finds the key or not.
\<close>

section \<open>Accounts (state/account.go)\<close>

record account =
  nonce :: u64
  Balance :: "int option"
  Root :: "byte list"
  CodeHash :: "byte list"
  isCandidate :: bool
  votingWeight :: "int option"
  accountType :: int

type_synonym account_option = "account \<Rightarrow> account res"

definition LegacyNonceAccountTypeOption :: account_option where
  "LegacyNonceAccountTypeOption a = Inr (a\<lparr>accountType := 0\<rparr>)"

definition DelegateCandidateOption :: account_option where
  "DelegateCandidateOption a = Inr (a\<lparr>isCandidate := True\<rparr>)"

fun apply_options :: "account_option list \<Rightarrow> account \<Rightarrow> account res" where
  "apply_options [] a = Inr a"
| "apply_options (opt # opts) a = bindR (opt a) (apply_options opts)"

definition NewAccount :: "account_option list \<Rightarrow> account res" where
  "NewAccount opts = apply_options opts
     \<lparr>nonce = 0, Balance = Some 0, Root = replicate 32 0, CodeHash = [], isCandidate = False,
      votingWeight = Some 0, accountType = 1\<rparr>"

text \<open>The protobuf message \<^verbatim>\<open>accountpb.Account\<close> and its enum of known account types.\<close>

record account_pb =
  pb_Nonce :: u64
  pb_Balance :: string
  pb_Root :: "byte list"
  pb_CodeHash :: "byte list"
  pb_IsCandidate :: bool
  pb_VotingWeight :: "byte list"
  pb_Type :: int

definition known_account_type :: "int \<Rightarrow> bool" where
  "known_account_type t \<longleftrightarrow> t = 0 \<or> t = 1"

definition ToProto :: "account \<Rightarrow> account_pb res" where
  "ToProto st =
     (if \<not> known_account_type (accountType st) then Inl (Panic ''unknown account type'')
      else Inr \<lparr>pb_Nonce = nonce st,
        pb_Balance = (case Balance st of None \<Rightarrow> [] | Some b \<Rightarrow> big_String b),
        pb_Root = Root st,
        pb_CodeHash = CodeHash st,
        pb_IsCandidate = isCandidate st,
        pb_VotingWeight = (case votingWeight st of None \<Rightarrow> [] | Some w \<Rightarrow> big_Bytes w),
        pb_Type = accountType st\<rparr>)"

text \<open>\<^verbatim>\<open>copy(dst[:], src)\<close> overwrites the common prefix of two slices.\<close>

definition go_copy :: "'a list \<Rightarrow> 'a list \<Rightarrow> 'a list" where
  "go_copy dst src = take (length dst) src @ drop (length src) dst"

definition FromProto :: "account \<Rightarrow> account_pb \<Rightarrow> account res" where
  "FromProto st pb =
     (if \<not> known_account_type (pb_Type pb) then Inl (Panic ''unknown account type'')
      else bindR
        (if pb_Balance pb = [] then Inr 0
         else case big_SetString (pb_Balance pb) of
                None \<Rightarrow> Inl (Panic ''invalid balance'') | Some b \<Rightarrow> Inr b)
        (\<lambda>b. Inr (st\<lparr>nonce := pb_Nonce pb,
                 accountType := pb_Type pb,
                 Balance := Some b,
                 Root := go_copy (Root st) (pb_Root pb),
                 CodeHash := pb_CodeHash pb,
                 isCandidate := pb_IsCandidate pb,
                 votingWeight := Some (big_SetBytes (pb_VotingWeight pb))\<rparr>)))"

definition IsNewbieAccount :: "account \<Rightarrow> bool" where
  "IsNewbieAccount st \<longleftrightarrow> nonce st = 0"

definition IsLegacyFreshAccount :: "account \<Rightarrow> bool" where
  "IsLegacyFreshAccount st \<longleftrightarrow> accountType st = 0 \<and> nonce st = 0"

text \<open>
  The conversion of a fresh legacy account happens only for \<open>n = 1\<close>, where the call then
  succeeds, so a failing call leaves the receiver as it was.
\<close>

definition SetPendingNonce :: "u64 \<Rightarrow> account \<Rightarrow> account res" where
  "SetPendingNonce n st0 =
     (let st = (if accountType st0 = 0 \<and> nonce st0 = 0 \<and> n = 1
                then st0\<lparr>accountType := 1\<rparr> else st0) in
      if accountType st = 1 then
        (if nonce st + 1 < nonce st then Inl ErrNonceOverflow
         else if n \<noteq> nonce st + 1 then Inl ErrInvalidNonce
         else Inr (st\<lparr>nonce := nonce st + 1\<rparr>))
      else if accountType st = 0 then
        (if nonce st + 2 < nonce st then Inl ErrNonceOverflow
         else if n \<noteq> nonce st + 2 then Inl ErrInvalidNonce
         else Inr (st\<lparr>nonce := nonce st + 1\<rparr>))
      else Inl ErrUnknownAccountType)"

definition ConvertFreshAccountToZeroNonceType :: "u64 \<Rightarrow> account \<Rightarrow> bool \<times> account" where
  "ConvertFreshAccountToZeroNonceType n st =
     (if accountType st = 0 \<and> nonce st = 0 \<and> n = 0 then (True, st\<lparr>accountType := 1\<rparr>)
      else (False, st))"

definition PendingNonce :: "account \<Rightarrow> u64 res" where
  "PendingNonce st =
     (if accountType st = 1 then Inr (nonce st)
      else if accountType st = 0 then Inr (nonce st + 1)
      else Inl (Panic ''unknown account type''))"

definition PendingNonceConsideringFreshAccount :: "account \<Rightarrow> u64 res" where
  "PendingNonceConsideringFreshAccount st =
     (if accountType st = 0 \<and> nonce st = 0 then Inr 0 else PendingNonce st)"

definition MarkAsCandidate :: "account \<Rightarrow> account" where
  "MarkAsCandidate st = st\<lparr>isCandidate := True\<rparr>"

text \<open>\<^verbatim>\<open>amount.Cmp(nil)\<close> dereferences a nil pointer.\<close>

definition HasSufficientBalance :: "int option \<Rightarrow> account \<Rightarrow> bool res" where
  "HasSufficientBalance amount st =
     (case amount of None \<Rightarrow> Inr True
      | Some a \<Rightarrow> (case Balance st of None \<Rightarrow> Inl (Panic ''nil balance'') | Some b \<Rightarrow> Inr (a \<le> b)))"

definition AddBalance :: "int option \<Rightarrow> account \<Rightarrow> account res" where
  "AddBalance amount st =
     (case amount of None \<Rightarrow> Inl ErrInvalidAmount
      | Some a \<Rightarrow>
          if a < 0 then Inl ErrInvalidAmount
          else Inr (st\<lparr>Balance := Some ((case Balance st of None \<Rightarrow> 0 | Some b \<Rightarrow> b) + a)\<rparr>))"

definition SubBalance :: "int option \<Rightarrow> account \<Rightarrow> account res" where
  "SubBalance amount st =
     (case amount of None \<Rightarrow> Inl ErrInvalidAmount
      | Some a \<Rightarrow>
          if a < 0 then Inl ErrInvalidAmount
          else (case Balance st of None \<Rightarrow> Inl (Panic ''nil balance'')
                | Some b \<Rightarrow> if b < a then Inl ErrNotEnoughBalance
                          else Inr (st\<lparr>Balance := Some (b - a)\<rparr>)))"

definition IsContract :: "account \<Rightarrow> bool" where
  "IsContract st \<longleftrightarrow> CodeHash st \<noteq> []"

section \<open>The state manager and account access (account/util/util.go)\<close>

record world =
  acctNS :: "addr \<rightharpoonup> account"
  smHeight :: u64

definition LoadOrCreateAccount :: "addr \<Rightarrow> account_option list \<Rightarrow> ('a world_scheme, account) op" where
  "LoadOrCreateAccount a opts = (\<lambda>sm. case acctNS sm a of
       Some acc \<Rightarrow> (Inr acc, sm)
     | None \<Rightarrow> (case NewAccount opts of Inl e \<Rightarrow> (Inl e, sm)
               | Inr acc \<Rightarrow> (Inr acc, sm\<lparr>acctNS := (acctNS sm)(a \<mapsto> acc)\<rparr>)))"

definition LoadAccountByHash160 :: "'a world_scheme \<Rightarrow> addr \<Rightarrow> account_option list \<Rightarrow> account res" where
  "LoadAccountByHash160 sr a opts =
     (case acctNS sr a of None \<Rightarrow> NewAccount opts | Some acc \<Rightarrow> Inr acc)"

definition LoadAccount :: "addr \<Rightarrow> account_option list \<Rightarrow> ('a world_scheme, account) op" where
  "LoadAccount a opts = (\<lambda>sr. (LoadAccountByHash160 sr a opts, sr))"

definition StoreAccount :: "addr \<Rightarrow> account \<Rightarrow> ('a world_scheme, unit) op" where
  "StoreAccount a acc = modifyS (\<lambda>sm. sm\<lparr>acctNS := (acctNS sm)(a \<mapsto> acc)\<rparr>)"

definition Recorded :: "'a world_scheme \<Rightarrow> addr \<Rightarrow> bool" where
  "Recorded sr a \<longleftrightarrow> acctNS sr a \<noteq> None"

text \<open>Everything of an account but its balance.\<close>

definition strip :: "account option \<Rightarrow> account option" where
  "strip = map_option (\<lambda>acc. acc\<lparr>Balance := None\<rparr>)"

lemma strip_simps [simp]:
  "strip (Some (acc\<lparr>Balance := b\<rparr>)) = strip (Some acc)"
  "strip a = None \<longleftrightarrow> a = None"
  by (simp_all add: strip_def)

section \<open>Well-formed accounts\<close>

definition wf_account :: "account \<Rightarrow> bool" where
  "wf_account a \<longleftrightarrow> (\<exists>b. Balance a = Some b \<and> 0 \<le> b) \<and> known_account_type (accountType a)
     \<and> length (Root a) = 32"

definition wf_accounts :: "'a world_scheme \<Rightarrow> bool" where
  "wf_accounts sm \<longleftrightarrow> finite (dom (acctNS sm)) \<and> (\<forall>a acc. acctNS sm a = Some acc \<longrightarrow> wf_account acc)"

definition bal :: "account \<Rightarrow> int" where
  "bal a = (case Balance a of None \<Rightarrow> 0 | Some b \<Rightarrow> b)"

text \<open>The balance of an address: an address without a record has none.\<close>

definition balOf :: "'a world_scheme \<Rightarrow> addr \<Rightarrow> int" where
  "balOf sm a = (case acctNS sm a of None \<Rightarrow> 0 | Some acc \<Rightarrow> bal acc)"

definition totalBalance :: "'a world_scheme \<Rightarrow> int" where
  "totalBalance sm = msum bal (acctNS sm)"

lemma NewAccount_simps [simp]:
  "NewAccount [] = Inr \<lparr>nonce = 0, Balance = Some 0, Root = replicate 32 0, CodeHash = [],
     isCandidate = False, votingWeight = Some 0, accountType = 1\<rparr>"
  "NewAccount [LegacyNonceAccountTypeOption] = Inr \<lparr>nonce = 0, Balance = Some 0,
     Root = replicate 32 0, CodeHash = [], isCandidate = False, votingWeight = Some 0,
     accountType = 0\<rparr>"
  by (simp_all add: NewAccount_def LegacyNonceAccountTypeOption_def)

text \<open>The option lists the protocols pass: empty, or the legacy account type.\<close>

definition creationOpts :: "bool \<Rightarrow> account_option list" where
  "creationOpts CreateLegacyNonceAccount =
     (if CreateLegacyNonceAccount then [LegacyNonceAccountTypeOption] else [])"

lemma NewAccount_creationOpts:
  "\<exists>acc. NewAccount (creationOpts b) = Inr acc \<and> wf_account acc \<and> bal acc = 0 \<and> CodeHash acc = []"
  by (simp add: creationOpts_def wf_account_def known_account_type_def bal_def)

lemma wf_account_bal [simp]: "wf_account a \<Longrightarrow> 0 \<le> bal a"
  by (auto simp: wf_account_def bal_def)

lemma wf_account_Balance: "wf_account a \<Longrightarrow> Balance a = Some (bal a)"
  by (auto simp: wf_account_def bal_def)

section \<open>Behaviour of the account methods\<close>

lemma AddBalance_Inr:
  "AddBalance amt st = Inr st' \<longleftrightarrow>
   (\<exists>a. amt = Some a \<and> 0 \<le> a \<and> st' = st\<lparr>Balance := Some (bal st + a)\<rparr>)"
  by (auto simp: AddBalance_def bal_def split: option.splits)

lemma SubBalance_Inr:
  "SubBalance amt st = Inr st' \<longleftrightarrow>
   (\<exists>a. amt = Some a \<and> 0 \<le> a \<and> Balance st \<noteq> None \<and> a \<le> bal st \<and>
        st' = st\<lparr>Balance := Some (bal st - a)\<rparr>)"
  by (auto simp: SubBalance_def bal_def split: option.splits)

lemma bal_upd [simp]: "bal (st\<lparr>Balance := Some b\<rparr>) = b"
  by (simp add: bal_def)

lemma wf_account_upd [simp]: "wf_account st \<Longrightarrow> wf_account (st\<lparr>Balance := Some b\<rparr>) \<longleftrightarrow> 0 \<le> b"
  by (simp add: wf_account_def)

lemma wf_AddBalance: "wf_account st \<Longrightarrow> AddBalance amt st = Inr st' \<Longrightarrow> wf_account st'"
  by (auto simp: AddBalance_Inr wf_account_def bal_def)

lemma wf_SubBalance: "wf_account st \<Longrightarrow> SubBalance amt st = Inr st' \<Longrightarrow> wf_account st'"
  by (auto simp: SubBalance_Inr wf_account_def)

lemma SetPendingNonce_frame:
  "SetPendingNonce n st = Inr st' \<Longrightarrow>
   Balance st' = Balance st \<and> Root st' = Root st \<and> CodeHash st' = CodeHash st \<and>
   isCandidate st' = isCandidate st \<and> votingWeight st' = votingWeight st \<and>
   known_account_type (accountType st')"
  by (auto simp: SetPendingNonce_def Let_def known_account_type_def split: if_splits)

lemma wf_SetPendingNonce: "wf_account st \<Longrightarrow> SetPendingNonce n st = Inr st' \<Longrightarrow> wf_account st'"
  by (auto simp: wf_account_def dest: SetPendingNonce_frame)

lemma bal_SetPendingNonce [simp]: "SetPendingNonce n st = Inr st' \<Longrightarrow> bal st' = bal st"
  by (auto simp: bal_def dest: SetPendingNonce_frame)

section \<open>Account access\<close>

lemma LoadAccount_run [run_simps]:
  "LoadAccount a opts sm = (Inr acc, sm') \<longleftrightarrow> LoadAccountByHash160 sm a opts = Inr acc \<and> sm' = sm"
  by (auto simp: LoadAccount_def)

lemma StoreAccount_run [run_simps]:
  "StoreAccount a acc sm = (Inr u, sm') \<longleftrightarrow> sm' = sm\<lparr>acctNS := (acctNS sm)(a \<mapsto> acc)\<rparr>"
  by (auto simp: StoreAccount_def modifyS_run)

lemma wf_LoadAccount:
  assumes "wf_accounts sm" "LoadAccountByHash160 sm a (creationOpts b) = Inr acc"
  shows "wf_account acc" "bal acc = balOf sm a"
  using assms NewAccount_creationOpts [of b]
  by (auto simp: LoadAccountByHash160_def wf_accounts_def balOf_def split: option.splits)

lemma LoadAccount_total: "\<exists>acc. LoadAccountByHash160 sm a (creationOpts b) = Inr acc"
  using NewAccount_creationOpts [of b] by (auto simp: LoadAccountByHash160_def split: option.splits)

interpretation accounts: kv_store acctNS StoreAccount
  by unfold_locales (simp_all add: StoreAccount_def modifyS_def)

lemma totalBalance_store:
  assumes "finite (dom (acctNS sm))"
  shows "totalBalance (sm\<lparr>acctNS := (acctNS sm)(a \<mapsto> acc)\<rparr>) = totalBalance sm - balOf sm a + bal acc"
  using accounts.put_msum [of a acc sm "Inr ()", where f = bal] assms
  by (auto simp: totalBalance_def balOf_def StoreAccount_def modifyS_def split: option.splits)

lemma wf_accounts_store [simp]:
  "wf_accounts sm \<Longrightarrow> wf_account acc \<Longrightarrow> wf_accounts (sm\<lparr>acctNS := (acctNS sm)(a \<mapsto> acc)\<rparr>)"
  by (auto simp: wf_accounts_def)

lemma balOf_store [simp]:
  "balOf (sm\<lparr>acctNS := (acctNS sm)(a \<mapsto> acc)\<rparr>) b = (if b = a then bal acc else balOf sm b)"
  by (auto simp: balOf_def)

lemma LoadOrCreateAccount_run:
  assumes "wf_accounts sm" "LoadOrCreateAccount a (creationOpts b) sm = (Inr acc, sm')"
  shows "wf_account acc" "bal acc = balOf sm a" "wf_accounts sm'" "acctNS sm' a = Some acc"
    "sm' = sm\<lparr>acctNS := (acctNS sm)(a \<mapsto> acc)\<rparr>"
    "totalBalance sm' = totalBalance sm" "balOf sm' = balOf sm"
proof -
  have acc: "wf_account acc \<and> bal acc = balOf sm a \<and>
      sm' = sm\<lparr>acctNS := (acctNS sm)(a \<mapsto> acc)\<rparr>"
    using assms NewAccount_creationOpts [of b]
    by (auto simp: LoadOrCreateAccount_def wf_accounts_def balOf_def fun_upd_idem
        split: option.splits)
  then show "wf_account acc" "bal acc = balOf sm a"
    "sm' = sm\<lparr>acctNS := (acctNS sm)(a \<mapsto> acc)\<rparr>" by auto
  then show "wf_accounts sm'" "acctNS sm' a = Some acc" "balOf sm' = balOf sm"
    using assms(1) by auto
  show "totalBalance sm' = totalBalance sm"
    using acc assms(1) by (simp add: totalBalance_store wf_accounts_def)
qed

lemma LoadOrCreateAccount_total:
  "\<exists>acc sm'. LoadOrCreateAccount a (creationOpts b) sm = (Inr acc, sm')"
  using NewAccount_creationOpts [of b] by (auto simp: LoadOrCreateAccount_def split: option.splits)

section \<open>Nonces\<close>

lemma no_wrap_unat: "\<not> x + k < x \<Longrightarrow> unat (x + k) = unat x + unat k"
  for x k :: "'n::len word"
  using unat_plus_simple [of x k] by (simp add: not_less)

lemma room_no_wrap:
  fixes x k :: u64
  assumes "unat x + unat k < 2 ^ 64"
  shows "\<not> x + k < x"
proof -
  have "unat (x + k) = unat x + unat k" using assms by (subst unat_add_lem [symmetric]) simp
  then show ?thesis by (simp add: word_less_nat_alt)
qed

lemma no_wrap_room: "\<not> x + k < x \<Longrightarrow> unat x + unat k < 2 ^ 64" for x k :: u64
  using unsigned_less [of "x + k", where 'a = nat] by (simp add: no_wrap_unat)

lemma SetPendingNonce_Inr:
  assumes "SetPendingNonce n st = Inr st'"
  shows "unat (nonce st') = unat (nonce st) + 1 \<and> PendingNonce st' = Inr n \<and> 0 < n \<and> Balance st' = Balance st"
proof -
  from assms consider
      (zero) "accountType st' = 1" "\<not> nonce st + 1 < nonce st" "n = nonce st + 1" "nonce st' = nonce st + 1"
    | (legacy) "accountType st' = 0" "\<not> nonce st + 2 < nonce st" "n = nonce st + 2" "nonce st' = nonce st + 1"
    by (auto simp: SetPendingNonce_def Let_def split: if_splits)
  then have "unat (nonce st') = unat (nonce st) + 1 \<and> PendingNonce st' = Inr n \<and> 0 < n"
  proof cases
    case zero
    then show ?thesis
      using no_wrap_unat [OF zero(2)] by (simp add: PendingNonce_def word_less_nat_alt)
  next
    case legacy
    have "\<not> nonce st + 1 < nonce st" using no_wrap_room [OF legacy(2)] by (intro room_no_wrap) simp
    then show ?thesis
      using legacy no_wrap_unat [of "nonce st" 1] no_wrap_unat [OF legacy(2)]
      by (simp add: PendingNonce_def word_less_nat_alt)
  qed
  then show ?thesis using SetPendingNonce_frame [OF assms] by simp
qed

lemma SetPendingNonce_pending: "SetPendingNonce n st = Inr st' \<Longrightarrow> PendingNonce st' = Inr n"
  by (drule SetPendingNonce_Inr) simp

text \<open>
  Property C31.  A nonce is used once and in order: an account whose update to the pending nonce
  \<open>n\<close> is accepted has executed exactly one action more, reports \<open>n\<close> as its next nonce, and its
  counter did not wrap around.
\<close>

theorem SetPendingNonce_increments:
  assumes "SetPendingNonce n st = Inr st'"
  shows "unat (nonce st') = unat (nonce st) + 1 \<and> PendingNonce st' = Inr n \<and> 0 < n \<and> Balance st' = Balance st"
  using SetPendingNonce_Inr [OF assms] .

theorem SetPendingNonce_increments_witness:
  "\<exists>st'. SetPendingNonce 8 \<lparr>nonce = 7, Balance = Some 5, Root = [], CodeHash = [], isCandidate = False,
     votingWeight = None, accountType = 1\<rparr> = Inr st' \<and> unat (nonce st') = 8 \<and> PendingNonce st' = Inr 8"
proof -
  let ?st = "\<lparr>nonce = 7, Balance = Some 5, Root = [], CodeHash = [], isCandidate = False,
     votingWeight = None, accountType = 1\<rparr>"
  have "SetPendingNonce 8 ?st = Inr (?st\<lparr>nonce := 8\<rparr>)" by code_simp
  from SetPendingNonce_increments [OF this] this show ?thesis by auto
qed

text \<open>The next nonce is always accepted while the counter has room.\<close>

lemma SetPendingNonce_next:
  assumes "PendingNonce st = Inr n" "unat (nonce st) + 2 < 2 ^ 64"
  shows "\<exists>st'. SetPendingNonce (n + 1) st = Inr st'"
proof -
  have "\<not> nonce st + 1 < nonce st" "\<not> nonce st + 2 < nonce st"
    using assms(2) by (auto intro!: room_no_wrap)
  with assms(1) show ?thesis
    by (auto simp: SetPendingNonce_def PendingNonce_def Let_def split: if_splits)
qed

lemma PendingNonce_Balance [simp]: "PendingNonce (a\<lparr>Balance := b\<rparr>) = PendingNonce a"
  by (simp add: PendingNonce_def)

lemma PendingNonce_strip: "strip (Some a) = strip (Some b) \<Longrightarrow> PendingNonce a = PendingNonce b"
  by (cases a; cases b) (simp add: strip_def PendingNonce_def)

section \<open>Serialization\<close>

text \<open>
  Property C32.  An account survives its serialization: decoding what \<^verbatim>\<open>ToProto\<close> wrote gives back
  the account, whatever was in the receiver, for accounts with a balance, a vote weight that is
  not negative and a 32-byte root; an unknown account type panics instead of being written.
\<close>

theorem FromProto_ToProto:
  assumes "Balance st = Some b" "votingWeight st = Some w" "0 \<le> w" "length (Root st) = 32"
    and "length (Root st0) = 32" "known_account_type (accountType st)"
  shows "bindR (ToProto st) (FromProto st0) = Inr st"
proof -
  have "go_copy (Root st0) (Root st) = Root st" using assms(4,5) by (simp add: go_copy_def)
  then show ?thesis using assms
    by (simp add: ToProto_def FromProto_def big_SetString_String big_SetBytes_Bytes big_String_nonempty)
qed

theorem FromProto_ToProto_witness:
  "let st = \<lparr>nonce = 3, Balance = Some 12345, Root = replicate 32 7, CodeHash = [1, 2], isCandidate = True,
     votingWeight = Some 700, accountType = 1\<rparr>
   in bindR (ToProto st) (FromProto (st\<lparr>Balance := None, Root := replicate 32 0\<rparr>)) = Inr st"
  unfolding Let_def by (rule FromProto_ToProto [where b = 12345 and w = 700]) (simp_all add: known_account_type_def)

end
