(* ===== verification/Features.thy ===== *)
theory Features
  imports Prelude
begin

text \<open>
  Protocol upgrades: the fork heights of \<^verbatim>\<open>genesis.Blockchain\<close> with their \<^verbatim>\<open>Is...\<close> tests
  (\<^verbatim>\<open>blockchain/genesis/genesis.go\<close>) and the feature flags every handler branches on
  (\<^verbatim>\<open>FeatureCtx\<close> and \<^verbatim>\<open>WithFeatureCtx\<close> of \<^verbatim>\<open>action/protocol/context.go\<close>).  The lemmas
  order the forks: where the heights are ordered as in the default configuration, a fork implies
  all earlier ones, and a flag changes its value at most once as the chain grows.
\<close>

section \<open>Fork heights (blockchain/genesis/genesis.go)\<close>

record genesis =
  BlockGasLimit :: u64
  TsunamiBlockGasLimit :: u64
  WakeBlockGasLimit :: u64
  PacificBlockHeight :: u64
  AleutianBlockHeight :: u64
  BeringBlockHeight :: u64
  CookBlockHeight :: u64
  DardanellesBlockHeight :: u64
  DaytonaBlockHeight :: u64
  EasterBlockHeight :: u64
  FbkMigrationBlockHeight :: u64
  FairbankBlockHeight :: u64
  GreenlandBlockHeight :: u64
  HawaiiBlockHeight :: u64
  IcelandBlockHeight :: u64
  JutlandBlockHeight :: u64
  KamchatkaBlockHeight :: u64
  LordHoweBlockHeight :: u64
  MidwayBlockHeight :: u64
  NewfoundlandBlockHeight :: u64
  OkhotskBlockHeight :: u64
  PalauBlockHeight :: u64
  QuebecBlockHeight :: u64
  RedseaBlockHeight :: u64
  SumatraBlockHeight :: u64
  TsunamiBlockHeight :: u64
  UpernavikBlockHeight :: u64
  VanuatuBlockHeight :: u64
  WakeBlockHeight :: u64
  XinguBlockHeight :: u64
  XinguBetaBlockHeight :: u64
  ToBeEnabledBlockHeight :: u64

definition isPost :: "u64 \<Rightarrow> u64 \<Rightarrow> bool" where
  "isPost targetHeight height \<longleftrightarrow> targetHeight \<le> height"

definition IsPacific :: "genesis \<Rightarrow> u64 \<Rightarrow> bool" where
  "IsPacific g height = isPost (PacificBlockHeight g) height"

definition IsAleutian :: "genesis \<Rightarrow> u64 \<Rightarrow> bool" where
  "IsAleutian g height = isPost (AleutianBlockHeight g) height"

definition IsBering :: "genesis \<Rightarrow> u64 \<Rightarrow> bool" where
  "IsBering g height = isPost (BeringBlockHeight g) height"

definition IsCook :: "genesis \<Rightarrow> u64 \<Rightarrow> bool" where
  "IsCook g height = isPost (CookBlockHeight g) height"

definition IsDardanelles :: "genesis \<Rightarrow> u64 \<Rightarrow> bool" where
  "IsDardanelles g height = isPost (DardanellesBlockHeight g) height"

definition IsDaytona :: "genesis \<Rightarrow> u64 \<Rightarrow> bool" where
  "IsDaytona g height = isPost (DaytonaBlockHeight g) height"

definition IsEaster :: "genesis \<Rightarrow> u64 \<Rightarrow> bool" where
  "IsEaster g height = isPost (EasterBlockHeight g) height"

definition IsFairbank :: "genesis \<Rightarrow> u64 \<Rightarrow> bool" where
  "IsFairbank g height = isPost (FairbankBlockHeight g) height"

definition IsFbkMigration :: "genesis \<Rightarrow> u64 \<Rightarrow> bool" where
  "IsFbkMigration g height = isPost (FbkMigrationBlockHeight g) height"

definition IsGreenland :: "genesis \<Rightarrow> u64 \<Rightarrow> bool" where
  "IsGreenland g height = isPost (GreenlandBlockHeight g) height"

definition IsHawaii :: "genesis \<Rightarrow> u64 \<Rightarrow> bool" where
  "IsHawaii g height = isPost (HawaiiBlockHeight g) height"

definition IsIceland :: "genesis \<Rightarrow> u64 \<Rightarrow> bool" where
  "IsIceland g height = isPost (IcelandBlockHeight g) height"

definition IsJutland :: "genesis \<Rightarrow> u64 \<Rightarrow> bool" where
  "IsJutland g height = isPost (JutlandBlockHeight g) height"

definition IsKamchatka :: "genesis \<Rightarrow> u64 \<Rightarrow> bool" where
  "IsKamchatka g height = isPost (KamchatkaBlockHeight g) height"

definition IsLordHowe :: "genesis \<Rightarrow> u64 \<Rightarrow> bool" where
  "IsLordHowe g height = isPost (LordHoweBlockHeight g) height"

definition IsMidway :: "genesis \<Rightarrow> u64 \<Rightarrow> bool" where
  "IsMidway g height = isPost (MidwayBlockHeight g) height"

definition IsNewfoundland :: "genesis \<Rightarrow> u64 \<Rightarrow> bool" where
  "IsNewfoundland g height = isPost (NewfoundlandBlockHeight g) height"

definition IsOkhotsk :: "genesis \<Rightarrow> u64 \<Rightarrow> bool" where
  "IsOkhotsk g height = isPost (OkhotskBlockHeight g) height"

definition IsPalau :: "genesis \<Rightarrow> u64 \<Rightarrow> bool" where
  "IsPalau g height = isPost (PalauBlockHeight g) height"

definition IsQuebec :: "genesis \<Rightarrow> u64 \<Rightarrow> bool" where
  "IsQuebec g height = isPost (QuebecBlockHeight g) height"

definition IsRedsea :: "genesis \<Rightarrow> u64 \<Rightarrow> bool" where
  "IsRedsea g height = isPost (RedseaBlockHeight g) height"

definition IsSumatra :: "genesis \<Rightarrow> u64 \<Rightarrow> bool" where
  "IsSumatra g height = isPost (SumatraBlockHeight g) height"

definition IsTsunami :: "genesis \<Rightarrow> u64 \<Rightarrow> bool" where
  "IsTsunami g height = isPost (TsunamiBlockHeight g) height"

definition IsUpernavik :: "genesis \<Rightarrow> u64 \<Rightarrow> bool" where
  "IsUpernavik g height = isPost (UpernavikBlockHeight g) height"

definition IsVanuatu :: "genesis \<Rightarrow> u64 \<Rightarrow> bool" where
  "IsVanuatu g height = isPost (VanuatuBlockHeight g) height"

definition IsWake :: "genesis \<Rightarrow> u64 \<Rightarrow> bool" where
  "IsWake g height = isPost (WakeBlockHeight g) height"

definition IsXingu :: "genesis \<Rightarrow> u64 \<Rightarrow> bool" where
  "IsXingu g height = isPost (XinguBlockHeight g) height"

definition IsXinguBeta :: "genesis \<Rightarrow> u64 \<Rightarrow> bool" where
  "IsXinguBeta g height = isPost (XinguBetaBlockHeight g) height"

definition IsToBeEnabled :: "genesis \<Rightarrow> u64 \<Rightarrow> bool" where
  "IsToBeEnabled g height = isPost (ToBeEnabledBlockHeight g) height"

definition BlockGasLimitByHeight :: "genesis \<Rightarrow> u64 \<Rightarrow> u64" where
  "BlockGasLimitByHeight g height =
     (if isPost (WakeBlockHeight g) height then WakeBlockGasLimit g
      else if isPost (TsunamiBlockHeight g) height then TsunamiBlockGasLimit g
      else BlockGasLimit g)"

text \<open>The heights and gas limits of \<^verbatim>\<open>defaultConfig\<close> (the IoTeX main net).\<close>

definition defaultConfig :: genesis where
  "defaultConfig = \<lparr>
     BlockGasLimit = 20000000, TsunamiBlockGasLimit = 50000000, WakeBlockGasLimit = 25000000,
     PacificBlockHeight = 432001,
     AleutianBlockHeight = 864001,
     BeringBlockHeight = 1512001,
     CookBlockHeight = 1641601,
     DardanellesBlockHeight = 1816201,
     DaytonaBlockHeight = 3238921,
     EasterBlockHeight = 4478761,
     FbkMigrationBlockHeight = 5157001,
     FairbankBlockHeight = 5165641,
     GreenlandBlockHeight = 6544441,
     HawaiiBlockHeight = 11267641,
     IcelandBlockHeight = 12289321,
     JutlandBlockHeight = 13685401,
     KamchatkaBlockHeight = 13816441,
     LordHoweBlockHeight = 13979161,
     MidwayBlockHeight = 16509241,
     NewfoundlandBlockHeight = 17662681,
     OkhotskBlockHeight = 21542761,
     PalauBlockHeight = 22991401,
     QuebecBlockHeight = 24838201,
     RedseaBlockHeight = 26704441,
     SumatraBlockHeight = 28516681,
     TsunamiBlockHeight = 29275561,
     UpernavikBlockHeight = 31174201,
     VanuatuBlockHeight = 33730921,
     WakeBlockHeight = 36893881,
     XinguBlockHeight = 41648761,
     XinguBetaBlockHeight = 41648761,
     ToBeEnabledBlockHeight = 18446744073709551615\<rparr>"

section \<open>Feature flags (action/protocol/context.go)\<close>

record FeatureCtx =
  FixDoubleChargeGas :: bool
  SystemWideActionGasLimit :: bool
  NotFixTopicCopyBug :: bool
  SetRevertMessageToReceipt :: bool
  FixGetHashFnHeight :: bool
  FixSortCacheContractsAndUsePendingNonce :: bool
  AsyncContractTrie :: bool
  AddOutOfGasToTransactionLog :: bool
  AddChainIDToConfig :: bool
  UseV2Storage :: bool
  CannotUnstakeAgain :: bool
  SkipStakingIndexer :: bool
  ReturnFetchError :: bool
  CannotTranferToSelf :: bool
  NewStakingReceiptFormat :: bool
  UpdateBlockMeta :: bool
  CurrentEpochProductivity :: bool
  FixSnapshotOrder :: bool
  AllowCorrectDefaultChainID :: bool
  CorrectGetHashFn :: bool
  CorrectTxLogIndex :: bool
  RevertLog :: bool
  TolerateLegacyAddress :: bool
  CreateLegacyNonceAccount :: bool
  FixGasAndNonceUpdate :: bool
  FixUnproductiveDelegates :: bool
  CorrectGasRefund :: bool
  SufficentBalanceGuarantee :: bool
  TolerateEmptyCandidateName :: bool
  SkipSystemActionNonce :: bool
  ValidateSystemAction :: bool
  AllowCorrectChainIDOnly :: bool
  AddContractStakingVotes :: bool
  FixContractStakingWeightedVotes :: bool
  ExecutionSizeLimit32KB :: bool
  UseZeroNonceForFreshAccount :: bool
  CandidateRegisterMustWithStake :: bool
  DisableDelegateEndorsement :: bool
  RefactorFreshAccountConversion :: bool
  SuicideTxLogMismatchPanic :: bool
  PanicUnrecoverableError :: bool
  CandidateIdentifiedByOwner :: bool
  LimitedStakingContract :: bool
  MigrateNativeStake :: bool
  AddClaimRewardAddress :: bool
  EnforceLegacyEndorsement :: bool
  EnableDynamicFeeTx :: bool
  EnableBlobTransaction :: bool
  EnableCancunEVM :: bool
  CorrectValidationOrder :: bool
  UnstakedButNotClearSelfStakeAmount :: bool
  CheckStakingDurationUpperLimit :: bool
  FixRevertSnapshot :: bool
  TimestampedStakingContract :: bool
  PreStateSystemAction :: bool
  CreatePostActionStates :: bool
  NotSlashUnproductiveDelegates :: bool
  CandidateBLSPublicKey :: bool
  NotUseMinSelfStakeToBeActive :: bool
  StoreVoteOfNFTBucketIntoView :: bool
  CandidateSlashByOwner :: bool
  CandidateBLSPublicKeyNotCopied :: bool

definition WithFeatureCtx :: "genesis \<Rightarrow> u64 \<Rightarrow> FeatureCtx" where
  "WithFeatureCtx g height = \<lparr>
     FixDoubleChargeGas = (IsPacific g height),
     SystemWideActionGasLimit = (\<not> IsAleutian g height),
     NotFixTopicCopyBug = (\<not> IsAleutian g height),
     SetRevertMessageToReceipt = (IsHawaii g height),
     FixGetHashFnHeight = (IsHawaii g height),
     FixSortCacheContractsAndUsePendingNonce = (IsHawaii g height),
     AsyncContractTrie = (IsGreenland g height),
     AddOutOfGasToTransactionLog = (\<not> IsGreenland g height),
     AddChainIDToConfig = (IsIceland g height),
     UseV2Storage = (IsGreenland g height),
     CannotUnstakeAgain = (IsGreenland g height),
     SkipStakingIndexer = (\<not> IsFairbank g height),
     ReturnFetchError = (\<not> IsGreenland g height),
     CannotTranferToSelf = (IsHawaii g height),
     NewStakingReceiptFormat = (IsFbkMigration g height),
     UpdateBlockMeta = (IsGreenland g height),
     CurrentEpochProductivity = (IsGreenland g height),
     FixSnapshotOrder = (IsKamchatka g height),
     AllowCorrectDefaultChainID = (IsMidway g height),
     CorrectGetHashFn = (IsMidway g height),
     CorrectTxLogIndex = (IsMidway g height),
     RevertLog = (IsMidway g height),
     TolerateLegacyAddress = (\<not> IsNewfoundland g height),
     CreateLegacyNonceAccount = (\<not> IsOkhotsk g height),
     FixGasAndNonceUpdate = (IsOkhotsk g height),
     FixUnproductiveDelegates = (IsOkhotsk g height),
     CorrectGasRefund = (IsOkhotsk g height),
     SufficentBalanceGuarantee = (IsOkhotsk g height),
     TolerateEmptyCandidateName = (\<not> IsPalau g height),
     SkipSystemActionNonce = (IsPalau g height),
     ValidateSystemAction = (IsQuebec g height),
     AllowCorrectChainIDOnly = (IsQuebec g height),
     AddContractStakingVotes = (IsQuebec g height),
     FixContractStakingWeightedVotes = (IsRedsea g height),
     ExecutionSizeLimit32KB = (\<not> IsSumatra g height),
     UseZeroNonceForFreshAccount = (IsSumatra g height),
     CandidateRegisterMustWithStake = (\<not> IsTsunami g height),
     DisableDelegateEndorsement = (\<not> IsTsunami g height),
     RefactorFreshAccountConversion = (IsTsunami g height),
     SuicideTxLogMismatchPanic = (IsUpernavik g height),
     PanicUnrecoverableError = (IsUpernavik g height),
     CandidateIdentifiedByOwner = (\<not> IsUpernavik g height),
     LimitedStakingContract = (\<not> IsUpernavik g height),
     MigrateNativeStake = (IsUpernavik g height),
     AddClaimRewardAddress = (IsUpernavik g height),
     EnforceLegacyEndorsement = (\<not> IsUpernavik g height),
     EnableDynamicFeeTx = (IsVanuatu g height),
     EnableBlobTransaction = (IsVanuatu g height),
     EnableCancunEVM = (IsVanuatu g height),
     CorrectValidationOrder = (IsVanuatu g height),
     UnstakedButNotClearSelfStakeAmount = (\<not> IsVanuatu g height),
     CheckStakingDurationUpperLimit = (IsVanuatu g height),
     FixRevertSnapshot = (IsVanuatu g height),
     TimestampedStakingContract = (IsWake g height),
     PreStateSystemAction = (\<not> IsWake g height),
     CreatePostActionStates = (IsWake g height),
     NotSlashUnproductiveDelegates = (\<not> IsXingu g height),
     CandidateBLSPublicKey = (IsXingu g height),
     NotUseMinSelfStakeToBeActive = (\<not> IsXingu g height),
     StoreVoteOfNFTBucketIntoView = (\<not> IsXingu g height),
     CandidateSlashByOwner = (\<not> IsXinguBeta g height),
     CandidateBLSPublicKeyNotCopied = (\<not> IsXinguBeta g height)\<rparr>"

text \<open>The one flag of \<^verbatim>\<open>FeatureWithHeightCtx\<close> the modelled handlers read.\<close>

definition CandCenterHasAliasAt :: "genesis \<Rightarrow> u64 \<Rightarrow> bool" where
  "CandCenterHasAliasAt g height \<longleftrightarrow> \<not> IsOkhotsk g height"

end
