(* ===== verification/FeeMarket.thy ===== *)
theory FeeMarket
  imports BigInt Features
begin

text \<open>
  The fee market: \<^verbatim>\<open>action/protocol/eip1559.go\<close>, \<^verbatim>\<open>action/protocol/eip4844.go\<close>, the gas price
  methods of the transaction types (\<^verbatim>\<open>action/tx_*.go\<close>), \<^verbatim>\<open>EffectiveGasTip\<close>
  (\<^verbatim>\<open>action/evm_transaction.go\<close>) and \<^verbatim>\<open>SplitGas\<close> (\<^verbatim>\<open>action/protocol/protocol.go\<close>).
  The go-ethereum blob parameters are fields of a record the definitions take as an argument.
  The lemmas bound the base fee of the next block, split the fee of an action exactly, and show
  that the Taylor expansion of the blob fee always returns.
\<close>

section \<open>Base fee (eip1559.go)\<close>

record TipInfo =
  tipHeight :: u64
  tipGasUsed :: u64
  tipBaseFee :: int
  tipBlobGasUsed :: u64
  tipExcessBlobGas :: u64

definition InitialBaseFee :: int where "InitialBaseFee = 1000000000000"
definition DefaultElasticityMultiplier :: u64 where "DefaultElasticityMultiplier = 2"
definition DefaultBaseFeeChangeDenominator :: int where "DefaultBaseFeeChangeDenominator = 8"

definition gasTarget :: "genesis \<Rightarrow> TipInfo \<Rightarrow> u64" where
  "gasTarget g parent = BlockGasLimitByHeight g (tipHeight parent) div DefaultElasticityMultiplier"

text \<open>A nil base fee is \<open>None\<close>; dividing by a zero gas target panics.\<close>

definition CalcBaseFee :: "genesis \<Rightarrow> TipInfo \<Rightarrow> int option res" where
  "CalcBaseFee g parent =
     (if tipHeight parent = VanuatuBlockHeight g - 1 then Inr (Some InitialBaseFee)
      else if tipHeight parent < VanuatuBlockHeight g - 1 then Inr None
      else let parentGasTarget = gasTarget g parent in
        if tipGasUsed parent = parentGasTarget then Inr (Some (tipBaseFee parent))
        else if parentGasTarget = 0 then Inl (Panic ''division by zero'')
        else if parentGasTarget < tipGasUsed parent then
          let num = big_Div (big_Div (uint (tipGasUsed parent - parentGasTarget) * tipBaseFee parent)
                      (uint parentGasTarget)) DefaultBaseFeeChangeDenominator;
              baseFeeDelta = max num 1
          in Inr (Some (tipBaseFee parent + baseFeeDelta))
        else
          let num = big_Div (big_Div (uint (parentGasTarget - tipGasUsed parent) * tipBaseFee parent)
                      (uint parentGasTarget)) DefaultBaseFeeChangeDenominator
          in Inr (Some (max (tipBaseFee parent - num) InitialBaseFee)))"

definition VerifyEIP1559Header :: "genesis \<Rightarrow> TipInfo \<Rightarrow> int option \<Rightarrow> unit res" where
  "VerifyEIP1559Header g parent headerBaseFee =
     (case headerBaseFee of
        None \<Rightarrow> Inl (Errorf ''header is missing baseFee'')
      | Some fee \<Rightarrow>
          bindR (CalcBaseFee g parent) (\<lambda>expected.
            case expected of
              None \<Rightarrow> Inl (Panic ''nil base fee'')
            | Some e \<Rightarrow> checkR (fee = e) (Errorf ''invalid baseFee'')))"

section \<open>Blob gas (eip4844.go)\<close>

record blob_params =
  MaxBlobGasPerBlock :: u64
  BlobTxBlobGasPerBlob :: u64
  BlobTxTargetBlobGasPerBlock :: u64
  BlobTxMinBlobGasprice :: int
  BlobTxBlobGaspriceUpdateFraction :: int

definition CalcExcessBlobGas :: "blob_params \<Rightarrow> u64 \<Rightarrow> u64 \<Rightarrow> u64" where
  "CalcExcessBlobGas params parentExcessBlobGas parentBlobGasUsed =
     (let excessBlobGas = parentExcessBlobGas + parentBlobGasUsed in
      if excessBlobGas < BlobTxTargetBlobGasPerBlock params then 0
      else excessBlobGas - BlobTxTargetBlobGasPerBlock params)"

definition VerifyEIP4844Header :: "blob_params \<Rightarrow> TipInfo \<Rightarrow> u64 \<Rightarrow> u64 \<Rightarrow> unit res" where
  "VerifyEIP4844Header params parent headerBlobGasUsed headerExcessBlobGas =
     (if MaxBlobGasPerBlock params < headerBlobGasUsed then Inl (Errorf ''blob gas used exceeds maximum'')
      else if BlobTxBlobGasPerBlob params = 0 then Inl (Panic ''division by zero'')
      else if headerBlobGasUsed mod BlobTxBlobGasPerBlob params \<noteq> 0 then
        Inl (Errorf ''blob gas used not a multiple of blob gas per blob'')
      else checkR (headerExcessBlobGas =
             CalcExcessBlobGas params (tipExcessBlobGas parent) (tipBlobGasUsed parent))
           (Errorf ''invalid excessBlobGas''))"

text \<open>
  The loop of \<^verbatim>\<open>fakeExponential\<close>.  It may not end (for a negative denominator, say), so it is a
  partial function whose \<open>None\<close> is non-termination.  Its counter is a Go \<^verbatim>\<open>int\<close>, which is
  modelled unbounded.
\<close>

partial_function (option) fakeExp_loop :: "int \<Rightarrow> int \<Rightarrow> int \<Rightarrow> int \<Rightarrow> int \<Rightarrow> int option" where
  "fakeExp_loop numerator denominator i output accum =
     (if 0 < accum
      then fakeExp_loop numerator denominator (i + 1) (output + accum)
             (big_Div (big_Div (accum * numerator) denominator) i)
      else Some output)"

definition fakeExponential :: "int \<Rightarrow> int \<Rightarrow> int \<Rightarrow> int res option" where
  "fakeExponential factor numerator denominator =
     (if denominator = 0 then Some (Inl (Panic ''division by zero''))
      else map_option (\<lambda>output. Inr (big_Div output denominator))
             (fakeExp_loop numerator denominator 1 0 (factor * denominator)))"

definition CalcBlobFee :: "blob_params \<Rightarrow> u64 \<Rightarrow> int res option" where
  "CalcBlobFee params excessBlobGas =
     fakeExponential (BlobTxMinBlobGasprice params) (uint excessBlobGas)
       (BlobTxBlobGaspriceUpdateFraction params)"

section \<open>Gas price of an action\<close>

text \<open>
  The pricing fields of the transaction types: \<^verbatim>\<open>LegacyTx\<close> and \<^verbatim>\<open>AccessListTx\<close> carry one gas
  price, \<^verbatim>\<open>DynamicFeeTx\<close> and \<^verbatim>\<open>BlobTx\<close> a fee cap and a tip cap; nil reads as zero.
\<close>

datatype tx_price = LegacyPrice "int option" | DynamicPrice "int option" "int option"

definition nilZero :: "int option \<Rightarrow> int" where
  "nilZero x = (case x of None \<Rightarrow> 0 | Some v \<Rightarrow> v)"

fun GasFeeCap :: "tx_price \<Rightarrow> int" where
  "GasFeeCap (LegacyPrice p) = nilZero p"
| "GasFeeCap (DynamicPrice feeCap tipCap) = nilZero feeCap"

fun GasTipCap :: "tx_price \<Rightarrow> int" where
  "GasTipCap (LegacyPrice p) = nilZero p"
| "GasTipCap (DynamicPrice feeCap tipCap) = nilZero tipCap"

fun txEffectiveGasPrice :: "tx_price \<Rightarrow> int option \<Rightarrow> int" where
  "txEffectiveGasPrice (LegacyPrice p) baseFee = nilZero p"
| "txEffectiveGasPrice (DynamicPrice feeCap tipCap) baseFee =
     (case baseFee of None \<Rightarrow> nilZero feeCap
      | Some b \<Rightarrow>
          let tip = nilZero feeCap - b in
          (if nilZero tipCap < tip then nilZero tipCap else tip) + b)"

definition EffectiveGasTip :: "tx_price \<Rightarrow> int option \<Rightarrow> int res" where
  "EffectiveGasTip tx baseFee =
     (case baseFee of None \<Rightarrow> Inr (GasTipCap tx)
      | Some b \<Rightarrow>
          let effectiveGas = GasFeeCap tx - b in
          if effectiveGas < 0 then Inl ErrGasFeeCapTooLow
          else if effectiveGas \<le> GasTipCap tx then Inr effectiveGas
          else Inr (GasTipCap tx))"

text \<open>The pair (priority fee, base fee) of \<^verbatim>\<open>SplitGas\<close>.\<close>

definition SplitGas :: "int option \<Rightarrow> bool \<Rightarrow> tx_price \<Rightarrow> u64 \<Rightarrow> (int \<times> int) res" where
  "SplitGas baseFee readOnly tx usedGas =
     (let gas = uint usedGas in
      case baseFee of
        None \<Rightarrow> Inr (0, GasFeeCap tx * gas)
      | Some b \<Rightarrow>
          if readOnly then Inr (0, GasFeeCap tx * gas)
          else bindR (EffectiveGasTip tx baseFee) (\<lambda>priority. Inr (priority * gas, b * gas)))"

definition EffectiveGasPrice :: "bool \<Rightarrow> int option \<Rightarrow> tx_price \<Rightarrow> int option" where
  "EffectiveGasPrice EnableDynamicFee baseFee tx =
     (if \<not> EnableDynamicFee then None else Some (txEffectiveGasPrice tx baseFee))"

section \<open>The base fee stays in bounds\<close>

lemma gasTarget_double: "2 * uint (gasTarget g parent) \<le> uint (BlockGasLimitByHeight g (tipHeight parent))"
  by (simp add: gasTarget_def DefaultElasticityMultiplier_def uint_div)

lemma CalcBaseFee_cases:
  assumes "CalcBaseFee g parent = Inr (Some fee)"
  obtains (initial) "tipHeight parent = VanuatuBlockHeight g - 1" "fee = InitialBaseFee"
  | (same) "VanuatuBlockHeight g - 1 < tipHeight parent" "tipGasUsed parent = gasTarget g parent"
      "fee = tipBaseFee parent"
  | (up) "VanuatuBlockHeight g - 1 < tipHeight parent" "gasTarget g parent < tipGasUsed parent"
      "0 < gasTarget g parent"
      "fee = tipBaseFee parent + max ((uint (tipGasUsed parent) - uint (gasTarget g parent))
         * tipBaseFee parent div uint (gasTarget g parent) div 8) 1"
  | (down) "VanuatuBlockHeight g - 1 < tipHeight parent" "tipGasUsed parent < gasTarget g parent"
      "fee = max (tipBaseFee parent - (uint (gasTarget g parent) - uint (tipGasUsed parent))
         * tipBaseFee parent div uint (gasTarget g parent) div 8) InitialBaseFee"
proof -
  let ?T = "gasTarget g parent" and ?U = "tipGasUsed parent"
  have pos: "0 < uint ?T" if "?T \<noteq> 0"
    using that by (simp add: word_neq_0_conv word_less_def)
  have sub: "uint (?U - ?T) = uint ?U - uint ?T" if "?T < ?U"
    using that by (simp add: uint_minus_le)
  have sub': "uint (?T - ?U) = uint ?T - uint ?U" if "?U < ?T"
    using that by (simp add: uint_minus_le)
  consider "tipHeight parent = VanuatuBlockHeight g - 1" | "VanuatuBlockHeight g - 1 < tipHeight parent"
    using assms by (auto simp: CalcBaseFee_def split: if_splits)
  then show thesis
  proof cases
    case 1
    then show ?thesis using assms initial by (simp add: CalcBaseFee_def)
  next
    case 2
    consider "?U = ?T" | "?T < ?U" | "?U < ?T" by (metis linorder_neqE)
    then show ?thesis
    proof cases
      case 1
      then show ?thesis using 2 assms same by (auto simp: CalcBaseFee_def Let_def split: if_splits)
    next
      case u: 2
      with 2 assms have "?T \<noteq> 0" by (auto simp: CalcBaseFee_def Let_def split: if_splits)
      with u 2 assms pos sub show ?thesis
        by (intro up) (auto simp: CalcBaseFee_def Let_def DefaultBaseFeeChangeDenominator_def
            word_neq_0_conv split: if_splits)
    next
      case d: 3
      then have "?T \<noteq> 0" by auto
      with d 2 assms pos sub' show ?thesis
        by (intro down) (auto simp: CalcBaseFee_def Let_def DefaultBaseFeeChangeDenominator_def
            split: if_splits)
    qed
  qed
qed

lemma change_bound:
  fixes d f t :: int
  assumes "0 \<le> d" "d \<le> t" "0 < t" "0 \<le> f"
  shows "0 \<le> d * f div t div 8" "d * f div t div 8 \<le> f div 8"
proof -
  show "0 \<le> d * f div t div 8" using assms by (simp add: pos_imp_zdiv_nonneg_iff)
  have "d * f \<le> t * f" using assms by (simp add: mult_right_mono)
  then have "d * f div t \<le> t * f div t" by (rule zdiv_mono1) (use assms in simp)
  also have "t * f div t = f" using assms by simp
  finally show "d * f div t div 8 \<le> f div 8" using assms by (simp add: zdiv_mono1)
qed

text \<open>
  Property C22.  Once the base fee is active and at its floor or above, the base fee of the next
  block never drops below \<open>InitialBaseFee\<close>, never moves by more than one eighth (or by one, when
  an eighth rounds to zero) as long as the parent kept within an even gas limit, and moves up
  only when the parent used more than its target and down only when it used less.
\<close>

theorem CalcBaseFee_bounds:
  assumes fee: "CalcBaseFee g parent = Inr (Some fee)"
    and active: "tipHeight parent \<noteq> VanuatuBlockHeight g - 1"
    and floor: "InitialBaseFee \<le> tipBaseFee parent"
    and limit: "tipGasUsed parent \<le> BlockGasLimitByHeight g (tipHeight parent)"
    and even: "even (uint (BlockGasLimitByHeight g (tipHeight parent)))"
  shows "InitialBaseFee \<le> fee \<and> \<bar>fee - tipBaseFee parent\<bar> \<le> max (tipBaseFee parent div 8) 1 \<and>
    (tipBaseFee parent < fee \<longleftrightarrow> gasTarget g parent < tipGasUsed parent) \<and>
    (fee < tipBaseFee parent \<longrightarrow> tipGasUsed parent < gasTarget g parent)"
proof -
  let ?T = "uint (gasTarget g parent)" and ?U = "uint (tipGasUsed parent)" and ?B = "tipBaseFee parent"
  have B: "0 < ?B" using floor by (simp add: InitialBaseFee_def)
  have T2: "2 * ?T = uint (BlockGasLimitByHeight g (tipHeight parent))"
    using even by (simp add: gasTarget_def DefaultElasticityMultiplier_def uint_div)
  have U: "?U \<le> 2 * ?T" using limit T2 by (simp add: word_le_def)
  from fee show ?thesis
  proof (cases rule: CalcBaseFee_cases)
    case initial
    then show ?thesis using active by simp
  next
    case same
    then show ?thesis using floor by simp
  next
    case up
    then have "0 < ?T" "?T < ?U" by (simp_all add: word_less_def)
    then have "0 \<le> (?U - ?T) * ?B div ?T div 8" "(?U - ?T) * ?B div ?T div 8 \<le> ?B div 8"
      using U B by (intro change_bound; linarith)+
    then show ?thesis using up floor by auto
  next
    case down
    then have "?U < ?T" by (simp add: word_less_def)
    moreover have "0 \<le> ?U" by simp
    ultimately have "0 < ?T" "?U < ?T" by linarith+
    then have "0 \<le> (?T - ?U) * ?B div ?T div 8" "(?T - ?U) * ?B div ?T div 8 \<le> ?B div 8"
      using B by (intro change_bound; simp)+
    then show ?thesis using down floor B by auto
  qed
qed

theorem CalcBaseFee_bounds_witness:
  "InitialBaseFee \<le> (1125000000000 :: int) \<and>
   \<bar>1125000000000 - (1000000000000 :: int)\<bar> \<le> max (1000000000000 div 8) 1 \<and>
   gasTarget defaultConfig \<lparr>tipHeight = 40000000, tipGasUsed = 25000000, tipBaseFee = 1000000000000,
     tipBlobGasUsed = 0, tipExcessBlobGas = 0\<rparr> < 25000000"
proof -
  let ?tip = "\<lparr>tipHeight = 40000000, tipGasUsed = 25000000, tipBaseFee = 1000000000000,
     tipBlobGasUsed = 0, tipExcessBlobGas = 0\<rparr>"
  have fee: "CalcBaseFee defaultConfig ?tip = Inr (Some 1125000000000)" by code_simp
  have active: "tipHeight ?tip \<noteq> VanuatuBlockHeight defaultConfig - 1" by code_simp
  have floor: "InitialBaseFee \<le> tipBaseFee ?tip" by code_simp
  have limit: "tipGasUsed ?tip \<le> BlockGasLimitByHeight defaultConfig (tipHeight ?tip)" by code_simp
  have even: "even (uint (BlockGasLimitByHeight defaultConfig (tipHeight ?tip)))" by code_simp
  show ?thesis using CalcBaseFee_bounds [OF fee active floor limit even] by auto
qed

section \<open>Fees are split exactly\<close>

text \<open>
  Property C29.  Once EIP-1559 is active, the priority fee and the base fee an action is charged
  add up to its effective gas price times the gas it used, and neither is negative.
\<close>

theorem SplitGas_exact:
  assumes "SplitGas (Some b) False tx gas = Inr (priority, base)" and "0 \<le> b" and "0 \<le> GasTipCap tx"
  shows "priority + base = txEffectiveGasPrice tx (Some b) * uint gas \<and> 0 \<le> priority \<and> 0 \<le> base \<and>
         priority + base \<le> GasFeeCap tx * uint gas"
proof -
  from assms(1) obtain tip where tip: "EffectiveGasTip tx (Some b) = Inr tip"
    and eq: "priority = tip * uint gas" "base = b * uint gas"
    by (auto simp: SplitGas_def res_simps Let_def)
  have price: "tip + b = txEffectiveGasPrice tx (Some b)" and "0 \<le> tip" "tip + b \<le> GasFeeCap tx"
    using tip assms(2,3) by (cases tx; auto simp: EffectiveGasTip_def Let_def split: if_splits)+
  then show ?thesis using eq assms(2)
    by (auto simp: mult_right_mono simp flip: distrib_right)
qed

theorem SplitGas_exact_witness:
  "(2000 :: int) + 100000 = txEffectiveGasPrice (DynamicPrice (Some 120) (Some 2)) (Some 100) * uint (1000 :: u64)"
proof -
  have "SplitGas (Some 100) False (DynamicPrice (Some 120) (Some 2)) 1000 = Inr (2000, 100000)"
    by code_simp
  moreover have "(0 :: int) \<le> 100" "0 \<le> GasTipCap (DynamicPrice (Some 120) (Some 2))" by code_simp+
  ultimately show ?thesis using SplitGas_exact by blast
qed

text \<open>Blob gas: what remains above the target is carried over, and nothing below it.\<close>

lemma CalcExcessBlobGas_exact:
  assumes "uint e + uint u < 2 ^ 64"
  shows "uint (CalcExcessBlobGas params e u) =
    max 0 (uint e + uint u - uint (BlobTxTargetBlobGasPerBlock params))"
proof -
  have sum: "uint (e + u) = uint e + uint u"
    using assms by (intro uint_plus_less) simp
  show ?thesis
    by (auto simp: CalcExcessBlobGas_def Let_def word_less_def sum uint_minus_le word_le_def not_less)
qed

section \<open>The blob fee loop returns\<close>

lemma div_less_imp_less_mult:
  fixes num den i :: int
  assumes "0 < den" "num div den < i"
  shows "num < den * i"
proof -
  have "num mod den < den" using assms(1) by simp
  then have "num < den * (num div den) + den" using mult_div_mod_eq [of den num] by linarith
  also have "\<dots> = den * (num div den + 1)" by (simp add: distrib_left)
  also have "\<dots> \<le> den * i" using assms by (intro mult_left_mono) simp_all
  finally show ?thesis .
qed

lemma step_decreases:
  fixes acc :: int
  assumes "0 < den" "0 \<le> num" "num < den * i" "0 < acc" "0 < i"
  shows "acc * num div den div i < acc" "0 \<le> acc * num div den div i"
proof -
  have eq: "acc * num div den div i = acc * num div (den * i)"
    using assms by (simp add: zdiv_zmult2_eq)
  have "acc * num < acc * (den * i)" using assms by simp
  then have "acc * num div (den * i) < acc" using assms by (intro zdiv_less) simp_all
  then show "acc * num div den div i < acc" by (simp add: eq)
  show "0 \<le> acc * num div den div i"
    using assms by (simp add: pos_imp_zdiv_nonneg_iff)
qed

text \<open>
  From the step where the counter passes \<open>num / den\<close> on, the accumulator strictly decreases; until
  then the distance to that step does.
\<close>

lemma fakeExp_loop_returns:
  assumes "0 < den" "0 \<le> num" "0 < i"
  shows "\<exists>y. fakeExp_loop num den i out acc = Some y"
  using assms(3)
proof (induction "(nat (num div den + 1 - i), nat acc)" arbitrary: i out acc
    rule: wf_induct_rule [OF wf_lex_prod [OF wf_less_than wf_less_than]])
  case 1
  note IH = 1(1) and i = 1(2)
  show ?case
  proof (cases "0 < acc")
    case False
    then show ?thesis by (simp add: fakeExp_loop.simps)
  next
    case True
    let ?acc = "acc * num div den div i"
    have "((nat (num div den + 1 - (i + 1)), nat ?acc), (nat (num div den + 1 - i), nat acc))
            \<in> less_than <*lex*> less_than"
    proof (cases "i \<le> num div den")
      case True
      then show ?thesis by simp
    next
      case False
      then have "num < den * i" using assms(1) by (intro div_less_imp_less_mult) simp_all
      then show ?thesis using step_decreases [OF assms(1,2) _ True i] False True by simp
    qed
    then obtain y where "fakeExp_loop num den (i + 1) (out + acc) ?acc = Some y"
      using IH i by fastforce
    then show ?thesis using True i assms by (simp add: fakeExp_loop.simps [of num den i])
  qed
qed

text \<open>
  Property C30.  The blob fee loop returns for every excess blob gas when the protocol's update
  fraction is positive: \<^verbatim>\<open>CalcBlobFee\<close> neither panics nor loops.
\<close>

theorem CalcBlobFee_returns:
  assumes "0 < BlobTxBlobGaspriceUpdateFraction params"
  shows "\<exists>fee. CalcBlobFee params excess = Some (Inr fee)"
proof -
  obtain y where "fakeExp_loop (uint excess) (BlobTxBlobGaspriceUpdateFraction params) 1 0
      (BlobTxMinBlobGasprice params * BlobTxBlobGaspriceUpdateFraction params) = Some y"
    using fakeExp_loop_returns [OF assms, of "uint excess" 1] by auto
  then show ?thesis using assms by (simp add: CalcBlobFee_def fakeExponential_def)
qed

theorem CalcBlobFee_returns_witness:
  "\<exists>fee. CalcBlobFee \<lparr>MaxBlobGasPerBlock = 786432, BlobTxBlobGasPerBlob = 131072,
     BlobTxTargetBlobGasPerBlock = 393216, BlobTxMinBlobGasprice = 1,
     BlobTxBlobGaspriceUpdateFraction = 3338477\<rparr> 10000000 = Some (Inr fee)"
  by (rule CalcBlobFee_returns) simp

end
