(* ===== verification/Context.thy ===== *)
theory Context
  imports Ledger FeeMarket
begin

text \<open>
  What every handler is given and returns: the action and block context
  (\<^verbatim>\<open>action/protocol/context.go\<close>), the envelope, the receipt and its transaction logs
  (\<^verbatim>\<open>action/receipt.go\<close>), and the option struct of gas deposits
  (\<^verbatim>\<open>action/protocol/protocol.go\<close>).

  A transaction log records a movement of native tokens between two parties: accounts, the
  rewarding pool and the staking bucket pool.  \<open>netFlow\<close> is what a list of logs moves into a
  party; the lemmas show that logs never create or destroy tokens, so a handler whose logs
  explain every change of a holding conserves the supply.
\<close>

section \<open>Contexts and envelopes\<close>

text \<open>The fields of \<^verbatim>\<open>ActionCtx\<close>, \<^verbatim>\<open>BlockCtx\<close>, \<^verbatim>\<open>FeatureCtx\<close> and
  \<^verbatim>\<open>FeatureWithHeightCtx\<close> the handlers read; times are nanoseconds since 1970.\<close>

record ctx =
  Caller :: addr
  IntrinsicGas :: u64
  actNonce :: u64
  GasPrice :: int
  ReadOnly :: bool
  BlockHeight :: u64
  BlockTimeStamp :: int
  BaseFee :: "int option"
  Producer :: addr
  AccumulatedTips :: int
  fCtx :: FeatureCtx
  CandCenterHasAlias :: "u64 \<Rightarrow> bool"

text \<open>\<^verbatim>\<open>SplitGas\<close> and \<^verbatim>\<open>EffectiveGasPrice\<close> read the base fee and the flags from the context.\<close>

definition splitGas :: "ctx \<Rightarrow> tx_price \<Rightarrow> u64 \<Rightarrow> (int \<times> int) res" where
  "splitGas c tx usedGas = SplitGas (BaseFee c) (ReadOnly c) tx usedGas"

definition effectiveGasPrice :: "ctx \<Rightarrow> tx_price \<Rightarrow> int option" where
  "effectiveGasPrice c tx = EffectiveGasPrice (EnableDynamicFeeTx (fCtx c)) (BaseFee c) tx"

definition accountCreationOpts :: "ctx \<Rightarrow> account_option list" where
  "accountCreationOpts c = creationOpts (CreateLegacyNonceAccount (fCtx c))"

section \<open>Transaction logs and receipts\<close>

text \<open>\<^verbatim>\<open>address.RewardingPoolAddr\<close> and \<^verbatim>\<open>address.StakingBucketPoolAddr\<close> are fixed strings that
  are not the address of an account.\<close>

datatype party = Acct addr | RewardingPoolAddr | StakingBucketPoolAddr

datatype TransactionLogType =
    NATIVE_TRANSFER | GAS_FEE | PRIORITY_FEE | BLOB_FEE
  | DEPOSIT_TO_REWARDING_FUND | CLAIM_FROM_REWARDING_FUND
  | CREATE_BUCKET | DEPOSIT_TO_BUCKET | WITHDRAW_BUCKET
  | CANDIDATE_SELF_STAKE | CANDIDATE_REGISTRATION_FEE

record TransactionLog =
  tlType :: TransactionLogType
  tlSender :: party
  tlRecipient :: party
  tlAmount :: int

record Receipt =
  Status :: receipt_status
  rBlockHeight :: u64
  GasConsumed :: u64
  rEffectiveGasPrice :: "int option"
  transactionLogs :: "TransactionLog list"

text \<open>\<^verbatim>\<open>protocol.DepositOptionCfg\<close>: a fee that is not set is nil.\<close>

record DepositOptionCfg =
  PriorityFee :: "int option"
  BlobGasFee :: "int option"

definition noDepositOption :: DepositOptionCfg where
  "noDepositOption = \<lparr>PriorityFee = None, BlobGasFee = None\<rparr>"

definition PriorityFeeOption :: "int \<Rightarrow> DepositOptionCfg" where
  "PriorityFeeOption fee = \<lparr>PriorityFee = Some fee, BlobGasFee = None\<rparr>"

text \<open>The type of \<^verbatim>\<open>protocol.DepositGas\<close>.\<close>

type_synonym 'w DepositGasFn =
  "ctx \<Rightarrow> int \<Rightarrow> DepositOptionCfg \<Rightarrow> ('w world_scheme, TransactionLog list) op"

section \<open>Flows of tokens\<close>

definition flow :: "TransactionLog \<Rightarrow> party \<Rightarrow> int" where
  "flow l p = (if tlRecipient l = p then tlAmount l else 0) - (if tlSender l = p then tlAmount l else 0)"

definition netFlow :: "TransactionLog list \<Rightarrow> party \<Rightarrow> int" where
  "netFlow logs p = (\<Sum>l\<leftarrow>logs. flow l p)"

lemma netFlow_simps [simp]:
  "netFlow [] p = 0"
  "netFlow (l # logs) p = flow l p + netFlow logs p"
  "netFlow (logs @ logs') p = netFlow logs p + netFlow logs' p"
  by (simp_all add: netFlow_def)

lemma flow_simps [simp]:
  "flow \<lparr>tlType = t, tlSender = s, tlRecipient = r, tlAmount = a\<rparr> p =
   (if r = p then a else 0) - (if s = p then a else 0)"
  by (simp add: flow_def)

lemma party_UNIV: "UNIV = insert RewardingPoolAddr (insert StakingBucketPoolAddr (range Acct))"
  by (auto intro: party.exhaust)

lemma finite_party [simp]: "finite (UNIV :: party set)"
  by (simp add: party_UNIV)

lemma flow_zero_sum: "(\<Sum>p\<in>UNIV. flow l p) = 0"
  by (simp add: flow_def sum_subtractf)

text \<open>Logs move tokens; they neither create nor destroy them.\<close>

lemma netFlow_zero_sum:
  "(\<Sum>a\<in>UNIV. netFlow logs (Acct a)) + netFlow logs RewardingPoolAddr
     + netFlow logs StakingBucketPoolAddr = 0"
proof -
  have all: "(\<Sum>p\<in>UNIV. netFlow logs p) = 0"
    by (induction logs) (simp_all add: sum.distrib flow_zero_sum)
  have inj: "inj_on Acct UNIV" by (auto intro: injI)
  have "(\<Sum>p\<in>UNIV. netFlow logs p) = netFlow logs RewardingPoolAddr +
      (netFlow logs StakingBucketPoolAddr + (\<Sum>a\<in>UNIV. netFlow logs (Acct a)))"
    by (subst party_UNIV, subst sum.insert; (subst sum.insert)?)
       (auto simp: sum.reindex [OF inj])
  with all show ?thesis by simp
qed

lemma totalBalance_sum:
  assumes "finite (dom (acctNS sm))"
  shows "totalBalance sm = (\<Sum>a\<in>UNIV. balOf sm a)"
proof -
  have "(\<Sum>a\<in>UNIV. balOf sm a) = (\<Sum>a\<in>dom (acctNS sm). balOf sm a)"
    by (rule sum.mono_neutral_right) (auto simp: balOf_def split: option.splits)
  also have "\<dots> = totalBalance sm"
    unfolding totalBalance_def msum_def by (rule sum.cong) (auto simp: balOf_def)
  finally show ?thesis by simp
qed

text \<open>
  The logs of a run explain the change of every account and of a pool \<open>hold\<close>, the two kinds of
  holdings a handler may touch.
\<close>

definition explains ::
  "('w world_scheme \<Rightarrow> int) \<Rightarrow> ('w world_scheme \<Rightarrow> int) \<Rightarrow> TransactionLog list \<Rightarrow>
   'w world_scheme \<Rightarrow> 'w world_scheme \<Rightarrow> bool" where
  "explains rewarding staking logs sm sm' \<longleftrightarrow>
     (\<forall>a. balOf sm' a = balOf sm a + netFlow logs (Acct a)) \<and>
     rewarding sm' = rewarding sm + netFlow logs RewardingPoolAddr \<and>
     staking sm' = staking sm + netFlow logs StakingBucketPoolAddr"

lemma explains_trans:
  "explains r s logs1 sm sm1 \<Longrightarrow> explains r s logs2 sm1 sm2 \<Longrightarrow> explains r s (logs1 @ logs2) sm sm2"
  by (simp add: explains_def)

lemma explains_conserves:
  assumes "explains r s logs sm sm'" "finite (dom (acctNS sm))" "finite (dom (acctNS sm'))"
  shows "totalBalance sm' + r sm' + s sm' = totalBalance sm + r sm + s sm"
  using assms netFlow_zero_sum [of logs]
  by (simp add: explains_def totalBalance_sum sum.distrib)

end
