(* ===== verification/AccountProtocol.thy ===== *)
theory AccountProtocol
  imports Context
begin

text \<open>
  The account protocol: \<^verbatim>\<open>handleTransfer\<close> and \<^verbatim>\<open>validateTransfer\<close>
  (\<^verbatim>\<open>action/protocol/account/transfer.go\<close>), \<^verbatim>\<open>createAccount\<close> and
  \<^verbatim>\<open>CreateGenesisStates\<close> (\<^verbatim>\<open>action/protocol/account/protocol.go\<close>).

  The gas deposit function is a field of the protocol (\<^verbatim>\<open>p.depositGas\<close>, possibly nil) and an
  argument of the model.  What a handler relies on is the locale \<open>gas_deposit\<close>; the rewarding
  fund's \<^verbatim>\<open>DepositGas\<close> is its instance, in the theory of that fund.  Decoding the recipient
  string is code of the address package: the result of \<^verbatim>\<open>FromString\<close> and of
  \<^verbatim>\<open>FromStringLegacy\<close> is part of the transfer.
\<close>

section \<open>Transfers (account/transfer.go)\<close>

record Transfer =
  tsfAmount :: int
  tsfRecipient :: "addr res"
  tsfRecipientLegacy :: "addr res"
  tsfPrice :: tx_price
  tsfNonce :: u64
  tsfSize :: u32

definition recipientOf :: "ctx \<Rightarrow> Transfer \<Rightarrow> addr res" where
  "recipientOf c tsf =
     (if TolerateLegacyAddress (fCtx c) then tsfRecipientLegacy tsf else tsfRecipient tsf)"

definition transferReceipt ::
  "ctx \<Rightarrow> Transfer \<Rightarrow> receipt_status \<Rightarrow> TransactionLog list \<Rightarrow> Receipt" where
  "transferReceipt c tsf st logs = \<lparr>Status = st, rBlockHeight = BlockHeight c,
     GasConsumed = IntrinsicGas c, rEffectiveGasPrice = effectiveGasPrice c (tsfPrice tsf),
     transactionLogs = logs\<rparr>"

text \<open>Before the Pacific fork the base fee is taken from the loaded copy of the sender first.\<close>

definition chargeLegacy ::
  "'w DepositGasFn option \<Rightarrow> ctx \<Rightarrow> int \<Rightarrow> account \<Rightarrow>
   ('w world_scheme, account \<times> TransactionLog list) op" where
  "chargeLegacy depositGas c baseFee sender =
     (if FixDoubleChargeGas (fCtx c) then returnS (sender, [])
      else bindS (liftS (SubBalance (Some baseFee) sender)) (\<lambda>sender.
        case depositGas of None \<Rightarrow> returnS (sender, [])
        | Some dg \<Rightarrow> bindS (dg c baseFee noDepositOption) (\<lambda>logs. returnS (sender, logs))))"

definition depositFees ::
  "'w DepositGasFn option \<Rightarrow> ctx \<Rightarrow> int \<Rightarrow> int \<Rightarrow> TransactionLog list \<Rightarrow>
   ('w world_scheme, TransactionLog list) op" where
  "depositFees depositGas c baseFee priorityFee depositLog =
     (if \<not> FixDoubleChargeGas (fCtx c) then returnS depositLog
      else case depositGas of None \<Rightarrow> returnS depositLog
        | Some dg \<Rightarrow> dg c baseFee (PriorityFeeOption priorityFee))"

definition updateNonce :: "ctx \<Rightarrow> Transfer \<Rightarrow> account \<Rightarrow> account res" where
  "updateNonce c tsf sender =
     (if FixGasAndNonceUpdate (fCtx c) \<or> tsfNonce tsf \<noteq> 0
      then SetPendingNonce (tsfNonce tsf + 1) sender else Inr sender)"

text \<open>From the recipient on: a contract is refused with a failed receipt, an account is credited.\<close>

definition transferToRecipient ::
  "'w DepositGasFn option \<Rightarrow> ctx \<Rightarrow> Transfer \<Rightarrow> int \<Rightarrow> int \<Rightarrow> account \<Rightarrow> TransactionLog list \<Rightarrow> addr \<Rightarrow>
   ('w world_scheme, Receipt) op" where
  "transferToRecipient depositGas c tsf priorityFee baseFee sender depositLog recipientAddr =
     bindS (LoadAccount recipientAddr (accountCreationOpts c)) (\<lambda>recipientAcct.
     if IsContract recipientAcct then
       thenS (StoreAccount (Caller c) sender) (
       bindS (depositFees depositGas c baseFee priorityFee depositLog) (\<lambda>depositLog.
       returnS (transferReceipt c tsf RS_Failure depositLog)))
     else
       bindS (liftS (SubBalance (Some (tsfAmount tsf)) sender)) (\<lambda>sender.
       thenS (StoreAccount (Caller c) sender) (
       bindS (LoadOrCreateAccount recipientAddr (accountCreationOpts c)) (\<lambda>recipient.
       bindS (liftS (AddBalance (Some (tsfAmount tsf)) recipient)) (\<lambda>recipient.
       thenS (StoreAccount recipientAddr recipient) (
       bindS (depositFees depositGas c baseFee priorityFee depositLog) (\<lambda>depositLog.
       returnS (transferReceipt c tsf RS_Success
         (\<lparr>tlType = NATIVE_TRANSFER, tlSender = Acct (Caller c), tlRecipient = Acct recipientAddr,
           tlAmount = tsfAmount tsf\<rparr> # depositLog)))))))))"

definition handleTransfer ::
  "'w DepositGasFn option \<Rightarrow> ctx \<Rightarrow> Transfer \<Rightarrow> ('w world_scheme, Receipt) op" where
  "handleTransfer depositGas c tsf =
     bindS (LoadOrCreateAccount (Caller c) (accountCreationOpts c)) (\<lambda>sender.
     bindS (liftS (splitGas c (tsfPrice tsf) (IntrinsicGas c))) (\<lambda>(priorityFee, baseFee).
     bindS (liftS (HasSufficientBalance (Some (tsfAmount tsf + priorityFee + baseFee)) sender)) (\<lambda>ok.
     thenS (checkS ok ErrNotEnoughBalance) (
     bindS (chargeLegacy depositGas c baseFee sender) (\<lambda>(sender, depositLog).
     bindS (liftS (updateNonce c tsf sender)) (\<lambda>sender.
     bindS (liftS (recipientOf c tsf))
       (transferToRecipient depositGas c tsf priorityFee baseFee sender depositLog)))))))"

definition TransferSizeLimit :: u32 where "TransferSizeLimit = 32 * 1024"

definition validateTransfer :: "ctx \<Rightarrow> Transfer \<Rightarrow> unit res" where
  "validateTransfer c tsf =
     (if TransferSizeLimit < tsfSize tsf then Inl ErrOversizedData
      else bindR (recipientOf c tsf) (\<lambda>_. Inr ()))"

section \<open>Genesis accounts (account/protocol.go)\<close>

definition createAccount :: "addr \<Rightarrow> int \<Rightarrow> account_option list \<Rightarrow> ('w world_scheme, unit) op" where
  "createAccount a init opts = (\<lambda>sm. case acctNS sm a of
       Some _ \<Rightarrow> (Inl (Errorf ''failed to create account''), sm)
     | None \<Rightarrow> bindS (liftS (NewAccount opts)) (\<lambda>acc.
               bindS (liftS (AddBalance (Some init) acc)) (StoreAccount a)) sm)"

fun createAccounts :: "(addr \<times> int) list \<Rightarrow> account_option list \<Rightarrow> ('w world_scheme, unit) op" where
  "createAccounts [] opts = returnS ()"
| "createAccounts ((a, amount) # rest) opts = thenS (createAccount a amount opts) (createAccounts rest opts)"

definition CreateGenesisStates :: "ctx \<Rightarrow> addr list \<Rightarrow> int list \<Rightarrow> ('w world_scheme, unit) op" where
  "CreateGenesisStates c addrs amounts =
     thenS (checkS (BlockHeight c = 0) (Errorf ''current block height is not zero'')) (
     thenS (checkS (length addrs = length amounts) (Errorf ''lengths do not match'')) (
     thenS (checkS (\<forall>x\<in>set amounts. 0 \<le> x) (Errorf ''account amount should not be negative'')) (
     createAccounts (zip addrs amounts) (accountCreationOpts c))))"

section \<open>What a handler relies on: the gas deposit contract\<close>

definition depositTotal :: "int \<Rightarrow> DepositOptionCfg \<Rightarrow> int" where
  "depositTotal amount cfg = amount + nilZero (PriorityFee cfg) + nilZero (BlobGasFee cfg)"

text \<open>
  \<open>rewarding\<close> is the holding of the rewarding pool, \<open>rest\<close> the state of the other components, in
  which \<open>g\<close> reads the holding of the staking pool, \<open>collects\<close> says when a deposit
  takes the fees from the caller (it does not in the genesis block), \<open>ready\<close> that the pool exists.
\<close>

locale gas_deposit =
  fixes depositGas :: "'w DepositGasFn"
    and rewarding :: "ctx \<Rightarrow> 'w world_scheme \<Rightarrow> int"
    and rest :: "'w world_scheme \<Rightarrow> 'r"
    and collects :: "ctx \<Rightarrow> bool"
    and ready :: "ctx \<Rightarrow> 'w world_scheme \<Rightarrow> bool"
  assumes deposit_wf:
      "wf_accounts sm \<Longrightarrow> depositGas c amount cfg sm = (Inr logs, sm') \<Longrightarrow> wf_accounts sm'"
    and deposit_explains:
      "wf_accounts sm \<Longrightarrow> depositGas c amount cfg sm = (Inr logs, sm') \<Longrightarrow>
       explains (rewarding c) (g \<circ> rest) logs sm sm'"
    and deposit_pays:
      "wf_accounts sm \<Longrightarrow> depositGas c amount cfg sm = (Inr logs, sm') \<Longrightarrow>
       balOf sm' a = balOf sm a - (if a = Caller c \<and> collects c then depositTotal amount cfg else 0)"
    and deposit_accounts:
      "wf_accounts sm \<Longrightarrow> depositGas c amount cfg sm = (Inr logs, sm') \<Longrightarrow> acctNS sm a \<noteq> None \<Longrightarrow>
       strip (acctNS sm' a) = strip (acctNS sm a)"
    and deposit_succeeds:
      "wf_accounts sm \<Longrightarrow> ready c sm \<Longrightarrow> 0 \<le> amount \<Longrightarrow> 0 \<le> nilZero (PriorityFee cfg) \<Longrightarrow>
       0 \<le> nilZero (BlobGasFee cfg) \<Longrightarrow> depositTotal amount cfg \<le> balOf sm (Caller c) \<Longrightarrow>
       \<exists>logs sm'. depositGas c amount cfg sm = (Inr logs, sm')"
    and rewarding_frame: "rewarding c (sm\<lparr>acctNS := m\<rparr>) = rewarding c sm"
    and rest_frame: "rest (sm\<lparr>acctNS := m\<rparr>) = rest sm"
    and deposit_rest: "depositGas c amount cfg sm = (res, sm') \<Longrightarrow> rest sm' = rest sm"
    and ready_frame: "ready c (sm\<lparr>acctNS := m\<rparr>) = ready c sm"
begin

lemma explains_store:
  "explains (rewarding c) (g \<circ> rest) logs sm sm1 \<Longrightarrow>
   (\<And>b. balOf (sm1\<lparr>acctNS := (acctNS sm1)(a \<mapsto> acc)\<rparr>) b =
         balOf sm b + netFlow logs' (Acct b)) \<Longrightarrow>
   netFlow logs' RewardingPoolAddr = netFlow logs RewardingPoolAddr \<Longrightarrow>
   netFlow logs' StakingBucketPoolAddr = netFlow logs StakingBucketPoolAddr \<Longrightarrow>
   explains (rewarding c) (g \<circ> rest) logs' sm (sm1\<lparr>acctNS := (acctNS sm1)(a \<mapsto> acc)\<rparr>)"
  by (simp add: explains_def rewarding_frame rest_frame)

lemma explains_refl: "explains (rewarding c) (g \<circ> rest) [] sm sm"
  by (simp add: explains_def)

lemma explains_loadOrCreate:
  assumes "wf_accounts sm" "LoadOrCreateAccount a (accountCreationOpts c) sm = (Inr acc, sm')"
  shows "explains (rewarding c) (g \<circ> rest) [] sm sm'"
  using LoadOrCreateAccount_run [OF assms(1) assms(2) [unfolded accountCreationOpts_def]]
  by (auto simp: explains_def rewarding_frame rest_frame)

lemma explains_netFlow:
  "explains (rewarding c) (g \<circ> rest) logs sm sm' \<Longrightarrow> (\<And>p. netFlow logs' p = netFlow logs p) \<Longrightarrow>
   explains (rewarding c) (g \<circ> rest) logs' sm sm'"
  by (simp add: explains_def)

lemma chargeLegacy_run:
  assumes wf: "wf_accounts sm" "wf_account sender" "bal sender = balOf sm (Caller c)"
    and collects: "FixDoubleChargeGas (fCtx c) \<or> collects c"
    and run: "chargeLegacy (Some depositGas) c baseFee sender sm = (Inr (sender', logs), sm')"
  shows "wf_accounts sm' \<and> wf_account sender' \<and> bal sender' = balOf sm' (Caller c) \<and>
    explains (rewarding c) (g \<circ> rest) logs sm sm' \<and> (FixDoubleChargeGas (fCtx c) \<longrightarrow> logs = []) \<and>
    nonce sender' = nonce sender \<and> accountType sender' = accountType sender"
proof (cases "FixDoubleChargeGas (fCtx c)")
  case True
  then show ?thesis using wf run by (auto simp: chargeLegacy_def run_simps explains_refl)
next
  case False
  then have dep: "depositGas c baseFee noDepositOption sm = (Inr logs, sm')"
    and sub: "SubBalance (Some baseFee) sender = Inr sender'"
    using run by (auto simp: chargeLegacy_def run_simps)
  have "balOf sm' (Caller c) = balOf sm (Caller c) - baseFee"
    using deposit_pays [OF wf(1) dep] collects False
    by (simp add: depositTotal_def noDepositOption_def nilZero_def)
  then show ?thesis
    using deposit_wf [OF wf(1) dep] deposit_explains [OF wf(1) dep] sub wf False
    by (auto simp: SubBalance_Inr)
qed

lemma depositFees_run:
  assumes "wf_accounts sm" "depositFees (Some depositGas) c baseFee priorityFee logs sm = (Inr logs', sm')"
    and "FixDoubleChargeGas (fCtx c) \<longrightarrow> logs = []"
  shows "wf_accounts sm' \<and> (\<exists>extra. logs' = logs @ extra \<and> explains (rewarding c) (g \<circ> rest) extra sm sm')"
proof (cases "FixDoubleChargeGas (fCtx c)")
  case True
  then show ?thesis using assms deposit_wf deposit_explains
    by (auto simp: depositFees_def)
next
  case False
  then show ?thesis using assms
    by (auto simp: depositFees_def run_simps intro!: exI [of _ "[]"] explains_refl)
qed

lemma updateNonce_frame:
  "updateNonce c tsf sender = Inr sender' \<Longrightarrow> wf_account sender \<Longrightarrow>
   wf_account sender' \<and> bal sender' = bal sender"
  by (auto simp: updateNonce_def split: if_splits intro: wf_SetPendingNonce)

text \<open>Crediting the recipient after debiting the sender moves the amount, also to oneself.\<close>

lemma move_explains:
  assumes wf: "wf_accounts sm" "wf_account sender" "bal sender = balOf sm (Caller c)"
    and sub: "SubBalance (Some amount) sender = Inr sender'"
    and load: "LoadOrCreateAccount a (accountCreationOpts c) (sm\<lparr>acctNS := (acctNS sm)(Caller c \<mapsto> sender')\<rparr>)
                 = (Inr recipient, sm1)"
    and add: "AddBalance (Some amount) recipient = Inr recipient'"
  shows "wf_accounts (sm1\<lparr>acctNS := (acctNS sm1)(a \<mapsto> recipient')\<rparr>) \<and>
    explains (rewarding c) (g \<circ> rest) [\<lparr>tlType = t, tlSender = Acct (Caller c), tlRecipient = Acct a,
      tlAmount = amount\<rparr>] sm (sm1\<lparr>acctNS := (acctNS sm1)(a \<mapsto> recipient')\<rparr>)"
proof -
  let ?sm = "sm\<lparr>acctNS := (acctNS sm)(Caller c \<mapsto> sender')\<rparr>"
  have wf': "wf_accounts ?sm" by (rule wf_accounts_store [OF wf(1) wf_SubBalance [OF wf(2) sub]])
  note l = LoadOrCreateAccount_run [OF wf' load [unfolded accountCreationOpts_def]]
  have "wf_account recipient'" by (rule wf_AddBalance [OF l(1) add])
  then have "wf_accounts (sm1\<lparr>acctNS := (acctNS sm1)(a \<mapsto> recipient')\<rparr>)"
    by (rule wf_accounts_store [OF l(3)])
  moreover have "rewarding c sm1 = rewarding c sm" "rest sm1 = rest sm"
    using l(5) by (simp_all add: rewarding_frame rest_frame)
  moreover have "balOf sm1 b = (if b = Caller c then balOf sm b - amount else balOf sm b)" for b
    using l(7) sub wf(3) by (auto simp: SubBalance_Inr)
  moreover have "bal recipient' = balOf sm1 a + amount" using l(2,7) add by (auto simp: AddBalance_Inr)
  ultimately show ?thesis by (simp add: explains_def rewarding_frame rest_frame)
qed

lemma store_explains:
  assumes "wf_accounts sm" "wf_account acc" "bal acc = balOf sm a"
  shows "wf_accounts (sm\<lparr>acctNS := (acctNS sm)(a \<mapsto> acc)\<rparr>) \<and>
    explains (rewarding c) (g \<circ> rest) [] sm (sm\<lparr>acctNS := (acctNS sm)(a \<mapsto> acc)\<rparr>)"
  using assms by (auto simp: explains_def rewarding_frame rest_frame)

lemma transferToRecipient_explains:
  assumes wf: "wf_accounts sm" "wf_account sender" "bal sender = balOf sm (Caller c)"
    and logs: "FixDoubleChargeGas (fCtx c) \<longrightarrow> logs = []"
    and run: "transferToRecipient (Some depositGas) c tsf priorityFee baseFee sender logs a sm = (Inr r, sm')"
  shows "wf_accounts sm' \<and> (\<exists>extra. explains (rewarding c) (g \<circ> rest) extra sm sm' \<and>
    (\<forall>p. netFlow (transactionLogs r) p = netFlow logs p + netFlow extra p))"
proof -
  let ?log = "\<lparr>tlType = NATIVE_TRANSFER, tlSender = Acct (Caller c), tlRecipient = Acct a,
           tlAmount = tsfAmount tsf\<rparr>"
  from run consider (contract) logs' where
      "depositFees (Some depositGas) c baseFee priorityFee logs
        (sm\<lparr>acctNS := (acctNS sm)(Caller c \<mapsto> sender)\<rparr>) = (Inr logs', sm')" "transactionLogs r = logs'"
    | (account) sender' recipient sm1 recipient' logs' where
      "SubBalance (Some (tsfAmount tsf)) sender = Inr sender'"
      "LoadOrCreateAccount a (accountCreationOpts c)
               (sm\<lparr>acctNS := (acctNS sm)(Caller c \<mapsto> sender')\<rparr>) = (Inr recipient, sm1)"
      "AddBalance (Some (tsfAmount tsf)) recipient = Inr recipient'"
      "depositFees (Some depositGas) c baseFee priorityFee logs
            (sm1\<lparr>acctNS := (acctNS sm1)(a \<mapsto> recipient')\<rparr>) = (Inr logs', sm')"
      "transactionLogs r = ?log # logs'"
    by (auto simp: transferToRecipient_def run_simps transferReceipt_def split: if_splits)
  then show ?thesis
  proof cases
    case contract
    note s = store_explains [OF wf]
    from depositFees_run [OF conjunct1 [OF s] contract(1) logs] explains_trans [OF conjunct2 [OF s]]
    show ?thesis using contract(2) by fastforce
  next
    case account
    note m = move_explains [OF wf account(1,2,3), where t = NATIVE_TRANSFER]
    from depositFees_run [OF conjunct1 [OF m] account(4) logs] obtain extra where
      x: "wf_accounts sm'" "logs' = logs @ extra"
      "explains (rewarding c) (g \<circ> rest) extra (sm1\<lparr>acctNS := (acctNS sm1)(a \<mapsto> recipient')\<rparr>) sm'" by auto
    from explains_trans [OF conjunct2 [OF m] x(3)] x(1,2) account(5) show ?thesis
      by (intro conjI exI [of _ "?log # extra"]) simp_all
  qed
qed

lemma handleTransfer_explains:
  assumes wf: "wf_accounts sm" and collects: "FixDoubleChargeGas (fCtx c) \<or> collects c"
    and run: "handleTransfer (Some depositGas) c tsf sm = (Inr r, sm')"
  shows "wf_accounts sm' \<and> explains (rewarding c) (g \<circ> rest) (transactionLogs r) sm sm'"
proof -
  from run obtain sender sm1 priorityFee baseFee sender1 logs sm2 sender2 a where
    l: "LoadOrCreateAccount (Caller c) (accountCreationOpts c) sm = (Inr sender, sm1)" and
    ch: "chargeLegacy (Some depositGas) c baseFee sender sm1 = (Inr (sender1, logs), sm2)" and
    n: "updateNonce c tsf sender1 = Inr sender2" and
    k: "transferToRecipient (Some depositGas) c tsf priorityFee baseFee sender2 logs a sm2 = (Inr r, sm')"
    unfolding handleTransfer_def by (auto simp: run_simps split: prod.splits)
  note L = LoadOrCreateAccount_run [OF wf l [unfolded accountCreationOpts_def]]
  have C: "wf_accounts sm2" "wf_account sender1" "bal sender1 = balOf sm2 (Caller c)"
    "explains (rewarding c) (g \<circ> rest) logs sm1 sm2" "FixDoubleChargeGas (fCtx c) \<longrightarrow> logs = []"
    using chargeLegacy_run [OF L(3,1) _ collects ch] L(2,7) by auto
  have s2: "wf_account sender2" "bal sender2 = balOf sm2 (Caller c)"
    using updateNonce_frame [OF n C(2)] C(3) by simp_all
  have e2: "explains (rewarding c) (g \<circ> rest) logs sm sm2"
    using explains_trans [OF explains_loadOrCreate [OF wf l] C(4)] by simp
  from transferToRecipient_explains [OF C(1) s2 C(5) k] obtain extra where
    "wf_accounts sm'" "explains (rewarding c) (g \<circ> rest) extra sm2 sm'"
    "\<And>p. netFlow (transactionLogs r) p = netFlow (logs @ extra) p" by auto
  then show ?thesis using explains_netFlow [OF explains_trans [OF e2]] by blast
qed

lemma depositFees_pays:
  assumes "wf_accounts sm" "FixDoubleChargeGas (fCtx c)"
    and "depositFees (Some depositGas) c baseFee priorityFee logs sm = (Inr logs', sm')"
  shows "balOf sm' x = balOf sm x - (if x = Caller c \<and> collects c then baseFee + priorityFee else 0)"
    "acctNS sm x \<noteq> None \<Longrightarrow> strip (acctNS sm' x) = strip (acctNS sm x)"
  using assms deposit_pays [OF assms(1), of c baseFee "PriorityFeeOption priorityFee" logs' sm' x]
    deposit_accounts [OF assms(1), of c baseFee "PriorityFeeOption priorityFee" logs' sm' x]
  by (auto simp: depositFees_def depositTotal_def PriorityFeeOption_def nilZero_def)

text \<open>A successful transfer debits the sender, credits the recipient and changes no other balance.\<close>

lemma transferToRecipient_pays:
  assumes wf: "wf_accounts sm" "wf_account sender" "bal sender = balOf sm (Caller c)"
    and fix_: "FixDoubleChargeGas (fCtx c)"
    and run: "transferToRecipient (Some depositGas) c tsf priorityFee baseFee sender logs a sm = (Inr r, sm')"
    and ok: "Status r = RS_Success"
  shows "balOf sm' x = balOf sm x - (if x = Caller c then tsfAmount tsf else 0)
      - (if x = Caller c \<and> collects c then baseFee + priorityFee else 0) + (if x = a then tsfAmount tsf else 0)"
    "strip (acctNS sm' (Caller c)) = strip (Some sender)"
proof -
  let ?log = "\<lparr>tlType = NATIVE_TRANSFER, tlSender = Acct (Caller c), tlRecipient = Acct a,
           tlAmount = tsfAmount tsf\<rparr>"
  from run ok obtain sender' recipient sm1 recipient' logs' where r:
      "SubBalance (Some (tsfAmount tsf)) sender = Inr sender'"
      "LoadOrCreateAccount a (accountCreationOpts c)
               (sm\<lparr>acctNS := (acctNS sm)(Caller c \<mapsto> sender')\<rparr>) = (Inr recipient, sm1)"
      "AddBalance (Some (tsfAmount tsf)) recipient = Inr recipient'"
      "depositFees (Some depositGas) c baseFee priorityFee logs
            (sm1\<lparr>acctNS := (acctNS sm1)(a \<mapsto> recipient')\<rparr>) = (Inr logs', sm')"
    by (auto simp: transferToRecipient_def run_simps transferReceipt_def split: if_splits)
  let ?s = "sm1\<lparr>acctNS := (acctNS sm1)(a \<mapsto> recipient')\<rparr>"
  note m = move_explains [OF wf r(1-3)]
  note d = depositFees_pays [OF conjunct1 [OF m] fix_ r(4)]
  show "balOf sm' x = balOf sm x - (if x = Caller c then tsfAmount tsf else 0)
      - (if x = Caller c \<and> collects c then baseFee + priorityFee else 0) + (if x = a then tsfAmount tsf else 0)"
    using conjunct2 [OF m] by (simp add: d(1) explains_def)
  have wf': "wf_accounts (sm\<lparr>acctNS := (acctNS sm)(Caller c \<mapsto> sender')\<rparr>)"
    by (rule wf_accounts_store [OF wf(1) wf_SubBalance [OF wf(2) r(1)]])
  note l = LoadOrCreateAccount_run [OF wf' r(2) [unfolded accountCreationOpts_def]]
  have s: "strip (Some sender') = strip (Some sender)" using r(1) by (auto simp: SubBalance_Inr)
  have rec: "strip (Some recipient') = strip (Some recipient)" using r(3) by (auto simp: AddBalance_Inr)
  have "recipient = sender'" if "a = Caller c"
    using r(2) that by (simp add: LoadOrCreateAccount_def)
  then have "acctNS ?s (Caller c) \<noteq> None" "strip (acctNS ?s (Caller c)) = strip (Some sender)"
    using s rec l(5) by auto
  then show "strip (acctNS sm' (Caller c)) = strip (Some sender)" using d(2) by simp
qed

lemma handleTransfer_pays:
  assumes wf: "wf_accounts sm" and fix_: "FixDoubleChargeGas (fCtx c)"
    and run: "handleTransfer (Some depositGas) c tsf sm = (Inr r, sm')" and ok: "Status r = RS_Success"
  shows "\<exists>a priorityFee baseFee. recipientOf c tsf = Inr a \<and>
    splitGas c (tsfPrice tsf) (IntrinsicGas c) = Inr (priorityFee, baseFee) \<and>
    tsfAmount tsf + priorityFee + baseFee \<le> balOf sm (Caller c) \<and>
    (\<forall>x. balOf sm' x = balOf sm x - (if x = Caller c then tsfAmount tsf else 0)
      - (if x = Caller c \<and> collects c then baseFee + priorityFee else 0) + (if x = a then tsfAmount tsf else 0)) \<and>
    (FixGasAndNonceUpdate (fCtx c) \<longrightarrow>
       (\<exists>acc. acctNS sm' (Caller c) = Some acc \<and> PendingNonce acc = Inr (tsfNonce tsf + 1)))"
proof -
  from run fix_ obtain sender sm1 priorityFee baseFee sender2 a where
    l: "LoadOrCreateAccount (Caller c) (accountCreationOpts c) sm = (Inr sender, sm1)" and
    g: "splitGas c (tsfPrice tsf) (IntrinsicGas c) = Inr (priorityFee, baseFee)" and
    h: "HasSufficientBalance (Some (tsfAmount tsf + priorityFee + baseFee)) sender = Inr True" and
    n: "updateNonce c tsf sender = Inr sender2" and a: "recipientOf c tsf = Inr a" and
    k: "transferToRecipient (Some depositGas) c tsf priorityFee baseFee sender2 [] a sm1 = (Inr r, sm')"
    unfolding handleTransfer_def by (auto simp: chargeLegacy_def run_simps split: prod.splits)
  note L = LoadOrCreateAccount_run [OF wf l [unfolded accountCreationOpts_def]]
  have s2: "wf_account sender2" "bal sender2 = balOf sm1 (Caller c)"
    using updateNonce_frame [OF n L(1)] L(2,7) by simp_all
  have "tsfAmount tsf + priorityFee + baseFee \<le> balOf sm (Caller c)"
    using h L(1,2) by (simp add: HasSufficientBalance_def wf_account_Balance)
  moreover have "\<exists>acc. acctNS sm' (Caller c) = Some acc \<and> PendingNonce acc = Inr (tsfNonce tsf + 1)"
    if "FixGasAndNonceUpdate (fCtx c)"
  proof -
    obtain acc where "acctNS sm' (Caller c) = Some acc" "strip (Some acc) = strip (Some sender2)"
      using transferToRecipient_pays(2) [OF L(3) s2 fix_ k ok]
      by (cases "acctNS sm' (Caller c)") (auto simp: strip_def)
    moreover have "PendingNonce sender2 = Inr (tsfNonce tsf + 1)"
      using n that SetPendingNonce_pending by (simp add: updateNonce_def)
    ultimately show ?thesis using PendingNonce_strip [of acc sender2] by auto
  qed
  ultimately show ?thesis using a g transferToRecipient_pays(1) [OF L(3) s2 fix_ k ok] L(7) by auto
qed

lemma transferToRecipient_succeeds:
  assumes wf: "wf_accounts sm" "wf_account sender" "bal sender = balOf sm (Caller c)"
    and fix_: "FixDoubleChargeGas (fCtx c)" and ready: "ready c sm"
    and fees: "0 \<le> priorityFee" "0 \<le> baseFee" "0 \<le> tsfAmount tsf"
      "tsfAmount tsf + priorityFee + baseFee \<le> balOf sm (Caller c)"
    and plain: "\<And>acc. acctNS sm a = Some acc \<Longrightarrow> \<not> IsContract acc"
  shows "\<exists>r sm'. transferToRecipient (Some depositGas) c tsf priorityFee baseFee sender [] a sm = (Inr r, sm')
    \<and> Status r = RS_Success"
proof -
  have racc: "\<exists>acc. LoadAccountByHash160 sm a (accountCreationOpts c) = Inr acc \<and> \<not> IsContract acc"
    using plain NewAccount_creationOpts [of "CreateLegacyNonceAccount (fCtx c)"]
    by (auto simp: LoadAccountByHash160_def accountCreationOpts_def IsContract_def split: option.splits)
  obtain sender' where sub: "SubBalance (Some (tsfAmount tsf)) sender = Inr sender'"
    using wf fees wf_account_Balance [OF wf(2)] by (auto simp: SubBalance_Inr)
  let ?sm = "sm\<lparr>acctNS := (acctNS sm)(Caller c \<mapsto> sender')\<rparr>"
  obtain recipient sm1 where load: "LoadOrCreateAccount a (accountCreationOpts c) ?sm = (Inr recipient, sm1)"
    unfolding accountCreationOpts_def using LoadOrCreateAccount_total by blast
  obtain recipient' where add: "AddBalance (Some (tsfAmount tsf)) recipient = Inr recipient'"
    using fees(3) by (simp add: AddBalance_Inr)
  let ?s = "sm1\<lparr>acctNS := (acctNS sm1)(a \<mapsto> recipient')\<rparr>"
  note m = move_explains [OF wf sub load add]
  have wf': "wf_accounts ?sm" by (rule wf_accounts_store [OF wf(1) wf_SubBalance [OF wf(2) sub]])
  have "ready c ?s"
    using ready LoadOrCreateAccount_run(5) [OF wf' load [unfolded accountCreationOpts_def]]
    by (simp add: ready_frame)
  moreover have "baseFee + priorityFee \<le> balOf ?s (Caller c)"
    using conjunct2 [OF m] fees by (simp add: explains_def)
  ultimately obtain logs' sm' where "depositGas c baseFee (PriorityFeeOption priorityFee) ?s = (Inr logs', sm')"
    using deposit_succeeds [OF conjunct1 [OF m], of c baseFee "PriorityFeeOption priorityFee"] fees
    by (auto simp: depositTotal_def PriorityFeeOption_def nilZero_def)
  then show ?thesis using racc sub load add fix_
    by (auto simp: transferToRecipient_def op_defs LoadAccount_def StoreAccount_def depositFees_def
        transferReceipt_def)
qed

lemma handleTransfer_succeeds:
  assumes wf: "wf_accounts sm" and forks: "FixDoubleChargeGas (fCtx c)" "FixGasAndNonceUpdate (fCtx c)"
    and ready: "ready c sm"
    and gas: "splitGas c (tsfPrice tsf) (IntrinsicGas c) = Inr (priorityFee, baseFee)"
    and fees: "0 \<le> priorityFee" "0 \<le> baseFee" "0 \<le> tsfAmount tsf"
      "tsfAmount tsf + priorityFee + baseFee \<le> balOf sm (Caller c)"
    and sender: "acctNS sm (Caller c) = Some sender" "PendingNonce sender = Inr (tsfNonce tsf)"
      "unat (nonce sender) + 2 < 2 ^ 64"
    and a: "recipientOf c tsf = Inr a" and plain: "\<And>acc. acctNS sm a = Some acc \<Longrightarrow> \<not> IsContract acc"
  shows "\<exists>r sm'. handleTransfer (Some depositGas) c tsf sm = (Inr r, sm') \<and> Status r = RS_Success"
proof -
  have wfs: "wf_account sender" "bal sender = balOf sm (Caller c)"
    using wf sender(1) by (auto simp: wf_accounts_def balOf_def)
  obtain sender2 where n: "SetPendingNonce (tsfNonce tsf + 1) sender = Inr sender2"
    using SetPendingNonce_next [OF sender(2,3)] by auto
  have s2: "wf_account sender2" "bal sender2 = balOf sm (Caller c)"
    using wf_SetPendingNonce [OF wfs(1) n] n wfs(2) by simp_all
  have "HasSufficientBalance (Some (tsfAmount tsf + priorityFee + baseFee)) sender = Inr True"
    using fees(4) wfs by (simp add: HasSufficientBalance_def wf_account_Balance)
  with transferToRecipient_succeeds [OF wf s2 forks(1) ready fees plain] sender(1) gas a n forks
  show ?thesis
    by (simp add: handleTransfer_def op_defs LoadOrCreateAccount_def chargeLegacy_def updateNonce_def)
qed

end

end
