(* ===== verification/RewardFund.thy ===== *)
theory RewardFund
  imports AccountProtocol
begin

text \<open>
  The state of the rewarding protocol and its fund: the two generations of the key-value store
  (\<^verbatim>\<open>action/protocol/rewarding/protocol.go\<close>), \<^verbatim>\<open>fund.go\<close>, and the admin record of \<^verbatim>\<open>admin.go\<close>.

  Before the Greenland fork values live under hashed keys in the account namespace (V1), after
  it in a namespace of their own (V2); a read falls back to V1.  The keys are the datatype
  \<open>rkey\<close>, which assumes that the hash of a V1 key does not collide.  \<open>view\<close> is the abstract
  store a caller sees, and the lemmas show that every write of the two-generation store is the
  same write of \<open>view\<close>.  The Erigon side store is not modelled.
\<close>

section \<open>Values (fund.go, admin.go, reward.go)\<close>

record fund =
  fundTotal :: int
  fundUnclaimed :: int

record admin =
  blockReward :: int
  epochReward :: int
  numDelegatesForEpochReward :: u64
  foundationBonus :: int
  numDelegatesForFoundationBonus :: u64
  foundationBonusLastEpoch :: u64
  productivityThreshold :: u64

text \<open>The protobuf messages the two structs are written as, before marshalling.\<close>

record fund_pb =
  pb_TotalBalance :: string
  pb_UnclaimedBalance :: string

record admin_pb =
  pb_BlockReward :: string
  pb_EpochReward :: string
  pb_NumDelegatesForEpochReward :: u64
  pb_FoundationBonus :: string
  pb_NumDelegatesForFoundationBonus :: u64
  pb_FoundationBonusLastEpoch :: u64
  pb_ProductivityThreshold :: u64

definition setString :: "string \<Rightarrow> string \<Rightarrow> int res" where
  "setString msg s = (case big_SetString s of None \<Rightarrow> Inl (Errorf msg) | Some i \<Rightarrow> Inr i)"

definition fund_Serialize :: "fund \<Rightarrow> fund_pb" where
  "fund_Serialize f = \<lparr>pb_TotalBalance = big_String (fundTotal f),
     pb_UnclaimedBalance = big_String (fundUnclaimed f)\<rparr>"

definition fund_Deserialize :: "fund_pb \<Rightarrow> fund res" where
  "fund_Deserialize gen =
     bindR (setString ''failed to set total balance'' (pb_TotalBalance gen)) (\<lambda>total.
     bindR (setString ''failed to set unclaimed balance'' (pb_UnclaimedBalance gen)) (\<lambda>unclaimed.
     Inr \<lparr>fundTotal = total, fundUnclaimed = unclaimed\<rparr>))"

text \<open>The primary and the secondary message of \<^verbatim>\<open>Encode\<close>.\<close>

definition fund_Encode :: "fund \<Rightarrow> fund_pb \<times> fund_pb" where
  "fund_Encode f =
     (\<lparr>pb_TotalBalance = big_String (fundTotal f), pb_UnclaimedBalance = []\<rparr>,
      \<lparr>pb_TotalBalance = [], pb_UnclaimedBalance = big_String (fundUnclaimed f)\<rparr>)"

definition setStringOrZero :: "string \<Rightarrow> string \<Rightarrow> int res" where
  "setStringOrZero msg s = (if 0 < length s then setString msg s else Inr 0)"

definition fund_Decode :: "fund_pb \<times> fund_pb \<Rightarrow> fund res" where
  "fund_Decode v =
     bindR (setStringOrZero ''failed to set total balance'' (pb_TotalBalance (fst v))) (\<lambda>total.
     bindR (setStringOrZero ''failed to set unclaimed balance'' (pb_UnclaimedBalance (snd v))) (\<lambda>unclaimed.
     Inr \<lparr>fundTotal = total, fundUnclaimed = unclaimed\<rparr>))"

definition admin_Serialize :: "admin \<Rightarrow> admin_pb" where
  "admin_Serialize a = \<lparr>pb_BlockReward = big_String (blockReward a),
     pb_EpochReward = big_String (epochReward a),
     pb_NumDelegatesForEpochReward = numDelegatesForEpochReward a,
     pb_FoundationBonus = big_String (foundationBonus a),
     pb_NumDelegatesForFoundationBonus = numDelegatesForFoundationBonus a,
     pb_FoundationBonusLastEpoch = foundationBonusLastEpoch a,
     pb_ProductivityThreshold = productivityThreshold a\<rparr>"

definition admin_Deserialize :: "admin_pb \<Rightarrow> admin res" where
  "admin_Deserialize gen =
     bindR (setString ''failed to set block reward'' (pb_BlockReward gen)) (\<lambda>br.
     bindR (setString ''failed to set epoch reward'' (pb_EpochReward gen)) (\<lambda>er.
     bindR (setString ''failed to set bootstrap bonus'' (pb_FoundationBonus gen)) (\<lambda>fb.
     Inr \<lparr>blockReward = br, epochReward = er,
       numDelegatesForEpochReward = pb_NumDelegatesForEpochReward gen, foundationBonus = fb,
       numDelegatesForFoundationBonus = pb_NumDelegatesForFoundationBonus gen,
       foundationBonusLastEpoch = pb_FoundationBonusLastEpoch gen,
       productivityThreshold = pb_ProductivityThreshold gen\<rparr>)))"

definition grantFoundationBonus :: "u64 \<Rightarrow> admin \<Rightarrow> bool" where
  "grantFoundationBonus epoch a \<longleftrightarrow> epoch \<le> foundationBonusLastEpoch a"

section \<open>The two-generation store (rewarding/protocol.go)\<close>

datatype rkey = AdminKey | FundKey | ExemptKey | AccKey addr | BlockHistKey u64 | EpochHistKey u64

datatype rvalue = VAdmin admin | VFund fund | VExempt "addr list" | VAcc int | VHist

type_synonym rstore = "rkey \<rightharpoonup> rvalue"

record reward_world = world +
  rewV1 :: rstore
  rewV2 :: rstore

text \<open>Reading a value into a struct of another type fails to unmarshal.\<close>

definition badValue :: go_error where "badValue = Errorf ''failed to unmarshal''"

fun asAdmin :: "rvalue \<Rightarrow> admin res" where
  "asAdmin (VAdmin a) = Inr a" | "asAdmin _ = Inl badValue"

fun asFund :: "rvalue \<Rightarrow> fund res" where
  "asFund (VFund f) = Inr f" | "asFund _ = Inl badValue"

fun asExempt :: "rvalue \<Rightarrow> addr list res" where
  "asExempt (VExempt e) = Inr e" | "asExempt _ = Inl badValue"

fun asAcc :: "rvalue \<Rightarrow> int res" where
  "asAcc (VAcc b) = Inr b" | "asAcc _ = Inl badValue"

text \<open>\<^verbatim>\<open>rewardHistory.Deserialize\<close> accepts any bytes.\<close>

definition asHist :: "rvalue \<Rightarrow> unit res" where
  "asHist v = Inr ()"

definition useV2Storage :: "ctx \<Rightarrow> bool" where
  "useV2Storage c = UseV2Storage (fCtx c)"

definition stateV1 :: "rkey \<Rightarrow> (rvalue \<Rightarrow> 'v res) \<Rightarrow> 'a reward_world_scheme \<Rightarrow> 'v res" where
  "stateV1 key dec sm = (case rewV1 sm key of None \<Rightarrow> Inl ErrStateNotExist | Some v \<Rightarrow> dec v)"

definition stateV2 :: "rkey \<Rightarrow> (rvalue \<Rightarrow> 'v res) \<Rightarrow> 'a reward_world_scheme \<Rightarrow> 'v res" where
  "stateV2 key dec sm = (case rewV2 sm key of None \<Rightarrow> Inl ErrStateNotExist | Some v \<Rightarrow> dec v)"

text \<open>The value and whether it came from the legacy store.\<close>

definition stateCheckLegacy ::
  "ctx \<Rightarrow> rkey \<Rightarrow> (rvalue \<Rightarrow> 'v res) \<Rightarrow> 'a reward_world_scheme \<Rightarrow> ('v \<times> bool) res" where
  "stateCheckLegacy c key dec sm =
     (if useV2Storage c \<and> stateV2 key dec sm \<noteq> Inl ErrStateNotExist
      then bindR (stateV2 key dec sm) (\<lambda>v. Inr (v, False))
      else bindR (stateV1 key dec sm) (\<lambda>v. Inr (v, True)))"

definition state :: "ctx \<Rightarrow> rkey \<Rightarrow> (rvalue \<Rightarrow> 'v res) \<Rightarrow> 'a reward_world_scheme \<Rightarrow> 'v res" where
  "state c key dec sm = bindR (stateCheckLegacy c key dec sm) (\<lambda>(v, legacy). Inr v)"

definition putStateV1 :: "rkey \<Rightarrow> rvalue \<Rightarrow> ('a reward_world_scheme, unit) op" where
  "putStateV1 key v = modifyS (\<lambda>sm. sm\<lparr>rewV1 := (rewV1 sm)(key \<mapsto> v)\<rparr>)"

definition putStateV2 :: "rkey \<Rightarrow> rvalue \<Rightarrow> ('a reward_world_scheme, unit) op" where
  "putStateV2 key v = modifyS (\<lambda>sm. sm\<lparr>rewV2 := (rewV2 sm)(key \<mapsto> v)\<rparr>)"

definition putState :: "ctx \<Rightarrow> rkey \<Rightarrow> rvalue \<Rightarrow> ('a reward_world_scheme, unit) op" where
  "putState c key v = (if useV2Storage c then putStateV2 key v else putStateV1 key v)"

definition deleteStateV1 :: "rkey \<Rightarrow> ('a reward_world_scheme, unit) op" where
  "deleteStateV1 key = modifyS (\<lambda>sm. sm\<lparr>rewV1 := (rewV1 sm)(key := None)\<rparr>)"

definition deleteStateV2 :: "rkey \<Rightarrow> ('a reward_world_scheme, unit) op" where
  "deleteStateV2 key = modifyS (\<lambda>sm. sm\<lparr>rewV2 := (rewV2 sm)(key := None)\<rparr>)"

definition migrateValue :: "rkey \<Rightarrow> (rvalue \<Rightarrow> 'v res) \<Rightarrow> ('a reward_world_scheme, unit) op" where
  "migrateValue key dec = bindS (readS (stateV1 key (\<lambda>v. bindR (dec v) (\<lambda>_. Inr v)))) (\<lambda>r. case r of
       Inl e \<Rightarrow> if e = ErrStateNotExist then returnS () else failS e
     | Inr v \<Rightarrow> thenS (putStateV2 key v) (deleteStateV1 key))"

definition migrateValueGreenland :: "('a reward_world_scheme, unit) op" where
  "migrateValueGreenland =
     thenS (migrateValue AdminKey asAdmin) (
     thenS (migrateValue FundKey asFund) (migrateValue ExemptKey asExempt))"

section \<open>The fund (rewarding/fund.go)\<close>

definition isZero :: "int option \<Rightarrow> bool" where
  "isZero a \<longleftrightarrow> a = None \<or> length (big_Bytes (the a)) = 0"

definition Deposit ::
  "ctx \<Rightarrow> int option \<Rightarrow> TransactionLogType \<Rightarrow> ('a reward_world_scheme, TransactionLog list) op" where
  "Deposit c amount transactionLogType =
     (if isZero amount then returnS []
      else bindS (LoadAccount (Caller c) (accountCreationOpts c)) (\<lambda>acc.
        bindS (liftS (SubBalance amount acc)) (\<lambda>acc.
        thenS (StoreAccount (Caller c) acc) (
        bindS (\<lambda>sm. (state c FundKey asFund sm, sm)) (\<lambda>f.
        thenS (putState c FundKey (VFund \<lparr>fundTotal = fundTotal f + the amount,
                 fundUnclaimed = fundUnclaimed f + the amount\<rparr>)) (
        returnS [\<lparr>tlType = transactionLogType, tlSender = Acct (Caller c),
          tlRecipient = RewardingPoolAddr, tlAmount = the amount\<rparr>]))))))"

definition TotalBalance :: "ctx \<Rightarrow> 'a reward_world_scheme \<Rightarrow> int res" where
  "TotalBalance c sm = bindR (state c FundKey asFund sm) (\<lambda>f. Inr (fundTotal f))"

definition AvailableBalance :: "ctx \<Rightarrow> 'a reward_world_scheme \<Rightarrow> int res" where
  "AvailableBalance c sm = bindR (state c FundKey asFund sm) (\<lambda>f. Inr (fundUnclaimed f))"

text \<open>\<open>registered\<close> is whether the registry holds a rewarding protocol.\<close>

definition DepositGas ::
  "bool \<Rightarrow> ctx \<Rightarrow> int \<Rightarrow> DepositOptionCfg \<Rightarrow> ('a reward_world_scheme, TransactionLog list) op" where
  "DepositGas registered c amount cfg =
     (if BlockHeight c = 0 \<or> \<not> registered then returnS []
      else bindS (if isZero (Some amount) then returnS [] else Deposit c (Some amount) GAS_FEE) (\<lambda>logs1.
        bindS (if isZero (PriorityFee cfg) then returnS [] else Deposit c (PriorityFee cfg) PRIORITY_FEE) (\<lambda>logs2.
        bindS (if isZero (BlobGasFee cfg) then returnS [] else Deposit c (BlobGasFee cfg) BLOB_FEE) (\<lambda>logs3.
        returnS (logs1 @ logs2 @ logs3)))))"

section \<open>The store a caller sees\<close>

definition view :: "ctx \<Rightarrow> 'a reward_world_scheme \<Rightarrow> rstore" where
  "view c sm = (if useV2Storage c then rewV1 sm ++ rewV2 sm else rewV1 sm)"

lemma as_exists [simp]:
  "asAdmin v \<noteq> Inl ErrStateNotExist" "asFund v \<noteq> Inl ErrStateNotExist"
  "asExempt v \<noteq> Inl ErrStateNotExist" "asAcc v \<noteq> Inl ErrStateNotExist"
  "asHist v \<noteq> Inl ErrStateNotExist"
  by (cases v; simp add: badValue_def asHist_def)+

lemma stateCheckLegacy_view:
  assumes "\<And>v. dec v \<noteq> Inl ErrStateNotExist"
  shows "stateCheckLegacy c key dec sm = (case view c sm key of None \<Rightarrow> Inl ErrStateNotExist
     | Some v \<Rightarrow> bindR (dec v) (\<lambda>x. Inr (x, \<not> useV2Storage c \<or> rewV2 sm key = None)))"
  using assms
  by (auto simp: stateCheckLegacy_def view_def stateV1_def stateV2_def split: option.splits)

lemma bindR_pair_fst [simp]: "bindR (bindR r (\<lambda>x. Inr (x, b))) (\<lambda>(v, legacy). Inr v) = r"
  by (cases r) simp_all

lemma state_view:
  assumes "\<And>v. dec v \<noteq> Inl ErrStateNotExist"
  shows "state c key dec sm = (case view c sm key of None \<Rightarrow> Inl ErrStateNotExist | Some v \<Rightarrow> dec v)"
  by (simp add: state_def stateCheckLegacy_view [OF assms] split: option.splits)

interpretation rewards: kv_store "view c" "putState c" for c
  by unfold_locales
    (auto simp: putState_def putStateV1_def putStateV2_def modifyS_def view_def)

lemma putState_run [run_simps]:
  "putState c key v sm = (Inr u, sm') \<longleftrightarrow>
   sm' = (if useV2Storage c then sm\<lparr>rewV2 := (rewV2 sm)(key \<mapsto> v)\<rparr> else sm\<lparr>rewV1 := (rewV1 sm)(key \<mapsto> v)\<rparr>)"
  by (auto simp: putState_def putStateV1_def putStateV2_def modifyS_def)

lemma putState_frame:
  "putState c key v sm = (r, sm') \<Longrightarrow>
   acctNS sm' = acctNS sm \<and> reward_world.more sm' = reward_world.more sm \<and> smHeight sm' = smHeight sm"
  by (auto simp: putState_def putStateV1_def putStateV2_def modifyS_def split: if_splits)

text \<open>Once a value is in the new store its old copy can go: readers do not see a difference.\<close>

lemma deleteStateV1_view:
  "deleteStateV1 key sm = (r, sm') \<Longrightarrow> useV2Storage c \<Longrightarrow> rewV2 sm key \<noteq> None \<Longrightarrow> view c sm' = view c sm"
  by (auto simp: deleteStateV1_def modifyS_def view_def map_add_def fun_eq_iff split: option.splits)

lemma view_acct [simp]: "view c (sm\<lparr>acctNS := m\<rparr>) = view c sm"
  by (simp add: view_def)

text \<open>The migration at the Greenland fork changes nothing a caller of the new store sees.\<close>

lemma migrateValue_view:
  assumes "migrateValue key dec sm = (Inr u, sm')" "useV2Storage c" "rewV2 sm key = None"
  shows "view c sm' = view c sm"
  using assms
  by (auto simp: migrateValue_def run_simps res_simps stateV1_def putStateV2_def deleteStateV1_def view_def
      map_add_def fun_eq_iff split: option.splits sum.splits if_splits)

section \<open>Depositing into the fund\<close>

definition fundOf :: "ctx \<Rightarrow> 'a reward_world_scheme \<Rightarrow> fund" where
  "fundOf c sm = (case view c sm FundKey of Some (VFund f) \<Rightarrow> f | _ \<Rightarrow> \<lparr>fundTotal = 0, fundUnclaimed = 0\<rparr>)"

definition rewardingPool :: "ctx \<Rightarrow> 'a reward_world_scheme \<Rightarrow> int" where
  "rewardingPool c sm = fundTotal (fundOf c sm)"

definition fundReady :: "ctx \<Rightarrow> 'a reward_world_scheme \<Rightarrow> bool" where
  "fundReady c sm \<longleftrightarrow> (\<exists>f. view c sm FundKey = Some (VFund f))"

lemma state_fund:
  "state c FundKey asFund sm = Inr f \<longleftrightarrow> view c sm FundKey = Some (VFund f)"
proof -
  have "asFund v = Inr f \<longleftrightarrow> v = VFund f" for v by (cases v) auto
  then show ?thesis by (auto simp: state_view split: option.splits)
qed

lemma isZero_iff: "isZero a \<longleftrightarrow> nilZero a = 0"
proof -
  have "big_Bytes i = [] \<longleftrightarrow> i = 0" for i
    using big_SetBytes_Bytes [of i] by (auto simp: big_Bytes_def big_SetBytes_def be_bytes.simps)
  then show ?thesis by (auto simp: isZero_def nilZero_def split: option.splits)
qed

text \<open>
  What a deposit of \<open>x\<close> does: it moves the amount from the caller into both counters of the fund
  and touches nothing else: no other account, no other value of the store, no other component.
\<close>

definition deposited ::
  "ctx \<Rightarrow> int \<Rightarrow> TransactionLog list \<Rightarrow> 'a reward_world_scheme \<Rightarrow> 'a reward_world_scheme \<Rightarrow> bool" where
  "deposited c x logs sm sm' \<longleftrightarrow>
     wf_accounts sm' \<and>
     (\<forall>a. balOf sm' a = balOf sm a - (if a = Caller c then x else 0)) \<and>
     (\<forall>p. netFlow logs p = (if p = RewardingPoolAddr then x else 0) - (if p = Acct (Caller c) then x else 0)) \<and>
     rewardingPool c sm' = rewardingPool c sm + x \<and>
     fundUnclaimed (fundOf c sm') = fundUnclaimed (fundOf c sm) + x \<and>
     (\<forall>key. key \<noteq> FundKey \<longrightarrow> view c sm' key = view c sm key) \<and>
     reward_world.more sm' = reward_world.more sm \<and>
     (fundReady c sm \<longrightarrow> fundReady c sm') \<and>
     (\<forall>a. acctNS sm a \<noteq> None \<longrightarrow> strip (acctNS sm' a) = strip (acctNS sm a))"

lemma deposited_refl: "wf_accounts sm \<Longrightarrow> deposited c 0 [] sm sm"
  by (simp add: deposited_def)

lemma deposited_trans:
  assumes "deposited c x logs sm sm1" "deposited c y logs' sm1 sm2"
  shows "deposited c (x + y) (logs @ logs') sm sm2"
proof -
  have "strip (acctNS sm2 a) = strip (acctNS sm a)" if "acctNS sm a \<noteq> None" for a
  proof -
    have s1: "strip (acctNS sm1 a) = strip (acctNS sm a)" using assms(1) that by (simp add: deposited_def)
    then have "acctNS sm1 a \<noteq> None" using that by (metis strip_simps(2))
    then show ?thesis using assms(2) s1 by (simp add: deposited_def)
  qed
  then show ?thesis using assms by (simp add: deposited_def)
qed

lemma deposited_explains:
  "deposited c x logs sm sm' \<Longrightarrow> explains (rewardingPool c) (g \<circ> reward_world.more) logs sm sm'"
  by (simp add: deposited_def explains_def)

lemma Deposit_run:
  assumes wf: "wf_accounts sm" and run: "Deposit c amount t sm = (Inr logs, sm')"
  shows "deposited c (nilZero amount) logs sm sm' \<and> 0 \<le> nilZero amount"
proof (cases "isZero amount")
  case True
  then have "sm' = sm" "logs = []" "nilZero amount = 0" using run
    by (auto simp: Deposit_def run_simps isZero_iff)
  then show ?thesis using wf by (simp add: deposited_refl)
next
  case False
  then obtain acc0 acc1 f where
    load: "LoadAccountByHash160 sm (Caller c) (creationOpts (CreateLegacyNonceAccount (fCtx c))) = Inr acc0" and
    sub: "SubBalance amount acc0 = Inr acc1" and
    f: "view c sm FundKey = Some (VFund f)" and
    put: "putState c FundKey (VFund \<lparr>fundTotal = fundTotal f + the amount,
            fundUnclaimed = fundUnclaimed f + the amount\<rparr>)
            (sm\<lparr>acctNS := (acctNS sm)(Caller c \<mapsto> acc1)\<rparr>) = (Inr (), sm')" and
    logs: "logs = [\<lparr>tlType = t, tlSender = Acct (Caller c), tlRecipient = RewardingPoolAddr,
            tlAmount = the amount\<rparr>]"
    using run by (auto simp: Deposit_def LoadAccount_run StoreAccount_run bindS_run liftS_run thenS_run
        returnS_run accountCreationOpts_def state_fund)
  from sub obtain x where x: "amount = Some x" "0 \<le> x" "bal acc1 = bal acc0 - x" "acc1 = acc0\<lparr>Balance := Some (bal acc0 - x)\<rparr>"
    by (auto simp: SubBalance_Inr)
  have acc0: "wf_account acc0" "bal acc0 = balOf sm (Caller c)"
    using wf_LoadAccount [OF wf load] by auto
  have V: "view c sm' = (view c sm)(FundKey \<mapsto> VFund \<lparr>fundTotal = fundTotal f + x, fundUnclaimed = fundUnclaimed f + x\<rparr>)"
    using rewards.put_run [OF put] x(1) by simp
  have A: "acctNS sm' = (acctNS sm)(Caller c \<mapsto> acc1)" "reward_world.more sm' = reward_world.more sm"
    using putState_frame [OF put] by simp_all
  have "wf_account acc1" using wf_SubBalance [OF acc0(1) sub] .
  then have "wf_accounts sm'" using wf by (simp add: wf_accounts_def A)
  moreover have "strip (acctNS sm' a) = strip (acctNS sm a)" if "acctNS sm a \<noteq> None" for a
    using that load x(4) by (auto simp: A LoadAccountByHash160_def)
  moreover have "balOf sm' a = balOf sm a - (if a = Caller c then nilZero amount else 0)" for a
    using x acc0 by (simp add: balOf_def A nilZero_def)
  ultimately show ?thesis using f V x(1,2) A(2) logs
    by (auto simp: deposited_def rewardingPool_def fundOf_def fundReady_def nilZero_def)
qed

lemma Deposit_succeeds:
  assumes wf: "wf_accounts sm" "fundReady c sm" "0 \<le> nilZero amount" "nilZero amount \<le> balOf sm (Caller c)"
  shows "\<exists>logs sm'. Deposit c amount t sm = (Inr logs, sm')"
proof (cases "isZero amount")
  case False
  then obtain x where x: "amount = Some x" "0 \<le> x" "x \<le> balOf sm (Caller c)"
    using assms by (auto simp: isZero_def nilZero_def split: option.splits)
  obtain acc where acc: "LoadAccountByHash160 sm (Caller c) (creationOpts (CreateLegacyNonceAccount (fCtx c))) = Inr acc"
    using LoadAccount_total by blast
  have "SubBalance amount acc = Inr (acc\<lparr>Balance := Some (bal acc - x)\<rparr>)"
    using wf_LoadAccount [OF wf(1) acc] x wf_account_Balance [of acc] by (auto simp: SubBalance_Inr)
  moreover obtain f where "view c sm FundKey = Some (VFund f)" using assms(2) by (auto simp: fundReady_def)
  ultimately show ?thesis using acc False
    by (auto simp: Deposit_def op_defs LoadAccount_def StoreAccount_def accountCreationOpts_def state_view
        putState_def putStateV1_def putStateV2_def)
qed (simp add: Deposit_def returnS_def)

lemma DepositGas_run:
  assumes wf: "wf_accounts sm" and run: "DepositGas registered c amount cfg sm = (Inr logs, sm')"
  shows "deposited c (if BlockHeight c \<noteq> 0 \<and> registered then depositTotal amount cfg else 0) logs sm sm'"
proof (cases "BlockHeight c \<noteq> 0 \<and> registered")
  case True
  have step: "deposited c (nilZero a) l s s'"
    if "wf_accounts s" "(if isZero a then returnS [] else Deposit c a t) s = (Inr l, s')" for a t l s s'
    using that Deposit_run [of s c a t l s'] deposited_refl [of s c]
    by (auto simp: isZero_iff returnS_run split: if_splits)
  obtain l1 s1 l2 s2 l3 where r:
    "(if isZero (Some amount) then returnS [] else Deposit c (Some amount) GAS_FEE) sm = (Inr l1, s1)"
    "(if isZero (PriorityFee cfg) then returnS [] else Deposit c (PriorityFee cfg) PRIORITY_FEE) s1 = (Inr l2, s2)"
    "(if isZero (BlobGasFee cfg) then returnS [] else Deposit c (BlobGasFee cfg) BLOB_FEE) s2 = (Inr l3, sm')"
    "logs = (l1 @ l2) @ l3"
    using run True by (auto simp: DepositGas_def bindS_run returnS_run)
  have d1: "deposited c amount l1 sm s1" using step [OF wf r(1)] by (simp add: nilZero_def)
  then have d2: "deposited c (nilZero (PriorityFee cfg)) l2 s1 s2"
    using step [OF _ r(2)] by (simp add: deposited_def)
  then have d3: "deposited c (nilZero (BlobGasFee cfg)) l3 s2 sm'"
    using step [OF _ r(3)] by (simp add: deposited_def)
  show ?thesis using True r(4) deposited_trans [OF deposited_trans [OF d1 d2] d3]
    by (simp add: depositTotal_def)
next
  case False
  then show ?thesis using run deposited_refl [OF wf, of c]
    by (auto simp: DepositGas_def returnS_run)
qed

lemma DepositGas_succeeds:
  assumes wf: "wf_accounts sm" and ready: "fundReady c sm" and pos: "0 \<le> amount"
    "0 \<le> nilZero (PriorityFee cfg)" "0 \<le> nilZero (BlobGasFee cfg)"
    and enough: "depositTotal amount cfg \<le> balOf sm (Caller c)"
  shows "\<exists>logs sm'. DepositGas registered c amount cfg sm = (Inr logs, sm')"
proof (cases "BlockHeight c \<noteq> 0 \<and> registered")
  case True
  let ?step = "\<lambda>a t. if isZero a then returnS [] else Deposit c a t"
  have step: "\<exists>l s'. ?step a t s = (Inr l, s') \<and> wf_accounts s' \<and> fundReady c s' \<and>
        balOf s' (Caller c) = balOf s (Caller c) - nilZero a"
    if s: "wf_accounts s" "fundReady c s" "0 \<le> nilZero a" "nilZero a \<le> balOf s (Caller c)" for a t s
  proof (cases "isZero a")
    case False
    with Deposit_succeeds [OF s, of t] obtain l s' where r: "?step a t s = (Inr l, s')" by auto
    then show ?thesis using Deposit_run [OF s(1), of c a t l s'] False s(2) by (auto simp: deposited_def)
  qed (use s in \<open>auto simp: isZero_iff returnS_def\<close>)
  have tot: "amount + nilZero (PriorityFee cfg) + nilZero (BlobGasFee cfg) \<le> balOf sm (Caller c)"
    using enough by (simp add: depositTotal_def)
  obtain l1 s1 where 1: "?step (Some amount) GAS_FEE sm = (Inr l1, s1)" "wf_accounts s1" "fundReady c s1"
      "balOf s1 (Caller c) = balOf sm (Caller c) - amount"
    using step [of sm "Some amount" GAS_FEE] wf ready pos tot by (auto simp: nilZero_def)
  obtain l2 s2 where 2: "?step (PriorityFee cfg) PRIORITY_FEE s1 = (Inr l2, s2)" "wf_accounts s2" "fundReady c s2"
      "balOf s2 (Caller c) = balOf s1 (Caller c) - nilZero (PriorityFee cfg)"
    using step [of s1 "PriorityFee cfg" PRIORITY_FEE] 1 pos tot by auto
  obtain l3 s3 where 3: "?step (BlobGasFee cfg) BLOB_FEE s2 = (Inr l3, s3)"
    using step [of s2 "BlobGasFee cfg" BLOB_FEE] 1 2 pos tot by auto
  show ?thesis using True 1(1) 2(1) 3 by (simp add: DepositGas_def bindS_def returnS_def)
qed (auto simp: DepositGas_def returnS_def)

lemma Deposit_rest: "Deposit c amount t sm = (r, sm') \<Longrightarrow> reward_world.more sm' = reward_world.more sm"
  by (auto simp: Deposit_def op_defs LoadAccount_def StoreAccount_def putState_def putStateV1_def
      putStateV2_def split: if_splits sum.splits prod.splits)

lemma DepositGas_rest:
  "DepositGas registered c amount cfg sm = (r, sm') \<Longrightarrow> reward_world.more sm' = reward_world.more sm"
  by (auto simp: DepositGas_def bindS_def returnS_def split: if_splits sum.splits prod.splits
      dest!: Deposit_rest)

text \<open>The rewarding fund keeps the contract the handlers rely on.\<close>

interpretation fundGas: gas_deposit "DepositGas registered" rewardingPool "reward_world.more"
    "\<lambda>c. BlockHeight c \<noteq> 0 \<and> registered" fundReady for registered
proof (unfold_locales, goal_cases)
  case (1 sm c amount cfg logs sm')
  then show ?case using DepositGas_run [OF 1] by (simp add: deposited_def)
next
  case (2 sm c amount cfg logs sm' g)
  then show ?case using deposited_explains [OF DepositGas_run [OF 2]] by simp
next
  case (3 sm c amount cfg logs sm' a)
  then show ?case using DepositGas_run [OF 3] by (simp add: deposited_def)
next
  case (4 sm c amount cfg logs sm' a)
  then show ?case using DepositGas_run [OF 4(1,2)] by (simp add: deposited_def)
next
  case (5 sm c amount cfg)
  then show ?case by (rule DepositGas_succeeds)
qed (auto simp: rewardingPool_def fundOf_def fundReady_def dest: DepositGas_rest)

section \<open>Transfers on top of the fund\<close>

text \<open>
  Property C1.  A transfer conserves the supply, at every height and on every branch that returns
  a receipt (success, and the failure for a contract recipient): the transaction logs of the
  receipt explain the change of every account and of the rewarding pool, so the accounts and the
  pool together hold what they held before, and no balance becomes negative.  The base fee is part of
  what is conserved: \<^verbatim>\<open>DepositGas\<close> puts it into the rewarding pool like the priority fee, although the
  comments of \<^verbatim>\<open>protocol.go\<close> (lines 112 and 230) say that it is burnt.
\<close>

theorem transfer_conserves:
  assumes "wf_accounts sm" and "BlockHeight c \<noteq> 0"
    and "handleTransfer (Some (DepositGas True)) c tsf sm = (Inr r, sm')"
  shows "wf_accounts sm' \<and>
    (\<forall>a. balOf sm' a = balOf sm a + netFlow (transactionLogs r) (Acct a)) \<and>
    rewardingPool c sm' = rewardingPool c sm + netFlow (transactionLogs r) RewardingPoolAddr \<and>
    totalBalance sm' + rewardingPool c sm' = totalBalance sm + rewardingPool c sm"
proof -
  note e = fundGas.handleTransfer_explains [OF assms(1) _ assms(3), where g = "\<lambda>_. 0"]
  have e: "wf_accounts sm'" "explains (rewardingPool c) ((\<lambda>_. 0) \<circ> reward_world.more) (transactionLogs r) sm sm'"
    using e assms(2) by auto
  then show ?thesis using explains_conserves [OF e(2)] assms(1) by (auto simp: explains_def wf_accounts_def)
qed

text \<open>
  Property C2.  After the forks that fixed the charging of gas and the update of nonces
  (\<open>FixDoubleChargeGas\<close>, \<open>FixGasAndNonceUpdate\<close>), with a rewarding fund that can take the fees, a transfer
  of an amount the sender can pay together with the fees, with the sender's next nonce, not at the very
  end of the 64 bits, and to a recipient that is not a contract, succeeds: the recipient receives
  the amount, the sender pays amount and fees, no other balance changes, and the sender's next
  nonce is one higher.  (To a contract the receipt is a failure, which only costs the fees.)
\<close>

theorem transfer_succeeds:
  assumes wf: "wf_accounts sm" and forks: "FixDoubleChargeGas (fCtx c)" "FixGasAndNonceUpdate (fCtx c)"
    and fund: "fundReady c sm" "BlockHeight c \<noteq> 0"
    and gas: "splitGas c (tsfPrice tsf) (IntrinsicGas c) = Inr (priorityFee, baseFee)"
    and fees: "0 \<le> priorityFee" "0 \<le> baseFee" "0 \<le> tsfAmount tsf"
      "tsfAmount tsf + priorityFee + baseFee \<le> balOf sm (Caller c)"
    and sender: "acctNS sm (Caller c) = Some sender" "PendingNonce sender = Inr (tsfNonce tsf)"
      "unat (nonce sender) + 2 < 2 ^ 64"
    and a: "recipientOf c tsf = Inr a" and plain: "\<And>acc. acctNS sm a = Some acc \<Longrightarrow> \<not> IsContract acc"
  shows "\<exists>r sm'. handleTransfer (Some (DepositGas True)) c tsf sm = (Inr r, sm') \<and> Status r = RS_Success \<and>
    (\<forall>x. balOf sm' x = balOf sm x - (if x = Caller c then tsfAmount tsf + baseFee + priorityFee else 0)
       + (if x = a then tsfAmount tsf else 0)) \<and>
    (\<exists>acc. acctNS sm' (Caller c) = Some acc \<and> PendingNonce acc = Inr (tsfNonce tsf + 1))"
proof -
  obtain r sm' where run: "handleTransfer (Some (DepositGas True)) c tsf sm = (Inr r, sm')" "Status r = RS_Success"
    using fundGas.handleTransfer_succeeds [OF wf forks fund(1) gas fees sender a plain] by blast
  show ?thesis
    using run fundGas.handleTransfer_pays [OF wf forks(1) run] a gas forks(2) fund(2)
    by (intro exI [of _ r] exI [of _ sm']) auto
qed

text \<open>A concrete block after the Wake fork and a state with one account, for the witnesses.\<close>

definition exCtx :: ctx where
  "exCtx = \<lparr>Caller = 1, IntrinsicGas = 10000, actNonce = 5, GasPrice = 1000000000000, ReadOnly = False, BlockHeight = 40000000,
     BlockTimeStamp = 1700000000000000000, BaseFee = Some 1000000000000, Producer = 9, AccumulatedTips = 0,
     fCtx = WithFeatureCtx defaultConfig 40000000, CandCenterHasAlias = CandCenterHasAliasAt defaultConfig\<rparr>"

definition exAccount :: account where
  "exAccount = \<lparr>nonce = 5, Balance = Some 1000000000000000000, Root = replicate 32 0, CodeHash = [],
     isCandidate = False, votingWeight = Some 0, accountType = 1\<rparr>"

definition exWorld :: reward_world where
  "exWorld = \<lparr>acctNS = [1 \<mapsto> exAccount], smHeight = 39999999, rewV1 = Map.empty,
     rewV2 = [FundKey \<mapsto> VFund \<lparr>fundTotal = 500, fundUnclaimed = 300\<rparr>]\<rparr>"

definition exTransfer :: Transfer where
  "exTransfer = \<lparr>tsfAmount = 70000, tsfRecipient = Inr 2, tsfRecipientLegacy = Inr 2,
     tsfPrice = DynamicPrice (Some 2000000000000) (Some 5), tsfNonce = 5, tsfSize = 200\<rparr>"

lemma exWorld_wf: "wf_accounts exWorld" "fundReady exCtx exWorld" "acctNS exWorld 1 = Some exAccount"
  "acctNS exWorld 2 = None" "balOf exWorld 1 = 1000000000000000000"
proof -
  have "useV2Storage exCtx" by code_simp
  then show "fundReady exCtx exWorld" by (simp add: fundReady_def exWorld_def view_def)
qed (auto simp: wf_accounts_def wf_account_def exWorld_def exAccount_def known_account_type_def balOf_def bal_def
    split: if_splits)

lemma exCtx_facts:
  "FixDoubleChargeGas (fCtx exCtx)" "FixGasAndNonceUpdate (fCtx exCtx)" "BlockHeight exCtx \<noteq> 0"
  "splitGas exCtx (tsfPrice exTransfer) (IntrinsicGas exCtx) = Inr (50000, 10000000000000000)"
  "Caller exCtx = 1" "recipientOf exCtx exTransfer = Inr 2"
  "PendingNonce exAccount = Inr (tsfNonce exTransfer)" "nonce exAccount = 5"
  "tsfAmount exTransfer = 70000"
  by code_simp+

lemma ex_transfer_runs:
  "\<exists>r sm'. handleTransfer (Some (DepositGas True)) exCtx exTransfer exWorld = (Inr r, sm') \<and> Status r = RS_Success"
  by (rule fundGas.handleTransfer_succeeds [OF exWorld_wf(1) exCtx_facts(1,2) exWorld_wf(2) exCtx_facts(4),
      where sender = exAccount and a = 2])
     (simp_all add: exCtx_facts exWorld_wf)

theorem transfer_conserves_witness:
  "\<exists>r sm'. handleTransfer (Some (DepositGas True)) exCtx exTransfer exWorld = (Inr r, sm') \<and>
    Status r = RS_Success \<and>
    totalBalance sm' + rewardingPool exCtx sm' = totalBalance exWorld + rewardingPool exCtx exWorld"
  using ex_transfer_runs transfer_conserves [OF exWorld_wf(1) exCtx_facts(3)] by fastforce

theorem transfer_succeeds_witness:
  "\<exists>r sm'. handleTransfer (Some (DepositGas True)) exCtx exTransfer exWorld = (Inr r, sm') \<and>
    Status r = RS_Success \<and> balOf sm' 2 = 70000"
proof -
  have "balOf exWorld 2 = 0" by (simp add: balOf_def exWorld_wf)
  then show ?thesis
    using transfer_succeeds [OF exWorld_wf(1) exCtx_facts(1,2) exWorld_wf(2) exCtx_facts(3,4), of exAccount 2]
    by (auto simp: exCtx_facts exWorld_wf)
qed

end
