(* ===== verification/StakingState.thy ===== *)
theory StakingState
  imports RewardFund CandidateCenter
begin

text \<open>
  The state of native staking and its primitive operations: vote buckets
  (\<^verbatim>\<open>vote_bucket.go\<close>), the bucket pool (\<^verbatim>\<open>bucket_pool.go\<close>), bucket indices
  (\<^verbatim>\<open>bucket_index.go\<close>), endorsements (\<^verbatim>\<open>endorsement.go\<close>, \<^verbatim>\<open>endorsement_statemanager.go\<close>), the
  candidate state manager and reader (\<^verbatim>\<open>candidate_statemanager.go\<close>, \<^verbatim>\<open>candidate_statereader.go\<close>)
  and the snapshots of the view (\<^verbatim>\<open>viewdata.go\<close>), all under \<^verbatim>\<open>action/protocol/staking\<close>.

  The namespaces of the state manager are maps; the candidate center and the bucket pool of the
  view are part of the same state, as the candidate state manager shares them with the view.
  \<^verbatim>\<open>PutState\<close> serializes a bucket and \<^verbatim>\<open>State\<close> deserializes it: \<open>reload\<close> is what the round trip makes
  of a bucket (the duration is stored in days, an amount that is not positive cannot be read).
  Reads of the database fail only because a key is missing.
\<close>

section \<open>Vote buckets (vote_bucket.go)\<close>

text \<open>A \<^verbatim>\<open>time.Duration\<close> is a 64-bit integer of nanoseconds, a \<^verbatim>\<open>time.Time\<close> an unbounded one.\<close>

record VoteBucket =
  vbIndex :: u64
  vbCandidate :: addr
  vbOwner :: addr
  vbStakedAmount :: int
  vbStakedDuration :: u64
  vbCreateTime :: int
  vbStakeStartTime :: int
  vbUnstakeStartTime :: int
  vbAutoStake :: bool
  vbContractAddress :: string
  vbStakedDurationBlockNumber :: u64
  vbCreateBlockHeight :: u64
  vbStakeStartBlockHeight :: u64
  vbUnstakeStartBlockHeight :: u64
  vbTimestamped :: bool

text \<open>\<^verbatim>\<open>time.Duration(days) * 24 * time.Hour\<close>, and back with Go's truncating division.\<close>

definition durationOfDays :: "u32 \<Rightarrow> u64" where
  "durationOfDays d = ucast d * 24 * 3600000000000"

definition daysOfDuration :: "u64 \<Rightarrow> u32" where
  "daysOfDuration d = word_of_int (go_quot (go_quot (sint d) 24) 3600000000000)"

definition NewVoteBucket :: "addr \<Rightarrow> addr \<Rightarrow> int \<Rightarrow> u32 \<Rightarrow> int \<Rightarrow> bool \<Rightarrow> VoteBucket" where
  "NewVoteBucket cand owner amount duration ctime autoStake =
     \<lparr>vbIndex = 0, vbCandidate = cand, vbOwner = owner, vbStakedAmount = amount,
      vbStakedDuration = durationOfDays duration, vbCreateTime = ctime, vbStakeStartTime = ctime,
      vbUnstakeStartTime = 0, vbAutoStake = autoStake, vbContractAddress = [],
      vbStakedDurationBlockNumber = 0, vbCreateBlockHeight = 0, vbStakeStartBlockHeight = 0,
      vbUnstakeStartBlockHeight = 0, vbTimestamped = False\<rparr>"

definition isNative :: "VoteBucket \<Rightarrow> bool" where
  "isNative vb \<longleftrightarrow> vbContractAddress vb = []"

definition MaxDurationNumber :: u64 where "MaxDurationNumber = 18446744073709551615"

definition isUnstaked :: "VoteBucket \<Rightarrow> bool" where
  "isUnstaked vb =
     (if isNative vb \<or> vbTimestamped vb then vbUnstakeStartTime vb > vbStakeStartTime vb
      else vbUnstakeStartBlockHeight vb < MaxDurationNumber)"

text \<open>The protobuf form; a timestamp is its seconds and nanoseconds.\<close>

record bucket_pb =
  bpb_Index :: u64
  bpb_CandidateAddress :: string
  bpb_Owner :: string
  bpb_StakedAmount :: string
  bpb_StakedDuration :: u32
  bpb_CreateTime :: "int \<times> int"
  bpb_StakeStartTime :: "int \<times> int"
  bpb_UnstakeStartTime :: "int \<times> int"
  bpb_AutoStake :: bool
  bpb_ContractAddress :: string
  bpb_StakedDurationBlockNumber :: u64
  bpb_CreateBlockHeight :: u64
  bpb_StakeStartBlockHeight :: u64
  bpb_UnstakeStartBlockHeight :: u64

definition bucket_toProto :: "(addr \<Rightarrow> string) \<Rightarrow> VoteBucket \<Rightarrow> bucket_pb" where
  "bucket_toProto addrString vb =
     \<lparr>bpb_Index = vbIndex vb, bpb_CandidateAddress = addrString (vbCandidate vb),
      bpb_Owner = addrString (vbOwner vb), bpb_StakedAmount = big_String (vbStakedAmount vb),
      bpb_StakedDuration = daysOfDuration (vbStakedDuration vb),
      bpb_CreateTime = timestamppb (vbCreateTime vb), bpb_StakeStartTime = timestamppb (vbStakeStartTime vb),
      bpb_UnstakeStartTime = timestamppb (vbUnstakeStartTime vb), bpb_AutoStake = vbAutoStake vb,
      bpb_ContractAddress = vbContractAddress vb,
      bpb_StakedDurationBlockNumber = vbStakedDurationBlockNumber vb,
      bpb_CreateBlockHeight = vbCreateBlockHeight vb, bpb_StakeStartBlockHeight = vbStakeStartBlockHeight vb,
      bpb_UnstakeStartBlockHeight = vbUnstakeStartBlockHeight vb\<rparr>"

definition bucket_fromProto :: "(string \<Rightarrow> addr res) \<Rightarrow> bucket_pb \<Rightarrow> VoteBucket res" where
  "bucket_fromProto FromString pb =
     bindR (case big_SetString (bpb_StakedAmount pb) of None \<Rightarrow> Inl ErrInvalidAmount | Some v \<Rightarrow> Inr v) (\<lambda>vote.
     bindR (checkR (0 < vote) ErrInvalidAmount) (\<lambda>_.
     bindR (FromString (bpb_CandidateAddress pb)) (\<lambda>candAddr.
     bindR (FromString (bpb_Owner pb)) (\<lambda>ownerAddr.
     bindR (CheckValid (bpb_CreateTime pb)) (\<lambda>_.
     bindR (CheckValid (bpb_StakeStartTime pb)) (\<lambda>_.
     bindR (CheckValid (bpb_UnstakeStartTime pb)) (\<lambda>_.
     Inr \<lparr>vbIndex = bpb_Index pb, vbCandidate = candAddr, vbOwner = ownerAddr, vbStakedAmount = vote,
       vbStakedDuration = durationOfDays (bpb_StakedDuration pb), vbCreateTime = AsTime (bpb_CreateTime pb),
       vbStakeStartTime = AsTime (bpb_StakeStartTime pb), vbUnstakeStartTime = AsTime (bpb_UnstakeStartTime pb),
       vbAutoStake = bpb_AutoStake pb, vbContractAddress = bpb_ContractAddress pb,
       vbStakedDurationBlockNumber = bpb_StakedDurationBlockNumber pb,
       vbCreateBlockHeight = bpb_CreateBlockHeight pb, vbStakeStartBlockHeight = bpb_StakeStartBlockHeight pb,
       vbUnstakeStartBlockHeight = bpb_UnstakeStartBlockHeight pb, vbTimestamped = False\<rparr>)))))))"

text \<open>What reading a stored bucket gives, addresses aside.\<close>

definition reload :: "VoteBucket \<Rightarrow> VoteBucket res" where
  "reload vb =
     bindR (checkR (0 < vbStakedAmount vb) ErrInvalidAmount) (\<lambda>_.
     bindR (CheckValid (timestamppb (vbCreateTime vb))) (\<lambda>_.
     bindR (CheckValid (timestamppb (vbStakeStartTime vb))) (\<lambda>_.
     bindR (CheckValid (timestamppb (vbUnstakeStartTime vb))) (\<lambda>_.
     Inr (vb\<lparr>vbStakedDuration := durationOfDays (daysOfDuration (vbStakedDuration vb)),
             vbTimestamped := False\<rparr>)))))"

section \<open>The bucket pool (bucket_pool.go)\<close>

record totalAmount =
  tAmount :: int
  tCount :: u64

record BucketPool =
  enableSMStorage :: bool
  pool_dirty :: bool
  total :: totalAmount

definition totalAmount_AddBalance :: "int \<Rightarrow> bool \<Rightarrow> totalAmount \<Rightarrow> totalAmount" where
  "totalAmount_AddBalance amount newBucket t =
     \<lparr>tAmount = tAmount t + amount, tCount = (if newBucket then tCount t + 1 else tCount t)\<rparr>"

definition totalAmount_SubBalance :: "int \<Rightarrow> bool \<Rightarrow> totalAmount \<Rightarrow> totalAmount res" where
  "totalAmount_SubBalance amount deleteBucket t =
     (if amount > tAmount t \<or> tCount t = 0 then Inl ErrNotEnoughBalance
      else Inr \<lparr>tAmount = tAmount t - amount, tCount = (if deleteBucket then tCount t - 1 else tCount t)\<rparr>)"

text \<open>The stored form of the total is its decimal amount and its count; a negative one is refused.\<close>

definition totalAmount_Serialize :: "totalAmount \<Rightarrow> string \<times> u64" where
  "totalAmount_Serialize t = (big_String (tAmount t), tCount t)"

definition totalAmount_Deserialize :: "string \<times> u64 \<Rightarrow> totalAmount res" where
  "totalAmount_Deserialize d =
     (case big_SetString (fst d) of None \<Rightarrow> Inl (Errorf ''failed to deserialize state'')
      | Some a \<Rightarrow> if a < 0 then Inl ErrNotEnoughBalance else Inr \<lparr>tAmount = a, tCount = snd d\<rparr>)"

section \<open>The state\<close>

record Snapshot =
  snSize :: nat
  snChanges :: nat
  snAmount :: int
  snCount :: u64

record staking_state =
  bucketNS :: "u64 \<rightharpoonup> VoteBucket"
  totalBucket :: "u64 option"
  voterIdxNS :: "addr \<rightharpoonup> u64 list"
  candIdxNS :: "addr \<rightharpoonup> u64 list"
  poolNS :: "totalAmount option"
  candNS :: "addr \<rightharpoonup> Candidate"
  endorseNS :: "u64 \<rightharpoonup> u64"
  candCenter :: CandidateCenter
  bucketPool :: BucketPool
  snapshots :: "Snapshot list"

record staking_world = reward_world +
  stk :: staking_state

text \<open>An operation of the candidate state manager, run on the world.\<close>

definition onStk :: "(staking_state, 'x) op \<Rightarrow> ('a staking_world_scheme, 'x) op" where
  "onStk m sm = (case m (stk sm) of (r, s) \<Rightarrow> (r, sm\<lparr>stk := s\<rparr>))"

definition NativeBucket :: "staking_state \<Rightarrow> u64 \<Rightarrow> VoteBucket res" where
  "NativeBucket s index =
     (case bucketNS s index of None \<Rightarrow> Inl ErrStateNotExist | Some vb \<Rightarrow> reload vb)"

definition NumOfNativeBucket :: "staking_state \<Rightarrow> u64 res" where
  "NumOfNativeBucket s = (case totalBucket s of None \<Rightarrow> Inl ErrStateNotExist | Some n \<Rightarrow> Inr n)"

text \<open>All buckets, from the index zero to the count, withdrawn ones left out.\<close>

fun readBuckets :: "staking_state \<Rightarrow> u64 list \<Rightarrow> VoteBucket list res" where
  "readBuckets s [] = Inr []"
| "readBuckets s (i # is) = (case bucketNS s i of None \<Rightarrow> readBuckets s is
     | Some vb \<Rightarrow> bindR (reload vb) (\<lambda>b. bindR (readBuckets s is) (\<lambda>bs. Inr (b # bs))))"

definition NativeBuckets :: "staking_state \<Rightarrow> VoteBucket list res" where
  "NativeBuckets s = bindR (NumOfNativeBucket s) (\<lambda>count. readBuckets s (map of_nat [0..<unat count]))"

text \<open>The pool of a view that is created from the state: the stored total, or the sum of the buckets.\<close>

fun sumBuckets :: "int \<Rightarrow> VoteBucket list \<Rightarrow> int res" where
  "sumBuckets acc [] = Inr acc"
| "sumBuckets acc (v # vs) =
     (if vbStakedAmount v \<le> 0 then Inl ErrNotEnoughBalance else sumBuckets (acc + vbStakedAmount v) vs)"

definition poolFromBuckets :: "bool \<Rightarrow> staking_state \<Rightarrow> BucketPool res" where
  "poolFromBuckets enable s =
     bindR (case NativeBuckets s of Inl e \<Rightarrow> if e = ErrStateNotExist then Inr [] else Inl e | Inr bs \<Rightarrow> Inr bs) (\<lambda>all.
     bindR (sumBuckets 0 all) (\<lambda>amount.
     Inr \<lparr>enableSMStorage = enable, pool_dirty = False, total = \<lparr>tAmount = amount, tCount = of_nat (length all)\<rparr>\<rparr>))"

definition NewBucketPool :: "bool \<Rightarrow> staking_state \<Rightarrow> BucketPool res" where
  "NewBucketPool enable s =
     (case (if enable then poolNS s else None) of
        Some t \<Rightarrow> bindR (totalAmount_Deserialize (totalAmount_Serialize t)) (\<lambda>t.
          Inr \<lparr>enableSMStorage = enable, pool_dirty = False, total = t\<rparr>)
      | None \<Rightarrow> poolFromBuckets enable s)"

section \<open>Writing buckets and indices (candidate_statemanager.go, bucket_index.go)\<close>

definition updateBucket :: "u64 \<Rightarrow> VoteBucket \<Rightarrow> (staking_state, unit) op" where
  "updateBucket index bucket =
     bindS (\<lambda>s. (NativeBucket s index, s)) (\<lambda>_.
     modifyS (\<lambda>s. s\<lparr>bucketNS := (bucketNS s)(index \<mapsto> bucket)\<rparr>))"

definition putBucket :: "VoteBucket \<Rightarrow> (staking_state, u64) op" where
  "putBucket bucket =
     bindS (readS (\<lambda>s. case totalBucket s of None \<Rightarrow> 0 | Some n \<Rightarrow> n)) (\<lambda>index.
     thenS (modifyS (\<lambda>s. s\<lparr>bucketNS := (bucketNS s)(index \<mapsto> bucket\<lparr>vbIndex := index\<rparr>)\<rparr>)) (
     thenS (modifyS (\<lambda>s. s\<lparr>totalBucket := Some (index + 1)\<rparr>)) (
     returnS index)))"

definition delBucket :: "u64 \<Rightarrow> (staking_state, unit) op" where
  "delBucket index = modifyS (\<lambda>s. s\<lparr>bucketNS := (bucketNS s)(index := None)\<rparr>)"

definition addBucketIndex :: "u64 \<Rightarrow> u64 list \<Rightarrow> u64 list" where
  "addBucketIndex index bis = bis @ [index]"

fun deleteBucketIndex :: "u64 \<Rightarrow> u64 list \<Rightarrow> u64 list" where
  "deleteBucketIndex index [] = []"
| "deleteBucketIndex index (b # bis) = (if b = index then bis else b # deleteBucketIndex index bis)"

text \<open>\<^verbatim>\<open>putBucketIndex\<close> and \<^verbatim>\<open>delBucketIndex\<close> on the indices under one prefix.\<close>

definition putIndex :: "addr \<Rightarrow> u64 \<Rightarrow> (addr \<rightharpoonup> u64 list) \<Rightarrow> (addr \<rightharpoonup> u64 list)" where
  "putIndex a index m = m(a \<mapsto> addBucketIndex index (case m a of None \<Rightarrow> [] | Some bis \<Rightarrow> bis))"

definition delIndex :: "addr \<Rightarrow> u64 \<Rightarrow> (addr \<rightharpoonup> u64 list) \<Rightarrow> (addr \<rightharpoonup> u64 list) res" where
  "delIndex a index m =
     (case m a of None \<Rightarrow> Inl ErrStateNotExist
      | Some bis \<Rightarrow> let bis = deleteBucketIndex index bis
          in Inr (if length bis = 0 then m(a := None) else m(a \<mapsto> bis)))"

definition putVoterBucketIndex :: "addr \<Rightarrow> u64 \<Rightarrow> (staking_state, unit) op" where
  "putVoterBucketIndex a index = modifyS (\<lambda>s. s\<lparr>voterIdxNS := putIndex a index (voterIdxNS s)\<rparr>)"

definition putCandBucketIndex :: "addr \<Rightarrow> u64 \<Rightarrow> (staking_state, unit) op" where
  "putCandBucketIndex a index = modifyS (\<lambda>s. s\<lparr>candIdxNS := putIndex a index (candIdxNS s)\<rparr>)"

definition delVoterBucketIndex :: "addr \<Rightarrow> u64 \<Rightarrow> (staking_state, unit) op" where
  "delVoterBucketIndex a index =
     bindS (\<lambda>s. (delIndex a index (voterIdxNS s), s)) (\<lambda>m. modifyS (\<lambda>s. s\<lparr>voterIdxNS := m\<rparr>))"

definition delCandBucketIndex :: "addr \<Rightarrow> u64 \<Rightarrow> (staking_state, unit) op" where
  "delCandBucketIndex a index =
     bindS (\<lambda>s. (delIndex a index (candIdxNS s), s)) (\<lambda>m. modifyS (\<lambda>s. s\<lparr>candIdxNS := m\<rparr>))"

definition putBucketAndIndex :: "VoteBucket \<Rightarrow> (staking_state, u64) op" where
  "putBucketAndIndex bucket =
     bindS (putBucket bucket) (\<lambda>index.
     thenS (putVoterBucketIndex (vbOwner bucket) index) (
     thenS (putCandBucketIndex (vbCandidate bucket) index) (
     returnS index)))"

definition delBucketAndIndex :: "addr \<Rightarrow> addr \<Rightarrow> u64 \<Rightarrow> (staking_state, unit) op" where
  "delBucketAndIndex owner cand index =
     thenS (delBucket index) (
     thenS (delVoterBucketIndex owner index) (
     delCandBucketIndex cand index))"

section \<open>Candidates and the pool of the candidate state manager\<close>

definition csmUpsert :: "Candidate \<Rightarrow> (staking_state, unit) op" where
  "csmUpsert d =
     bindS (\<lambda>s. (Upsert d (candCenter s), s)) (\<lambda>cc.
     thenS (modifyS (\<lambda>s. s\<lparr>candCenter := cc\<rparr>)) (
     modifyS (\<lambda>s. s\<lparr>candNS := (candNS s)(GetIdentifier d \<mapsto> d)\<rparr>)))"

text \<open>A pool without state manager storage is only marked dirty.\<close>

definition storePool :: "(staking_state, unit) op" where
  "storePool = modifyS (\<lambda>s. if \<not> enableSMStorage (bucketPool s)
     then s\<lparr>bucketPool := (bucketPool s)\<lparr>pool_dirty := True\<rparr>\<rparr>
     else s\<lparr>poolNS := Some (total (bucketPool s))\<rparr>)"

definition CreditPool :: "int \<Rightarrow> bool \<Rightarrow> (staking_state, unit) op" where
  "CreditPool amount deleteBucket =
     bindS (\<lambda>s. (totalAmount_SubBalance amount deleteBucket (total (bucketPool s)), s)) (\<lambda>t.
     thenS (modifyS (\<lambda>s. s\<lparr>bucketPool := (bucketPool s)\<lparr>total := t\<rparr>\<rparr>)) storePool)"

definition DebitPool :: "int \<Rightarrow> bool \<Rightarrow> (staking_state, unit) op" where
  "DebitPool amount newBucket =
     thenS (modifyS (\<lambda>s. s\<lparr>bucketPool := (bucketPool s)\<lparr>total :=
       totalAmount_AddBalance amount newBucket (total (bucketPool s))\<rparr>\<rparr>)) storePool"

section \<open>Endorsements (endorsement.go, endorsement_statemanager.go)\<close>

datatype EndorsementStatus = EndorseExpired | UnEndorsing | Endorsed

definition endorsementNotExpireHeight :: u64 where
  "endorsementNotExpireHeight = 18446744073709551615"

definition endorsement_LegacyStatus :: "u64 \<Rightarrow> u64 \<Rightarrow> EndorsementStatus" where
  "endorsement_LegacyStatus expireHeight height =
     (if expireHeight = endorsementNotExpireHeight then Endorsed
      else if height \<ge> expireHeight then EndorseExpired else UnEndorsing)"

definition endorsement_Status :: "u64 \<Rightarrow> u64 \<Rightarrow> EndorsementStatus" where
  "endorsement_Status expireHeight height = (if height < expireHeight then Endorsed else UnEndorsing)"

definition esmStatus :: "FeatureCtx \<Rightarrow> staking_state \<Rightarrow> u64 \<Rightarrow> u64 \<Rightarrow> EndorsementStatus" where
  "esmStatus f s bucketIndex height =
     (case endorseNS s bucketIndex of
        Some e \<Rightarrow> (if EnforceLegacyEndorsement f then endorsement_LegacyStatus e height
                  else endorsement_Status e height)
      | None \<Rightarrow> EndorseExpired)"

definition esmPut :: "u64 \<Rightarrow> u64 \<Rightarrow> (staking_state, unit) op" where
  "esmPut bucketIndex expireHeight = modifyS (\<lambda>s. s\<lparr>endorseNS := (endorseNS s)(bucketIndex \<mapsto> expireHeight)\<rparr>)"

definition esmDelete :: "u64 \<Rightarrow> (staking_state, unit) op" where
  "esmDelete bucketIndex = modifyS (\<lambda>s. s\<lparr>endorseNS := (endorseNS s)(bucketIndex := None)\<rparr>)"

interpretation endorsements: kv_store_del endorseNS esmPut esmDelete
  by unfold_locales (simp_all add: esmPut_def esmDelete_def modifyS_def)

section \<open>Self-stake buckets (util.go)\<close>

definition isSelfOwnedBucket :: "staking_state \<Rightarrow> VoteBucket \<Rightarrow> bool" where
  "isSelfOwnedBucket s bucket =
     (case GetByIdentifier (vbCandidate bucket) (candCenter s) of
        None \<Rightarrow> False | Some cand \<Rightarrow> vbOwner bucket = cOwner cand)"

definition isSelfStakeBucket :: "FeatureCtx \<Rightarrow> u64 \<Rightarrow> staking_state \<Rightarrow> VoteBucket \<Rightarrow> bool" where
  "isSelfStakeBucket f height s bucket =
     (let selfStake = ContainsSelfStakingBucket (vbIndex bucket) (candCenter s)
      in if DisableDelegateEndorsement f \<or> \<not> selfStake then selfStake
         else if isSelfOwnedBucket s bucket then \<not> isUnstaked bucket
         else esmStatus f s (vbIndex bucket) height \<noteq> EndorseExpired)"

section \<open>Snapshots of the view (viewdata.go)\<close>

definition viewSnapshot :: "(staking_state, nat) op" where
  "viewSnapshot =
     bindS (readS (\<lambda>s. length (snapshots s))) (\<lambda>snapshot.
     thenS (modifyS (\<lambda>s. s\<lparr>snapshots := snapshots s @
       [\<lparr>snSize = size_cc (candCenter s), snChanges = length (chCandidates (change (candCenter s))),
         snAmount = tAmount (total (bucketPool s)), snCount = tCount (total (bucketPool s))\<rparr>]\<rparr>)) (
     returnS snapshot))"

definition viewRevert :: "nat \<Rightarrow> (staking_state, unit) op" where
  "viewRevert snapshot =
     bindS (readS snapshots) (\<lambda>sns.
     thenS (checkS (snapshot < length sns) (Errorf ''invalid snapshot index'')) (
     bindS (readS (\<lambda>s. length (chCandidates (change (candCenter s))))) (\<lambda>n.
     thenS (checkS (snChanges (sns ! snapshot) \<le> n) (Panic ''slice bounds out of range'')) (
     bindS (\<lambda>s. (listToCandChange (take (snChanges (sns ! snapshot)) (chCandidates (change (candCenter s)))), s)) (\<lambda>ch.
     modifyS (\<lambda>s. s\<lparr>candCenter := (candCenter s)\<lparr>size_cc := snSize (sns ! snapshot), change := ch\<rparr>,
       bucketPool := (bucketPool s)\<lparr>total :=
         \<lparr>tAmount = snAmount (sns ! snapshot), tCount = snCount (sns ! snapshot)\<rparr>\<rparr>,
       snapshots := take snapshot sns\<rparr>))))))"

definition viewCommit :: "bool \<Rightarrow> bool \<Rightarrow> (staking_state, unit) op" where
  "viewCommit hasAlias notCopied =
     bindS (\<lambda>s. (Commit hasAlias notCopied (candCenter s), s)) (\<lambda>cc.
     modifyS (\<lambda>s. s\<lparr>candCenter := cc, bucketPool := (bucketPool s)\<lparr>pool_dirty := False\<rparr>, snapshots := []\<rparr>))"

definition viewIsDirty :: "staking_state \<Rightarrow> bool" where
  "viewIsDirty s \<longleftrightarrow> IsDirty (candCenter s) \<or> pool_dirty (bucketPool s)"

end
