(* ===== verification/StakingHandlers.thy ===== *)
theory StakingHandlers
  imports StakingState
begin

text \<open>
  The staking actions: the handlers of \<^verbatim>\<open>handlers.go\<close>, \<^verbatim>\<open>handler_candidate_endorsement.go\<close>,
  \<^verbatim>\<open>handler_candidate_selfstake.go\<close> and \<^verbatim>\<open>handler_candidate_transfer_ownership.go\<close>, the bucket
  checks of \<^verbatim>\<open>bucket_validation.go\<close>, the action checks of \<^verbatim>\<open>validations.go\<close>, and the dispatch,
  settlement and slashing of \<^verbatim>\<open>protocol.go\<close>, all under \<^verbatim>\<open>action/protocol/staking\<close>.

  A handler returns the transaction logs or an error; a \<open>HandleError\<close> becomes the status of a failed
  receipt, any other error makes the action fail.  What the state manager and the view were
  written before the error is kept, as in the source; \<^verbatim>\<open>Handle\<close> reverts the view, but only for an
  error that is not a receipt error.

  Parameters: \<^verbatim>\<open>calculateVoteWeight\<close> (floating-point logarithms), the hash that proposes candidate
  identifiers, the result of decoding and verifying a consignment and of packing events.
  \<^verbatim>\<open>StakedDuration.Hours()\<close> is compared as the duration itself: durations are multiples of
  \<open>2 ^ 16\<close> nanoseconds, further apart than the rounding of the floating-point hours.  The logs of
  a receipt other than transaction logs are not modelled.
\<close>

section \<open>The protocol and its actions\<close>

record StakingProtocol =
  cfgRegistrationFee :: int
  cfgMinSelfStake :: int
  cfgWithdrawWaitingPeriod :: int
  cfgMinStakeAmount :: int
  cfgPersistStakingPatchBlock :: u64
  cfgEndorsementWithdrawWaitingBlocks :: u64
  cfgMinSelfStakeToBeActive :: int
  calculateVoteWeight :: "VoteBucket \<Rightarrow> bool \<Rightarrow> int"
  candIDHash :: "addr \<Rightarrow> u64 \<Rightarrow> nat \<Rightarrow> addr"

record CreateStake =
  csCandidate :: string
  csAmount :: int
  csDuration :: u32
  csAutoStake :: bool

record ChangeCandidate =
  ccCandidate :: string
  ccBucketIndex :: u64

record Consignment =
  Transferor :: addr
  Transferee :: addr
  AssetID :: u64
  TransfereeNonce :: u64

text \<open>The consignment is the result of \<^verbatim>\<open>NewConsignment\<close> on a payload that is not empty.\<close>

record TransferStake =
  tsVoterAddress :: addr
  tsBucketIndex :: u64
  tsConsignment :: "Consignment option"

record DepositToStake =
  dsBucketIndex :: u64
  dsAmount :: int

record Restake =
  rsBucketIndex :: u64
  rsDuration :: u32
  rsAutoStake :: bool

record CandidateRegister =
  crName :: string
  crOperatorAddress :: addr
  crRewardAddress :: addr
  crOwnerAddress :: "addr option"
  crLegacyAmount :: "int option"
  crValue :: "int option"
  crDuration :: u32
  crAutoStake :: bool
  crBLSPubKey :: "byte list"
  crEventsPacked :: "unit res"

record CandidateUpdate =
  cuName :: string
  cuOperatorAddress :: "addr option"
  cuRewardAddress :: "addr option"
  cuBLSPubKey :: "byte list"
  cuEventPacked :: "unit res"

datatype CandidateEndorsementOp =
    CandidateEndorsementOpIntentToRevoke | CandidateEndorsementOpEndorse | CandidateEndorsementOpRevoke

datatype StakingAction =
    ActCreateStake CreateStake
  | ActUnstake u64
  | ActWithdrawStake u64
  | ActChangeCandidate ChangeCandidate
  | ActTransferStake TransferStake
  | ActDepositToStake DepositToStake
  | ActRestake Restake
  | ActCandidateRegister CandidateRegister
  | ActCandidateUpdate CandidateUpdate
  | ActCandidateActivate u64
  | ActCandidateEndorsement u64 CandidateEndorsementOp bool
  | ActCandidateTransferOwnership addr

definition crWithBLS :: "CandidateRegister \<Rightarrow> bool" where
  "crWithBLS act \<longleftrightarrow> length (crBLSPubKey act) > 0"

text \<open>A nil amount panics where it is used; the model reads it as zero.\<close>

definition crAmount :: "CandidateRegister \<Rightarrow> int" where
  "crAmount act = nilZero (if crWithBLS act then crValue act else crLegacyAmount act)"

definition cuWithBLS :: "CandidateUpdate \<Rightarrow> bool" where
  "cuWithBLS act \<longleftrightarrow> length (cuBLSPubKey act) > 0"

section \<open>Checks of an action (validations.go)\<close>

definition IsValidCandidateName :: "string \<Rightarrow> bool" where
  "IsValidCandidateName s =
     (if length s = 0 \<or> length s > 12 then False
      else list_all (\<lambda>ch. let k = of_char ch :: nat in (97 \<le> k \<and> k \<le> 122) \<or> (48 \<le> k \<and> k \<le> 57)) s)"

definition stakeDurationLimit :: u32 where "stakeDurationLimit = 1050"

definition ErrDurationTooHigh :: go_error where
  "ErrDurationTooHigh = Errorf ''stake duration cannot exceed 1050 days''"

definition validateCreateStake :: "StakingProtocol \<Rightarrow> ctx \<Rightarrow> CreateStake \<Rightarrow> unit res" where
  "validateCreateStake p c act =
     (if \<not> IsValidCandidateName (csCandidate act) then Inl ErrInvalidCanName
      else if csAmount act < cfgMinStakeAmount p then Inl ErrInvalidAmount
      else if CheckStakingDurationUpperLimit (fCtx c) \<and> csDuration act > stakeDurationLimit
        then Inl ErrDurationTooHigh
      else Inr ())"

definition validateChangeCandidate :: "ChangeCandidate \<Rightarrow> unit res" where
  "validateChangeCandidate act = checkR (IsValidCandidateName (ccCandidate act)) ErrInvalidCanName"

definition validateRestake :: "ctx \<Rightarrow> Restake \<Rightarrow> unit res" where
  "validateRestake c act =
     (if CheckStakingDurationUpperLimit (fCtx c) \<and> rsDuration act > stakeDurationLimit
      then Inl ErrDurationTooHigh else Inr ())"

definition ErrInvalidAct :: go_error where "ErrInvalidAct = Errorf ''invalid action''"

definition validateCandidateRegister :: "StakingProtocol \<Rightarrow> ctx \<Rightarrow> CandidateRegister \<Rightarrow> unit res" where
  "validateCandidateRegister p c act =
     (if \<not> IsValidCandidateName (crName act) then Inl ErrInvalidCanName
      else if crAmount act < cfgMinSelfStake p then
        (if \<not> CandidateRegisterMustWithStake (fCtx c) \<and> crAmount act = 0 then Inr () else Inl ErrInvalidAmount)
      else if CheckStakingDurationUpperLimit (fCtx c) \<and> crDuration act > stakeDurationLimit
        then Inl ErrDurationTooHigh
      else if CandidateBLSPublicKey (fCtx c) \<and> (\<not> crWithBLS act \<or> crLegacyAmount act \<noteq> None) then Inl ErrInvalidAct
      else if \<not> CandidateBLSPublicKey (fCtx c) \<and> (crWithBLS act \<or> crValue act \<noteq> None) then Inl ErrInvalidAct
      else Inr ())"

definition validateCandidateUpdate :: "ctx \<Rightarrow> CandidateUpdate \<Rightarrow> unit res" where
  "validateCandidateUpdate c act =
     (if length (cuName act) \<noteq> 0 \<and> \<not> IsValidCandidateName (cuName act) then Inl ErrInvalidCanName
      else if CandidateBLSPublicKey (fCtx c) \<and> \<not> cuWithBLS act then Inl ErrInvalidAct
      else if \<not> CandidateBLSPublicKey (fCtx c) \<and> cuWithBLS act then Inl ErrInvalidAct
      else Inr ())"

definition validateCandidateEndorsement :: "ctx \<Rightarrow> bool \<Rightarrow> unit res" where
  "validateCandidateEndorsement c isLegacy =
     (if DisableDelegateEndorsement (fCtx c) then Inl ErrInvalidAct
      else if EnforceLegacyEndorsement (fCtx c) \<and> \<not> isLegacy then Inl ErrInvalidAct
      else Inr ())"

definition validateCandidateActivate :: "ctx \<Rightarrow> unit res" where
  "validateCandidateActivate c = checkR (\<not> DisableDelegateEndorsement (fCtx c)) ErrInvalidAct"

definition validateCandidateTransferOwnershipAction :: "ctx \<Rightarrow> unit res" where
  "validateCandidateTransferOwnershipAction c = checkR (\<not> CandidateIdentifiedByOwner (fCtx c)) ErrInvalidAct"

definition stakingValidate :: "StakingProtocol \<Rightarrow> ctx \<Rightarrow> StakingAction \<Rightarrow> unit res" where
  "stakingValidate p c act = (case act of
       ActCreateStake a \<Rightarrow> validateCreateStake p c a
     | ActUnstake _ \<Rightarrow> Inr ()
     | ActWithdrawStake _ \<Rightarrow> Inr ()
     | ActChangeCandidate a \<Rightarrow> validateChangeCandidate a
     | ActTransferStake _ \<Rightarrow> Inr ()
     | ActDepositToStake _ \<Rightarrow> Inr ()
     | ActRestake a \<Rightarrow> validateRestake c a
     | ActCandidateRegister a \<Rightarrow> validateCandidateRegister p c a
     | ActCandidateUpdate a \<Rightarrow> validateCandidateUpdate c a
     | ActCandidateActivate _ \<Rightarrow> validateCandidateActivate c
     | ActCandidateEndorsement _ _ isLegacy \<Rightarrow> validateCandidateEndorsement c isLegacy
     | ActCandidateTransferOwnership _ \<Rightarrow> validateCandidateTransferOwnershipAction c)"

section \<open>Checks of a bucket (bucket_validation.go)\<close>

definition validateBucketOwner :: "VoteBucket \<Rightarrow> addr \<Rightarrow> unit res" where
  "validateBucketOwner bucket owner =
     checkR (owner = vbOwner bucket)
       (HandleError (Errorf ''bucket owner does not match'') RS_ErrUnauthorizedOperator)"

definition validateBucketMinAmount :: "VoteBucket \<Rightarrow> int \<Rightarrow> unit res" where
  "validateBucketMinAmount bucket minAmount =
     checkR (\<not> vbStakedAmount bucket < minAmount)
       (HandleError (Errorf ''bucket amount is unsufficient'') RS_ErrInvalidBucketAmount)"

definition validateBucketStake :: "VoteBucket \<Rightarrow> bool \<Rightarrow> unit res" where
  "validateBucketStake bucket isStaked =
     (if isUnstaked bucket = isStaked
      then Inl (HandleError (if isStaked then Errorf ''bucket is unstaked'' else Errorf ''bucket is staked'')
                 RS_ErrInvalidBucketType)
      else Inr ())"

definition validateBucketCandidate :: "VoteBucket \<Rightarrow> addr \<Rightarrow> unit res" where
  "validateBucketCandidate bucket candidate =
     checkR (vbCandidate bucket = candidate)
       (HandleError (Errorf ''bucket is not voted to the candidate'') RS_ErrInvalidBucketType)"

definition validateBucketSelfStake :: "FeatureCtx \<Rightarrow> u64 \<Rightarrow> staking_state \<Rightarrow> VoteBucket \<Rightarrow> bool \<Rightarrow> unit res" where
  "validateBucketSelfStake f height s bucket isSelfStaked =
     (if isSelfStakeBucket f height s bucket \<noteq> isSelfStaked
      then Inl (HandleError (if isSelfStaked then Errorf ''bucket is not self staking''
                  else Errorf ''self staking bucket cannot be processed'') RS_ErrInvalidBucketType)
      else Inr ())"

definition validateBucketWithEndorsement :: "ctx \<Rightarrow> staking_state \<Rightarrow> VoteBucket \<Rightarrow> u64 \<Rightarrow> unit res" where
  "validateBucketWithEndorsement c s bucket height =
     (let f = fCtx c; status = esmStatus f s (vbIndex bucket) height
      in if (\<not> EnforceLegacyEndorsement f \<and> status \<noteq> Endorsed) \<or>
            (EnforceLegacyEndorsement f \<and> status \<noteq> Endorsed \<and> status \<noteq> UnEndorsing)
         then Inl (HandleError (Errorf ''bucket is not an endorse bucket'') RS_ErrInvalidBucketType)
         else Inr ())"

definition validateBucketWithoutEndorsement :: "ctx \<Rightarrow> staking_state \<Rightarrow> VoteBucket \<Rightarrow> u64 \<Rightarrow> unit res" where
  "validateBucketWithoutEndorsement c s bucket height =
     checkR (esmStatus (fCtx c) s (vbIndex bucket) height = EndorseExpired)
       (HandleError (Errorf ''bucket is still endorsed'') RS_ErrInvalidBucketType)"

definition validateBucketEndorsementWithdrawal :: "ctx \<Rightarrow> staking_state \<Rightarrow> VoteBucket \<Rightarrow> u64 \<Rightarrow> unit res" where
  "validateBucketEndorsementWithdrawal c s bucket height =
     checkR (esmStatus (fCtx c) s (vbIndex bucket) height = Endorsed)
       (HandleError (Errorf ''bucket is not endorsed'') RS_ErrInvalidBucketType)"

section \<open>What the handlers share (handlers.go)\<close>

definition errCandNotExist :: go_error where
  "errCandNotExist = HandleError ErrInvalidOwner RS_ErrCandidateNotExist"

definition withdrawWaitingTime :: int where
  "withdrawWaitingTime = 14 * 24 * 3600000000000"

definition fetchCaller :: "ctx \<Rightarrow> int \<Rightarrow> ('a staking_world_scheme, account) op" where
  "fetchCaller c amount =
     bindS (mapErrS (\<lambda>e. HandleError e RS_Failure) (LoadAccount (Caller c) (accountCreationOpts c))) (\<lambda>caller.
     let gasFee = GasPrice c * uint (IntrinsicGas c)
     in bindS (mapErrS (\<lambda>e. HandleError e RS_Failure) (liftS (HasSufficientBalance (Some (amount + gasFee)) caller))) (\<lambda>ok.
        thenS (checkS ok (HandleError ErrNotEnoughBalance RS_ErrNotEnoughBalance)) (
        returnS caller)))"

definition fetchBucket :: "staking_state \<Rightarrow> u64 \<Rightarrow> VoteBucket res" where
  "fetchBucket s index = mapErrR (\<lambda>e. HandleError e
     (if e = ErrStateNotExist then RS_ErrInvalidBucketIndex else RS_Failure)) (NativeBucket s index)"

text \<open>The bucket, which is returned also with the error of a check, and the error.\<close>

definition fetchBucketAndValidate ::
  "FeatureCtx \<Rightarrow> u64 \<Rightarrow> staking_state \<Rightarrow> addr \<Rightarrow> u64 \<Rightarrow> bool \<Rightarrow> bool \<Rightarrow> VoteBucket option \<times> unit res" where
  "fetchBucketAndValidate f height s caller index checkOwner allowSelfStaking =
     (case fetchBucket s index of Inl e \<Rightarrow> (None, Inl e)
      | Inr bucket \<Rightarrow>
        if checkOwner \<and> vbOwner bucket \<noteq> caller
          then (Some bucket, Inl (HandleError (Errorf ''bucket owner does not match action caller'')
                 RS_ErrUnauthorizedOperator))
        else if \<not> allowSelfStaking \<and> isSelfStakeBucket f height s bucket
          then (Some bucket, Inl (HandleError (Errorf ''self staking bucket cannot be processed'')
                 RS_ErrInvalidBucketType))
        else (Some bucket, Inr ()))"

text \<open>The callers that return on every error.\<close>

definition fetchValid ::
  "FeatureCtx \<Rightarrow> u64 \<Rightarrow> staking_state \<Rightarrow> addr \<Rightarrow> u64 \<Rightarrow> bool \<Rightarrow> bool \<Rightarrow> VoteBucket res" where
  "fetchValid f height s caller index checkOwner allowSelfStaking =
     (case fetchBucketAndValidate f height s caller index checkOwner allowSelfStaking of
        (Some b, Inr _) \<Rightarrow> Inr b | (_, Inl e) \<Rightarrow> Inl e | (None, Inr _) \<Rightarrow> Inl (Panic ''nil bucket''))"

definition isValidID :: "staking_state \<Rightarrow> addr \<Rightarrow> bool" where
  "isValidID s i \<longleftrightarrow> GetByIdentifier i (candCenter s) = None \<and> GetByOwner i (candCenter s) = None"

definition generateCandidateID :: "StakingProtocol \<Rightarrow> addr \<Rightarrow> u64 \<Rightarrow> staking_state \<Rightarrow> addr res" where
  "generateCandidateID p owner height s =
     (if isValidID s owner then Inr owner
      else case find (isValidID s) (map (candIDHash p owner height) [0..<1000]) of
        Some a \<Rightarrow> Inr a
      | None \<Rightarrow> Inl (Errorf ''failed to generate candidate ID after max attempts''))"

definition csmErrorToHandleError :: "go_error \<Rightarrow> go_error" where
  "csmErrorToHandleError err =
     (if err = ErrInvalidCanName \<or> err = ErrInvalidOperator \<or> err = ErrInvalidSelfStkIndex
      then HandleError err RS_ErrCandidateConflict
      else if err = ErrInvalidAmount \<or> err = ErrInvalidOwner \<or> err = ErrInvalidReward
      then HandleError err RS_ErrCandidateNotExist
      else err)"

definition upsertCandidate :: "Candidate \<Rightarrow> ('a staking_world_scheme, unit) op" where
  "upsertCandidate d = mapErrS csmErrorToHandleError (onStk (csmUpsert d))"

text \<open>\<^verbatim>\<open>if err != nil { return &handleError{err, status} }\<close>\<close>

definition orStatus :: "receipt_status \<Rightarrow> 'x res \<Rightarrow> ('s, 'x) op" where
  "orStatus st r = liftS (mapErrR (\<lambda>e. HandleError e st) r)"

text \<open>A read of the candidate state.\<close>

definition readStk :: "(staking_state \<Rightarrow> 'x) \<Rightarrow> ('a staking_world_scheme, 'x) op" where
  "readStk f = readS (\<lambda>sm. f (stk sm))"

definition bindStk :: "(u64 \<Rightarrow> staking_state \<Rightarrow> 'x res) \<Rightarrow> ('x \<Rightarrow> ('a staking_world_scheme, 'y) op) \<Rightarrow>
    ('a staking_world_scheme, 'y) op" where
  "bindStk f k = bindS (\<lambda>sm. (f (smHeight sm) (stk sm), sm)) k"

definition needCand :: "Candidate option \<Rightarrow> Candidate res" where
  "needCand c = (case c of None \<Rightarrow> Inl errCandNotExist | Some c \<Rightarrow> Inr c)"

definition needToWriteCandsMap :: "StakingProtocol \<Rightarrow> ctx \<Rightarrow> u64 \<Rightarrow> bool" where
  "needToWriteCandsMap p c height \<longleftrightarrow> height \<ge> cfgPersistStakingPatchBlock p \<and> CandCenterHasAlias c height"

definition recordOwnerS :: "Candidate \<Rightarrow> (staking_state, unit) op" where
  "recordOwnerS d = modifyS (\<lambda>s. s\<lparr>candCenter := (candCenter s)\<lparr>base := recordOwner d (base (candCenter s))\<rparr>\<rparr>)"

section \<open>Handlers of buckets (handlers.go)\<close>

definition handleCreateStake ::
  "StakingProtocol \<Rightarrow> ctx \<Rightarrow> CreateStake \<Rightarrow> ('a staking_world_scheme, TransactionLog list) op" where
  "handleCreateStake p c act =
     bindS (fetchCaller c (csAmount act)) (\<lambda>staker.
     bindStk (\<lambda>_ s. needCand (GetByName (csCandidate act) (candCenter s))) (\<lambda>candidate.
     let bucket = NewVoteBucket (GetIdentifier candidate) (Caller c) (csAmount act) (csDuration act)
           (BlockTimeStamp c) (csAutoStake act) in
     bindS (onStk (putBucketAndIndex bucket)) (\<lambda>bucketIdx.
     let weightedVote = calculateVoteWeight p (bucket\<lparr>vbIndex := bucketIdx\<rparr>) False in
     bindS (orStatus RS_ErrInvalidBucketAmount (AddVote weightedVote candidate)) (\<lambda>candidate.
     thenS (upsertCandidate candidate) (
     thenS (mapErrS (\<lambda>e. HandleError e RS_ErrWriteAccount) (onStk (DebitPool (csAmount act) True))) (
     bindS (orStatus RS_ErrNotEnoughBalance (SubBalance (Some (csAmount act)) staker)) (\<lambda>staker.
     thenS (StoreAccount (Caller c) staker) (
     returnS [\<lparr>tlType = CREATE_BUCKET, tlSender = Acct (Caller c), tlRecipient = StakingBucketPoolAddr,
       tlAmount = csAmount act\<rparr>]))))))))"

definition failIf :: "bool \<Rightarrow> string \<Rightarrow> receipt_status \<Rightarrow> ('s, unit) op" where
  "failIf b msg st = checkS (\<not> b) (HandleError (Errorf msg) st)"

definition checkNotEndorsed :: "ctx \<Rightarrow> VoteBucket \<Rightarrow> ('a staking_world_scheme, unit) op" where
  "checkNotEndorsed c bucket =
     whenS (\<not> DisableDelegateEndorsement (fCtx c))
       (bindStk (\<lambda>_ s. validateBucketWithoutEndorsement c s bucket (BlockHeight c)) returnS)"

definition handleUnstake ::
  "StakingProtocol \<Rightarrow> ctx \<Rightarrow> u64 \<Rightarrow> ('a staking_world_scheme, TransactionLog list) op" where
  "handleUnstake p c bucketIndex =
     bindS (fetchCaller c 0) (\<lambda>_.
     bindStk (\<lambda>h s. fetchValid (fCtx c) h s (Caller c) bucketIndex True True) (\<lambda>bucket.
     bindStk (\<lambda>_ s. needCand (GetByIdentifier (vbCandidate bucket) (candCenter s))) (\<lambda>candidate.
     thenS (failIf (CannotUnstakeAgain (fCtx c) \<and> isUnstaked bucket)
       ''unstake an already unstaked bucket again not allowed'' RS_ErrInvalidBucketType) (
     thenS (failIf (vbAutoStake bucket)
       ''AutoStake should be disabled first in order to unstake'' RS_ErrInvalidBucketType) (
     thenS (failIf (BlockTimeStamp c < vbStakeStartTime bucket + sint (vbStakedDuration bucket))
       ''bucket is not ready to be unstaked'' RS_ErrUnstakeBeforeMaturity) (
     thenS (checkNotEndorsed c bucket) (
     let unstaked = bucket\<lparr>vbUnstakeStartTime := BlockTimeStamp c\<rparr>;
         legacy = UnstakedButNotClearSelfStakeAmount (fCtx c) in
     thenS (whenS legacy (onStk (updateBucket bucketIndex unstaked))) (
     bindStk (\<lambda>h s. Inr (isSelfStakeBucket (fCtx c) h s (if legacy then unstaked else bucket))) (\<lambda>selfStake.
     thenS (whenS (\<not> legacy) (onStk (updateBucket bucketIndex unstaked))) (
     bindS (orStatus RS_ErrNotEnoughBalance (SubVote (calculateVoteWeight p unstaked selfStake) candidate)) (\<lambda>candidate.
     thenS (upsertCandidate (if selfStake then
         (if legacy then candidate\<lparr>cSelfStake := 0\<rparr>
          else candidate\<lparr>cSelfStake := 0, cSelfStakeBucketIdx := candidateNoSelfStakeBucketIndex\<rparr>)
       else candidate)) (
     returnS []))))))))))))"

definition handleWithdrawStake ::
  "StakingProtocol \<Rightarrow> ctx \<Rightarrow> u64 \<Rightarrow> ('a staking_world_scheme, TransactionLog list) op" where
  "handleWithdrawStake p c bucketIndex =
     bindS (fetchCaller c 0) (\<lambda>withdrawer.
     bindStk (\<lambda>h s. fetchValid (fCtx c) h s (Caller c) bucketIndex True True) (\<lambda>bucket.
     thenS (failIf (if CannotUnstakeAgain (fCtx c) then \<not> isUnstaked bucket
                    else vbUnstakeStartTime bucket div 1000000000 = 0)
       ''bucket has not been unstaked'' RS_ErrWithdrawBeforeUnstake) (
     let withdrawWaitTime = (if NewStakingReceiptFormat (fCtx c) then cfgWithdrawWaitingPeriod p
                             else withdrawWaitingTime) in
     thenS (failIf (BlockTimeStamp c < vbUnstakeStartTime bucket + withdrawWaitTime)
       ''stake is not ready to withdraw'' RS_ErrWithdrawBeforeMaturity) (
     thenS (onStk (delBucketAndIndex (vbOwner bucket) (vbCandidate bucket) bucketIndex)) (
     thenS (mapErrS (\<lambda>e. HandleError e RS_ErrWriteAccount) (onStk (CreditPool (vbStakedAmount bucket) True))) (
     bindS (liftS (AddBalance (Some (vbStakedAmount bucket)) withdrawer)) (\<lambda>withdrawer.
     thenS (StoreAccount (Caller c) withdrawer) (
     returnS [\<lparr>tlType = WITHDRAW_BUCKET, tlSender = StakingBucketPoolAddr, tlRecipient = Acct (Caller c),
       tlAmount = vbStakedAmount bucket\<rparr>]))))))))"

definition handleChangeCandidate ::
  "StakingProtocol \<Rightarrow> ctx \<Rightarrow> ChangeCandidate \<Rightarrow> ('a staking_world_scheme, TransactionLog list) op" where
  "handleChangeCandidate p c act =
     bindS (fetchCaller c 0) (\<lambda>_.
     bindStk (\<lambda>_ s. needCand (GetByName (ccCandidate act) (candCenter s))) (\<lambda>candidate.
     bindStk (\<lambda>h s. fetchValid (fCtx c) h s (Caller c) (ccBucketIndex act) True False) (\<lambda>bucket.
     thenS (checkNotEndorsed c bucket) (
     bindStk (\<lambda>_ s. needCand (GetByIdentifier (vbCandidate bucket) (candCenter s))) (\<lambda>prevCandidate.
     thenS (failIf (CannotUnstakeAgain (fCtx c) \<and> isUnstaked bucket)
       ''change candidate for an unstaked bucket not allowed'' RS_ErrInvalidBucketType) (
     thenS (failIf (CannotTranferToSelf (fCtx c) \<and> GetIdentifier prevCandidate = GetIdentifier candidate)
       ''change to same candidate'' RS_ErrCandidateAlreadyExist) (
     thenS (onStk (delCandBucketIndex (vbCandidate bucket) (ccBucketIndex act))) (
     thenS (onStk (putCandBucketIndex (GetIdentifier candidate) (ccBucketIndex act))) (
     let bucket = bucket\<lparr>vbCandidate := GetIdentifier candidate\<rparr>;
         weightedVotes = calculateVoteWeight p bucket False in
     thenS (onStk (updateBucket (ccBucketIndex act) bucket)) (
     bindS (orStatus RS_ErrNotEnoughBalance (SubVote weightedVotes prevCandidate)) (\<lambda>prevCandidate.
     thenS (upsertCandidate
       (if \<not> DisableDelegateEndorsement (fCtx c) \<and> cSelfStakeBucketIdx prevCandidate = vbIndex bucket
        then prevCandidate\<lparr>cSelfStake := 0, cSelfStakeBucketIdx := candidateNoSelfStakeBucketIndex\<rparr>
        else prevCandidate)) (
     bindS (orStatus RS_ErrInvalidBucketAmount (AddVote weightedVotes candidate)) (\<lambda>candidate.
     thenS (upsertCandidate candidate) (
     returnS []))))))))))))))"

definition handleConsignmentTransfer ::
  "ctx \<Rightarrow> u64 \<Rightarrow> staking_state \<Rightarrow> TransferStake \<Rightarrow> VoteBucket \<Rightarrow> addr option" where
  "handleConsignmentTransfer c height s act bucket =
     (if isSelfStakeBucket (fCtx c) height s bucket then None
      else case tsConsignment act of None \<Rightarrow> None
        | Some con \<Rightarrow> if Transferor con = vbOwner bucket \<and> Transferee con = Caller c \<and>
            AssetID con = vbIndex bucket \<and> TransfereeNonce con = actNonce c
          then Some (Transferee con) else None)"

text \<open>The bucket to be transferred and its new owner.\<close>

definition transferTarget :: "ctx \<Rightarrow> TransferStake \<Rightarrow> u64 \<Rightarrow> staking_state \<Rightarrow> (VoteBucket \<times> addr) res" where
  "transferTarget c act height s =
     (case fetchBucketAndValidate (fCtx c) height s (Caller c) (tsBucketIndex act) True False of
        (Some bucket, Inr _) \<Rightarrow> Inr (bucket, tsVoterAddress act)
      | (None, Inr _) \<Rightarrow> Inl (Panic ''nil bucket'')
      | (b, Inl e) \<Rightarrow>
        if ReturnFetchError (fCtx c) \<or> \<not> (case e of HandleError _ st \<Rightarrow> st = RS_ErrUnauthorizedOperator | _ \<Rightarrow> False)
        then Inl e
        else case b of None \<Rightarrow> Inl (Panic ''nil bucket'')
          | Some bucket \<Rightarrow> (case handleConsignmentTransfer c height s act bucket of
              Some newOwner \<Rightarrow> Inr (bucket, newOwner) | None \<Rightarrow> Inl e))"

definition handleTransferStake ::
  "StakingProtocol \<Rightarrow> ctx \<Rightarrow> TransferStake \<Rightarrow> ('a staking_world_scheme, TransactionLog list) op" where
  "handleTransferStake p c act =
     bindS (fetchCaller c 0) (\<lambda>_.
     bindStk (transferTarget c act) (\<lambda>(bucket, newOwner).
     thenS (failIf (CannotTranferToSelf (fCtx c) \<and> newOwner = vbOwner bucket)
       ''transfer to same owner'' RS_ErrInvalidBucketType) (
     thenS (onStk (delVoterBucketIndex (vbOwner bucket) (tsBucketIndex act))) (
     thenS (onStk (putVoterBucketIndex newOwner (tsBucketIndex act))) (
     thenS (onStk (updateBucket (tsBucketIndex act) (bucket\<lparr>vbOwner := newOwner\<rparr>))) (
     returnS []))))))"

definition handleDepositToStake ::
  "StakingProtocol \<Rightarrow> ctx \<Rightarrow> DepositToStake \<Rightarrow> ('a staking_world_scheme, TransactionLog list) op" where
  "handleDepositToStake p c act =
     bindS (fetchCaller c (dsAmount act)) (\<lambda>depositor.
     bindStk (\<lambda>h s. fetchValid (fCtx c) h s (Caller c) (dsBucketIndex act) False True) (\<lambda>bucket.
     thenS (failIf (\<not> vbAutoStake bucket)
       ''deposit is only allowed on auto-stake bucket'' RS_ErrInvalidBucketType) (
     bindStk (\<lambda>_ s. needCand (GetByIdentifier (vbCandidate bucket) (candCenter s))) (\<lambda>candidate.
     thenS (failIf (CannotUnstakeAgain (fCtx c) \<and> isUnstaked bucket)
       ''deposit to an unstaked bucket not allowed'' RS_ErrInvalidBucketType) (
     bindStk (\<lambda>h s. Inr (isSelfStakeBucket (fCtx c) h s bucket)) (\<lambda>selfStake.
     let prevWeightedVotes = calculateVoteWeight p bucket selfStake;
         bucket = bucket\<lparr>vbStakedAmount := vbStakedAmount bucket + dsAmount act\<rparr> in
     thenS (onStk (updateBucket (dsBucketIndex act) bucket)) (
     bindS (orStatus RS_ErrNotEnoughBalance (SubVote prevWeightedVotes candidate)) (\<lambda>candidate.
     bindS (orStatus RS_ErrInvalidBucketAmount (AddVote (calculateVoteWeight p bucket selfStake) candidate)) (\<lambda>candidate.
     bindS (if selfStake then orStatus RS_ErrInvalidBucketAmount (AddSelfStake (dsAmount act) candidate)
            else returnS candidate) (\<lambda>candidate.
     thenS (upsertCandidate candidate) (
     thenS (mapErrS (\<lambda>e. HandleError e RS_ErrWriteAccount) (onStk (DebitPool (dsAmount act) False))) (
     bindS (orStatus RS_ErrNotEnoughBalance (SubBalance (Some (dsAmount act)) depositor)) (\<lambda>depositor.
     thenS (StoreAccount (Caller c) depositor) (
     returnS [\<lparr>tlType = DEPOSIT_TO_BUCKET, tlSender = Acct (Caller c), tlRecipient = StakingBucketPoolAddr,
       tlAmount = dsAmount act\<rparr>]))))))))))))))"

definition handleRestake ::
  "StakingProtocol \<Rightarrow> ctx \<Rightarrow> Restake \<Rightarrow> ('a staking_world_scheme, TransactionLog list) op" where
  "handleRestake p c act =
     bindS (fetchCaller c 0) (\<lambda>_.
     bindStk (\<lambda>h s. fetchValid (fCtx c) h s (Caller c) (rsBucketIndex act) True True) (\<lambda>bucket.
     bindStk (\<lambda>_ s. needCand (GetByIdentifier (vbCandidate bucket) (candCenter s))) (\<lambda>candidate.
     thenS (failIf (CannotUnstakeAgain (fCtx c) \<and> isUnstaked bucket)
       ''restake an unstaked bucket not allowed'' RS_ErrInvalidBucketType) (
     bindStk (\<lambda>h s. Inr (isSelfStakeBucket (fCtx c) h s bucket)) (\<lambda>selfStake.
     let prevWeightedVotes = calculateVoteWeight p bucket selfStake;
         actDuration = durationOfDays (rsDuration act);
         reduces = sint (vbStakedDuration bucket) > sint actDuration in
     thenS (failIf (reduces \<and> vbAutoStake bucket)
       ''AutoStake should be disabled first in order to reduce duration'' RS_ErrInvalidBucketType) (
     thenS (failIf (reduces \<and> BlockTimeStamp c < vbStakeStartTime bucket + sint (vbStakedDuration bucket))
       ''bucket is not ready to be able to reduce duration'' RS_ErrReduceDurationBeforeMaturity) (
     let bucket = bucket\<lparr>vbStakedDuration := actDuration, vbStakeStartTime := BlockTimeStamp c,
           vbAutoStake := rsAutoStake act\<rparr> in
     thenS (onStk (updateBucket (rsBucketIndex act) bucket)) (
     bindS (orStatus RS_ErrNotEnoughBalance (SubVote prevWeightedVotes candidate)) (\<lambda>candidate.
     bindS (orStatus RS_ErrInvalidBucketAmount (AddVote (calculateVoteWeight p bucket selfStake) candidate)) (\<lambda>candidate.
     thenS (upsertCandidate candidate) (
     returnS [])))))))))))"

end
