(* ===== verification/StakingDispatch.thy ===== *)
theory StakingDispatch
  imports StakingHandlers
begin

text \<open>
  The handlers of candidates (\<^verbatim>\<open>handlers.go\<close>, \<^verbatim>\<open>handler_candidate_endorsement.go\<close>,
  \<^verbatim>\<open>handler_candidate_selfstake.go\<close>, \<^verbatim>\<open>handler_candidate_transfer_ownership.go\<close>) and the parts of
  \<^verbatim>\<open>protocol.go\<close> that run them: \<^verbatim>\<open>Handle\<close>, \<^verbatim>\<open>handle\<close>, \<^verbatim>\<open>settleAction\<close>, \<^verbatim>\<open>SlashCandidate\<close>,
  \<^verbatim>\<open>isActiveCandidate\<close>, \<^verbatim>\<open>CreateGenesisStates\<close> and \<^verbatim>\<open>Commit\<close>.  Migrating a bucket to a
  contract (\<^verbatim>\<open>handler_stake_migrate.go\<close>) runs the EVM and is not modelled.
\<close>

section \<open>Handlers of candidates\<close>

definition registrationConflict ::
  "ctx \<Rightarrow> CandidateRegister \<Rightarrow> Candidate option \<Rightarrow> staking_state \<Rightarrow> unit res" where
  "registrationConflict c act existing s =
     (if ContainsName (crName act) (candCenter s) \<and>
         (case existing of None \<Rightarrow> True | Some e \<Rightarrow> crName act \<noteq> cName e)
      then Inl (HandleError ErrInvalidCanName RS_ErrCandidateConflict)
      else if ContainsOperator (crOperatorAddress act) (candCenter s) \<and>
         (case existing of None \<Rightarrow> True | Some e \<Rightarrow> crOperatorAddress act \<noteq> cOperator e)
      then Inl (HandleError ErrInvalidOperator RS_ErrCandidateConflict)
      else Inr ())"

text \<open>The identifier of the new candidate.\<close>

definition registrationID :: "StakingProtocol \<Rightarrow> ctx \<Rightarrow> addr \<Rightarrow> staking_state \<Rightarrow> addr res" where
  "registrationID p c owner s =
     (if CandidateIdentifiedByOwner (fCtx c) then Inr owner
      else if GetByIdentifier owner (candCenter s) \<noteq> None
        then Inl (HandleError ErrInvalidOwner RS_ErrCandidateAlreadyExist)
      else mapErrR (\<lambda>e. HandleError e RS_ErrCandidateAlreadyExist)
             (generateCandidateID p owner (BlockHeight c) s))"

definition ownerOf :: "ctx \<Rightarrow> CandidateRegister \<Rightarrow> addr" where
  "ownerOf c act = (case crOwnerAddress act of None \<Rightarrow> Caller c | Some a \<Rightarrow> a)"

text \<open>The self-stake bucket, if there is one: its index and its votes.\<close>

definition putSelfStake ::
  "StakingProtocol \<Rightarrow> ctx \<Rightarrow> CandidateRegister \<Rightarrow> addr \<Rightarrow> ('a staking_world_scheme, u64 \<times> int) op" where
  "putSelfStake p c act candID =
     (if crAmount act > 0 then
        let bucket = NewVoteBucket candID (ownerOf c act) (crAmount act) (crDuration act)
              (BlockTimeStamp c) (crAutoStake act)
        in bindS (onStk (putBucketAndIndex bucket)) (\<lambda>bucketIdx.
           returnS (bucketIdx, calculateVoteWeight p (bucket\<lparr>vbIndex := bucketIdx\<rparr>) True))
      else returnS (candidateNoSelfStakeBucketIndex, 0))"

definition registeredCandidate :: "ctx \<Rightarrow> CandidateRegister \<Rightarrow> addr \<Rightarrow> u64 \<Rightarrow> int \<Rightarrow> Candidate" where
  "registeredCandidate c act candID bucketIdx votes =
     \<lparr>cOwner = ownerOf c act, cOperator = crOperatorAddress act, cReward = crRewardAddress act,
      cIdentifier = (if CandidateIdentifiedByOwner (fCtx c) then None else Some candID),
      cBLSPubKey = (if crWithBLS act then crBLSPubKey act else []), cName = crName act, cVotes = votes,
      cSelfStakeBucketIdx = bucketIdx, cSelfStake = crAmount act\<rparr>"

definition handleCandidateRegister ::
  "'a staking_world_ext reward_world_ext DepositGasFn \<Rightarrow> StakingProtocol \<Rightarrow> ctx \<Rightarrow> CandidateRegister \<Rightarrow>
   ('a staking_world_scheme, TransactionLog list) op" where
  "handleCandidateRegister depositGas p c act =
     bindS (fetchCaller c (crAmount act + cfgRegistrationFee p)) (\<lambda>caller.
     let owner = ownerOf c act in
     bindStk (\<lambda>_ s. Inr (GetByOwner owner (candCenter s))) (\<lambda>existing.
     thenS (checkS (case existing of None \<Rightarrow> True
         | Some e \<Rightarrow> CandidateIdentifiedByOwner (fCtx c) \<and> cSelfStake e = 0)
       (HandleError ErrInvalidOwner RS_ErrCandidateAlreadyExist)) (
     bindStk (\<lambda>_. registrationID p c owner) (\<lambda>candID.
     bindStk (\<lambda>_. registrationConflict c act existing) (\<lambda>_.
     bindS (putSelfStake p c act candID) (\<lambda>(bucketIdx, votes).
     let cand = registeredCandidate c act candID bucketIdx votes in
     thenS (whenS (crWithBLS act) (liftS (mapErrR (\<lambda>_. Errorf ''failed to pack candidate register with BLS event'') (crEventsPacked act)))) (
     thenS (upsertCandidate cand) (
     bindStk (\<lambda>height _. Inr height) (\<lambda>height.
     thenS (whenS (needToWriteCandsMap p c height) (onStk (recordOwnerS cand))) (
     thenS (whenS (crAmount act > 0) (
       thenS (mapErrS (\<lambda>e. HandleError e RS_ErrWriteAccount) (onStk (DebitPool (crAmount act) True))) (
       bindS (orStatus RS_ErrNotEnoughBalance (SubBalance (Some (crAmount act)) caller))
         (StoreAccount (Caller c))))) (
     bindS (depositGas c (cfgRegistrationFee p) noDepositOption) (\<lambda>_.
     returnS ((if crAmount act > 0 then [\<lparr>tlType = CANDIDATE_SELF_STAKE, tlSender = Acct (Caller c),
         tlRecipient = StakingBucketPoolAddr, tlAmount = crAmount act\<rparr>] else []) @
       [\<lparr>tlType = CANDIDATE_REGISTRATION_FEE, tlSender = Acct (Caller c), tlRecipient = RewardingPoolAddr,
         tlAmount = cfgRegistrationFee p\<rparr>])))))))))))))"

definition updatedCandidate :: "CandidateUpdate \<Rightarrow> Candidate \<Rightarrow> Candidate" where
  "updatedCandidate act d = d\<lparr>
     cName := (if length (cuName act) \<noteq> 0 then cuName act else cName d),
     cOperator := (case cuOperatorAddress act of None \<Rightarrow> cOperator d | Some a \<Rightarrow> a),
     cReward := (case cuRewardAddress act of None \<Rightarrow> cReward d | Some a \<Rightarrow> a),
     cBLSPubKey := (if cuWithBLS act then cuBLSPubKey act else cBLSPubKey d)\<rparr>"

definition handleCandidateUpdate ::
  "StakingProtocol \<Rightarrow> ctx \<Rightarrow> CandidateUpdate \<Rightarrow> ('a staking_world_scheme, TransactionLog list) op" where
  "handleCandidateUpdate p c act =
     bindS (fetchCaller c 0) (\<lambda>_.
     bindStk (\<lambda>_ s. needCand (GetByOwner (Caller c) (candCenter s))) (\<lambda>d.
     let d = updatedCandidate act d in
     thenS (whenS (cuWithBLS act) (liftS (mapErrR (\<lambda>_. Errorf ''failed to pack candidate register with BLS event'') (cuEventPacked act)))) (
     thenS (upsertCandidate d) (
     bindStk (\<lambda>height _. Inr height) (\<lambda>height.
     thenS (whenS (needToWriteCandsMap p c height) (onStk (recordOwnerS d))) (
     returnS []))))))"

definition validateActivation ::
  "StakingProtocol \<Rightarrow> ctx \<Rightarrow> u64 \<Rightarrow> staking_state \<Rightarrow> VoteBucket \<Rightarrow> Candidate \<Rightarrow> unit res" where
  "validateActivation p c height s bucket cand =
     bindR (validateBucketMinAmount bucket (cfgMinSelfStake p)) (\<lambda>_.
     bindR (validateBucketStake bucket True) (\<lambda>_.
     bindR (validateBucketSelfStake (fCtx c) height s bucket False) (\<lambda>_.
     bindR (validateBucketCandidate bucket (GetIdentifier cand)) (\<lambda>_.
     if validateBucketOwner bucket (cOwner cand) \<noteq> Inr () \<and>
        validateBucketWithEndorsement c s bucket (BlockHeight c) \<noteq> Inr ()
     then Inl (HandleError (Errorf ''bucket is not a self-owned or endorsed bucket'') RS_ErrUnauthorizedOperator)
     else Inr ()))))"

text \<open>A self-stake bucket becomes a vote bucket, and the other way round.\<close>

definition toVoteBucket :: "StakingProtocol \<Rightarrow> VoteBucket \<Rightarrow> Candidate \<Rightarrow> Candidate res" where
  "toVoteBucket p bucket cand =
     bindR (SubVote (calculateVoteWeight p bucket True) cand) (AddVote (calculateVoteWeight p bucket False))"

definition toSelfStakeBucket :: "StakingProtocol \<Rightarrow> VoteBucket \<Rightarrow> Candidate \<Rightarrow> Candidate res" where
  "toSelfStakeBucket p bucket cand =
     bindR (SubVote (calculateVoteWeight p bucket False)
       (cand\<lparr>cSelfStakeBucketIdx := vbIndex bucket, cSelfStake := \<bar>vbStakedAmount bucket\<bar>\<rparr>))
       (AddVote (calculateVoteWeight p bucket True))"

definition handleCandidateActivate ::
  "StakingProtocol \<Rightarrow> ctx \<Rightarrow> u64 \<Rightarrow> ('a staking_world_scheme, TransactionLog list) op" where
  "handleCandidateActivate p c bucketID =
     bindStk (\<lambda>_ s. fetchBucket s bucketID) (\<lambda>bucket.
     bindStk (\<lambda>_ s. needCand (GetByOwner (Caller c) (candCenter s))) (\<lambda>cand.
     bindStk (\<lambda>h s. validateActivation p c h s bucket cand) (\<lambda>_.
     bindStk (\<lambda>_ s. if cSelfStake cand > 0
       then bindR (fetchBucket s (cSelfStakeBucketIdx cand)) (\<lambda>prevBucket. toVoteBucket p prevBucket cand)
       else Inr cand) (\<lambda>cand.
     bindS (liftS (toSelfStakeBucket p bucket cand)) (\<lambda>cand.
     thenS (upsertCandidate cand) (
     returnS []))))))"

definition validateEndorsement ::
  "StakingProtocol \<Rightarrow> ctx \<Rightarrow> u64 \<Rightarrow> staking_state \<Rightarrow> VoteBucket \<Rightarrow> Candidate \<Rightarrow> unit res" where
  "validateEndorsement p c height s bucket cand =
     bindR (validateBucketOwner bucket (Caller c)) (\<lambda>_.
     bindR (validateBucketMinAmount bucket (cfgMinSelfStake p)) (\<lambda>_.
     bindR (validateBucketStake bucket True) (\<lambda>_.
     bindR (validateBucketCandidate bucket (GetIdentifier cand)) (\<lambda>_.
     bindR (validateBucketSelfStake (fCtx c) height s bucket False) (\<lambda>_.
     validateBucketWithoutEndorsement c s bucket (BlockHeight c))))))"

definition validateIntentToRevokeEndorsement :: "ctx \<Rightarrow> staking_state \<Rightarrow> VoteBucket \<Rightarrow> unit res" where
  "validateIntentToRevokeEndorsement c s bucket =
     bindR (validateBucketOwner bucket (Caller c)) (\<lambda>_.
     validateBucketEndorsementWithdrawal c s bucket (BlockHeight c))"

definition validateRevokeEndorsement :: "ctx \<Rightarrow> staking_state \<Rightarrow> VoteBucket \<Rightarrow> unit res" where
  "validateRevokeEndorsement c s bucket =
     bindR (validateBucketOwner bucket (Caller c)) (\<lambda>_.
     checkR (esmStatus (fCtx c) s (vbIndex bucket) (BlockHeight c) = UnEndorsing)
       (HandleError (Errorf ''bucket is not ready to revoke endorsement'') RS_ErrInvalidBucketType))"

definition clearCandidateSelfStake :: "StakingProtocol \<Rightarrow> VoteBucket \<Rightarrow> Candidate \<Rightarrow> Candidate res" where
  "clearCandidateSelfStake p bucket cand =
     (if cSelfStakeBucketIdx cand \<noteq> vbIndex bucket then Inl (Errorf ''self-stake bucket index mismatch'')
      else bindR (toVoteBucket p bucket cand) (\<lambda>cand.
        Inr (cand\<lparr>cSelfStakeBucketIdx := candidateNoSelfStakeBucketIndex, cSelfStake := 0\<rparr>)))"

definition handleCandidateEndorsement ::
  "StakingProtocol \<Rightarrow> ctx \<Rightarrow> u64 \<Rightarrow> CandidateEndorsementOp \<Rightarrow> ('a staking_world_scheme, TransactionLog list) op" where
  "handleCandidateEndorsement p c bucketIndex op =
     bindStk (\<lambda>_ s. fetchBucket s bucketIndex) (\<lambda>bucket.
     bindStk (\<lambda>_ s. needCand (GetByIdentifier (vbCandidate bucket) (candCenter s))) (\<lambda>cand.
     case op of
       CandidateEndorsementOpEndorse \<Rightarrow>
         bindStk (\<lambda>h s. validateEndorsement p c h s bucket cand) (\<lambda>_.
         thenS (onStk (esmPut (vbIndex bucket) endorsementNotExpireHeight)) (returnS []))
     | CandidateEndorsementOpIntentToRevoke \<Rightarrow>
         bindStk (\<lambda>_ s. validateIntentToRevokeEndorsement c s bucket) (\<lambda>_.
         bindStk (\<lambda>h s. Inr (isSelfStakeBucket (fCtx c) h s bucket)) (\<lambda>selfStake.
         let expireHeight = (if selfStake then BlockHeight c + cfgEndorsementWithdrawWaitingBlocks p
                             else BlockHeight c) in
         thenS (onStk (esmPut (vbIndex bucket) expireHeight)) (returnS [])))
     | CandidateEndorsementOpRevoke \<Rightarrow>
         bindStk (\<lambda>_ s. validateRevokeEndorsement c s bucket) (\<lambda>_.
         thenS (whenS (cSelfStakeBucketIdx cand = vbIndex bucket)
           (bindS (liftS (clearCandidateSelfStake p bucket cand)) upsertCandidate)) (
         thenS (onStk (esmDelete (vbIndex bucket))) (
         returnS [])))))"

definition candEqual :: "Candidate \<Rightarrow> Candidate \<Rightarrow> bool" where
  "candEqual d e \<longleftrightarrow> cName d = cName e \<and> cSelfStakeBucketIdx d = cSelfStakeBucketIdx e \<and>
     cOwner d = cOwner e \<and> cIdentifier d = cIdentifier e \<and> cOperator d = cOperator e \<and>
     cReward d = cReward e \<and> cVotes d = cVotes e \<and> cSelfStake d = cSelfStake e \<and> cBLSPubKey d = cBLSPubKey e"

text \<open>The account of the new owner is created if it does not exist.\<close>

definition validateCandidateTransferOwnership :: "addr \<Rightarrow> addr \<Rightarrow> ('a staking_world_scheme, unit) op" where
  "validateCandidateTransferOwnership newOwner caller =
     bindStk (\<lambda>_ s. case GetByOwner caller (candCenter s) of
         None \<Rightarrow> Inl (HandleError (Errorf ''candidate does not exist'') RS_ErrCandidateNotExist)
       | Some candidate \<Rightarrow> Inr candidate) (\<lambda>candidate.
     thenS (failIf (newOwner = caller) ''new owner is the same as the current owner'' RS_ErrUnauthorizedOperator) (
     bindS (mapErrS (\<lambda>_. HandleError (Errorf ''new owner is not a valid address'') RS_ErrUnknown)
       (LoadOrCreateAccount newOwner [])) (\<lambda>acc.
     thenS (failIf (IsContract acc) ''new owner is not a valid address'' RS_ErrUnknown) (
     bindStk (\<lambda>_ s.
       if GetByOwner newOwner (candCenter s) \<noteq> None
         then Inl (HandleError (Errorf ''new owner is already a candidate'') RS_ErrCandidateAlreadyExist)
       else if (case GetByIdentifier newOwner (candCenter s) of None \<Rightarrow> False
                | Some cand \<Rightarrow> \<not> candEqual cand candidate)
         then Inl (HandleError (Errorf ''new owner is already a candidate'') RS_ErrCandidateAlreadyExist)
       else Inr ()) returnS))))"

text \<open>Whether the self stake has to be cleared, and by how much the votes shrink.\<close>

definition needClear ::
  "StakingProtocol \<Rightarrow> ctx \<Rightarrow> u64 \<Rightarrow> staking_state \<Rightarrow> Candidate \<Rightarrow> (bool \<times> int) res" where
  "needClear p c height s candidate =
     (case NativeBucket s (cSelfStakeBucketIdx candidate) of
        Inr bucket \<Rightarrow>
          if esmStatus (fCtx c) s (vbIndex bucket) height \<noteq> EndorseExpired then Inr (False, 0)
          else Inr (True, if isUnstaked bucket then 0
                    else calculateVoteWeight p bucket True - calculateVoteWeight p bucket False)
      | Inl e \<Rightarrow> if e = ErrStateNotExist then Inr (True, 0) else Inl e)"

definition handleCandidateTransferOwnership ::
  "StakingProtocol \<Rightarrow> ctx \<Rightarrow> addr \<Rightarrow> ('a staking_world_scheme, TransactionLog list) op" where
  "handleCandidateTransferOwnership p c newOwner =
     bindS (fetchCaller c 0) (\<lambda>_.
     thenS (validateCandidateTransferOwnership newOwner (Caller c)) (
     bindStk (\<lambda>_ s. case GetByOwner (Caller c) (candCenter s) of
         None \<Rightarrow> Inl (Panic ''nil candidate'') | Some d \<Rightarrow> Inr d) (\<lambda>candidate.
     let candidate = candidate\<lparr>cIdentifier := (case cIdentifier candidate of None \<Rightarrow> Some (cOwner candidate) | Some i \<Rightarrow> Some i),
           cOwner := newOwner\<rparr> in
     bindStk (\<lambda>h s. if isSelfStakeBucketSettled candidate
       then bindR (needClear p c h s candidate) (\<lambda>(clear, subVotes).
         Inr (if clear then candidate\<lparr>cSelfStakeBucketIdx := candidateNoSelfStakeBucketIndex, cSelfStake := 0,
                cVotes := cVotes candidate - subVotes\<rparr> else candidate))
       else Inr candidate) (\<lambda>candidate.
     thenS (upsertCandidate candidate) (
     returnS [])))))"

text \<open>\<^verbatim>\<open>SanityCheck\<close> of the actions (\<^verbatim>\<open>action/stake_create.go\<close> and others), run when an action enters the
  node.\<close>

definition stakingSanityCheck :: "StakingAction \<Rightarrow> unit res" where
  "stakingSanityCheck act = (case act of
       ActCreateStake a \<Rightarrow> if csAmount a \<le> 0 then Inl ErrInvalidAmount
         else checkR (IsValidCandidateName (csCandidate a)) ErrInvalidCanName
     | ActDepositToStake a \<Rightarrow> if dsAmount a \<le> 0 then Inl ErrInvalidAmount else Inr ()
     | ActChangeCandidate a \<Rightarrow> checkR (IsValidCandidateName (ccCandidate a)) ErrInvalidCanName
     | ActCandidateRegister a \<Rightarrow> if crAmount a < 0 then Inl ErrInvalidAmount
         else checkR (IsValidCandidateName (crName a)) ErrInvalidCanName
     | ActCandidateUpdate a \<Rightarrow> checkR (IsValidCandidateName (cuName a)) ErrInvalidCanName
     | _ \<Rightarrow> Inr ())"

section \<open>Dispatch and settlement (protocol.go)\<close>

definition runStaking ::
  "'a staking_world_ext reward_world_ext DepositGasFn \<Rightarrow> StakingProtocol \<Rightarrow> ctx \<Rightarrow> StakingAction \<Rightarrow>
   ('a staking_world_scheme, TransactionLog list) op" where
  "runStaking depositGas p c act = (case act of
       ActCreateStake a \<Rightarrow> handleCreateStake p c a
     | ActUnstake i \<Rightarrow> handleUnstake p c i
     | ActWithdrawStake i \<Rightarrow> handleWithdrawStake p c i
     | ActChangeCandidate a \<Rightarrow> handleChangeCandidate p c a
     | ActTransferStake a \<Rightarrow> handleTransferStake p c a
     | ActDepositToStake a \<Rightarrow> handleDepositToStake p c a
     | ActRestake a \<Rightarrow> handleRestake p c a
     | ActCandidateRegister a \<Rightarrow> handleCandidateRegister depositGas p c a
     | ActCandidateUpdate a \<Rightarrow> handleCandidateUpdate p c a
     | ActCandidateActivate i \<Rightarrow> handleCandidateActivate p c i
     | ActCandidateEndorsement i op _ \<Rightarrow> handleCandidateEndorsement p c i op
     | ActCandidateTransferOwnership a \<Rightarrow> handleCandidateTransferOwnership p c a)"

definition settleAction ::
  "'w DepositGasFn \<Rightarrow> ctx \<Rightarrow> tx_price \<Rightarrow> receipt_status \<Rightarrow> TransactionLog list \<Rightarrow> u64 \<Rightarrow> u64 \<Rightarrow> bool \<Rightarrow>
   ('w world_scheme, Receipt) op" where
  "settleAction depositGas c price status tLogs gasConsumed gasToBeDeducted nonceUpdateOption =
     bindS (liftS (splitGas c price gasToBeDeducted)) (\<lambda>(priorityFee, baseFee).
     bindS (depositGas c baseFee (PriorityFeeOption priorityFee)) (\<lambda>depositLog.
     thenS (whenS nonceUpdateOption (
       bindS (LoadAccount (Caller c) (accountCreationOpts c)) (\<lambda>acc.
       bindS (liftS (SetPendingNonce (actNonce c + 1) acc)) (StoreAccount (Caller c))))) (
     returnS \<lparr>Status = status, rBlockHeight = BlockHeight c, GasConsumed = gasConsumed,
       rEffectiveGasPrice = effectiveGasPrice c price, transactionLogs = depositLog @ tLogs\<rparr>)))"

definition handleStaking ::
  "'a staking_world_ext reward_world_ext DepositGasFn \<Rightarrow> StakingProtocol \<Rightarrow> ctx \<Rightarrow> tx_price \<Rightarrow> StakingAction \<Rightarrow>
   ('a staking_world_scheme, Receipt) op" where
  "handleStaking depositGas p c price act sm =
     (case runStaking depositGas p c act sm of
        (Inr tLogs, sm1) \<Rightarrow>
          settleAction depositGas c price RS_Success tLogs (IntrinsicGas c) (IntrinsicGas c) True sm1
      | (Inl (HandleError e st), sm1) \<Rightarrow>
          settleAction depositGas c price st [] (IntrinsicGas c) (IntrinsicGas c) True sm1
      | (Inl e, sm1) \<Rightarrow> (Inl e, sm1))"

text \<open>\<^verbatim>\<open>Handle\<close> takes a snapshot of the view and reverts to it when \<^verbatim>\<open>handle\<close> returns an error.\<close>

definition HandleStaking ::
  "'a staking_world_ext reward_world_ext DepositGasFn \<Rightarrow> StakingProtocol \<Rightarrow> ctx \<Rightarrow> tx_price \<Rightarrow> StakingAction \<Rightarrow>
   ('a staking_world_scheme, Receipt) op" where
  "HandleStaking depositGas p c price act =
     bindS (onStk viewSnapshot) (\<lambda>snapshot sm.
       case handleStaking depositGas p c price act sm of
         (Inr r, sm1) \<Rightarrow> (Inr r, sm1)
       | (Inl e, sm1) \<Rightarrow> thenS (onStk (viewRevert snapshot)) (failS e) sm1)"

text \<open>
  Slashing fails with the first error.  The source wraps some of them with a message, which hides a receipt
  status; its callers do not look for one.
\<close>

definition SlashCandidate :: "StakingProtocol \<Rightarrow> ctx \<Rightarrow> addr \<Rightarrow> int option \<Rightarrow> ('a staking_world_scheme, unit) op" where
  "SlashCandidate p c operator amount =
     (case amount of None \<Rightarrow> failS (Errorf ''nil or non-positive amount'')
      | Some amount \<Rightarrow>
        thenS (checkS (0 < amount) (Errorf ''nil or non-positive amount'')) (
        bindStk (\<lambda>_ s. case (if CandidateSlashByOwner (fCtx c) then GetByIdentifier operator (candCenter s)
                            else GetByOperator operator (candCenter s)) of
            None \<Rightarrow> Inl ErrCandidateNotExist | Some d \<Rightarrow> Inr d) (\<lambda>candidate.
        thenS (checkS (cSelfStakeBucketIdx candidate \<noteq> candidateNoSelfStakeBucketIndex) ErrNoSelfStakeBucket) (
        bindStk (\<lambda>_ s. fetchBucket s (cSelfStakeBucketIdx candidate)) (\<lambda>bucket.
        let prevWeightedVotes = calculateVoteWeight p bucket True in
        thenS (checkS (\<not> vbStakedAmount bucket < amount) (Errorf ''amount is greater than staked amount'')) (
        let bucket = bucket\<lparr>vbStakedAmount := vbStakedAmount bucket - amount\<rparr> in
        thenS (onStk (updateBucket (vbIndex bucket) bucket)) (
        bindS (liftS (bindR (SubVote prevWeightedVotes candidate) (\<lambda>candidate.
          bindR (AddVote (calculateVoteWeight p bucket True) candidate) (SubSelfStake amount)))) (\<lambda>candidate.
        thenS (onStk (csmUpsert candidate)) (
        onStk (CreditPool amount False))))))))))"

definition isActiveCandidate :: "StakingProtocol \<Rightarrow> ctx \<Rightarrow> u64 \<Rightarrow> staking_state \<Rightarrow> Candidate \<Rightarrow> bool res" where
  "isActiveCandidate p c height s cand =
     (if (if NotUseMinSelfStakeToBeActive (fCtx c) then cSelfStake cand < cfgMinSelfStake p
          else cSelfStake cand < cfgMinSelfStakeToBeActive p) then Inr False
      else if DisableDelegateEndorsement (fCtx c) then Inr True
      else case NativeBucket s (cSelfStakeBucketIdx cand) of
        Inl e \<Rightarrow> if e = ErrStateNotExist then Inr False else Inl e
      | Inr bucket \<Rightarrow> Inr (isSelfStakeBucket (fCtx c) height s bucket))"

text \<open>The active candidates; \<open>contractVotes\<close> are the votes of the contract staking views.\<close>

fun activeFrom ::
  "StakingProtocol \<Rightarrow> ctx \<Rightarrow> u64 \<Rightarrow> staking_state \<Rightarrow> (addr \<Rightarrow> int) \<Rightarrow> Candidate list \<Rightarrow> Candidate list res" where
  "activeFrom p c height s contractVotes [] = Inr []"
| "activeFrom p c height s contractVotes (d # ds) =
     (let d' = (if StoreVoteOfNFTBucketIntoView (fCtx c)
                then d\<lparr>cVotes := cVotes d + contractVotes (GetIdentifier d)\<rparr> else d)
      in bindR (isActiveCandidate p c height s d') (\<lambda>active.
         bindR (activeFrom p c height s contractVotes ds) (\<lambda>rest.
         Inr (if active then d' # rest else rest))))"

definition ActiveCandidates ::
  "StakingProtocol \<Rightarrow> ctx \<Rightarrow> u64 \<Rightarrow> staking_state \<Rightarrow> (addr \<Rightarrow> int) \<Rightarrow> Candidate list res" where
  "ActiveCandidates p c height s contractVotes = activeFrom p c height s contractVotes (All (candCenter s))"

record BootstrapCandidate =
  bcOwner :: addr
  bcOperator :: addr
  bcReward :: addr
  bcName :: string
  bcSelfStakingTokens :: int

definition bootstrapOne :: "StakingProtocol \<Rightarrow> ctx \<Rightarrow> BootstrapCandidate \<Rightarrow> (staking_state, unit) op" where
  "bootstrapOne p c bc =
     (let bucket = NewVoteBucket (bcOwner bc) (bcOwner bc) (bcSelfStakingTokens bc) 7 (BlockTimeStamp c) True
      in bindS (putBucketAndIndex bucket) (\<lambda>bucketIdx.
         thenS (csmUpsert \<lparr>cOwner = bcOwner bc, cOperator = bcOperator bc, cReward = bcReward bc,
           cIdentifier = None, cBLSPubKey = [], cName = bcName bc,
           cVotes = calculateVoteWeight p (bucket\<lparr>vbIndex := bucketIdx\<rparr>) True,
           cSelfStakeBucketIdx = bucketIdx, cSelfStake = bcSelfStakingTokens bc\<rparr>) (
         DebitPool (bcSelfStakingTokens bc) True)))"

fun bootstrapAll :: "StakingProtocol \<Rightarrow> ctx \<Rightarrow> BootstrapCandidate list \<Rightarrow> (staking_state, unit) op" where
  "bootstrapAll p c [] = returnS ()"
| "bootstrapAll p c (bc # bcs) = thenS (bootstrapOne p c bc) (bootstrapAll p c bcs)"

definition stakingCommit :: "ctx \<Rightarrow> u64 \<Rightarrow> (staking_state, unit) op" where
  "stakingCommit c height = (\<lambda>s. if viewIsDirty s
     then viewCommit (CandCenterHasAlias c height) (CandidateBLSPublicKeyNotCopied (fCtx c)) s
     else (Inr (), s))"

definition stakingCreateGenesisStates ::
  "StakingProtocol \<Rightarrow> ctx \<Rightarrow> BootstrapCandidate list \<Rightarrow> ('a staking_world_scheme, unit) op" where
  "stakingCreateGenesisStates p c bcs =
     (if bcs = [] then returnS ()
      else thenS (onStk (bootstrapAll p c bcs)) (\<lambda>sm.
        onStk (viewCommit (CandCenterHasAlias c (smHeight sm)) (CandidateBLSPublicKeyNotCopied (fCtx c))) sm))"

end
