(* ===== verification/StakingMoney.thy ===== *)
theory StakingMoney
  imports StakingDispatch
begin

text \<open>
  Staking conserves the supply: the transaction logs of every receipt of a staking action, of a
  successful and of a failed one, explain the change of every account, of the rewarding pool and of
  the staking bucket pool.
\<close>

definition stakingPool :: "'a staking_world_scheme \<Rightarrow> int" where
  "stakingPool sm = tAmount (total (bucketPool (stk sm)))"

text \<open>The part of the state that holds tokens is that of \<open>sm0\<close>.\<close>

definition sameMoney :: "'a staking_world_scheme \<Rightarrow> 'a staking_world_scheme \<Rightarrow> bool" where
  "sameMoney sm0 sm \<longleftrightarrow> acctNS sm = acctNS sm0 \<and> rewV1 sm = rewV1 sm0 \<and> rewV2 sm = rewV2 sm0 \<and>
     stakingPool sm = stakingPool sm0"

section \<open>Steps that move no tokens\<close>

lemma onStk_run [run_simps]:
  "onStk m sm = (Inr x, sm') \<longleftrightarrow> (\<exists>s. m (stk sm) = (Inr x, s) \<and> sm' = sm\<lparr>stk := s\<rparr>)"
  by (auto simp: onStk_def split: prod.splits)

lemma bindStk_run [run_simps]:
  "bindStk f k sm = (Inr y, sm') \<longleftrightarrow> (\<exists>x. f (smHeight sm) (stk sm) = Inr x \<and> k x sm = (Inr y, sm'))"
  by (auto simp: bindStk_def bindS_def split: sum.splits)

text \<open>A step of the candidate state manager that leaves the pool alone.\<close>

definition keepsPool :: "(staking_state, 'x) op \<Rightarrow> bool" where
  "keepsPool m \<longleftrightarrow> (\<forall>b. preserves (\<lambda>s. bucketPool s = b) m)"

lemma keepsPoolI: "(\<And>b. preserves (\<lambda>s. bucketPool s = b) m) \<Longrightarrow> keepsPool m"
  by (simp add: keepsPool_def)

lemma preserves_onStk:
  assumes "keepsPool m"
  shows "preserves (sameMoney sm0) (onStk m)"
proof -
  have "bucketPool (snd (m s)) = bucketPool s" for s
    using assms by (simp add: keepsPool_def preserves_def)
  then show ?thesis
    by (auto simp: preserves_def onStk_def sameMoney_def stakingPool_def split: prod.splits)
       (metis snd_conv)+
qed

lemma preserves_state_read: "preserves P (\<lambda>s. (f s, s))"
  by (simp add: preserves_def)

lemmas keepsPool_unfold = updateBucket_def putBucket_def delBucket_def putVoterBucketIndex_def
  putCandBucketIndex_def delVoterBucketIndex_def delCandBucketIndex_def putBucketAndIndex_def
  delBucketAndIndex_def csmUpsert_def esmPut_def esmDelete_def recordOwnerS_def

lemma keepsPool_ops [simp]:
  "keepsPool (updateBucket i b)" "keepsPool (putBucketAndIndex b)" "keepsPool (delBucketAndIndex o' ca i)"
  "keepsPool (putVoterBucketIndex a i)" "keepsPool (putCandBucketIndex a i)"
  "keepsPool (delVoterBucketIndex a i)" "keepsPool (delCandBucketIndex a i)"
  "keepsPool (csmUpsert d)" "keepsPool (esmPut i h)" "keepsPool (esmDelete i)" "keepsPool (recordOwnerS d)"
  unfolding keepsPool_unfold
  by (rule keepsPoolI; intro preserves_intros preserves_state_read preserves_modifyS; simp)+

lemma preserves_onStk_ops [preserves_intros]:
  "preserves (sameMoney sm0) (onStk (updateBucket i b))"
  "preserves (sameMoney sm0) (onStk (putBucketAndIndex b))"
  "preserves (sameMoney sm0) (onStk (delBucketAndIndex o' ca i))"
  "preserves (sameMoney sm0) (onStk (putVoterBucketIndex a i))"
  "preserves (sameMoney sm0) (onStk (putCandBucketIndex a i))"
  "preserves (sameMoney sm0) (onStk (delVoterBucketIndex a i))"
  "preserves (sameMoney sm0) (onStk (delCandBucketIndex a i))"
  "preserves (sameMoney sm0) (onStk (esmPut i h))"
  "preserves (sameMoney sm0) (onStk (esmDelete i))"
  "preserves (sameMoney sm0) (onStk (recordOwnerS d))"
  by (simp_all add: preserves_onStk)

lemma preserves_upsertCandidate [preserves_intros]: "preserves (sameMoney sm0) (upsertCandidate d)"
  unfolding upsertCandidate_def by (intro preserves_intros preserves_onStk) simp

lemma preserves_bindStk [preserves_intros]: "(\<And>x. preserves P (k x)) \<Longrightarrow> preserves P (bindStk f k)"
  unfolding bindStk_def by (intro preserves_intros preserves_state_read)

lemma preserves_orStatus [preserves_intros]: "preserves P (orStatus st r)"
  unfolding orStatus_def by (rule preserves_liftS)

lemma preserves_failIf [preserves_intros]: "preserves P (failIf b msg st)"
  unfolding failIf_def by (rule preserves_checkS)

lemma preserves_LoadAccount [preserves_intros]: "preserves P (LoadAccount a opts)"
  by (simp add: preserves_def LoadAccount_def)

lemma preserves_fetchCaller [preserves_intros]: "preserves P (fetchCaller c amount)"
  unfolding fetchCaller_def Let_def by (intro preserves_intros)

lemma preserves_checkNotEndorsed [preserves_intros]: "preserves P (checkNotEndorsed c b)"
  unfolding checkNotEndorsed_def by (intro preserves_intros)

lemma preserves_case_prod [preserves_intros]:
  "(\<And>a b. preserves P (f a b)) \<Longrightarrow> preserves P (case x of (a, b) \<Rightarrow> f a b)"
  by (cases x) simp

text \<open>The handlers that move no tokens, on every outcome.\<close>

lemma keeps_handlers:
  "preserves (sameMoney sm0) (handleUnstake p c i)"
  "preserves (sameMoney sm0) (handleChangeCandidate p c cc)"
  "preserves (sameMoney sm0) (handleTransferStake p c ts)"
  "preserves (sameMoney sm0) (handleRestake p c rs)"
  "preserves (sameMoney sm0) (handleCandidateUpdate p c cu)"
  "preserves (sameMoney sm0) (handleCandidateActivate p c i)"
  "preserves (sameMoney sm0) (handleCandidateEndorsement p c i op)"
  unfolding handleUnstake_def handleChangeCandidate_def handleTransferStake_def handleRestake_def
    handleCandidateUpdate_def handleCandidateActivate_def handleCandidateEndorsement_def Let_def
  by (cases op; intro preserves_intros; simp split: CandidateEndorsementOp.split; intro preserves_intros)+

section \<open>Steps that move tokens\<close>

definition paid :: "ctx \<Rightarrow> TransactionLog list \<Rightarrow> 'a staking_world_scheme \<Rightarrow> 'a staking_world_scheme \<Rightarrow> bool" where
  "paid c logs sm0 sm \<longleftrightarrow> wf_accounts sm \<and> explains (rewardingPool c) stakingPool logs sm0 sm"

text \<open>Only a receipt error is settled, so only then the holdings matter.\<close>

definition settled :: "ctx \<Rightarrow> 'a staking_world_scheme \<Rightarrow> go_error \<Rightarrow> 'a staking_world_scheme \<Rightarrow> bool" where
  "settled c sm0 e sm \<longleftrightarrow> (case e of HandleError _ _ \<Rightarrow> paid c [] sm0 sm | _ \<Rightarrow> True)"

lemma rewardingPool_stk [simp]: "rewardingPool c (sm\<lparr>stk := s\<rparr>) = rewardingPool c sm"
  by (simp add: rewardingPool_def fundOf_def view_def)

lemma rewardingPool_acct [simp]: "rewardingPool c (sm\<lparr>acctNS := m\<rparr>) = rewardingPool c sm"
  by (simp add: rewardingPool_def fundOf_def view_def)

lemma stakingPool_acct [simp]: "stakingPool (sm\<lparr>acctNS := m\<rparr>) = stakingPool sm"
  by (simp add: stakingPool_def)

lemma accounts_stk [simp]:
  "balOf (sm\<lparr>stk := s\<rparr>) a = balOf sm a" "wf_accounts (sm\<lparr>stk := s\<rparr>) = wf_accounts sm"
  by (simp_all add: balOf_def wf_accounts_def)

lemma sameMoney_paid:
  assumes "sameMoney sm0 sm" "wf_accounts sm0" shows "paid c [] sm0 sm"
  using assms by (auto simp: paid_def sameMoney_def explains_def balOf_def wf_accounts_def rewardingPool_def
      fundOf_def view_def)

lemma sameMoney_settled: "wf_accounts sm0 \<Longrightarrow> sameMoney sm0 sm \<Longrightarrow> settled c sm0 e sm"
  by (auto simp: settled_def intro: sameMoney_paid split: go_error.splits)

lemma paid_settled: "paid c [] sm0 sm \<Longrightarrow> settled c sm0 e sm"
  by (auto simp: settled_def split: go_error.splits)

lemma sameMoney_refl: "sameMoney sm sm"
  by (simp add: sameMoney_def)

text \<open>The caller that was fetched can pay the amount and the gas.\<close>

definition callerOf :: "ctx \<Rightarrow> int \<Rightarrow> 'a staking_world_scheme \<Rightarrow> account \<Rightarrow> bool" where
  "callerOf c amount sm0 acc \<longleftrightarrow> LoadAccountByHash160 sm0 (Caller c) (accountCreationOpts c) = Inr acc \<and>
     wf_account acc \<and> bal acc = balOf sm0 (Caller c) \<and>
     amount + GasPrice c * uint (IntrinsicGas c) \<le> bal acc"

lemma triple_fetchCaller:
  assumes wf: "wf_accounts sm0" and k: "\<And>acc. callerOf c amount sm0 acc \<Longrightarrow> triple (sameMoney sm0) (f acc) Q (settled c sm0)"
  shows "triple (sameMoney sm0) (bindS (fetchCaller c amount) f) Q (settled c sm0)"
proof (rule triple_bindS [where R = "\<lambda>acc s. sameMoney sm0 s \<and> callerOf c amount sm0 acc"])
  show "triple (sameMoney sm0) (fetchCaller c amount) (\<lambda>acc s. sameMoney sm0 s \<and> callerOf c amount sm0 acc) (settled c sm0)"
    unfolding triple_def
  proof (intro allI impI)
    fix s assume s: "sameMoney sm0 s"
    have load: "LoadAccountByHash160 s a opts = LoadAccountByHash160 sm0 a opts" for a opts
      using s by (simp add: sameMoney_def LoadAccountByHash160_def)
    obtain acc where acc: "LoadAccountByHash160 sm0 (Caller c) (accountCreationOpts c) = Inr acc"
      unfolding accountCreationOpts_def using LoadAccount_total by blast
    then have "wf_account acc" "bal acc = balOf sm0 (Caller c)"
      using wf_LoadAccount [OF wf] by (auto simp: accountCreationOpts_def)
    then show "case fetchCaller c amount s of (Inr acc, s') \<Rightarrow> sameMoney sm0 s' \<and> callerOf c amount sm0 acc
        | (Inl e, s') \<Rightarrow> settled c sm0 e s'"
      using s acc sameMoney_settled [OF wf s]
      by (auto simp: fetchCaller_def Let_def op_defs LoadAccount_def load callerOf_def HasSufficientBalance_def
          wf_account_Balance)
  qed
  show "triple (\<lambda>s. sameMoney sm0 s \<and> callerOf c amount sm0 acc) (f acc) Q (settled c sm0)" for acc
    using k [of acc] by (auto simp: triple_def)
qed

lemma triple_bindStk:
  assumes "wf_accounts sm0" "\<And>x. triple (sameMoney sm0) (k x) Q (settled c sm0)"
  shows "triple (sameMoney sm0) (bindStk f k) Q (settled c sm0)"
  unfolding bindStk_def
  by (rule triple_keep_bind) (simp_all add: assms preserves_state_read sameMoney_settled)

text \<open>A step that keeps the holdings, in front of the rest.\<close>

lemma triple_step:
  assumes "wf_accounts sm0" "preserves (sameMoney sm0) m" "\<And>x. triple (sameMoney sm0) (f x) Q (settled c sm0)"
  shows "triple (sameMoney sm0) (bindS m f) Q (settled c sm0)"
  by (rule triple_keep_bind) (simp_all add: assms sameMoney_settled)

lemma triple_then:
  assumes "wf_accounts sm0" "preserves (sameMoney sm0) m" "triple (sameMoney sm0) k Q (settled c sm0)"
  shows "triple (sameMoney sm0) (thenS m k) Q (settled c sm0)"
  unfolding thenS_def by (rule triple_step) (simp_all add: assms)

lemma DebitPool_run:
  "\<exists>s'. DebitPool a n s = (Inr (), s') \<and> tAmount (total (bucketPool s')) = tAmount (total (bucketPool s)) + a"
  by (simp add: DebitPool_def storePool_def op_defs totalAmount_AddBalance_def)

lemma CreditPool_run:
  "CreditPool a d s = (Inr u, s') \<Longrightarrow> tAmount (total (bucketPool s')) = tAmount (total (bucketPool s)) - a"
  by (auto simp: CreditPool_def storePool_def op_defs totalAmount_SubBalance_def split: if_splits sum.splits)

lemma CreditPool_fail: "CreditPool a d s = (Inl e, s') \<Longrightarrow> s' = s"
  by (auto simp: CreditPool_def storePool_def op_defs totalAmount_SubBalance_def split: if_splits)

text \<open>The last steps of a deposit: the amount enters the pool and leaves the caller.\<close>

lemma paid_into_pool:
  assumes wf: "wf_accounts sm0" and caller: "callerOf c amount' sm0 acc" and amounts: "0 \<le> amount" "amount \<le> amount'"
    and gas: "0 \<le> GasPrice c" and s: "sameMoney sm0 s"
  obtains acc' s' where "SubBalance (Some amount) acc = Inr acc'" "onStk (DebitPool amount n) s = (Inr (), s')"
    "\<And>t. paid c [\<lparr>tlType = t, tlSender = Acct (Caller c), tlRecipient = StakingBucketPoolAddr, tlAmount = amount\<rparr>] sm0
       (s'\<lparr>acctNS := (acctNS s')(Caller c \<mapsto> acc')\<rparr>)" "bal acc' = bal acc - amount"
proof -
  have acc: "wf_account acc" "bal acc = balOf sm0 (Caller c)" "amount \<le> bal acc"
    using caller amounts mult_nonneg_nonneg [OF gas uint_ge_0 [of "IntrinsicGas c"]] by (auto simp: callerOf_def)
  let ?acc = "acc\<lparr>Balance := Some (bal acc - amount)\<rparr>"
  have sub: "SubBalance (Some amount) acc = Inr ?acc"
    using amounts acc wf_account_Balance [OF acc(1)] by (auto simp: SubBalance_Inr)
  obtain x where x: "DebitPool amount n (stk s) = (Inr (), x)"
    "tAmount (total (bucketPool x)) = tAmount (total (bucketPool (stk s))) + amount"
    using DebitPool_run by blast
  have "acctNS s = acctNS sm0" "rewardingPool c s = rewardingPool c sm0" "stakingPool s = stakingPool sm0"
    using s by (auto simp: sameMoney_def rewardingPool_def fundOf_def view_def)
  then have "paid c [\<lparr>tlType = t, tlSender = Acct (Caller c), tlRecipient = StakingBucketPoolAddr, tlAmount = amount\<rparr>] sm0
       (s\<lparr>stk := x, acctNS := (acctNS s)(Caller c \<mapsto> ?acc)\<rparr>)" for t
    using acc wf x(2) by (auto simp: paid_def explains_def wf_accounts_def balOf_def stakingPool_def)
  then show ?thesis using that [of ?acc "s\<lparr>stk := x\<rparr>"] sub x(1) by (simp add: onStk_def)
qed

lemma triple_debit:
  assumes wf: "wf_accounts sm0" and caller: "callerOf c amount sm0 acc" and amounts: "0 \<le> amount"
    and gas: "0 \<le> GasPrice c"
  shows "triple (sameMoney sm0)
    (thenS (mapErrS h (onStk (DebitPool amount n)))
      (bindS (orStatus st (SubBalance (Some amount) acc)) (\<lambda>acc. thenS (StoreAccount (Caller c) acc) (
       returnS [\<lparr>tlType = t, tlSender = Acct (Caller c), tlRecipient = StakingBucketPoolAddr, tlAmount = amount\<rparr>]))))
    (\<lambda>logs. paid c logs sm0) (settled c sm0)"
  unfolding triple_def
proof (intro allI impI)
  fix s assume s: "sameMoney sm0 s"
  obtain acc' s' where "SubBalance (Some amount) acc = Inr acc'" "onStk (DebitPool amount n) s = (Inr (), s')"
    "paid c [\<lparr>tlType = t, tlSender = Acct (Caller c), tlRecipient = StakingBucketPoolAddr, tlAmount = amount\<rparr>] sm0
       (s'\<lparr>acctNS := (acctNS s')(Caller c \<mapsto> acc')\<rparr>)"
    using paid_into_pool [OF wf caller amounts _ gas s] by blast
  then show "case thenS (mapErrS h (onStk (DebitPool amount n)))
      (bindS (orStatus st (SubBalance (Some amount) acc)) (\<lambda>acc. thenS (StoreAccount (Caller c) acc) (
       returnS [\<lparr>tlType = t, tlSender = Acct (Caller c), tlRecipient = StakingBucketPoolAddr, tlAmount = amount\<rparr>]))) s
     of (Inr x, s') \<Rightarrow> paid c x sm0 s' | (Inl e, s') \<Rightarrow> settled c sm0 e s'"
    by (simp add: op_defs orStatus_def mapErrR_def StoreAccount_def)
qed

lemma createStake_paid:
  assumes "wf_accounts sm0" "0 \<le> csAmount act" "0 \<le> GasPrice c"
  shows "triple (sameMoney sm0) (handleCreateStake p c act) (\<lambda>logs. paid c logs sm0) (settled c sm0)"
  unfolding handleCreateStake_def Let_def
  by (intro triple_fetchCaller triple_bindStk triple_debit triple_step triple_then preserves_intros assms; assumption)

lemma depositToStake_paid:
  assumes "wf_accounts sm0" "0 \<le> dsAmount act" "0 \<le> GasPrice c"
  shows "triple (sameMoney sm0) (handleDepositToStake p c act) (\<lambda>logs. paid c logs sm0) (settled c sm0)"
  unfolding handleDepositToStake_def Let_def
  by (intro triple_fetchCaller triple_bindStk triple_debit triple_step triple_then preserves_intros assms; assumption)

lemma keeps_paid:
  assumes "wf_accounts sm0" "preserves (sameMoney sm0) m" "\<And>s r s'. m s = (Inr r, s') \<Longrightarrow> r = []"
  shows "triple (sameMoney sm0) m (\<lambda>logs. paid c logs sm0) (settled c sm0)"
  unfolding triple_def
proof (intro allI impI)
  fix s assume s: "sameMoney sm0 s"
  obtain r s' where m: "m s = (r, s')" by (cases "m s")
  then have "sameMoney sm0 s'" using assms(2) s by (auto simp: preserves_def)
  then show "case m s of (Inr x, s') \<Rightarrow> paid c x sm0 s' | (Inl e, s') \<Rightarrow> settled c sm0 e s'"
    using m assms(1) assms(3) [of s] by (cases r) (auto intro: sameMoney_paid sameMoney_settled)
qed

lemma withdrawStake_paid:
  assumes wf: "wf_accounts sm0"
  shows "triple (sameMoney sm0) (handleWithdrawStake p c i) (\<lambda>logs. paid c logs sm0) (settled c sm0)"
proof -
  have tail: "triple (sameMoney sm0)
      (thenS (mapErrS h (onStk (CreditPool amount True)))
        (bindS (liftS (AddBalance (Some amount) acc)) (\<lambda>acc. thenS (StoreAccount (Caller c) acc) (
         returnS [\<lparr>tlType = t, tlSender = StakingBucketPoolAddr, tlRecipient = Acct (Caller c), tlAmount = amount\<rparr>]))))
      (\<lambda>logs. paid c logs sm0) (settled c sm0)" if acc: "callerOf c 0 sm0 acc" for acc amount h t
    unfolding triple_def
  proof (intro allI impI)
    fix s assume s: "sameMoney sm0 s"
    obtain r x where r: "CreditPool amount True (stk s) = (r, x)" by (cases "CreditPool amount True (stk s)")
    have eqs: "acctNS s = acctNS sm0" "rewardingPool c s = rewardingPool c sm0" "stakingPool s = stakingPool sm0"
      using s by (auto simp: sameMoney_def rewardingPool_def fundOf_def view_def)
    show "case thenS (mapErrS h (onStk (CreditPool amount True)))
        (bindS (liftS (AddBalance (Some amount) acc)) (\<lambda>acc. thenS (StoreAccount (Caller c) acc) (
         returnS [\<lparr>tlType = t, tlSender = StakingBucketPoolAddr, tlRecipient = Acct (Caller c), tlAmount = amount\<rparr>]))) s
       of (Inr x, s') \<Rightarrow> paid c x sm0 s' | (Inl e, s') \<Rightarrow> settled c sm0 e s'"
    proof (cases r)
      case (Inl e)
      then have "x = stk s" using CreditPool_fail r by blast
      then have "sameMoney sm0 (s\<lparr>stk := x\<rparr>)" using s by (simp add: sameMoney_def stakingPool_def)
      then show ?thesis using Inl r sameMoney_settled [OF wf] by (simp add: op_defs onStk_def)
    next
      case (Inr u)
      have "tAmount (total (bucketPool x)) = tAmount (total (bucketPool (stk s))) - amount"
        using CreditPool_run r Inr by blast
      then have "AddBalance (Some amount) acc = Inr acc' \<Longrightarrow>
          paid c [\<lparr>tlType = t, tlSender = StakingBucketPoolAddr, tlRecipient = Acct (Caller c), tlAmount = amount\<rparr>]
            sm0 (s\<lparr>stk := x, acctNS := (acctNS s)(Caller c \<mapsto> acc')\<rparr>)" for acc'
        using acc wf wf_AddBalance [of acc "Some amount" acc'] eqs
        by (auto simp: paid_def explains_def wf_accounts_def balOf_def stakingPool_def callerOf_def AddBalance_Inr)
      moreover have "AddBalance (Some amount) acc = Inl e \<Longrightarrow> settled c sm0 e s'" for e s'
        by (auto simp: AddBalance_def settled_def split: if_splits)
      ultimately show ?thesis using r Inr
        by (cases "AddBalance (Some amount) acc") (simp_all add: op_defs onStk_def StoreAccount_def)
    qed
  qed
  show ?thesis unfolding handleWithdrawStake_def Let_def
    by (intro triple_fetchCaller triple_bindStk tail triple_step triple_then preserves_intros wf)
qed

lemma preserves_onStk_paid: "keepsPool m \<Longrightarrow> preserves (paid c logs sm0) (onStk m)"
  unfolding preserves_def
proof (intro allI impI)
  fix s assume "keepsPool m" and s: "paid c logs sm0 s"
  then have "bucketPool (snd (m (stk s))) = bucketPool (stk s)" by (simp add: keepsPool_def preserves_def)
  then show "paid c logs sm0 (snd (onStk m s))" using s
    by (simp add: onStk_def split_beta paid_def explains_def stakingPool_def)
qed

lemma preserves_LoadOrCreate_paid: "preserves (paid c logs sm0) (LoadOrCreateAccount a [])"
  unfolding preserves_def
proof (intro allI impI)
  fix s assume s: "paid c logs sm0 s"
  obtain acc s' where r: "LoadOrCreateAccount a (creationOpts False) s = (Inr acc, s')"
    using LoadOrCreateAccount_total by blast
  have "creationOpts False = []" by (simp add: creationOpts_def)
  moreover have "wf_accounts s" using s by (simp add: paid_def)
  note L = LoadOrCreateAccount_run [OF this r]
  ultimately show "paid c logs sm0 (snd (LoadOrCreateAccount a [] s))"
    using s r L(3,5,7) by (auto simp: paid_def explains_def)
qed

lemma transferOwnership_keeps:
  "preserves (paid c [] sm0) (handleCandidateTransferOwnership p c' a)"
  unfolding handleCandidateTransferOwnership_def validateCandidateTransferOwnership_def Let_def
    upsertCandidate_def
  by (intro preserves_intros preserves_LoadOrCreate_paid preserves_onStk_paid keepsPool_ops)

lemma transferOwnership_paid:
  assumes wf: "wf_accounts sm0"
  shows "triple (sameMoney sm0) (handleCandidateTransferOwnership p c a) (\<lambda>logs. paid c logs sm0) (settled c sm0)"
proof -
  have "triple (paid c [] sm0) (handleCandidateTransferOwnership p c a) (\<lambda>_. paid c [] sm0) (settled c sm0)"
    by (rule triple_preserves [OF transferOwnership_keeps]) (rule paid_settled)
  moreover have "x = []" if "handleCandidateTransferOwnership p c a s = (Inr x, s')" for s x s'
    using that by (auto simp: handleCandidateTransferOwnership_def Let_def run_simps)
  ultimately show ?thesis using sameMoney_paid [OF _ wf]
    unfolding triple_def by (fastforce split: prod.splits sum.splits)
qed

text \<open>The errors of a gas deposit are no receipt errors.\<close>

definition plain :: "go_error \<Rightarrow> bool" where
  "plain e \<longleftrightarrow> (\<forall>e' st. e \<noteq> HandleError e' st)"

lemma DepositGas_plain:
  "DepositGas registered c amount cfg s = (Inl e, s') \<Longrightarrow> plain e"
proof -
  have nb: "plain e" if "LoadAccountByHash160 sm a (creationOpts b) = Inl e" for e sm a b
    using LoadAccount_total [of sm a b] that by simp
  have st: "plain e" if "state c FundKey asFund sm = Inl e" for e sm
    using that by (auto simp: state_view plain_def badValue_def split: option.splits elim!: asFund.elims)
  have dep: "plain e" if "Deposit c am t sm = (Inl e, sm')" for am t sm e sm'
    using that nb st by (fastforce simp: Deposit_def op_defs LoadAccount_def StoreAccount_def putState_def putStateV1_def
        putStateV2_def accountCreationOpts_def SubBalance_def plain_def
        split: if_splits sum.splits prod.splits option.splits)
  show "DepositGas registered c amount cfg s = (Inl e, s') \<Longrightarrow> plain e"
    using dep by (auto simp: DepositGas_def bindS_def returnS_def split: if_splits sum.splits prod.splits)
qed

lemma DepositGas_error: "DepositGas registered c amount cfg s = (Inl e, s') \<Longrightarrow> settled c' sm0 e s''"
  using DepositGas_plain [of registered c amount cfg s e s'] by (cases e) (auto simp: settled_def plain_def)

section \<open>Fees\<close>

text \<open>The holding of the staking pool as a function of the state behind the rewarding world.\<close>

definition stakingPoolOf :: "'a staking_world_ext \<Rightarrow> int" where
  "stakingPoolOf m = stakingPool \<lparr>acctNS = Map.empty, smHeight = 0, rewV1 = Map.empty, rewV2 = Map.empty, \<dots> = m\<rparr>"

lemma stakingPoolOf_more: "stakingPoolOf \<circ> reward_world.more = stakingPool"
proof
  fix sm :: "'a staking_world_scheme"
  show "(stakingPoolOf \<circ> reward_world.more) sm = stakingPool sm"
    by (cases sm) (simp add: stakingPoolOf_def stakingPool_def)
qed

lemma paid_trans: "paid c l1 sm0 sm1 \<Longrightarrow> paid c l2 sm1 sm2 \<Longrightarrow> paid c (l1 @ l2) sm0 sm2"
  unfolding paid_def using explains_trans by blast

lemma paid_netFlow: "paid c l sm0 sm1 \<Longrightarrow> (\<And>p. netFlow l' p = netFlow l p) \<Longrightarrow> paid c l' sm0 sm1"
  by (simp add: paid_def explains_def)

lemma DepositGas_paid:
  assumes "wf_accounts s" "DepositGas True c amount cfg s = (Inr logs, s')" "BlockHeight c \<noteq> 0"
  shows "paid c logs s s'"
    and "\<And>p. netFlow logs p = netFlow [\<lparr>tlType = t, tlSender = Acct (Caller c), tlRecipient = RewardingPoolAddr,
      tlAmount = depositTotal amount cfg\<rparr>] p"
proof -
  note d = DepositGas_run [OF assms(1,2)]
  show "paid c logs s s'"
    using d deposited_explains [OF d, of stakingPoolOf] unfolding stakingPoolOf_more
    by (simp add: paid_def deposited_def)
  show "netFlow logs p = netFlow [\<lparr>tlType = t, tlSender = Acct (Caller c), tlRecipient = RewardingPoolAddr,
      tlAmount = depositTotal amount cfg\<rparr>] p" for p
    using d assms(3) by (auto simp: deposited_def)
qed

definition registrationLogs :: "ctx \<Rightarrow> CandidateRegister \<Rightarrow> TransactionLog list" where
  "registrationLogs c act =
     (if crAmount act > 0 then [\<lparr>tlType = CANDIDATE_SELF_STAKE, tlSender = Acct (Caller c),
        tlRecipient = StakingBucketPoolAddr, tlAmount = crAmount act\<rparr>] else [])"

lemma triple_registrationFee:
  assumes "BlockHeight c \<noteq> 0"
  shows "triple (paid c l sm0) (bindS (DepositGas True c fee noDepositOption) (\<lambda>_. returnS (l @
      [\<lparr>tlType = t, tlSender = Acct (Caller c), tlRecipient = RewardingPoolAddr, tlAmount = fee\<rparr>])))
    (\<lambda>logs. paid c logs sm0) (settled c sm0)"
  unfolding triple_def
proof (intro allI impI)
  fix s assume s: "paid c l sm0 s"
  then have wf: "wf_accounts s" by (simp add: paid_def)
  obtain r s' where r: "DepositGas True c fee noDepositOption s = (r, s')"
    by (cases "DepositGas True c fee noDepositOption s")
  show "case bindS (DepositGas True c fee noDepositOption) (\<lambda>_. returnS (l @
      [\<lparr>tlType = t, tlSender = Acct (Caller c), tlRecipient = RewardingPoolAddr, tlAmount = fee\<rparr>])) s
    of (Inr x, s') \<Rightarrow> paid c x sm0 s' | (Inl e, s') \<Rightarrow> settled c sm0 e s'"
  proof (cases r)
    case (Inl e)
    then show ?thesis using r DepositGas_error by (auto simp: bindS_def)
  next
    case (Inr logs)
    note d = DepositGas_paid [OF wf r [unfolded Inr] assms]
    have "paid c [\<lparr>tlType = t, tlSender = Acct (Caller c), tlRecipient = RewardingPoolAddr, tlAmount = fee\<rparr>] s s'"
      using paid_netFlow [OF d(1)] d(2) [where t = t] by (simp add: depositTotal_def noDepositOption_def nilZero_def)
    then show ?thesis using paid_trans [OF s] r Inr by (simp add: bindS_def returnS_def)
  qed
qed

lemma triple_selfStake:
  assumes wf: "wf_accounts sm0" and caller: "callerOf c (crAmount act + fee) sm0 acc" and "0 \<le> crAmount act" "0 \<le> fee"
    and gas: "0 \<le> GasPrice c"
  shows "triple (sameMoney sm0) (whenS (crAmount act > 0) (
       thenS (mapErrS h (onStk (DebitPool (crAmount act) True))) (
       bindS (orStatus st (SubBalance (Some (crAmount act)) acc)) (StoreAccount (Caller c)))))
    (\<lambda>_. paid c (registrationLogs c act) sm0) (settled c sm0)"
  unfolding triple_def
proof (intro allI impI)
  fix s assume s: "sameMoney sm0 s"
  obtain acc' s' where "SubBalance (Some (crAmount act)) acc = Inr acc'" "onStk (DebitPool (crAmount act) True) s = (Inr (), s')"
    "\<And>t. paid c [\<lparr>tlType = t, tlSender = Acct (Caller c), tlRecipient = StakingBucketPoolAddr, tlAmount = crAmount act\<rparr>] sm0
       (s'\<lparr>acctNS := (acctNS s')(Caller c \<mapsto> acc')\<rparr>)"
    using paid_into_pool [OF wf caller assms(3) _ gas s] assms(4) by (metis le_add_same_cancel1)
  then show "case whenS (crAmount act > 0) (thenS (mapErrS h (onStk (DebitPool (crAmount act) True))) (
       bindS (orStatus st (SubBalance (Some (crAmount act)) acc)) (StoreAccount (Caller c)))) s
     of (Inr x, s') \<Rightarrow> paid c (registrationLogs c act) sm0 s' | (Inl e, s') \<Rightarrow> settled c sm0 e s'"
    using sameMoney_paid [OF s wf]
    by (simp add: op_defs orStatus_def mapErrR_def StoreAccount_def registrationLogs_def)
qed

lemma preserves_putSelfStake [preserves_intros]: "preserves (sameMoney sm0) (putSelfStake p c act candID)"
  unfolding putSelfStake_def Let_def by (intro preserves_intros)

lemma register_paid:
  assumes wf: "wf_accounts sm0" and "0 \<le> crAmount act" "0 \<le> cfgRegistrationFee p" "0 \<le> GasPrice c" "BlockHeight c \<noteq> 0"
  shows "triple (sameMoney sm0) (handleCandidateRegister (DepositGas True) p c act) (\<lambda>logs. paid c logs sm0) (settled c sm0)"
  unfolding handleCandidateRegister_def Let_def split_beta registrationLogs_def [symmetric]
  by (rule triple_fetchCaller [OF wf],
      (rule triple_bindStk [OF wf] triple_thenS [OF triple_selfStake triple_registrationFee]
        triple_then [OF wf] triple_step [OF wf] | rule assms | assumption | (intro preserves_intros)[])+)

text \<open>Every handler.\<close>

lemma runStaking_paid:
  assumes wf: "wf_accounts sm0" and sane: "stakingSanityCheck act = Inr ()"
    and cfg: "0 \<le> cfgRegistrationFee p" "0 \<le> GasPrice c" "BlockHeight c \<noteq> 0"
  shows "triple (sameMoney sm0) (runStaking (DepositGas True) p c act) (\<lambda>logs. paid c logs sm0) (settled c sm0)"
proof (cases act)
  case (ActCreateStake a)
  then show ?thesis using createStake_paid [OF wf _ cfg(2), of a p] sane
    by (simp add: runStaking_def stakingSanityCheck_def split: if_splits)
next
  case (ActWithdrawStake i)
  then show ?thesis using withdrawStake_paid [OF wf] by (simp add: runStaking_def)
next
  case (ActDepositToStake a)
  then show ?thesis using depositToStake_paid [OF wf _ cfg(2), of a p] sane
    by (simp add: runStaking_def stakingSanityCheck_def split: if_splits)
next
  case (ActCandidateRegister a)
  then show ?thesis using register_paid [OF wf _ cfg, of a] sane
    by (simp add: runStaking_def stakingSanityCheck_def split: if_splits)
next
  case (ActCandidateTransferOwnership a)
  then show ?thesis using transferOwnership_paid [OF wf] by (simp add: runStaking_def)
next
  case (ActCandidateEndorsement i op l)
  have "r = []" if "handleCandidateEndorsement p c i op s = (Inr r, s')" for r and s s' :: "'a staking_world_scheme"
    using that by (cases op) (auto simp: handleCandidateEndorsement_def Let_def run_simps)
  then show ?thesis using keeps_paid [OF wf keeps_handlers(7)] ActCandidateEndorsement by (simp add: runStaking_def)
qed (auto simp: runStaking_def intro!: keeps_paid [OF wf] keeps_handlers,
     auto simp: handleUnstake_def handleChangeCandidate_def handleTransferStake_def handleRestake_def
       handleCandidateUpdate_def handleCandidateActivate_def Let_def run_simps split: prod.splits)

lemma settleAction_paid:
  assumes s: "paid c tLogs sm0 s" and "BlockHeight c \<noteq> 0"
    and run: "settleAction (DepositGas True) c price st tLogs g d n s = (Inr r, s')"
  shows "paid c (transactionLogs r) sm0 s' \<and> Status r = st"
proof -
  obtain priorityFee baseFee logs s1 where
    dep: "DepositGas True c baseFee (PriorityFeeOption priorityFee) s = (Inr logs, s1)" and
    nonce: "whenS n (bindS (LoadAccount (Caller c) (accountCreationOpts c)) (\<lambda>acc.
       bindS (liftS (SetPendingNonce (actNonce c + 1) acc)) (StoreAccount (Caller c)))) s1 = (Inr (), s')" and
    r: "transactionLogs r = logs @ tLogs" "Status r = st"
    using run unfolding settleAction_def by (auto simp: bindS_run thenS_run liftS_run returnS_run split: prod.splits)
  have wf: "wf_accounts s" using s by (simp add: paid_def)
  note d = DepositGas_paid(1) [OF wf dep assms(2)]
  then have wf1: "wf_accounts s1" by (simp add: paid_def)
  have "paid c [] s1 s'"
  proof (cases n)
    case True
    then obtain acc acc' where a: "LoadAccountByHash160 s1 (Caller c) (creationOpts (CreateLegacyNonceAccount (fCtx c))) = Inr acc"
      "SetPendingNonce (actNonce c + 1) acc = Inr acc'" "s' = s1\<lparr>acctNS := (acctNS s1)(Caller c \<mapsto> acc')\<rparr>"
      using nonce by (auto simp: run_simps accountCreationOpts_def)
    then show ?thesis using wf1 wf_LoadAccount [OF wf1 a(1)] wf_SetPendingNonce [OF _ a(2)]
      by (auto simp: paid_def explains_def)
  qed (use nonce wf1 in \<open>auto simp: run_simps paid_def explains_def\<close>)
  then have "paid c ((tLogs @ logs) @ []) sm0 s'" using paid_trans [OF paid_trans [OF s d]] by blast
  then show ?thesis using paid_netFlow [of c "(tLogs @ logs) @ []" sm0 s' "transactionLogs r"] r by auto
qed

lemma handleStaking_paid:
  assumes "wf_accounts sm" "stakingSanityCheck act = Inr ()"
    and "0 \<le> cfgRegistrationFee p" "0 \<le> GasPrice c" "BlockHeight c \<noteq> 0"
    and run: "handleStaking (DepositGas True) p c price act sm = (Inr r, sm')"
  shows "paid c (transactionLogs r) sm sm'"
proof -
  note t = runStaking_paid [OF assms(1-5)]
  obtain res sm1 where m: "runStaking (DepositGas True) p c act sm = (res, sm1)"
    by (cases "runStaking (DepositGas True) p c act sm")
  show ?thesis
  proof (cases res)
    case (Inl e)
    then obtain e' st where e: "e = HandleError e' st" using run m by (cases e) (auto simp: handleStaking_def)
    then have "paid c [] sm sm1" using triple_Inl [OF t sameMoney_refl m [unfolded Inl]] by (simp add: settled_def)
    then show ?thesis using run m Inl e settleAction_paid assms(5) by (fastforce simp: handleStaking_def)
  next
    case (Inr logs)
    have "paid c logs sm sm1" by (rule triple_Inr [OF t sameMoney_refl m [unfolded Inr]])
    then show ?thesis using run m Inr settleAction_paid assms(5) by (fastforce simp: handleStaking_def)
  qed
qed

lemma viewSnapshot_run:
  "viewSnapshot s = (Inr (length (snapshots s)), s\<lparr>snapshots := snapshots s @
       [\<lparr>snSize = size_cc (candCenter s), snChanges = length (chCandidates (change (candCenter s))),
         snAmount = tAmount (total (bucketPool s)), snCount = tCount (total (bucketPool s))\<rparr>]\<rparr>)"
  by (simp add: viewSnapshot_def op_defs)

text \<open>
  Property C3.  Staking conserves the supply.  Whatever the action and whatever the status of its
  receipt, the transaction logs of the receipt explain the change of every account, of the
  rewarding pool and of the staking bucket pool: a failed action costs its caller the fees and
  nothing else, and accounts and pools together hold what they held before.  The base fee is conserved
  too: it goes into the rewarding pool and is not burnt, as comments of \<^verbatim>\<open>protocol.go\<close> would have it.
\<close>

theorem staking_conserves:
  assumes "wf_accounts sm" "stakingSanityCheck act = Inr ()"
    and "0 \<le> cfgRegistrationFee p" "0 \<le> GasPrice c" "BlockHeight c \<noteq> 0"
    and "HandleStaking (DepositGas True) p c price act sm = (Inr r, sm')"
  shows "wf_accounts sm' \<and>
    (\<forall>a. balOf sm' a = balOf sm a + netFlow (transactionLogs r) (Acct a)) \<and>
    rewardingPool c sm' = rewardingPool c sm + netFlow (transactionLogs r) RewardingPoolAddr \<and>
    stakingPool sm' = stakingPool sm + netFlow (transactionLogs r) StakingBucketPoolAddr \<and>
    totalBalance sm' + rewardingPool c sm' + stakingPool sm' = totalBalance sm + rewardingPool c sm + stakingPool sm"
proof -
  obtain s where s: "handleStaking (DepositGas True) p c price act (sm\<lparr>stk := s\<rparr>) = (Inr r, sm')"
    "bucketPool s = bucketPool (stk sm)"
    using assms(6) by (auto simp: HandleStaking_def bindS_def onStk_def viewSnapshot_run thenS_run failS_run
        split: prod.splits sum.splits)
  have "paid c (transactionLogs r) (sm\<lparr>stk := s\<rparr>) sm'"
    by (rule handleStaking_paid [OF _ assms(2-5) s(1)]) (simp add: assms(1))
  then have p: "wf_accounts sm'" "explains (rewardingPool c) stakingPool (transactionLogs r) sm sm'"
    using s(2) by (auto simp: paid_def explains_def stakingPool_def)
  then show ?thesis using explains_conserves [OF p(2)] assms(1) by (auto simp: explains_def wf_accounts_def)
qed

section \<open>Creating a bucket succeeds\<close>

lemma stk_more: "reward_world.more sm' = reward_world.more sm \<Longrightarrow> stk sm' = stk sm"
  for sm :: "'a staking_world_scheme"
  by (cases sm; cases sm') simp

lemma fetchCaller_ok:
  assumes "wf_accounts sm" "acctNS sm (Caller c) = Some acc" "amount + GasPrice c * uint (IntrinsicGas c) \<le> bal acc"
  shows "fetchCaller c amount sm = (Inr acc, sm)"
proof -
  have "wf_account acc" using assms(1,2) by (auto simp: wf_accounts_def)
  then show ?thesis using assms(2,3)
    by (simp add: fetchCaller_def Let_def op_defs LoadAccount_def LoadAccountByHash160_def HasSufficientBalance_def
        wf_account_Balance)
qed

text \<open>The state after a bucket was put, and after the votes of a candidate were changed.\<close>

definition nextIndex :: "staking_state \<Rightarrow> u64" where
  "nextIndex s = (case totalBucket s of None \<Rightarrow> 0 | Some n \<Rightarrow> n)"

definition withBucket :: "VoteBucket \<Rightarrow> staking_state \<Rightarrow> staking_state" where
  "withBucket b s = (let i = nextIndex s in s\<lparr>bucketNS := (bucketNS s)(i \<mapsto> b\<lparr>vbIndex := i\<rparr>),
     totalBucket := Some (i + 1), voterIdxNS := putIndex (vbOwner b) i (voterIdxNS s),
     candIdxNS := putIndex (vbCandidate b) i (candIdxNS s)\<rparr>)"

lemma putBucketAndIndex_run: "putBucketAndIndex b s = (Inr (nextIndex s), withBucket b s)"
  by (simp add: putBucketAndIndex_def putBucket_def putVoterBucketIndex_def putCandBucketIndex_def op_defs
      withBucket_def nextIndex_def Let_def)

lemma upsertCandidate_votes:
  assumes ok: "center_ok (candCenter (stk sm))" and c: "cands (candCenter (stk sm)) i = Some d"
  shows "\<exists>cc. upsertCandidate (d\<lparr>cVotes := v\<rparr>) sm = (Inr (), sm\<lparr>stk := (stk sm)\<lparr>candCenter := cc,
      candNS := (candNS (stk sm))(i \<mapsto> d\<lparr>cVotes := v\<rparr>)\<rparr>\<rparr>) \<and>
    center_ok cc \<and> cands cc = (cands (candCenter (stk sm)))(i \<mapsto> d\<lparr>cVotes := v\<rparr>)"
proof -
  have i: "GetIdentifier d = i" using keyedD [OF conjunct2 [OF center_ok_uniq [OF ok]] c] by simp
  then have j: "GetIdentifier (d\<lparr>cVotes := v\<rparr>) = i" by simp
  obtain cc where "Upsert (d\<lparr>cVotes := v\<rparr>) (candCenter (stk sm)) = Inr cc" "center_ok cc"
      "cands cc = (cands (candCenter (stk sm)))(i \<mapsto> d\<lparr>cVotes := v\<rparr>)"
    using Upsert_same_keys [OF ok c j] by auto
  then show ?thesis using j by (auto simp: upsertCandidate_def csmUpsert_def op_defs onStk_def)
qed

text \<open>The bucket of a creation.\<close>

definition createdBucket :: "ctx \<Rightarrow> CreateStake \<Rightarrow> Candidate \<Rightarrow> staking_state \<Rightarrow> VoteBucket" where
  "createdBucket c act cand s = (NewVoteBucket (GetIdentifier cand) (Caller c) (csAmount act) (csDuration act)
     (BlockTimeStamp c) (csAutoStake act))\<lparr>vbIndex := nextIndex s\<rparr>"

lemma handleCreateStake_run:
  assumes wf: "wf_accounts sm" and acc: "acctNS sm (Caller c) = Some acc"
    and funds: "0 \<le> csAmount act" "csAmount act + GasPrice c * uint (IntrinsicGas c) \<le> bal acc" "csAmount act \<le> bal acc"
    and ok: "center_ok (candCenter (stk sm))" and cand: "GetByName (csCandidate act) (candCenter (stk sm)) = Some d"
    and weight: "0 \<le> calculateVoteWeight p (createdBucket c act d (stk sm)) False"
  shows "\<exists>logs sm' cc s'. handleCreateStake p c act sm = (Inr logs, sm') \<and>
    sm' = sm\<lparr>stk := s', acctNS := (acctNS sm)(Caller c \<mapsto> acc\<lparr>Balance := Some (bal acc - csAmount act)\<rparr>)\<rparr> \<and>
    bucketNS s' = (bucketNS (stk sm))(nextIndex (stk sm) \<mapsto> createdBucket c act d (stk sm)) \<and>
    tAmount (total (bucketPool s')) = tAmount (total (bucketPool (stk sm))) + csAmount act \<and>
    candCenter s' = cc \<and> center_ok cc \<and> cands cc = (cands (candCenter (stk sm)))(GetIdentifier d \<mapsto>
      d\<lparr>cVotes := cVotes d + calculateVoteWeight p (createdBucket c act d (stk sm)) False\<rparr>)"
proof -
  let ?b = "NewVoteBucket (GetIdentifier d) (Caller c) (csAmount act) (csDuration act) (BlockTimeStamp c) (csAutoStake act)"
  let ?s1 = "withBucket ?b (stk sm)"
  let ?w = "calculateVoteWeight p (createdBucket c act d (stk sm)) False"
  have wfa: "wf_account acc" using wf acc by (auto simp: wf_accounts_def)
  obtain i where i: "cands (candCenter (stk sm)) i = Some d" using cand GetByName_iff [OF ok] by blast
  then have id: "GetIdentifier d = i" using keyedD [OF conjunct2 [OF center_ok_uniq [OF ok]] i] by simp
  have s1: "candCenter ?s1 = candCenter (stk sm)" "bucketPool ?s1 = bucketPool (stk sm)"
    "bucketNS ?s1 = (bucketNS (stk sm))(nextIndex (stk sm) \<mapsto> createdBucket c act d (stk sm))"
    by (simp_all add: withBucket_def Let_def createdBucket_def)
  obtain cc where cc: "upsertCandidate (d\<lparr>cVotes := cVotes d + ?w\<rparr>) (sm\<lparr>stk := ?s1\<rparr>) = (Inr (), sm\<lparr>stk := ?s1\<lparr>candCenter := cc,
      candNS := (candNS ?s1)(i \<mapsto> d\<lparr>cVotes := cVotes d + ?w\<rparr>)\<rparr>\<rparr>)"
    "center_ok cc" "cands cc = (cands (candCenter (stk sm)))(i \<mapsto> d\<lparr>cVotes := cVotes d + ?w\<rparr>)"
    using upsertCandidate_votes [of "sm\<lparr>stk := ?s1\<rparr>" i d "cVotes d + ?w"] ok i s1 by auto
  let ?s2 = "?s1\<lparr>candCenter := cc, candNS := (candNS ?s1)(i \<mapsto> d\<lparr>cVotes := cVotes d + ?w\<rparr>)\<rparr>"
  obtain s3 where s3: "DebitPool (csAmount act) True ?s2 = (Inr (), s3)"
    "tAmount (total (bucketPool s3)) = tAmount (total (bucketPool (stk sm))) + csAmount act"
    "bucketNS s3 = bucketNS ?s1" "candCenter s3 = cc"
    using s1 by (auto simp: DebitPool_def storePool_def op_defs totalAmount_AddBalance_def)
  have sub: "SubBalance (Some (csAmount act)) acc = Inr (acc\<lparr>Balance := Some (bal acc - csAmount act)\<rparr>)"
    using funds wf_account_Balance [OF wfa] by (auto simp: SubBalance_Inr)
  have add: "AddVote ?w d = Inr (d\<lparr>cVotes := cVotes d + ?w\<rparr>)" using weight by (simp add: AddVote_def)
  have "handleCreateStake p c act sm = (Inr [\<lparr>tlType = CREATE_BUCKET, tlSender = Acct (Caller c),
       tlRecipient = StakingBucketPoolAddr, tlAmount = csAmount act\<rparr>],
     sm\<lparr>stk := s3, acctNS := (acctNS sm)(Caller c \<mapsto> acc\<lparr>Balance := Some (bal acc - csAmount act)\<rparr>)\<rparr>)"
    using fetchCaller_ok [OF wf acc funds(2)] cand cc(1) s3(1) sub add
    by (simp add: handleCreateStake_def Let_def op_defs bindStk_def needCand_def onStk_def putBucketAndIndex_run
        orStatus_def mapErrR_def StoreAccount_def createdBucket_def)
  then show ?thesis using s3(2-4) s1(3) cc(2,3) id by (intro exI conjI) (rule refl | assumption | simp)+
qed

lemma settleAction_succeeds:
  assumes wf: "wf_accounts sm" and ready: "fundReady c sm"
    and gas: "splitGas c price g' = Inr (priorityFee, baseFee)" "0 \<le> priorityFee" "0 \<le> baseFee"
      "priorityFee + baseFee \<le> balOf sm (Caller c)"
    and acc: "acctNS sm (Caller c) = Some acc" "PendingNonce acc = Inr (actNonce c)" "unat (nonce acc) + 2 < 2 ^ 64"
  shows "\<exists>r sm'. settleAction (DepositGas True) c price st tLogs g g' True sm = (Inr r, sm') \<and> Status r = st \<and>
    reward_world.more sm' = reward_world.more sm \<and>
    (\<exists>acc'. acctNS sm' (Caller c) = Some acc' \<and> PendingNonce acc' = Inr (actNonce c + 1))"
proof -
  have tot: "depositTotal baseFee (PriorityFeeOption priorityFee) \<le> balOf sm (Caller c)"
    "0 \<le> nilZero (PriorityFee (PriorityFeeOption priorityFee))" "0 \<le> nilZero (BlobGasFee (PriorityFeeOption priorityFee))"
    using gas by (simp_all add: depositTotal_def PriorityFeeOption_def nilZero_def)
  obtain logs s1 where d: "DepositGas True c baseFee (PriorityFeeOption priorityFee) sm = (Inr logs, s1)"
    using DepositGas_succeeds [OF wf ready gas(3) tot(2,3,1), of True] by blast
  have f: "strip (acctNS s1 (Caller c)) = strip (Some acc)" "reward_world.more s1 = reward_world.more sm"
    using DepositGas_run [OF wf d] acc(1) by (auto simp: deposited_def)
  then obtain acc1 where a1: "acctNS s1 (Caller c) = Some acc1" by (metis strip_simps(2) not_None_eq)
  then have n1: "PendingNonce acc1 = Inr (actNonce c)" "nonce acc1 = nonce acc"
    using f(1) acc(2) PendingNonce_strip [of acc1 acc] by (auto simp: strip_def) (cases acc1; cases acc; simp)
  obtain acc2 where a2: "SetPendingNonce (actNonce c + 1) acc1 = Inr acc2"
    using SetPendingNonce_next [OF n1(1)] n1(2) acc(3) by auto
  show ?thesis
    using d gas(1) a1 a2 f(2) SetPendingNonce_pending [OF a2]
    by (simp add: settleAction_def op_defs LoadAccount_def LoadAccountByHash160_def StoreAccount_def)
qed

lemma HandleStaking_unfold:
  "HandleStaking dg p c price act sm =
     (let sm0 = sm\<lparr>stk := (stk sm)\<lparr>snapshots := snapshots (stk sm) @
        [\<lparr>snSize = size_cc (candCenter (stk sm)), snChanges = length (chCandidates (change (candCenter (stk sm)))),
          snAmount = tAmount (total (bucketPool (stk sm))), snCount = tCount (total (bucketPool (stk sm)))\<rparr>]\<rparr>\<rparr>
      in case handleStaking dg p c price act sm0 of
         (Inr r, sm1) \<Rightarrow> (Inr r, sm1)
       | (Inl e, sm1) \<Rightarrow> thenS (onStk (viewRevert (length (snapshots (stk sm))))) (failS e) sm1)"
  by (simp add: HandleStaking_def bindS_def onStk_def viewSnapshot_run Let_def)

lemma createStake_run:
  assumes wf: "wf_accounts sm" "fundReady c sm"
    and acc: "acctNS sm (Caller c) = Some acc" "PendingNonce acc = Inr (actNonce c)" "unat (nonce acc) + 2 < 2 ^ 64"
    and gas: "splitGas c price (IntrinsicGas c) = Inr (priorityFee, baseFee)" "0 \<le> priorityFee" "0 \<le> baseFee"
    and funds: "0 \<le> csAmount a" "csAmount a + GasPrice c * uint (IntrinsicGas c) \<le> bal acc"
      "csAmount a + priorityFee + baseFee \<le> bal acc"
    and ok: "center_ok (candCenter (stk sm))" and cand: "GetByName (csCandidate a) (candCenter (stk sm)) = Some d"
    and weight: "0 \<le> calculateVoteWeight p (createdBucket c a d (stk sm)) False"
  shows "\<exists>r sm'. HandleStaking (DepositGas True) p c price (ActCreateStake a) sm = (Inr r, sm') \<and> Status r = RS_Success \<and>
    bucketNS (stk sm') = (bucketNS (stk sm))(nextIndex (stk sm) \<mapsto> createdBucket c a d (stk sm)) \<and>
    stakingPool sm' = stakingPool sm + csAmount a \<and> center_ok (candCenter (stk sm')) \<and>
    cands (candCenter (stk sm')) = (cands (candCenter (stk sm)))(GetIdentifier d \<mapsto>
      d\<lparr>cVotes := cVotes d + calculateVoteWeight p (createdBucket c a d (stk sm)) False\<rparr>)"
proof -
  define sm0 where "sm0 = sm\<lparr>stk := (stk sm)\<lparr>snapshots := snapshots (stk sm) @
        [\<lparr>snSize = size_cc (candCenter (stk sm)), snChanges = length (chCandidates (change (candCenter (stk sm)))),
          snAmount = tAmount (total (bucketPool (stk sm))), snCount = tCount (total (bucketPool (stk sm)))\<rparr>]\<rparr>\<rparr>"
  have b0: "createdBucket c a d (stk sm0) = createdBucket c a d (stk sm)" "nextIndex (stk sm0) = nextIndex (stk sm)"
    by (simp_all add: sm0_def createdBucket_def nextIndex_def)
  have wf0: "wf_accounts sm0" "acctNS sm0 (Caller c) = Some acc" using wf(1) acc(1) by (simp_all add: sm0_def)
  have "csAmount a \<le> bal acc" using funds(3) gas(2,3) by linarith
  then obtain logs sm1 s1 where run: "handleCreateStake p c a sm0 = (Inr logs, sm1)"
    "sm1 = sm0\<lparr>stk := s1, acctNS := (acctNS sm0)(Caller c \<mapsto> acc\<lparr>Balance := Some (bal acc - csAmount a)\<rparr>)\<rparr>"
    "bucketNS s1 = (bucketNS (stk sm))(nextIndex (stk sm) \<mapsto> createdBucket c a d (stk sm))"
    "tAmount (total (bucketPool s1)) = tAmount (total (bucketPool (stk sm))) + csAmount a"
    "center_ok (candCenter s1)" "cands (candCenter s1) = (cands (candCenter (stk sm)))(GetIdentifier d \<mapsto>
      d\<lparr>cVotes := cVotes d + calculateVoteWeight p (createdBucket c a d (stk sm)) False\<rparr>)"
    using handleCreateStake_run [OF wf0 funds(1,2), of d p] ok cand weight b0 by (auto simp: sm0_def)
  have wfa: "wf_account acc" using wf(1) acc(1) by (auto simp: wf_accounts_def)
  have 1: "wf_accounts sm1" "fundReady c sm1" "priorityFee + baseFee \<le> balOf sm1 (Caller c)"
    "acctNS sm1 (Caller c) = Some (acc\<lparr>Balance := Some (bal acc - csAmount a)\<rparr>)"
    "PendingNonce (acc\<lparr>Balance := Some (bal acc - csAmount a)\<rparr>) = Inr (actNonce c)"
    using wf funds gas wfa acc(2) run(2)
    by (auto simp: sm0_def wf_accounts_def balOf_def fundReady_def view_def)
  obtain r sm' where s: "settleAction (DepositGas True) c price RS_Success logs (IntrinsicGas c) (IntrinsicGas c) True sm1 = (Inr r, sm')"
    "Status r = RS_Success" "reward_world.more sm' = reward_world.more sm1"
    using settleAction_succeeds [OF 1(1,2) gas 1(3,4,5)] acc(3) by fastforce
  have "stk sm' = s1" using stk_more [OF s(3)] run(2) by simp
  then have "HandleStaking (DepositGas True) p c price (ActCreateStake a) sm = (Inr r, sm') \<and> Status r = RS_Success \<and>
      stk sm' = s1"
    using run(1) s(1,2) by (simp add: HandleStaking_unfold sm0_def [symmetric] handleStaking_def runStaking_def)
  then show ?thesis using run(3-6) by (intro exI [of _ r] exI [of _ sm']) (simp add: stakingPool_def)
qed

text \<open>
  Property C4.  Creating a stake works.  In a block in which the rewarding fund exists, for an
  account with the action's nonce that can pay the amount, the gas and the fees, and a candidate of
  the given name, the action returns a successful receipt; the new bucket is stored under the next
  index, its votes are added to the candidate and to no other, its amount to the pool, and the
  candidate center stays consistent.
\<close>

theorem createStake_succeeds:
  assumes wf: "wf_accounts sm" "fundReady c sm"
    and acc: "acctNS sm (Caller c) = Some acc" "PendingNonce acc = Inr (actNonce c)" "unat (nonce acc) + 2 < 2 ^ 64"
    and gas: "splitGas c price (IntrinsicGas c) = Inr (priorityFee, baseFee)" "0 \<le> priorityFee" "0 \<le> baseFee"
    and funds: "0 \<le> csAmount a" "csAmount a + GasPrice c * uint (IntrinsicGas c) \<le> bal acc"
      "csAmount a + priorityFee + baseFee \<le> bal acc"
    and ok: "center_ok (candCenter (stk sm))" and cand: "GetByName (csCandidate a) (candCenter (stk sm)) = Some d"
    and weight: "0 \<le> calculateVoteWeight p (createdBucket c a d (stk sm)) False"
  shows "\<exists>r sm'. HandleStaking (DepositGas True) p c price (ActCreateStake a) sm = (Inr r, sm') \<and> Status r = RS_Success \<and>
    bucketNS (stk sm') = (bucketNS (stk sm))(nextIndex (stk sm) \<mapsto> createdBucket c a d (stk sm)) \<and>
    stakingPool sm' = stakingPool sm + csAmount a \<and> center_ok (candCenter (stk sm')) \<and>
    cands (candCenter (stk sm')) = (cands (candCenter (stk sm)))(GetIdentifier d \<mapsto>
      d\<lparr>cVotes := cVotes d + calculateVoteWeight p (createdBucket c a d (stk sm)) False\<rparr>)"
  by (rule createStake_run [OF assms])

text \<open>A block after the Wake fork in which a new bucket is created.\<close>

definition exProtocol :: StakingProtocol where
  "exProtocol = \<lparr>cfgRegistrationFee = 100, cfgMinSelfStake = 1200, cfgWithdrawWaitingPeriod = 3 * 24 * 3600000000000,
     cfgMinStakeAmount = 100, cfgPersistStakingPatchBlock = 19778037, cfgEndorsementWithdrawWaitingBlocks = 17280,
     cfgMinSelfStakeToBeActive = 1000, calculateVoteWeight = (\<lambda>b self. max 0 (vbStakedAmount b)),
     candIDHash = (\<lambda>a h i. a + of_nat i + 1)\<rparr>"

definition exStaking :: staking_state where
  "exStaking = \<lparr>bucketNS = Map.empty, totalBucket = None, voterIdxNS = Map.empty, candIdxNS = Map.empty,
     poolNS = None, candNS = [1 \<mapsto> exCand 1 2 ''alpha''], endorseNS = Map.empty, candCenter = exCenter,
     bucketPool = \<lparr>enableSMStorage = True, pool_dirty = False, total = \<lparr>tAmount = 0, tCount = 0\<rparr>\<rparr>,
     snapshots = []\<rparr>"

definition exStakingWorld :: staking_world where
  "exStakingWorld = \<lparr>acctNS = acctNS exWorld, smHeight = 40000000, rewV1 = rewV1 exWorld, rewV2 = rewV2 exWorld,
     stk = exStaking\<rparr>"

definition exPrice :: tx_price where
  "exPrice = DynamicPrice (Some 2000000000000) (Some 5)"

definition exCreate :: StakingAction where
  "exCreate = ActCreateStake \<lparr>csCandidate = ''alpha'', csAmount = 5000, csDuration = 91, csAutoStake = False\<rparr>"

lemma exStakingWorld_wf: "wf_accounts exStakingWorld"
  using exWorld_wf(1) by (simp add: wf_accounts_def exStakingWorld_def)

lemma exCreate_facts:
  "splitGas exCtx exPrice (IntrinsicGas exCtx) = Inr (50000, 10000000000000000)"
  "stakingSanityCheck exCreate = Inr ()" "0 \<le> cfgRegistrationFee exProtocol" "0 \<le> GasPrice exCtx"
  "PendingNonce exAccount = Inr (actNonce exCtx)" "GasPrice exCtx * uint (IntrinsicGas exCtx) = 10000000000000000"
  by code_simp+

lemma exStakingWorld_facts:
  "fundReady exCtx exStakingWorld" "acctNS exStakingWorld (Caller exCtx) = Some exAccount"
  "center_ok (candCenter (stk exStakingWorld))"
  "GetByName ''alpha'' (candCenter (stk exStakingWorld)) = Some (exCand 1 2 ''alpha'')"
  using exWorld_wf(2,3) exCtx_facts(5) exCenter_ok
  by (simp_all add: fundReady_def view_def exStakingWorld_def exStaking_def GetByName_iff)
     (auto simp: exCand_def)

theorem createStake_succeeds_witness:
  "\<exists>r sm'. HandleStaking (DepositGas True) exProtocol exCtx exPrice exCreate exStakingWorld = (Inr r, sm') \<and>
     Status r = RS_Success \<and> map_option vbStakedAmount (bucketNS (stk sm') 0) = Some 5000 \<and>
     map_option cVotes (cands (candCenter (stk sm')) 1) = Some 5100"
  using createStake_succeeds [OF exStakingWorld_wf exStakingWorld_facts(1,2) exCreate_facts(5) _ exCreate_facts(1),
      of "\<lparr>csCandidate = ''alpha'', csAmount = 5000, csDuration = 91, csAutoStake = False\<rparr>" "exCand 1 2 ''alpha''" exProtocol]
    exStakingWorld_facts(3,4)
  by (auto simp: exCreate_def exCreate_facts(6) exAccount_def bal_def exProtocol_def createdBucket_def NewVoteBucket_def
      nextIndex_def exStakingWorld_def exStaking_def exCand_def GetIdentifier_def)

lemma exCreate_runs:
  "\<exists>r sm'. HandleStaking (DepositGas True) exProtocol exCtx exPrice exCreate exStakingWorld = (Inr r, sm') \<and>
     Status r = RS_Success \<and> stakingPool sm' = 5000"
  using createStake_run [OF exStakingWorld_wf exStakingWorld_facts(1,2) exCreate_facts(5) _ exCreate_facts(1),
      of "\<lparr>csCandidate = ''alpha'', csAmount = 5000, csDuration = 91, csAutoStake = False\<rparr>" "exCand 1 2 ''alpha''" exProtocol]
    exStakingWorld_facts(3,4)
  by (auto simp: exCreate_def exCreate_facts(6) exAccount_def bal_def exProtocol_def createdBucket_def NewVoteBucket_def
      stakingPool_def exStakingWorld_def exStaking_def)

theorem staking_conserves_witness:
  "\<exists>r sm'. HandleStaking (DepositGas True) exProtocol exCtx exPrice exCreate exStakingWorld = (Inr r, sm') \<and>
     Status r = RS_Success \<and> stakingPool sm' = 5000 \<and>
     totalBalance sm' + rewardingPool exCtx sm' + stakingPool sm' =
       totalBalance exStakingWorld + rewardingPool exCtx exStakingWorld + stakingPool exStakingWorld"
proof -
  obtain r sm' where r: "HandleStaking (DepositGas True) exProtocol exCtx exPrice exCreate exStakingWorld = (Inr r, sm')"
    "Status r = RS_Success" "stakingPool sm' = 5000"
    using exCreate_runs by blast
  from staking_conserves [OF exStakingWorld_wf exCreate_facts(2-4) exCtx_facts(3) r(1)] r show ?thesis by blast
qed

end
