(* ===== verification/StakingInvariant.thy ===== *)
theory StakingInvariant
  imports StakingMoney
begin

text \<open>
  What every receipt of a staking action keeps, whatever its status: the candidate center is
  consistent, the stored candidates are those of the center, every bucket is stored under its own
  index and can be read again, and the pool holds the sum and the number of the buckets.
\<close>

section \<open>The invariant\<close>

text \<open>What \<^verbatim>\<open>fromProto\<close> accepts.\<close>

definition validTime :: "int \<Rightarrow> bool" where
  "validTime t \<longleftrightarrow> CheckValid (timestamppb t) = Inr ()"

definition readable :: "VoteBucket \<Rightarrow> bool" where
  "readable b \<longleftrightarrow> 0 < vbStakedAmount b \<and> validTime (vbCreateTime b) \<and> validTime (vbStakeStartTime b) \<and>
     validTime (vbUnstakeStartTime b)"

text \<open>
  The buckets: \<open>d\<close> is what they hold more than the pool and \<open>n\<close> how many they are more than it
  counts, which is not zero between two writes of a handler.
\<close>

definition binv :: "int \<Rightarrow> u64 \<Rightarrow> staking_state \<Rightarrow> bool" where
  "binv d n s \<longleftrightarrow> finite (dom (bucketNS s)) \<and>
     (\<forall>i b. bucketNS s i = Some b \<longrightarrow> vbIndex b = i \<and> i < nextIndex s \<and> readable b) \<and>
     msum vbStakedAmount (bucketNS s) = tAmount (total (bucketPool s)) + d \<and>
     of_nat (card (dom (bucketNS s))) = tCount (total (bucketPool s)) + n"

definition poolStored :: "staking_state \<Rightarrow> bool" where
  "poolStored s \<longleftrightarrow> (enableSMStorage (bucketPool s) \<longrightarrow> poolNS s = None \<or> poolNS s = Some (total (bucketPool s)))"

text \<open>A version of a candidate that a lookup may return, the committed one included.\<close>

definition seen :: "CandidateCenter \<Rightarrow> Candidate \<Rightarrow> bool" where
  "seen m d \<longleftrightarrow> (\<exists>i. cands m i = Some d) \<or> (\<exists>i. bmap (base m) i = Some d)"

definition candFits :: "bool \<Rightarrow> u64 \<Rightarrow> Candidate \<Rightarrow> bool" where
  "candFits byOwner n d \<longleftrightarrow> (\<forall>k. selfKey d = Some k \<longrightarrow> k < n) \<and> (byOwner \<longrightarrow> GetIdentifier d = cOwner d)"

definition cinv :: "bool \<Rightarrow> staking_state \<Rightarrow> bool" where
  "cinv byOwner s \<longleftrightarrow> center_ok (candCenter s) \<and> candNS s = cands (candCenter s) \<and>
     (\<forall>d. seen (candCenter s) d \<longrightarrow> candFits byOwner (nextIndex s) d)"

definition stk_inv :: "bool \<Rightarrow> staking_state \<Rightarrow> bool" where
  "stk_inv byOwner s \<longleftrightarrow> cinv byOwner s \<and> binv 0 0 s \<and> poolStored s"

section \<open>Buckets\<close>

lemma reload_Inr:
  "reload b = Inr b' \<longleftrightarrow> readable b \<and>
     b' = b\<lparr>vbStakedDuration := durationOfDays (daysOfDuration (vbStakedDuration b)), vbTimestamped := False\<rparr>"
  by (auto simp: reload_def readable_def validTime_def bindR_Inr checkR_Inr)

lemma NativeBucket_Inr:
  assumes "binv d n s" "NativeBucket s i = Inr b"
  shows "\<exists>b0. bucketNS s i = Some b0 \<and> vbIndex b = i \<and> i < nextIndex s \<and> readable b \<and> vbStakedAmount b = vbStakedAmount b0"
  using assms by (auto simp: NativeBucket_def reload_Inr binv_def readable_def split: option.splits)

lemma NativeBucket_total: "binv d n s \<Longrightarrow> bucketNS s i = Some b \<Longrightarrow> \<exists>b'. NativeBucket s i = Inr b'"
  by (auto simp: NativeBucket_def reload_Inr binv_def)

lemma binv_update:
  assumes inv: "binv d n s" and b: "NativeBucket s i = Inr b" and b': "vbIndex b' = i" "readable b'"
  shows "binv (d + vbStakedAmount b' - vbStakedAmount b) n (s\<lparr>bucketNS := (bucketNS s)(i \<mapsto> b')\<rparr>)"
proof -
  obtain b0 where b0: "bucketNS s i = Some b0" "vbStakedAmount b = vbStakedAmount b0" "i < nextIndex s"
    using NativeBucket_Inr [OF inv b] by blast
  then have "dom ((bucketNS s)(i \<mapsto> b')) = dom (bucketNS s)" by auto
  then show ?thesis using inv b0 b' by (auto simp: binv_def msum_upd nextIndex_def split: if_splits)
qed

lemma binv_put:
  assumes inv: "binv d n s" and b: "readable b" and room: "nextIndex s + 1 \<noteq> 0"
  shows "binv (d + vbStakedAmount b) (n + 1) (withBucket b s)"
proof -
  have fresh: "bucketNS s (nextIndex s) = None"
    using inv by (cases "bucketNS s (nextIndex s)") (auto simp: binv_def)
  have nx: "nextIndex (withBucket b s) = nextIndex s + 1" by (simp add: withBucket_def nextIndex_def Let_def)
  have lt: "i < nextIndex s + 1" if "i \<le> nextIndex s" for i
    using that room unatSuc [of "nextIndex s"] by (simp add: word_less_nat_alt word_le_nat_alt add.commute)
  have d: "dom ((bucketNS s)(nextIndex s \<mapsto> b')) = insert (nextIndex s) (dom (bucketNS s))" for b' by simp
  have "of_nat (card (insert (nextIndex s) (dom (bucketNS s)))) = tCount (total (bucketPool s)) + (n + 1)"
    using inv fresh by (simp add: binv_def domIff)
  then show ?thesis
    using inv b fresh lt unfolding binv_def nx
    by (auto simp: withBucket_def Let_def msum_upd d readable_def split: if_splits intro: less_imp_le)
qed

lemma binv_delete:
  assumes inv: "binv d n s" and b: "NativeBucket s i = Inr b"
  shows "binv (d - vbStakedAmount b) (n - 1) (s\<lparr>bucketNS := (bucketNS s)(i := None)\<rparr>)"
proof -
  obtain b0 where b0: "bucketNS s i = Some b0" "vbStakedAmount b = vbStakedAmount b0"
    using NativeBucket_Inr [OF inv b] by blast
  have fin: "finite (dom (bucketNS s))" using inv by (simp add: binv_def)
  then have "card (dom (bucketNS s)) = Suc (card (dom (bucketNS s) - {i}))"
    using b0(1) by (metis card.remove domI)
  then have "of_nat (card (dom (bucketNS s))) = 1 + (of_nat (card (dom (bucketNS s) - {i})) :: u64)" by simp
  moreover have "of_nat (card (dom (bucketNS s))) = tCount (total (bucketPool s)) + n" using inv by (simp add: binv_def)
  ultimately have "of_nat (card (dom (bucketNS s) - {i})) = tCount (total (bucketPool s)) + (n - 1)"
    by (simp add: algebra_simps)
  then show ?thesis using inv b0 by (auto simp: binv_def msum_delete nextIndex_def split: if_splits)
qed

lemma binv_frame [simp]:
  "binv d n (s\<lparr>candCenter := cc\<rparr>) = binv d n s" "binv d n (s\<lparr>candNS := m\<rparr>) = binv d n s"
  "binv d n (s\<lparr>voterIdxNS := vi\<rparr>) = binv d n s" "binv d n (s\<lparr>candIdxNS := ci\<rparr>) = binv d n s"
  "binv d n (s\<lparr>endorseNS := en\<rparr>) = binv d n s" "binv d n (s\<lparr>snapshots := sn\<rparr>) = binv d n s"
  "binv d n (s\<lparr>poolNS := pn\<rparr>) = binv d n s"
  by (simp_all add: binv_def nextIndex_def)

lemma poolStored_frame [simp]:
  "poolStored (s\<lparr>candCenter := cc\<rparr>) = poolStored s" "poolStored (s\<lparr>candNS := m\<rparr>) = poolStored s"
  "poolStored (s\<lparr>voterIdxNS := vi\<rparr>) = poolStored s" "poolStored (s\<lparr>candIdxNS := ci\<rparr>) = poolStored s"
  "poolStored (s\<lparr>endorseNS := en\<rparr>) = poolStored s" "poolStored (s\<lparr>snapshots := sn\<rparr>) = poolStored s"
  "poolStored (s\<lparr>bucketNS := bs\<rparr>) = poolStored s" "poolStored (withBucket b s) = poolStored s"
  by (simp_all add: poolStored_def withBucket_def Let_def)

lemma cinv_frame [simp]:
  "cinv f (s\<lparr>voterIdxNS := vi\<rparr>) = cinv f s" "cinv f (s\<lparr>candIdxNS := ci\<rparr>) = cinv f s"
  "cinv f (s\<lparr>endorseNS := en\<rparr>) = cinv f s" "cinv f (s\<lparr>snapshots := sn\<rparr>) = cinv f s"
  "cinv f (s\<lparr>poolNS := pn\<rparr>) = cinv f s" "cinv f (s\<lparr>bucketPool := bp\<rparr>) = cinv f s"
  "cinv f (s\<lparr>bucketNS := bs\<rparr>) = cinv f s"
  by (simp_all add: cinv_def nextIndex_def)

section \<open>Candidates\<close>

text \<open>No candidate but this one has its owner.\<close>

definition ownedBy :: "Candidate \<Rightarrow> CandidateCenter \<Rightarrow> bool" where
  "ownedBy d m \<longleftrightarrow> (\<forall>j e. cands m j = Some e \<longrightarrow> cOwner e = cOwner d \<longrightarrow> j = GetIdentifier d)"

lemma cinv_center: "cinv f s \<Longrightarrow> center_ok (candCenter s)"
  by (simp add: cinv_def)

lemma cands_id: "center_ok m \<Longrightarrow> cands m i = Some d \<Longrightarrow> GetIdentifier d = i"
  using keyedD center_ok_uniq by blast

lemma cands_owned: "center_ok m \<Longrightarrow> cands m i = Some d \<Longrightarrow> ownedBy d m"
  unfolding ownedBy_def using owner_of_same [of m i d d] cands_id by blast

lemma ownedBy_cong: "cOwner d = cOwner e \<Longrightarrow> GetIdentifier d = GetIdentifier e \<Longrightarrow> ownedBy d m = ownedBy e m"
  by (simp add: ownedBy_def)

lemma GetByOwner_cases:
  assumes ok: "center_ok m" and g: "GetByOwner a m = Some d"
  shows "cOwner d = a \<and> ownedBy d m \<and> seen m d"
proof (cases "ch_getByOwner a (change m)")
  case (Some d')
  then have d: "d' = d" "d \<in> set (map snd (chDirty (change m)))" "a = cOwner d"
    using g find_SomeD [of "\<lambda>d. a = cOwner d" "map snd (chDirty (change m))" d']
    by (auto simp: GetByOwner_def getUnfiltered_def ch_getByOwner_def ch_find_def)
  then obtain i where "dmap (change m) i = Some d" using dirty_values [OF ok] by blast
  then have "cands m i = Some d" by (simp add: cands_cases [OF ok])
  then show ?thesis using cands_owned [OF ok] d(3) by (auto simp: seen_def)
next
  case None
  then have "ownerMap (base m) a = Some d" using g by (simp add: GetByOwner_def getUnfiltered_def)
  then have b: "bmap (base m) (GetIdentifier d) = Some d" "cOwner d = a"
    using base_index [OF ok center_indexes(2) [OF ok]] by (auto simp: ownerKey_def)
  have "j = GetIdentifier d" if e: "cands m j = Some e" "cOwner e = a" for j e
  proof -
    have "\<not> (\<exists>x\<in>set (map snd (chDirty (change m))). a = cOwner x)"
      using None by (auto simp: ch_getByOwner_def ch_find_def find_None_iff)
    then have "dmap (change m) j \<noteq> Some e" using dirty_values [OF ok] e(2) by blast
    then have bj: "bmap (base m) j = Some e" using e(1) by (auto simp: cands_cases [OF ok])
    then have "ownerMap (base m) a = Some e"
      using center_indexes(2) [OF ok] e(2) by (auto simp: indexes_def ownerKey_def)
    then have "e = d" using \<open>ownerMap (base m) a = Some d\<close> by simp
    then show ?thesis using cands_id [OF ok e(1)] by simp
  qed
  then show ?thesis using b by (auto simp: ownedBy_def seen_def)
qed

lemma GetByOwner_None:
  assumes ok: "center_ok m" and g: "GetByOwner a m = None" and e: "cands m j = Some e"
  shows "cOwner e \<noteq> a"
proof
  assume a: "cOwner e = a"
  have n: "ch_getByOwner a (change m) = None" "ownerMap (base m) a = None"
    using g by (auto simp: GetByOwner_def getUnfiltered_def split: option.splits)
  then have "\<not> (\<exists>x\<in>set (map snd (chDirty (change m))). a = cOwner x)"
    by (auto simp: ch_getByOwner_def ch_find_def find_None_iff)
  then have "dmap (change m) j \<noteq> Some e" using dirty_values [OF ok] a by blast
  then have "bmap (base m) j = Some e" using e by (auto simp: cands_cases [OF ok])
  then have "ownerMap (base m) a = Some e" using center_indexes(2) [OF ok] a unfolding indexes_def ownerKey_def by blast
  then show False using n(2) by simp
qed

lemma cands_fits: "cinv f s \<Longrightarrow> cands (candCenter s) i = Some d \<Longrightarrow> candFits f (nextIndex s) d"
  by (auto simp: cinv_def seen_def)

lemma owner_fits: "cinv f s \<Longrightarrow> GetByOwner a (candCenter s) = Some d \<Longrightarrow> candFits f (nextIndex s) d"
  using GetByOwner_cases by (auto simp: cinv_def)

lemma candFits_update [simp]:
  "candFits f n (d\<lparr>cVotes := v\<rparr>) = candFits f n d" "candFits f n (d\<lparr>cSelfStake := v\<rparr>) = candFits f n d"
  "candFits f n (d\<lparr>cName := x\<rparr>) = candFits f n d" "candFits f n (d\<lparr>cReward := a\<rparr>) = candFits f n d"
  "candFits f n (d\<lparr>cOperator := a\<rparr>) = candFits f n d" "candFits f n (d\<lparr>cBLSPubKey := k\<rparr>) = candFits f n d"
  by (simp_all add: candFits_def)

lemma candFits_clear: "candFits f n d \<Longrightarrow> candFits f n (d\<lparr>cSelfStakeBucketIdx := candidateNoSelfStakeBucketIndex\<rparr>)"
  by (simp add: candFits_def)

lemma cinv_upsert:
  assumes inv: "cinv f s" and up: "Upsert d (candCenter s) = Inr cc" and own: "ownedBy d (candCenter s)"
    and fits: "candFits f (nextIndex s) d"
  shows "cinv f (s\<lparr>candCenter := cc, candNS := (candNS s)(GetIdentifier d \<mapsto> d)\<rparr>) \<and>
    cands cc = (cands (candCenter s))(GetIdentifier d \<mapsto> d) \<and> base cc = base (candCenter s)"
proof -
  have ok: "center_ok cc \<and> cands cc = (cands (candCenter s))(GetIdentifier d \<mapsto> d)"
    by (rule Upsert_ok [OF cinv_center [OF inv] up]) (use own in \<open>auto simp: ownedBy_def\<close>)
  have b: "base cc = base (candCenter s)" using up by (simp add: Upsert_Inr)
  have "seen (candCenter s) e \<or> e = d" if "seen cc e" for e
    using that ok b by (auto simp: seen_def split: if_splits)
  then have "seen cc e \<longrightarrow> candFits f (nextIndex s) e" for e using inv fits by (auto simp: cinv_def)
  then show ?thesis using ok b inv by (auto simp: cinv_def nextIndex_def)
qed

section \<open>Rules for the steps of the handlers\<close>

text \<open>
  What a receipt error leaves; a failed deposit may have written a larger bucket already, which is
  the case \<open>l\<close>.
\<close>

definition weak_inv :: "bool \<Rightarrow> staking_state \<Rightarrow> bool" where
  "weak_inv f s \<longleftrightarrow> cinv f s \<and> poolStored s \<and> (\<exists>d. 0 \<le> d \<and> binv d 0 s)"

definition errOk :: "bool \<Rightarrow> bool \<Rightarrow> go_error \<Rightarrow> 'a staking_world_scheme \<Rightarrow> bool" where
  "errOk f l e sm \<longleftrightarrow> (case e of HandleError _ _ \<Rightarrow> if l then weak_inv f (stk sm) else stk_inv f (stk sm) | _ \<Rightarrow> True)"

lemma stk_inv_weak: "stk_inv f s \<Longrightarrow> weak_inv f s"
  unfolding stk_inv_def weak_inv_def by auto

lemma errOkI: "stk_inv f (stk sm) \<Longrightarrow> errOk f l e sm"
  by (auto simp: errOk_def stk_inv_weak split: go_error.splits)

lemma errOk_weak: "weak_inv f (stk sm) \<Longrightarrow> errOk f True e sm"
  by (auto simp: errOk_def split: go_error.splits)

lemma wp_onStk [wp_intros]:
  "wp m (\<lambda>x s. Q x (sm\<lparr>stk := s\<rparr>)) (\<lambda>e s. E e (sm\<lparr>stk := s\<rparr>)) (stk sm) \<Longrightarrow> wp (onStk m) Q E sm"
  by (auto simp: wp_def onStk_def split: prod.splits sum.splits)

lemma wp_bindStk [wp_intros]:
  "(\<And>x. f (smHeight sm) (stk sm) = Inr x \<Longrightarrow> wp (k x) Q E sm) \<Longrightarrow> (\<And>e. f (smHeight sm) (stk sm) = Inl e \<Longrightarrow> E e sm) \<Longrightarrow>
   wp (bindStk f k) Q E sm"
  by (cases "f (smHeight sm) (stk sm)") (auto simp: wp_def bindStk_def bindS_def)

lemma wp_orStatus [wp_intros]:
  "(\<And>x. r = Inr x \<Longrightarrow> Q x s) \<Longrightarrow> (\<And>e. r = Inl e \<Longrightarrow> E (HandleError e st) s) \<Longrightarrow> wp (orStatus st r) Q E s"
  by (cases r) (auto simp: wp_def orStatus_def liftS_def mapErrR_def)

lemma wp_failIf [wp_intros]:
  "(\<not> b \<Longrightarrow> Q () s) \<Longrightarrow> (b \<Longrightarrow> E (HandleError (Errorf msg) st) s) \<Longrightarrow> wp (failIf b msg st) Q E s"
  by (simp add: failIf_def wp_def checkS_def returnS_def failS_def)

lemma wp_checkNotEndorsed [wp_intros]:
  "Q () sm \<Longrightarrow> (\<And>e. E e sm) \<Longrightarrow> wp (checkNotEndorsed c b) Q E sm"
  unfolding checkNotEndorsed_def by (intro wp_intros) auto

lemma wp_fetchCaller:
  assumes "\<And>acc. LoadAccountByHash160 sm (Caller c) (accountCreationOpts c) = Inr acc \<Longrightarrow>
      HasSufficientBalance (Some (amount + GasPrice c * uint (IntrinsicGas c))) acc = Inr True \<Longrightarrow> Q acc sm"
    and "\<And>e. E e sm"
  shows "wp (fetchCaller c amount) Q E sm"
  unfolding fetchCaller_def Let_def
proof (intro wp_intros)
  show "wp (LoadAccount (Caller c) (accountCreationOpts c)) (\<lambda>x. wp (bindS (mapErrS (\<lambda>e. HandleError e RS_Failure)
      (liftS (HasSufficientBalance (Some (amount + GasPrice c * uint (IntrinsicGas c))) x)))
      (\<lambda>ok. thenS (checkS ok (HandleError ErrNotEnoughBalance RS_ErrNotEnoughBalance)) (returnS x))) Q E)
    (\<lambda>e. E (HandleError e RS_Failure)) sm"
    unfolding LoadAccount_def by (intro wp_state_read wp_intros) (use assms in auto)
qed

lemma wp_updateBucket [wp_intros]:
  "(\<And>b0. NativeBucket s i = Inr b0 \<Longrightarrow> Q () (s\<lparr>bucketNS := (bucketNS s)(i \<mapsto> b)\<rparr>)) \<Longrightarrow>
   (\<And>e. NativeBucket s i = Inl e \<Longrightarrow> E e s) \<Longrightarrow> wp (updateBucket i b) Q E s"
  unfolding updateBucket_def by (intro wp_state_read wp_intros) auto

lemma wp_putBucketAndIndex [wp_intros]: "Q (nextIndex s) (withBucket b s) \<Longrightarrow> wp (putBucketAndIndex b) Q E s"
  by (simp add: wp_def putBucketAndIndex_run)

lemma wp_index [wp_intros]:
  "Q () (s\<lparr>voterIdxNS := putIndex a i (voterIdxNS s)\<rparr>) \<Longrightarrow> wp (putVoterBucketIndex a i) Q E s"
  "Q () (s\<lparr>candIdxNS := putIndex a i (candIdxNS s)\<rparr>) \<Longrightarrow> wp (putCandBucketIndex a i) Q E s"
  "(\<And>m. delIndex a i (voterIdxNS s) = Inr m \<Longrightarrow> Q () (s\<lparr>voterIdxNS := m\<rparr>)) \<Longrightarrow> (\<And>e. E e s) \<Longrightarrow> wp (delVoterBucketIndex a i) Q E s"
  "(\<And>m. delIndex a i (candIdxNS s) = Inr m \<Longrightarrow> Q () (s\<lparr>candIdxNS := m\<rparr>)) \<Longrightarrow> (\<And>e. E e s) \<Longrightarrow> wp (delCandBucketIndex a i) Q E s"
  unfolding putVoterBucketIndex_def putCandBucketIndex_def delVoterBucketIndex_def delCandBucketIndex_def
  by (intro wp_state_read wp_intros; simp)+

lemma wp_esm [wp_intros]:
  "Q () (s\<lparr>endorseNS := (endorseNS s)(i \<mapsto> h)\<rparr>) \<Longrightarrow> wp (esmPut i h) Q E s"
  "Q () (s\<lparr>endorseNS := (endorseNS s)(i := None)\<rparr>) \<Longrightarrow> wp (esmDelete i) Q E s"
  by (simp_all add: wp_def esmPut_def esmDelete_def modifyS_def)

lemma wp_upsertCandidate:
  assumes inv: "cinv f (stk sm)" and own: "ownedBy d (candCenter (stk sm))" and fits: "candFits f (nextIndex (stk sm)) d"
    and ok: "\<And>cc s'. Upsert d (candCenter (stk sm)) = Inr cc \<Longrightarrow> s' = (stk sm)\<lparr>candCenter := cc, candNS := (candNS (stk sm))(GetIdentifier d \<mapsto> d)\<rparr> \<Longrightarrow>
      cinv f s' \<Longrightarrow> cands cc = (cands (candCenter (stk sm)))(GetIdentifier d \<mapsto> d) \<Longrightarrow> Q () (sm\<lparr>stk := s'\<rparr>)"
    and fail: "\<And>e. Upsert d (candCenter (stk sm)) = Inl e \<Longrightarrow> E (csmErrorToHandleError e) sm"
  shows "wp (upsertCandidate d) Q E sm"
proof (cases "Upsert d (candCenter (stk sm))")
  case (Inl e)
  then show ?thesis using fail [OF Inl] by (simp add: wp_def upsertCandidate_def csmUpsert_def op_defs onStk_def)
next
  case (Inr cc)
  then have "upsertCandidate d sm = (Inr (), sm\<lparr>stk := (stk sm)\<lparr>candCenter := cc, candNS := (candNS (stk sm))(GetIdentifier d \<mapsto> d)\<rparr>\<rparr>)"
    by (simp add: upsertCandidate_def csmUpsert_def op_defs onStk_def)
  then show ?thesis using ok [OF Inr refl] cinv_upsert [OF inv Inr own fits] by (simp add: wp_def)
qed

section \<open>Handlers that do not move tokens\<close>

lemma stk_invD:
  assumes "stk_inv f s"
  shows "cinv f s" "binv 0 0 s" "poolStored s" "center_ok (candCenter s)"
  using assms by (auto simp: stk_inv_def cinv_def)

lemma stk_inv_frame [simp]:
  "stk_inv f (s\<lparr>voterIdxNS := vi\<rparr>) = stk_inv f s" "stk_inv f (s\<lparr>candIdxNS := ci\<rparr>) = stk_inv f s"
  "stk_inv f (s\<lparr>endorseNS := en\<rparr>) = stk_inv f s" "stk_inv f (s\<lparr>snapshots := sn\<rparr>) = stk_inv f s"
  by (simp_all add: stk_inv_def)

text \<open>A bucket that is written back with the amount it had.\<close>

lemma stk_inv_update:
  assumes inv: "stk_inv f s" and b: "NativeBucket s i = Inr b" and b': "vbIndex b' = i" "readable b'" "vbStakedAmount b' = vbStakedAmount b"
  shows "stk_inv f (s\<lparr>bucketNS := (bucketNS s)(i \<mapsto> b')\<rparr>)"
  using binv_update [OF stk_invD(2) [OF inv] b b'(1,2)] b'(3) inv by (simp add: stk_inv_def)

lemma fetchBucket_Inr: "fetchBucket s i = Inr b \<longleftrightarrow> NativeBucket s i = Inr b"
  by (simp add: fetchBucket_def mapErrR_Inr)

lemma fetchValid_Inr: "fetchValid f h s caller i own self = Inr b \<Longrightarrow> NativeBucket s i = Inr b \<and> (own \<longrightarrow> vbOwner b = caller)"
  by (auto simp: fetchValid_def fetchBucketAndValidate_def fetchBucket_Inr split: sum.splits if_splits)

lemma needCand_Inr: "needCand x = Inr d \<longleftrightarrow> x = Some d"
  by (auto simp: needCand_def split: option.splits)

lemma transferTarget_Inr: "transferTarget c act h s = Inr (b, o') \<Longrightarrow> NativeBucket s (tsBucketIndex act) = Inr b"
  by (auto simp: transferTarget_def fetchBucketAndValidate_def fetchBucket_Inr split: sum.splits if_splits option.splits go_error.splits)

lemma votes_Inr:
  "SubVote v d = Inr d' \<longleftrightarrow> 0 \<le> v \<and> v \<le> cVotes d \<and> d' = d\<lparr>cVotes := cVotes d - v\<rparr>"
  "AddVote v d = Inr d' \<longleftrightarrow> 0 \<le> v \<and> d' = d\<lparr>cVotes := cVotes d + v\<rparr>"
  "AddSelfStake v d = Inr d' \<longleftrightarrow> 0 \<le> v \<and> d' = d\<lparr>cSelfStake := cSelfStake d + v\<rparr>"
  by (auto simp: SubVote_def AddVote_def AddSelfStake_def)

lemma readable_unstake [simp]:
  "readable (b\<lparr>vbUnstakeStartTime := t\<rparr>) = (0 < vbStakedAmount b \<and> validTime (vbCreateTime b) \<and> validTime (vbStakeStartTime b) \<and> validTime t)"
  by (simp add: readable_def)

text \<open>A candidate that was read from the center, with other votes or no self stake.\<close>

lemma ownedBy_update [simp]:
  "ownedBy (d\<lparr>cVotes := v\<rparr>) m = ownedBy d m" "ownedBy (d\<lparr>cSelfStake := v\<rparr>) m = ownedBy d m"
  "ownedBy (d\<lparr>cSelfStakeBucketIdx := i\<rparr>) m = ownedBy d m" "ownedBy (d\<lparr>cName := x\<rparr>) m = ownedBy d m"
  "ownedBy (d\<lparr>cOperator := a\<rparr>) m = ownedBy d m" "ownedBy (d\<lparr>cReward := a\<rparr>) m = ownedBy d m"
  "ownedBy (d\<lparr>cBLSPubKey := k\<rparr>) m = ownedBy d m"
  by (simp_all add: ownedBy_def)

text \<open>A version of a candidate that may be written.\<close>

definition good :: "bool \<Rightarrow> Candidate \<Rightarrow> staking_state \<Rightarrow> bool" where
  "good f d s \<longleftrightarrow> ownedBy d (candCenter s) \<and> candFits f (nextIndex s) d"

lemma good_update [simp]:
  "good f (d\<lparr>cVotes := v\<rparr>) s = good f d s" "good f (d\<lparr>cSelfStake := v\<rparr>) s = good f d s"
  "good f (d\<lparr>cName := x\<rparr>) s = good f d s" "good f (d\<lparr>cOperator := a\<rparr>) s = good f d s"
  "good f (d\<lparr>cReward := a\<rparr>) s = good f d s" "good f (d\<lparr>cBLSPubKey := k\<rparr>) s = good f d s"
  by (simp_all add: good_def)

lemma good_clear [simp]: "good f d s \<Longrightarrow> good f (d\<lparr>cSelfStakeBucketIdx := candidateNoSelfStakeBucketIndex\<rparr>) s"
  by (simp add: good_def candFits_clear)

lemma good_votes:
  "SubVote v d = Inr d' \<Longrightarrow> good f d' s = good f d s" "AddVote v d = Inr d' \<Longrightarrow> good f d' s = good f d s"
  "AddSelfStake v d = Inr d' \<Longrightarrow> good f d' s = good f d s"
  by (auto simp: votes_Inr)

lemma good_cands: "cinv f s \<Longrightarrow> cands (candCenter s) i = Some d \<Longrightarrow> good f d s"
  by (auto simp: good_def cands_fits cinv_center intro: cands_owned)

lemma good_owner: "cinv f s \<Longrightarrow> GetByOwner a (candCenter s) = Some d \<Longrightarrow> good f d s"
  using GetByOwner_cases owner_fits by (auto simp: good_def cinv_center)

named_theorems inv_intros \<open>steps of the handlers that keep the invariant, with the errors they return\<close>

lemmas [inv_intros] = wp_bindS wp_thenS wp_returnS wp_whenS wp_if wp_case_prod

lemma inv_checks [inv_intros]:
  "stk_inv f (stk sm) \<Longrightarrow> (\<not> b \<Longrightarrow> Q () sm) \<Longrightarrow> wp (failIf b msg st) Q (errOk f l) sm"
  "stk_inv f (stk sm) \<Longrightarrow> Q () sm \<Longrightarrow> wp (checkNotEndorsed c vb) Q (errOk f l) sm"
  "stk_inv f (stk sm) \<Longrightarrow> (\<And>acc. R acc sm) \<Longrightarrow> wp (fetchCaller c amount) R (errOk f l) sm"
  "stk_inv f (stk sm) \<Longrightarrow> (\<And>x. r = Inr x \<Longrightarrow> Q' x sm) \<Longrightarrow> wp (orStatus st r) Q' (errOk f l) sm"
  "stk_inv f (stk sm) \<Longrightarrow> (\<And>x. r' = Inr x \<Longrightarrow> Q'' x sm) \<Longrightarrow> wp (liftS r') Q'' (errOk f l) sm"
  by (intro wp_failIf wp_checkNotEndorsed wp_fetchCaller wp_orStatus wp_liftS errOkI; simp)+

lemma inv_read:
  "stk_inv f (stk sm) \<Longrightarrow> (\<And>x. g (smHeight sm) (stk sm) = Inr x \<Longrightarrow> wp (k x) Q (errOk f l) sm) \<Longrightarrow> wp (bindStk g k) Q (errOk f l) sm"
  by (intro wp_bindStk errOkI)

lemma inv_fetch [inv_intros]:
  "stk_inv f (stk sm) \<Longrightarrow>
   (\<And>b. NativeBucket (stk sm) i = Inr b \<Longrightarrow> vbIndex b = i \<Longrightarrow> i < nextIndex (stk sm) \<Longrightarrow> readable b \<Longrightarrow> wp (k b) Q (errOk f l) sm) \<Longrightarrow>
   wp (bindStk (\<lambda>h s. fetchValid fc h s caller i own self) k) Q (errOk f l) sm"
  "stk_inv f (stk sm) \<Longrightarrow>
   (\<And>b. NativeBucket (stk sm) i = Inr b \<Longrightarrow> vbIndex b = i \<Longrightarrow> i < nextIndex (stk sm) \<Longrightarrow> readable b \<Longrightarrow> wp (k b) Q (errOk f l) sm) \<Longrightarrow>
   wp (bindStk (\<lambda>_ s. fetchBucket s i) k) Q (errOk f l) sm"
  by (rule inv_read, assumption, use NativeBucket_Inr [OF stk_invD(2)] fetchValid_Inr fetchBucket_Inr in blast)+

lemma inv_transferTarget [inv_intros]:
  "stk_inv f (stk sm) \<Longrightarrow>
   (\<And>b o'. NativeBucket (stk sm) (tsBucketIndex act) = Inr b \<Longrightarrow> vbIndex b = tsBucketIndex act \<Longrightarrow> readable b \<Longrightarrow>
      wp (k (b, o')) Q (errOk f l) sm) \<Longrightarrow>
   wp (bindStk (transferTarget c act) k) Q (errOk f l) sm"
  by (rule inv_read, assumption, metis NativeBucket_Inr stk_invD(2) transferTarget_Inr surj_pair)

lemma inv_cand [inv_intros]:
  "stk_inv f (stk sm) \<Longrightarrow> (\<And>d. cands (candCenter (stk sm)) a = Some d \<Longrightarrow> good f d (stk sm) \<Longrightarrow> wp (k d) Q (errOk f l) sm) \<Longrightarrow>
   wp (bindStk (\<lambda>_ s. needCand (GetByIdentifier a (candCenter s))) k) Q (errOk f l) sm"
  "stk_inv f (stk sm) \<Longrightarrow> (\<And>d i. cands (candCenter (stk sm)) i = Some d \<Longrightarrow> good f d (stk sm) \<Longrightarrow> wp (k d) Q (errOk f l) sm) \<Longrightarrow>
   wp (bindStk (\<lambda>_ s. needCand (GetByName n (candCenter s))) k) Q (errOk f l) sm"
  "stk_inv f (stk sm) \<Longrightarrow> (\<And>d. GetByOwner a (candCenter (stk sm)) = Some d \<Longrightarrow> good f d (stk sm) \<Longrightarrow> wp (k d) Q (errOk f l) sm) \<Longrightarrow>
   wp (bindStk (\<lambda>_ s. needCand (GetByOwner a (candCenter s))) k) Q (errOk f l) sm"
  by (rule inv_read, assumption, unfold needCand_Inr GetByIdentifier_cands,
      use good_cands [OF stk_invD(1)] good_owner [OF stk_invD(1)] GetByName_iff [OF stk_invD(4)] in blast)+

lemma inv_ask [inv_intros]:
  "stk_inv f (stk sm) \<Longrightarrow> (\<And>x. wp (k x) Q (errOk f l) sm) \<Longrightarrow> wp (bindStk (\<lambda>h s. Inr (g h s)) k) Q (errOk f l) sm"
  by (rule inv_read)

text \<open>Writes; the candidates stay what they are.\<close>

definition sameCands :: "staking_state \<Rightarrow> staking_state \<Rightarrow> bool" where
  "sameCands s s' \<longleftrightarrow> candCenter s' = candCenter s \<and> nextIndex s' = nextIndex s"

lemma sameCands_good: "sameCands s s' \<Longrightarrow> good f d s' = good f d s"
  by (simp add: sameCands_def good_def)

lemma inv_updateBucket [inv_intros]:
  assumes "stk_inv f (stk sm)" "NativeBucket (stk sm) i = Inr b"
    "vbIndex b' = i" "readable b'" "vbStakedAmount b' = vbStakedAmount b"
    and Q: "\<And>sm'. stk_inv f (stk sm') \<Longrightarrow> sameCands (stk sm) (stk sm') \<Longrightarrow> Q () sm'"
  shows "wp (onStk (updateBucket i b')) Q (errOk f l) sm"
proof (intro wp_intros)
  show "Q () (sm\<lparr>stk := (stk sm)\<lparr>bucketNS := (bucketNS (stk sm))(i \<mapsto> b')\<rparr>\<rparr>)" if "NativeBucket (stk sm) i = Inr b0" for b0
    using stk_inv_update [OF assms(1-5)] by (intro Q) (simp_all add: sameCands_def nextIndex_def)
qed (use assms(2) in simp)

lemma inv_indices [inv_intros]:
  assumes "stk_inv f (stk sm)"
    and Q: "\<And>sm'. stk_inv f (stk sm') \<Longrightarrow> sameCands (stk sm) (stk sm') \<Longrightarrow> NativeBucket (stk sm') = NativeBucket (stk sm) \<Longrightarrow> Q () sm'"
  shows "wp (onStk (putVoterBucketIndex a i)) Q (errOk f l) sm" "wp (onStk (putCandBucketIndex a i)) Q (errOk f l) sm"
    "wp (onStk (delVoterBucketIndex a i)) Q (errOk f l) sm" "wp (onStk (delCandBucketIndex a i)) Q (errOk f l) sm"
    "wp (onStk (esmPut i h)) Q (errOk f l) sm" "wp (onStk (esmDelete i)) Q (errOk f l) sm"
  by (intro wp_intros Q errOkI; simp add: assms(1) sameCands_def nextIndex_def NativeBucket_def fun_eq_iff)+

lemma recordOwner_frame [simp]:
  "bmap (recordOwner d cb) = bmap cb" "base_ok (recordOwner d cb) = base_ok cb"
  "cands (m\<lparr>base := recordOwner d (base m)\<rparr>) = cands m"
  "center_ok (m\<lparr>base := recordOwner d (base m)\<rparr>) = center_ok m"
  by (simp_all add: bmap_def base_ok_def center_ok_def cands_def recordOwner_def)

lemma inv_recordOwner [inv_intros]:
  assumes "stk_inv f (stk sm)" and Q: "\<And>sm'. stk_inv f (stk sm') \<Longrightarrow> Q () sm'"
  shows "wp (onStk (recordOwnerS d)) Q (errOk f l) sm"
  unfolding recordOwnerS_def
  using assms(1) by (intro wp_intros Q) (auto simp: stk_inv_def cinv_def seen_def nextIndex_def)

text \<open>The last step of most handlers.\<close>

lemma good_upsert:
  assumes "cands (candCenter s') = (cands (candCenter s))(i \<mapsto> d)" "nextIndex s' = nextIndex s" "good f e s"
    "cOwner d = cOwner e \<Longrightarrow> i = GetIdentifier e"
  shows "good f e s'"
  using assms by (auto simp: good_def ownedBy_def split: if_splits)

lemma inv_upsert [inv_intros]:
  assumes "stk_inv f (stk sm)" "good f d (stk sm)"
    and "\<And>sm'. stk_inv f (stk sm') \<Longrightarrow> cands (candCenter (stk sm')) = (cands (candCenter (stk sm)))(GetIdentifier d \<mapsto> d) \<Longrightarrow>
      nextIndex (stk sm') = nextIndex (stk sm) \<Longrightarrow> Q () sm'"
  shows "wp (upsertCandidate d) Q (errOk f l) sm"
proof (rule wp_upsertCandidate [OF stk_invD(1) [OF assms(1)]])
  fix cc s' assume "s' = (stk sm)\<lparr>candCenter := cc, candNS := (candNS (stk sm))(GetIdentifier d \<mapsto> d)\<rparr>" "cinv f s'"
    "cands cc = (cands (candCenter (stk sm)))(GetIdentifier d \<mapsto> d)"
  then show "Q () (sm\<lparr>stk := s'\<rparr>)"
    using assms(1) by (intro assms(3)) (auto simp: stk_inv_def nextIndex_def)
qed (use assms(1,2) in \<open>simp_all add: errOkI good_def\<close>)

lemma unstake_inv:
  assumes inv: "stk_inv f (stk sm)" and t: "validTime (BlockTimeStamp c)"
  shows "wp (handleUnstake p c i) (\<lambda>_ sm'. stk_inv f (stk sm')) (errOk f l) sm"
  unfolding handleUnstake_def Let_def
  by (intro inv_intros; (assumption | rule inv)?)
     (auto simp: readable_def t sameCands_good good_votes)

lemma transferStake_inv:
  assumes inv: "stk_inv f (stk sm)"
  shows "wp (handleTransferStake p c act) (\<lambda>_ sm'. stk_inv f (stk sm')) (errOk f l) sm"
  unfolding handleTransferStake_def Let_def
  by (intro inv_intros; (assumption | rule inv)?) (auto simp: readable_def)

lemma restake_inv:
  assumes inv: "stk_inv f (stk sm)" and t: "validTime (BlockTimeStamp c)"
  shows "wp (handleRestake p c act) (\<lambda>_ sm'. stk_inv f (stk sm')) (errOk f l) sm"
  unfolding handleRestake_def Let_def
  by (intro inv_intros; (assumption | rule inv)?)
     (auto simp: readable_def t sameCands_good good_votes)

lemma candidateUpdate_inv:
  assumes inv: "stk_inv f (stk sm)"
  shows "wp (handleCandidateUpdate p c act) (\<lambda>_ sm'. stk_inv f (stk sm')) (errOk f l) sm"
  unfolding handleCandidateUpdate_def Let_def updatedCandidate_def
  by (intro inv_intros; (assumption | rule inv)?) simp_all

lemma toVoteBucket_good: "toVoteBucket p b d = Inr d' \<Longrightarrow> good f d' s = good f d s"
  by (auto simp: toVoteBucket_def bindR_Inr good_votes)

lemma clear_good: "clearCandidateSelfStake p b d = Inr d' \<Longrightarrow> good f d s \<Longrightarrow> good f d' s"
  by (auto simp: clearCandidateSelfStake_def bindR_Inr toVoteBucket_good split: if_splits)

lemma endorsement_inv:
  assumes inv: "stk_inv f (stk sm)"
  shows "wp (handleCandidateEndorsement p c i op) (\<lambda>_ sm'. stk_inv f (stk sm')) (errOk f l) sm"
  unfolding handleCandidateEndorsement_def Let_def
  by (cases op; simp; intro inv_intros inv_read; (assumption | rule inv)?) (auto intro: clear_good)

lemma toSelfStakeBucket_good:
  assumes "toSelfStakeBucket p b d = Inr d'" "good f d s" "vbIndex b < nextIndex s"
  shows "good f d' s"
  using assms by (auto simp: toSelfStakeBucket_def bindR_Inr good_votes votes_Inr good_def candFits_def selfKey_def
      isSelfStakeBucketSettled_def split: if_splits)

lemma activate_inv:
  assumes inv: "stk_inv f (stk sm)"
  shows "wp (handleCandidateActivate p c i) (\<lambda>_ sm'. stk_inv f (stk sm')) (errOk f l) sm"
  unfolding handleCandidateActivate_def Let_def
  by (intro inv_intros inv_read; (assumption | rule inv)?)
     (auto elim!: toSelfStakeBucket_good simp: bindR_Inr toVoteBucket_good split: if_splits)

lemma owners_agree:
  assumes "center_ok m" "cands m i = Some d" "cands m j = Some e" "cOwner d = cOwner e"
  shows "GetIdentifier d = GetIdentifier e"
  using cands_owned [OF assms(1,3)] assms(2,4) cands_id [OF assms(1,2)] by (simp add: ownedBy_def)

lemma changeCandidate_inv:
  assumes inv: "stk_inv f (stk sm)"
  shows "wp (handleChangeCandidate p c act) (\<lambda>_ sm'. stk_inv f (stk sm')) (errOk f l) sm"
  unfolding handleChangeCandidate_def Let_def
  by (intro inv_intros inv_read; (assumption | rule inv)?)
     (auto simp: readable_def sameCands_good votes_Inr elim!: good_upsert split: if_splits
       dest: owners_agree [OF stk_invD(4) [OF inv]])

text \<open>Transferring a candidate; identifiers differ from owners afterwards.\<close>

lemma inv_transferCheck:
  assumes inv: "stk_inv f (stk sm)"
    and Q: "\<And>sm'. stk sm' = stk sm \<Longrightarrow> GetByOwner newOwner (candCenter (stk sm)) = None \<Longrightarrow> Q () sm'"
  shows "wp (validateCandidateTransferOwnership newOwner caller) Q (errOk f l) sm"
proof -
  have load: "wp (LoadOrCreateAccount newOwner []) R (\<lambda>_. E) sm"
    if "\<And>acc sm'. stk sm' = stk sm \<Longrightarrow> R acc sm'" "\<And>sm'. stk sm' = stk sm \<Longrightarrow> E sm'" for R and E :: "'a staking_world_scheme \<Rightarrow> bool"
    using that by (auto simp: wp_def LoadOrCreateAccount_def split: option.splits sum.splits)
  show ?thesis
    unfolding validateCandidateTransferOwnership_def
    by (intro wp_intros load) (auto intro!: errOkI Q simp: inv split: if_splits)
qed

lemma newOwner_good:
  assumes inv: "cinv False s" and d: "GetByOwner a (candCenter s) = Some d" and n: "GetByOwner newOwner (candCenter s) = None"
  shows "good False (d\<lparr>cIdentifier := i, cOwner := newOwner\<rparr>) s"
proof -
  have "ownedBy (d\<lparr>cIdentifier := i, cOwner := newOwner\<rparr>) (candCenter s)"
    using GetByOwner_None [OF cinv_center [OF inv] n] by (auto simp: ownedBy_def)
  moreover have "candFits False (nextIndex s) (d\<lparr>cIdentifier := i, cOwner := newOwner\<rparr>)"
    using owner_fits [OF inv d] by (simp add: candFits_def selfKey_def isSelfStakeBucketSettled_def)
  ultimately show ?thesis by (simp add: good_def)
qed

lemma transferOwnership_inv:
  assumes inv: "stk_inv False (stk sm)"
  shows "wp (handleCandidateTransferOwnership p c newOwner) (\<lambda>_ sm'. stk_inv False (stk sm')) (errOk False l) sm"
  unfolding handleCandidateTransferOwnership_def Let_def
  by (intro inv_intros inv_transferCheck inv_read; (assumption | rule inv)?)
     (auto simp: inv bindR_Inr newOwner_good [OF stk_invD(1) [OF inv]] split: option.splits if_splits prod.splits)

section \<open>Handlers that move tokens\<close>

lemma binv_pool:
  "binv d n s \<Longrightarrow> tAmount (total bp) = tAmount (total (bucketPool s)) + a \<Longrightarrow> tCount (total bp) = tCount (total (bucketPool s)) + k \<Longrightarrow>
   binv (d - a) (n - k) (s\<lparr>bucketPool := bp\<rparr>)"
  by (simp add: binv_def nextIndex_def)

lemma wp_DebitPool:
  assumes "cinv f s" "binv d n s" "poolStored s"
    and "\<And>s'. cinv f s' \<Longrightarrow> binv (d - a) (n - (if new then 1 else 0)) s' \<Longrightarrow> poolStored s' \<Longrightarrow> Q () s'"
  shows "wp (DebitPool a new) Q E s"
proof -
  have "binv (d - a) (n - (if new then 1 else 0)) (s\<lparr>bucketPool := bp\<rparr>)"
    if "total bp = totalAmount_AddBalance a new (total (bucketPool s))" for bp
    by (rule binv_pool [OF assms(2)]) (simp_all add: that totalAmount_AddBalance_def)
  then show ?thesis unfolding DebitPool_def storePool_def
    using assms(1,3) by (intro wp_intros assms(4)) (auto simp: poolStored_def)
qed

lemma card_below:
  assumes "binv d n s"
  shows "card (dom (bucketNS s)) < 2 ^ 64"
proof -
  have "dom (bucketNS s) \<subseteq> {i. i < nextIndex s}" using assms by (auto simp: binv_def)
  then have "card (dom (bucketNS s)) \<le> card {i. i < nextIndex s}" by (intro card_mono) simp_all
  also have "\<dots> < card (UNIV :: u64 set)" by (rule psubset_card_mono) auto
  finally show ?thesis by (simp add: card_word)
qed

text \<open>With the invariant before the withdrawal, the pool can always pay a bucket back.\<close>

lemma CreditPool_ok:
  assumes inv: "binv 0 0 s" and b: "NativeBucket s i = Inr b" and s': "bucketPool s' = bucketPool s"
  shows "\<exists>t. totalAmount_SubBalance (vbStakedAmount b) del (total (bucketPool s')) = Inr t \<and>
    tAmount t = tAmount (total (bucketPool s)) - vbStakedAmount b \<and> tCount t = (if del then tCount (total (bucketPool s)) - 1 else tCount (total (bucketPool s)))"
proof -
  obtain b0 where b0: "bucketNS s i = Some b0" "vbStakedAmount b = vbStakedAmount b0" using NativeBucket_Inr [OF inv b] by blast
  have "vbStakedAmount b0 \<le> msum vbStakedAmount (bucketNS s)"
    using inv b0(1) by (intro msum_ge_elem) (auto simp: binv_def readable_def less_imp_le)
  moreover have "0 < card (dom (bucketNS s))" using inv b0(1) by (auto simp: binv_def card_gt_0_iff)
  then have "(of_nat (card (dom (bucketNS s))) :: u64) \<noteq> 0"
    using card_below [OF inv] by (auto simp: word_of_nat_eq_0_iff dest: dvd_imp_le)
  ultimately show ?thesis using inv b0(2) s' by (simp add: totalAmount_SubBalance_def binv_def)
qed

lemma wp_CreditPool:
  assumes inv: "binv 0 0 s0" and b: "NativeBucket s0 i = Inr b" and s: "bucketPool s = bucketPool s0"
    and s_inv: "cinv f s" "binv d n s" "poolStored s"
    and Q: "\<And>s'. cinv f s' \<Longrightarrow> binv (d + vbStakedAmount b) (n + (if del then 1 else 0)) s' \<Longrightarrow> poolStored s' \<Longrightarrow> Q () s'"
  shows "wp (CreditPool (vbStakedAmount b) del) Q E s"
proof -
  obtain t where t: "totalAmount_SubBalance (vbStakedAmount b) del (total (bucketPool s)) = Inr t"
    "tAmount t = tAmount (total (bucketPool s)) - vbStakedAmount b"
    "tCount t = (if del then tCount (total (bucketPool s)) - 1 else tCount (total (bucketPool s)))"
    using CreditPool_ok [OF inv b s, of del] s by auto
  have "binv (d + vbStakedAmount b) (n + (if del then 1 else 0)) (s\<lparr>bucketPool := bp\<rparr>)" if "total bp = t" for bp
    using binv_pool [OF s_inv(2), of bp "- vbStakedAmount b" "- (if del then 1 else 0)"] t that by (auto split: if_splits)
  then show ?thesis unfolding CreditPool_def storePool_def using s_inv(1,3) t(1)
    by (intro wp_intros wp_state_read Q) (auto simp: poolStored_def)
qed

lemma wp_delBucketAndIndex:
  "(\<And>s' vi ci. s' = s\<lparr>bucketNS := (bucketNS s)(i := None), voterIdxNS := vi, candIdxNS := ci\<rparr> \<Longrightarrow> Q () s') \<Longrightarrow>
   (\<And>s'. E ErrStateNotExist s') \<Longrightarrow> wp (delBucketAndIndex owner' cand i) Q E s"
  by (auto simp: wp_def delBucketAndIndex_def delBucket_def delVoterBucketIndex_def delCandBucketIndex_def delIndex_def
      op_defs Let_def split: option.splits sum.splits)

lemma wp_StoreAccount: "(\<And>sm'. stk sm' = stk sm \<Longrightarrow> Q () sm') \<Longrightarrow> wp (StoreAccount a acc) Q E sm"
  for sm :: "'a staking_world_scheme"
  by (simp add: wp_def StoreAccount_def modifyS_def)

lemma errOk_plain: "plain e \<Longrightarrow> errOk f l e sm"
  by (auto simp: errOk_def plain_def split: go_error.splits)

lemma withdraw_inv:
  assumes inv: "stk_inv f (stk sm)"
  shows "wp (handleWithdrawStake p c i) (\<lambda>_ sm'. stk_inv f (stk sm')) (errOk f l) sm"
  unfolding handleWithdrawStake_def Let_def
proof (intro inv_intros; (assumption | rule inv)?)
  fix acc b assume b: "NativeBucket (stk sm) i = Inr b"
  let ?rest = "thenS (mapErrS (\<lambda>e. HandleError e RS_ErrWriteAccount) (onStk (CreditPool (vbStakedAmount b) True)))
    (bindS (liftS (AddBalance (Some (vbStakedAmount b)) acc)) (\<lambda>withdrawer.
     thenS (StoreAccount (Caller c) withdrawer) (
     returnS [\<lparr>tlType = WITHDRAW_BUCKET, tlSender = StakingBucketPoolAddr, tlRecipient = Acct (Caller c),
       tlAmount = vbStakedAmount b\<rparr>])))"
  show "wp (onStk (delBucketAndIndex (vbOwner b) (vbCandidate b) i)) (\<lambda>_. wp ?rest (\<lambda>_ sm'. stk_inv f (stk sm')) (errOk f l)) (errOk f l) sm"
  proof (intro wp_onStk wp_delBucketAndIndex)
    fix s' vi ci
    assume s': "s' = (stk sm)\<lparr>bucketNS := (bucketNS (stk sm))(i := None), voterIdxNS := vi, candIdxNS := ci\<rparr>"
    have "cinv f s'" "binv (0 - vbStakedAmount b) (0 - 1) s'" "poolStored s'"
      using inv binv_delete [OF stk_invD(2) [OF inv] b] by (simp_all add: s' stk_inv_def)
    then show "wp ?rest (\<lambda>_ sm'. stk_inv f (stk sm')) (errOk f l) (sm\<lparr>stk := s'\<rparr>)"
      by (intro wp_intros wp_CreditPool [OF stk_invD(2) [OF inv] b] wp_StoreAccount errOkI)
         (auto simp: s' stk_inv_def)
  qed (simp add: errOk_plain plain_def)
qed

text \<open>The part of a deposit or a creation after the bucket was written: the pool follows the bucket.\<close>

lemma debit_inv:
  assumes "cinv f (stk sm)" "binv a n (stk sm)" "poolStored (stk sm)" "n = (if new then 1 else 0)"
  shows "wp (thenS (mapErrS h (onStk (DebitPool a new))) (bindS (orStatus st (SubBalance (Some a) acc)) (\<lambda>acc.
     thenS (StoreAccount (Caller c) acc) (returnS logs)))) (\<lambda>_ sm'. stk_inv f (stk sm')) (errOk f l) sm"
  using assms(4)
  by (intro wp_intros wp_DebitPool [OF assms(1-3)] wp_StoreAccount errOkI) (simp_all add: stk_inv_def)

lemma debit_store_inv:
  assumes "cinv f (stk sm)" "binv a 1 (stk sm)" "poolStored (stk sm)"
  shows "wp (thenS (mapErrS h (onStk (DebitPool a True))) (bindS (orStatus st (SubBalance (Some a) acc)) (StoreAccount (Caller c))))
    (\<lambda>_ sm'. stk_inv f (stk sm')) (errOk f l) sm"
  by (intro wp_intros wp_DebitPool [OF assms] wp_StoreAccount errOkI) (simp_all add: stk_inv_def)

lemma Upsert_votes_ok:
  assumes "cinv f s" "cands (candCenter s) i = Some d" "cName d' = cName d" "cOwner d' = cOwner d" "cOperator d' = cOperator d"
    "selfKey d' = selfKey d" "GetIdentifier d' = GetIdentifier d"
  shows "Upsert d' (candCenter s) \<noteq> Inl e"
  using Upsert_same_keys [OF cinv_center [OF assms(1)] assms(2), of d'] cands_id [OF cinv_center [OF assms(1)] assms(2)] assms(3-7)
  by auto

lemma withBucket_frame [simp]:
  "candCenter (withBucket b s) = candCenter s" "candNS (withBucket b s) = candNS s"
  "bucketPool (withBucket b s) = bucketPool s" "nextIndex (withBucket b s) = nextIndex s + 1"
  by (simp_all add: withBucket_def Let_def nextIndex_def)

lemma next_less: "n + 1 \<noteq> 0 \<Longrightarrow> k < n \<Longrightarrow> k < n + 1" for n k :: u64
  using unatSuc [of n] by (simp add: word_less_nat_alt add.commute)

lemma self_less: "n + 1 \<noteq> 0 \<Longrightarrow> n < n + 1" for n :: u64
  using unatSuc [of n] by (simp add: word_less_nat_alt add.commute)

lemma cinv_put: "cinv f s \<Longrightarrow> nextIndex s + 1 \<noteq> 0 \<Longrightarrow> cinv f (withBucket b s)"
  using next_less by (auto simp: cinv_def candFits_def)

definition weights_ok :: "StakingProtocol \<Rightarrow> bool" where
  "weights_ok p \<longleftrightarrow> (\<forall>b self. 0 \<le> calculateVoteWeight p b self)"

lemma AddVote_weight:
  "weights_ok p \<Longrightarrow> AddVote (calculateVoteWeight p b self) d = Inr (d\<lparr>cVotes := cVotes d + calculateVoteWeight p b self\<rparr>)"
  by (simp add: weights_ok_def AddVote_def not_less)

lemma create_inv:
  assumes inv: "stk_inv f (stk sm)" and t: "validTime (BlockTimeStamp c)" and a: "0 < csAmount act"
    and w: "weights_ok p" and room: "nextIndex (stk sm) + 1 \<noteq> 0"
  shows "wp (handleCreateStake p c act) (\<lambda>_ sm'. stk_inv f (stk sm')) (errOk f l) sm"
  unfolding handleCreateStake_def Let_def
proof (intro inv_intros; (assumption | rule inv)?)
  fix acc d i assume d: "cands (candCenter (stk sm)) i = Some d" "good f d (stk sm)"
  let ?b = "NewVoteBucket (GetIdentifier d) (Caller c) (csAmount act) (csDuration act) (BlockTimeStamp c) (csAutoStake act)"
  let ?s = "withBucket ?b (stk sm)"
  have "readable ?b" using t a by (simp add: readable_def NewVoteBucket_def validTime_def timestamppb_def CheckValid_def checkR_Inr)
  then have 1: "cinv f ?s" "binv (csAmount act) 1 ?s" "poolStored ?s"
    using inv binv_put [OF stk_invD(2) [OF inv] _ room, of ?b] cinv_put [OF stk_invD(1) [OF inv] room]
    by (simp_all add: stk_inv_def NewVoteBucket_def)
  have g: "good f d ?s" "cands (candCenter ?s) i = Some d" using good_cands [OF 1(1)] d(1) by simp_all
  have noFail: "Upsert (d\<lparr>cVotes := v\<rparr>) (candCenter (stk sm)) \<noteq> Inl e" for v e
    using Upsert_votes_ok [OF 1(1) g(2)] by simp
  show "wp (onStk (putBucketAndIndex ?b)) (\<lambda>x. wp (bindS (orStatus RS_ErrInvalidBucketAmount
      (AddVote (calculateVoteWeight p (?b\<lparr>vbIndex := x\<rparr>) False) d)) (\<lambda>candidate. thenS (upsertCandidate candidate)
      (thenS (mapErrS (\<lambda>e. HandleError e RS_ErrWriteAccount) (onStk (DebitPool (csAmount act) True)))
        (bindS (orStatus RS_ErrNotEnoughBalance (SubBalance (Some (csAmount act)) acc)) (\<lambda>staker.
         thenS (StoreAccount (Caller c) staker) (returnS [\<lparr>tlType = CREATE_BUCKET, tlSender = Acct (Caller c),
           tlRecipient = StakingBucketPoolAddr, tlAmount = csAmount act\<rparr>]))))))
      (\<lambda>_ sm'. stk_inv f (stk sm')) (errOk f l)) (errOk f l) sm"
    using 1 g w noFail
    by (intro wp_onStk wp_putBucketAndIndex wp_bindS wp_orStatus wp_thenS [of "upsertCandidate _"] wp_upsertCandidate debit_inv)
       (auto simp: AddVote_weight good_def)
qed

lemma deposit_inv:
  assumes inv: "stk_inv f (stk sm)" and a: "0 < dsAmount act"
  shows "wp (handleDepositToStake p c act) (\<lambda>_ sm'. stk_inv f (stk sm')) (errOk f True) sm"
  unfolding handleDepositToStake_def Let_def
proof (intro wp_bindS [of "fetchCaller _ _"] inv_checks inv_fetch inv_cand inv_ask wp_thenS [of "failIf _ _ _"]; (assumption | rule inv)?)
  fix acc b d self
  assume b: "NativeBucket (stk sm) (dsBucketIndex act) = Inr b" "vbIndex b = dsBucketIndex act" "readable b"
    and d: "cands (candCenter (stk sm)) (vbCandidate b) = Some d" "good f d (stk sm)"
  let ?b = "b\<lparr>vbStakedAmount := vbStakedAmount b + dsAmount act\<rparr>"
  let ?s = "(stk sm)\<lparr>bucketNS := (bucketNS (stk sm))(dsBucketIndex act \<mapsto> ?b)\<rparr>"
  have 1: "cinv f ?s" "binv (dsAmount act) 0 ?s" "poolStored ?s" "good f d ?s"
    using inv binv_update [OF stk_invD(2) [OF inv] b(1), of ?b] b(2,3) a d(2)
    by (simp_all add: stk_inv_def readable_def good_def nextIndex_def)
  have weak: "errOk f True e (sm\<lparr>stk := ?s\<rparr>)" for e
    using 1 a by (intro errOk_weak) (auto simp: weak_inv_def intro!: exI [of _ "dsAmount act"])
  show "wp (thenS (onStk (updateBucket (dsBucketIndex act) ?b)) (
     bindS (orStatus RS_ErrNotEnoughBalance (SubVote (calculateVoteWeight p b self) d)) (\<lambda>candidate.
     bindS (orStatus RS_ErrInvalidBucketAmount (AddVote (calculateVoteWeight p ?b self) candidate)) (\<lambda>candidate.
     bindS (if self then orStatus RS_ErrInvalidBucketAmount (AddSelfStake (dsAmount act) candidate)
            else returnS candidate) (\<lambda>candidate.
     thenS (upsertCandidate candidate) (
     thenS (mapErrS (\<lambda>e. HandleError e RS_ErrWriteAccount) (onStk (DebitPool (dsAmount act) False))) (
     bindS (orStatus RS_ErrNotEnoughBalance (SubBalance (Some (dsAmount act)) acc)) (\<lambda>depositor.
     thenS (StoreAccount (Caller c) depositor) (
     returnS [\<lparr>tlType = DEPOSIT_TO_BUCKET, tlSender = Acct (Caller c), tlRecipient = StakingBucketPoolAddr,
       tlAmount = dsAmount act\<rparr>])))))))))
    (\<lambda>_ sm'. stk_inv f (stk sm')) (errOk f True) sm"
    using 1 weak b(1)
    by (intro wp_thenS [of "onStk _"] wp_thenS [of "upsertCandidate _"] wp_onStk wp_updateBucket wp_bindS wp_orStatus wp_if wp_returnS
        wp_upsertCandidate debit_inv)
       (auto simp: votes_Inr good_def)
qed

section \<open>Registration\<close>

text \<open>As long as identifiers are owners, the candidate of an owner is never stale.\<close>

lemma GetByOwner_identified:
  assumes inv: "cinv True s" and e: "GetByOwner a (candCenter s) = Some e"
  shows "cands (candCenter s) a = Some e"
proof -
  let ?m = "candCenter s"
  note ok = cinv_center [OF inv]
  have e': "cOwner e = a" "ownedBy e ?m" "seen ?m e" using GetByOwner_cases [OF ok e] by auto
  have id: "GetIdentifier d = cOwner d" if "seen ?m d" for d using inv that by (auto simp: cinv_def candFits_def)
  from e'(3) consider (now) i where "cands ?m i = Some e" | (base) i where "bmap (base ?m) i = Some e"
    by (auto simp: seen_def)
  then show ?thesis
  proof cases
    case now
    then show ?thesis using cands_id [OF ok now] id [OF e'(3)] e'(1) by simp
  next
    case base
    then have bi: "bmap (base ?m) a = Some e"
      using ok id [OF e'(3)] e'(1) keyedD [of "bmap (base ?m)"] by (auto simp: center_ok_def base_ok_def)
    show ?thesis
    proof (cases "dmap (change ?m) a")
      case None
      then show ?thesis using bi by (simp add: cands_def map_add_def)
    next
      case (Some x)
      then have x: "cands ?m a = Some x" by (simp add: cands_cases [OF ok])
      have "seen ?m x" using x by (auto simp: seen_def)
      then have xo: "cOwner x = a" using cands_id [OF ok x] id by simp
      have "x \<in> set (map snd (chDirty (change ?m)))" using dirty_values [OF ok] Some by blast
      then have "ch_getByOwner a (change ?m) \<noteq> None" using xo by (auto simp: ch_getByOwner_def ch_find_def find_None_iff)
      then obtain y where y: "ch_getByOwner a (change ?m) = Some y" by blast
      then have "y = e" using e by (simp add: GetByOwner_def getUnfiltered_def)
      moreover have "y \<in> set (map snd (chDirty (change ?m)))"
        using y find_SomeD(1) by (fastforce simp: ch_getByOwner_def ch_find_def)
      ultimately obtain j where "cands ?m j = Some e" using dirty_values [OF ok] cands_cases [OF ok] by blast
      then show ?thesis using cands_id [OF ok] id [OF e'(3)] e'(1) by metis
    qed
  qed
qed

text \<open>The checks of a registration leave no reason to reject the candidate.\<close>

lemma registered_fields [simp]:
  "cName (registeredCandidate c act i k v) = crName act" "cOwner (registeredCandidate c act i k v) = ownerOf c act"
  "cOperator (registeredCandidate c act i k v) = crOperatorAddress act"
  "cSelfStakeBucketIdx (registeredCandidate c act i k v) = k"
  by (simp_all add: registeredCandidate_def)

lemma registered_accepted:
  assumes inv: "cinv f s" and f: "f = CandidateIdentifiedByOwner (fCtx c)" and name: "crName act \<noteq> []"
    and ex: "GetByOwner (ownerOf c act) (candCenter s) = existing" "existing = None \<or> f"
    and id: "registrationID p c (ownerOf c act) s = Inr candID"
    and free: "registrationConflict c act existing s = Inr ()"
    and idx: "\<forall>k. selfKey (registeredCandidate c act candID bucketIdx votes) = Some k \<longrightarrow> nextIndex s \<le> k"
  shows "Upsert (registeredCandidate c act candID bucketIdx votes) (candCenter s) \<noteq> Inl e"
    and "ownedBy (registeredCandidate c act candID bucketIdx votes) (candCenter s)"
    and "GetIdentifier (registeredCandidate c act candID bucketIdx votes) = candID"
    and "f \<Longrightarrow> candID = ownerOf c act"
proof -
  let ?d = "registeredCandidate c act candID bucketIdx votes" and ?m = "candCenter s"
  note ok = cinv_center [OF inv]
  show c1: "f \<Longrightarrow> candID = ownerOf c act" using id by (simp add: f registrationID_def)
  then show gid: "GetIdentifier ?d = candID"
    by (simp add: registeredCandidate_def GetIdentifier_def f split: if_splits)
  have fits: "GetIdentifier x = cOwner x" if f "cands ?m i = Some x" for i x
    using cands_fits [OF inv that(2)] that(1) by (simp add: candFits_def)
  show own: "ownedBy ?d ?m"
    unfolding ownedBy_def gid
  proof (intro allI impI)
    fix j x assume x: "cands ?m j = Some x" "cOwner x = cOwner ?d"
    then have "existing \<noteq> None" using GetByOwner_None [OF ok _ x(1)] ex(1) by auto
    then have f using ex(2) by blast
    then show "j = candID" using fits [OF _ x(1)] cands_id [OF ok x(1)] c1 x(2) by simp
  qed
  have isCand: "cands ?m candID = Some y" if "existing = Some y" for y
    using GetByOwner_identified [of s] inv ex that c1 by simp
  have "i = candID" if x: "cands ?m i = Some x" "cName x = crName act" for i x
  proof -
    have "ContainsName (crName act) ?m" using x Contains_iff(1) [OF ok] by blast
    then obtain y where "existing = Some y" "cName y = crName act"
      using free by (auto simp: registrationConflict_def split: if_splits option.splits)
    then show ?thesis using uniqByD [OF center_indexes(5) [OF ok] x(1) isCand] x(2) by (simp add: nameKey_def)
  qed
  then have "\<not> clash nameKey (cands ?m) ?d" by (auto simp: clash_def gid nameKey_def)
  moreover have "i = candID" if x: "cands ?m i = Some x" "cOperator x = crOperatorAddress act" for i x
  proof -
    have "ContainsOperator (crOperatorAddress act) ?m" using x Contains_iff(3) [OF ok] by blast
    then obtain y where "existing = Some y" "cOperator y = crOperatorAddress act"
      using free by (auto simp: registrationConflict_def split: if_splits option.splits)
    then show ?thesis using uniqByD [OF center_indexes(7) [OF ok] x(1) isCand] x(2) by (simp add: operatorKey_def)
  qed
  then have "\<not> clash operatorKey (cands ?m) ?d" by (auto simp: clash_def gid operatorKey_def)
  moreover have "\<not> clash ownerKey (cands ?m) ?d" using own by (auto simp: clash_def ownedBy_def ownerKey_def)
  moreover have "\<not> clash selfKey (cands ?m) ?d"
  proof
    assume "clash selfKey (cands ?m) ?d"
    then obtain i x k where "cands ?m i = Some x" "selfKey x = Some k" "selfKey ?d = Some k" by (auto simp: clash_def)
    then have "k < nextIndex s" "nextIndex s \<le> k" using cands_fits [OF inv] idx by (auto simp: candFits_def)
    then show False by simp
  qed
  moreover have "(collision ?d ?m = Inr ()) = (\<not> clash nameKey (cands ?m) ?d \<and> \<not> clash ownerKey (cands ?m) ?d \<and>
      \<not> clash operatorKey (cands ?m) ?d \<and> \<not> clash selfKey (cands ?m) ?d)"
    by (rule collision_Inr [OF ok]) (use own in \<open>auto simp: ownedBy_def\<close>)
  ultimately have "collision ?d ?m = Inr ()" by blast
  moreover have "cName ?d \<noteq> []" using name by simp
  ultimately show "Upsert ?d ?m \<noteq> Inl e"
    by (auto simp: Upsert_def Validate_def checkR_def ch_upsert_def)
qed

text \<open>The end of a registration, from the state in which the candidate was written.\<close>

lemma registration_tail_inv:
  assumes s: "cinv f (stk sm)" "binv (if 0 < a then a else 0) (if 0 < a then 1 else 0) (stk sm)" "poolStored (stk sm)"
  shows "wp (thenS (whenS (w :: bool) (onStk (recordOwnerS d))) (
     thenS (whenS (a > 0) (
       thenS (mapErrS h (onStk (DebitPool a True))) (
       bindS (orStatus st (SubBalance (Some a) acc)) (StoreAccount (Caller c))))) (
     bindS (DepositGas True c fee noDepositOption) (\<lambda>_. returnS logs))))
    (\<lambda>_ sm'. stk_inv f (stk sm')) (errOk f l) sm"
proof -
  have dep: "wp (bindS (DepositGas True c fee noDepositOption) (\<lambda>_. returnS logs)) (\<lambda>_ sm'. stk_inv f (stk sm')) (errOk f l) sm1"
    if "stk_inv f (stk sm1)" for sm1 :: "'a staking_world_scheme"
    by (intro wp_bindS wpI wp_returnS) (use that in \<open>auto dest: stk_more [OF DepositGas_rest] DepositGas_plain intro: errOk_plain\<close>)
  have pay: "wp (thenS (whenS (a > 0) (
       thenS (mapErrS h (onStk (DebitPool a True))) (
       bindS (orStatus st (SubBalance (Some a) acc)) (StoreAccount (Caller c))))) (
     bindS (DepositGas True c fee noDepositOption) (\<lambda>_. returnS logs)))
    (\<lambda>_ sm'. stk_inv f (stk sm')) (errOk f l) sm1"
    if s1: "cinv f (stk sm1)" "binv (if 0 < a then a else 0) (if 0 < a then 1 else 0) (stk sm1)" "poolStored (stk sm1)"
    for sm1 :: "'a staking_world_scheme"
  proof (intro wp_thenS [of "whenS _ _"] wp_whenS)
    assume "0 < a"
    then have "binv a 1 (stk sm1)" using s1(2) by simp
    from debit_store_inv [OF s1(1) this s1(3)]
    show "wp (thenS (mapErrS h (onStk (DebitPool a True))) (bindS (orStatus st (SubBalance (Some a) acc)) (StoreAccount (Caller c))))
       (\<lambda>_. wp (bindS (DepositGas True c fee noDepositOption) (\<lambda>_. returnS logs)) (\<lambda>_ sm'. stk_inv f (stk sm')) (errOk f l)) (errOk f l) sm1"
      by (rule wp_weaken) (rule dep, assumption+)
  next
    assume "\<not> 0 < a"
    then show "wp (bindS (DepositGas True c fee noDepositOption) (\<lambda>_. returnS logs)) (\<lambda>_ sm'. stk_inv f (stk sm')) (errOk f l) sm1"
      using s1 by (intro dep) (simp add: stk_inv_def)
  qed
  have rec: "cinv f (s\<lparr>candCenter := (candCenter s)\<lparr>base := recordOwner d (base (candCenter s))\<rparr>\<rparr>)" if "cinv f s" for s
    using that by (auto simp: cinv_def seen_def nextIndex_def)
  show ?thesis
    unfolding recordOwnerS_def
    by (intro wp_thenS [of "whenS w _"] wp_whenS wp_onStk wp_modifyS pay) (simp_all add: s rec)
qed

lemma selfStake_index:
  assumes "putSelfStake p c act candID sm = (Inr (idx, votes), sm')"
  shows "sm' = (if 0 < crAmount act then sm\<lparr>stk := withBucket (NewVoteBucket candID (ownerOf c act) (crAmount act) (crDuration act)
       (BlockTimeStamp c) (crAutoStake act)) (stk sm)\<rparr> else sm) \<and>
     idx = (if 0 < crAmount act then nextIndex (stk sm) else candidateNoSelfStakeBucketIndex)"
  using assms by (auto simp: putSelfStake_def Let_def run_simps putBucketAndIndex_run split: if_splits)

lemma putSelfStake_total: "\<exists>r sm'. putSelfStake p c act candID sm = (Inr r, sm')"
  by (simp add: putSelfStake_def Let_def op_defs onStk_def putBucketAndIndex_run)

lemma registered_inv:
  assumes inv: "stk_inv f (stk sm)" and f: "f = CandidateIdentifiedByOwner (fCtx c)" and name: "crName act \<noteq> []"
    and t: "validTime (BlockTimeStamp c)" and a: "0 \<le> crAmount act" and room: "nextIndex (stk sm) + 1 \<noteq> 0"
    and ex: "GetByOwner (ownerOf c act) (candCenter (stk sm)) = existing" "existing = None \<or> f"
    and id: "registrationID p c (ownerOf c act) (stk sm) = Inr candID"
    and free: "registrationConflict c act existing (stk sm) = Inr ()"
    and put: "putSelfStake p c act candID sm = (Inr (idx, votes), sm1)"
    and Q: "\<And>sm'. cinv f (stk sm') \<Longrightarrow> binv (if 0 < crAmount act then crAmount act else 0) (if 0 < crAmount act then 1 else 0) (stk sm') \<Longrightarrow>
      poolStored (stk sm') \<Longrightarrow> Q () sm'"
  shows "wp (upsertCandidate (registeredCandidate c act candID idx votes)) Q (errOk f l) sm1"
proof -
  let ?b = "NewVoteBucket candID (ownerOf c act) (crAmount act) (crDuration act) (BlockTimeStamp c) (crAutoStake act)"
  let ?d = "registeredCandidate c act candID idx votes"
  note p = selfStake_index [OF put]
  have sk: "\<forall>k. selfKey ?d = Some k \<longrightarrow> nextIndex (stk sm) \<le> k"
    using p by (auto simp: selfKey_def isSelfStakeBucketSettled_def split: if_splits)
  note acc = registered_accepted [OF stk_invD(1) [OF inv] f name ex id free sk]
  have "readable ?b" if "0 < crAmount act"
    using t that by (simp add: readable_def NewVoteBucket_def validTime_def timestamppb_def CheckValid_def checkR_Inr)
  then have 1: "cinv f (stk sm1)" "binv (if 0 < crAmount act then crAmount act else 0) (if 0 < crAmount act then 1 else 0) (stk sm1)"
      "poolStored (stk sm1)" "candCenter (stk sm1) = candCenter (stk sm)"
    using p inv binv_put [OF stk_invD(2) [OF inv] _ room, of ?b] cinv_put [OF stk_invD(1) [OF inv] room]
    by (auto simp: stk_inv_def NewVoteBucket_def)
  have "k < nextIndex (stk sm1)" if "selfKey ?d = Some k" for k
    using that p self_less [OF room]
    by (auto simp: selfKey_def isSelfStakeBucketSettled_def split: if_splits)
  moreover have "GetIdentifier ?d = cOwner ?d" if f
    using acc(3) acc(4) [OF that] by simp
  ultimately have fits: "candFits f (nextIndex (stk sm1)) ?d" by (simp add: candFits_def)
  show ?thesis
  proof (rule wp_upsertCandidate [OF 1(1) _ fits])
    show "ownedBy ?d (candCenter (stk sm1))" using acc(2) 1(4) by simp
    fix cc s' assume "s' = (stk sm1)\<lparr>candCenter := cc, candNS := (candNS (stk sm1))(GetIdentifier ?d \<mapsto> ?d)\<rparr>" "cinv f s'"
    then show "Q () (sm1\<lparr>stk := s'\<rparr>)" using 1(2,3) by (intro Q) simp_all
  qed (use acc(1) 1(4) in simp)
qed

lemma register_inv:
  assumes inv: "stk_inv f (stk sm)" and f: "f = CandidateIdentifiedByOwner (fCtx c)" and name: "crName act \<noteq> []"
    and t: "validTime (BlockTimeStamp c)" and a: "0 \<le> crAmount act" and room: "nextIndex (stk sm) + 1 \<noteq> 0"
  shows "wp (handleCandidateRegister (DepositGas True) p c act) (\<lambda>_ sm'. stk_inv f (stk sm')) (errOk f l) sm"
  unfolding handleCandidateRegister_def Let_def
proof (intro wp_bindS [of "fetchCaller _ _"] inv_checks(3) inv_read wp_thenS [of "checkS _ _"] wp_checkS errOkI; (assumption | rule inv)?)
  fix acc existing candID u
  assume h: "Inr (GetByOwner (ownerOf c act) (candCenter (stk sm))) = (Inr existing :: Candidate option res)"
    "case existing of None \<Rightarrow> True | Some e \<Rightarrow> CandidateIdentifiedByOwner (fCtx c) \<and> cSelfStake e = 0"
    "registrationID p c (ownerOf c act) (stk sm) = Inr candID" "registrationConflict c act existing (stk sm) = Inr u"
  have ex: "GetByOwner (ownerOf c act) (candCenter (stk sm)) = existing" "existing = None \<or> f"
    using h(1,2) f by (auto split: option.splits)
  have free: "registrationConflict c act existing (stk sm) = Inr ()" using h(4) by simp
  note up = registered_inv [OF inv f name t a room ex h(3) free]
  show "wp (bindS (putSelfStake p c act candID) (\<lambda>(bucketIdx, votes).
     thenS (whenS (crWithBLS act) (liftS (mapErrR (\<lambda>_. Errorf ''failed to pack candidate register with BLS event'') (crEventsPacked act)))) (
     thenS (upsertCandidate (registeredCandidate c act candID bucketIdx votes)) (
     bindStk (\<lambda>height _. Inr height) (\<lambda>height.
     thenS (whenS (needToWriteCandsMap p c height) (onStk (recordOwnerS (registeredCandidate c act candID bucketIdx votes)))) (
     thenS (whenS (crAmount act > 0) (
       thenS (mapErrS (\<lambda>e. HandleError e RS_ErrWriteAccount) (onStk (DebitPool (crAmount act) True))) (
       bindS (orStatus RS_ErrNotEnoughBalance (SubBalance (Some (crAmount act)) acc))
         (StoreAccount (Caller c))))) (
     bindS (DepositGas True c (cfgRegistrationFee p) noDepositOption) (\<lambda>_.
     returnS ((if crAmount act > 0 then [\<lparr>tlType = CANDIDATE_SELF_STAKE, tlSender = Acct (Caller c),
         tlRecipient = StakingBucketPoolAddr, tlAmount = crAmount act\<rparr>] else []) @
       [\<lparr>tlType = CANDIDATE_REGISTRATION_FEE, tlSender = Acct (Caller c), tlRecipient = RewardingPoolAddr,
         tlAmount = cfgRegistrationFee p\<rparr>]))))))))) (\<lambda>_ sm'. stk_inv f (stk sm')) (errOk f l) sm"
    by (intro wp_bindS [of "putSelfStake _ _ _ _"] wpI [of "putSelfStake _ _ _ _"] wp_case_prod wp_thenS [of "whenS (crWithBLS act) _"] wp_whenS wp_liftS
        wp_thenS [of "upsertCandidate _"] up wp_bindStk registration_tail_inv)
       (use putSelfStake_total [of p c act candID sm] in \<open>auto simp: errOk_def mapErrR_def split: sum.splits\<close>)
qed

section \<open>Failed actions never report success\<close>

definition failing :: "go_error \<Rightarrow> bool" where
  "failing e \<longleftrightarrow> (\<forall>e'. e \<noteq> HandleError e' RS_Success)"

definition failsOnly :: "('s, 'x) op \<Rightarrow> bool" where
  "failsOnly m \<longleftrightarrow> (\<forall>s e s'. m s = (Inl e, s') \<longrightarrow> failing e)"

definition resFails :: "'x res \<Rightarrow> bool" where
  "resFails r \<longleftrightarrow> (\<forall>e. r = Inl e \<longrightarrow> failing e)"

named_theorems fails_intros \<open>operations whose errors are failures\<close>

lemma failing_simps [simp]:
  "failing (HandleError e st) = (st \<noteq> RS_Success)" "failing (Errorf msg)" "failing (Panic msg)" "failing ErrStateNotExist"
  "failing ErrInvalidAmount" "failing ErrNotEnoughBalance" "failing ErrInvalidCanName" "failing ErrInvalidOwner"
  "failing ErrInvalidOperator" "failing ErrInvalidSelfStkIndex"
  by (auto simp: failing_def)

lemma failing_plain: "plain e \<Longrightarrow> failing e"
  by (simp add: plain_def failing_def)

lemma resFails_basic [simp]: "resFails (Inr x)" "resFails (Inl e) = failing e" "resFails (checkR b e) = (\<not> b \<longrightarrow> failing e)"
  by (auto simp: resFails_def checkR_def)

lemma resFails_bindR [fails_intros]: "resFails r \<Longrightarrow> (\<And>x. resFails (f x)) \<Longrightarrow> resFails (bindR r f)"
  by (cases r) (auto simp: resFails_def)

lemma resFails_mapErrR [fails_intros]: "(\<And>e. failing (g e)) \<Longrightarrow> resFails (mapErrR g r)"
  by (cases r) (auto simp: resFails_def mapErrR_def)

lemma resFails_if [fails_intros]: "(b \<Longrightarrow> resFails x) \<Longrightarrow> (\<not> b \<Longrightarrow> resFails y) \<Longrightarrow> resFails (if b then x else y)"
  by simp

lemma failsOnly_ops [fails_intros]:
  "failsOnly (returnS x)" "failsOnly (readS f)" "failsOnly (modifyS g)"
  "failing e \<Longrightarrow> failsOnly (failS e)" "resFails r \<Longrightarrow> failsOnly (liftS r)" "failing e \<Longrightarrow> failsOnly (checkS b e)"
  "(b \<Longrightarrow> failsOnly m) \<Longrightarrow> failsOnly (whenS b m)" "(\<And>e. failing (h e)) \<Longrightarrow> failsOnly (mapErrS h m')"
  "(b \<Longrightarrow> failsOnly m1) \<Longrightarrow> (\<not> b \<Longrightarrow> failsOnly m2) \<Longrightarrow> failsOnly (if b then m1 else m2)"
  by (auto simp: failsOnly_def resFails_def op_defs split: if_splits prod.splits sum.splits)

lemma failsOnly_bindS [fails_intros]: "failsOnly m \<Longrightarrow> (\<And>x. failsOnly (f x)) \<Longrightarrow> failsOnly (bindS m f)"
  by (auto simp: failsOnly_def bindS_def split: prod.splits sum.splits)

lemma failsOnly_thenS [fails_intros]: "failsOnly m \<Longrightarrow> failsOnly k \<Longrightarrow> failsOnly (thenS m k)"
  unfolding thenS_def by (rule failsOnly_bindS)

lemma failsOnly_prod [fails_intros]: "(\<And>a b. failsOnly (f a b)) \<Longrightarrow> failsOnly (case x of (a, b) \<Rightarrow> f a b)"
  by (cases x) simp

lemma failsOnly_read [fails_intros]: "(\<And>s. resFails (f s)) \<Longrightarrow> failsOnly (\<lambda>s. (f s, s))"
  by (auto simp: failsOnly_def resFails_def)

lemma failsOnly_stk [fails_intros]:
  "failsOnly m \<Longrightarrow> failsOnly (onStk m)"
  "(\<And>h s. resFails (f h s)) \<Longrightarrow> (\<And>x. failsOnly (k x)) \<Longrightarrow> failsOnly (bindStk f k)"
  "st \<noteq> RS_Success \<Longrightarrow> failsOnly (orStatus st r)" "st \<noteq> RS_Success \<Longrightarrow> failsOnly (failIf b msg st)"
  by (auto simp: failsOnly_def resFails_def onStk_def bindStk_def bindS_def orStatus_def liftS_def mapErrR_def failIf_def
      checkS_def failS_def returnS_def split: prod.splits sum.splits if_splits)

lemma reload_fails: "resFails (reload b)"
  by (auto simp: resFails_def reload_def bindR_Inl checkR_def CheckValid_def split: if_splits)

lemma NativeBucket_fails [fails_intros]: "resFails (NativeBucket s i)"
  using reload_fails by (auto simp: NativeBucket_def split: option.splits)

lemma Upsert_fails [fails_intros]: "resFails (Upsert d m)"
proof -
  have "resFails (Validate d)" "resFails (Collision d c)" for c by (auto simp: Validate_def Collision_def)
  moreover have "resFails (firstCollision d cs)" for cs
    using \<open>\<And>c. resFails (Collision d c)\<close> by (induction cs) (auto intro: resFails_bindR)
  ultimately show ?thesis
    unfolding Upsert_def collision_def ch_collision_def ch_upsert_def by (intro fails_intros) (auto split: prod.splits)
qed

lemma staking_reads_fail [fails_intros]:
  "resFails (fetchBucket s i)" "resFails (fetchValid fc h s caller i own self)" "resFails (needCand x)"
  "resFails (transferTarget c act h s)" "resFails (SubVote v d)" "resFails (AddVote v d)"
  "resFails (delIndex a i m)"
  by (auto simp: resFails_def fetchBucket_def mapErrR_def fetchValid_def fetchBucketAndValidate_def needCand_def errCandNotExist_def
      transferTarget_def SubVote_def AddVote_def delIndex_def Let_def split: sum.splits if_splits option.splits go_error.splits)

lemma votes_fail [fails_intros]:
  "resFails (toVoteBucket p b d)" "resFails (toSelfStakeBucket p b d)" "resFails (clearCandidateSelfStake p b d)"
  unfolding toVoteBucket_def toSelfStakeBucket_def clearCandidateSelfStake_def
  by (intro fails_intros; simp add: fails_intros)+

lemma checks_fail [fails_intros]:
  "resFails (validateBucketWithoutEndorsement c s b h)" "resFails (validateActivation p c h s b d)"
  "resFails (validateEndorsement p c h s b d)" "resFails (validateIntentToRevokeEndorsement c s b)"
  "resFails (validateRevokeEndorsement c s b)" "resFails (registrationID p c a s)" "resFails (registrationConflict c act ex s)"
  "resFails (needClear p c h s d)"
  using NativeBucket_fails
  by (auto simp: resFails_def bindR_Inl checkR_def validateBucketWithoutEndorsement_def validateActivation_def validateEndorsement_def
      validateIntentToRevokeEndorsement_def validateRevokeEndorsement_def validateBucketOwner_def validateBucketMinAmount_def
      validateBucketStake_def validateBucketSelfStake_def validateBucketCandidate_def validateBucketEndorsementWithdrawal_def
      registrationID_def registrationConflict_def needClear_def mapErrR_def Let_def split: if_splits sum.splits option.splits)

lemma steps_fail [fails_intros]:
  "failsOnly (fetchCaller c amount)" "failsOnly (checkNotEndorsed c b)" "failsOnly (upsertCandidate d)"
  "failsOnly (StoreAccount a acc)" "failsOnly (updateBucket i b)" "failsOnly (putBucketAndIndex b)"
  "failsOnly (delBucketAndIndex o' ca i)" "failsOnly (putVoterBucketIndex a i)" "failsOnly (putCandBucketIndex a i)"
  "failsOnly (delVoterBucketIndex a i)" "failsOnly (delCandBucketIndex a i)" "failsOnly (esmPut i h)" "failsOnly (esmDelete i)"
  "failsOnly (recordOwnerS d)" "failsOnly (putSelfStake p c act candID)"
proof -
  have "failing e" if "Upsert d m = Inl e" for d m e using Upsert_fails that by (auto simp: resFails_def)
  then show "failsOnly (upsertCandidate d)" for d
    by (auto simp: failsOnly_def upsertCandidate_def csmUpsert_def op_defs onStk_def csmErrorToHandleError_def
        split: prod.splits sum.splits if_splits)
qed (unfold fetchCaller_def Let_def checkNotEndorsed_def StoreAccount_def updateBucket_def putBucketAndIndex_def putBucket_def
    delBucketAndIndex_def delBucket_def putVoterBucketIndex_def putCandBucketIndex_def delVoterBucketIndex_def
    delCandBucketIndex_def esmPut_def esmDelete_def recordOwnerS_def putSelfStake_def; (intro fails_intros; simp))+

lemma AddBalance_fails [fails_intros]: "resFails (AddBalance amount acc)"
  by (auto simp: resFails_def AddBalance_def split: option.splits if_splits)

lemma DepositGas_fails [fails_intros]: "failsOnly (DepositGas r c amount cfg)"
  by (auto simp: failsOnly_def intro: failing_plain DepositGas_plain)

lemma transferCheck_fails [fails_intros]: "failsOnly (validateCandidateTransferOwnership newOwner caller)"
  unfolding validateCandidateTransferOwnership_def
  by (intro fails_intros; simp split: option.splits)

lemma handlers_fail:
  "failsOnly (handleCreateStake p c a1)" "failsOnly (handleUnstake p c i)" "failsOnly (handleWithdrawStake p c i)"
  "failsOnly (handleChangeCandidate p c a2)" "failsOnly (handleTransferStake p c a3)" "failsOnly (handleDepositToStake p c a4)"
  "failsOnly (handleRestake p c a5)" "failsOnly (handleCandidateRegister (DepositGas True) p c a6)"
  "failsOnly (handleCandidateUpdate p c a7)" "failsOnly (handleCandidateActivate p c i)"
  "failsOnly (handleCandidateTransferOwnership p c a)"
  unfolding handleCreateStake_def handleUnstake_def handleWithdrawStake_def handleChangeCandidate_def
      handleTransferStake_def handleDepositToStake_def handleRestake_def handleCandidateRegister_def handleCandidateUpdate_def
      handleCandidateActivate_def handleCandidateTransferOwnership_def Let_def
  by (intro fails_intros; simp split: prod.splits option.splits)+

lemma endorsement_fails: "failsOnly (handleCandidateEndorsement p c i op)"
  unfolding handleCandidateEndorsement_def Let_def
  by (cases op; simp; intro fails_intros; simp)

lemma runStaking_fails: "failsOnly (runStaking (DepositGas True) p c act)"
  by (cases act) (simp_all add: runStaking_def handlers_fail endorsement_fails)

section \<open>Every receipt keeps the invariant\<close>

definition isDeposit :: "StakingAction \<Rightarrow> bool" where
  "isDeposit act \<longleftrightarrow> (\<exists>a. act = ActDepositToStake a)"

lemma runStaking_inv:
  assumes inv: "stk_inv f (stk sm)" and f: "f = CandidateIdentifiedByOwner (fCtx c)"
    and sane: "stakingSanityCheck act = Inr ()" and valid: "stakingValidate p c act = Inr ()"
    and w: "weights_ok p" and t: "validTime (BlockTimeStamp c)" and room: "nextIndex (stk sm) + 1 \<noteq> 0"
  shows "wp (runStaking (DepositGas True) p c act) (\<lambda>_ sm'. stk_inv f (stk sm')) (errOk f (isDeposit act)) sm"
proof (cases act)
  case (ActCreateStake a)
  then show ?thesis using create_inv [OF inv t _ w room, of a] sane
    by (simp add: runStaking_def stakingSanityCheck_def split: if_splits)
next
  case (ActDepositToStake a)
  then show ?thesis using deposit_inv [OF inv, of a] sane
    by (simp add: runStaking_def stakingSanityCheck_def isDeposit_def split: if_splits)
next
  case (ActCandidateRegister a)
  then have "crName a \<noteq> []" "0 \<le> crAmount a"
    using sane by (auto simp: stakingSanityCheck_def checkR_Inr IsValidCandidateName_def split: if_splits)
  then show ?thesis using register_inv [OF inv f _ t _ room] ActCandidateRegister by (simp add: runStaking_def)
next
  case (ActCandidateTransferOwnership a)
  then have "\<not> f" using valid by (simp add: f stakingValidate_def validateCandidateTransferOwnershipAction_def checkR_Inr)
  then show ?thesis using transferOwnership_inv inv ActCandidateTransferOwnership by (simp add: runStaking_def)
qed (use inv t in \<open>simp_all add: runStaking_def unstake_inv withdraw_inv changeCandidate_inv transferStake_inv restake_inv
      candidateUpdate_inv activate_inv endorsement_inv\<close>)

lemma settleAction_stk:
  assumes "settleAction (DepositGas True) c price st tLogs g g' n sm = (Inr r, sm')"
  shows "stk sm' = stk sm \<and> Status r = st"
proof -
  obtain priorityFee baseFee logs s1 where
    dep: "DepositGas True c baseFee (PriorityFeeOption priorityFee) sm = (Inr logs, s1)" and
    nonce: "whenS n (bindS (LoadAccount (Caller c) (accountCreationOpts c)) (\<lambda>acc.
       bindS (liftS (SetPendingNonce (actNonce c + 1) acc)) (StoreAccount (Caller c)))) s1 = (Inr (), sm')" and
    r: "Status r = st"
    using assms unfolding settleAction_def by (auto simp: bindS_run thenS_run liftS_run returnS_run split: prod.splits)
  have "stk sm' = stk s1" using nonce by (auto simp: run_simps split: if_splits)
  then show ?thesis using stk_more [OF DepositGas_rest [OF dep]] r by simp
qed

text \<open>
  Property C5.  The staking state stays consistent.  From a consistent state with room for another
  bucket index, whatever the valid action and whatever the status of its receipt, afterwards the candidate center has no duplicate names, operators, owners or
  self-stake buckets, the stored candidates are those of the center, every bucket lies under its
  own index and can be read again, and the pool holds the sum and the number of all buckets.  The
  one exception is a deposit that fails: it may leave a bucket larger than what was paid, so that of the
  pool only the weak invariant is kept (its number of buckets, and an amount of at most their sum).
\<close>

theorem staking_invariant:
  assumes "stk_inv (CandidateIdentifiedByOwner (fCtx c)) (stk sm)"
    and "stakingSanityCheck act = Inr ()" "stakingValidate p c act = Inr ()"
    and "weights_ok p" "validTime (BlockTimeStamp c)" "nextIndex (stk sm) + 1 \<noteq> 0"
    and run: "HandleStaking (DepositGas True) p c price act sm = (Inr r, sm')"
  shows "if isDeposit act \<and> Status r \<noteq> RS_Success then weak_inv (CandidateIdentifiedByOwner (fCtx c)) (stk sm')
    else stk_inv (CandidateIdentifiedByOwner (fCtx c)) (stk sm')"
proof -
  let ?f = "CandidateIdentifiedByOwner (fCtx c)"
  define sm0 where "sm0 = sm\<lparr>stk := (stk sm)\<lparr>snapshots := snapshots (stk sm) @
        [\<lparr>snSize = size_cc (candCenter (stk sm)), snChanges = length (chCandidates (change (candCenter (stk sm)))),
          snAmount = tAmount (total (bucketPool (stk sm))), snCount = tCount (total (bucketPool (stk sm)))\<rparr>]\<rparr>\<rparr>"
  have h: "handleStaking (DepositGas True) p c price act sm0 = (Inr r, sm')"
    using run by (auto simp: HandleStaking_unfold sm0_def [symmetric] Let_def thenS_run failS_run split: prod.splits sum.splits)
  have w: "wp (runStaking (DepositGas True) p c act) (\<lambda>_ sm'. stk_inv ?f (stk sm')) (errOk ?f (isDeposit act)) sm0"
    by (rule runStaking_inv [OF _ refl assms(2-5)]) (use assms(1,6) in \<open>simp_all add: sm0_def nextIndex_def\<close>)
  have err: "errOk ?f (isDeposit act) e s \<and> failing e" if "runStaking (DepositGas True) p c act sm0 = (Inl e, s)" for e s
    using wp_Inl [OF w that] runStaking_fails [of p c act] that by (auto simp: failsOnly_def)
  show ?thesis
  proof (cases "runStaking (DepositGas True) p c act sm0")
    case (Pair res s1)
    show ?thesis
    proof (cases res)
      case (Inr logs)
      then show ?thesis using h wp_Inr [OF w, of logs s1] Pair stk_inv_weak by (auto simp: handleStaking_def dest!: settleAction_stk)
    next
      case (Inl e)
      then obtain e' st where e: "e = HandleError e' st" using h Pair by (cases e) (auto simp: handleStaking_def)
      then have "stk sm' = stk s1 \<and> Status r = st"
        using h Pair Inl by (auto simp: handleStaking_def dest!: settleAction_stk)
      then show ?thesis using err [of e s1] Pair Inl e by (auto simp: errOk_def)
    qed
  qed
qed

lemma exStaking_inv: "stk_inv f exStaking"
proof -
  have b: "bmap (base exCenter) = Map.empty" by (rule ext) code_simp
  have "cinv f exStaking"
    using exCenter_ok
    by (auto simp: cinv_def exStaking_def seen_def candFits_def exCand_def GetIdentifier_def selfKey_def
        isSelfStakeBucketSettled_def b split: if_splits)
  then show ?thesis by (simp add: stk_inv_def binv_def poolStored_def exStaking_def msum_def)
qed

lemma exInvariant_facts:
  "stakingValidate exProtocol exCtx exCreate = Inr ()" "validTime (BlockTimeStamp exCtx)"
  by code_simp+

theorem staking_invariant_witness:
  "\<exists>r sm'. HandleStaking (DepositGas True) exProtocol exCtx exPrice exCreate exStakingWorld = (Inr r, sm') \<and>
     Status r = RS_Success \<and> stk_inv (CandidateIdentifiedByOwner (fCtx exCtx)) (stk sm') \<and> stakingPool sm' = 5000"
proof -
  obtain r sm' where r: "HandleStaking (DepositGas True) exProtocol exCtx exPrice exCreate exStakingWorld = (Inr r, sm')"
    "Status r = RS_Success" "stakingPool sm' = 5000"
    using exCreate_runs by blast
  have "weights_ok exProtocol" "nextIndex (stk exStakingWorld) + 1 \<noteq> 0" "stk exStakingWorld = exStaking"
    by (simp_all add: weights_ok_def exProtocol_def nextIndex_def exStakingWorld_def exStaking_def)
  with staking_invariant [OF _ exCreate_facts(2) exInvariant_facts(1) _ exInvariant_facts(2) _ r(1)] r(2,3) r(1)
  show ?thesis by (auto simp: exStaking_inv)
qed

end
