(* ===== verification/StakingView.thy ===== *)
theory StakingView
  imports StakingInvariant
begin

text \<open>
  The staking view across failures and restarts: an action that is refused leaves the view as it
  was (\<^verbatim>\<open>Handle\<close> of \<^verbatim>\<open>protocol.go\<close> with the snapshots of \<^verbatim>\<open>viewdata.go\<close>), and the view that
  \<^verbatim>\<open>CreateBaseView\<close> of \<^verbatim>\<open>candidate_statereader.go\<close> builds from the stored state is the one that
  was maintained while the actions ran.
\<close>

lemma preservesD: "preserves P m \<Longrightarrow> P s \<Longrightarrow> P (snd (m s))"
  by (simp add: preserves_def)

section \<open>What a handler does to the view\<close>

text \<open>The dirty map is the outcome of the recorded list, so that a prefix of the list can be replayed.\<close>

definition recorded :: "staking_state \<Rightarrow> bool" where
  "recorded s \<longleftrightarrow> listToCandChange (chCandidates (change (candCenter s))) = Inr (change (candCenter s))"

definition sameBase :: "candBase \<Rightarrow> candBase \<Rightarrow> bool" where
  "sameBase b b' \<longleftrightarrow> b'\<lparr>owners := owners b\<rparr> = b"

text \<open>The recorded list only grows; the base and the snapshots stay.\<close>

definition grown :: "staking_state \<Rightarrow> staking_state \<Rightarrow> bool" where
  "grown s s' \<longleftrightarrow> sameBase (base (candCenter s)) (base (candCenter s')) \<and> snapshots s' = snapshots s \<and> recorded s' \<and>
     (\<exists>l. chCandidates (change (candCenter s')) = chCandidates (change (candCenter s)) @ l)"

abbreviation grownW :: "staking_state \<Rightarrow> 'a staking_world_scheme \<Rightarrow> bool" where
  "grownW s sm \<equiv> grown s (stk sm)"

lemma addAll_append: "addAll (l @ l') cc = bindR (addAll l cc) (addAll l')"
  by (induction l arbitrary: cc) (auto simp: bindR_def split: sum.splits)

lemma addAll_candidates: "addAll l cc = Inr cc' \<Longrightarrow> chCandidates cc' = chCandidates cc @ l"
  by (induction l arbitrary: cc) (auto simp: ch_upsert_def bindR_Inr)

lemma recorded_Upsert:
  assumes "recorded s" "Upsert d (candCenter s) = Inr cc"
  shows "recorded (s\<lparr>candCenter := cc\<rparr>)" "base cc = base (candCenter s)"
    "chCandidates (change cc) = chCandidates (change (candCenter s)) @ [d]"
  using assms by (auto simp: Upsert_def bindR_Inr recorded_def listToCandChange_def addAll_append ch_upsert_def)

lemma grown_refl: "recorded s \<Longrightarrow> grown s s"
  by (simp add: grown_def sameBase_def)

lemma grown_frame [simp]:
  "grown s0 (s\<lparr>bucketNS := x1\<rparr>) = grown s0 s" "grown s0 (s\<lparr>totalBucket := x2\<rparr>) = grown s0 s"
  "grown s0 (s\<lparr>voterIdxNS := x3\<rparr>) = grown s0 s" "grown s0 (s\<lparr>candIdxNS := x4\<rparr>) = grown s0 s"
  "grown s0 (s\<lparr>poolNS := x5\<rparr>) = grown s0 s" "grown s0 (s\<lparr>candNS := x6\<rparr>) = grown s0 s"
  "grown s0 (s\<lparr>endorseNS := x7\<rparr>) = grown s0 s" "grown s0 (s\<lparr>bucketPool := x8\<rparr>) = grown s0 s"
  by (simp_all add: grown_def recorded_def)

lemma grown_Upsert: "grown s0 s \<Longrightarrow> Upsert d (candCenter s) = Inr cc \<Longrightarrow> grown s0 (s\<lparr>candCenter := cc\<rparr>)"
  by (auto simp: grown_def recorded_Upsert)

lemma preserves_grown_stk: "preserves (grown s0) m \<Longrightarrow> preserves (grownW s0) (onStk m)"
  by (auto simp: preserves_def onStk_def split: prod.splits)

lemma grown_csmUpsert: "preserves (grown s0) (csmUpsert d)"
  by (auto simp: preserves_def csmUpsert_def op_defs grown_Upsert split: sum.splits prod.splits)

lemma grown_recordOwner: "preserves (grown s0) (recordOwnerS d)"
  by (auto simp: preserves_def recordOwnerS_def modifyS_def grown_def recordOwner_def sameBase_def recorded_def)

lemma preserves_grown_ops [preserves_intros]:
  "preserves (grownW s0) (onStk (updateBucket i b))" "preserves (grownW s0) (onStk (putBucketAndIndex b))"
  "preserves (grownW s0) (onStk (delBucketAndIndex o' ca i))" "preserves (grownW s0) (onStk (putVoterBucketIndex a i))"
  "preserves (grownW s0) (onStk (putCandBucketIndex a i))" "preserves (grownW s0) (onStk (delVoterBucketIndex a i))"
  "preserves (grownW s0) (onStk (delCandBucketIndex a i))" "preserves (grownW s0) (onStk (esmPut i h))"
  "preserves (grownW s0) (onStk (esmDelete i))" "preserves (grownW s0) (onStk (CreditPool v new))"
  "preserves (grownW s0) (onStk (DebitPool v new))"
  unfolding updateBucket_def putBucketAndIndex_def putBucket_def delBucketAndIndex_def delBucket_def putVoterBucketIndex_def
    putCandBucketIndex_def delVoterBucketIndex_def delCandBucketIndex_def esmPut_def esmDelete_def CreditPool_def
    DebitPool_def storePool_def
  by (rule preserves_grown_stk; intro preserves_intros preserves_state_read preserves_modifyS; simp)+

lemma preserves_grown_more [preserves_intros]:
  "preserves (grownW s0) (onStk (csmUpsert d))" "preserves (grownW s0) (upsertCandidate d)"
  "preserves (grownW s0) (onStk (recordOwnerS d))" "preserves (grownW s0) (StoreAccount a acc)"
  by (auto intro!: preserves_intros preserves_grown_stk grown_csmUpsert grown_recordOwner
      simp: upsertCandidate_def StoreAccount_def intro: preserves_modifyS)

lemma preserves_grown_gas [preserves_intros]: "preserves (grownW s0) (DepositGas r c v cfg)"
  by (simp add: preserves_def stk_more [OF DepositGas_rest [OF surjective_pairing]])

lemma preserves_grown_create [preserves_intros]: "preserves (grownW s0) (LoadOrCreateAccount a opts)"
  by (auto simp: preserves_def LoadOrCreateAccount_def split: option.splits sum.splits)

lemma handlers_grown:
  "preserves (grownW s0) (handleCreateStake p c a1)" "preserves (grownW s0) (handleUnstake p c i)"
  "preserves (grownW s0) (handleWithdrawStake p c i)" "preserves (grownW s0) (handleChangeCandidate p c a2)"
  "preserves (grownW s0) (handleTransferStake p c a3)" "preserves (grownW s0) (handleDepositToStake p c a4)"
  "preserves (grownW s0) (handleRestake p c a5)" "preserves (grownW s0) (handleCandidateRegister (DepositGas True) p c a6)"
  "preserves (grownW s0) (handleCandidateUpdate p c a7)" "preserves (grownW s0) (handleCandidateActivate p c i)"
  "preserves (grownW s0) (handleCandidateTransferOwnership p c a)"
  unfolding handleCreateStake_def handleUnstake_def handleWithdrawStake_def handleChangeCandidate_def
      handleTransferStake_def handleDepositToStake_def handleRestake_def handleCandidateRegister_def handleCandidateUpdate_def
      handleCandidateActivate_def handleCandidateTransferOwnership_def putSelfStake_def validateCandidateTransferOwnership_def Let_def
  by (intro preserves_intros preserves_state_read; simp split: prod.splits option.splits)+

lemma endorsement_grown: "preserves (grownW s0) (handleCandidateEndorsement p c i op)"
  unfolding handleCandidateEndorsement_def Let_def
  by (cases op; simp; intro preserves_intros; simp)

lemma runStaking_grown: "preserves (grownW s0) (runStaking (DepositGas True) p c act)"
  by (cases act) (simp_all add: runStaking_def handlers_grown endorsement_grown)

lemma settleAction_grown: "preserves (grownW s0) (settleAction (DepositGas True) c price st logs g g' n)"
  unfolding settleAction_def by (intro preserves_intros; simp)

lemma handleStaking_grown:
  "preserves (grownW s0) (handleStaking (DepositGas True) p c price act :: ('a staking_world_scheme, Receipt) op)"
  unfolding preserves_def
proof (intro allI impI)
  fix sm :: "'a staking_world_scheme" assume g: "grownW s0 sm"
  have "grownW s0 (snd (runStaking (DepositGas True) p c act sm))"
    by (rule preservesD [OF runStaking_grown g])
  then show "grownW s0 (snd (handleStaking (DepositGas True) p c price act sm))"
    using preservesD [OF settleAction_grown]
    by (auto simp: handleStaking_def split: prod.splits sum.splits go_error.splits)
qed

section \<open>A refused action\<close>

lemma viewRevert_run:
  assumes "grown s0 s" "recorded s0" "snapshots s0 = sns @ [\<lparr>snSize = size_cc (candCenter s0),
      snChanges = length (chCandidates (change (candCenter s0))), snAmount = tAmount (total (bucketPool s0)),
      snCount = tCount (total (bucketPool s0))\<rparr>]"
  shows "viewRevert (length sns) s = (Inr (), s\<lparr>candCenter := (candCenter s0)\<lparr>base := base (candCenter s)\<rparr>,
      bucketPool := (bucketPool s)\<lparr>total := total (bucketPool s0)\<rparr>, snapshots := sns\<rparr>)"
  using assms by (auto simp: grown_def viewRevert_def op_defs recorded_def)

lemma cands_sameBase: "sameBase (base m) b \<Longrightarrow> cands (m\<lparr>base := b\<rparr>) = cands m"
  by (auto simp: sameBase_def cands_def bmap_def) (metis candBase.ext_inject candBase.surjective candBase.update_convs(6))

text \<open>
  Property C6.  A refused action leaves the view alone.  When an action is refused with an error that is not the
  status of a receipt, the candidates the view shows, the pending changes, the number of candidates, the
  total of the pool and the stack of snapshots are those before the action, however far its
  handler came; and whatever the outcome, the pending changes can again be replayed from their list.
\<close>

theorem refused_action_reverts:
  assumes "recorded (stk sm)" and run: "HandleStaking (DepositGas True) p c price act sm = (res, sm')"
  shows "recorded (stk sm') \<and> (isl res \<longrightarrow>
    cands (candCenter (stk sm')) = cands (candCenter (stk sm)) \<and>
    change (candCenter (stk sm')) = change (candCenter (stk sm)) \<and>
    size_cc (candCenter (stk sm')) = size_cc (candCenter (stk sm)) \<and>
    total (bucketPool (stk sm')) = total (bucketPool (stk sm)) \<and> snapshots (stk sm') = snapshots (stk sm))"
proof -
  define sm0 where "sm0 = sm\<lparr>stk := (stk sm)\<lparr>snapshots := snapshots (stk sm) @
        [\<lparr>snSize = size_cc (candCenter (stk sm)), snChanges = length (chCandidates (change (candCenter (stk sm)))),
          snAmount = tAmount (total (bucketPool (stk sm))), snCount = tCount (total (bucketPool (stk sm)))\<rparr>]\<rparr>\<rparr>"
  have rec: "recorded (stk sm0)" using assms(1) by (simp add: sm0_def recorded_def)
  obtain r sm1 where h: "handleStaking (DepositGas True) p c price act sm0 = (r, sm1)" by fastforce
  then have g: "grown (stk sm0) (stk sm1)"
    using preservesD [OF handleStaking_grown grown_refl [OF rec], of p c price act] by simp
  have rv: "viewRevert (length (snapshots (stk sm))) (stk sm1) = (Inr (), (stk sm1)\<lparr>candCenter :=
      (candCenter (stk sm0))\<lparr>base := base (candCenter (stk sm1))\<rparr>,
      bucketPool := (bucketPool (stk sm1))\<lparr>total := total (bucketPool (stk sm0))\<rparr>, snapshots := snapshots (stk sm)\<rparr>)"
    by (rule viewRevert_run [OF g rec]) (simp add: sm0_def)
  show ?thesis
  proof (cases r)
    case (Inr x)
    then have "\<not> isl res" "sm' = sm1" using run h by (auto simp: HandleStaking_unfold sm0_def [symmetric])
    then show ?thesis using g by (simp add: grown_def)
  next
    case (Inl e)
    then have "stk sm' = snd (viewRevert (length (snapshots (stk sm))) (stk sm1))"
      using run h rv by (auto simp: HandleStaking_unfold sm0_def [symmetric] thenS_def bindS_def onStk_def failS_def)
    then show ?thesis using rec rv g cands_sameBase by (simp add: sm0_def recorded_def grown_def)
  qed
qed

lemma handleStaking_underpriced:
  "splitGas c price (IntrinsicGas c) = Inl e \<Longrightarrow> isl (fst (handleStaking dg p c price act sm))"
  by (auto simp: handleStaking_def settleAction_def liftS_def bindS_def split: prod.splits sum.splits go_error.splits)

lemma HandleStaking_isl:
  assumes "\<And>sm. isl (fst (handleStaking dg p c price act sm))"
  shows "isl (fst (HandleStaking dg p c price act sm))"
proof -
  define sm0 where "sm0 = sm\<lparr>stk := (stk sm)\<lparr>snapshots := snapshots (stk sm) @
        [\<lparr>snSize = size_cc (candCenter (stk sm)), snChanges = length (chCandidates (change (candCenter (stk sm)))),
          snAmount = tAmount (total (bucketPool (stk sm))), snCount = tCount (total (bucketPool (stk sm)))\<rparr>]\<rparr>\<rparr>"
  obtain e sm1 where "handleStaking dg p c price act sm0 = (Inl e, sm1)"
    using assms [of sm0] by (cases "handleStaking dg p c price act sm0") (auto simp: isl_def)
  then show ?thesis
    by (auto simp: HandleStaking_unfold sm0_def [symmetric] thenS_def bindS_def failS_def split: prod.splits sum.splits)
qed

theorem refused_action_reverts_witness:
  "\<exists>e sm'. HandleStaking (DepositGas True) exProtocol exCtx (DynamicPrice (Some 5) (Some 5)) exCreate exStakingWorld = (Inl e, sm') \<and>
     cands (candCenter (stk sm')) 1 = Some (exCand 1 2 ''alpha'') \<and> tAmount (total (bucketPool (stk sm'))) = 0"
proof -
  let ?price = "DynamicPrice (Some 5) (Some 5)"
  obtain res sm' where run: "HandleStaking (DepositGas True) exProtocol exCtx ?price exCreate exStakingWorld = (res, sm')"
    by fastforce
  have "splitGas exCtx ?price (IntrinsicGas exCtx) = Inl ErrGasFeeCapTooLow" by code_simp
  then have "isl (fst (handleStaking (DepositGas True) exProtocol exCtx ?price exCreate sm))" for sm :: staking_world
    by (rule handleStaking_underpriced)
  then have "isl (fst (HandleStaking (DepositGas True) exProtocol exCtx ?price exCreate exStakingWorld))"
    by (rule HandleStaking_isl)
  then have e: "isl res" using run by simp
  have "recorded exStaking" by code_simp
  then have "recorded (stk exStakingWorld)" by (simp add: exStakingWorld_def)
  from refused_action_reverts [OF this run] e run exCenter_ok(2) show ?thesis
    by (auto simp: isl_def exStakingWorld_def exStaking_def)
qed

section \<open>The view after a restart (CreateBaseView of candidate\_statereader.go)\<close>

text \<open>
  \<open>all\<close> is what the iteration over the candidate namespace returns, in some order, and \<open>notCopied\<close>
  the feature \<open>CandidateBLSPublicKeyNotCopied\<close>.
\<close>

definition CreateCandidateCenter :: "bool \<Rightarrow> Candidate list \<Rightarrow> CandidateCenter res" where
  "CreateCandidateCenter notCopied all =
     NewCandidateCenter (if notCopied then map (\<lambda>d. d\<lparr>cBLSPubKey := []\<rparr>) all else all)"

definition CreateBaseView :: "bool \<Rightarrow> bool \<Rightarrow> Candidate list \<Rightarrow> staking_state \<Rightarrow> (CandidateCenter \<times> BucketPool) res" where
  "CreateBaseView notCopied enable all s =
     bindR (CreateCandidateCenter notCopied all) (\<lambda>center.
     bindR (NewBucketPool enable s) (\<lambda>pool. Inr (center, pool)))"

lemma uniqBy_submap: "uniqBy key M \<Longrightarrow> M' \<subseteq>\<^sub>m M \<Longrightarrow> uniqBy key M'"
  unfolding uniqBy_def by (metis domI map_le_def)

lemma uniq_submap: "uniq M \<Longrightarrow> M' \<subseteq>\<^sub>m M \<Longrightarrow> uniq M'"
  by (auto simp: uniq_def intro: uniqBy_submap)

text \<open>Any order in which the candidates come builds the same center.\<close>

lemma replay_stored:
  assumes "uniq M" "keyed M" "M' \<subseteq>\<^sub>m M" "\<And>d. d \<in> set l \<Longrightarrow> M (GetIdentifier d) = Some d"
  shows "replay_ok M' l \<and> replay M' l \<subseteq>\<^sub>m M \<and> dom (replay M' l) = dom M' \<union> GetIdentifier ` set l"
  using assms(3,4)
proof (induction l arbitrary: M')
  case (Cons d l)
  have le: "M'(GetIdentifier d \<mapsto> d) \<subseteq>\<^sub>m M" using Cons.prems by (auto simp: map_le_def)
  have "cName d \<noteq> []" using Cons.prems(2) [of d] assms(2) keyedD by auto
  moreover have "replay_ok (M'(GetIdentifier d \<mapsto> d)) l \<and> replay (M'(GetIdentifier d \<mapsto> d)) l \<subseteq>\<^sub>m M \<and>
      dom (replay (M'(GetIdentifier d \<mapsto> d)) l) = dom (M'(GetIdentifier d \<mapsto> d)) \<union> GetIdentifier ` set l"
    by (rule Cons.IH [OF le]) (simp add: Cons.prems(2))
  ultimately show ?case using uniq_submap [OF assms(1) le] by simp
qed simp

lemma addAll_total: "(\<And>d. d \<in> set l \<Longrightarrow> cName d \<noteq> []) \<Longrightarrow> \<exists>cc'. addAll l cc = Inr cc'"
  by (induction l arbitrary: cc) (auto simp: ch_upsert_def Validate_def checkR_def)

lemma NewCandidateCenter_stored:
  assumes "uniq M" "keyed M" "\<And>d. d \<in> set l \<longleftrightarrow> M (GetIdentifier d) = Some d"
  shows "\<exists>m. NewCandidateCenter l = Inr m \<and> center_ok m \<and> cands m = M \<and> \<not> IsDirty m"
proof -
  have r: "replay_ok Map.empty l" "replay Map.empty l \<subseteq>\<^sub>m M" "dom (replay Map.empty l) = GetIdentifier ` set l"
    using replay_stored [OF assms(1,2), of Map.empty l] assms(3) by auto
  have "i \<in> GetIdentifier ` set l" if "M i = Some d" for i d
    using assms(3) [of d] keyedD [OF assms(2) that] that by force
  then have "dom M \<subseteq> GetIdentifier ` set l" by blast
  then have d: "dom M = dom (replay Map.empty l)" using r(2,3) map_le_implies_dom_le by blast
  have "replay Map.empty l i = M i" for i
  proof (cases "i \<in> dom M")
    case True
    then show ?thesis using r(2) d by (simp add: map_le_def)
  next
    case False
    then have "M i = None" "replay Map.empty l i = None" using d by blast+
    then show ?thesis by simp
  qed
  then have M: "replay Map.empty l = M" by (rule ext)
  have "cName d \<noteq> []" if "d \<in> set l" for d using assms(2,3) that keyedD by blast
  then obtain cc where cc: "addAll l newCandChange = Inr cc" using addAll_total by blast
  then have l: "chCandidates cc = l" using addAll_candidates by (fastforce simp: newCandChange_def)
  have b0: "bmap newCandBase = Map.empty" by (simp add: bmap_def newCandBase_def)
  obtain cb where cb: "commitAll (commitOne False) l newCandBase = Inr cb" "base_ok cb" "bmap cb = M"
    using commitAll_ok [OF base_ok_new, of l] r(1) M b0 by auto
  show ?thesis
  proof (cases "l = []")
    case True
    then show ?thesis using cc M base_ok_new
      by (auto simp: NewCandidateCenter_def listToCandChange_def center_ok_def cands_def IsDirty_def newCandChange_def dmap_def b0)
  next
    case False
    then show ?thesis using cc cb l
      by (auto simp: NewCandidateCenter_def listToCandChange_def base_commit_def center_ok_def cands_def IsDirty_def
          newCandChange_def dmap_def)
  qed
qed

text \<open>The buckets that are read, in terms of the map they are read from.\<close>

lemma readBuckets_stored:
  assumes "binv d n s" "distinct is"
  shows "\<exists>bs. readBuckets s is = Inr bs \<and> (\<forall>b\<in>set bs. 0 < vbStakedAmount b) \<and> length bs = card (set is \<inter> dom (bucketNS s)) \<and>
    sum_list (map vbStakedAmount bs) = (\<Sum>i\<in>set is \<inter> dom (bucketNS s). vbStakedAmount (the (bucketNS s i)))"
  using assms(2)
proof (induction "is")
  case (Cons i "is")
  then obtain bs where bs: "readBuckets s is = Inr bs" "\<forall>b\<in>set bs. 0 < vbStakedAmount b"
      "length bs = card (set is \<inter> dom (bucketNS s))"
      "sum_list (map vbStakedAmount bs) = (\<Sum>i\<in>set is \<inter> dom (bucketNS s). vbStakedAmount (the (bucketNS s i)))"
    by auto
  show ?case
  proof (cases "bucketNS s i")
    case None
    then have "set (i # is) \<inter> dom (bucketNS s) = set is \<inter> dom (bucketNS s)" by auto
    then show ?thesis using bs None by simp
  next
    case (Some b)
    then have "set (i # is) \<inter> dom (bucketNS s) = insert i (set is \<inter> dom (bucketNS s))" by auto
    moreover obtain b' where "reload b = Inr b'" "0 < vbStakedAmount b'" "vbStakedAmount b' = vbStakedAmount b"
      using assms(1) Some by (auto simp: binv_def reload_Inr readable_def)
    ultimately show ?thesis using bs Some Cons.prems by auto
  qed
qed simp

lemma sumBuckets_total:
  "(\<And>b. b \<in> set bs \<Longrightarrow> 0 < vbStakedAmount b) \<Longrightarrow> sumBuckets acc bs = Inr (acc + sum_list (map vbStakedAmount bs))"
  by (induction bs arbitrary: acc) (auto simp: not_le algebra_simps)

lemma poolFromBuckets_total:
  assumes inv: "binv 0 0 s"
  shows "poolFromBuckets enable s = Inr \<lparr>enableSMStorage = enable, pool_dirty = False, total = total (bucketPool s)\<rparr>"
proof (cases "totalBucket s")
  case None
  then have "bucketNS s = Map.empty" using inv by (auto simp: binv_def nextIndex_def)
  then show ?thesis using None inv
    by (simp add: poolFromBuckets_def NativeBuckets_def NumOfNativeBucket_def binv_def)
next
  case (Some n)
  let ?is = "map of_nat [0..<unat n] :: u64 list"
  have "inj_on (of_nat :: nat \<Rightarrow> u64) {0..<unat n}"
  proof (rule inj_onI)
    fix x y assume "x \<in> {0..<unat n}" "y \<in> {0..<unat n}" and eq: "(of_nat x :: u64) = of_nat y"
    then have "x < 2 ^ 64" "y < 2 ^ 64" using unsigned_less [of n, where ?'a = nat] by auto
    then show "x = y" using arg_cong [OF eq, of unat] by (simp add: unat_of_nat take_bit_nat_eq_self)
  qed
  then have di: "distinct ?is" by (simp add: distinct_map)
  have "i \<in> set ?is" if "bucketNS s i = Some b" for i b
    using inv that Some by (auto simp: binv_def nextIndex_def word_less_nat_alt intro!: image_eqI [of _ _ "unat i"])
  then have dom: "set ?is \<inter> dom (bucketNS s) = dom (bucketNS s)" by blast
  from readBuckets_stored [OF inv di] dom obtain bs where bs: "readBuckets s ?is = Inr bs" "\<forall>b\<in>set bs. 0 < vbStakedAmount b"
      "length bs = card (dom (bucketNS s))" "sum_list (map vbStakedAmount bs) = msum vbStakedAmount (bucketNS s)"
    by (auto simp: msum_def)
  then have "sumBuckets 0 bs = Inr (msum vbStakedAmount (bucketNS s))" using sumBuckets_total [of bs 0] by simp
  then show ?thesis using bs(1,3) inv Some
    by (simp add: poolFromBuckets_def NativeBuckets_def NumOfNativeBucket_def binv_def)
qed

lemma NewBucketPool_total:
  assumes "binv 0 0 s" "poolStored s" "enable = enableSMStorage (bucketPool s)"
  shows "NewBucketPool enable s = Inr \<lparr>enableSMStorage = enable, pool_dirty = False, total = total (bucketPool s)\<rparr>"
proof -
  have "0 \<le> tAmount (total (bucketPool s))"
    using assms(1) msum_nonneg [of "bucketNS s" vbStakedAmount] by (fastforce simp: binv_def readable_def)
  then have "totalAmount_Deserialize (totalAmount_Serialize (total (bucketPool s))) = Inr (total (bucketPool s))"
    by (simp add: totalAmount_Deserialize_def totalAmount_Serialize_def)
  then show ?thesis using assms poolFromBuckets_total [OF assms(1)] by (auto simp: NewBucketPool_def poolStored_def)
qed

text \<open>
  Property C7.  A restart loses nothing.  From a consistent state, the view that is created from
  the stored candidates, in whatever order they are read, and from the stored buckets is
  consistent, shows exactly the candidates the running view shows (without their BLS keys while
  these are not copied) with no pending change, and its pool has the running amount and count.
\<close>

theorem restart_restores_view:
  assumes "stk_inv f s" and "\<And>d. d \<in> set all \<longleftrightarrow> (\<exists>i. candNS s i = Some d)"
    and "enable = enableSMStorage (bucketPool s)"
  shows "\<exists>center pool. CreateBaseView notCopied enable all s = Inr (center, pool) \<and> center_ok center \<and> \<not> IsDirty center \<and>
    cands center = map_option (dropKey notCopied) \<circ> cands (candCenter s) \<and> total pool = total (bucketPool s)"
proof -
  let ?M = "cands (candCenter s)"
  have ok: "uniq ?M" "keyed ?M" "candNS s = ?M" using assms(1) center_ok_uniq by (auto simp: stk_inv_def cinv_def)
  have k: "keyed (map_option (dropKey notCopied) \<circ> ?M)" using ok(2) by (auto simp: keyed_def)
  have m: "d \<in> set (map (dropKey notCopied) all) \<longleftrightarrow> (map_option (dropKey notCopied) \<circ> ?M) (GetIdentifier d) = Some d" for d
    using assms(2) ok(2,3) keyedD by fastforce
  obtain center where "NewCandidateCenter (map (dropKey notCopied) all) = Inr center" "center_ok center" "\<not> IsDirty center"
      "cands center = map_option (dropKey notCopied) \<circ> ?M"
    using NewCandidateCenter_stored [OF uniq_dropKey [THEN iffD2, OF ok(1)] k m] by blast
  moreover have "map (dropKey notCopied) all = (if notCopied then map (\<lambda>d. d\<lparr>cBLSPubKey := []\<rparr>) all else all)"
    by (auto simp: dropKey_def [abs_def])
  ultimately show ?thesis
    using NewBucketPool_total [OF _ _ assms(3)] assms(1)
    by (auto simp: CreateBaseView_def CreateCandidateCenter_def stk_inv_def)
qed

theorem restart_restores_view_witness:
  "\<exists>center pool. CreateBaseView False True [exCand 1 2 ''alpha''] exStaking = Inr (center, pool) \<and>
     cands center 1 = Some (exCand 1 2 ''alpha'') \<and> total pool = \<lparr>tAmount = 0, tCount = 0\<rparr>"
proof -
  have "d \<in> set [exCand 1 2 ''alpha''] \<longleftrightarrow> (\<exists>i. candNS exStaking i = Some d)" for d
    by (auto simp: exStaking_def)
  moreover have "True = enableSMStorage (bucketPool exStaking)" by (simp add: exStaking_def)
  ultimately have "\<exists>center pool. CreateBaseView False True [exCand 1 2 ''alpha''] exStaking = Inr (center, pool) \<and>
      center_ok center \<and> \<not> IsDirty center \<and> cands center = map_option (dropKey False) \<circ> cands (candCenter exStaking) \<and>
      total pool = total (bucketPool exStaking)"
    by (rule restart_restores_view [OF exStaking_inv [of False]])
  then show ?thesis by (auto simp: exStaking_def exCenter_ok(2) dropKey_def)
qed

end
