(* ===== verification/StakingLifecycle.thy ===== *)
theory StakingLifecycle
  imports StakingView
begin

text \<open>
  The life of a vote bucket as a state machine.  \<open>bucket_step\<close> says what a staking action may do to
  the bucket under one index, with who may do it and when; the handlers of
  \<^verbatim>\<open>action/protocol/staking/handlers.go\<close> refine it for every action, every index and every outcome.
\<close>

section \<open>What may happen to a bucket\<close>

definition authorized :: "ctx \<Rightarrow> StakingAction \<Rightarrow> VoteBucket \<Rightarrow> addr \<Rightarrow> bool" where
  "authorized c act b newOwner \<longleftrightarrow>
     vbOwner b = Caller c \<or>
     (\<exists>a con. act = ActTransferStake a \<and> tsConsignment a = Some con \<and> Transferor con = vbOwner b \<and>
        Transferee con = Caller c \<and> newOwner = Caller c \<and> AssetID con = vbIndex b \<and> TransfereeNonce con = actNonce c)"

definition matured :: "ctx \<Rightarrow> VoteBucket \<Rightarrow> bool" where
  "matured c b \<longleftrightarrow> vbStakeStartTime b + sint (vbStakedDuration b) \<le> BlockTimeStamp c"

definition waitingPeriod :: "StakingProtocol \<Rightarrow> ctx \<Rightarrow> int" where
  "waitingPeriod p c = (if NewStakingReceiptFormat (fCtx c) then cfgWithdrawWaitingPeriod p else withdrawWaitingTime)"

inductive bucket_step :: "StakingProtocol \<Rightarrow> ctx \<Rightarrow> StakingAction \<Rightarrow> u64 \<Rightarrow> VoteBucket option \<Rightarrow> VoteBucket option \<Rightarrow> bool"
  for p c act i where
  Keep: "bucket_step p c act i x x"
| Create: "act = ActCreateStake a \<Longrightarrow> b = NewVoteBucket cand (Caller c) (csAmount a) (csDuration a) (BlockTimeStamp c) (csAutoStake a) \<Longrightarrow>
    bucket_step p c act i None (Some (b\<lparr>vbIndex := i\<rparr>))"
| Register: "act = ActCandidateRegister a \<Longrightarrow> 0 < crAmount a \<Longrightarrow>
    b = NewVoteBucket cand own (crAmount a) (crDuration a) (BlockTimeStamp c) (crAutoStake a) \<Longrightarrow>
    bucket_step p c act i None (Some (b\<lparr>vbIndex := i\<rparr>))"
| Unstake: "act = ActUnstake i \<Longrightarrow> reload b0 = Inr b \<Longrightarrow> vbOwner b = Caller c \<Longrightarrow> \<not> vbAutoStake b \<Longrightarrow> matured c b \<Longrightarrow>
    (CannotUnstakeAgain (fCtx c) \<Longrightarrow> \<not> isUnstaked b) \<Longrightarrow>
    bucket_step p c act i (Some b0) (Some (b\<lparr>vbUnstakeStartTime := BlockTimeStamp c\<rparr>))"
| Withdraw: "act = ActWithdrawStake i \<Longrightarrow> reload b0 = Inr b \<Longrightarrow> vbOwner b = Caller c \<Longrightarrow>
    (CannotUnstakeAgain (fCtx c) \<Longrightarrow> isUnstaked b) \<Longrightarrow> vbUnstakeStartTime b + waitingPeriod p c \<le> BlockTimeStamp c \<Longrightarrow>
    bucket_step p c act i (Some b0) None"
| Change: "act = ActChangeCandidate a \<Longrightarrow> ccBucketIndex a = i \<Longrightarrow> reload b0 = Inr b \<Longrightarrow> vbOwner b = Caller c \<Longrightarrow>
    (CannotUnstakeAgain (fCtx c) \<Longrightarrow> \<not> isUnstaked b) \<Longrightarrow>
    bucket_step p c act i (Some b0) (Some (b\<lparr>vbCandidate := cand\<rparr>))"
| Transfer: "act = ActTransferStake a \<Longrightarrow> tsBucketIndex a = i \<Longrightarrow> reload b0 = Inr b \<Longrightarrow> authorized c act b newOwner \<Longrightarrow>
    bucket_step p c act i (Some b0) (Some (b\<lparr>vbOwner := newOwner\<rparr>))"
| Deposit: "act = ActDepositToStake a \<Longrightarrow> dsBucketIndex a = i \<Longrightarrow> reload b0 = Inr b \<Longrightarrow> vbAutoStake b \<Longrightarrow>
    (CannotUnstakeAgain (fCtx c) \<Longrightarrow> \<not> isUnstaked b) \<Longrightarrow>
    bucket_step p c act i (Some b0) (Some (b\<lparr>vbStakedAmount := vbStakedAmount b + dsAmount a\<rparr>))"
| Restake: "act = ActRestake a \<Longrightarrow> rsBucketIndex a = i \<Longrightarrow> reload b0 = Inr b \<Longrightarrow> vbOwner b = Caller c \<Longrightarrow>
    (CannotUnstakeAgain (fCtx c) \<Longrightarrow> \<not> isUnstaked b) \<Longrightarrow>
    (sint (durationOfDays (rsDuration a)) < sint (vbStakedDuration b) \<Longrightarrow> \<not> vbAutoStake b \<and> matured c b) \<Longrightarrow>
    bucket_step p c act i (Some b0) (Some (b\<lparr>vbStakedDuration := durationOfDays (rsDuration a),
      vbStakeStartTime := BlockTimeStamp c, vbAutoStake := rsAutoStake a\<rparr>))"

section \<open>Steps that do not touch the buckets\<close>

text \<open>\<open>onB P\<close> is a predicate of the stored buckets and their count.\<close>

abbreviation onB :: "((u64 \<rightharpoonup> VoteBucket) \<Rightarrow> u64 option \<Rightarrow> bool) \<Rightarrow> 'a staking_world_scheme \<Rightarrow> bool" where
  "onB P sm \<equiv> P (bucketNS (stk sm)) (totalBucket (stk sm))"

definition stepped :: "StakingProtocol \<Rightarrow> ctx \<Rightarrow> StakingAction \<Rightarrow> (u64 \<rightharpoonup> VoteBucket) \<Rightarrow> (u64 \<rightharpoonup> VoteBucket) \<Rightarrow> bool" where
  "stepped p c act B B' \<longleftrightarrow> (\<forall>i. bucket_step p c act i (B i) (B' i))"

lemma stepped_refl [simp, intro]: "stepped p c act B B"
  by (simp add: stepped_def bucket_step.Keep)

lemma stepped_upd: "bucket_step p c act i (B i) x \<Longrightarrow> stepped p c act B (B(i := x))"
  by (simp add: stepped_def bucket_step.Keep)

lemma preserves_onB_stk: "preserves (\<lambda>s. P (bucketNS s) (totalBucket s)) m \<Longrightarrow> preserves (onB P) (onStk m)"
  by (auto simp: preserves_def onStk_def split: prod.splits)

lemma preserves_onB [preserves_intros]:
  "preserves (onB P) (onStk (putVoterBucketIndex a i))" "preserves (onB P) (onStk (putCandBucketIndex a i))"
  "preserves (onB P) (onStk (delVoterBucketIndex a i))" "preserves (onB P) (onStk (delCandBucketIndex a i))"
  "preserves (onB P) (onStk (esmPut i h))" "preserves (onB P) (onStk (esmDelete i))"
  "preserves (onB P) (onStk (CreditPool v new))" "preserves (onB P) (onStk (DebitPool v new))"
  "preserves (onB P) (onStk (csmUpsert d))" "preserves (onB P) (onStk (recordOwnerS d))"
  unfolding putVoterBucketIndex_def recordOwnerS_def csmUpsert_def
    putCandBucketIndex_def delVoterBucketIndex_def delCandBucketIndex_def esmPut_def esmDelete_def CreditPool_def
    DebitPool_def storePool_def
  by (rule preserves_onB_stk; intro preserves_intros preserves_state_read preserves_modifyS; simp)+

lemma preserves_onB_more [preserves_intros]:
  "preserves (onB P) (upsertCandidate d)" "preserves (onB P) (StoreAccount a acc)"
  "preserves (onB P) (LoadOrCreateAccount a opts)" "preserves (onB P) (DepositGas r c v cfg)"
  by (auto intro!: preserves_intros preserves_modifyS simp: upsertCandidate_def StoreAccount_def)
    (auto simp: preserves_def LoadOrCreateAccount_def stk_more [OF DepositGas_rest [OF surjective_pairing]]
      split: option.splits sum.splits)

text \<open>A handler in pieces: reads that may refuse, one write of a bucket, and the rest.\<close>

definition stepsB :: "StakingProtocol \<Rightarrow> ctx \<Rightarrow> StakingAction \<Rightarrow> (u64 \<rightharpoonup> VoteBucket) \<Rightarrow> u64 option \<Rightarrow>
    ('a staking_world_scheme, 'x) op \<Rightarrow> bool" where
  "stepsB p c act B n m \<longleftrightarrow>
     (\<forall>sm. bucketNS (stk sm) = B \<and> totalBucket (stk sm) = n \<longrightarrow> stepped p c act B (bucketNS (stk (snd (m sm)))))"

lemma preserves_onB_same:
  assumes "\<And>P. preserves (onB P) m"
  shows "bucketNS (stk (snd (m sm))) = bucketNS (stk sm)" "totalBucket (stk (snd (m sm))) = totalBucket (stk sm)"
  using preservesD [OF assms [of "\<lambda>b _. b = bucketNS (stk sm)"], of sm]
    preservesD [OF assms [of "\<lambda>_ t. t = totalBucket (stk sm)"], of sm] by simp_all

lemma stepsB_preserves: "(\<And>P. preserves (onB P) m) \<Longrightarrow> stepsB p c act B n m"
  by (auto simp: stepsB_def preserves_onB_same)

lemma stepsB_bind:
  assumes "\<And>P. preserves (onB P) m" "\<And>x. stepsB p c act B n (f x)"
  shows "stepsB p c act B n (bindS m f)"
  unfolding stepsB_def
proof (intro allI impI)
  fix sm :: "'a staking_world_scheme" assume B: "bucketNS (stk sm) = B \<and> totalBucket (stk sm) = n"
  show "stepped p c act B (bucketNS (stk (snd (bindS m f sm))))"
    using preserves_onB_same [OF assms(1), of sm] assms(2) B
    by (auto simp: stepsB_def bindS_def split: prod.splits sum.splits)
qed

lemma stepsB_then: "(\<And>P. preserves (onB P) m) \<Longrightarrow> stepsB p c act B n k \<Longrightarrow> stepsB p c act B n (thenS m k)"
  unfolding thenS_def by (rule stepsB_bind)

lemma stepsB_bindStk:
  "(\<And>h s x. bucketNS s = B \<Longrightarrow> f h s = Inr x \<Longrightarrow> stepsB p c act B n (k x)) \<Longrightarrow> stepsB p c act B n (bindStk f k)"
  by (auto simp: stepsB_def bindStk_def bindS_def split: sum.splits)

lemma stepsB_failIf: "(\<not> b \<Longrightarrow> stepsB p c act B n k) \<Longrightarrow> stepsB p c act B n (thenS (failIf b msg st) k)"
  by (auto simp: stepsB_def thenS_def bindS_def failIf_def checkS_def returnS_def failS_def)

lemma stepsB_when:
  "(b \<Longrightarrow> stepsB p c act B n (thenS m k)) \<Longrightarrow> (\<not> b \<Longrightarrow> stepsB p c act B n k) \<Longrightarrow> stepsB p c act B n (thenS (whenS b m) k)"
  by (auto simp: stepsB_def thenS_def whenS_def bindS_def returnS_def)

lemma stepsB_last:
  assumes "\<And>sm e sm'. bucketNS (stk sm) = B \<Longrightarrow> totalBucket (stk sm) = n \<Longrightarrow> m sm = (e, sm') \<Longrightarrow> stepped p c act B (bucketNS (stk sm'))" "\<And>x P. preserves (onB P) (k x)"
  shows "stepsB p c act B n (bindS m k)"
  unfolding stepsB_def
proof (intro allI impI)
  fix sm :: "'a staking_world_scheme" assume "bucketNS (stk sm) = B \<and> totalBucket (stk sm) = n"
  then show "stepped p c act B (bucketNS (stk (snd (bindS m k sm))))"
    using assms(1) [of sm] preserves_onB_same [OF assms(2)]
    by (fastforce simp: bindS_def split: prod.splits sum.splits)
qed

lemma stepsB_write:
  assumes "\<And>b0. B i = Some b0 \<Longrightarrow> bucket_step p c act i (Some b0) (Some b)" "\<And>P. preserves (onB P) k"
  shows "stepsB p c act B n (thenS (onStk (updateBucket i b)) k)"
  unfolding thenS_def
  by (rule stepsB_last [OF _ assms(2)])
    (use assms(1) in \<open>auto simp: bindS_def onStk_def updateBucket_def modifyS_def NativeBucket_def stepped_upd
      split: option.splits sum.splits prod.splits\<close>)

lemmas stepsB_intros = stepsB_failIf stepsB_bindStk stepsB_when stepsB_write stepsB_then stepsB_bind

lemma fetchValid_owned:
  "fetchValid f h s caller i own self = Inr b \<Longrightarrow>
   \<exists>b0. bucketNS s i = Some b0 \<and> reload b0 = Inr b \<and> (own \<longrightarrow> vbOwner b = caller)"
  by (auto simp: fetchValid_def fetchBucketAndValidate_def fetchBucket_def NativeBucket_def mapErrR_def
      split: sum.splits if_splits option.splits)

section \<open>The handlers make such steps\<close>

lemma unstake_steps: "stepsB p c (ActUnstake i) B n (handleUnstake p c i)"
  unfolding handleUnstake_def Let_def
  by (intro stepsB_intros preserves_intros)
    (auto dest!: fetchValid_owned intro!: bucket_step.Unstake preserves_intros simp: matured_def not_less)

lemma change_steps: "stepsB p c (ActChangeCandidate a) B n (handleChangeCandidate p c a)"
  unfolding handleChangeCandidate_def Let_def
  by (intro stepsB_intros preserves_intros)
    (auto dest!: fetchValid_owned intro!: bucket_step.Change preserves_intros)

lemma deposit_steps: "stepsB p c (ActDepositToStake a) B n (handleDepositToStake p c a)"
  unfolding handleDepositToStake_def Let_def
  by (intro stepsB_intros preserves_intros)
    (auto dest!: fetchValid_owned intro!: bucket_step.Deposit preserves_intros)

lemma restake_steps: "stepsB p c (ActRestake a) B n (handleRestake p c a)"
  unfolding handleRestake_def Let_def
  by (intro stepsB_intros preserves_intros)
    (auto dest!: fetchValid_owned intro!: bucket_step.Restake preserves_intros simp: matured_def not_less)

lemma transferTarget_found:
  assumes "transferTarget c a h s = Inr (b, newOwner)"
  shows "\<exists>b0. bucketNS s (tsBucketIndex a) = Some b0 \<and> reload b0 = Inr b \<and> authorized c (ActTransferStake a) b newOwner"
  using assms by (auto simp: transferTarget_def fetchBucketAndValidate_def fetchBucket_def NativeBucket_def mapErrR_def
      handleConsignmentTransfer_def authorized_def split: sum.splits if_splits option.splits prod.splits)

lemma transfer_steps: "stepsB p c (ActTransferStake a) B n (handleTransferStake p c a)"
  unfolding handleTransferStake_def Let_def
  by (intro stepsB_intros preserves_intros; clarsimp; intro stepsB_intros preserves_intros)
    (auto dest!: transferTarget_found intro!: bucket_step.Transfer preserves_intros)

lemma delBucketAndIndex_buckets: "delBucketAndIndex o' ca i s = (r, s') \<Longrightarrow> bucketNS s' = (bucketNS s)(i := None)"
  by (auto simp: delBucketAndIndex_def delBucket_def delVoterBucketIndex_def delCandBucketIndex_def op_defs split: sum.splits prod.splits)

lemma stepsB_delete:
  assumes "bucket_step p c act i (B i) None" "\<And>P. preserves (onB P) k"
  shows "stepsB p c act B n (thenS (onStk (delBucketAndIndex o' ca i)) k)"
  unfolding thenS_def
  by (rule stepsB_last [OF _ assms(2)])
    (use assms(1) in \<open>auto simp: onStk_def stepped_upd dest!: delBucketAndIndex_buckets split: prod.splits\<close>)

lemma withdraw_steps: "stepsB p c (ActWithdrawStake i) B n (handleWithdrawStake p c i)"
  unfolding handleWithdrawStake_def Let_def
  by (intro stepsB_failIf stepsB_bindStk stepsB_delete stepsB_then stepsB_bind preserves_intros)
    (auto dest!: fetchValid_owned intro!: bucket_step.Withdraw preserves_intros simp: waitingPeriod_def not_less split: if_splits)

lemma putBucketAndIndex_buckets:
  "putBucketAndIndex b s = (r, s') \<Longrightarrow> bucketNS s' = (bucketNS s)(nextIndex s \<mapsto> b\<lparr>vbIndex := nextIndex s\<rparr>)"
  by (auto simp: putBucketAndIndex_def putBucket_def putVoterBucketIndex_def putCandBucketIndex_def nextIndex_def op_defs)

text \<open>The index after the last one is free.\<close>

definition room :: "(u64 \<rightharpoonup> VoteBucket) \<Rightarrow> u64 option \<Rightarrow> bool" where
  "room B n \<longleftrightarrow> B (case n of None \<Rightarrow> 0 | Some i \<Rightarrow> i) = None"

lemma put_stepped:
  assumes "room (bucketNS s) (totalBucket s)" "\<And>i. bucket_step p c act i None (Some (b\<lparr>vbIndex := i\<rparr>))"
    "putBucketAndIndex b s = (r, s')"
  shows "stepped p c act (bucketNS s) (bucketNS s')"
proof -
  have "bucketNS s (nextIndex s) = None" using assms(1) by (simp add: room_def nextIndex_def)
  then have "stepped p c act (bucketNS s) ((bucketNS s)(nextIndex s \<mapsto> b\<lparr>vbIndex := nextIndex s\<rparr>))"
    using assms(2) by (intro stepped_upd) simp
  then show ?thesis using putBucketAndIndex_buckets [OF assms(3)] by simp
qed

lemma stepsB_put:
  assumes "room B n" "\<And>i. bucket_step p c act i None (Some (b\<lparr>vbIndex := i\<rparr>))" "\<And>x P. preserves (onB P) (k x)"
  shows "stepsB p c act B n (bindS (onStk (putBucketAndIndex b)) k)"
  by (rule stepsB_last [OF _ assms(3)])
    (use assms(1) in \<open>auto simp: onStk_def split: prod.splits intro: put_stepped [OF _ assms(2)]\<close>)

lemma create_steps: "room B n \<Longrightarrow> stepsB p c (ActCreateStake a) B n (handleCreateStake p c a)"
  unfolding handleCreateStake_def Let_def
  by (intro stepsB_bindStk stepsB_put stepsB_bind preserves_intros) (auto intro: bucket_step.Create)

lemma stepsB_putSelf:
  assumes "room B n" "\<And>x P. preserves (onB P) (k x)"
  shows "stepsB p c (ActCandidateRegister a) B n (bindS (putSelfStake p c a candID) k)"
  by (rule stepsB_last [OF _ assms(2)])
    (use assms(1) in \<open>auto simp: putSelfStake_def Let_def bindS_def returnS_def onStk_def split: prod.splits sum.splits if_splits
      intro: put_stepped bucket_step.Register\<close>)

lemma register_steps: "room B n \<Longrightarrow> stepsB p c (ActCandidateRegister a) B n (handleCandidateRegister (DepositGas True) p c a)"
  unfolding handleCandidateRegister_def Let_def
  by (intro stepsB_failIf stepsB_bindStk stepsB_putSelf stepsB_then stepsB_bind preserves_intros) auto

lemma other_steps:
  "stepsB p c act B n (handleCandidateUpdate p c a)" "stepsB p c act B n (handleCandidateActivate p c i)"
  "stepsB p c act B n (handleCandidateTransferOwnership p c newOwner)"
  unfolding handleCandidateUpdate_def handleCandidateActivate_def handleCandidateTransferOwnership_def
    validateCandidateTransferOwnership_def Let_def
  by (rule stepsB_preserves; intro preserves_intros preserves_state_read; simp split: prod.splits option.splits)+

lemma endorsement_steps: "stepsB p c act B n (handleCandidateEndorsement p c i op)"
  unfolding handleCandidateEndorsement_def Let_def
  by (rule stepsB_preserves; cases op; simp; intro preserves_intros; simp)

lemma runStaking_steps: "room B n \<Longrightarrow> stepsB p c act B n (runStaking (DepositGas True) p c act)"
  by (cases act) (simp_all add: runStaking_def create_steps unstake_steps withdraw_steps change_steps transfer_steps
      deposit_steps restake_steps register_steps other_steps endorsement_steps)

lemma settleAction_onB: "preserves (onB P) (settleAction (DepositGas True) c price st logs g g' n)"
  unfolding settleAction_def by (intro preserves_intros; simp)

lemma settleAction_buckets:
  "settleAction (DepositGas True) c price st logs g g' n sm = (r, sm') \<Longrightarrow> bucketNS (stk sm') = bucketNS (stk sm)"
  using preserves_onB_same(1) [OF settleAction_onB] by (metis snd_conv)

lemma viewRevert_buckets: "viewRevert k s = (r, s') \<Longrightarrow> bucketNS s' = bucketNS s"
  by (auto simp: viewRevert_def op_defs split: sum.splits if_splits)

lemma room_inv: "binv d n s \<Longrightarrow> room (bucketNS s) (totalBucket s)"
  by (cases "bucketNS s (nextIndex s)") (auto simp: binv_def room_def nextIndex_def)

lemma lifecycle_step:
  assumes "stk_inv f (stk sm)" and run: "HandleStaking (DepositGas True) p c price act sm = (res, sm')"
  shows "bucket_step p c act i (bucketNS (stk sm) i) (bucketNS (stk sm') i)"
proof -
  define sm0 where "sm0 = sm\<lparr>stk := (stk sm)\<lparr>snapshots := snapshots (stk sm) @
        [\<lparr>snSize = size_cc (candCenter (stk sm)), snChanges = length (chCandidates (change (candCenter (stk sm)))),
          snAmount = tAmount (total (bucketPool (stk sm))), snCount = tCount (total (bucketPool (stk sm)))\<rparr>]\<rparr>\<rparr>"
  have r: "room (bucketNS (stk sm0)) (totalBucket (stk sm0))"
    using assms(1) room_inv by (auto simp: stk_inv_def sm0_def)
  obtain r1 sm1 where r1: "runStaking (DepositGas True) p c act sm0 = (r1, sm1)" by fastforce
  have st: "stepped p c act (bucketNS (stk sm0)) (bucketNS (stk sm1))"
    using runStaking_steps [OF r, of p c act] r1 by (auto simp: stepsB_def)
  obtain r2 sm2 where r2: "handleStaking (DepositGas True) p c price act sm0 = (r2, sm2)" by fastforce
  then have "bucketNS (stk sm2) = bucketNS (stk sm1)"
    using r1 by (auto simp: handleStaking_def dest!: settleAction_buckets split: sum.splits go_error.splits)
  moreover have "bucketNS (stk sm') = bucketNS (stk sm2)"
    using run r2
    by (auto simp: HandleStaking_unfold sm0_def [symmetric] thenS_def bindS_def onStk_def failS_def
        dest!: viewRevert_buckets split: sum.splits prod.splits)
  ultimately show ?thesis using st by (simp add: stepped_def sm0_def)
qed


lemma durationOfDays_sint:
  assumes "d \<le> 106751"
  shows "sint (durationOfDays d) = uint d * 86400000000000"
proof -
  have "uint d \<le> 106751" using assms by (simp add: word_le_def)
  then have "uint d * 86400000000000 < 2 ^ 63" by simp
  have "(word_of_int (uint d * 86400000000000) :: u64) = word_of_int (uint d) * word_of_int 86400000000000"
    by (rule wi_hom_mult [symmetric])
  also have "\<dots> = durationOfDays d" unfolding durationOfDays_def ucast_eq by (simp add: mult.assoc)
  finally have "durationOfDays d = word_of_int (uint d * 86400000000000)" by (rule sym)
  then have "sint (durationOfDays d) = signed_take_bit 63 (uint d * 86400000000000)" by (simp only: sint_sbintrunc' len_num1) simp
  also have "\<dots> = uint d * 86400000000000"
    by (rule signed_take_bit_int_eq_self) (use \<open>uint d * 86400000000000 < 2 ^ 63\<close> uint_ge_0 [of d] in linarith)+
  finally show ?thesis .
qed

lemma daysOfDuration_durationOfDays: "d \<le> 106751 \<Longrightarrow> daysOfDuration (durationOfDays d) = d"
  by (cases "d = 0") (auto simp: uint_0_iff daysOfDuration_def durationOfDays_sint go_quot_def sgn_mult abs_mult)

section \<open>Runs of actions\<close>

text \<open>Durations up to 106751 days fit the 64 bits of a \<^verbatim>\<open>time.Duration\<close>; the action checks allow 1050.\<close>

definition shortStay :: "VoteBucket \<Rightarrow> bool" where
  "shortStay b \<longleftrightarrow> (\<exists>d\<le>106751. vbStakedDuration b = durationOfDays d) \<and> isNative b \<and> \<not> vbTimestamped b"

definition actionDuration :: "StakingAction \<Rightarrow> u32" where
  "actionDuration act = (case act of ActRestake a \<Rightarrow> rsDuration a | ActCreateStake a \<Rightarrow> csDuration a
     | ActCandidateRegister a \<Rightarrow> crDuration a | _ \<Rightarrow> 0)"

text \<open>The earliest time at which the money of a bucket can leave it.\<close>

definition release :: "StakingProtocol \<Rightarrow> VoteBucket \<Rightarrow> int" where
  "release p b = (if isUnstaked b then vbUnstakeStartTime b else vbStakeStartTime b + sint (vbStakedDuration b)) +
     cfgWithdrawWaitingPeriod p"

lemma reload_short: "shortStay b0 \<Longrightarrow> reload b0 = Inr b \<Longrightarrow> b = b0"
  by (auto simp: shortStay_def reload_Inr daysOfDuration_durationOfDays)

text \<open>A step of the machine does not bring the release forward.\<close>

lemma step_release:
  assumes "bucket_step p c act i (Some b) x" "shortStay b" "vbStakeStartTime b \<le> BlockTimeStamp c"
    "CannotUnstakeAgain (fCtx c)" "NewStakingReceiptFormat (fCtx c)" "actionDuration act \<le> 106751"
  shows "case x of None \<Rightarrow> release p b \<le> BlockTimeStamp c
    | Some b' \<Rightarrow> release p b \<le> release p b' \<and> shortStay b' \<and> vbStakeStartTime b' \<le> BlockTimeStamp c"
  using assms(1)
proof cases
  case (Restake a b1)
  then have b: "b1 = b" using reload_short assms(2) by blast
  have d: "rsDuration a \<le> 106751" using Restake assms(6) by (auto simp: actionDuration_def)
  have pos: "0 \<le> sint (durationOfDays (rsDuration a))" by (simp add: durationOfDays_sint [OF d])
  have u: "\<not> isUnstaked b" using Restake assms(4) b by simp
  then have "vbUnstakeStartTime b \<le> vbStakeStartTime b" using assms(2) by (simp add: isUnstaked_def shortStay_def)
  then have "\<not> isUnstaked (b\<lparr>vbStakedDuration := durationOfDays (rsDuration a),
      vbStakeStartTime := BlockTimeStamp c, vbAutoStake := rsAutoStake a\<rparr>)"
    using assms(2,3) by (simp add: isUnstaked_def shortStay_def isNative_def)
  moreover have "vbStakeStartTime b + sint (vbStakedDuration b) \<le> BlockTimeStamp c + sint (durationOfDays (rsDuration a))"
    using Restake b pos assms(3)
    by (cases "sint (durationOfDays (rsDuration a)) < sint (vbStakedDuration b)") (auto simp: matured_def)
  ultimately show ?thesis
    using Restake(1) b u d assms(2) by (auto simp: release_def shortStay_def isNative_def)
qed (use assms(2-5) in \<open>auto simp: release_def isUnstaked_def shortStay_def isNative_def matured_def waitingPeriod_def
    dest!: reload_short [OF assms(2)]\<close>)

text \<open>
  Actions of a run, each handled in a consistent state and at a time not before the last one, with
  \<open>t\<close> the time of the last block.
\<close>

inductive staking_run :: "StakingProtocol \<Rightarrow> staking_world \<Rightarrow> int \<Rightarrow> staking_world \<Rightarrow> int \<Rightarrow> bool" for p sm t where
  run_refl: "staking_run p sm t sm t"
| run_act: "staking_run p sm t sm1 t1 \<Longrightarrow> stk_inv f (stk sm1) \<Longrightarrow> t1 \<le> BlockTimeStamp c \<Longrightarrow>
    CannotUnstakeAgain (fCtx c) \<Longrightarrow> NewStakingReceiptFormat (fCtx c) \<Longrightarrow> actionDuration act \<le> 106751 \<Longrightarrow>
    HandleStaking (DepositGas True) p c price act sm1 = (res, sm2) \<Longrightarrow> staking_run p sm t sm2 (BlockTimeStamp c)"

lemma run_release:
  assumes "staking_run p sm t sm' t'" "bucketNS (stk sm) i = Some b" "shortStay b" "vbStakeStartTime b \<le> t"
  shows "release p b \<le> t' \<or>
    (\<exists>b'. bucketNS (stk sm') i = Some b' \<and> release p b \<le> release p b' \<and> shortStay b' \<and> vbStakeStartTime b' \<le> t')"
  using assms(1)
proof induction
  case (run_act sm1 t1 f c act price res sm2)
  show ?case
  proof (cases "release p b \<le> BlockTimeStamp c")
    case False
    then obtain b1 where b1: "bucketNS (stk sm1) i = Some b1" "release p b \<le> release p b1" "shortStay b1" "vbStakeStartTime b1 \<le> t1"
      using run_act.IH run_act.hyps(3) by auto
    have "bucket_step p c act i (Some b1) (bucketNS (stk sm2) i)"
      using lifecycle_step [OF run_act.hyps(2,7), of i] b1(1) by simp
    then show ?thesis
      using step_release [OF _ b1(3) _ run_act.hyps(4-6)] b1 run_act.hyps(3) by (fastforce split: option.splits)
  qed simp
qed (use assms(2-4) in auto)

text \<open>
  Property C9.  Staked money stays locked.  Consider a run of staking actions, whoever sends them, at blocks
  after the forks \<open>CannotUnstakeAgain\<close> and \<open>NewStakingReceiptFormat\<close>, each from a consistent state and with
  durations that a \<^verbatim>\<open>time.Duration\<close> can hold (at most 106751 days).  A native bucket is still there at every
  time before its stake has matured and the waiting period has passed, and no action brings that time
  forward.  Before the first of these forks a bucket could be unstaked, staked again for longer and withdrawn.
\<close>

theorem bucket_locked:
  assumes "staking_run p sm t sm' t'" and "bucketNS (stk sm) i = Some b" "shortStay b" "vbStakeStartTime b \<le> t"
    and "t' < release p b"
  shows "\<exists>b'. bucketNS (stk sm') i = Some b' \<and> release p b \<le> release p b'"
  using run_release [OF assms(1-4)] assms(5) by auto

definition exBucket :: VoteBucket where
  "exBucket = NewVoteBucket 1 1 5000 91 1699999999000000000 False"

definition exStaked :: staking_world where
  "exStaked = exStakingWorld\<lparr>stk := exStaking\<lparr>bucketNS := [0 \<mapsto> exBucket], totalBucket := Some 1,
     bucketPool := \<lparr>enableSMStorage = True, pool_dirty = False, total = \<lparr>tAmount = 5000, tCount = 1\<rparr>\<rparr>\<rparr>\<rparr>"

lemma exStaked_inv: "stk_inv True (stk exStaked)"
proof -
  have r: "readable exBucket" by code_simp
  have "cinv True (stk exStaked)"
    using exStaking_inv [of True] by (auto simp: exStaked_def stk_inv_def cinv_def candFits_def nextIndex_def exStaking_def)
  then show ?thesis using r
    by (simp add: stk_inv_def binv_def poolStored_def exStaked_def exStaking_def msum_def nextIndex_def exBucket_def NewVoteBucket_def)
qed

theorem bucket_locked_witness:
  "\<exists>res sm' b'. HandleStaking (DepositGas True) exProtocol exCtx exPrice (ActWithdrawStake 0) exStaked = (res, sm') \<and>
     bucketNS (stk sm') 0 = Some b' \<and> release exProtocol exBucket \<le> release exProtocol b'"
proof -
  obtain res sm' where run: "HandleStaking (DepositGas True) exProtocol exCtx exPrice (ActWithdrawStake 0) exStaked = (res, sm')"
    by fastforce
  have f: "1699999999000000000 \<le> BlockTimeStamp exCtx" "CannotUnstakeAgain (fCtx exCtx)" "NewStakingReceiptFormat (fCtx exCtx)"
    "actionDuration (ActWithdrawStake 0) \<le> 106751" "BlockTimeStamp exCtx < release exProtocol exBucket"
    "vbStakeStartTime exBucket \<le> 1699999999000000000"
    by code_simp+
  have ch: "staking_run exProtocol exStaked 1699999999000000000 sm' (BlockTimeStamp exCtx)"
    by (rule run_act [OF run_refl exStaked_inv f(1-4) run])
  have b: "bucketNS (stk exStaked) 0 = Some exBucket" by (simp add: exStaked_def)
  have "vbStakedDuration exBucket = durationOfDays 91" "isNative exBucket" "\<not> vbTimestamped exBucket"
    by (simp_all add: exBucket_def NewVoteBucket_def isNative_def)
  then have "shortStay exBucket" by (auto simp: shortStay_def intro!: exI [of _ "91 :: u32"])
  from bucket_locked [OF ch b this f(6,5)] run show ?thesis by blast
qed


end
