(* ===== verification/Rewarding.thy ===== *)
theory Rewarding
  imports StakingMoney Epoch
begin

text \<open>
  The rewarding protocol: \<^verbatim>\<open>reward.go\<close>, \<^verbatim>\<open>admin.go\<close> and \<^verbatim>\<open>protocol.go\<close> under
  \<^verbatim>\<open>action/protocol/rewarding\<close>, with the snapshots of the working set
  (\<^verbatim>\<open>state/factory/workingset.go\<close>) its handler reverts to.

  What the other protocols answer in the block is a record \<open>RewardEnv\<close>: the candidates and the
  unproductive delegates of the poll protocol, the epoch arithmetic, the staking protocol whose
  candidates are slashed, and the rendering of addresses.  A protocol that is not registered is
  \<open>None\<close>; a \<^verbatim>\<open>MustGetProtocol\<close> that does not find it panics.  The Erigon side store, and the data
  and topics of event logs beyond the reward log itself, are not modelled.
\<close>

section \<open>Configuration, environment and actions\<close>

record RewardingCfg =
  gInitBalance :: int
  gBlockReward :: int
  gDardanellesBlockReward :: int
  gWakeBlockReward :: int
  gEpochReward :: int
  gAleutianEpochReward :: int
  gNumDelegatesForEpochReward :: u64
  gExemptAddrs :: "addr list"
  gFoundationBonus :: int
  gNumDelegatesForFoundationBonus :: u64
  gFoundationBonusLastEpoch :: u64
  gFoundationBonusP2StartEpoch :: u64
  gFoundationBonusP2EndEpoch :: u64
  gProductivityThreshold :: u64

definition validateFoundationBonusExtension :: "RewardingCfg \<Rightarrow> unit res" where
  "validateFoundationBonusExtension cfg =
     checkR (\<not> ((gFoundationBonusP2StartEpoch cfg > 0 \<or> gFoundationBonusP2EndEpoch cfg > 0) \<and>
        (gFoundationBonusP2StartEpoch cfg < gFoundationBonusLastEpoch cfg \<or>
         gFoundationBonusP2EndEpoch cfg < gFoundationBonusP2StartEpoch cfg)))
       (Errorf ''invalid start/end epoch number'')"

text \<open>A candidate of the poll protocol (\<^verbatim>\<open>state.Candidate\<close>).\<close>

record state_candidate =
  scAddress :: string
  scVotes :: int
  scRewardAddress :: string

record RewardEnv =
  addrString :: "addr \<Rightarrow> string"
  FromString :: "string \<Rightarrow> addr res"
  pollCandidates :: "state_candidate list res option"
  unproductiveDelegates :: "(string \<rightharpoonup> u64) res"
  rolldpos :: "RollDPoS option"
  stakingProtocol :: "StakingProtocol option"
  GetUnproductiveDelegates :: "u64 \<Rightarrow> bool"

datatype RewardLogType = BLOCK_REWARD | EPOCH_REWARD | FOUNDATION_BONUS | PRIORITY_BONUS | UNPRODUCTIVE_SLASH

record RewardLog =
  rlType :: RewardLogType
  rlAddr :: string
  rlAmount :: int

datatype RewardType = BlockReward | EpochReward | OtherReward

datatype RewardAction =
    DepositToRewardingFund int
  | ClaimFromRewardingFund int "addr option"
  | GrantReward RewardType

definition must :: "'x option \<Rightarrow> 'x res" where
  "must x = (case x of None \<Rightarrow> Inl (Panic ''protocol is not registered'') | Some v \<Rightarrow> Inr v)"

section \<open>The admin record (admin.go)\<close>

definition assertAmount :: "int \<Rightarrow> unit res" where
  "assertAmount amount = checkR (0 \<le> amount) (Errorf ''amount shouldn't be negative'')"

definition assertZeroBlockHeight :: "u64 \<Rightarrow> unit res" where
  "assertZeroBlockHeight height = checkR (height = 0) (Errorf ''current block height is not zero'')"

definition CreateGenesisStates :: "RewardingCfg \<Rightarrow> ctx \<Rightarrow> ('a reward_world_scheme, unit) op" where
  "CreateGenesisStates g c =
     thenS (liftS (assertZeroBlockHeight (BlockHeight c))) (
     thenS (liftS (assertAmount (gBlockReward g))) (
     thenS (liftS (assertAmount (gEpochReward g))) (
     thenS (putState c AdminKey (VAdmin \<lparr>blockReward = gBlockReward g, epochReward = gEpochReward g,
       numDelegatesForEpochReward = gNumDelegatesForEpochReward g, foundationBonus = gFoundationBonus g,
       numDelegatesForFoundationBonus = gNumDelegatesForFoundationBonus g,
       foundationBonusLastEpoch = gFoundationBonusLastEpoch g, productivityThreshold = gProductivityThreshold g\<rparr>)) (
     thenS (putState c FundKey (VFund \<lparr>fundTotal = gInitBalance g, fundUnclaimed = gInitBalance g\<rparr>)) (
     putState c ExemptKey (VExempt (gExemptAddrs g)))))))"

definition readAdmin :: "ctx \<Rightarrow> ('a reward_world_scheme, admin) op" where
  "readAdmin c = (\<lambda>sm. (state c AdminKey asAdmin sm, sm))"

definition SetReward :: "ctx \<Rightarrow> int \<Rightarrow> bool \<Rightarrow> ('a reward_world_scheme, unit) op" where
  "SetReward c amount blockLevel =
     thenS (liftS (assertAmount amount)) (
     bindS (readAdmin c) (\<lambda>a.
     putState c AdminKey (VAdmin (if blockLevel then a\<lparr>blockReward := amount\<rparr> else a\<lparr>epochReward := amount\<rparr>))))"

section \<open>Upgrades (rewarding/protocol.go)\<close>

definition setFoundationBonusExtension :: "RewardingCfg \<Rightarrow> RewardEnv \<Rightarrow> ctx \<Rightarrow> ('a reward_world_scheme, unit) op" where
  "setFoundationBonusExtension cfg env c =
     bindS (readAdmin c) (\<lambda>a.
     case rolldpos env of None \<Rightarrow> returnS ()
     | Some rp \<Rightarrow>
       bindS (liftS (GetEpochNum rp (BlockHeight c))) (\<lambda>epochNum.
       let newLastEpoch = epochNum + 8760;
           l1 = (if foundationBonusLastEpoch a < gFoundationBonusP2EndEpoch cfg
                 then gFoundationBonusP2EndEpoch cfg else foundationBonusLastEpoch a);
           l2 = (if l1 < newLastEpoch then newLastEpoch else l1) in
       putState c AdminKey (VAdmin (a\<lparr>foundationBonusLastEpoch := l2\<rparr>))))"

definition CreatePreStates :: "genesis \<Rightarrow> RewardingCfg \<Rightarrow> RewardEnv \<Rightarrow> ctx \<Rightarrow> ('a reward_world_scheme, unit) op" where
  "CreatePreStates g cfg env c =
     (if BlockHeight c = AleutianBlockHeight g then SetReward c (gAleutianEpochReward cfg) False
      else if BlockHeight c = DardanellesBlockHeight g then SetReward c (gDardanellesBlockReward cfg) True
      else if BlockHeight c = GreenlandBlockHeight g then migrateValueGreenland
      else if BlockHeight c = KamchatkaBlockHeight g then setFoundationBonusExtension cfg env c
      else if BlockHeight c = WakeBlockHeight g then SetReward c (gWakeBlockReward cfg) True
      else returnS ())"

definition CreatePostSystemActions :: "RewardEnv \<Rightarrow> ctx \<Rightarrow> RewardAction list res" where
  "CreatePostSystemActions env c =
     (case rolldpos env of None \<Rightarrow> Inr [GrantReward BlockReward]
      | Some rp \<Rightarrow>
        bindR (GetEpochNum rp (BlockHeight c)) (\<lambda>e.
        bindR (GetEpochLastBlockHeight rp e) (\<lambda>h.
        Inr (GrantReward BlockReward # (if BlockHeight c = h then [GrantReward EpochReward] else [])))))"

definition validateReward :: "ctx \<Rightarrow> RewardAction \<Rightarrow> unit res" where
  "validateReward c act = (case act of
       GrantReward _ \<Rightarrow>
         bindR (checkR (Producer c = Caller c) (Errorf ''Only producer could create reward'')) (\<lambda>_.
         checkR (GasPrice c = 0 \<and> IntrinsicGas c = 0)
           (Errorf ''invalid gas price or intrinsic gas for reward action''))
     | ClaimFromRewardingFund _ a \<Rightarrow>
         checkR (AddClaimRewardAddress (fCtx c) \<or> a = None) (Errorf ''claim reward address not enabled yet'')
     | DepositToRewardingFund _ \<Rightarrow> Inr ())"

section \<open>Reward accounts and the fund (reward.go)\<close>

definition rewardAccount_Serialize :: "int \<Rightarrow> string" where
  "rewardAccount_Serialize balance = big_String balance"

definition rewardAccount_Deserialize :: "string \<Rightarrow> int res" where
  "rewardAccount_Deserialize gen = setString ''failed to set reward account balance'' gen"

definition UnclaimedBalance :: "ctx \<Rightarrow> addr \<Rightarrow> 'a reward_world_scheme \<Rightarrow> int res" where
  "UnclaimedBalance c a sm = (case state c (AccKey a) asAcc sm of
       Inr b \<Rightarrow> Inr b | Inl e \<Rightarrow> if e = ErrStateNotExist then Inr 0 else Inl e)"

definition readFund :: "ctx \<Rightarrow> ('a reward_world_scheme, fund) op" where
  "readFund c = (\<lambda>sm. (state c FundKey asFund sm, sm))"

definition updateTotalBalance :: "ctx \<Rightarrow> int \<Rightarrow> ('a reward_world_scheme, unit) op" where
  "updateTotalBalance c amount =
     bindS (readFund c) (\<lambda>f.
     let totalBalance = fundTotal f - amount in
     thenS (checkS (\<not> totalBalance < 0) (Errorf ''no enough total balance'')) (
     putState c FundKey (VFund (f\<lparr>fundTotal := totalBalance\<rparr>))))"

definition updateAvailableBalance :: "ctx \<Rightarrow> int \<Rightarrow> ('a reward_world_scheme, unit) op" where
  "updateAvailableBalance c amount =
     bindS (readFund c) (\<lambda>f.
     let availableBalance = fundUnclaimed f - amount in
     thenS (checkS (\<not> availableBalance < 0) (Errorf ''no enough available balance'')) (
     putState c FundKey (VFund (f\<lparr>fundUnclaimed := availableBalance\<rparr>))))"

definition grantToAccount :: "ctx \<Rightarrow> addr \<Rightarrow> int \<Rightarrow> ('a reward_world_scheme, unit) op" where
  "grantToAccount c a amount =
     bindS (readS (stateCheckLegacy c (AccKey a) asAcc)) (\<lambda>r. case r of
       Inl e \<Rightarrow> if e \<noteq> ErrStateNotExist then failS e else putState c (AccKey a) (VAcc (0 + amount))
     | Inr (balance, fromLegacy) \<Rightarrow>
         thenS (whenS (fromLegacy \<and> useV2Storage c) (deleteStateV1 (AccKey a))) (
         putState c (AccKey a) (VAcc (balance + amount))))"

definition claimFromAccount :: "ctx \<Rightarrow> addr \<Rightarrow> int \<Rightarrow> ('a reward_world_scheme, unit) op" where
  "claimFromAccount c a amount =
     bindS (\<lambda>sm. (stateCheckLegacy c (AccKey a) asAcc sm, sm)) (\<lambda>(accBalance, fromLegacy).
     let balance = accBalance - amount in
     thenS (checkS (\<not> balance < 0) (Errorf ''no enough available balance'')) (
     thenS (putState c (AccKey a) (VAcc balance)) (
     thenS (whenS (fromLegacy \<and> useV2Storage c) (deleteStateV1 (AccKey a))) (
     bindS (LoadOrCreateAccount a (accountCreationOpts c)) (\<lambda>primAcc.
     bindS (liftS (AddBalance (Some amount) primAcc)) (\<lambda>primAcc.
     StoreAccount a primAcc))))))"

definition Claim :: "ctx \<Rightarrow> int \<Rightarrow> addr \<Rightarrow> ('a reward_world_scheme, TransactionLog) op" where
  "Claim c amount claimFrom =
     thenS (liftS (assertAmount amount)) (
     thenS (updateTotalBalance c amount) (
     thenS (claimFromAccount c claimFrom amount) (
     returnS \<lparr>tlType = CLAIM_FROM_REWARDING_FUND, tlSender = RewardingPoolAddr, tlRecipient = Acct claimFrom,
       tlAmount = amount\<rparr>)))"

section \<open>Block rewards (reward.go)\<close>

definition calculateTotalRewardAndTip :: "ctx \<Rightarrow> ('a reward_world_scheme, int \<times> int \<times> int) op" where
  "calculateTotalRewardAndTip c =
     bindS (readAdmin c) (\<lambda>a.
     let effectiveTip = (if EnableDynamicFeeTx (fCtx c) \<and> AccumulatedTips c > 0 then AccumulatedTips c else 0) in
     returnS (blockReward a + effectiveTip, blockReward a, effectiveTip))"

definition assertNoRewardYet :: "ctx \<Rightarrow> rkey \<Rightarrow> ('a reward_world_scheme, unit) op" where
  "assertNoRewardYet c key = (\<lambda>sm. (case state c key asHist sm of
       Inr _ \<Rightarrow> Inl (Errorf ''reward history already exists'')
     | Inl e \<Rightarrow> if e \<noteq> ErrStateNotExist then Inl e else Inr (), sm))"

definition updateRewardHistory :: "ctx \<Rightarrow> rkey \<Rightarrow> ('a reward_world_scheme, unit) op" where
  "updateRewardHistory c key = putState c key VHist"

definition rewardAddressOf :: "string \<Rightarrow> state_candidate list \<Rightarrow> string" where
  "rewardAddressOf producer ds = (case find (\<lambda>d. scAddress d = producer) ds of
     None \<Rightarrow> [] | Some d \<Rightarrow> scRewardAddress d)"

text \<open>The reward logs, none when the producer has no reward address.\<close>

definition GrantBlockReward :: "RewardEnv \<Rightarrow> ctx \<Rightarrow> ('a reward_world_scheme, RewardLog list) op" where
  "GrantBlockReward env c =
     thenS (assertNoRewardYet c (BlockHistKey (BlockHeight c))) (
     bindS (liftS (case pollCandidates env of None \<Rightarrow> Inr []
       | Some r \<Rightarrow> bindR r (\<lambda>cs. Inr (rewardAddressOf (addrString env (Producer c)) cs)))) (\<lambda>rewardAddrStr.
     if rewardAddrStr = [] then returnS []
     else
       bindS (liftS (FromString env rewardAddrStr)) (\<lambda>rewardAddr.
       bindS (calculateTotalRewardAndTip c) (\<lambda>(totalReward, blkReward, effectiveTip).
       thenS (updateAvailableBalance c totalReward) (
       thenS (grantToAccount c rewardAddr totalReward) (
       thenS (updateRewardHistory c (BlockHistKey (BlockHeight c))) (
       returnS (\<lparr>rlType = BLOCK_REWARD, rlAddr = rewardAddrStr, rlAmount = blkReward\<rparr> #
         (if EnableDynamicFeeTx (fCtx c) \<and> effectiveTip \<noteq> 0
          then [\<lparr>rlType = PRIORITY_BONUS, rlAddr = rewardAddrStr, rlAmount = effectiveTip\<rparr>] else [])))))))))"

section \<open>Epoch rewards (reward.go)\<close>

definition assertLastBlockInEpoch :: "u64 \<Rightarrow> u64 \<Rightarrow> RollDPoS \<Rightarrow> unit res" where
  "assertLastBlockInEpoch blkHeight epochNum rp =
     bindR (GetEpochLastBlockHeight rp epochNum) (\<lambda>lastBlkHeight.
     checkR (blkHeight = lastBlkHeight) (Errorf ''current block is not the last block of epoch''))"

definition slashDelegate ::
  "RewardEnv \<Rightarrow> StakingProtocol \<Rightarrow> ctx \<Rightarrow> state_candidate \<Rightarrow> int \<Rightarrow> ('a staking_world_scheme, RewardLog) op" where
  "slashDelegate env p c d amount =
     bindS (liftS (FromString env (scAddress d))) (\<lambda>candidateAddr.
     thenS (SlashCandidate p c candidateAddr (Some amount)) (
     returnS \<lparr>rlType = UNPRODUCTIVE_SLASH, rlAddr = addrString env candidateAddr, rlAmount = amount\<rparr>))"

text \<open>The loop over the candidates: what was slashed so far and its logs.\<close>

fun slashAll ::
  "RewardEnv \<Rightarrow> StakingProtocol \<Rightarrow> ctx \<Rightarrow> int \<Rightarrow> (string \<rightharpoonup> u64) \<Rightarrow> nat \<Rightarrow> state_candidate list \<Rightarrow> int \<Rightarrow> RewardLog list \<Rightarrow>
   ('a staking_world_scheme, int \<times> RewardLog list) op" where
  "slashAll env p c slashRate uqd snapshot [] tot logs = returnS (tot, logs)"
| "slashAll env p c slashRate uqd snapshot (d # ds) tot logs =
     (case uqd (scAddress d) of
        None \<Rightarrow> slashAll env p c slashRate uqd snapshot ds tot logs
      | Some missed \<Rightarrow>
        if missed = 0 then slashAll env p c slashRate uqd snapshot ds tot logs
        else (\<lambda>sm.
          let amount = slashRate * uint missed in
          case slashDelegate env p c d amount sm of
            (Inr actLog, sm1) \<Rightarrow> slashAll env p c slashRate uqd snapshot ds (tot + amount) (logs @ [actLog]) sm1
          | (Inl e, sm1) \<Rightarrow>
            if e = ErrNoSelfStakeBucket \<or> (e = ErrCandidateNotExist \<and> \<not> CandidateSlashByOwner (fCtx c))
            then slashAll env p c slashRate uqd snapshot ds tot logs sm1
            else thenS (onStk (viewRevert snapshot)) (failS e) sm1))"

definition slashUqd ::
  "RewardEnv \<Rightarrow> ctx \<Rightarrow> state_candidate list \<Rightarrow> int \<Rightarrow> (string \<rightharpoonup> u64) \<Rightarrow>
   ('a staking_world_scheme, int \<times> RewardLog list) op" where
  "slashUqd env c ds slashRate uqd =
     (case stakingProtocol env of None \<Rightarrow> failS (Errorf ''staking protocol not found'')
      | Some p \<Rightarrow> bindS (onStk viewSnapshot) (\<lambda>snapshot. slashAll env p c slashRate uqd snapshot ds 0 []))"

definition parseReward :: "RewardEnv \<Rightarrow> string \<Rightarrow> addr option res" where
  "parseReward env s = (if s \<noteq> [] then bindR (FromString env s) (\<lambda>a. Inr (Some a)) else Inr None)"

fun parseRewards :: "RewardEnv \<Rightarrow> state_candidate list \<Rightarrow> addr option list res" where
  "parseRewards env [] = Inr []"
| "parseRewards env (d # ds) =
     bindR (parseReward env (scRewardAddress d)) (\<lambda>a. bindR (parseRewards env ds) (\<lambda>l. Inr (a # l)))"

definition shareOf :: "int \<Rightarrow> int \<Rightarrow> (string \<rightharpoonup> u64) \<Rightarrow> state_candidate \<Rightarrow> int" where
  "shareOf totalAmount totalWeight uqd d =
     (if totalWeight = 0 then 0
      else if uqd (scAddress d) \<noteq> None then 0
      else big_Div (totalAmount * scVotes d) totalWeight)"

definition splitEpochReward ::
  "RewardEnv \<Rightarrow> state_candidate list \<Rightarrow> int \<Rightarrow> u64 \<Rightarrow> string list \<Rightarrow> (string \<rightharpoonup> u64) \<Rightarrow> (addr option list \<times> int list) res" where
  "splitEpochReward env ds totalAmount num exemptAddrs uqd =
     (let ds = filter (\<lambda>d. scAddress d \<notin> set exemptAddrs) ds in
      if length ds = 0 then Inr ([], [])
      else
        let ds = (if length ds > unat num then take (unat num) ds else ds) in
        bindR (parseRewards env ds) (\<lambda>rewardAddrs.
        let totalWeight = (\<Sum>d\<leftarrow>ds. scVotes d) in
        Inr (rewardAddrs, map (shareOf totalAmount totalWeight uqd) ds)))"

text \<open>The two granting loops carry the total granted so far and the logs.\<close>

fun grantShares ::
  "RewardEnv \<Rightarrow> ctx \<Rightarrow> (addr option \<times> int) list \<Rightarrow> int \<Rightarrow> RewardLog list \<Rightarrow> ('a reward_world_scheme, int \<times> RewardLog list) op" where
  "grantShares env c [] tot logs = returnS (tot, logs)"
| "grantShares env c ((None, amount) # l) tot logs = grantShares env c l tot logs"
| "grantShares env c ((Some a, amount) # l) tot logs =
     (if amount = 0 then grantShares env c l tot logs
      else thenS (grantToAccount c a amount)
        (grantShares env c l (tot + amount) (logs @ [\<lparr>rlType = EPOCH_REWARD, rlAddr = addrString env a, rlAmount = amount\<rparr>])))"

fun grantBonus ::
  "RewardEnv \<Rightarrow> ctx \<Rightarrow> admin \<Rightarrow> string list \<Rightarrow> state_candidate list \<Rightarrow> u64 \<Rightarrow> int \<Rightarrow> RewardLog list \<Rightarrow>
   ('a reward_world_scheme, int \<times> RewardLog list) op" where
  "grantBonus env c a exemptAddrs [] count tot logs = returnS (tot, logs)"
| "grantBonus env c a exemptAddrs (d # ds) count tot logs =
     (if \<not> count < numDelegatesForFoundationBonus a then returnS (tot, logs)
      else if scAddress d \<in> set exemptAddrs then grantBonus env c a exemptAddrs ds count tot logs
      else if scVotes d = 0 then grantBonus env c a exemptAddrs ds count tot logs
      else if scRewardAddress d = [] then grantBonus env c a exemptAddrs ds (count + 1) tot logs
      else bindS (liftS (FromString env (scRewardAddress d))) (\<lambda>rewardAddr.
        thenS (grantToAccount c rewardAddr (foundationBonus a))
        (grantBonus env c a exemptAddrs ds (count + 1) (tot + foundationBonus a)
          (logs @ [\<lparr>rlType = FOUNDATION_BONUS, rlAddr = scRewardAddress d, rlAmount = foundationBonus a\<rparr>]))))"

definition slashStep ::
  "RewardEnv \<Rightarrow> ctx \<Rightarrow> state_candidate list \<Rightarrow> int \<Rightarrow> (string \<rightharpoonup> u64) \<Rightarrow>
   ('a staking_world_scheme, int \<times> TransactionLog list \<times> RewardLog list) op" where
  "slashStep env c ds slashRate uqd =
     (if NotSlashUnproductiveDelegates (fCtx c) then returnS (0, [], [])
      else bindS (slashUqd env c ds slashRate uqd) (\<lambda>(slashAmount, slashLogs).
        returnS (slashAmount,
          (if slashAmount > 0 then [\<lparr>tlType = DEPOSIT_TO_REWARDING_FUND, tlSender = StakingBucketPoolAddr,
             tlRecipient = RewardingPoolAddr, tlAmount = slashAmount\<rparr>] else []), slashLogs)))"

definition GrantEpochReward ::
  "RewardingCfg \<Rightarrow> RewardEnv \<Rightarrow> ctx \<Rightarrow> ('a staking_world_scheme, TransactionLog list \<times> RewardLog list) op" where
  "GrantEpochReward cfg env c =
     bindS (liftS (must (rolldpos env))) (\<lambda>rp.
     bindS (liftS (must (pollCandidates env))) (\<lambda>poll.
     bindS (liftS (GetEpochNum rp (BlockHeight c))) (\<lambda>epochNum.
     thenS (assertNoRewardYet c (EpochHistKey epochNum)) (
     thenS (liftS (assertLastBlockInEpoch (BlockHeight c) epochNum rp)) (
     bindS (readAdmin c) (\<lambda>a.
     bindS (\<lambda>sm. (state c ExemptKey asExempt sm, sm)) (\<lambda>e.
     let exemptAddrs = map (addrString env) e in
     bindS (liftS (GetEpochHeight rp epochNum)) (\<lambda>epochStartHeight.
     bindS (if GetUnproductiveDelegates env epochStartHeight \<or> \<not> NotSlashUnproductiveDelegates (fCtx c)
            then liftS (unproductiveDelegates env) else returnS Map.empty) (\<lambda>uqdMap.
     bindS (liftS poll) (\<lambda>ds.
     bindS (slashStep env c ds (blockReward a) uqdMap) (\<lambda>(slashAmount, transactionLogs, slashLogs).
     bindS (liftS (splitEpochReward env ds (epochReward a) (numDelegatesForEpochReward a) exemptAddrs
       (if GetUnproductiveDelegates env epochStartHeight then uqdMap else Map.empty))) (\<lambda>(addrs, amounts).
     bindS (grantShares env c (zip addrs amounts) (0 - slashAmount) slashLogs) (\<lambda>(tot, logs).
     bindS (if grantFoundationBonus epochNum a \<or>
              (epochNum \<ge> gFoundationBonusP2StartEpoch cfg \<and> epochNum \<le> gFoundationBonusP2EndEpoch cfg)
            then grantBonus env c a exemptAddrs ds 0 tot logs else returnS (tot, logs)) (\<lambda>(actualTotalReward, rewardLogs).
     thenS (updateAvailableBalance c actualTotalReward) (
     thenS (updateRewardHistory c (EpochHistKey epochNum)) (
     returnS (transactionLogs, rewardLogs)))))))))))))))))"

section \<open>Snapshots of the working set (state/factory/workingset.go)\<close>

text \<open>A snapshot of the store keeps its namespaces; the staking view keeps its own snapshots.\<close>

definition smSnapshot :: "('a staking_world_scheme, 'a staking_world_scheme \<times> nat) op" where
  "smSnapshot = bindS (onStk viewSnapshot) (\<lambda>vid sm. (Inr (sm, vid), sm))"

definition smRevert :: "'a staking_world_scheme \<times> nat \<Rightarrow> ('a staking_world_scheme, unit) op" where
  "smRevert sn = thenS (onStk (viewRevert (snd sn))) (
     modifyS (\<lambda>sm. (fst sn)\<lparr>stk := (stk (fst sn))\<lparr>candCenter := candCenter (stk sm),
       bucketPool := bucketPool (stk sm), snapshots := snapshots (stk sm)\<rparr>\<rparr>))"

section \<open>Handling and settlement (rewarding/protocol.go)\<close>

definition increaseNonce :: "ctx \<Rightarrow> addr \<Rightarrow> u64 \<Rightarrow> bool \<Rightarrow> ('a world_scheme, unit) op" where
  "increaseNonce c a n skipSetNonce =
     bindS (LoadOrCreateAccount a (accountCreationOpts c)) (\<lambda>acc.
     bindS (if \<not> skipSetNonce then liftS (SetPendingNonce (n + 1) acc) else returnS acc) (\<lambda>acc.
     StoreAccount a acc))"

definition settleReward ::
  "ctx \<Rightarrow> tx_price \<Rightarrow> receipt_status \<Rightarrow> 'a staking_world_scheme \<times> nat \<Rightarrow> bool \<Rightarrow> TransactionLog list \<Rightarrow>
   ('a staking_world_scheme, Receipt) op" where
  "settleReward c price status si isSystemAction tLogs =
     thenS (whenS (status = RS_Failure) (smRevert si)) (
     let skipUpdate = FixGasAndNonceUpdate (fCtx c) in
     bindS (if \<not> isSystemAction \<or> \<not> skipUpdate
            then bindS (liftS (splitGas c price (IntrinsicGas c))) (\<lambda>(priorityFee, baseFee).
              bindS (DepositGas True c baseFee (PriorityFeeOption priorityFee)) (\<lambda>depositLog.
              thenS (increaseNonce c (Caller c) (actNonce c) (\<not> skipUpdate \<and> actNonce c = 0)) (
              returnS depositLog)))
            else returnS []) (\<lambda>depositLog.
     returnS \<lparr>Status = status, rBlockHeight = BlockHeight c, GasConsumed = IntrinsicGas c,
       rEffectiveGasPrice = effectiveGasPrice c price, transactionLogs = tLogs @ depositLog\<rparr>))"

text \<open>An error of the action itself is a failed receipt; a reward of another kind has no receipt.\<close>

definition orFail ::
  "('a staking_world_scheme, 'x) op \<Rightarrow> (receipt_status \<Rightarrow> TransactionLog list \<Rightarrow> ('a staking_world_scheme, Receipt) op) \<Rightarrow>
   ('x \<Rightarrow> TransactionLog list) \<Rightarrow> ('a staking_world_scheme, Receipt) op" where
  "orFail m settle tLogs sm = (case m sm of
       (Inr x, sm1) \<Rightarrow> settle RS_Success (tLogs x) sm1
     | (Inl (Panic msg), sm1) \<Rightarrow> (Inl (Panic msg), sm1)
     | (Inl e, sm1) \<Rightarrow> settle RS_Failure [] sm1)"

definition HandleReward ::
  "RewardingCfg \<Rightarrow> RewardEnv \<Rightarrow> ctx \<Rightarrow> tx_price \<Rightarrow> RewardAction \<Rightarrow> ('a staking_world_scheme, Receipt option) op" where
  "HandleReward cfg env c price act =
     bindS smSnapshot (\<lambda>si.
     case act of
       DepositToRewardingFund amount \<Rightarrow>
         bindS (orFail (Deposit c (Some amount) DEPOSIT_TO_REWARDING_FUND) (\<lambda>st. settleReward c price st si False) (\<lambda>l. l))
           (\<lambda>r. returnS (Some r))
     | ClaimFromRewardingFund amount a \<Rightarrow>
         let claimFrom = (case a of None \<Rightarrow> Caller c | Some x \<Rightarrow> x) in
         bindS (orFail (Claim c amount claimFrom) (\<lambda>st. settleReward c price st si False) (\<lambda>l. [l]))
           (\<lambda>r. returnS (Some r))
     | GrantReward BlockReward \<Rightarrow>
         bindS (orFail (GrantBlockReward env c) (\<lambda>st. settleReward c price st si True) (\<lambda>_. []))
           (\<lambda>r. returnS (Some r))
     | GrantReward EpochReward \<Rightarrow>
         bindS (orFail (GrantEpochReward cfg env c) (\<lambda>st. settleReward c price st si True) (\<lambda>(tLogs, _). tLogs))
           (\<lambda>r. returnS (Some r))
     | GrantReward OtherReward \<Rightarrow> returnS None)"

end
