(* ===== verification/RewardLedger.thy ===== *)
theory RewardLedger
  imports Rewarding
begin

text \<open>
  What the rewarding protocol owes and holds.  The abstract state of the protocol is the fund and
  the balance of every reward account; the operations of \<open>Rewarding\<close> are updates of it.  The fund is
  solvent when its total is what is unclaimed plus what the accounts are owed: then every owed
  reward can be claimed.  Grants and claims keep it so; slashing does not, because the slashed
  amount is added to the unclaimed balance only.
\<close>

section \<open>The abstract state\<close>

definition accBal :: "rstore \<Rightarrow> addr \<Rightarrow> int" where
  "accBal V a = (case V (AccKey a) of Some (VAcc b) \<Rightarrow> b | _ \<Rightarrow> 0)"

definition accSum :: "rstore \<Rightarrow> int" where
  "accSum V = (\<Sum>a\<in>UNIV. accBal V a)"

lemma accBal_upd [simp]:
  "accBal (V(AccKey a \<mapsto> VAcc b)) = (accBal V)(a := b)" "accBal (V(FundKey \<mapsto> v)) = accBal V"
  "accBal (V(AdminKey \<mapsto> v)) = accBal V" "accBal (V(ExemptKey \<mapsto> v)) = accBal V"
  "accBal (V(BlockHistKey h \<mapsto> v)) = accBal V" "accBal (V(EpochHistKey h \<mapsto> v)) = accBal V"
  by (auto simp: accBal_def fun_eq_iff)

lemma sum_fun_upd: "(\<Sum>x\<in>UNIV. (f(a := b)) x) = (\<Sum>x\<in>UNIV. f x) - f a + b"
  for f :: "'a::finite \<Rightarrow> int"
proof -
  have "(\<Sum>x\<in>UNIV. (f(a := b)) x) = b + (\<Sum>x\<in>UNIV - {a}. (f(a := b)) x)"
    by (subst sum.remove [of _ a]) auto
  also have "(\<Sum>x\<in>UNIV - {a}. (f(a := b)) x) = (\<Sum>x\<in>UNIV - {a}. f x)" by (rule sum.cong) auto
  also have "(\<Sum>x\<in>UNIV. f x) = f a + (\<Sum>x\<in>UNIV - {a}. f x)" by (subst sum.remove [of _ a]) auto
  ultimately show ?thesis by simp
qed

lemma accSum_upd [simp]:
  "accSum (V(AccKey a \<mapsto> VAcc b)) = accSum V - accBal V a + b" "accSum (V(FundKey \<mapsto> v)) = accSum V"
  "accSum (V(AdminKey \<mapsto> v)) = accSum V" "accSum (V(ExemptKey \<mapsto> v)) = accSum V"
  "accSum (V(BlockHistKey h \<mapsto> v)) = accSum V" "accSum (V(EpochHistKey h \<mapsto> v)) = accSum V"
  unfolding accSum_def accBal_upd sum_fun_upd by simp_all

text \<open>Every key holds a value of its type, and no reward account is negative.\<close>

fun rightType :: "rkey \<Rightarrow> rvalue \<Rightarrow> bool" where
  "rightType AdminKey (VAdmin a) = (0 \<le> blockReward a \<and> 0 \<le> epochReward a \<and> 0 \<le> foundationBonus a)"
| "rightType FundKey (VFund f) = (0 \<le> fundUnclaimed f)"
| "rightType ExemptKey (VExempt l) = True"
| "rightType (AccKey a) (VAcc b) = (0 \<le> b)"
| "rightType (BlockHistKey h) VHist = True"
| "rightType (EpochHistKey h) VHist = True"
| "rightType _ _ = False"

definition typed :: "rstore \<Rightarrow> bool" where
  "typed V \<longleftrightarrow> (\<forall>k v. V k = Some v \<longrightarrow> rightType k v)"

lemma typed_upd: "typed V \<Longrightarrow> rightType k v \<Longrightarrow> typed (V(k \<mapsto> v))"
  by (simp add: typed_def)

lemma typedD: "typed V \<Longrightarrow> V k = Some v \<Longrightarrow> rightType k v"
  by (simp add: typed_def)

lemma typed_acc: "typed V \<Longrightarrow> V (AccKey a) = Some v \<Longrightarrow> \<exists>b\<ge>0. v = VAcc b"
  by (cases v) (auto simp: typed_def dest!: spec)

lemma typed_accBal: "typed V \<Longrightarrow> 0 \<le> accBal V a"
  by (auto simp: accBal_def dest: typed_acc split: option.splits rvalue.splits)

lemma accBal_le_sum: "typed V \<Longrightarrow> accBal V a \<le> accSum V"
  unfolding accSum_def by (rule member_le_sum) (auto simp: typed_accBal)

text \<open>A run that updates the visible store by \<open>g\<close> and touches nothing else.\<close>

definition updates :: "ctx \<Rightarrow> (rstore \<Rightarrow> rstore) \<Rightarrow> 'a reward_world_scheme \<Rightarrow> 'a reward_world_scheme \<Rightarrow> bool" where
  "updates c g sm sm' \<longleftrightarrow> view c sm' = g (view c sm) \<and> acctNS sm' = acctNS sm \<and>
     reward_world.more sm' = reward_world.more sm \<and> smHeight sm' = smHeight sm"

lemma updates_trans: "updates c g sm sm1 \<Longrightarrow> updates c h sm1 sm2 \<Longrightarrow> updates c (h \<circ> g) sm sm2"
  by (simp add: updates_def)

lemma putState_updates: "putState c k v sm = (Inr u, sm') \<Longrightarrow> updates c (\<lambda>V. V(k \<mapsto> v)) sm sm'"
  by (auto simp: updates_def dest: rewards.put_run putState_frame)

section \<open>Operations as updates\<close>

lemma readFund_run: "readFund c sm = (Inr f, sm') \<longleftrightarrow> view c sm FundKey = Some (VFund f) \<and> sm' = sm"
  by (auto simp: readFund_def state_fund)

lemma updateTotalBalance_run:
  assumes "updateTotalBalance c x sm = (Inr u, sm')"
  shows "\<exists>f. view c sm FundKey = Some (VFund f) \<and> 0 \<le> fundTotal f - x \<and>
    updates c (\<lambda>V. V(FundKey \<mapsto> VFund (f\<lparr>fundTotal := fundTotal f - x\<rparr>))) sm sm'"
  using assms by (auto simp: updateTotalBalance_def Let_def bindS_run thenS_run checkS_run readFund_run dest!: putState_updates)

lemma updateAvailableBalance_run:
  assumes "updateAvailableBalance c x sm = (Inr u, sm')"
  shows "\<exists>f. view c sm FundKey = Some (VFund f) \<and> 0 \<le> fundUnclaimed f - x \<and>
    updates c (\<lambda>V. V(FundKey \<mapsto> VFund (f\<lparr>fundUnclaimed := fundUnclaimed f - x\<rparr>))) sm sm'"
  using assms by (auto simp: updateAvailableBalance_def Let_def bindS_run thenS_run checkS_run readFund_run dest!: putState_updates)

lemma stateAcc_typed:
  assumes "typed (view c sm)"
  shows "stateCheckLegacy c (AccKey a) asAcc sm = (case view c sm (AccKey a) of None \<Rightarrow> Inl ErrStateNotExist
     | Some v \<Rightarrow> Inr (accBal (view c sm) a, \<not> useV2Storage c \<or> rewV2 sm (AccKey a) = None))"
  using typed_acc [OF assms] by (fastforce simp: stateCheckLegacy_view accBal_def split: option.splits)

text \<open>Moving an account to the new store: the old copy is deleted before or after the write.\<close>

lemma moveAcc_updates:
  assumes "thenS (whenS (legacy \<and> useV2Storage c) (deleteStateV1 k)) (putState c k v) sm = (Inr u, sm')"
  shows "updates c (\<lambda>V. V(k \<mapsto> v)) sm sm'"
  using assms
  by (auto simp: updates_def thenS_run whenS_run deleteStateV1_def modifyS_run putState_run view_def map_add_def fun_eq_iff
      split: if_splits option.splits)

lemma moveAcc_updates':
  assumes "thenS (putState c k v) (whenS (legacy \<and> useV2Storage c) (deleteStateV1 k)) sm = (Inr u, sm')"
  shows "updates c (\<lambda>V. V(k \<mapsto> v)) sm sm'"
  using assms
  by (auto simp: updates_def thenS_run whenS_run deleteStateV1_def modifyS_run putState_run view_def map_add_def fun_eq_iff
      split: if_splits option.splits)

lemma grantToAccount_run:
  assumes "grantToAccount c a x sm = (Inr u, sm')" "typed (view c sm)"
  shows "updates c (\<lambda>V. V(AccKey a \<mapsto> VAcc (accBal V a + x))) sm sm'"
proof (cases "view c sm (AccKey a)")
  case None
  then have "accBal (view c sm) a = 0" by (simp add: accBal_def)
  then show ?thesis using assms None
    by (auto simp: grantToAccount_def bindS_run readS_run stateAcc_typed updates_def dest!: putState_updates)
next
  case (Some v)
  then show ?thesis using assms
    by (auto simp: grantToAccount_def bindS_run readS_run stateAcc_typed updates_def dest!: moveAcc_updates)
qed

text \<open>A claim pays the account of the claimer what it takes from the reward account.\<close>

lemma claimFromAccount_run:
  assumes run: "claimFromAccount c a x sm = (Inr u, sm')" and ty: "typed (view c sm)" and wf: "wf_accounts sm" and pos: "0 \<le> x"
  shows "x \<le> accBal (view c sm) a \<and> view c sm (AccKey a) \<noteq> None \<and>
    view c sm' = (view c sm)(AccKey a \<mapsto> VAcc (accBal (view c sm) a - x)) \<and>
    (\<forall>b. balOf sm' b = balOf sm b + (if b = a then x else 0)) \<and> wf_accounts sm' \<and>
    reward_world.more sm' = reward_world.more sm \<and> smHeight sm' = smHeight sm"
proof -
  obtain v where v: "view c sm (AccKey a) = Some v"
    using run by (cases "view c sm (AccKey a)") (auto simp: claimFromAccount_def bindS_run stateAcc_typed [OF ty])
  obtain legacy s1 acc s2 acc' where
    le: "x \<le> accBal (view c sm) a" and
    mv: "thenS (putState c (AccKey a) (VAcc (accBal (view c sm) a - x))) (whenS (legacy \<and> useV2Storage c) (deleteStateV1 (AccKey a))) sm = (Inr (), s1)" and
    ld: "LoadOrCreateAccount a (creationOpts (CreateLegacyNonceAccount (fCtx c))) s1 = (Inr acc, s2)" and
    ad: "AddBalance (Some x) acc = Inr acc'" and st: "StoreAccount a acc' s2 = (Inr (), sm')"
    using run v
    by (auto simp: claimFromAccount_def bindS_run stateAcc_typed [OF ty] Let_def thenS_run checkS_run liftS_run accountCreationOpts_def)
  have u: "updates c (\<lambda>V. V(AccKey a \<mapsto> VAcc (accBal (view c sm) a - x))) sm s1" by (rule moveAcc_updates' [OF mv])
  then have wf1: "wf_accounts s1" and b1: "balOf s1 = balOf sm"
    using wf by (simp_all add: updates_def wf_accounts_def balOf_def fun_eq_iff)
  note L = LoadOrCreateAccount_run [OF wf1 ld]
  have acc': "wf_account acc'" "bal acc' = bal acc + x"
    using wf_AddBalance [OF L(1) ad] ad by (auto simp: AddBalance_Inr)
  have sm': "sm' = s2\<lparr>acctNS := (acctNS s2)(a \<mapsto> acc')\<rparr>" using st by (simp add: StoreAccount_run)
  have wf2: "wf_accounts sm'" using L(3) acc'(1) sm' by (simp add: wf_accounts_def)
  have "balOf sm' = (balOf s2)(a := bal acc')" using sm' by (auto simp: balOf_def fun_eq_iff)
  then have bal: "balOf sm' b = balOf sm b + (if b = a then x else 0)" for b
    using acc'(2) L(2,7) b1 by simp
  show ?thesis using u le v wf2 bal sm' L(5) by (simp add: updates_def)
qed

section \<open>Solvency\<close>

text \<open>What the fund holds more than it owes; it is zero in a solvent state.\<close>

definition slack :: "rstore \<Rightarrow> int" where
  "slack V = (case V FundKey of Some (VFund f) \<Rightarrow> fundTotal f - fundUnclaimed f - accSum V | _ \<Rightarrow> 0)"

definition solvent :: "rstore \<Rightarrow> bool" where
  "solvent V \<longleftrightarrow> typed V \<and> (\<exists>f. V FundKey = Some (VFund f)) \<and> slack V = 0"

lemma slack_fund: "V FundKey = Some (VFund f) \<Longrightarrow> slack V = fundTotal f - fundUnclaimed f - accSum V"
  by (simp add: slack_def)

lemma slack_upd [simp]:
  "V FundKey = Some (VFund f) \<Longrightarrow> slack (V(AccKey a \<mapsto> VAcc b)) = slack V + accBal V a - b"
  "slack (V(FundKey \<mapsto> VFund f)) = fundTotal f - fundUnclaimed f - accSum V"
  "slack (V(AdminKey \<mapsto> v)) = slack V" "slack (V(ExemptKey \<mapsto> v)) = slack V"
  "slack (V(BlockHistKey h \<mapsto> v)) = slack V" "slack (V(EpochHistKey h \<mapsto> v)) = slack V"
  by (simp_all add: slack_def split: option.splits rvalue.splits)

lemma Claim_run:
  assumes run: "Claim c x a sm = (Inr l, sm')" and ty: "typed (view c sm)" and wf: "wf_accounts sm"
  shows "0 \<le> x \<and> x \<le> accBal (view c sm) a \<and> x \<le> rewardingPool c sm \<and>
    l = \<lparr>tlType = CLAIM_FROM_REWARDING_FUND, tlSender = RewardingPoolAddr, tlRecipient = Acct a, tlAmount = x\<rparr> \<and>
    typed (view c sm') \<and> slack (view c sm') = slack (view c sm) \<and> fundReady c sm' \<and>
    accBal (view c sm') = (accBal (view c sm))(a := accBal (view c sm) a - x) \<and>
    rewardingPool c sm' = rewardingPool c sm - x \<and>
    (\<forall>b. balOf sm' b = balOf sm b + (if b = a then x else 0)) \<and> wf_accounts sm' \<and>
    reward_world.more sm' = reward_world.more sm"
proof -
  obtain s1 where x: "0 \<le> x" and t: "updateTotalBalance c x sm = (Inr (), s1)" and
    cl: "claimFromAccount c a x s1 = (Inr (), sm')" and
    l: "l = \<lparr>tlType = CLAIM_FROM_REWARDING_FUND, tlSender = RewardingPoolAddr, tlRecipient = Acct a, tlAmount = x\<rparr>"
    using run by (auto simp: Claim_def thenS_run liftS_run assertAmount_def checkR_Inr returnS_run)
  obtain f where f: "view c sm FundKey = Some (VFund f)" "0 \<le> fundTotal f - x"
    "updates c (\<lambda>V. V(FundKey \<mapsto> VFund (f\<lparr>fundTotal := fundTotal f - x\<rparr>))) sm s1"
    using updateTotalBalance_run [OF t] by blast
  then have V1: "view c s1 = (view c sm)(FundKey \<mapsto> VFund (f\<lparr>fundTotal := fundTotal f - x\<rparr>))"
    and wf1: "wf_accounts s1" and b1: "balOf s1 = balOf sm" and m1: "reward_world.more s1 = reward_world.more sm"
    using wf by (simp_all add: updates_def wf_accounts_def balOf_def fun_eq_iff)
  have "rightType FundKey (VFund f)" by (rule typedD [OF ty f(1)])
  then have ty1: "typed (view c s1)" unfolding V1 by (intro typed_upd [OF ty]) simp
  note C = claimFromAccount_run [OF cl ty1 wf1 x]
  have V: "view c sm' = (view c s1)(AccKey a \<mapsto> VAcc (accBal (view c sm) a - x))" using C V1 by simp
  have "typed (view c sm')" unfolding V using C V1 by (intro typed_upd [OF ty1]) simp
  then show ?thesis using C x l f V V1 b1 m1
    by (simp add: rewardingPool_def fundOf_def fundReady_def slack_def)
qed

text \<open>
  The granting steps: each takes from the unclaimed balance or adds to accounts, and the slack
  tells the difference.
\<close>

definition granted :: "ctx \<Rightarrow> int \<Rightarrow> 'a reward_world_scheme \<Rightarrow> 'a reward_world_scheme \<Rightarrow> bool" where
  "granted c x sm sm' \<longleftrightarrow> typed (view c sm') \<and> accSum (view c sm') = accSum (view c sm) + x \<and>
     (\<forall>a. accBal (view c sm) a \<le> accBal (view c sm') a) \<and>
     (\<forall>k. (\<forall>a. k \<noteq> AccKey a) \<longrightarrow> view c sm' k = view c sm k) \<and>
     acctNS sm' = acctNS sm \<and> reward_world.more sm' = reward_world.more sm \<and> smHeight sm' = smHeight sm"

lemma granted_refl: "typed (view c sm) \<Longrightarrow> granted c 0 sm sm"
  by (simp add: granted_def)

lemma granted_trans: "granted c x sm sm1 \<Longrightarrow> granted c y sm1 sm2 \<Longrightarrow> granted c (x + y) sm sm2"
  by (auto simp: granted_def) (meson order_trans)

lemma grant_granted:
  assumes "grantToAccount c a x sm = (Inr u, sm')" "typed (view c sm)" "0 \<le> x"
  shows "granted c x sm sm'"
  using grantToAccount_run [OF assms(1,2)] typed_accBal [OF assms(2), of a] assms(2,3)
  by (auto simp: granted_def updates_def intro!: typed_upd)

lemma grantShares_granted:
  assumes "grantShares env c l tot logs sm = (Inr (tot', logs'), sm')" "typed (view c sm)" "\<And>a x. (a, x) \<in> set l \<Longrightarrow> 0 \<le> x"
  shows "granted c (tot' - tot) sm sm' \<and> tot' - tot \<le> (\<Sum>(a, x)\<leftarrow>l. x) \<and> tot \<le> tot'"
  using assms
proof (induction env c l tot logs arbitrary: sm rule: grantShares.induct)
  case (2 env c x l tot logs)
  have "0 \<le> x" using 2(4) [of None x] by simp
  with 2(1) [of sm] 2(2-4) show ?case by fastforce
next
  case (3 env c a x l tot logs)
  show ?case
  proof (cases "x = 0")
    case False
    then obtain s1 where g: "grantToAccount c a x sm = (Inr (), s1)" and
      r: "grantShares env c l (tot + x) (logs @ [\<lparr>rlType = EPOCH_REWARD, rlAddr = addrString env a, rlAmount = x\<rparr>]) s1 = (Inr (tot', logs'), sm')"
      using 3(3) by (auto simp: thenS_run)
    have x: "0 \<le> x" using 3(5) by auto
    have g1: "granted c x sm s1" by (rule grant_granted [OF g 3(4) x])
    then have "typed (view c s1)" by (simp add: granted_def)
    from 3(2) [OF False r this] 3(5) granted_trans [OF g1] x show ?thesis by fastforce
  qed (use 3 in auto)
qed (auto simp: returnS_run intro: granted_refl)

lemma unat_Suc_minus: "n < m \<Longrightarrow> unat (m - n) = Suc (unat (m - (n + 1)))"
  for m n :: u64
proof -
  assume lt: "n < m"
  have e: "m - (n + 1) = m - n - 1" by (simp add: algebra_simps)
  have nz: "m - n \<noteq> 0" using lt by simp
  moreover have "0 < unat (m - n)" using nz by (simp add: unat_gt_0)
  ultimately show ?thesis using unat_minus_one [of "m - n"] unfolding e by simp
qed

lemma grantBonus_granted:
  assumes "grantBonus env c a ex ds n tot logs sm = (Inr (tot', logs'), sm')" "typed (view c sm)" "0 \<le> foundationBonus a"
  shows "granted c (tot' - tot) sm sm' \<and> tot \<le> tot' \<and> tot' - tot \<le> int (unat (numDelegatesForFoundationBonus a - n)) * foundationBonus a"
  using assms
proof (induction env c a ex ds n tot logs arbitrary: sm rule: grantBonus.induct)
  case (2 env c a ex d ds n tot logs)
  let ?k = "\<lambda>n. int (unat (numDelegatesForFoundationBonus a - n)) * foundationBonus a"
  show ?case
  proof (cases "n < numDelegatesForFoundationBonus a")
    case lt: True
    have "unat (numDelegatesForFoundationBonus a - n) = Suc (unat (numDelegatesForFoundationBonus a - (n + 1)))"
      using unat_Suc_minus [OF lt] by simp
    then have k: "?k n = ?k (n + 1) + foundationBonus a" by (simp add: algebra_simps)
    consider (skip) "scAddress d \<in> set ex \<or> scVotes d = 0" | (noAddr) "scAddress d \<notin> set ex" "scVotes d \<noteq> 0" "scRewardAddress d = []"
      | (pay) "scAddress d \<notin> set ex" "scVotes d \<noteq> 0" "scRewardAddress d \<noteq> []" by blast
    then show ?thesis
    proof cases
      case skip
      then show ?thesis using 2 lt by (auto split: if_splits)
    next
      case noAddr
      then show ?thesis using 2(3) [of sm] 2(5-7) lt k by auto
    next
      case pay
      then obtain ra s1 where "FromString env (scRewardAddress d) = Inr ra"
        and g: "grantToAccount c ra (foundationBonus a) sm = (Inr (), s1)"
        and r: "grantBonus env c a ex ds (n + 1) (tot + foundationBonus a) (logs @ [\<lparr>rlType = FOUNDATION_BONUS,
            rlAddr = scRewardAddress d, rlAmount = foundationBonus a\<rparr>]) s1 = (Inr (tot', logs'), sm')"
        using 2(5) lt by (auto simp: bindS_run liftS_run thenS_run)
      have g1: "granted c (foundationBonus a) sm s1" by (rule grant_granted [OF g 2(6,7)])
      then have "typed (view c s1)" by (simp add: granted_def)
      from 2(4) [OF _ _ _ _ r this 2(7)] pay lt granted_trans [OF g1] k 2(7) show ?thesis by fastforce
    qed
  next
    case False
    then show ?thesis using 2(5-7) by (auto simp: returnS_run intro: granted_refl)
  qed
qed (auto simp: returnS_run intro: granted_refl)

section \<open>Splitting the epoch reward\<close>

lemma sum_div_le:
  fixes t w :: int
  assumes "0 < w"
  shows "(\<Sum>v\<leftarrow>vs. t * v div w) * w \<le> t * (\<Sum>v\<leftarrow>vs. v)"
proof (induction vs)
  case (Cons v vs)
  have "t * v div w * w \<le> t * v" using assms by (simp flip: minus_mod_eq_div_mult)
  with Cons show ?case by (simp add: algebra_simps)
qed simp

lemma shares_le:
  assumes "0 \<le> t" "\<And>d. d \<in> set ds \<Longrightarrow> 0 \<le> scVotes d"
  shows "(\<Sum>d\<leftarrow>ds. shareOf t (\<Sum>d\<leftarrow>ds. scVotes d) uqd d) \<le> t" "d \<in> set ds \<Longrightarrow> 0 \<le> shareOf t (\<Sum>d\<leftarrow>ds. scVotes d) uqd d"
proof -
  let ?w = "\<Sum>d\<leftarrow>ds. scVotes d"
  have w: "0 \<le> ?w" using assms(2) by (auto intro!: sum_list_nonneg)
  show "d \<in> set ds \<Longrightarrow> 0 \<le> shareOf t ?w uqd d"
    using assms w by (auto simp: shareOf_def big_Div_def pos_imp_zdiv_nonneg_iff)
  show "(\<Sum>d\<leftarrow>ds. shareOf t ?w uqd d) \<le> t"
  proof (cases "?w = 0")
    case True
    then show ?thesis using assms(1) by (simp add: shareOf_def)
  next
    case False
    then have pos: "0 < ?w" using w by simp
    have "(\<Sum>d\<leftarrow>ds. shareOf t ?w uqd d) \<le> (\<Sum>d\<leftarrow>ds. t * scVotes d div ?w)"
      using assms pos by (intro sum_list_mono) (auto simp: shareOf_def pos_imp_zdiv_nonneg_iff)
    also have "\<dots> = (\<Sum>v\<leftarrow>map scVotes ds. t * v div ?w)" by (simp add: o_def)
    finally have le: "(\<Sum>d\<leftarrow>ds. shareOf t ?w uqd d) \<le> (\<Sum>v\<leftarrow>map scVotes ds. t * v div ?w)" .
    have "(\<Sum>v\<leftarrow>map scVotes ds. t * v div ?w) * ?w \<le> t * ?w"
      using sum_div_le [OF pos, of t "map scVotes ds"] by (simp add: o_def)
    then have "(\<Sum>v\<leftarrow>map scVotes ds. t * v div ?w) \<le> t" using pos by simp
    with le show ?thesis by linarith
  qed
qed

lemma parseRewards_length: "parseRewards env ds = Inr l \<Longrightarrow> length l = length ds"
  by (induction ds arbitrary: l) (auto simp: bindR_Inr)

text \<open>The candidates that share a reward: the exempt ones are left out, the rest cut to the limit.\<close>

definition sharers :: "state_candidate list \<Rightarrow> u64 \<Rightarrow> string list \<Rightarrow> state_candidate list" where
  "sharers ds n ex = take (unat n) (filter (\<lambda>d. scAddress d \<notin> set ex) ds)"

lemma splitEpochReward_Inr:
  assumes "splitEpochReward env ds t n ex uqd = Inr (addrs, amounts)"
  shows "length addrs = length amounts \<and>
    amounts = map (shareOf t (\<Sum>d\<leftarrow>sharers ds n ex. scVotes d) uqd) (sharers ds n ex)"
  using assms by (auto simp: splitEpochReward_def Let_def sharers_def bindR_Inr dest: parseRewards_length split: if_splits)

section \<open>Grants\<close>

text \<open>
  What a grant leaves: the total of the fund and all accounts of the ledger are as before, no
  reward account lost anything, and \<open>d\<close> is what the fund has more than it accounts for.
\<close>

definition rewarded :: "ctx \<Rightarrow> int \<Rightarrow> 'a reward_world_scheme \<Rightarrow> 'a reward_world_scheme \<Rightarrow> bool" where
  "rewarded c d sm sm' \<longleftrightarrow> typed (view c sm') \<and> fundReady c sm' \<and> slack (view c sm') = slack (view c sm) + d \<and>
     rewardingPool c sm' = rewardingPool c sm \<and> (\<forall>a. accBal (view c sm) a \<le> accBal (view c sm') a) \<and>
     (\<forall>k. (\<forall>a. k \<noteq> AccKey a) \<longrightarrow> k \<noteq> FundKey \<longrightarrow> view c sm k \<noteq> None \<longrightarrow> view c sm' k = view c sm k) \<and>
     acctNS sm' = acctNS sm \<and> smHeight sm' = smHeight sm"

lemma granted_fund: "granted c x sm sm' \<Longrightarrow> view c sm' FundKey = view c sm FundKey"
  by (simp add: granted_def)

lemma granted_slack: "granted c x sm sm' \<Longrightarrow> view c sm FundKey = Some (VFund f) \<Longrightarrow> slack (view c sm') = slack (view c sm) - x"
  using granted_fund [of c x sm sm'] by (simp add: granted_def slack_fund)

lemma assertNoRewardYet_run:
  "assertNoRewardYet c k sm = (Inr u, sm') \<longleftrightarrow> view c sm k = None \<and> sm' = sm"
  by (auto simp: assertNoRewardYet_def state_view asHist_def split: option.splits)

lemma readAdmin_run: "readAdmin c sm = (Inr a, sm') \<longleftrightarrow> view c sm AdminKey = Some (VAdmin a) \<and> sm' = sm"
proof -
  have "asAdmin v = Inr a \<longleftrightarrow> v = VAdmin a" for v by (cases v) auto
  then show ?thesis by (auto simp: readAdmin_def state_view split: option.splits)
qed

text \<open>Taking \<open>x\<close> from the unclaimed balance and entering the history.\<close>

lemma settle_fund:
  assumes ty: "typed (view c sm)" and up: "updateAvailableBalance c x sm = (Inr u, s1)"
    and hist: "updateRewardHistory c k s1 = (Inr v, sm')" "k = BlockHistKey h \<or> k = EpochHistKey h" "view c sm k = None"
  shows "rewarded c x sm sm' \<and> view c sm' k = Some VHist \<and> reward_world.more sm' = reward_world.more sm"
proof -
  obtain f where f: "view c sm FundKey = Some (VFund f)" "0 \<le> fundUnclaimed f - x"
    "updates c (\<lambda>V. V(FundKey \<mapsto> VFund (f\<lparr>fundUnclaimed := fundUnclaimed f - x\<rparr>))) sm s1"
    using updateAvailableBalance_run [OF up] by blast
  have u: "updates c (\<lambda>V. V(k \<mapsto> VHist)) s1 sm'"
    using hist(1) unfolding updateRewardHistory_def by (rule putState_updates)
  have V: "view c sm' = (view c sm)(FundKey \<mapsto> VFund (f\<lparr>fundUnclaimed := fundUnclaimed f - x\<rparr>), k \<mapsto> VHist)"
    using f(3) u by (simp add: updates_def)
  have "typed (view c sm')" unfolding V using hist(2) f(2) by (intro typed_upd [OF typed_upd [OF ty]]) auto
  then show ?thesis using f u V hist(2,3)
    by (auto simp: rewarded_def fundReady_def rewardingPool_def fundOf_def updates_def slack_fund)
qed

lemma rewarded_granted:
  assumes "granted c x sm s1" "rewarded c d s1 sm'" "fundReady c sm"
  shows "rewarded c (d - x) sm sm'"
proof -
  obtain f where f: "view c sm FundKey = Some (VFund f)" using assms(3) by (auto simp: fundReady_def)
  have "rewardingPool c s1 = rewardingPool c sm" using granted_fund [OF assms(1)] by (simp add: rewardingPool_def fundOf_def)
  then show ?thesis using assms(1,2) granted_slack [OF assms(1) f]
    by (auto simp: rewarded_def granted_def) (meson order_trans)
qed

lemma GrantBlockReward_run:
  assumes run: "GrantBlockReward env c sm = (Inr logs, sm')" and ty: "typed (view c sm)" and ready: "fundReady c sm"
  shows "view c sm (BlockHistKey (BlockHeight c)) = None \<and> rewarded c 0 sm sm' \<and>
    reward_world.more sm' = reward_world.more sm \<and>
    (if logs = [] then sm' = sm else view c sm' (BlockHistKey (BlockHeight c)) = Some VHist \<and>
      (\<exists>a ad. FromString env (rlAddr (hd logs)) = Inr a \<and> view c sm AdminKey = Some (VAdmin ad) \<and>
        accBal (view c sm') a = accBal (view c sm) a + (\<Sum>l\<leftarrow>logs. rlAmount l) \<and> rlAmount (hd logs) = blockReward ad))"
proof -
  have none: "view c sm (BlockHistKey (BlockHeight c)) = None"
    using run by (auto simp: GrantBlockReward_def thenS_run assertNoRewardYet_run)
  show ?thesis
  proof (cases "logs = []")
    case True
    then have "sm' = sm"
      using run by (auto simp: GrantBlockReward_def thenS_run bindS_run assertNoRewardYet_run liftS_run returnS_run split: if_splits)
    moreover have "rewarded c 0 sm sm" using ty ready by (simp add: rewarded_def)
    ultimately show ?thesis using none True by simp
  next
    case False
    obtain str a ad tip s1 s2 where
      a: "FromString env str = Inr a" and ad: "view c sm AdminKey = Some (VAdmin ad)" and
      tip: "tip = (if EnableDynamicFeeTx (fCtx c) \<and> AccumulatedTips c > 0 then AccumulatedTips c else 0)" and
      up: "updateAvailableBalance c (blockReward ad + tip) sm = (Inr (), s1)" and
      gr: "grantToAccount c a (blockReward ad + tip) s1 = (Inr (), s2)" and
      hi: "updateRewardHistory c (BlockHistKey (BlockHeight c)) s2 = (Inr (), sm')" and
      logs: "logs = \<lparr>rlType = BLOCK_REWARD, rlAddr = str, rlAmount = blockReward ad\<rparr> #
         (if EnableDynamicFeeTx (fCtx c) \<and> tip \<noteq> 0 then [\<lparr>rlType = PRIORITY_BONUS, rlAddr = str, rlAmount = tip\<rparr>] else [])"
      using run False
      by (auto simp: GrantBlockReward_def calculateTotalRewardAndTip_def Let_def thenS_run bindS_run assertNoRewardYet_run
          liftS_run returnS_run readAdmin_run split: if_splits)
    have pos: "0 \<le> blockReward ad + tip" using typedD [OF ty ad] tip by simp
    obtain f where f: "view c sm FundKey = Some (VFund f)" "0 \<le> fundUnclaimed f - (blockReward ad + tip)"
      "updates c (\<lambda>V. V(FundKey \<mapsto> VFund (f\<lparr>fundUnclaimed := fundUnclaimed f - (blockReward ad + tip)\<rparr>))) sm s1"
      using updateAvailableBalance_run [OF up] by blast
    then have V1: "view c s1 = (view c sm)(FundKey \<mapsto> VFund (f\<lparr>fundUnclaimed := fundUnclaimed f - (blockReward ad + tip)\<rparr>))"
      by (simp add: updates_def)
    have ty1: "typed (view c s1)" unfolding V1 using f(2) by (intro typed_upd [OF ty]) simp
    note G = grantToAccount_run [OF gr ty1] putState_updates [OF hi [unfolded updateRewardHistory_def]]
    have V: "view c sm' = (view c s1)(AccKey a \<mapsto> VAcc (accBal (view c sm) a + (blockReward ad + tip)), BlockHistKey (BlockHeight c) \<mapsto> VHist)"
      using G V1 by (simp add: updates_def)
    have "typed (view c sm')" unfolding V using typed_accBal [OF ty, of a] pos by (intro typed_upd ty1) auto
    then have "rewarded c 0 sm sm'"
      using V V1 f(1,3) G pos none by (auto simp: rewarded_def fundReady_def slack_def updates_def rewardingPool_def fundOf_def)
    moreover have "(\<Sum>l\<leftarrow>logs. rlAmount l) = blockReward ad + tip" using logs tip by auto
    ultimately show ?thesis using none False a ad logs V V1 f(3) G by (auto simp: updates_def)
  qed
qed

section \<open>Slashing\<close>

text \<open>The holdings are those of \<open>sm0\<close>, except for \<open>x\<close> taken from the bucket pool.\<close>

definition slashed :: "int \<Rightarrow> 'a staking_world_scheme \<Rightarrow> 'a staking_world_scheme \<Rightarrow> bool" where
  "slashed x sm0 sm \<longleftrightarrow> acctNS sm = acctNS sm0 \<and> rewV1 sm = rewV1 sm0 \<and> rewV2 sm = rewV2 sm0 \<and>
     stakingPool sm = stakingPool sm0 - x \<and> smHeight sm = smHeight sm0"

abbreviation unslashed :: "'a staking_world_scheme \<Rightarrow> 'a staking_world_scheme \<Rightarrow> bool" where
  "unslashed \<equiv> slashed 0"

lemma slashed_trans: "slashed x sm sm1 \<Longrightarrow> slashed y sm1 sm2 \<Longrightarrow> slashed (x + y) sm sm2"
  by (simp add: slashed_def)

lemma unslashed_onStk: "keepsPool m \<Longrightarrow> preserves (unslashed sm0) (onStk m)"
proof -
  assume "keepsPool m"
  then have "bucketPool s' = bucketPool s" if "m s = (r, s')" for s r s'
    using that by (auto simp: keepsPool_def preserves_def) (metis snd_conv)
  then show ?thesis by (auto simp: preserves_def onStk_def slashed_def stakingPool_def split: prod.splits)
qed

lemma triple_CreditPool: "triple (unslashed sm0) (onStk (CreditPool x False)) (\<lambda>_. slashed x sm0) (\<lambda>_. unslashed sm0)"
  by (auto simp: triple_def onStk_def slashed_def stakingPool_def dest: CreditPool_run CreditPool_fail split: prod.splits sum.splits)

lemma triple_bindStk_read: "(\<And>x. triple K (k x) Q E) \<Longrightarrow> (\<And>e s. K s \<Longrightarrow> E e s) \<Longrightarrow> triple K (bindStk f k) Q E"
  unfolding bindStk_def by (rule triple_keep_bind) (auto simp: preserves_def)

lemma SlashCandidate_triple:
  "triple (unslashed sm0) (SlashCandidate p c a (Some x)) (\<lambda>_. slashed x sm0) (\<lambda>_. unslashed sm0)"
  unfolding SlashCandidate_def Let_def option.case
  by (intro triple_keep_then triple_bindStk_read triple_keep_bind triple_CreditPool preserves_intros unslashed_onStk) simp_all

lemma slashDelegate_run:
  assumes "slashDelegate env p c d x sm = (r, sm')"
  shows "slashed (if isl r then 0 else x) sm sm'"
proof -
  have "triple (unslashed sm) (slashDelegate env p c d x) (\<lambda>_. slashed x sm) (\<lambda>_. unslashed sm)"
    unfolding slashDelegate_def
    by (intro triple_keep_bind preserves_intros triple_thenS [OF SlashCandidate_triple] triple_returnS) auto
  then show ?thesis using assms by (cases r) (auto simp: triple_def slashed_def)
qed

lemma slashAll_run:
  assumes "slashAll env p c rate uqd sn ds tot logs sm = (Inr (tot', logs'), sm')"
  shows "slashed (tot' - tot) sm sm'"
  using assms
proof (induction ds arbitrary: tot logs sm)
  case Nil
  then show ?case by (simp add: returnS_run slashed_def)
next
  case (Cons d ds)
  consider (skip) "uqd (scAddress d) = None \<or> uqd (scAddress d) = Some 0" | (hit) m where "uqd (scAddress d) = Some m" "m \<noteq> 0"
    by (cases "uqd (scAddress d)") auto
  then show ?case
  proof cases
    case skip
    then show ?thesis using Cons by auto
  next
    case (hit m)
    obtain r s1 where sd: "slashDelegate env p c d (rate * uint m) sm = (r, s1)" by fastforce
    show ?thesis
    proof (cases r)
      case (Inl e)
      then have "slashAll env p c rate uqd sn ds tot logs s1 = (Inr (tot', logs'), sm')"
        using Cons.prems hit sd by (auto simp: Let_def thenS_run failS_run split: if_splits)
      then show ?thesis using Cons.IH slashed_trans [OF slashDelegate_run [OF sd]] Inl by fastforce
    next
      case (Inr l)
      then have "slashAll env p c rate uqd sn ds (tot + rate * uint m) (logs @ [l]) s1 = (Inr (tot', logs'), sm')"
        using Cons.prems hit sd by (simp add: Let_def)
      then have "slashed (tot' - (tot + rate * uint m)) s1 sm'" by (rule Cons.IH)
      then show ?thesis using slashed_trans [OF slashDelegate_run [OF sd]] Inr by fastforce
    qed
  qed
qed

lemma slashStep_run:
  assumes "slashStep env c ds rate uqd sm = (Inr (x, tLogs, logs), sm')"
  shows "slashed x sm sm' \<and> tLogs = (if x > 0 then [\<lparr>tlType = DEPOSIT_TO_REWARDING_FUND, tlSender = StakingBucketPoolAddr,
      tlRecipient = RewardingPoolAddr, tlAmount = x\<rparr>] else []) \<and> (NotSlashUnproductiveDelegates (fCtx c) \<longrightarrow> x = 0 \<and> sm' = sm)"
proof (cases "NotSlashUnproductiveDelegates (fCtx c)")
  case True
  then show ?thesis using assms by (auto simp: slashStep_def returnS_run slashed_def)
next
  case False
  then obtain p sn s where v: "viewSnapshot (stk sm) = (Inr sn, s)"
    and sl: "slashAll env p c rate uqd sn ds 0 [] (sm\<lparr>stk := s\<rparr>) = (Inr (x, logs), sm')"
    and tl: "tLogs = (if x > 0 then [\<lparr>tlType = DEPOSIT_TO_REWARDING_FUND, tlSender = StakingBucketPoolAddr,
      tlRecipient = RewardingPoolAddr, tlAmount = x\<rparr>] else [])"
    using assms by (auto simp: slashStep_def slashUqd_def bindS_run returnS_run onStk_run failS_run split: option.splits)
  have "slashed 0 sm (sm\<lparr>stk := s\<rparr>)"
    using v by (auto simp: viewSnapshot_def op_defs slashed_def stakingPool_def)
  from slashed_trans [OF this] slashAll_run [OF sl] show ?thesis using tl False by simp
qed

section \<open>The epoch reward\<close>

lemma slashed_view: "slashed x sm sm' \<Longrightarrow> view c sm' = view c sm"
  by (simp add: slashed_def view_def)

lemma more_stakingPool: "reward_world.more sm' = reward_world.more sm \<Longrightarrow> stakingPool sm' = stakingPool sm"
  using stk_more [of sm' sm] by (simp add: stakingPool_def)

text \<open>
  \<open>x\<close> is what is slashed and \<open>g\<close> what is granted: the accounts are owed \<open>g\<close> more, the unclaimed
  balance changes by \<open>x - g\<close>, the bucket pool loses \<open>x\<close>, and the total of the fund stays.
\<close>

definition epochGranted ::
  "RewardEnv \<Rightarrow> ctx \<Rightarrow> int \<Rightarrow> int \<Rightarrow> u64 \<Rightarrow> TransactionLog list \<Rightarrow> 'a staking_world_scheme \<Rightarrow> 'a staking_world_scheme \<Rightarrow> bool" where
  "epochGranted env c x g e tLogs sm sm' \<longleftrightarrow>
     view c sm (EpochHistKey e) = None \<and> view c sm' (EpochHistKey e) = Some VHist \<and>
     rewarded c (- x) sm sm' \<and> accSum (view c sm') = accSum (view c sm) + g \<and> stakingPool sm' = stakingPool sm - x \<and>
     (NotSlashUnproductiveDelegates (fCtx c) \<longrightarrow> x = 0) \<and>
     tLogs = (if x > 0 then [\<lparr>tlType = DEPOSIT_TO_REWARDING_FUND, tlSender = StakingBucketPoolAddr,
       tlRecipient = RewardingPoolAddr, tlAmount = x\<rparr>] else []) \<and>
     (\<forall>a. view c sm AdminKey = Some (VAdmin a) \<longrightarrow>
       g \<le> epochReward a + int (unat (numDelegatesForFoundationBonus a)) * foundationBonus a)"

lemma grants_run:
  assumes sp: "splitEpochReward env ds (epochReward a) n ex uqd = Inr (addrs, amounts)"
    and sh: "grantShares env c (zip addrs amounts) t0 l0 s1 = (Inr (t1, l1), s2)"
    and bo: "(if b then grantBonus env c a ex ds 0 t1 l1 else returnS (t1, l1)) s2 = (Inr (t2, l2), s3)"
    and ty: "typed (view c s1)" and a: "rightType AdminKey (VAdmin a)" and votes: "\<And>d. d \<in> set ds \<Longrightarrow> 0 \<le> scVotes d"
  shows "granted c (t2 - t0) s1 s3 \<and> t2 - t0 \<le> epochReward a + int (unat (numDelegatesForFoundationBonus a)) * foundationBonus a"
proof -
  let ?ds = "sharers ds n ex" and ?w = "\<Sum>d\<leftarrow>sharers ds n ex. scVotes d"
  have a': "0 \<le> epochReward a" "0 \<le> foundationBonus a" using a by auto
  have v: "0 \<le> scVotes d" if "d \<in> set ?ds" for d
    using that votes by (auto simp: sharers_def dest!: in_set_takeD)
  have am: "amounts = map (shareOf (epochReward a) ?w uqd) ?ds" "length addrs = length amounts"
    using splitEpochReward_Inr [OF sp] by auto
  have pos: "0 \<le> x" if "(r, x) \<in> set (zip addrs amounts)" for r x
    using that shares_le(2) [OF a'(1) v] am by (auto dest!: set_zip_rightD)
  have "(\<Sum>(r, x)\<leftarrow>zip addrs amounts. x) = sum_list amounts"
    using am(2) by (induction addrs amounts rule: list_induct2) auto
  also have "\<dots> \<le> epochReward a" using shares_le(1) [OF a'(1) v] am(1) by simp
  finally have le: "(\<Sum>(r, x)\<leftarrow>zip addrs amounts. x) \<le> epochReward a" .
  have S: "granted c (t1 - t0) s1 s2 \<and> t1 - t0 \<le> (\<Sum>(r, x)\<leftarrow>zip addrs amounts. x) \<and> t0 \<le> t1"
    by (rule grantShares_granted [OF sh ty]) (rule pos)
  have ty2: "typed (view c s2)" using S by (simp add: granted_def)
  have B: "granted c (t2 - t1) s2 s3 \<and> t2 - t1 \<le> int (unat (numDelegatesForFoundationBonus a)) * foundationBonus a"
    using bo grantBonus_granted [of env c a ex ds 0 t1 l1 s2 t2 l2 s3] ty2 a'(2) granted_refl [OF ty2]
    by (auto simp: returnS_run split: if_splits)
  show ?thesis using granted_trans [of c "t1 - t0" s1 s2 "t2 - t1" s3] S B le by auto
qed

lemma if_lift_run:
  "(if b then liftS r else returnS y) s = (Inr z, s') \<longleftrightarrow> (if b then r = Inr z else z = y) \<and> s' = s"
  by (auto simp: liftS_run returnS_run)

lemma GrantEpochReward_run:
  assumes run: "GrantEpochReward cfg env c sm = (Inr (tLogs, logs), sm')" and ty: "typed (view c sm)" and ready: "fundReady c sm"
    and votes: "\<And>ds d. pollCandidates env = Some (Inr ds) \<Longrightarrow> d \<in> set ds \<Longrightarrow> 0 \<le> scVotes d"
  shows "\<exists>x g e rp. rolldpos env = Some rp \<and> GetEpochNum rp (BlockHeight c) = Inr e \<and>
    GetEpochLastBlockHeight rp e = Inr (BlockHeight c) \<and> epochGranted env c x g e tLogs sm sm'"
proof -
  obtain rp ds e a ex uqd x sl s1 n exs uq addrs amounts t1 l1 s2 t2 s3 s4 b where
    rp: "rolldpos env = Some rp" and poll: "pollCandidates env = Some (Inr ds)" and
    e: "GetEpochNum rp (BlockHeight c) = Inr e" "view c sm (EpochHistKey e) = None" and
    last: "GetEpochLastBlockHeight rp e = Inr (BlockHeight c)" and a: "view c sm AdminKey = Some (VAdmin a)" and
    slash: "slashStep env c ds (blockReward a) uqd sm = (Inr (x, tLogs, sl), s1)" and
    sp: "splitEpochReward env ds (epochReward a) n exs uq = Inr (addrs, amounts)" and
    sh: "grantShares env c (zip addrs amounts) (0 - x) sl s1 = (Inr (t1, l1), s2)" and
    bo: "(if b then grantBonus env c a exs ds 0 t1 l1 else returnS (t1, l1)) s2 = (Inr (t2, logs), s3)" and
    up: "updateAvailableBalance c t2 s3 = (Inr (), s4)" and hi: "updateRewardHistory c (EpochHistKey e) s4 = (Inr (), sm')"
    using run
    by (clarsimp simp: GrantEpochReward_def bindS_run thenS_run liftS_run must_def assertNoRewardYet_run readAdmin_run
        assertLastBlockInEpoch_def bindR_Inr checkR_Inr Let_def returnS_run if_lift_run split: option.splits)
  note sl = slashStep_run [OF slash]
  have V1: "view c s1 = view c sm" using sl slashed_view by blast
  have ty1: "typed (view c s1)" and ready1: "fundReady c s1" using ty ready by (simp_all add: V1 fundReady_def)
  have ad: "rightType AdminKey (VAdmin a)" by (rule typedD [OF ty a])
  note G = grants_run [OF sp sh bo ty1 ad votes [OF poll]]
  have ty3: "typed (view c s3)" and V3: "view c s3 (EpochHistKey e) = None" using G V1 e(2) by (auto simp: granted_def)
  note F = settle_fund [OF ty3 up hi _ V3, of e]
  have rw: "rewarded c (t2 - (t2 - (0 - x))) s1 sm'"
    using rewarded_granted [of c "t2 - (0 - x)" s1 s3 t2 sm'] G F ready1 by simp
  have "reward_world.more sm' = reward_world.more s1" using F G by (simp add: granted_def)
  then have "stakingPool sm' = stakingPool sm - x" using sl more_stakingPool [of sm' s1] by (simp add: slashed_def)
  moreover have "accSum (view c sm') = accSum (view c s3)"
    using F ty3 updateAvailableBalance_run [OF up] hi [unfolded updateRewardHistory_def, THEN putState_updates] by (auto simp: updates_def)
  moreover have "rewarded c (- x) sm sm'"
    using rw sl by (simp add: rewarded_def V1 slashed_def rewardingPool_def fundOf_def)
  ultimately have "epochGranted env c x (t2 + x) e tLogs sm sm'"
    using sl G F a e(2) V1 by (auto simp: epochGranted_def granted_def)
  then show ?thesis using rp e(1) last by blast
qed

end
