(* ===== verification/RewardHandling.thy ===== *)
theory RewardHandling
  imports RewardLedger StakingView CandidateCodec
begin

text \<open>
  The rewarding protocol as a whole: what \<^verbatim>\<open>Handle\<close> of
  \<^verbatim>\<open>action/protocol/rewarding/protocol.go\<close> keeps for every action and every receipt, that an
  owed reward can be claimed, that a block or an epoch is rewarded once, and what slashing does to
  the fund.
\<close>

section \<open>Deposits and settlement keep the fund solvent\<close>

definition money :: "ctx \<Rightarrow> 'a reward_world_scheme \<Rightarrow> int" where
  "money c sm = totalBalance sm + rewardingPool c sm"

text \<open>
  A step that keeps the fund accounted for, the supply, and the reward accounts except that it adds
  \<open>w\<close> to them.
\<close>

definition keeps :: "ctx \<Rightarrow> (addr \<Rightarrow> int) \<Rightarrow> 'a reward_world_scheme \<Rightarrow> 'a reward_world_scheme \<Rightarrow> bool" where
  "keeps c w sm sm' \<longleftrightarrow> solvent (view c sm') \<and> wf_accounts sm' \<and> money c sm' = money c sm \<and>
     (\<forall>a. accBal (view c sm') a = accBal (view c sm) a + w a)"

lemma keeps_trans: "keeps c w sm sm1 \<Longrightarrow> keeps c (\<lambda>_. 0) sm1 sm2 \<Longrightarrow> keeps c w sm sm2"
  by (simp add: keeps_def)

lemma keeps_refl: "solvent (view c sm) \<Longrightarrow> wf_accounts sm \<Longrightarrow> keeps c (\<lambda>_. 0) sm sm"
  by (simp add: keeps_def)

lemma totalBalance_shift:
  assumes "wf_accounts sm" "wf_accounts sm'" "\<And>b. balOf sm' b = balOf sm b + (if b = a then x else 0)"
  shows "totalBalance sm' = totalBalance sm + x"
  using assms by (simp add: totalBalance_sum wf_accounts_def sum.distrib)

lemma deposited_keeps:
  assumes d: "deposited c x logs sm sm'" "0 \<le> x" and s: "solvent (view c sm)" and wf: "wf_accounts sm"
  shows "keeps c (\<lambda>_. 0) sm sm'"
proof -
  obtain f where f: "view c sm FundKey = Some (VFund f)" using s by (auto simp: solvent_def)
  obtain f' where f': "view c sm' FundKey = Some (VFund f')" using d(1) f by (auto simp: deposited_def fundReady_def)
  have e: "fundTotal f' = fundTotal f + x" "fundUnclaimed f' = fundUnclaimed f + x"
    using d(1) f f' by (auto simp: deposited_def rewardingPool_def fundOf_def)
  have V: "view c sm' = (view c sm)(FundKey \<mapsto> VFund f')"
    using d(1) f' by (auto simp: deposited_def fun_eq_iff)
  have "0 \<le> fundUnclaimed f" using typedD [of "view c sm" FundKey "VFund f"] s f by (simp add: solvent_def)
  then have "typed (view c sm')" unfolding V using s e d(2) by (intro typed_upd) (auto simp: solvent_def)
  moreover have "slack (view c sm') = 0" using s f e by (simp add: V solvent_def slack_fund)
  moreover have "totalBalance sm' = totalBalance sm + - x"
    by (rule totalBalance_shift [OF wf]) (use d(1) in \<open>auto simp: deposited_def\<close>)
  ultimately show ?thesis using d(1) f' V by (auto simp: keeps_def solvent_def deposited_def money_def)
qed

lemma Deposit_keeps:
  "Deposit c amount t sm = (Inr logs, sm') \<Longrightarrow> solvent (view c sm) \<Longrightarrow> wf_accounts sm \<Longrightarrow> keeps c (\<lambda>_. 0) sm sm'"
  using Deposit_run [of sm c amount t logs sm'] deposited_keeps by blast

lemma DepositGas_keeps:
  assumes run: "DepositGas True c amount cfg sm = (Inr logs, sm')" and s: "solvent (view c sm)" "wf_accounts sm"
  shows "keeps c (\<lambda>_. 0) sm sm'"
proof (cases "BlockHeight c = 0")
  case True
  then show ?thesis using run s by (simp add: DepositGas_def returnS_run keeps_refl)
next
  case False
  have step: "keeps c (\<lambda>_. 0) s0 s1"
    if "(if isZero a then returnS [] else Deposit c a t) s0 = (Inr l, s1)" "solvent (view c s0)" "wf_accounts s0" for a t s0 s1 l
    using that Deposit_keeps by (auto simp: returnS_run keeps_refl split: if_splits)
  obtain l1 s1 l2 s2 l3 where r:
    "(if isZero (Some amount) then returnS [] else Deposit c (Some amount) GAS_FEE) sm = (Inr l1, s1)"
    "(if isZero (PriorityFee cfg) then returnS [] else Deposit c (PriorityFee cfg) PRIORITY_FEE) s1 = (Inr l2, s2)"
    "(if isZero (BlobGasFee cfg) then returnS [] else Deposit c (BlobGasFee cfg) BLOB_FEE) s2 = (Inr l3, sm')"
    using run False by (auto simp: DepositGas_def bindS_run returnS_run)
  have k1: "keeps c (\<lambda>_. 0) sm s1" by (rule step [OF r(1) s])
  then have k2: "keeps c (\<lambda>_. 0) s1 s2" using step [OF r(2)] by (simp add: keeps_def)
  then have "keeps c (\<lambda>_. 0) s2 sm'" using step [OF r(3)] by (simp add: keeps_def)
  then show ?thesis using k1 k2 by (simp add: keeps_def)
qed

lemma SetPendingNonce_bal: "SetPendingNonce n acc = Inr acc' \<Longrightarrow> wf_account acc \<Longrightarrow> wf_account acc' \<and> bal acc' = bal acc"
  by (auto simp: SetPendingNonce_def wf_account_def bal_def known_account_type_def split: if_splits)

lemma increaseNonce_keeps:
  assumes run: "increaseNonce c a n skip sm = (Inr u, sm')" and s: "solvent (view c sm)" "wf_accounts sm"
  shows "keeps c (\<lambda>_. 0) sm sm'"
proof -
  obtain acc s1 acc' where ld: "LoadOrCreateAccount a (creationOpts (CreateLegacyNonceAccount (fCtx c))) sm = (Inr acc, s1)"
    and acc': "acc' = acc \<or> SetPendingNonce (n + 1) acc = Inr acc'" and sm': "sm' = s1\<lparr>acctNS := (acctNS s1)(a \<mapsto> acc')\<rparr>"
    using run by (auto simp: increaseNonce_def bindS_run accountCreationOpts_def StoreAccount_run liftS_run returnS_run split: if_splits)
  note L = LoadOrCreateAccount_run [OF s(2) ld]
  have b: "wf_account acc'" "bal acc' = bal acc" using acc' SetPendingNonce_bal [OF _ L(1)] L(1) by auto
  have wf: "wf_accounts sm'" using L(3) b(1) sm' by (simp add: wf_accounts_def)
  have "view c sm' = view c sm" using sm' L(5) by simp
  moreover have "balOf sm' = (balOf s1)(a := bal acc')" using sm' by (auto simp: balOf_def fun_eq_iff)
  then have "balOf sm' = balOf sm" using b(2) L(2,7) by auto
  then have "totalBalance sm' = totalBalance sm" using wf s(2) by (simp add: totalBalance_sum wf_accounts_def)
  ultimately show ?thesis using s wf by (simp add: keeps_def money_def rewardingPool_def fundOf_def)
qed

lemma smRevert_run:
  assumes "smRevert si sm = (Inr u, sm')"
  shows "view c sm' = view c (fst si) \<and> acctNS sm' = acctNS (fst si)"
  using assms by (auto simp: smRevert_def thenS_run modifyS_run view_def)

text \<open>Settling from the state after the action, or from the snapshot when it failed.\<close>

lemma settleReward_keeps:
  assumes run: "settleReward c price st si sys logs sm1 = (Inr r, sm')"
    and base: "if st = RS_Failure then keeps c w sm (fst si) else keeps c w sm sm1"
  shows "keeps c w sm sm' \<and> Status r = st"
proof -
  obtain s2 dl where
    s2: "whenS (st = RS_Failure) (smRevert si) sm1 = (Inr (), s2)" and
    gas: "(if \<not> sys \<or> \<not> FixGasAndNonceUpdate (fCtx c)
        then bindS (liftS (splitGas c price (IntrinsicGas c))) (\<lambda>(priorityFee, baseFee).
          bindS (DepositGas True c baseFee (PriorityFeeOption priorityFee)) (\<lambda>depositLog.
          thenS (increaseNonce c (Caller c) (actNonce c) (\<not> FixGasAndNonceUpdate (fCtx c) \<and> actNonce c = 0)) (
          returnS depositLog))) else returnS []) s2 = (Inr dl, sm')" and st: "Status r = st"
    using run unfolding settleReward_def Let_def by (auto simp: thenS_run bindS_run [of _ _ _ r] returnS_run)
  have k: "keeps c w sm s2"
  proof (cases "st = RS_Failure")
    case True
    then have "view c s2 = view c (fst si) \<and> acctNS s2 = acctNS (fst si)" using s2 smRevert_run by (simp add: whenS_run)
    then show ?thesis using base True
      by (simp add: keeps_def money_def wf_accounts_def totalBalance_def rewardingPool_def fundOf_def)
  next
    case False
    then show ?thesis using s2 base by (simp add: whenS_run)
  qed
  have "keeps c (\<lambda>_. 0) s2 sm'"
  proof (cases "\<not> sys \<or> \<not> FixGasAndNonceUpdate (fCtx c)")
    case True
    then obtain bf cfg dlog s3 skip where d: "DepositGas True c bf cfg s2 = (Inr dlog, s3)"
      and n: "increaseNonce c (Caller c) (actNonce c) skip s3 = (Inr (), sm')"
      using gas by (auto simp: bindS_run thenS_run liftS_run returnS_run)
    have "keeps c (\<lambda>_. 0) s2 s3" using DepositGas_keeps [OF d] k by (simp add: keeps_def)
    then show ?thesis using increaseNonce_keeps [OF n] by (simp add: keeps_def)
  next
    case False
    then show ?thesis using gas k keeps_refl [of c s2] by (simp add: returnS_run keeps_def)
  qed
  then show ?thesis using keeps_trans [OF k] st by simp
qed

lemma orFail_keeps:
  assumes run: "orFail m (\<lambda>st. settleReward c price st si sys) tLogs sm0 = (Inr r, sm')"
    and snap: "keeps c (\<lambda>_. 0) sm (fst si)"
    and ok: "\<And>x s1. m sm0 = (Inr x, s1) \<Longrightarrow> keeps c w sm s1"
  shows "(Status r = RS_Success \<and> keeps c w sm sm' \<and> (\<exists>x s1. m sm0 = (Inr x, s1))) \<or>
    (Status r = RS_Failure \<and> keeps c (\<lambda>_. 0) sm sm' \<and> isl (fst (m sm0)))"
proof (cases "m sm0")
  case (Pair v s1)
  show ?thesis
  proof (cases v)
    case (Inl e)
    then have "settleReward c price RS_Failure si sys [] s1 = (Inr r, sm')"
      using run Pair by (cases e) (auto simp: orFail_def)
    from settleReward_keeps [OF this, of "\<lambda>_. 0" sm] snap show ?thesis using Pair Inl by simp
  next
    case (Inr x)
    then have "settleReward c price RS_Success si sys (tLogs x) s1 = (Inr r, sm')"
      using run Pair by (simp add: orFail_def)
    from settleReward_keeps [OF this, of w sm] ok [of x s1] Pair Inr show ?thesis by auto
  qed
qed

lemma rewarded_keeps:
  assumes "rewarded c 0 sm sm'" "solvent (view c sm)" "wf_accounts sm"
  shows "keeps c (\<lambda>a. accBal (view c sm') a - accBal (view c sm) a) sm sm'"
  using assms by (auto simp: keeps_def rewarded_def solvent_def fundReady_def money_def wf_accounts_def totalBalance_def)

lemma Claim_keeps:
  assumes "Claim c x a sm = (Inr l, sm')" "solvent (view c sm)" "wf_accounts sm"
  shows "keeps c (\<lambda>b. if b = a then - x else 0) sm sm'"
proof -
  note C = Claim_run [OF assms(1) _ assms(3)]
  have "totalBalance sm' = totalBalance sm + x"
    by (rule totalBalance_shift [OF assms(3), of _ a]) (use C assms(2) in \<open>auto simp: solvent_def\<close>)
  then show ?thesis using C assms(2) by (auto simp: keeps_def solvent_def fundReady_def money_def)
qed

lemma smSnapshot_run: "smSnapshot sm = (Inr si, s1) \<Longrightarrow> fst si = s1 \<and> view c s1 = view c sm \<and> acctNS s1 = acctNS sm"
  by (auto simp: smSnapshot_def bindS_def onStk_def viewSnapshot_def op_defs view_def)

section \<open>Every receipt\<close>

text \<open>What an action of the status \<open>st\<close> does to the reward accounts.\<close>

definition accountsAfter :: "ctx \<Rightarrow> RewardAction \<Rightarrow> receipt_status \<Rightarrow> (addr \<Rightarrow> int) \<Rightarrow> (addr \<Rightarrow> int) \<Rightarrow> bool" where
  "accountsAfter c act st A A' \<longleftrightarrow>
     (if st = RS_Failure then A' = A
      else st = RS_Success \<and> (case act of
          DepositToRewardingFund _ \<Rightarrow> A' = A
        | ClaimFromRewardingFund x a \<Rightarrow> (let claimer = (case a of None \<Rightarrow> Caller c | Some b \<Rightarrow> b) in
            0 \<le> x \<and> x \<le> A claimer \<and> A' = A(claimer := A claimer - x))
        | GrantReward _ \<Rightarrow> (\<forall>a. A a \<le> A' a)))"

lemma keeps_from: "keeps c w s0 s \<Longrightarrow> view c s0 = view c sm \<Longrightarrow> acctNS s0 = acctNS sm \<Longrightarrow> keeps c w sm s"
  by (simp add: keeps_def money_def totalBalance_def rewardingPool_def fundOf_def)

lemma grant_receipt:
  assumes run: "orFail m (\<lambda>st. settleReward c price st si sys) tLogs s0 = (Inr r, sm')"
    and si: "keeps c (\<lambda>_. 0) s0 (fst si)" and sol: "solvent (view c s0)" "wf_accounts s0"
    and ok: "\<And>y s2. m s0 = (Inr y, s2) \<Longrightarrow> rewarded c 0 s0 s2"
  shows "solvent (view c sm') \<and> wf_accounts sm' \<and> money c sm' = money c s0 \<and>
    accountsAfter c (GrantReward ty) (Status r) (accBal (view c s0)) (accBal (view c sm'))"
proof -
  obtain v s1 where g: "m s0 = (v, s1)" by fastforce
  have K: "(Status r = RS_Success \<and> keeps c (\<lambda>a. accBal (view c s1) a - accBal (view c s0) a) s0 sm' \<and> (\<exists>x s1. m s0 = (Inr x, s1))) \<or>
      (Status r = RS_Failure \<and> keeps c (\<lambda>_. 0) s0 sm' \<and> isl (fst (m s0)))"
    by (rule orFail_keeps [OF run si]) (use rewarded_keeps [OF ok sol] g in auto)
  have "\<forall>a. accBal (view c s0) a \<le> accBal (view c s1) a" if "v = Inr y" for y
    using ok [of y s1] g that by (simp add: rewarded_def)
  with K g show ?thesis by (auto simp: keeps_def accountsAfter_def)
qed

lemma reward_receipts:
  assumes sol: "solvent (view c sm)" and wf: "wf_accounts sm"
    and slash: "act = GrantReward EpochReward \<Longrightarrow> NotSlashUnproductiveDelegates (fCtx c)"
    and votes: "\<And>ds d. pollCandidates env = Some (Inr ds) \<Longrightarrow> d \<in> set ds \<Longrightarrow> 0 \<le> scVotes d"
    and run: "HandleReward cfg env c price act sm = (Inr (Some r), sm')"
  shows "solvent (view c sm') \<and> wf_accounts sm' \<and> money c sm' = money c sm \<and>
    accountsAfter c act (Status r) (accBal (view c sm)) (accBal (view c sm'))"
proof -
  obtain si s0 where sn: "smSnapshot sm = (Inr si, s0)" using run by (auto simp: HandleReward_def bindS_run)
  note S = smSnapshot_run [OF sn, of c]
  have sol0: "solvent (view c s0)" "wf_accounts s0" using S sol wf by (simp_all add: wf_accounts_def)
  have ready0: "fundReady c s0" using sol0 by (auto simp: solvent_def fundReady_def)
  have si: "keeps c (\<lambda>_. 0) s0 (fst si)" using S keeps_refl [OF sol0] by simp
  have "solvent (view c sm') \<and> wf_accounts sm' \<and> money c sm' = money c s0 \<and>
    accountsAfter c act (Status r) (accBal (view c s0)) (accBal (view c sm'))"
  proof (cases act)
    case (DepositToRewardingFund x)
    then have "orFail (Deposit c (Some x) DEPOSIT_TO_REWARDING_FUND) (\<lambda>st. settleReward c price st si False) (\<lambda>l. l) s0 = (Inr r, sm')"
      using run sn by (auto simp: HandleReward_def bindS_run returnS_run)
    from orFail_keeps [OF this si Deposit_keeps [OF _ sol0]] DepositToRewardingFund show ?thesis
      by (auto simp: keeps_def accountsAfter_def)
  next
    case (ClaimFromRewardingFund x a)
    define claimer where "claimer = (case a of None \<Rightarrow> Caller c | Some b \<Rightarrow> b)"
    have "orFail (Claim c x claimer) (\<lambda>st. settleReward c price st si False) (\<lambda>l. [l]) s0 = (Inr r, sm')"
      using run sn ClaimFromRewardingFund by (auto simp: HandleReward_def bindS_run returnS_run Let_def claimer_def)
    from orFail_keeps [OF this si Claim_keeps [OF _ sol0]] ClaimFromRewardingFund show ?thesis
      using Claim_run [of c x claimer s0] sol0
      by (fastforce simp: keeps_def accountsAfter_def Let_def claimer_def [symmetric] solvent_def fun_eq_iff)
  next
    case (GrantReward ty)
    then have ty: "ty = BlockReward \<or> ty = EpochReward" using run by (cases ty) (auto simp: HandleReward_def bindS_run returnS_run)
    show ?thesis using ty
    proof
      assume t: "ty = BlockReward"
      then have o: "orFail (GrantBlockReward env c) (\<lambda>st. settleReward c price st si True) (\<lambda>_. []) s0 = (Inr r, sm')"
        using run sn GrantReward by (auto simp: HandleReward_def bindS_run returnS_run)
      have rw: "rewarded c 0 s0 s2" if "GrantBlockReward env c s0 = (Inr y, s2)" for y s2
        using GrantBlockReward_run [OF that _ ready0] sol0(1) by (simp add: solvent_def)
      show ?thesis unfolding GrantReward by (rule grant_receipt [OF o si sol0]) (rule rw)
    next
      assume t: "ty = EpochReward"
      then have o: "orFail (GrantEpochReward cfg env c) (\<lambda>st. settleReward c price st si True) (\<lambda>(tLogs, _). tLogs) s0 = (Inr r, sm')"
        using run sn GrantReward by (auto simp: HandleReward_def bindS_run returnS_run)
      have rw: "rewarded c 0 s0 s2" if "GrantEpochReward cfg env c s0 = (Inr y, s2)" for y s2
        using GrantEpochReward_run [of cfg env c s0 "fst y" "snd y" s2] that ready0 sol0(1) votes slash t GrantReward
        by (auto simp: epochGranted_def solvent_def)
      show ?thesis unfolding GrantReward by (rule grant_receipt [OF o si sol0]) (rule rw)
    qed
  qed
  then show ?thesis using S by (simp add: money_def totalBalance_def rewardingPool_def fundOf_def)
qed

text \<open>
  Property C10.  The fund pays what it owes.  As long as unproductive delegates are not slashed, every receipt
  of a rewarding action leaves a fund whose total is exactly its unclaimed balance plus what the
  reward accounts are owed, with no negative balance, and conserves the sum of all accounts and
  the fund; the base fee of the action goes into the fund and is part of that sum, not burnt.  A failed receipt leaves every reward account alone; a deposit changes none, a claim
  lowers the claimer's by the claimed amount, which it covered, and a grant lowers none.
\<close>

theorem reward_solvency:
  assumes "solvent (view c sm)" "wf_accounts sm"
    and "act = GrantReward EpochReward \<Longrightarrow> NotSlashUnproductiveDelegates (fCtx c)"
    and "\<And>ds d. pollCandidates env = Some (Inr ds) \<Longrightarrow> d \<in> set ds \<Longrightarrow> 0 \<le> scVotes d"
    and "HandleReward cfg env c price act sm = (Inr (Some r), sm')"
  shows "solvent (view c sm') \<and> wf_accounts sm' \<and>
    totalBalance sm' + rewardingPool c sm' = totalBalance sm + rewardingPool c sm \<and>
    accountsAfter c act (Status r) (accBal (view c sm)) (accBal (view c sm'))"
  using reward_receipts [OF assms] by (simp add: money_def)

lemma claim_total:
  assumes sol: "solvent (view c sm)" and wf: "wf_accounts sm" and acc: "view c sm (AccKey a) \<noteq> None"
    and x: "0 \<le> x" "x \<le> accBal (view c sm) a"
  shows "\<exists>l sm'. Claim c x a sm = (Inr l, sm')"
proof -
  obtain f where f: "view c sm FundKey = Some (VFund f)" and ty: "typed (view c sm)" and sl: "slack (view c sm) = 0"
    using sol by (auto simp: solvent_def)
  have "0 \<le> fundUnclaimed f" using typedD [OF ty f] by simp
  then have tot: "\<not> fundTotal f - x < 0" using accBal_le_sum [OF ty, of a] sl x f by (simp add: slack_fund)
  obtain s1 where s1: "putState c FundKey (VFund (f\<lparr>fundTotal := fundTotal f - x\<rparr>)) sm = (Inr (), s1)"
    by (cases "putState c FundKey (VFund (f\<lparr>fundTotal := fundTotal f - x\<rparr>)) sm") (auto dest: rewards.put_run)
  have up: "updateTotalBalance c x sm = (Inr (), s1)"
    using f tot s1 by (simp add: updateTotalBalance_def bindS_def readFund_def state_view Let_def thenS_def checkS_def returnS_def)
  have V1: "view c s1 = (view c sm)(FundKey \<mapsto> VFund (f\<lparr>fundTotal := fundTotal f - x\<rparr>))"
    using rewards.put_run [OF s1] by simp
  have ty1: "typed (view c s1)" unfolding V1 using typedD [OF ty f] by (intro typed_upd [OF ty]) simp
  obtain v where v: "view c s1 (AccKey a) = Some v" using acc V1 by auto
  have wf1: "wf_accounts s1" using wf putState_frame [OF s1] by (simp add: wf_accounts_def)
  have pay: "\<exists>s3. (bindS (LoadOrCreateAccount a (creationOpts b)) (\<lambda>acc. bindS (liftS (AddBalance (Some x) acc)) (StoreAccount a))) s = (Inr (), s3)"
    if "wf_accounts s" for s :: "'a reward_world_scheme" and b
  proof -
    obtain acc s2 where l: "LoadOrCreateAccount a (creationOpts b) s = (Inr acc, s2)"
      using NewAccount_creationOpts [of b] by (cases "acctNS s a") (auto simp: LoadOrCreateAccount_def)
    have "wf_account acc" using LoadOrCreateAccount_run(1) [OF that l] .
    then obtain acc' where "AddBalance (Some x) acc = Inr acc'"
      using x wf_account_Balance [of acc] by (auto simp: AddBalance_def split: option.splits)
    then show ?thesis using l by (simp add: bindS_def liftS_def StoreAccount_def modifyS_def)
  qed
  have "\<exists>s3. claimFromAccount c a x s1 = (Inr (), s3)"
  proof -
    let ?s = "snd (thenS (putState c (AccKey a) (VAcc (accBal (view c s1) a - x)))
      (whenS ((\<not> useV2Storage c \<or> rewV2 s1 (AccKey a) = None) \<and> useV2Storage c) (deleteStateV1 (AccKey a))) s1)"
    have "acctNS ?s = acctNS s1"
      by (auto simp: op_defs putState_def putStateV1_def putStateV2_def deleteStateV1_def)
    then have "wf_accounts ?s" using wf1 by (simp add: wf_accounts_def)
    from pay [OF this, of "CreateLegacyNonceAccount (fCtx c)"] show ?thesis using x v V1
      by (auto simp: claimFromAccount_def stateAcc_typed [OF ty1] bindS_def thenS_def checkS_def returnS_def Let_def
          accountCreationOpts_def putState_def putStateV1_def putStateV2_def deleteStateV1_def modifyS_def whenS_def split: if_splits)
  qed
  then show ?thesis using up x
    by (auto simp: Claim_def assertAmount_def checkR_def thenS_def bindS_def liftS_def returnS_def)
qed

text \<open>
  Property C19.  An owed reward can be claimed.  In a solvent state a claim of at most the balance of
  an existing reward account always succeeds: the fund covers it, the reward account goes down and
  the ledger account up by the amount, and no other account changes.
\<close>

theorem claim_succeeds:
  assumes "solvent (view c sm)" "wf_accounts sm" "view c sm (AccKey a) \<noteq> None" "0 \<le> x" "x \<le> accBal (view c sm) a"
  shows "\<exists>l sm'. Claim c x a sm = (Inr l, sm') \<and>
    accBal (view c sm') = (accBal (view c sm))(a := accBal (view c sm) a - x) \<and>
    (\<forall>b. balOf sm' b = balOf sm b + (if b = a then x else 0)) \<and> solvent (view c sm')"
proof -
  obtain l sm' where r: "Claim c x a sm = (Inr l, sm')" using claim_total [OF assms] by blast
  from Claim_run [OF r _ assms(2)] Claim_keeps [OF r assms(1,2)] assms(1) r show ?thesis
    by (intro exI [of _ l] exI [of _ sm']) (auto simp: solvent_def keeps_def)
qed


text \<open>
  Property C21.  What an epoch costs.  A successful grant of the epoch reward happens at the last
  height of the epoch and once per epoch.  It owes the reward accounts at most the epoch reward
  and the foundation bonus of the eligible delegates, and lowers none.  What is slashed leaves the bucket pool, and the
  log claims it for the fund, but the total of the fund does not change: the fund's accounts are then
  short of it.
\<close>

theorem epoch_reward_accounting:
  assumes "GrantEpochReward cfg env c sm = (Inr (tLogs, logs), sm')" "typed (view c sm)" "fundReady c sm"
    and "\<And>ds d. pollCandidates env = Some (Inr ds) \<Longrightarrow> d \<in> set ds \<Longrightarrow> 0 \<le> scVotes d"
  shows "\<exists>x g e rp. rolldpos env = Some rp \<and> GetEpochNum rp (BlockHeight c) = Inr e \<and>
    GetEpochLastBlockHeight rp e = Inr (BlockHeight c) \<and> epochGranted env c x g e tLogs sm sm'"
  by (rule GrantEpochReward_run [OF assms])

section \<open>Examples\<close>

text \<open>A fund of 500 tokens, 200 of them owed to the account 1, and a block of the producer 9.\<close>

definition exAdmin :: admin where
  "exAdmin = \<lparr>blockReward = 16, epochReward = 100, numDelegatesForEpochReward = 10, foundationBonus = 5,
     numDelegatesForFoundationBonus = 2, foundationBonusLastEpoch = 1, productivityThreshold = 85\<rparr>"

definition exRewards :: rstore where
  "exRewards = [FundKey \<mapsto> VFund \<lparr>fundTotal = 500, fundUnclaimed = 300\<rparr>, AccKey 1 \<mapsto> VAcc 200,
     AdminKey \<mapsto> VAdmin exAdmin, ExemptKey \<mapsto> VExempt []]"

definition exRewardWorld :: staking_world where
  "exRewardWorld = exStakingWorld\<lparr>rewV1 := Map.empty, rewV2 := exRewards\<rparr>"

definition exEnv :: RewardEnv where
  "exEnv = \<lparr>addrString = decString, FromString = decParse,
     pollCandidates = Some (Inr [\<lparr>scAddress = decString 9, scVotes = 30, scRewardAddress = decString 1\<rparr>,
       \<lparr>scAddress = decString 8, scVotes = 10, scRewardAddress = decString 3\<rparr>]),
     unproductiveDelegates = Inr [decString 8 \<mapsto> 2], rolldpos = Some mainnet, stakingProtocol = Some exProtocol,
     GetUnproductiveDelegates = (\<lambda>_. False)\<rparr>"

lemma exRewardWorld_view: "view exCtx exRewardWorld = exRewards"
proof -
  have "useV2Storage exCtx" by code_simp
  then show ?thesis by (simp add: view_def exRewardWorld_def)
qed

lemma exRewards_solvent: "solvent exRewards"
proof -
  have "accBal exRewards = (\<lambda>_. 0)(1 := 200)" by (auto simp: accBal_def exRewards_def fun_eq_iff)
  then have "accSum exRewards = 200" by (simp add: accSum_def sum_fun_upd del: fun_upd_apply)
  then show ?thesis by (auto simp: solvent_def typed_def exRewards_def slack_def exAdmin_def split: if_splits)
qed

definition exCfg :: RewardingCfg where
  "exCfg = \<lparr>gInitBalance = 500, gBlockReward = 16, gDardanellesBlockReward = 8, gWakeBlockReward = 4, gEpochReward = 100,
     gAleutianEpochReward = 150, gNumDelegatesForEpochReward = 10, gExemptAddrs = [], gFoundationBonus = 5,
     gNumDelegatesForFoundationBonus = 2, gFoundationBonusLastEpoch = 1, gFoundationBonusP2StartEpoch = 0,
     gFoundationBonusP2EndEpoch = 0, gProductivityThreshold = 85\<rparr>"

lemma exRewardWorld_wf: "wf_accounts exRewardWorld"
  using exStakingWorld_wf by (simp add: wf_accounts_def exRewardWorld_def)

lemma exEnv_votes: "pollCandidates exEnv = Some (Inr ds) \<Longrightarrow> d \<in> set ds \<Longrightarrow> 0 \<le> scVotes d"
  by (auto simp: exEnv_def)

lemma exBlockReward_run:
  "case fst (HandleReward exCfg exEnv exCtx exPrice (GrantReward BlockReward) exRewardWorld) of
     Inr (Some r) \<Rightarrow> Status r = RS_Success | _ \<Rightarrow> False"
  by code_simp

theorem reward_solvency_witness:
  "\<exists>r sm'. HandleReward exCfg exEnv exCtx exPrice (GrantReward BlockReward) exRewardWorld = (Inr (Some r), sm') \<and>
     Status r = RS_Success \<and> solvent (view exCtx sm') \<and> (\<forall>a. accBal exRewards a \<le> accBal (view exCtx sm') a)"
proof -
  obtain r sm' where r: "HandleReward exCfg exEnv exCtx exPrice (GrantReward BlockReward) exRewardWorld = (Inr (Some r), sm')"
    "Status r = RS_Success"
    using exBlockReward_run
    by (cases "HandleReward exCfg exEnv exCtx exPrice (GrantReward BlockReward) exRewardWorld")
      (auto split: sum.splits option.splits)
  from reward_solvency [OF _ exRewardWorld_wf _ exEnv_votes r(1)] exRewards_solvent r show ?thesis
    by (simp add: exRewardWorld_view accountsAfter_def)
qed

theorem claim_succeeds_witness:
  "\<exists>l sm'. Claim exCtx 150 1 exRewardWorld = (Inr l, sm') \<and> accBal (view exCtx sm') 1 = 50 \<and>
     balOf sm' 1 = balOf exRewardWorld 1 + 150"
proof -
  have a: "view exCtx exRewardWorld (AccKey 1) \<noteq> None" "accBal (view exCtx exRewardWorld) 1 = 200"
    by (simp_all add: exRewardWorld_view exRewards_def accBal_def)
  have "solvent (view exCtx exRewardWorld)" using exRewards_solvent by (simp add: exRewardWorld_view)
  from claim_succeeds [OF this exRewardWorld_wf a(1), of 150] a(2) show ?thesis by auto
qed




text \<open>A delegate with a self-stake of 5000 tokens that missed two blocks of the epoch ending at height 45001080.\<close>

definition exSlashCtx :: ctx where
  "exSlashCtx = exCtx\<lparr>BlockHeight := 45001080, fCtx := WithFeatureCtx defaultConfig 45001080\<rparr>"
definition exDelegate :: Candidate where
  "exDelegate = \<lparr>cOwner = 8, cOperator = 8, cReward = 3, cIdentifier = None, cBLSPubKey = [], cName = ''beta'', cVotes = 6000,
     cSelfStakeBucketIdx = 0, cSelfStake = 5000\<rparr>"
definition exSlashWorld :: staking_world where
  "exSlashWorld = exRewardWorld\<lparr>stk := exStaking\<lparr>bucketNS := [0 \<mapsto> NewVoteBucket 8 8 5000 91 1699999999000000000 True], totalBucket := Some 1,
     candNS := [8 \<mapsto> exDelegate], candCenter := (case Upsert exDelegate emptyCenter of Inr m \<Rightarrow> m | Inl _ \<Rightarrow> emptyCenter),
     bucketPool := \<lparr>enableSMStorage = True, pool_dirty = False, total = \<lparr>tAmount = 5000, tCount = 1\<rparr>\<rparr>\<rparr>\<rparr>"

lemma exSlash_run:
  "case GrantEpochReward exCfg exEnv exSlashCtx exSlashWorld of (Inr (tLogs, _), sm') \<Rightarrow> map tlAmount tLogs = [32] | _ \<Rightarrow> False"
  by code_simp

theorem epoch_reward_accounting_witness:
  "\<exists>tLogs logs sm'. GrantEpochReward exCfg exEnv exSlashCtx exSlashWorld = (Inr (tLogs, logs), sm') \<and>
     map tlAmount tLogs = [32] \<and> rewardingPool exSlashCtx sm' = rewardingPool exSlashCtx exSlashWorld \<and>
     stakingPool sm' = 4968 \<and> slack (view exSlashCtx exSlashWorld) = 0 \<and> slack (view exSlashCtx sm') = - 32"
proof -
  obtain tLogs logs sm' where r: "GrantEpochReward exCfg exEnv exSlashCtx exSlashWorld = (Inr (tLogs, logs), sm')"
    "map tlAmount tLogs = [32]"
    using exSlash_run by (cases "GrantEpochReward exCfg exEnv exSlashCtx exSlashWorld") (auto split: sum.splits)
  have "useV2Storage exSlashCtx" by code_simp
  then have V: "view exSlashCtx exSlashWorld = exRewards" by (simp add: view_def exSlashWorld_def exRewardWorld_def)
  have ty: "typed (view exSlashCtx exSlashWorld)" and sl: "slack exRewards = 0"
    using exRewards_solvent by (simp_all add: V solvent_def)
  have re: "fundReady exSlashCtx exSlashWorld" by (simp add: fundReady_def V exRewards_def)
  have "\<exists>x g e rp. rolldpos exEnv = Some rp \<and> GetEpochNum rp (BlockHeight exSlashCtx) = Inr e \<and>
      GetEpochLastBlockHeight rp e = Inr (BlockHeight exSlashCtx) \<and> epochGranted exEnv exSlashCtx x g e tLogs exSlashWorld sm'"
    by (rule epoch_reward_accounting [OF r(1) ty re]) (rule exEnv_votes)
  then obtain x g e where "epochGranted exEnv exSlashCtx x g e tLogs exSlashWorld sm'" by blast
  moreover from this have "x = 32" using r(2) by (auto simp: epochGranted_def split: if_splits)
  moreover have "stakingPool exSlashWorld = 5000" by (simp add: stakingPool_def exSlashWorld_def)
  ultimately show ?thesis using r V sl by (auto simp: epochGranted_def rewarded_def)
qed

end
