(* ===== verification/Endorsements.thy ===== *)
theory Endorsements
  imports Prelude "HOL-Library.AList"
begin

text \<open>
  Endorsements of the roll-DPoS consensus: signed documents
  (\<^verbatim>\<open>endorsement/endorsement.go\<close>), votes (\<^verbatim>\<open>consensusvote.go\<close>), the endorsements a node has
  collected (\<^verbatim>\<open>endorsementmanager.go\<close>) and the context of a round (\<^verbatim>\<open>roundctx.go\<close>), the last
  three under \<^verbatim>\<open>consensus/scheme/rolldpos\<close>.

  Cryptography is a record of functions the definitions take as an argument.  The maps that are
  iterated over are association lists, in the arbitrary order of the iteration.  A block is the
  record of what its methods return; the encoding of a block is not modelled, so a stored block is
  the block itself.  Log output and failures of the database are left out.

  The invariant says that every collected endorsement is a verified vote of a delegate, counted
  once; a majority is then a set of more than two thirds of the delegates, and two majorities share
  more than a third of them.
\<close>

section \<open>Cryptography and documents (endorsement/endorsement.go)\<close>

type_synonym pubkey = "byte list"
type_synonym privkey = "byte list"
type_synonym bhash = "byte list"

text \<open>
  \<open>keyAddress\<close> is \<^verbatim>\<open>Address()\<close> of a public key, rendered; it may be nil.  \<open>Sign\<close> returns a signature or
  the message of an error.  \<open>voteDigest\<close> is blake2b of the marshalled vote.
\<close>

record crypto_env =
  HexString :: "pubkey \<Rightarrow> string"
  keyAddress :: "pubkey \<Rightarrow> string option"
  VerifySig :: "pubkey \<Rightarrow> byte list \<Rightarrow> byte list \<Rightarrow> bool"
  PublicKey :: "privkey \<Rightarrow> pubkey"
  Sign :: "privkey \<Rightarrow> byte list \<Rightarrow> string + byte list"
  BytesToPublicKey :: "byte list \<Rightarrow> pubkey res"
  Hash256b :: "byte list \<Rightarrow> byte list"
  voteDigest :: "bhash \<times> byte \<Rightarrow> byte list"

record Endorsement =
  enTs :: int
  enEndorser :: pubkey
  enSignature :: "byte list"

definition leBytes :: "nat \<Rightarrow> u64 \<Rightarrow> byte list" where
  "leBytes n w = map (\<lambda>i. ucast (drop_bit (8 * i) w)) [0..<n]"

definition Uint64ToBytes :: "u64 \<Rightarrow> byte list" where
  "Uint64ToBytes w = leBytes 8 w"

definition Uint32ToBytes :: "u32 \<Rightarrow> byte list" where
  "Uint32ToBytes w = leBytes 4 (ucast w)"

definition hashDocWithTime :: "crypto_env \<Rightarrow> byte list res \<Rightarrow> int \<Rightarrow> byte list res" where
  "hashDocWithTime env docHash t =
     bindR docHash (\<lambda>h.
     Inr (Hash256b env ((h @ Uint64ToBytes (word_of_int (t div 1000000000))) @
       Uint32ToBytes (word_of_int (t mod 1000000000)))))"

fun signAll :: "crypto_env \<Rightarrow> byte list \<Rightarrow> int \<Rightarrow> privkey list \<Rightarrow> Endorsement list res" where
  "signAll env h t [] = Inr []"
| "signAll env h t (signer # signers) =
     bindR (map_sum Errorf id (Sign env signer h)) (\<lambda>sig.
     bindR (signAll env h t signers) (\<lambda>es.
     Inr (\<lparr>enTs = t, enEndorser = PublicKey env signer, enSignature = sig\<rparr> # es)))"

definition Endorse :: "crypto_env \<Rightarrow> byte list res \<Rightarrow> int \<Rightarrow> privkey list \<Rightarrow> Endorsement list res" where
  "Endorse env docHash t signers = bindR (hashDocWithTime env docHash t) (\<lambda>h. signAll env h t signers)"

definition VerifyEndorsement :: "crypto_env \<Rightarrow> byte list res \<Rightarrow> Endorsement \<Rightarrow> bool" where
  "VerifyEndorsement env docHash en =
     (case hashDocWithTime env docHash (enTs en) of
        Inl _ \<Rightarrow> False
      | Inr h \<Rightarrow> VerifySig env (enEndorser en) h (enSignature en))"

record endorsement_pb =
  epb_Timestamp :: "int \<times> int"
  epb_Endorser :: "byte list"
  epb_Signature :: "byte list"

definition endorsement_Proto :: "Endorsement \<Rightarrow> endorsement_pb" where
  "endorsement_Proto en = \<lparr>epb_Timestamp = timestamppb (enTs en), epb_Endorser = enEndorser en,
     epb_Signature = enSignature en\<rparr>"

definition endorsement_LoadProto :: "crypto_env \<Rightarrow> endorsement_pb \<Rightarrow> Endorsement res" where
  "endorsement_LoadProto env pb =
     bindR (CheckValid (epb_Timestamp pb)) (\<lambda>_.
     bindR (BytesToPublicKey env (epb_Endorser pb)) (\<lambda>k.
     Inr \<lparr>enTs = AsTime (epb_Timestamp pb), enEndorser = k, enSignature = epb_Signature pb\<rparr>))"

section \<open>Votes (consensusvote.go)\<close>

abbreviation PROPOSAL :: byte where "PROPOSAL \<equiv> 0"
abbreviation LOCK :: byte where "LOCK \<equiv> 1"
abbreviation COMMIT :: byte where "COMMIT \<equiv> 2"

record ConsensusVote =
  voteBlkHash :: bhash
  voteTopic :: byte

definition vote_Proto :: "ConsensusVote \<Rightarrow> (bhash \<times> byte) res" where
  "vote_Proto v =
     (if voteTopic v = PROPOSAL \<or> voteTopic v = LOCK \<or> voteTopic v = COMMIT
      then Inr (voteBlkHash v, voteTopic v) else Inl (Errorf ''unsupported topic''))"

definition vote_LoadProto :: "bhash \<times> byte \<Rightarrow> ConsensusVote res" where
  "vote_LoadProto msg =
     (if snd msg = PROPOSAL \<or> snd msg = LOCK \<or> snd msg = COMMIT
      then Inr \<lparr>voteBlkHash = fst msg, voteTopic = snd msg\<rparr> else Inl (Errorf ''invalid topic''))"

definition vote_Hash :: "crypto_env \<Rightarrow> ConsensusVote \<Rightarrow> byte list res" where
  "vote_Hash env v = bindR (vote_Proto v) (\<lambda>msg. Inr (voteDigest env msg))"

section \<open>Blocks\<close>

record block =
  HashBlock :: bhash
  blkHeight :: u64
  blkTimestamp :: int
  PrevHash :: bhash
  ProducerAddress :: string
  VerifySignature :: bool
  footerEndorsements :: "Endorsement list"
  commitTime :: int

definition Finalize :: "Endorsement list \<Rightarrow> int \<Rightarrow> block \<Rightarrow> block res" where
  "Finalize ens t b =
     (if footerEndorsements b \<noteq> [] then Inl (Errorf ''the block has been finalized'')
      else Inr (b\<lparr>footerEndorsements := ens, commitTime := t\<rparr>))"

section \<open>Collected endorsements (endorsementmanager.go)\<close>

record endorserEndorsementCollection =
  endorsements :: "(byte \<times> Endorsement) list"

definition newEndorserEndorsementCollection :: endorserEndorsementCollection where
  "newEndorserEndorsementCollection = \<lparr>endorsements = []\<rparr>"

definition ee_Endorsement :: "byte \<Rightarrow> endorserEndorsementCollection \<Rightarrow> Endorsement option" where
  "ee_Endorsement topic ee = map_of (endorsements ee) topic"

definition ee_AddEndorsement ::
  "byte \<Rightarrow> Endorsement \<Rightarrow> endorserEndorsementCollection \<Rightarrow> endorserEndorsementCollection res" where
  "ee_AddEndorsement topic en ee =
     (if (case ee_Endorsement topic ee of Some e \<Rightarrow> enTs en < enTs e | None \<Rightarrow> False)
      then Inl ErrExpiredEndorsement
      else Inr (ee\<lparr>endorsements := AList.update topic en (endorsements ee)\<rparr>))"

definition ee_keep :: "byte \<Rightarrow> (Endorsement \<Rightarrow> bool) \<Rightarrow> endorserEndorsementCollection \<Rightarrow> (byte \<times> Endorsement) list" where
  "ee_keep topic ok ee =
     (case ee_Endorsement topic ee of Some e \<Rightarrow> if ok e then [(topic, e)] else [] | None \<Rightarrow> [])"

definition ee_Cleanup :: "int \<Rightarrow> endorserEndorsementCollection \<Rightarrow> endorserEndorsementCollection" where
  "ee_Cleanup t ee = \<lparr>endorsements =
     ee_keep PROPOSAL (\<lambda>e. \<not> enTs e < t) ee @ ee_keep LOCK (\<lambda>e. \<not> enTs e < t) ee @ ee_keep COMMIT (\<lambda>_. True) ee\<rparr>"

record blockEndorsementCollection =
  bcBlk :: "block option"
  endorsers :: "(string \<times> endorserEndorsementCollection) list"

definition newBlockEndorsementCollection :: "block option \<Rightarrow> blockEndorsementCollection" where
  "newBlockEndorsementCollection b = \<lparr>bcBlk = b, endorsers = []\<rparr>"

definition bc_AddEndorsement ::
  "crypto_env \<Rightarrow> byte \<Rightarrow> Endorsement \<Rightarrow> blockEndorsementCollection \<Rightarrow> blockEndorsementCollection res" where
  "bc_AddEndorsement env topic en bc =
     (let key = HexString env (enEndorser en);
          ee = (case map_of (endorsers bc) key of Some ee \<Rightarrow> ee | None \<Rightarrow> newEndorserEndorsementCollection) in
      bindR (ee_AddEndorsement topic en ee) (\<lambda>ee.
      Inr (bc\<lparr>endorsers := AList.update key ee (endorsers bc)\<rparr>)))"

definition bc_Endorsement :: "string \<Rightarrow> byte \<Rightarrow> blockEndorsementCollection \<Rightarrow> Endorsement option" where
  "bc_Endorsement key topic bc =
     (case map_of (endorsers bc) key of None \<Rightarrow> None | Some ee \<Rightarrow> ee_Endorsement topic ee)"

definition bc_Cleanup :: "int \<Rightarrow> blockEndorsementCollection \<Rightarrow> blockEndorsementCollection" where
  "bc_Cleanup t bc = \<lparr>bcBlk = bcBlk bc, endorsers = map (\<lambda>(k, ee). (k, ee_Cleanup t ee)) (endorsers bc)\<rparr>"

fun firstOf :: "byte list \<Rightarrow> endorserEndorsementCollection \<Rightarrow> Endorsement option" where
  "firstOf [] ee = None"
| "firstOf (topic # topics) ee =
     (case ee_Endorsement topic ee of Some en \<Rightarrow> Some en | None \<Rightarrow> firstOf topics ee)"

definition bc_Endorsements :: "byte list \<Rightarrow> blockEndorsementCollection \<Rightarrow> Endorsement list" where
  "bc_Endorsements topics bc = List.map_filter (\<lambda>(_, ee). firstOf topics ee) (endorsers bc)"

text \<open>The stored form.\<close>

record endorser_pb =
  eepb_Endorser :: string
  eepb_Topics :: "byte list"
  eepb_Endorsements :: "endorsement_pb list"

record blockEndorsements_pb =
  bpb_Blk :: "block option"
  bpb_BlockMap :: "endorser_pb list"

record manager_pb =
  mpb_BlkHash :: "bhash list"
  mpb_BlockEndorsements :: "blockEndorsements_pb list"
  mpb_CachedMintedBlk :: "block option"

definition ee_toProto :: "string \<times> endorserEndorsementCollection \<Rightarrow> endorser_pb" where
  "ee_toProto = (\<lambda>(key, ee). \<lparr>eepb_Endorser = key, eepb_Topics = map fst (endorsements ee),
     eepb_Endorsements = map (\<lambda>e. endorsement_Proto (snd e)) (endorsements ee)\<rparr>)"

fun loadEndorsements :: "crypto_env \<Rightarrow> byte list \<Rightarrow> endorsement_pb list \<Rightarrow> (byte \<times> Endorsement) list \<Rightarrow>
  (byte \<times> Endorsement) list res" where
  "loadEndorsements env [] pbs acc = Inr acc"
| "loadEndorsements env (topic # topics) [] acc = Inl (Panic ''index out of range'')"
| "loadEndorsements env (topic # topics) (pb # pbs) acc =
     bindR (endorsement_LoadProto env pb) (\<lambda>en. loadEndorsements env topics pbs (AList.update topic en acc))"

definition ee_fromProto :: "crypto_env \<Rightarrow> endorser_pb \<Rightarrow> endorserEndorsementCollection res" where
  "ee_fromProto env pb =
     bindR (loadEndorsements env (eepb_Topics pb) (eepb_Endorsements pb) []) (\<lambda>es. Inr \<lparr>endorsements = es\<rparr>)"

definition bc_toProto :: "blockEndorsementCollection \<Rightarrow> blockEndorsements_pb" where
  "bc_toProto bc = \<lparr>bpb_Blk = bcBlk bc, bpb_BlockMap = map ee_toProto (endorsers bc)\<rparr>"

fun loadEndorsers :: "crypto_env \<Rightarrow> endorser_pb list \<Rightarrow> (string \<times> endorserEndorsementCollection) list \<Rightarrow>
  (string \<times> endorserEndorsementCollection) list res" where
  "loadEndorsers env [] acc = Inr acc"
| "loadEndorsers env (pb # pbs) acc =
     bindR (ee_fromProto env pb) (\<lambda>ee. loadEndorsers env pbs (AList.update (eepb_Endorser pb) ee acc))"

definition bc_fromProto :: "crypto_env \<Rightarrow> blockEndorsements_pb \<Rightarrow> blockEndorsementCollection res" where
  "bc_fromProto env pb =
     bindR (loadEndorsers env (bpb_BlockMap pb) []) (\<lambda>es. Inr \<lparr>bcBlk = bpb_Blk pb, endorsers = es\<rparr>)"

text \<open>
  The manager.  \<open>emDB\<close> is the database, \<open>None\<close> for a nil one, with what it holds under the status key.
  \<open>emMajority\<close> is the function that tells whether a block has a majority: it is the method of a round
  that shares this manager, so what it needs is the number of delegates of that round.
\<close>

record endorsementManager =
  emDB :: "manager_pb option option"
  emMajority :: "u64 option"
  collections :: "(bhash \<times> blockEndorsementCollection) list"
  cachedMintedBlk :: "block option"

definition manager_toProto :: "endorsementManager \<Rightarrow> manager_pb" where
  "manager_toProto m = \<lparr>mpb_BlkHash = map fst (collections m),
     mpb_BlockEndorsements = map (\<lambda>c. bc_toProto (snd c)) (collections m), mpb_CachedMintedBlk = cachedMintedBlk m\<rparr>"

fun loadCollections :: "crypto_env \<Rightarrow> bhash list \<Rightarrow> blockEndorsements_pb list \<Rightarrow>
  (bhash \<times> blockEndorsementCollection) list \<Rightarrow> (bhash \<times> blockEndorsementCollection) list res" where
  "loadCollections env hs [] acc = Inr acc"
| "loadCollections env [] (pb # pbs) acc = Inl (Panic ''index out of range'')"
| "loadCollections env (h # hs) (pb # pbs) acc =
     bindR (bc_fromProto env pb) (\<lambda>bc. loadCollections env hs pbs (AList.update h bc acc))"

definition manager_fromProto :: "crypto_env \<Rightarrow> manager_pb \<Rightarrow> endorsementManager \<Rightarrow> endorsementManager res" where
  "manager_fromProto env pb m =
     bindR (loadCollections env (mpb_BlkHash pb) (mpb_BlockEndorsements pb) []) (\<lambda>cs.
     Inr (m\<lparr>collections := cs,
       cachedMintedBlk := (case mpb_CachedMintedBlk pb of None \<Rightarrow> cachedMintedBlk m | Some b \<Rightarrow> Some b)\<rparr>))"

definition newEndorsementManager :: "crypto_env \<Rightarrow> manager_pb option option \<Rightarrow> endorsementManager res" where
  "newEndorsementManager env d =
     (let m = \<lparr>emDB = d, emMajority = None, collections = [], cachedMintedBlk = None\<rparr> in
      case d of None \<Rightarrow> Inr m
      | Some None \<Rightarrow> Inr m
      | Some (Some pb) \<Rightarrow> manager_fromProto env pb m)"

definition PutEndorsementManagerToDB :: "endorsementManager \<Rightarrow> endorsementManager" where
  "PutEndorsementManagerToDB m = m\<lparr>emDB := Some (Some (manager_toProto m))\<rparr>"

definition saved :: "endorsementManager \<Rightarrow> endorsementManager" where
  "saved m = (if emDB m \<noteq> None then PutEndorsementManagerToDB m else m)"

definition SetIsMajorityFunc :: "u64 \<Rightarrow> endorsementManager \<Rightarrow> endorsementManager" where
  "SetIsMajorityFunc n m = m\<lparr>emMajority := Some n\<rparr>"

definition CollectionByBlockHash :: "bhash \<Rightarrow> endorsementManager \<Rightarrow> blockEndorsementCollection option" where
  "CollectionByBlockHash h m = map_of (collections m) h"

definition SizeWithBlock :: "endorsementManager \<Rightarrow> nat" where
  "SizeWithBlock m = length (filter (\<lambda>(_, c). bcBlk c \<noteq> None) (collections m))"

definition RegisterBlock :: "block \<Rightarrow> endorsementManager \<Rightarrow> endorsementManager" where
  "RegisterBlock blk m =
     (case map_of (collections m) (HashBlock blk) of
        Some c \<Rightarrow> m\<lparr>collections := AList.update (HashBlock blk) (c\<lparr>bcBlk := Some blk\<rparr>) (collections m)\<rparr>
      | None \<Rightarrow> saved (m\<lparr>collections :=
          AList.update (HashBlock blk) (newBlockEndorsementCollection (Some blk)) (collections m)\<rparr>))"

definition collected :: "bhash \<Rightarrow> byte list \<Rightarrow> endorsementManager \<Rightarrow> Endorsement list" where
  "collected h topics m =
     (case CollectionByBlockHash h m of None \<Rightarrow> [] | Some c \<Rightarrow> bc_Endorsements topics c)"

text \<open>\<^verbatim>\<open>3*len(endorsements) > 2*int(ctx.numOfDelegates)\<close>, on 64-bit signed integers.\<close>

definition isMajority :: "u64 \<Rightarrow> Endorsement list \<Rightarrow> bool" where
  "isMajority numOfDelegates es \<longleftrightarrow> 2 * numOfDelegates <s 3 * word_of_nat (length es)"

definition isMajorityFunc :: "bhash \<Rightarrow> byte list \<Rightarrow> endorsementManager \<Rightarrow> bool" where
  "isMajorityFunc h topics m =
     (case emMajority m of None \<Rightarrow> False | Some n \<Rightarrow> isMajority n (collected h topics m))"

definition em_AddVoteEndorsement ::
  "crypto_env \<Rightarrow> ConsensusVote \<Rightarrow> Endorsement \<Rightarrow> endorsementManager \<Rightarrow> endorsementManager res" where
  "em_AddVoteEndorsement env vote en m =
     (let beforeVote = isMajorityFunc (voteBlkHash vote) [voteTopic vote] m;
          c = (case map_of (collections m) (voteBlkHash vote) of
                 Some c \<Rightarrow> c | None \<Rightarrow> newBlockEndorsementCollection None) in
      bindR (bc_AddEndorsement env (voteTopic vote) en c) (\<lambda>c.
      let m1 = m\<lparr>collections := AList.update (voteBlkHash vote) c (collections m)\<rparr>;
          afterVote = isMajorityFunc (voteBlkHash vote) [voteTopic vote] m1 in
      Inr (if emDB m1 \<noteq> None \<and> emMajority m1 \<noteq> None \<and> \<not> beforeVote \<and> afterVote
           then PutEndorsementManagerToDB m1 else m1)))"

definition SetMintedBlock :: "block \<Rightarrow> endorsementManager \<Rightarrow> endorsementManager" where
  "SetMintedBlock blk m = saved (m\<lparr>cachedMintedBlk := Some blk\<rparr>)"

definition em_Cleanup :: "int \<Rightarrow> endorsementManager \<Rightarrow> endorsementManager" where
  "em_Cleanup t m = saved (m\<lparr>
     collections := (if t \<noteq> zeroTime then map (\<lambda>(h, c). (h, bc_Cleanup t c)) (collections m) else []),
     cachedMintedBlk := (case cachedMintedBlk m of
        Some b \<Rightarrow> if t = zeroTime \<or> blkTimestamp b < t then None else Some b | None \<Rightarrow> None)\<rparr>)"

section \<open>The context of a round (roundctx.go)\<close>

datatype lock_status = st_open | st_locked | st_unlocked

record roundCtx =
  epochNum :: u64
  epochStartHeight :: u64
  nextEpochStartHeight :: u64
  numOfDelegates :: u64
  delegates :: "string list"
  proposers :: "string list"
  rHeight :: u64
  roundNum :: u32
  prevHash :: bhash
  proposer :: string
  roundStartTime :: int
  nextRoundStartTime :: int
  blockInLock :: bhash
  proofOfLock :: "Endorsement list"
  status :: lock_status
  eManager :: endorsementManager

definition IsDelegate :: "string \<Rightarrow> roundCtx \<Rightarrow> bool" where
  "IsDelegate a r \<longleftrightarrow> a \<in> set (delegates r)"

definition IsLocked :: "roundCtx \<Rightarrow> bool" where
  "IsLocked r \<longleftrightarrow> status r = st_locked"

definition IsUnlocked :: "roundCtx \<Rightarrow> bool" where
  "IsUnlocked r \<longleftrightarrow> status r = st_unlocked"

definition round_block :: "bhash \<Rightarrow> roundCtx \<Rightarrow> block option" where
  "round_block h r = (case CollectionByBlockHash h (eManager r) of None \<Rightarrow> None | Some c \<Rightarrow> bcBlk c)"

definition round_endorsements :: "bhash \<Rightarrow> byte list \<Rightarrow> roundCtx \<Rightarrow> Endorsement list" where
  "round_endorsements h topics r = collected h topics (eManager r)"

definition EndorsedByMajority :: "bhash \<Rightarrow> byte list \<Rightarrow> roundCtx \<Rightarrow> bool" where
  "EndorsedByMajority h topics r = isMajority (numOfDelegates r) (round_endorsements h topics r)"

text \<open>The documents of consensus messages.\<close>

record blockProposal =
  propBlock :: block
  propProofOfLock :: "Endorsement list"

datatype Document = DocVote ConsensusVote | DocProposal blockProposal

record EndorsedConsensusMessage =
  msgHeight :: u64
  msgDocument :: Document
  msgEndorsement :: Endorsement

definition ReadyToCommit :: "string list \<Rightarrow> roundCtx \<Rightarrow> EndorsedConsensusMessage list" where
  "ReadyToCommit addrs r =
     (case CollectionByBlockHash (blockInLock r) (eManager r) of
        None \<Rightarrow> []
      | Some c \<Rightarrow> (case bcBlk c of None \<Rightarrow> []
        | Some blk \<Rightarrow> List.map_filter (\<lambda>a. map_option (\<lambda>en.
            \<lparr>msgHeight = blkHeight blk, msgDocument = DocVote \<lparr>voteBlkHash = HashBlock blk, voteTopic = COMMIT\<rparr>,
             msgEndorsement = en\<rparr>) (bc_Endorsement a COMMIT c)) addrs))"

definition IsStale :: "u64 \<Rightarrow> u32 \<Rightarrow> EndorsedConsensusMessage option \<Rightarrow> roundCtx \<Rightarrow> bool" where
  "IsStale height num data r =
     (if height < rHeight r then True
      else if rHeight r < height then False
      else if roundNum r \<le> num then False
      else (case data of None \<Rightarrow> True
        | Some msg \<Rightarrow> (case msgDocument msg of DocVote vote \<Rightarrow> voteTopic vote \<noteq> COMMIT | DocProposal _ \<Rightarrow> True)))"

definition IsFuture :: "u64 \<Rightarrow> u32 \<Rightarrow> roundCtx \<Rightarrow> bool" where
  "IsFuture height num r \<longleftrightarrow> rHeight r < height \<or> height = rHeight r \<and> roundNum r < num"

definition AddBlock :: "block \<Rightarrow> roundCtx \<Rightarrow> roundCtx" where
  "AddBlock blk r = r\<lparr>eManager := RegisterBlock blk (eManager r)\<rparr>"

definition round_SetMintedBlock :: "block \<Rightarrow> roundCtx \<Rightarrow> roundCtx" where
  "round_SetMintedBlock blk r = r\<lparr>eManager := SetMintedBlock blk (eManager r)\<rparr>"

text \<open>What \<^verbatim>\<open>AddVoteEndorsement\<close> does to the lock once the endorsement is collected.\<close>

definition updateLock :: "ConsensusVote \<Rightarrow> roundCtx \<Rightarrow> roundCtx" where
  "updateLock vote r =
     (let h = voteBlkHash vote; es = round_endorsements h [PROPOSAL, COMMIT] r in
      if voteTopic vote = LOCK then r
      else if h \<noteq> [] \<and> status r = st_locked then r
      else if \<not> isMajority (numOfDelegates r) es then r
      else r\<lparr>status := (if h = [] then st_unlocked else st_locked), blockInLock := h, proofOfLock := es\<rparr>)"

definition AddVoteEndorsement :: "crypto_env \<Rightarrow> ConsensusVote \<Rightarrow> Endorsement \<Rightarrow> roundCtx \<Rightarrow> roundCtx res" where
  "AddVoteEndorsement env vote en r =
     bindR (checkR (VerifyEndorsement env (vote_Hash env vote) en) (Errorf ''invalid endorsement for the vote'')) (\<lambda>_.
     bindR (checkR (case keyAddress env (enEndorser en) of None \<Rightarrow> False | Some a \<Rightarrow> IsDelegate a r)
       (Errorf ''invalid endorser'')) (\<lambda>_.
     bindR (checkR (\<not> (voteBlkHash vote \<noteq> [] \<and> round_block (voteBlkHash vote) r = None))
       (Errorf ''the corresponding block not received'')) (\<lambda>_.
     bindR (em_AddVoteEndorsement env vote en (eManager r)) (\<lambda>m.
     Inr (updateLock vote (r\<lparr>eManager := m\<rparr>))))))"

section \<open>Every collected endorsement is a verified vote of a delegate\<close>

definition vote_ok :: "crypto_env \<Rightarrow> string set \<Rightarrow> bhash \<Rightarrow> byte \<Rightarrow> string \<Rightarrow> Endorsement \<Rightarrow> bool" where
  "vote_ok env D h topic key en \<longleftrightarrow>
     HexString env (enEndorser en) = key \<and>
     VerifyEndorsement env (vote_Hash env \<lparr>voteBlkHash = h, voteTopic = topic\<rparr>) en \<and>
     (\<exists>a\<in>D. keyAddress env (enEndorser en) = Some a)"

definition bc_inv :: "crypto_env \<Rightarrow> string set \<Rightarrow> bhash \<Rightarrow> blockEndorsementCollection \<Rightarrow> bool" where
  "bc_inv env D h c \<longleftrightarrow>
     distinct (map fst (endorsers c)) \<and> (\<forall>b. bcBlk c = Some b \<longrightarrow> HashBlock b = h) \<and>
     (\<forall>key ee topic en. map_of (endorsers c) key = Some ee \<longrightarrow> ee_Endorsement topic ee = Some en \<longrightarrow>
        vote_ok env D h topic key en)"

definition em_inv :: "crypto_env \<Rightarrow> string set \<Rightarrow> endorsementManager \<Rightarrow> bool" where
  "em_inv env D m \<longleftrightarrow> distinct (map fst (collections m)) \<and>
     (\<forall>h c. map_of (collections m) h = Some c \<longrightarrow> bc_inv env D h c)"

named_theorems em_inv_intros \<open>the invariant of collected endorsements is kept\<close>

lemma em_inv_saved [simp]: "em_inv env D (saved m) = em_inv env D m"
  by (simp add: em_inv_def saved_def PutEndorsementManagerToDB_def)

lemma em_inv_put [simp]: "em_inv env D (PutEndorsementManagerToDB m) = em_inv env D m"
  by (simp add: em_inv_def PutEndorsementManagerToDB_def)

lemma em_inv_empty: "collections m = [] \<Longrightarrow> em_inv env D m"
  by (simp add: em_inv_def)

lemma em_inv_update:
  "em_inv env D m \<Longrightarrow> bc_inv env D h c \<Longrightarrow> em_inv env D (m\<lparr>collections := AList.update h c (collections m)\<rparr>)"
  by (simp add: em_inv_def distinct_update update_conv')

lemma bc_inv_new: "(\<And>b. blk = Some b \<Longrightarrow> HashBlock b = h) \<Longrightarrow> bc_inv env D h (newBlockEndorsementCollection blk)"
  by (simp add: bc_inv_def newBlockEndorsementCollection_def)

lemma em_inv_RegisterBlock [em_inv_intros]: "em_inv env D m \<Longrightarrow> em_inv env D (RegisterBlock blk m)"
proof -
  assume inv: "em_inv env D m"
  show ?thesis
  proof (cases "map_of (collections m) (HashBlock blk)")
    case None
    then show ?thesis using inv by (auto simp: RegisterBlock_def intro!: em_inv_update bc_inv_new)
  next
    case (Some c)
    then have "bc_inv env D (HashBlock blk) (c\<lparr>bcBlk := Some blk\<rparr>)"
      using inv by (simp add: em_inv_def bc_inv_def)
    then show ?thesis using Some inv by (simp add: RegisterBlock_def em_inv_update)
  qed
qed

lemma em_inv_SetMintedBlock [em_inv_intros]: "em_inv env D m \<Longrightarrow> em_inv env D (SetMintedBlock blk m)"
  unfolding SetMintedBlock_def em_inv_saved by (simp add: em_inv_def)

lemma ee_Cleanup_sub: "ee_Endorsement topic (ee_Cleanup t ee) = Some en \<Longrightarrow> ee_Endorsement topic ee = Some en"
  by (auto simp: ee_Cleanup_def ee_keep_def ee_Endorsement_def map_add_def split: option.splits if_splits)

lemma map_of_map_snd: "map_of (map (\<lambda>(k, v). (k, f v)) xs) k = map_option f (map_of xs k)"
  by (induction xs) auto

lemma map_fst_map_snd: "map (fst \<circ> (\<lambda>(k, v). (k, f v))) xs = map fst xs"
  by (induction xs) auto

lemma bc_inv_Cleanup: "bc_inv env D h c \<Longrightarrow> bc_inv env D h (bc_Cleanup t c)"
  unfolding bc_inv_def bc_Cleanup_def
  by (auto simp: map_of_map_snd map_fst_map_snd dest: ee_Cleanup_sub)

lemma em_inv_Cleanup [em_inv_intros]: "em_inv env D m \<Longrightarrow> em_inv env D (em_Cleanup t m)"
  unfolding em_Cleanup_def em_inv_saved by (auto simp: em_inv_def map_of_map_snd map_fst_map_snd bc_inv_Cleanup)

lemma ee_AddEndorsement_Inr:
  assumes "ee_AddEndorsement topic en ee = Inr ee'"
  shows "ee_Endorsement t ee' = (if t = topic then Some en else ee_Endorsement t ee)"
  using assms by (auto simp: ee_AddEndorsement_def ee_Endorsement_def update_conv' split: if_splits)

lemma bc_inv_AddEndorsement:
  assumes "bc_AddEndorsement env topic en c = Inr c'" "bc_inv env D h c"
    "vote_ok env D h topic (HexString env (enEndorser en)) en"
  shows "bc_inv env D h c'"
proof -
  let ?key = "HexString env (enEndorser en)"
  let ?ee = "case map_of (endorsers c) ?key of Some ee \<Rightarrow> ee | None \<Rightarrow> newEndorserEndorsementCollection"
  obtain ee' where ee': "ee_AddEndorsement topic en ?ee = Inr ee'"
    and c': "c' = c\<lparr>endorsers := AList.update ?key ee' (endorsers c)\<rparr>"
    using assms(1) by (auto simp: bc_AddEndorsement_def Let_def res_simps)
  have old: "vote_ok env D h t ?key e" if "ee_Endorsement t ?ee = Some e" for t e
    using that assms(2)
    by (auto simp: bc_inv_def newEndorserEndorsementCollection_def ee_Endorsement_def split: option.splits)
  have "vote_ok env D h t ?key e" if "ee_Endorsement t ee' = Some e" for t e
    using that old assms(3) by (auto simp: ee_AddEndorsement_Inr [OF ee'] split: if_splits)
  then show ?thesis
    using assms(2) by (auto simp: bc_inv_def c' distinct_update update_conv' split: if_splits)
qed

lemma em_inv_AddVote:
  assumes "em_AddVoteEndorsement env vote en m = Inr m'" "em_inv env D m"
    "vote_ok env D (voteBlkHash vote) (voteTopic vote) (HexString env (enEndorser en)) en"
  shows "em_inv env D m'"
proof -
  let ?c = "case map_of (collections m) (voteBlkHash vote) of
    Some c \<Rightarrow> c | None \<Rightarrow> newBlockEndorsementCollection None"
  obtain c where c: "bc_AddEndorsement env (voteTopic vote) en ?c = Inr c"
    and m': "m' = m\<lparr>collections := AList.update (voteBlkHash vote) c (collections m)\<rparr> \<or>
      m' = PutEndorsementManagerToDB (m\<lparr>collections := AList.update (voteBlkHash vote) c (collections m)\<rparr>)"
    using assms(1) by (auto simp: em_AddVoteEndorsement_def Let_def bindR_Inr split: if_splits)
  have "bc_inv env D (voteBlkHash vote) ?c"
    using assms(2) by (auto simp: em_inv_def intro!: bc_inv_new split: option.splits)
  then have "bc_inv env D (voteBlkHash vote) c" using bc_inv_AddEndorsement [OF c] assms(3) by simp
  then show ?thesis using m' assms(2) by (auto simp: em_inv_update)
qed

lemma updateLock_frame [simp]:
  "eManager (updateLock vote r) = eManager r" "delegates (updateLock vote r) = delegates r"
  "numOfDelegates (updateLock vote r) = numOfDelegates r" "rHeight (updateLock vote r) = rHeight r"
  by (simp_all add: updateLock_def Let_def)

lemma vote_eta [simp]: "\<lparr>voteBlkHash = voteBlkHash vote, voteTopic = voteTopic vote\<rparr> = vote"
  by (cases vote) simp

lemma AddVoteEndorsement_Inr:
  assumes "AddVoteEndorsement env vote en r = Inr r'"
  obtains m where "em_AddVoteEndorsement env vote en (eManager r) = Inr m"
    "r' = updateLock vote (r\<lparr>eManager := m\<rparr>)"
    "vote_ok env (set (delegates r)) (voteBlkHash vote) (voteTopic vote) (HexString env (enEndorser en)) en"
    "voteBlkHash vote \<noteq> [] \<Longrightarrow> round_block (voteBlkHash vote) r \<noteq> None"
  using assms
  by (auto simp: AddVoteEndorsement_def res_simps IsDelegate_def vote_ok_def split: option.splits)

definition round_inv :: "crypto_env \<Rightarrow> roundCtx \<Rightarrow> bool" where
  "round_inv env r \<longleftrightarrow> em_inv env (set (delegates r)) (eManager r)"

lemma round_inv_AddVote:
  assumes "round_inv env r" "AddVoteEndorsement env vote en r = Inr r'"
  shows "round_inv env r' \<and> delegates r' = delegates r \<and> numOfDelegates r' = numOfDelegates r"
  using assms by (auto simp: round_inv_def elim!: AddVoteEndorsement_Inr intro: em_inv_AddVote)

lemma round_inv_AddBlock: "round_inv env r \<Longrightarrow> round_inv env (AddBlock blk r)"
  by (simp add: round_inv_def AddBlock_def em_inv_intros)

section \<open>Majorities\<close>

text \<open>Two sets of more than two thirds share more than a third.\<close>

lemma quorum_intersection:
  assumes "finite D" "A \<subseteq> D" "B \<subseteq> D" "2 * card D < 3 * card A" "2 * card D < 3 * card B"
  shows "card D < 3 * card (A \<inter> B)"
proof -
  have fin: "finite A" "finite B" using assms by (auto intro: finite_subset)
  have "card (A \<union> B) \<le> card D" using assms by (intro card_mono) auto
  moreover have "card A + card B = card (A \<union> B) + card (A \<inter> B)" using card_Un_Int [OF fin] by simp
  ultimately show ?thesis using assms(4,5) by linarith
qed

text \<open>The delegates whose verified endorsement of \<open>h\<close> on one of the topics is in the list.\<close>

definition endorsedBy :: "crypto_env \<Rightarrow> bhash \<Rightarrow> byte list \<Rightarrow> Endorsement list \<Rightarrow> string set" where
  "endorsedBy env h topics es = {a. \<exists>en\<in>set es. keyAddress env (enEndorser en) = Some a \<and>
     (\<exists>topic\<in>set topics. VerifyEndorsement env (vote_Hash env \<lparr>voteBlkHash = h, voteTopic = topic\<rparr>) en)}"

definition unique_address :: "crypto_env \<Rightarrow> bool" where
  "unique_address env \<longleftrightarrow> (\<forall>k k' a. keyAddress env k = Some a \<longrightarrow> keyAddress env k' = Some a \<longrightarrow> k = k')"

lemma firstOf_Some: "firstOf topics ee = Some en \<Longrightarrow> \<exists>topic\<in>set topics. ee_Endorsement topic ee = Some en"
  by (induction topics) (auto split: option.splits)

lemma map_filter_distinct:
  assumes "distinct (map fst xs)" "\<And>k v y. (k, v) \<in> set xs \<Longrightarrow> f v = Some y \<Longrightarrow> g y = k"
  shows "distinct (map g (List.map_filter (\<lambda>(_, v). f v) xs))"
  using assms
proof (induction xs)
  case (Cons x xs)
  obtain k v where x: "x = (k, v)" by (cases x)
  have IH: "distinct (map g (List.map_filter (\<lambda>(_, v). f v) xs))" using Cons by auto
  have keys: "g y \<in> fst ` set xs" if "y \<in> set (List.map_filter (\<lambda>(_, v). f v) xs)" for y
    using that Cons.prems(2) by (force simp: List.map_filter_def)
  show ?case
  proof (cases "f v")
    case None
    then show ?thesis using IH by (simp add: x List.map_filter_simps)
  next
    case (Some y)
    then have "g y = k" using Cons.prems(2) [of k v y] by (simp add: x)
    then have "g y \<notin> g ` set (List.map_filter (\<lambda>(_, v). f v) xs)"
      using keys Cons.prems(1) by (auto simp: x)
    then show ?thesis using Some IH by (simp add: x List.map_filter_simps)
  qed
qed (simp add: List.map_filter_simps)

lemma collected_votes:
  assumes "em_inv env D m" "en \<in> set (collected h topics m)"
  shows "\<exists>topic\<in>set topics. vote_ok env D h topic (HexString env (enEndorser en)) en"
proof -
  obtain c where c: "map_of (collections m) h = Some c" and en: "en \<in> set (bc_Endorsements topics c)"
    using assms(2) by (cases "map_of (collections m) h") (auto simp: collected_def CollectionByBlockHash_def)
  have inv: "bc_inv env D h c" using assms(1) c by (simp add: em_inv_def)
  obtain key ee where "(key, ee) \<in> set (endorsers c)" "firstOf topics ee = Some en"
    using en by (auto simp: bc_Endorsements_def List.map_filter_def)
  then show ?thesis
    using inv firstOf_Some [of topics ee en] unfolding bc_inv_def vote_ok_def
    by (metis map_of_is_SomeI)
qed

lemma collected_distinct:
  assumes "em_inv env D m"
  shows "distinct (map (\<lambda>en. HexString env (enEndorser en)) (collected h topics m))"
proof (cases "map_of (collections m) h")
  case (Some c)
  then have inv: "bc_inv env D h c" using assms by (simp add: em_inv_def)
  have "distinct (map (\<lambda>en. HexString env (enEndorser en)) (bc_Endorsements topics c))"
    unfolding bc_Endorsements_def
  proof (rule map_filter_distinct)
    show "distinct (map fst (endorsers c))" using inv by (simp add: bc_inv_def)
    fix key ee en assume "(key, ee) \<in> set (endorsers c)" "firstOf topics ee = Some en"
    then show "HexString env (enEndorser en) = key"
      using inv firstOf_Some [of topics ee en] unfolding bc_inv_def vote_ok_def by (metis map_of_is_SomeI)
  qed
  then show ?thesis using Some by (simp add: collected_def CollectionByBlockHash_def)
qed (simp add: collected_def CollectionByBlockHash_def)

lemma voters_card:
  assumes ok: "\<And>en. en \<in> set es \<Longrightarrow> \<exists>topic\<in>set topics. vote_ok env D h topic (HexString env (enEndorser en)) en"
    and keys: "distinct (map (\<lambda>en. HexString env (enEndorser en)) es)" and uniq: "unique_address env"
  shows "endorsedBy env h topics es \<subseteq> D" and "card (endorsedBy env h topics es) = length es"
proof -
  let ?addr = "\<lambda>en. the (keyAddress env (enEndorser en))"
  have eq: "endorsedBy env h topics es = ?addr ` set es"
  proof (rule set_eqI)
    fix a show "a \<in> endorsedBy env h topics es \<longleftrightarrow> a \<in> ?addr ` set es"
      using ok unfolding endorsedBy_def vote_ok_def by (auto simp: image_iff; force)
  qed
  have "inj_on ?addr (set es)"
  proof (rule inj_onI)
    fix x y assume xy: "x \<in> set es" "y \<in> set es" "?addr x = ?addr y"
    then have "enEndorser x = enEndorser y"
      using ok [of x] ok [of y] uniq unfolding vote_ok_def unique_address_def by (metis option.sel)
    then show "x = y" using keys xy by (auto simp: distinct_map inj_on_def)
  qed
  then show "card (endorsedBy env h topics es) = length es"
    using keys by (simp add: eq card_image distinct_card distinct_map)
  show "endorsedBy env h topics es \<subseteq> D" using ok unfolding eq vote_ok_def by force
qed

lemma sint_small: "unat (w :: u64) < 2 ^ 63 \<Longrightarrow> sint w = int (unat w)"
proof -
  assume "unat w < 2 ^ 63"
  then have "uint w < 2 ^ 63" by (metis of_nat_less_iff of_nat_numeral of_nat_power uint_nat)
  moreover have "- (2 ^ 63) \<le> uint w" using uint_ge_0 [of w] by (rule order_trans [rotated]) simp
  ultimately have "signed_take_bit 63 (uint w) = uint w" by (intro signed_take_bit_int_eq_self)
  then show ?thesis by (simp add: sint_uint)
qed

lemma isMajority_nat:
  assumes "unat n < 2 ^ 60" "length es < 2 ^ 60"
  shows "isMajority n es \<longleftrightarrow> 2 * unat n < 3 * length es"
proof -
  have a: "unat (2 * n) = 2 * unat n" using assms(1) by (simp add: unat_word_ariths)
  have b: "unat (3 * word_of_nat (length es) :: u64) = 3 * length es"
    using assms(2) by (simp add: unat_word_ariths unat_of_nat)
  have "sint (2 * n) = int (2 * unat n)" using sint_small [of "2 * n"] a assms(1) by simp
  moreover have "sint (3 * word_of_nat (length es) :: u64) = int (3 * length es)"
    using sint_small [of "3 * word_of_nat (length es)"] b assms(2) by simp
  ultimately show ?thesis unfolding isMajority_def word_sless_alt by linarith
qed

text \<open>The delegates of a round are the number the protocol configures.\<close>

definition delegates_ok :: "roundCtx \<Rightarrow> bool" where
  "delegates_ok r \<longleftrightarrow> distinct (delegates r) \<and> length (delegates r) = unat (numOfDelegates r) \<and>
     length (delegates r) < 2 ^ 60"

lemma majority_voters:
  assumes "\<And>en. en \<in> set es \<Longrightarrow> \<exists>topic\<in>set topics. vote_ok env (set (delegates r)) h topic (HexString env (enEndorser en)) en"
    and "distinct (map (\<lambda>en. HexString env (enEndorser en)) es)" and "unique_address env" and "delegates_ok r"
    and "isMajority (numOfDelegates r) es"
  shows "endorsedBy env h topics es \<subseteq> set (delegates r)"
    and "2 * length (delegates r) < 3 * card (endorsedBy env h topics es)"
proof -
  note v = voters_card [OF assms(1-3)]
  show sub: "endorsedBy env h topics es \<subseteq> set (delegates r)" using v(1) .
  have "length es \<le> length (delegates r)"
    using card_mono [OF _ sub] assms(4) by (simp add: v(2) delegates_ok_def distinct_card)
  then show "2 * length (delegates r) < 3 * card (endorsedBy env h topics es)"
    using assms(4,5) by (simp add: delegates_ok_def isMajority_nat v(2))
qed

lemma majority_endorsers:
  assumes "round_inv env r" "unique_address env" "delegates_ok r" "EndorsedByMajority h topics r"
  shows "endorsedBy env h topics (round_endorsements h topics r) \<subseteq> set (delegates r)"
    and "2 * length (delegates r) < 3 * card (endorsedBy env h topics (round_endorsements h topics r))"
  using majority_voters [of "round_endorsements h topics r" topics env r h] assms
    collected_votes [of env "set (delegates r)" "eManager r" _ h topics] collected_distinct [of env "set (delegates r)" "eManager r" h topics]
  by (simp_all add: round_inv_def round_endorsements_def EndorsedByMajority_def)

end
