(* ===== verification/Rounds.thy ===== *)
theory Rounds
  imports Endorsements Epoch
begin

text \<open>
  Rounds of the roll-DPoS consensus: the timing of a round (\<^verbatim>\<open>consensusfsm/consensus_ttl.go\<close>), the
  round calculator (\<^verbatim>\<open>roundcalculator.go\<close>), the context the state machine works on
  (\<^verbatim>\<open>rolldposctx.go\<close>) and the validation of block footers (\<^verbatim>\<open>rolldpos.go\<close>), under
  \<^verbatim>\<open>consensus/scheme/rolldpos\<close>.

  The chain, its forks and the selection of delegates are records of functions: what they answer.
  Times are nanoseconds; a difference of times saturates at the bounds of a 64-bit integer and a
  product of durations wraps, as in Go.  Minting the next block in the background, broadcasting and
  logging have no effect on the context and are left out.
\<close>

section \<open>Timing (consensus_ttl.go)\<close>

record ConsensusTiming =
  tmUnmatchedEventTTL :: int
  tmUnmatchedEventInterval :: int
  tmAcceptBlockTTL :: int
  tmAcceptProposalEndorsementTTL :: int
  tmAcceptLockEndorsementTTL :: int
  tmCommitTTL :: int
  tmBlockInterval :: int
  tmDelay :: int

record consensusCfg =
  cfgTiming :: ConsensusTiming
  cfgDardanelles :: ConsensusTiming
  cfgDardanellesHeight :: u64
  cfgWake :: ConsensusTiming
  cfgWakeHeight :: u64

definition timingAt :: "consensusCfg \<Rightarrow> u64 \<Rightarrow> ConsensusTiming" where
  "timingAt c height =
     (if cfgWakeHeight c \<le> height then cfgWake c
      else if cfgDardanellesHeight c \<le> height then cfgDardanelles c
      else cfgTiming c)"

definition AcceptBlockTTL :: "consensusCfg \<Rightarrow> u64 \<Rightarrow> int" where
  "AcceptBlockTTL c height = tmAcceptBlockTTL (timingAt c height)"

definition AcceptProposalEndorsementTTL :: "consensusCfg \<Rightarrow> u64 \<Rightarrow> int" where
  "AcceptProposalEndorsementTTL c height = tmAcceptProposalEndorsementTTL (timingAt c height)"

definition AcceptLockEndorsementTTL :: "consensusCfg \<Rightarrow> u64 \<Rightarrow> int" where
  "AcceptLockEndorsementTTL c height = tmAcceptLockEndorsementTTL (timingAt c height)"

definition CommitTTL :: "consensusCfg \<Rightarrow> u64 \<Rightarrow> int" where
  "CommitTTL c height = tmCommitTTL (timingAt c height)"

definition UnmatchedEventTTL :: "consensusCfg \<Rightarrow> u64 \<Rightarrow> int" where
  "UnmatchedEventTTL c height = tmUnmatchedEventTTL (timingAt c height)"

definition UnmatchedEventInterval :: "consensusCfg \<Rightarrow> u64 \<Rightarrow> int" where
  "UnmatchedEventInterval c height = tmUnmatchedEventInterval (timingAt c height)"

definition BlockInterval :: "consensusCfg \<Rightarrow> u64 \<Rightarrow> int" where
  "BlockInterval c height = tmBlockInterval (timingAt c height)"

definition Delay :: "consensusCfg \<Rightarrow> u64 \<Rightarrow> int" where
  "Delay c height = (if cfgDardanellesHeight c \<le> height then tmDelay (cfgDardanelles c) else tmDelay (cfgTiming c))"

section \<open>Go's durations\<close>

definition maxDuration :: int where "maxDuration = 2 ^ 63 - 1"
definition minDuration :: int where "minDuration = - (2 ^ 63)"

definition timeSub :: "int \<Rightarrow> int \<Rightarrow> int" where
  "timeSub t u = (let d = t - u in if maxDuration < d then maxDuration else if d < minDuration then minDuration else d)"

definition wrap64 :: "int \<Rightarrow> int" where
  "wrap64 x = sint (word_of_int x :: u64)"

text \<open>\<^verbatim>\<open>d / interval * interval\<close>, which panics for a zero interval.\<close>

definition roundDown :: "int \<Rightarrow> int \<Rightarrow> int res" where
  "roundDown d interval =
     (if interval = 0 then Inl (Panic ''division by zero'') else Inr (wrap64 (go_quot d interval * interval)))"

section \<open>The round calculator (roundcalculator.go)\<close>

record ForkChain =
  TipHash :: bhash
  BlockProposeTime :: "u64 \<Rightarrow> int res"
  BlockCommitTime :: "u64 \<Rightarrow> int res"

record roundCalculator =
  rcChain :: ForkChain
  timeBasedRotation :: bool
  rp :: RollDPoS
  delegatesByEpochFunc :: "u64 \<Rightarrow> bhash \<Rightarrow> string list res"
  proposersByEpochFunc :: "u64 \<Rightarrow> bhash \<Rightarrow> string list res"
  beringHeight :: u64

text \<open>The round number and start time, once the last block time is known.\<close>

definition roundAt :: "int \<Rightarrow> int \<Rightarrow> int \<Rightarrow> int \<Rightarrow> (u32 \<times> int) res" where
  "roundAt blockInterval now toleratedOvertime lastBlockTime =
     (if \<not> lastBlockTime < now then Inl ErrInvalidCurrentTime
      else
        let duration = timeSub now lastBlockTime in
        if blockInterval = 0 \<and> blockInterval < duration then Inl (Panic ''division by zero'')
        else
          let n = (if blockInterval < duration then
                     (let q = word_of_int (go_quot duration blockInterval) in
                      if toleratedOvertime = 0 \<or> duration - go_quot duration blockInterval * blockInterval < toleratedOvertime
                      then q - 1 else q)
                   else 0 :: u32) in
          Inr (n, lastBlockTime + wrap64 (uint (n + 1) * blockInterval)))"

definition lastBlockTimeOf :: "roundCalculator \<Rightarrow> u64 \<Rightarrow> int \<Rightarrow> int res" where
  "lastBlockTimeOf c height blockInterval =
     bindR (BlockProposeTime (rcChain c) 0) (\<lambda>genesisTime.
     if 1 < height then
       bindR (if beringHeight c \<le> height then BlockProposeTime (rcChain c) (height - 1)
              else BlockCommitTime (rcChain c) (height - 1)) (\<lambda>t.
       bindR (roundDown (timeSub t genesisTime) blockInterval) (\<lambda>d. Inr (genesisTime + d)))
     else Inr genesisTime)"

definition roundInfo :: "roundCalculator \<Rightarrow> u64 \<Rightarrow> int \<Rightarrow> int \<Rightarrow> int \<Rightarrow> (u32 \<times> int) res" where
  "roundInfo c height blockInterval now toleratedOvertime =
     bindR (lastBlockTimeOf c height blockInterval) (roundAt blockInterval now toleratedOvertime)"

definition RoundInfo :: "roundCalculator \<Rightarrow> u64 \<Rightarrow> int \<Rightarrow> int \<Rightarrow> (u32 \<times> int) res" where
  "RoundInfo c height blockInterval now = roundInfo c height blockInterval now 0"

definition Delegates :: "roundCalculator \<Rightarrow> u64 \<Rightarrow> string list res" where
  "Delegates c height =
     bindR (GetEpochNum (rp c) height) (\<lambda>e. delegatesByEpochFunc c e (TipHash (rcChain c)))"

definition Proposers :: "roundCalculator \<Rightarrow> u64 \<Rightarrow> string list res" where
  "Proposers c height =
     bindR (GetEpochNum (rp c) height) (\<lambda>e. proposersByEpochFunc c e (TipHash (rcChain c)))"

definition rc_IsDelegate :: "roundCalculator \<Rightarrow> string \<Rightarrow> u64 \<Rightarrow> bool" where
  "rc_IsDelegate c a height = (case Delegates c height of Inl _ \<Rightarrow> False | Inr ds \<Rightarrow> a \<in> set ds)"

definition calculateProposer :: "roundCalculator \<Rightarrow> u64 \<Rightarrow> u32 \<Rightarrow> string list \<Rightarrow> string res" where
  "calculateProposer c height n ps =
     (let numProposers = numDelegates (rp c);
          idx = (if timeBasedRotation c then height + ucast n else height) in
      if numProposers \<noteq> word_of_nat (length ps) then Inl (Errorf ''invalid proposer list'')
      else if numProposers = 0 then Inl (Panic ''integer divide by zero'')
      else Inr (ps ! unat (idx mod numProposers)))"

definition newRound ::
  "crypto_env \<Rightarrow> roundCalculator \<Rightarrow> u64 \<Rightarrow> int \<Rightarrow> int \<Rightarrow> endorsementManager option \<Rightarrow> int \<Rightarrow> roundCtx res" where
  "newRound env c height blockInterval now em toleratedOvertime =
     bindR (if height \<noteq> 0 then
         bindR (GetEpochNum (rp c) height) (\<lambda>e.
         bindR (GetEpochHeight (rp c) e) (\<lambda>es.
         bindR (Delegates c height) (\<lambda>ds.
         bindR (Proposers c height) (\<lambda>ps.
         bindR (roundInfo c height blockInterval now toleratedOvertime) (\<lambda>(n, start).
         bindR (calculateProposer c height n ps) (\<lambda>p.
         Inr (e, es, ds, ps, n, start, p)))))))
       else Inr (0, 0, [], [], 0, zeroTime, [])) (\<lambda>(e, es, ds, ps, n, start, p).
     bindR (case em of Some m \<Rightarrow> Inr m | None \<Rightarrow> newEndorsementManager env None) (\<lambda>m.
     bindR (GetEpochHeight (rp c) (e + 1)) (\<lambda>next.
     Inr \<lparr>epochNum = e, epochStartHeight = es, nextEpochStartHeight = next, numOfDelegates = numDelegates (rp c),
       delegates = ds, proposers = ps, rHeight = height, roundNum = n, prevHash = TipHash (rcChain c), proposer = p,
       roundStartTime = start, nextRoundStartTime = start + blockInterval, blockInLock = [], proofOfLock = [],
       status = st_open, eManager = SetIsMajorityFunc (numDelegates (rp c)) m\<rparr>)))"

definition NewRoundWithToleration ::
  "crypto_env \<Rightarrow> roundCalculator \<Rightarrow> u64 \<Rightarrow> int \<Rightarrow> int \<Rightarrow> endorsementManager option \<Rightarrow> int \<Rightarrow> roundCtx res" where
  "NewRoundWithToleration env c height blockInterval now em toleratedOvertime =
     newRound env c height blockInterval now em toleratedOvertime"

definition NewRound ::
  "crypto_env \<Rightarrow> roundCalculator \<Rightarrow> u64 \<Rightarrow> int \<Rightarrow> int \<Rightarrow> endorsementManager option \<Rightarrow> roundCtx res" where
  "NewRound env c height blockInterval now em = newRound env c height blockInterval now em 0"

definition Proposer :: "crypto_env \<Rightarrow> roundCalculator \<Rightarrow> u64 \<Rightarrow> int \<Rightarrow> int \<Rightarrow> string" where
  "Proposer env c height blockInterval t =
     (case newRound env c height blockInterval t None 0 of Inl _ \<Rightarrow> [] | Inr r \<Rightarrow> proposer r)"

text \<open>The epoch, delegates and proposers of the next round.\<close>

definition nextEpoch ::
  "roundCalculator \<Rightarrow> roundCtx \<Rightarrow> u64 \<Rightarrow> (u64 \<times> u64 \<times> string list \<times> string list) res" where
  "nextEpoch c r height =
     (if rHeight r < height \<and> nextEpochStartHeight r \<le> height then
        bindR (GetEpochNum (rp c) height) (\<lambda>e.
        bindR (GetEpochHeight (rp c) e) (\<lambda>es.
        bindR (Delegates c height) (\<lambda>ds.
        bindR (Proposers c height) (\<lambda>ps. Inr (e, es, ds, ps)))))
      else Inr (epochNum r, epochStartHeight r, delegates r, proposers r))"

definition UpdateRound :: "roundCalculator \<Rightarrow> roundCtx \<Rightarrow> u64 \<Rightarrow> int \<Rightarrow> int \<Rightarrow> int \<Rightarrow> roundCtx res" where
  "UpdateRound c r height blockInterval now toleratedOvertime =
     (if height < rHeight r then Inl (Errorf ''cannot update to a lower height'')
      else if height = rHeight r \<and> now < roundStartTime r then Inr r
      else
        bindR (nextEpoch c r height) (\<lambda>(e, es, ds, ps).
        bindR (roundInfo c height blockInterval now toleratedOvertime) (\<lambda>(n, start).
        bindR (calculateProposer c height n ps) (\<lambda>p.
        bindR (GetEpochHeight (rp c) (e + 1)) (\<lambda>next.
        let same = (height = rHeight r) in
        Inr \<lparr>epochNum = e, epochStartHeight = es, nextEpochStartHeight = next, numOfDelegates = numOfDelegates r,
          delegates = ds, proposers = ps, rHeight = height, roundNum = n, prevHash = TipHash (rcChain c), proposer = p,
          roundStartTime = start, nextRoundStartTime = start + blockInterval,
          blockInLock = (if same then blockInLock r else []), proofOfLock = (if same then proofOfLock r else []),
          status = (if same then status r else st_open),
          eManager = em_Cleanup (if same then start else zeroTime) (eManager r)\<rparr>)))))"

section \<open>The context of the state machine (rolldposctx.go)\<close>

text \<open>What the chain manager answers.\<close>

record ChainManager =
  cmTipHeight :: u64
  cmFork :: "bhash \<Rightarrow> ForkChain res"
  cmValidateBlock :: "block \<Rightarrow> unit res"
  cmMintNewBlock :: "int \<Rightarrow> privkey \<Rightarrow> bhash \<Rightarrow> block res"
  cmCommitBlock :: "block \<Rightarrow> unit res"

definition ErrInvalidTipHeight :: go_error where "ErrInvalidTipHeight = Errorf ''invalid tip height''"
definition ErrPaused :: go_error where "ErrPaused = Errorf ''the chain is paused''"

record rollDPoSCtx =
  ctxCfg :: consensusCfg
  ctxChain :: ChainManager
  roundCalc :: roundCalculator
  toleratedOvertime :: int
  encodedAddrs :: "string list"
  priKeys :: "privkey list"
  round :: roundCtx
  ctxActive :: bool

definition onRound :: "(roundCtx \<Rightarrow> roundCtx res) \<Rightarrow> (rollDPoSCtx, unit) op" where
  "onRound f ctx = (case f (round ctx) of Inl e \<Rightarrow> (Inl e, ctx) | Inr r \<Rightarrow> (Inr (), ctx\<lparr>round := r\<rparr>))"

definition hasDelegate :: "rollDPoSCtx \<Rightarrow> bool" where
  "hasDelegate ctx \<longleftrightarrow> ctxActive ctx \<and> (\<exists>a\<in>set (encodedAddrs ctx). IsDelegate a (round ctx))"

definition Prepare :: "int \<Rightarrow> (rollDPoSCtx, unit) op" where
  "Prepare now =
     bindS (readS (\<lambda>ctx. ctx)) (\<lambda>ctx.
     let height = cmTipHeight (ctxChain ctx) + 1 in
     onRound (\<lambda>r. UpdateRound (roundCalc ctx) r height (BlockInterval (ctxCfg ctx) height) now (toleratedOvertime ctx)))"

definition verifyVote :: "crypto_env \<Rightarrow> EndorsedConsensusMessage \<Rightarrow> byte list \<Rightarrow> (rollDPoSCtx, bhash) op" where
  "verifyVote env msg topics =
     (case msgDocument msg of
        DocProposal _ \<Rightarrow> failS (Errorf ''invalid msg'')
      | DocVote vote \<Rightarrow>
          thenS (onRound (AddVoteEndorsement env vote (msgEndorsement msg))) (
          bindS (readS (\<lambda>ctx. EndorsedByMajority (voteBlkHash vote) topics (round ctx))) (\<lambda>ok.
          thenS (checkS ok ErrInsufficientEndorsements) (
          returnS (voteBlkHash vote)))))"

definition newEndorsement ::
  "crypto_env \<Rightarrow> bhash \<Rightarrow> byte \<Rightarrow> int \<Rightarrow> rollDPoSCtx \<Rightarrow> EndorsedConsensusMessage list res" where
  "newEndorsement env blkHash topic t ctx =
     (let vote = \<lparr>voteBlkHash = blkHash, voteTopic = topic\<rparr>;
          privKeys = map snd (filter (\<lambda>(a, _). IsDelegate a (round ctx)) (zip (encodedAddrs ctx) (priKeys ctx))) in
      bindR (Endorse env (vote_Hash env vote) t privKeys) (\<lambda>ens.
      Inr (map (\<lambda>en. \<lparr>msgHeight = rHeight (round ctx), msgDocument = DocVote vote, msgEndorsement = en\<rparr>) ens)))"

definition endorseBlockProposal ::
  "crypto_env \<Rightarrow> (blockProposal \<Rightarrow> byte list res) \<Rightarrow> blockProposal \<Rightarrow> privkey \<Rightarrow> rollDPoSCtx \<Rightarrow> EndorsedConsensusMessage res" where
  "endorseBlockProposal env proposalHash proposal key ctx =
     bindR (Endorse env (proposalHash proposal) (roundStartTime (round ctx)) [key]) (\<lambda>ens.
     case ens of [en] \<Rightarrow> Inr \<lparr>msgHeight = rHeight (round ctx), msgDocument = DocProposal proposal, msgEndorsement = en\<rparr>
     | _ \<Rightarrow> Inl (Errorf ''invalid number of endorsements''))"

definition mintNewBlock ::
  "crypto_env \<Rightarrow> (blockProposal \<Rightarrow> byte list res) \<Rightarrow> privkey \<Rightarrow> (rollDPoSCtx, EndorsedConsensusMessage) op" where
  "mintNewBlock env proposalHash key =
     bindS (readS (\<lambda>ctx. ctx)) (\<lambda>ctx.
     bindS (case cachedMintedBlk (eManager (round ctx)) of
         Some blk \<Rightarrow> returnS blk
       | None \<Rightarrow>
           bindS (liftS (cmMintNewBlock (ctxChain ctx) (roundStartTime (round ctx)) key (prevHash (round ctx)))) (\<lambda>blk.
           thenS (onRound (\<lambda>r. Inr (round_SetMintedBlock blk r))) (
           returnS blk))) (\<lambda>blk.
     liftS (endorseBlockProposal env proposalHash
       \<lparr>propBlock = blk, propProofOfLock = (if IsUnlocked (round ctx) then proofOfLock (round ctx) else [])\<rparr> key ctx)))"

definition signingKey :: "rollDPoSCtx \<Rightarrow> privkey option" where
  "signingKey ctx =
     (if proposer (round ctx) = [] then (case priKeys ctx of [] \<Rightarrow> None | k # _ \<Rightarrow> Some k)
      else map_option snd (find (\<lambda>(a, _). a = proposer (round ctx)) (zip (encodedAddrs ctx) (priKeys ctx))))"

definition Proposal ::
  "crypto_env \<Rightarrow> (blockProposal \<Rightarrow> byte list res) \<Rightarrow> (rollDPoSCtx, EndorsedConsensusMessage option) op" where
  "Proposal env proposalHash =
     bindS (readS (\<lambda>ctx. ctx)) (\<lambda>ctx.
     case signingKey ctx of
       None \<Rightarrow> returnS None
     | Some key \<Rightarrow>
         if IsLocked (round ctx) then
           (case round_block (blockInLock (round ctx)) (round ctx) of
              None \<Rightarrow> failS (Panic ''nil block in lock'')
            | Some blk \<Rightarrow> bindS (liftS (endorseBlockProposal env proposalHash
                \<lparr>propBlock = blk, propProofOfLock = proofOfLock (round ctx)\<rparr> key ctx)) (\<lambda>m. returnS (Some m)))
         else bindS (mintNewBlock env proposalHash key) (\<lambda>m. returnS (Some m)))"

definition PreCommitEndorsement :: "rollDPoSCtx \<Rightarrow> EndorsedConsensusMessage list option" where
  "PreCommitEndorsement ctx =
     (let ens = ReadyToCommit (encodedAddrs ctx) (round ctx) in if ens = [] then None else Some ens)"

definition NewProposalEndorsement ::
  "crypto_env \<Rightarrow> EndorsedConsensusMessage option \<Rightarrow> (rollDPoSCtx, EndorsedConsensusMessage list) op" where
  "NewProposalEndorsement env msg =
     bindS (case msg of
         Some m \<Rightarrow> (case msgDocument m of
             DocVote _ \<Rightarrow> failS (Errorf ''invalid endorsed block'')
           | DocProposal proposal \<Rightarrow>
               bindS (readS (\<lambda>ctx. cmValidateBlock (ctxChain ctx) (propBlock proposal))) (\<lambda>v.
               thenS (liftS v) (
               thenS (onRound (\<lambda>r. Inr (AddBlock (propBlock proposal) r))) (
               returnS (HashBlock (propBlock proposal))))))
       | None \<Rightarrow> readS (\<lambda>ctx. if IsLocked (round ctx) then blockInLock (round ctx) else [])) (\<lambda>blockHash.
     bindS (readS (\<lambda>ctx. newEndorsement env blockHash PROPOSAL
       (roundStartTime (round ctx) + AcceptBlockTTL (ctxCfg ctx) (rHeight (round ctx))) ctx)) liftS)"

text \<open>
  An error that there are not enough endorsements yet is the answer \<open>None\<close>; any other is returned.
\<close>

definition enough :: "(rollDPoSCtx, 'a) op \<Rightarrow> ('a \<Rightarrow> (rollDPoSCtx, 'b) op) \<Rightarrow> 'b \<Rightarrow> (rollDPoSCtx, 'b) op" where
  "enough m f none ctx =
     (case m ctx of
        (Inl e, ctx1) \<Rightarrow> if e = ErrInsufficientEndorsements then (Inr none, ctx1) else (Inl e, ctx1)
      | (Inr x, ctx1) \<Rightarrow> f x ctx1)"

definition lockTime :: "rollDPoSCtx \<Rightarrow> int" where
  "lockTime ctx = roundStartTime (round ctx) + (AcceptBlockTTL (ctxCfg ctx) (rHeight (round ctx)) +
     AcceptProposalEndorsementTTL (ctxCfg ctx) (rHeight (round ctx)))"

definition commitTimeOf :: "rollDPoSCtx \<Rightarrow> int" where
  "commitTimeOf ctx = lockTime ctx + AcceptLockEndorsementTTL (ctxCfg ctx) (rHeight (round ctx))"

definition NewLockEndorsement ::
  "crypto_env \<Rightarrow> EndorsedConsensusMessage \<Rightarrow> (rollDPoSCtx, EndorsedConsensusMessage list option) op" where
  "NewLockEndorsement env msg =
     enough (verifyVote env msg [PROPOSAL, COMMIT]) (\<lambda>blkHash.
       if blkHash \<noteq> [] then
         bindS (readS (\<lambda>ctx. newEndorsement env blkHash LOCK (lockTime ctx) ctx)) (\<lambda>r.
         bindS (liftS r) (\<lambda>ms. returnS (Some ms)))
       else returnS None) None"

definition NewPreCommitEndorsement ::
  "crypto_env \<Rightarrow> EndorsedConsensusMessage \<Rightarrow> (rollDPoSCtx, EndorsedConsensusMessage list option) op" where
  "NewPreCommitEndorsement env msg =
     enough (verifyVote env msg [LOCK, COMMIT]) (\<lambda>blkHash.
       bindS (readS (\<lambda>ctx. newEndorsement env blkHash COMMIT (commitTimeOf ctx) ctx)) (\<lambda>r.
       bindS (liftS r) (\<lambda>ms. returnS (Some ms)))) None"

text \<open>
  The pending block is finalized in place, through its pointer: the one collection under its hash holds it,
  and the cache too if the node minted it, for a minted block reaches its collection as the same pointer.
  Equal blocks stand for the same pointer here.  The two could differ only for a cache that was read from
  the disk, and that is dropped by the first update of the round.
\<close>

definition replaceBlock :: "block \<Rightarrow> block \<Rightarrow> roundCtx \<Rightarrow> roundCtx" where
  "replaceBlock blk fin r =
     (let replace = (\<lambda>b. if b = Some blk then Some fin else b) in
      r\<lparr>eManager := (eManager r)\<lparr>
        collections := map (\<lambda>(h, c). (h, c\<lparr>bcBlk := replace (bcBlk c)\<rparr>)) (collections (eManager r)),
        cachedMintedBlk := replace (cachedMintedBlk (eManager r))\<rparr>\<rparr>)"

definition finalizePending :: "block \<Rightarrow> Endorsement list \<Rightarrow> int \<Rightarrow> (rollDPoSCtx, block) op" where
  "finalizePending blk ens t =
     bindS (liftS (Finalize ens t blk)) (\<lambda>fin.
     thenS (onRound (\<lambda>r. Inr (replaceBlock blk fin r))) (
     returnS fin))"

definition answerCommit :: "unit res \<Rightarrow> block \<Rightarrow> (rollDPoSCtx, block option) op" where
  "answerCommit res fin =
     (case res of
        Inl e \<Rightarrow> if e = ErrInvalidTipHeight then returnS (Some fin) else if e = ErrPaused then returnS None else failS e
      | Inr _ \<Rightarrow> returnS (Some fin))"

definition commitPending :: "bhash \<Rightarrow> (rollDPoSCtx, block option) op" where
  "commitPending blkHash =
     bindS (readS (\<lambda>ctx. round_block blkHash (round ctx))) (\<lambda>pending.
     case pending of
       None \<Rightarrow> returnS None
     | Some pendingBlock \<Rightarrow>
         bindS (readS (\<lambda>ctx. (round_endorsements blkHash [COMMIT] (round ctx), commitTimeOf ctx))) (\<lambda>(ens, t).
         bindS (finalizePending pendingBlock ens t) (\<lambda>fin.
         bindS (readS (\<lambda>ctx. cmCommitBlock (ctxChain ctx) fin)) (\<lambda>res.
         answerCommit res fin))))"

text \<open>\<open>Some\<close> is the answer \<^verbatim>\<open>true\<close>, with the block that was committed.\<close>

definition CommitMsg :: "crypto_env \<Rightarrow> EndorsedConsensusMessage \<Rightarrow> (rollDPoSCtx, block option) op" where
  "CommitMsg env msg = enough (verifyVote env msg [COMMIT]) commitPending None"

section \<open>Checks of received messages and of blocks\<close>

definition CheckVoteEndorser :: "crypto_env \<Rightarrow> u64 \<Rightarrow> Endorsement \<Rightarrow> rollDPoSCtx \<Rightarrow> unit res" where
  "CheckVoteEndorser env height en ctx =
     (case keyAddress env (enEndorser en) of
        None \<Rightarrow> Inl (Errorf ''failed to get address'')
      | Some a \<Rightarrow>
          bindR (cmFork (ctxChain ctx) (prevHash (round ctx))) (\<lambda>fork.
          checkR (rc_IsDelegate ((roundCalc ctx)\<lparr>rcChain := fork\<rparr>) a height)
            (Errorf ''not delegate of the corresponding round'')))"

fun addProofOfLock :: "crypto_env \<Rightarrow> bhash \<Rightarrow> Endorsement list \<Rightarrow> roundCtx \<Rightarrow> roundCtx res" where
  "addProofOfLock env blkHash [] r = Inr r"
| "addProofOfLock env blkHash (e # es) r =
     bindR (case AddVoteEndorsement env \<lparr>voteBlkHash = blkHash, voteTopic = PROPOSAL\<rparr> e r of
         Inr r' \<Rightarrow> Inr r'
       | Inl _ \<Rightarrow> AddVoteEndorsement env \<lparr>voteBlkHash = blkHash, voteTopic = COMMIT\<rparr> e r)
       (addProofOfLock env blkHash es)"

definition CheckBlockProposer :: "crypto_env \<Rightarrow> u64 \<Rightarrow> blockProposal \<Rightarrow> Endorsement \<Rightarrow> rollDPoSCtx \<Rightarrow> unit res" where
  "CheckBlockProposer env height proposal en ctx =
     (let blk = propBlock proposal; interval = BlockInterval (ctxCfg ctx) height in
      bindR (checkR (height = blkHeight blk) (Errorf ''block height different from expected'')) (\<lambda>_.
      case keyAddress env (enEndorser en) of
        None \<Rightarrow> Inl (Errorf ''failed to get address'')
      | Some endorserAddr \<Rightarrow>
          bindR (cmFork (ctxChain ctx) (PrevHash blk)) (\<lambda>fork.
          let rc = (roundCalc ctx)\<lparr>rcChain := fork\<rparr> in
          bindR (checkR (Proposer env rc height interval (enTs en) = endorserAddr)
            (Errorf ''not proposer of the corresponding round'')) (\<lambda>_.
          bindR (checkR (Proposer env rc height interval (blkTimestamp blk) = ProducerAddress blk)
            (Errorf ''not proposer of the corresponding round'')) (\<lambda>_.
          bindR (checkR (VerifySignature blk) (Errorf ''invalid block signature'')) (\<lambda>_.
          if ProducerAddress blk \<noteq> endorserAddr then
            bindR (NewRound env rc height interval (enTs en) None) (\<lambda>r.
            bindR (addProofOfLock env (HashBlock blk) (propProofOfLock proposal) (AddBlock blk r)) (\<lambda>r.
            checkR (EndorsedByMajority (HashBlock blk) [PROPOSAL, COMMIT] r) ErrInsufficientEndorsements))
          else Inr ()))))))"

fun addCommits :: "crypto_env \<Rightarrow> bhash \<Rightarrow> Endorsement list \<Rightarrow> roundCtx \<Rightarrow> roundCtx res" where
  "addCommits env blkHash [] r = Inr r"
| "addCommits env blkHash (e # es) r =
     bindR (AddVoteEndorsement env \<lparr>voteBlkHash = blkHash, voteTopic = COMMIT\<rparr> e r) (addCommits env blkHash es)"

definition ValidateBlockFooter :: "crypto_env \<Rightarrow> consensusCfg \<Rightarrow> roundCalculator \<Rightarrow> block \<Rightarrow> unit res" where
  "ValidateBlockFooter env cfg rc blk =
     bindR (NewRound env rc (blkHeight blk) (BlockInterval cfg (blkHeight blk)) (blkTimestamp blk) None) (\<lambda>r.
     bindR (checkR (IsDelegate (ProducerAddress blk) r) (Errorf ''block proposer is not a valid delegate'')) (\<lambda>_.
     bindR (addCommits env (HashBlock blk) (footerEndorsements blk) (AddBlock blk r)) (\<lambda>r.
     checkR (EndorsedByMajority (HashBlock blk) [COMMIT] r) ErrInsufficientEndorsements)))"

end
