(* ===== verification/ConsensusSafety.thy ===== *)
theory ConsensusSafety
  imports Rounds
begin

text \<open>
  What the roll-DPoS consensus guarantees: a block whose footer is accepted carries the verified
  commit votes of more than two thirds of the delegates, so two accepted blocks of a height share
  more than a third of their signers; a block that a node commits is accepted by the others; a node
  leaves a lock only with a certificate; and the round of a moment is the one whose interval contains it.
\<close>

section \<open>The collected endorsements as a map\<close>

text \<open>The endorsement a node holds of a block, an endorser and a topic.\<close>

definition endorsementOf :: "endorsementManager \<Rightarrow> bhash \<Rightarrow> string \<Rightarrow> byte \<Rightarrow> Endorsement option" where
  "endorsementOf m h key topic =
     (case map_of (collections m) h of None \<Rightarrow> None | Some c \<Rightarrow> bc_Endorsement key topic c)"

lemma endorsementOf_put [simp]: "endorsementOf (PutEndorsementManagerToDB m) = endorsementOf m"
  by (intro ext) (simp add: endorsementOf_def PutEndorsementManagerToDB_def)

lemma bc_AddEndorsement_map:
  assumes "bc_AddEndorsement env topic en c = Inr c'"
  shows "bcBlk c' = bcBlk c"
    and "bc_Endorsement key t c' =
      (if key = HexString env (enEndorser en) \<and> t = topic then Some en else bc_Endorsement key t c)"
  using assms
  by (auto simp: bc_AddEndorsement_def Let_def res_simps bc_Endorsement_def update_conv' ee_AddEndorsement_def
    newEndorserEndorsementCollection_def ee_Endorsement_def split: option.splits if_splits)

lemma em_AddVote_map:
  assumes "em_AddVoteEndorsement env vote en m = Inr m'"
  shows "endorsementOf m' h key t =
      (if h = voteBlkHash vote \<and> key = HexString env (enEndorser en) \<and> t = voteTopic vote then Some en
       else endorsementOf m h key t)"
    and "emMajority m' = emMajority m"
    and "(case map_of (collections m') h of None \<Rightarrow> None | Some c \<Rightarrow> bcBlk c) =
      (case map_of (collections m) h of None \<Rightarrow> None | Some c \<Rightarrow> bcBlk c)"
proof -
  let ?c = "case map_of (collections m) (voteBlkHash vote) of
    Some c \<Rightarrow> c | None \<Rightarrow> newBlockEndorsementCollection None"
  obtain c where c: "bc_AddEndorsement env (voteTopic vote) en ?c = Inr c"
    and m': "m' = m\<lparr>collections := AList.update (voteBlkHash vote) c (collections m)\<rparr> \<or>
      m' = PutEndorsementManagerToDB (m\<lparr>collections := AList.update (voteBlkHash vote) c (collections m)\<rparr>)"
    using assms by (auto simp: em_AddVoteEndorsement_def Let_def bindR_Inr split: if_splits)
  have old: "bc_Endorsement key t ?c = endorsementOf m (voteBlkHash vote) key t"
    "bcBlk ?c = (case map_of (collections m) (voteBlkHash vote) of None \<Rightarrow> None | Some c \<Rightarrow> bcBlk c)"
    by (auto simp: endorsementOf_def newBlockEndorsementCollection_def bc_Endorsement_def split: option.splits)
  show "endorsementOf m' h key t =
      (if h = voteBlkHash vote \<and> key = HexString env (enEndorser en) \<and> t = voteTopic vote then Some en
       else endorsementOf m h key t)"
  proof (cases "h = voteBlkHash vote")
    case True
    then have "endorsementOf m' h key t = bc_Endorsement key t c"
      using m' by (auto simp: endorsementOf_def update_conv' PutEndorsementManagerToDB_def)
    then show ?thesis using bc_AddEndorsement_map(2) [OF c] old(1) True by simp
  next
    case False
    then show ?thesis using m' by (auto simp: endorsementOf_def update_conv' PutEndorsementManagerToDB_def)
  qed
  show "emMajority m' = emMajority m" using m' by (auto simp: PutEndorsementManagerToDB_def)
  show "(case map_of (collections m') h of None \<Rightarrow> None | Some c \<Rightarrow> bcBlk c) =
      (case map_of (collections m) h of None \<Rightarrow> None | Some c \<Rightarrow> bcBlk c)"
    using m' bc_AddEndorsement_map(1) [OF c] old(2)
    by (auto simp: PutEndorsementManagerToDB_def update_conv')
qed

text \<open>What is collected on one topic.\<close>

lemma collected_topic:
  assumes "em_inv env D m"
  shows "set (collected h [topic] m) = {en. \<exists>key. endorsementOf m h key topic = Some en}"
proof (cases "map_of (collections m) h")
  case None
  then show ?thesis by (simp add: collected_def CollectionByBlockHash_def endorsementOf_def)
next
  case (Some c)
  then have d: "distinct (map fst (endorsers c))" using assms by (simp add: em_inv_def bc_inv_def)
  have "en \<in> set (bc_Endorsements [topic] c) \<longleftrightarrow> (\<exists>key. bc_Endorsement key topic c = Some en)" for en
  proof
    assume "en \<in> set (bc_Endorsements [topic] c)"
    then obtain key ee where "(key, ee) \<in> set (endorsers c)" "ee_Endorsement topic ee = Some en"
      by (auto simp: bc_Endorsements_def List.map_filter_def split: option.splits)
    then have "bc_Endorsement key topic c = Some en" using d by (simp add: bc_Endorsement_def)
    then show "\<exists>key. bc_Endorsement key topic c = Some en" ..
  next
    assume "\<exists>key. bc_Endorsement key topic c = Some en"
    then obtain key ee where "map_of (endorsers c) key = Some ee" "ee_Endorsement topic ee = Some en"
      by (auto simp: bc_Endorsement_def split: option.splits)
    then show "en \<in> set (bc_Endorsements [topic] c)"
      by (force simp: bc_Endorsements_def List.map_filter_def image_iff dest!: map_of_SomeD)
  qed
  then show ?thesis using Some by (auto simp: collected_def CollectionByBlockHash_def endorsementOf_def)
qed

lemma endorsementOf_key:
  assumes "em_inv env D m" "endorsementOf m h key topic = Some en"
  shows "vote_ok env D h topic key en"
  using assms by (auto simp: em_inv_def bc_inv_def endorsementOf_def bc_Endorsement_def split: option.splits)

lemma AddVote_effect:
  assumes "AddVoteEndorsement env vote en r = Inr r'"
  shows "endorsementOf (eManager r') h key t =
      (if h = voteBlkHash vote \<and> key = HexString env (enEndorser en) \<and> t = voteTopic vote then Some en
       else endorsementOf (eManager r) h key t)"
    and "round_block h r' = round_block h r"
  using assms by (auto simp: em_AddVote_map round_block_def CollectionByBlockHash_def elim!: AddVoteEndorsement_Inr)

section \<open>Accepted footers carry a quorum\<close>

lemma addCommits_effect:
  assumes "addCommits env h es r = Inr r'" "round_inv env r"
  shows "round_inv env r' \<and> delegates r' = delegates r \<and> numOfDelegates r' = numOfDelegates r \<and>
    (\<forall>key en. endorsementOf (eManager r') h key COMMIT = Some en \<longrightarrow>
       en \<in> set es \<or> endorsementOf (eManager r) h key COMMIT = Some en)"
  using assms
proof (induction es arbitrary: r)
  case (Cons e es)
  then obtain r1 where r1: "AddVoteEndorsement env \<lparr>voteBlkHash = h, voteTopic = COMMIT\<rparr> e r = Inr r1"
    and rest: "addCommits env h es r1 = Inr r'" by (auto simp: bindR_Inr)
  have inv: "round_inv env r1" "delegates r1 = delegates r" "numOfDelegates r1 = numOfDelegates r"
    using round_inv_AddVote [OF Cons.prems(2) r1] by simp_all
  have "en \<in> set (e # es) \<or> endorsementOf (eManager r) h key COMMIT = Some en"
    if "endorsementOf (eManager r') h key COMMIT = Some en" for key en
  proof -
    have "en \<in> set es \<or> endorsementOf (eManager r1) h key COMMIT = Some en"
      using Cons.IH [OF rest inv(1)] that by blast
    then show ?thesis using AddVote_effect(1) [OF r1, of h key COMMIT] by (auto split: if_splits)
  qed
  then show ?case using Cons.IH [OF rest inv(1)] inv by simp
qed simp

lemma newRound_Inr:
  assumes "newRound env rc height interval now None tol = Inr r"
  shows "round_inv env r" "collections (eManager r) = []" "numOfDelegates r = numDelegates (rp rc)"
    "emDB (eManager r) = None" "rHeight r = height" "status r = st_open"
    "delegates r \<noteq> [] \<Longrightarrow> Delegates rc height = Inr (delegates r)"
  using assms
  by (auto simp: newRound_def bindR_Inr newEndorsementManager_def Let_def SetIsMajorityFunc_def round_inv_def
    intro: em_inv_empty split: if_splits)

definition commitSigners :: "crypto_env \<Rightarrow> block \<Rightarrow> string set" where
  "commitSigners env blk = endorsedBy env (HashBlock blk) [COMMIT] (footerEndorsements blk)"

lemma endorsedBy_mono: "set es \<subseteq> set es' \<Longrightarrow> endorsedBy env h topics es \<subseteq> endorsedBy env h topics es'"
  by (auto simp: endorsedBy_def)

lemma accepted_footer_quorum:
  assumes acc: "ValidateBlockFooter env cfg rc blk = Inr ()" and uniq: "unique_address env"
    and ds: "Delegates rc (blkHeight blk) = Inr ds" "distinct ds" "length ds = unat (numDelegates (rp rc))"
      "length ds < 2 ^ 60"
  shows "2 * length ds < 3 * card (set ds \<inter> commitSigners env blk)"
proof -
  let ?h = "HashBlock blk"
  obtain r r1 where r: "NewRound env rc (blkHeight blk) (BlockInterval cfg (blkHeight blk)) (blkTimestamp blk) None = Inr r"
    and prod: "IsDelegate (ProducerAddress blk) r"
    and r1: "addCommits env ?h (footerEndorsements blk) (AddBlock blk r) = Inr r1"
    and maj: "EndorsedByMajority ?h [COMMIT] r1"
    using acc by (auto simp: ValidateBlockFooter_def res_simps)
  note new = newRound_Inr [OF r [unfolded NewRound_def]]
  have "delegates r \<noteq> []" using prod by (auto simp: IsDelegate_def)
  then have del: "delegates r = ds" using new(7) ds(1) by simp
  have empty: "endorsementOf (eManager (AddBlock blk r)) ?h key COMMIT = None" for key
    using new(2,4) by (simp add: AddBlock_def RegisterBlock_def saved_def endorsementOf_def bc_Endorsement_def
      newBlockEndorsementCollection_def)
  have eff: "round_inv env r1" "delegates r1 = ds" "numOfDelegates r1 = numDelegates (rp rc)"
    "\<And>key en. endorsementOf (eManager r1) ?h key COMMIT = Some en \<Longrightarrow> en \<in> set (footerEndorsements blk)"
    using addCommits_effect [OF r1 round_inv_AddBlock [OF new(1)]] del new(3) empty by (auto simp: AddBlock_def)
  have "set (round_endorsements ?h [COMMIT] r1) \<subseteq> set (footerEndorsements blk)"
    using eff(1,4) collected_topic [of env "set (delegates r1)" "eManager r1" ?h COMMIT]
    by (auto simp: round_endorsements_def round_inv_def)
  then have sub: "endorsedBy env ?h [COMMIT] (round_endorsements ?h [COMMIT] r1) \<subseteq> commitSigners env blk"
    unfolding commitSigners_def by (rule endorsedBy_mono)
  have ok: "delegates_ok r1" using eff ds by (simp add: delegates_ok_def)
  note quorum = majority_endorsers [OF eff(1) uniq ok maj]
  have "card (endorsedBy env ?h [COMMIT] (round_endorsements ?h [COMMIT] r1)) \<le> card (set ds \<inter> commitSigners env blk)"
    using quorum(1) sub eff(2) by (intro card_mono) auto
  then show ?thesis using quorum(2) eff(2) by simp
qed

text \<open>
  Property C11.  Two blocks whose footers are accepted against the same delegates, by the same node or
  by different nodes, carry verified commit votes of more than a third of the delegates in common: two
  conflicting blocks are accepted only if more than a third of the delegates signed both.
\<close>

theorem accepted_footers_share_signers:
  assumes "ValidateBlockFooter env cfg rc b1 = Inr ()" "ValidateBlockFooter env cfg' rc' b2 = Inr ()"
    and "unique_address env"
    and "Delegates rc (blkHeight b1) = Inr ds" "Delegates rc' (blkHeight b2) = Inr ds" "distinct ds"
    and "length ds = unat (numDelegates (rp rc))" "length ds = unat (numDelegates (rp rc'))" "length ds < 2 ^ 60"
  shows "length ds < 3 * card (set ds \<inter> commitSigners env b1 \<inter> commitSigners env b2)"
proof -
  have "card (set ds) < 3 * card ((set ds \<inter> commitSigners env b1) \<inter> (set ds \<inter> commitSigners env b2))"
    using accepted_footer_quorum [OF assms(1,3,4,6,7,9)] accepted_footer_quorum [OF assms(2,3,5,6,8,9)] assms(6)
    by (intro quorum_intersection) (simp_all add: distinct_card)
  moreover have "(set ds \<inter> commitSigners env b1) \<inter> (set ds \<inter> commitSigners env b2) =
      set ds \<inter> commitSigners env b1 \<inter> commitSigners env b2" by blast
  ultimately show ?thesis using assms(6) by (simp add: distinct_card)
qed

section \<open>Committed blocks are accepted\<close>

lemma AddVote_succeeds:
  assumes "vote_ok env (set (delegates r)) (voteBlkHash vote) (voteTopic vote) (HexString env (enEndorser en)) en"
    and "round_block (voteBlkHash vote) r \<noteq> None"
    and "endorsementOf (eManager r) (voteBlkHash vote) (HexString env (enEndorser en)) (voteTopic vote) = None"
  shows "\<exists>r'. AddVoteEndorsement env vote en r = Inr r'"
proof -
  obtain c where c: "map_of (collections (eManager r)) (voteBlkHash vote) = Some c"
    and none: "bc_Endorsement (HexString env (enEndorser en)) (voteTopic vote) c = None"
    using assms(2,3)
    by (cases "map_of (collections (eManager r)) (voteBlkHash vote)")
      (auto simp: round_block_def CollectionByBlockHash_def endorsementOf_def)
  obtain c' where "bc_AddEndorsement env (voteTopic vote) en c = Inr c'"
    using none by (cases "map_of (endorsers c) (HexString env (enEndorser en))")
      (auto simp: bc_AddEndorsement_def Let_def ee_AddEndorsement_def bc_Endorsement_def
        newEndorserEndorsementCollection_def ee_Endorsement_def)
  then obtain m where "em_AddVoteEndorsement env vote en (eManager r) = Inr m"
    using c by (auto simp: em_AddVoteEndorsement_def Let_def)
  then show ?thesis using assms(1,2) by (auto simp: AddVoteEndorsement_def checkR_def vote_ok_def IsDelegate_def)
qed

lemma addCommits_succeeds:
  assumes "round_inv env r" "round_block h r \<noteq> None"
    and "\<And>e. e \<in> set es \<Longrightarrow> vote_ok env (set (delegates r)) h COMMIT (HexString env (enEndorser e)) e"
    and "\<And>e. e \<in> set es \<Longrightarrow> endorsementOf (eManager r) h (HexString env (enEndorser e)) COMMIT = None"
    and "distinct (map (\<lambda>e. HexString env (enEndorser e)) es)"
  shows "\<exists>r'. addCommits env h es r = Inr r' \<and>
    (\<forall>e\<in>set es. endorsementOf (eManager r') h (HexString env (enEndorser e)) COMMIT = Some e) \<and>
    (\<forall>key. key \<notin> (\<lambda>e. HexString env (enEndorser e)) ` set es \<longrightarrow>
       endorsementOf (eManager r') h key COMMIT = endorsementOf (eManager r) h key COMMIT)"
  using assms
proof (induction es arbitrary: r)
  case (Cons e es)
  let ?key = "\<lambda>e. HexString env (enEndorser e)"
  obtain r1 where r1: "AddVoteEndorsement env \<lparr>voteBlkHash = h, voteTopic = COMMIT\<rparr> e r = Inr r1"
    using AddVote_succeeds [of env r "\<lparr>voteBlkHash = h, voteTopic = COMMIT\<rparr>" e] Cons.prems by auto
  note eff = AddVote_effect [OF r1] and inv = round_inv_AddVote [OF Cons.prems(1) r1]
  have "\<exists>r'. addCommits env h es r1 = Inr r' \<and>
    (\<forall>e\<in>set es. endorsementOf (eManager r') h (?key e) COMMIT = Some e) \<and>
    (\<forall>key. key \<notin> ?key ` set es \<longrightarrow> endorsementOf (eManager r') h key COMMIT = endorsementOf (eManager r1) h key COMMIT)"
    using inv eff Cons.prems by (intro Cons.IH) (auto simp: image_iff)
  then show ?case using r1 eff(1) [of h _ COMMIT] Cons.prems(5) by (auto simp: image_iff)
qed simp

lemma enough_run [run_simps]:
  "enough m f none s = (Inr y, s') \<longleftrightarrow>
     (\<exists>x s1. m s = (Inr x, s1) \<and> f x s1 = (Inr y, s')) \<or> m s = (Inl ErrInsufficientEndorsements, s') \<and> y = none"
  by (auto simp: enough_def split: prod.splits sum.splits if_splits)

lemma onRound_run [run_simps]:
  "onRound f s = (Inr u, s') \<longleftrightarrow> (\<exists>r. f (round s) = Inr r \<and> s' = s\<lparr>round := r\<rparr>)"
  by (auto simp: onRound_def split: sum.splits)

lemma verifyVote_run:
  "verifyVote env msg topics ctx = (Inr h, ctx') \<longleftrightarrow>
     (\<exists>vote r. msgDocument msg = DocVote vote \<and> AddVoteEndorsement env vote (msgEndorsement msg) (round ctx) = Inr r \<and>
        EndorsedByMajority (voteBlkHash vote) topics r \<and> h = voteBlkHash vote \<and> ctx' = ctx\<lparr>round := r\<rparr>)"
  by (auto simp: verifyVote_def run_simps split: Document.splits)

lemma round_block_hash: "round_inv env r \<Longrightarrow> round_block h r = Some b \<Longrightarrow> HashBlock b = h"
  by (auto simp: round_inv_def em_inv_def bc_inv_def round_block_def CollectionByBlockHash_def split: option.splits)

lemma finalizePending_run: "finalizePending blk ens t s = (Inr fin, s') \<Longrightarrow> Finalize ens t blk = Inr fin"
  by (auto simp: finalizePending_def run_simps Let_def)

lemma answerCommit_Some: "answerCommit res fin s = (Inr (Some f), s') \<Longrightarrow> f = fin"
  by (auto simp: answerCommit_def op_defs split: sum.splits if_splits)

lemma commitPending_Some:
  assumes "commitPending h s = (Inr (Some fin), s')"
  shows "\<exists>b. round_block h (round s) = Some b \<and>
    Finalize (round_endorsements h [COMMIT] (round s)) (commitTimeOf s) b = Inr fin"
proof (cases "round_block h (round s)")
  case None
  then show ?thesis using assms by (simp add: commitPending_def run_simps)
next
  case (Some b)
  obtain s1 f where "finalizePending b (round_endorsements h [COMMIT] (round s)) (commitTimeOf s) s = (Inr f, s1)"
    and "f = fin"
    using assms Some by (auto simp: commitPending_def run_simps dest!: answerCommit_Some)
  then show ?thesis using Some finalizePending_run by blast
qed

lemma CommitMsg_Some:
  assumes "CommitMsg env msg ctx = (Inr (Some fin), ctx')" "round_inv env (round ctx)"
  obtains h r b t where "round_inv env r" "delegates r = delegates (round ctx)"
    "numOfDelegates r = numOfDelegates (round ctx)" "EndorsedByMajority h [COMMIT] r" "HashBlock b = h"
    "fin = b\<lparr>footerEndorsements := round_endorsements h [COMMIT] r, commitTime := t\<rparr>"
proof -
  obtain h c1 where v: "verifyVote env msg [COMMIT] ctx = (Inr h, c1)"
    and k: "commitPending h c1 = (Inr (Some fin), ctx')"
    using assms(1) unfolding CommitMsg_def enough_run by blast
  obtain vote r where r: "AddVoteEndorsement env vote (msgEndorsement msg) (round ctx) = Inr r"
    and maj: "EndorsedByMajority (voteBlkHash vote) [COMMIT] r"
    and h: "h = voteBlkHash vote" "c1 = ctx\<lparr>round := r\<rparr>"
    using v unfolding verifyVote_run by blast
  obtain b where b: "round_block (voteBlkHash vote) r = Some b"
    "Finalize (round_endorsements (voteBlkHash vote) [COMMIT] r) (commitTimeOf (ctx\<lparr>round := r\<rparr>)) b = Inr fin"
    using commitPending_Some [OF k] by (auto simp: h)
  have inv: "round_inv env r" using round_inv_AddVote [OF assms(2) r] by simp
  show thesis
  proof (rule that)
    show "HashBlock b = voteBlkHash vote" using round_block_hash [OF inv b(1)] .
    show "fin = b\<lparr>footerEndorsements := round_endorsements (voteBlkHash vote) [COMMIT] r,
        commitTime := commitTimeOf (ctx\<lparr>round := r\<rparr>)\<rparr>"
      using b(2) by (simp add: Finalize_def split: if_splits)
  qed (use inv maj round_inv_AddVote [OF assms(2) r] in simp_all)
qed

text \<open>The votes of a committed block pass the validation by a node with the same delegates.\<close>

lemma committed_votes_valid:
  assumes "CommitMsg env msg ctx = (Inr (Some fin), ctx')" "round_inv env (round ctx)"
    and "NewRound env rc (blkHeight fin) (BlockInterval cfg (blkHeight fin)) (blkTimestamp fin) None = Inr r"
    and "delegates r = delegates (round ctx)" "numOfDelegates r = numOfDelegates (round ctx)"
    and "IsDelegate (ProducerAddress fin) r"
  shows "ValidateBlockFooter env cfg rc fin = Inr ()"
proof -
  obtain h rr b t where rr: "round_inv env rr" "delegates rr = delegates r" "numOfDelegates rr = numOfDelegates r"
    "EndorsedByMajority h [COMMIT] rr" "HashBlock b = h"
    and fin: "fin = b\<lparr>footerEndorsements := round_endorsements h [COMMIT] rr, commitTime := t\<rparr>"
    using CommitMsg_Some [OF assms(1,2)] assms(4,5) by metis
  let ?es = "round_endorsements h [COMMIT] rr" and ?key = "\<lambda>e. HexString env (enEndorser e)"
  note new = newRound_Inr [OF assms(3) [unfolded NewRound_def]]
  have em: "em_inv env (set (delegates r)) (eManager rr)" using rr(1,2) by (simp add: round_inv_def)
  have d: "distinct (map ?key ?es)" unfolding round_endorsements_def using collected_distinct [OF em] .
  have block: "round_block h (AddBlock fin r) \<noteq> None" and
    none: "endorsementOf (eManager (AddBlock fin r)) h key COMMIT = None" for key
    using new(2,4) rr(5) by (simp_all add: fin AddBlock_def RegisterBlock_def saved_def endorsementOf_def bc_Endorsement_def
      newBlockEndorsementCollection_def round_block_def CollectionByBlockHash_def)
  have votes: "vote_ok env (set (delegates (AddBlock fin r))) h COMMIT (?key e) e" if "e \<in> set ?es" for e
    using collected_votes [OF em, of e h "[COMMIT]"] that by (simp add: round_endorsements_def AddBlock_def)
  obtain r1 where r1: "addCommits env h ?es (AddBlock fin r) = Inr r1"
    and got: "\<And>e. e \<in> set ?es \<Longrightarrow> endorsementOf (eManager r1) h (?key e) COMMIT = Some e"
    using addCommits_succeeds [OF round_inv_AddBlock [OF new(1)] block votes none d] by blast
  note eff = addCommits_effect [OF r1 round_inv_AddBlock [OF new(1)]]
  have em1: "em_inv env (set (delegates r1)) (eManager r1)"
    using eff unfolding round_inv_def by blast
  have "set (round_endorsements h [COMMIT] r1) = set ?es"
    using eff got none unfolding round_endorsements_def collected_topic [OF em1] by fastforce
  moreover have "distinct (round_endorsements h [COMMIT] r1)" "distinct ?es"
    using collected_distinct [OF em1] d by (auto simp: round_endorsements_def distinct_map)
  ultimately have "length (round_endorsements h [COMMIT] r1) = length ?es" by (metis distinct_card)
  then have "EndorsedByMajority h [COMMIT] r1"
    using rr(3,4) eff by (simp add: EndorsedByMajority_def isMajority_def AddBlock_def)
  then show ?thesis using assms(3,6) r1 rr(5) by (simp add: ValidateBlockFooter_def fin checkR_def)
qed

text \<open>The proposer of a round is one of its proposers, at the index the code computes.\<close>

lemma calculateProposer_member: "calculateProposer c height n ps = Inr p \<Longrightarrow> p \<in> set ps"
proof -
  assume run: "calculateProposer c height n ps = Inr p"
  let ?idx = "if timeBasedRotation c then height + ucast n else height"
  from run have num: "numDelegates (rp c) = word_of_nat (length ps)" "numDelegates (rp c) \<noteq> 0"
    and p: "p = ps ! unat (?idx mod numDelegates (rp c))"
    by (auto simp: calculateProposer_def Let_def split: if_splits)
  have "unat (?idx mod numDelegates (rp c)) < unat (numDelegates (rp c))"
    using num(2) by (simp add: unat_mod unat_gt_0)
  also have "\<dots> \<le> length ps" using num(1) by (simp add: unat_of_nat)
  finally show "p \<in> set ps" by (simp only: p nth_mem)
qed

lemma newRound_proposer:
  assumes "newRound env c height i now em tol = Inr r" "proposer r \<noteq> []"
    and "proposersByEpochFunc c = delegatesByEpochFunc c"
  shows "Delegates c height = Inr (delegates r) \<and> proposer r \<in> set (delegates r) \<and> numOfDelegates r = numDelegates (rp c)"
  using assms
  by (auto simp: newRound_def Proposers_def Delegates_def bindR_Inr Let_def split: if_splits prod.splits
      dest: calculateProposer_member)

text \<open>A proposal that passes the check is by the proposer of the round of its block.\<close>

lemma CheckBlockProposer_round:
  assumes "CheckBlockProposer env height proposal en node = Inr ()"
    and "cmFork (ctxChain node) (PrevHash (propBlock proposal)) = Inr fork"
    and "ProducerAddress (propBlock proposal) \<noteq> []"
  obtains r where "newRound env ((roundCalc node)\<lparr>rcChain := fork\<rparr>) height (BlockInterval (ctxCfg node) height)
      (blkTimestamp (propBlock proposal)) None 0 = Inr r"
    "proposer r = ProducerAddress (propBlock proposal)"
proof -
  have "Proposer env ((roundCalc node)\<lparr>rcChain := fork\<rparr>) height (BlockInterval (ctxCfg node) height)
      (blkTimestamp (propBlock proposal)) = ProducerAddress (propBlock proposal)"
    using assms(1,2) by (auto simp: CheckBlockProposer_def Let_def bindR_Inr checkR_def split: option.splits if_splits)
  then show ?thesis using that assms(3) by (auto simp: Proposer_def split: sum.splits)
qed

text \<open>
  Property C12.  A block that a node commits, in a round that holds only verified votes as every run of
  the context does, and whose producer has an address, is accepted by the other nodes.  Let \<open>node\<close> be any node that
  let the proposal of the block pass (\<^verbatim>\<open>CheckBlockProposer\<close>), with the same function for the delegates and
  the proposers of an epoch as the node is wired in \<^verbatim>\<open>consensus.go\<close>, and on whose chain, up to the parent of
  the block, the delegates of the height are those of the round that committed.  Then \<^verbatim>\<open>ValidateBlockFooter\<close>
  on that chain accepts the committed block: the round of the block can be computed, its producer is a
  delegate, and its commit votes are verified votes of a majority, whatever the node has seen of the votes.
\<close>

theorem committed_block_accepted:
  assumes "CommitMsg env msg ctx = (Inr (Some fin), ctx')" "round_inv env (round ctx)"
    and "CheckBlockProposer env (blkHeight fin) proposal en node = Inr ()"
    and "fin = (propBlock proposal)\<lparr>footerEndorsements := ens, commitTime := t\<rparr>" "ProducerAddress fin \<noteq> []"
    and "cmFork (ctxChain node) (PrevHash fin) = Inr fork" "rc = (roundCalc node)\<lparr>rcChain := fork\<rparr>"
    and "proposersByEpochFunc (roundCalc node) = delegatesByEpochFunc (roundCalc node)"
    and "Delegates rc (blkHeight fin) = Inr (delegates (round ctx))" "numDelegates (rp rc) = numOfDelegates (round ctx)"
  shows "ValidateBlockFooter env (ctxCfg node) rc fin = Inr ()"
proof -
  obtain r where r: "newRound env rc (blkHeight fin) (BlockInterval (ctxCfg node) (blkHeight fin)) (blkTimestamp fin) None 0 = Inr r"
    and p: "proposer r = ProducerAddress fin"
    using CheckBlockProposer_round [OF assms(3)] assms(4-7) by (metis block.ext_inject block.surjective
      block.update_convs(7,8))
  have "Delegates rc (blkHeight fin) = Inr (delegates r) \<and> proposer r \<in> set (delegates r) \<and> numOfDelegates r = numDelegates (rp rc)"
    using newRound_proposer [OF r] p assms(5,7,8) by simp
  then show ?thesis
    using committed_votes_valid [OF assms(1,2) r [folded NewRound_def]] p assms(9,10) by (simp add: IsDelegate_def)
qed

section \<open>Locks\<close>

text \<open>
  A lock is certified: more than two thirds of the delegates endorsed the block it is on, and a round
  is unlocked when they endorsed the empty block.
\<close>

definition certified :: "crypto_env \<Rightarrow> roundCtx \<Rightarrow> bhash \<Rightarrow> Endorsement list \<Rightarrow> bool" where
  "certified env r h es \<longleftrightarrow> isMajority (numOfDelegates r) es \<and>
     distinct (map (\<lambda>en. HexString env (enEndorser en)) es) \<and>
     (\<forall>en\<in>set es. \<exists>topic\<in>{PROPOSAL, COMMIT}. vote_ok env (set (delegates r)) h topic (HexString env (enEndorser en)) en)"

definition lock_inv :: "crypto_env \<Rightarrow> roundCtx \<Rightarrow> bool" where
  "lock_inv env r \<longleftrightarrow> round_inv env r \<and>
     (status r = st_locked \<longrightarrow> blockInLock r \<noteq> []) \<and> (status r = st_unlocked \<longrightarrow> blockInLock r = []) \<and>
     (status r \<noteq> st_open \<longrightarrow> certified env r (blockInLock r) (proofOfLock r))"

lemma certified_collected:
  "round_inv env r \<Longrightarrow> isMajority (numOfDelegates r) (round_endorsements h [PROPOSAL, COMMIT] r) \<Longrightarrow>
   certified env r h (round_endorsements h [PROPOSAL, COMMIT] r)"
  using collected_distinct collected_votes [of env "set (delegates r)" "eManager r" _ h "[PROPOSAL, COMMIT]"]
  by (auto simp: certified_def round_inv_def round_endorsements_def)

text \<open>What may happen to a round.\<close>

inductive round_step :: "crypto_env \<Rightarrow> roundCtx \<Rightarrow> roundCtx \<Rightarrow> bool" for env where
  step_vote: "AddVoteEndorsement env vote en r = Inr r' \<Longrightarrow> round_step env r r'"
| step_block: "round_step env r (AddBlock blk r)"
| step_minted: "round_step env r (round_SetMintedBlock blk r)"
| step_replace: "HashBlock fin = HashBlock blk \<Longrightarrow> round_step env r (replaceBlock blk fin r)"
| step_update: "UpdateRound c r height interval now tol = Inr r' \<Longrightarrow> round_step env r r'"

lemma lock_inv_frame:
  assumes "lock_inv env r" "round_inv env r'" "delegates r' = delegates r" "numOfDelegates r' = numOfDelegates r"
    "status r' = status r" "blockInLock r' = blockInLock r" "proofOfLock r' = proofOfLock r"
  shows "lock_inv env r'"
  using assms by (simp add: lock_inv_def certified_def)

lemma updateLock_cases:
  obtains (same) "updateLock vote r = r"
  | (lock) "isMajority (numOfDelegates r) (round_endorsements (voteBlkHash vote) [PROPOSAL, COMMIT] r)"
      "voteBlkHash vote = [] \<or> status r \<noteq> st_locked"
      "updateLock vote r = r\<lparr>status := (if voteBlkHash vote = [] then st_unlocked else st_locked),
         blockInLock := voteBlkHash vote, proofOfLock := round_endorsements (voteBlkHash vote) [PROPOSAL, COMMIT] r\<rparr>"
  unfolding updateLock_def Let_def by metis

lemma lock_inv_vote:
  assumes "lock_inv env r" "AddVoteEndorsement env vote en r = Inr r'"
  shows "lock_inv env r'"
proof -
  obtain m where m: "r' = updateLock vote (r\<lparr>eManager := m\<rparr>)" using assms(2) by (rule AddVoteEndorsement_Inr)
  have inv: "round_inv env r'" "delegates r' = delegates r" "numOfDelegates r' = numOfDelegates r"
    using round_inv_AddVote [OF _ assms(2)] assms(1) by (simp_all add: lock_inv_def)
  let ?h = "voteBlkHash vote" and ?es = "round_endorsements (voteBlkHash vote) [PROPOSAL, COMMIT] (r\<lparr>eManager := m\<rparr>)"
  show ?thesis
  proof (cases vote "r\<lparr>eManager := m\<rparr>" rule: updateLock_cases)
    case same
    then show ?thesis using lock_inv_frame [OF assms(1) inv] by (simp add: m)
  next
    case lock
    have es: "round_endorsements ?h [PROPOSAL, COMMIT] r' = ?es" by (simp add: round_endorsements_def m)
    have "certified env r' ?h ?es"
      using certified_collected [OF inv(1), of ?h] lock(1) inv(3) by (simp add: es)
    moreover have "blockInLock r' = ?h" "proofOfLock r' = ?es" "status r' = (if ?h = [] then st_unlocked else st_locked)"
      using lock(3) by (simp_all add: m)
    ultimately show ?thesis using inv(1) by (simp add: lock_inv_def)
  qed
qed

lemma UpdateRound_cases:
  assumes "UpdateRound c r height interval now tol = Inr r'"
  obtains (same) "r' = r"
  | (next_round) t where "rHeight r' = rHeight r" "delegates r' = delegates r" "numOfDelegates r' = numOfDelegates r"
      "status r' = status r" "blockInLock r' = blockInLock r" "proofOfLock r' = proofOfLock r"
      "eManager r' = em_Cleanup t (eManager r)"
  | (next_height) "rHeight r < rHeight r'" "status r' = st_open" "blockInLock r' = []"
      "collections (eManager r') = []" "cachedMintedBlk (eManager r') = None"
proof (cases "height = rHeight r")
  case True
  then show thesis
    using assms same next_round
    by (auto simp: UpdateRound_def nextEpoch_def bindR_Inr Let_def split: if_splits)
next
  case False
  then show thesis
    using assms next_height
    by (auto simp: UpdateRound_def bindR_Inr Let_def em_Cleanup_def saved_def PutEndorsementManagerToDB_def
      not_less order.order_iff_strict split: if_splits option.splits)
qed

lemma lock_inv_update:
  assumes "lock_inv env r" "UpdateRound c r height interval now tol = Inr r'"
  shows "lock_inv env r'"
  using assms(2)
proof (cases rule: UpdateRound_cases)
  case same
  then show ?thesis using assms(1) by simp
next
  case (next_round t)
  then have "round_inv env r'" using assms(1) by (simp add: lock_inv_def round_inv_def em_inv_Cleanup)
  then show ?thesis using lock_inv_frame [OF assms(1)] next_round by simp
next
  case next_height
  then show ?thesis by (simp add: lock_inv_def round_inv_def em_inv_empty)
qed

lemma em_inv_replace:
  assumes "em_inv env D m" "HashBlock fin = HashBlock blk"
  shows "em_inv env D (m\<lparr>collections := map (\<lambda>(h, c). (h, c\<lparr>bcBlk := if bcBlk c = Some blk then Some fin else bcBlk c\<rparr>))
    (collections m), cachedMintedBlk := b\<rparr>)"
  using assms by (auto simp: em_inv_def bc_inv_def map_of_map_snd map_fst_map_snd)

lemma lock_inv_step:
  assumes "round_step env r r'" "lock_inv env r"
  shows "lock_inv env r'"
  using assms
proof cases
  case (step_replace fin blk)
  then have "round_inv env r'" using assms(2) by (simp add: lock_inv_def round_inv_def replaceBlock_def Let_def em_inv_replace)
  then show ?thesis using lock_inv_frame [OF assms(2)] step_replace by (simp add: replaceBlock_def Let_def)
next
  case (step_block blk)
  then have "round_inv env r'" using assms(2) by (simp add: lock_inv_def round_inv_AddBlock)
  then show ?thesis using lock_inv_frame [OF assms(2)] step_block by (simp add: AddBlock_def)
next
  case (step_minted blk)
  then have "round_inv env r'"
    using assms(2) by (simp add: lock_inv_def round_inv_def round_SetMintedBlock_def em_inv_SetMintedBlock)
  then show ?thesis using lock_inv_frame [OF assms(2)] step_minted by (simp add: round_SetMintedBlock_def)
qed (use assms(2) in \<open>auto intro: lock_inv_vote lock_inv_update\<close>)

text \<open>
  The operations of the context only make steps of its round.  The chain a context sees may change
  between the steps.
\<close>

inductive ctx_step :: "crypto_env \<Rightarrow> (blockProposal \<Rightarrow> byte list res) \<Rightarrow> rollDPoSCtx \<Rightarrow> rollDPoSCtx \<Rightarrow> bool"
  for env ph where
  ctx_prepare: "ctx_step env ph s (snd (Prepare now s))"
| ctx_proposal: "ctx_step env ph s (snd (Proposal env ph s))"
| ctx_endorseProposal: "ctx_step env ph s (snd (NewProposalEndorsement env block_msg s))"
| ctx_endorseLock: "ctx_step env ph s (snd (NewLockEndorsement env msg s))"
| ctx_endorsePreCommit: "ctx_step env ph s (snd (NewPreCommitEndorsement env msg s))"
| ctx_commit: "ctx_step env ph s (snd (CommitMsg env msg s))"
| ctx_chain: "ctx_step env ph s (s\<lparr>ctxChain := ch, roundCalc := (roundCalc s)\<lparr>rcChain := fc\<rparr>\<rparr>)"

abbreviation roundsFrom :: "crypto_env \<Rightarrow> roundCtx \<Rightarrow> rollDPoSCtx \<Rightarrow> bool" where
  "roundsFrom env r0 s \<equiv> (round_step env)\<^sup>*\<^sup>* r0 (round s)"

lemma rounds_onRound:
  "(\<And>r r'. f r = Inr r' \<Longrightarrow> round_step env r r') \<Longrightarrow> preserves (roundsFrom env r0) (onRound f)"
  by (auto simp: preserves_def onRound_def split: sum.splits intro: rtranclp.rtrancl_into_rtrancl)

lemma preserves_enough:
  "preserves P m \<Longrightarrow> (\<And>x. preserves P (f x)) \<Longrightarrow> preserves P (enough m f none)"
  unfolding preserves_def enough_def by (fastforce split: prod.splits sum.splits)

lemma rounds_verifyVote: "preserves (roundsFrom env r0) (verifyVote env msg topics)"
  unfolding verifyVote_def by (cases "msgDocument msg") (auto intro!: preserves_intros rounds_onRound step_vote)

lemma rounds_finalize: "preserves (roundsFrom env r0) (finalizePending blk ens t)"
  unfolding preserves_def
proof (intro allI impI)
  fix s assume s: "roundsFrom env r0 s"
  show "roundsFrom env r0 (snd (finalizePending blk ens t s))"
  proof (cases "Finalize ens t blk")
    case (Inr fin)
    then have "HashBlock fin = HashBlock blk" by (auto simp: Finalize_def split: if_splits)
    then show ?thesis using s Inr
      by (auto simp: finalizePending_def op_defs onRound_def intro: rtranclp.rtrancl_into_rtrancl step_replace)
  qed (use s in \<open>simp add: finalizePending_def op_defs\<close>)
qed

lemma rounds_answerCommit: "preserves (roundsFrom env r0) (answerCommit res fin)"
  by (auto simp: preserves_def answerCommit_def op_defs split: sum.splits)

lemma rounds_commitPending: "preserves (roundsFrom env r0) (commitPending h)"
  unfolding commitPending_def
  by (auto intro!: preserves_intros rounds_finalize rounds_answerCommit split: prod.splits)

lemma rounds_mintNewBlock: "preserves (roundsFrom env r0) (mintNewBlock env ph key)"
  unfolding mintNewBlock_def by (auto intro!: preserves_intros rounds_onRound step_minted)

lemma ctx_step_rounds: "ctx_step env ph s s' \<Longrightarrow> (round_step env)\<^sup>*\<^sup>* (round s) (round s')"
proof (induction rule: ctx_step.induct)
  case (ctx_prepare s now)
  have "preserves (roundsFrom env (round s)) (Prepare now)"
    unfolding Prepare_def Let_def by (auto intro!: preserves_intros rounds_onRound intro: step_update)
  then show ?case by (simp add: preserves_def)
next
  case (ctx_proposal s)
  have "preserves (roundsFrom env (round s)) (Proposal env ph)"
    unfolding Proposal_def by (auto intro!: preserves_intros rounds_mintNewBlock)
  then show ?case by (simp add: preserves_def)
next
  case (ctx_endorseProposal s block_msg)
  have "preserves (roundsFrom env (round s)) (NewProposalEndorsement env block_msg)"
    unfolding NewProposalEndorsement_def
    by (auto intro!: preserves_intros rounds_onRound step_block split: Document.splits)
  then show ?case by (simp add: preserves_def)
next
  case (ctx_endorseLock s msg)
  have "preserves (roundsFrom env (round s)) (NewLockEndorsement env msg)"
    unfolding NewLockEndorsement_def by (auto intro!: preserves_intros preserves_enough rounds_verifyVote)
  then show ?case by (simp add: preserves_def)
next
  case (ctx_endorsePreCommit s msg)
  have "preserves (roundsFrom env (round s)) (NewPreCommitEndorsement env msg)"
    unfolding NewPreCommitEndorsement_def by (auto intro!: preserves_intros preserves_enough rounds_verifyVote)
  then show ?case by (simp add: preserves_def)
next
  case (ctx_commit s msg)
  have "preserves (roundsFrom env (round s)) (CommitMsg env msg)"
    unfolding CommitMsg_def by (intro preserves_enough rounds_verifyVote rounds_commitPending)
  then show ?case by (simp add: preserves_def)
qed simp

lemma lock_inv_rounds: "(round_step env)\<^sup>*\<^sup>* r r' \<Longrightarrow> lock_inv env r \<Longrightarrow> lock_inv env r'"
  by (induction rule: rtranclp_induct) (auto intro: lock_inv_step)

lemma lock_inv_ctx: "(ctx_step env ph)\<^sup>*\<^sup>* s s' \<Longrightarrow> lock_inv env (round s) \<Longrightarrow> lock_inv env (round s')"
  by (induction rule: rtranclp_induct) (auto dest: ctx_step_rounds intro: lock_inv_rounds)

text \<open>
  Property C13.  Whatever the operations of the consensus context and the changes of the chain, a locked
  round holds verified endorsements of the locked block by more than two thirds of its delegates, and an
  unlocked round holds those of the empty block.
\<close>

theorem lock_is_certified:
  assumes "(ctx_step env ph)\<^sup>*\<^sup>* s s'" "lock_inv env (round s)"
    and "unique_address env" "delegates_ok (round s')" "status (round s') \<noteq> st_open"
  shows "(IsLocked (round s') \<longleftrightarrow> blockInLock (round s') \<noteq> []) \<and>
    endorsedBy env (blockInLock (round s')) [PROPOSAL, COMMIT] (proofOfLock (round s')) \<subseteq> set (delegates (round s')) \<and>
    2 * length (delegates (round s')) <
      3 * card (endorsedBy env (blockInLock (round s')) [PROPOSAL, COMMIT] (proofOfLock (round s')))"
proof -
  have inv: "lock_inv env (round s')" using lock_inv_ctx [OF assms(1,2)] .
  then have "certified env (round s') (blockInLock (round s')) (proofOfLock (round s'))"
    using assms(5) by (simp add: lock_inv_def)
  then have "endorsedBy env (blockInLock (round s')) [PROPOSAL, COMMIT] (proofOfLock (round s')) \<subseteq> set (delegates (round s'))"
    "2 * length (delegates (round s')) <
      3 * card (endorsedBy env (blockInLock (round s')) [PROPOSAL, COMMIT] (proofOfLock (round s')))"
    using majority_voters [of "proofOfLock (round s')" "[PROPOSAL, COMMIT]" env "round s'"] assms(3,4)
    by (simp_all add: certified_def)
  moreover have "IsLocked (round s') \<longleftrightarrow> blockInLock (round s') \<noteq> []"
    using inv assms(5) by (cases "status (round s')") (auto simp: lock_inv_def IsLocked_def)
  ultimately show ?thesis by blast
qed

text \<open>
  Property C14.  At one height a lock is never moved to another block: a step of the round keeps the lock
  with its block and its proof, or releases it with a majority for the empty block.  In particular a
  majority for another block that is not empty leaves the lock alone.
\<close>

theorem lock_only_released:
  assumes "round_step env r r'" "IsLocked r" "rHeight r' = rHeight r"
  shows "IsLocked r' \<and> blockInLock r' = blockInLock r \<and> proofOfLock r' = proofOfLock r \<or>
    IsUnlocked r' \<and> EndorsedByMajority [] [PROPOSAL, COMMIT] r'"
  using assms(1)
proof cases
  case (step_vote vote en)
  obtain m where m: "r' = updateLock vote (r\<lparr>eManager := m\<rparr>)" using step_vote by (rule AddVoteEndorsement_Inr)
  show ?thesis
  proof (cases vote "r\<lparr>eManager := m\<rparr>" rule: updateLock_cases)
    case same
    then show ?thesis using assms(2) by (simp add: m IsLocked_def)
  next
    case lock
    then show ?thesis using assms(2)
      by (auto simp: m IsLocked_def IsUnlocked_def EndorsedByMajority_def round_endorsements_def)
  qed
next
  case (step_update c height interval now tol)
  then show ?thesis using assms(2,3) by (cases rule: UpdateRound_cases) (auto simp: IsLocked_def)
qed (use assms(2) in \<open>simp_all add: IsLocked_def AddBlock_def round_SetMintedBlock_def replaceBlock_def Let_def\<close>)

text \<open>
  What a node stored before it stopped does not survive the restart: the first round is created at
  height 0, so that the first update is to a greater height and drops the endorsements, the minted
  block and the lock.
\<close>

lemma restart_forgets:
  assumes "NewRoundWithToleration env c 0 interval now (Some m) tol = Inr r"
    and "UpdateRound c' r height interval' now' tol' = Inr r'" "height \<noteq> 0"
  shows "collections (eManager r') = [] \<and> cachedMintedBlk (eManager r') = None \<and> status r' = st_open"
proof -
  have r: "rHeight r = 0" using assms(1) by (auto simp: NewRoundWithToleration_def newRound_def bindR_Inr)
  have h: "rHeight r' = height"
    using assms(2,3) r by (auto simp: UpdateRound_def bindR_Inr Let_def word_less_nat_alt split: if_splits)
  show ?thesis using assms(2)
  proof (cases rule: UpdateRound_cases)
    case same
    then show ?thesis using r h assms(3) by simp
  next
    case (next_round t)
    then show ?thesis using r h assms(3) by simp
  next
    case next_height
    then show ?thesis by simp
  qed
qed

text \<open>
  A node looks for its own commit votes under its addresses, but they are stored under the public keys:
  if no public key is rendered like an address it never finds them.
\<close>

lemma ReadyToCommit_never:
  assumes "round_inv env r" "\<And>a k. a \<in> set addrs \<Longrightarrow> HexString env k \<noteq> a"
  shows "ReadyToCommit addrs r = []"
proof -
  have "bc_Endorsement a COMMIT c = None"
    if "a \<in> set addrs" "map_of (collections (eManager r)) (blockInLock r) = Some c" for a c
  proof (rule ccontr)
    assume "bc_Endorsement a COMMIT c \<noteq> None"
    then obtain en where "bc_Endorsement a COMMIT c = Some en" by blast
    then have "endorsementOf (eManager r) (blockInLock r) a COMMIT = Some en" using that by (simp add: endorsementOf_def)
    then show False using endorsementOf_key assms that(1) by (fastforce simp: round_inv_def vote_ok_def)
  qed
  then show ?thesis
    by (auto simp: ReadyToCommit_def CollectionByBlockHash_def List.map_filter_def filter_empty_conv split: option.splits)
qed

section \<open>Rounds and time\<close>

lemma wrap64_id: "- (2 ^ 63) \<le> x \<Longrightarrow> x < 2 ^ 63 \<Longrightarrow> wrap64 x = x"
  by (simp add: wrap64_def signed_take_bit_int_eq_self signed_of_int)

lemma go_quot_pos: "0 \<le> d \<Longrightarrow> 0 < i \<Longrightarrow> go_quot d i = d div i"
  by (cases "d = 0") (simp_all add: go_quot_def)

lemma zdiv_mult_le: "0 < (i :: int) \<Longrightarrow> d div i * i \<le> d"
  using pos_mod_sign [of i d] div_mult_mod_eq [of d i] by linarith

lemma go_quot_between:
  assumes "0 < i"
  shows "min 0 d \<le> go_quot d i * i \<and> go_quot d i * i \<le> max 0 d"
proof (cases "0 \<le> d")
  case True
  then show ?thesis using assms by (simp add: go_quot_pos zdiv_mult_le pos_imp_zdiv_nonneg_iff)
next
  case False
  then have "go_quot d i = - ((- d) div i)" using assms by (simp add: go_quot_def)
  moreover have "(- d) div i * i \<le> - d" "0 \<le> (- d) div i * i"
    using assms False by (simp_all add: zdiv_mult_le pos_imp_zdiv_nonneg_iff)
  ultimately show ?thesis using False by (simp only: mult_minus_left) linarith
qed

text \<open>The time of the last block is aligned to the genesis block.\<close>

lemma roundDown_dvd:
  assumes "roundDown (timeSub t g) i = Inr x" "0 < i"
  shows "i dvd x"
proof -
  have "- (2 ^ 63) \<le> timeSub t g" "timeSub t g < 2 ^ 63"
    by (simp_all add: timeSub_def Let_def maxDuration_def minDuration_def)
  then have "- (2 ^ 63) \<le> go_quot (timeSub t g) i * i" "go_quot (timeSub t g) i * i < 2 ^ 63"
    using go_quot_between [OF assms(2), of "timeSub t g"] by (auto simp: min_def max_def split: if_splits)
  then show ?thesis using assms by (auto simp: roundDown_def wrap64_id split: if_splits)
qed

lemma lastBlockTime_aligned:
  assumes "lastBlockTimeOf c height i = Inr t0" "BlockProposeTime (rcChain c) 0 = Inr g" "0 < i"
  shows "i dvd (t0 - g)"
  using assms by (auto simp: lastBlockTimeOf_def bindR_Inr roundDown_dvd split: if_splits)

lemma uint_pred: "1 \<le> x \<Longrightarrow> x < 2 ^ 32 \<Longrightarrow> uint (word_of_int x - 1 :: u32) = x - 1"
proof -
  assume x: "1 \<le> x" "x < 2 ^ 32"
  have "uint (word_of_int y :: u32) = y" if "0 \<le> y" "y < 2 ^ 32" for y
    using that by (simp add: uint_word_of_int_eq take_bit_int_eq_self)
  from this [of "x - 1"] show ?thesis using x by simp
qed

lemma roundAt_Inr:
  assumes "roundAt i now tol t0 = Inr (n, start)" "0 < i" "now - t0 + i < 2 ^ 63" "(now - t0) div i < 2 ^ 32 - 1"
  shows "t0 < now \<and> start = t0 + (uint n + 1) * i \<and>
    uint n = (if now \<le> t0 + i then 0
      else if tol = 0 \<or> (now - t0) mod i < tol then (now - t0) div i - 1 else (now - t0) div i)"
proof -
  let ?d = "now - t0"
  have less: "t0 < now" using assms(1) by (auto simp: roundAt_def split: if_splits)
  have sub: "timeSub now t0 = ?d" using less assms(2,3) by (simp add: timeSub_def Let_def maxDuration_def minDuration_def)
  have q: "go_quot ?d i = ?d div i" using less assms(2) by (simp add: go_quot_pos)
  have md: "?d - ?d div i * i = ?d mod i" by (simp add: minus_div_mult_eq_mod)
  let ?n = "if i < ?d then (if tol = 0 \<or> ?d mod i < tol then word_of_int (?d div i) - 1 else word_of_int (?d div i)) else 0 :: u32"
  have n: "n = ?n" and start: "start = t0 + wrap64 (uint (n + 1) * i)"
    using assms(1,2) less by (auto simp: roundAt_def sub q md Let_def split: if_splits)
  have pos: "i < ?d \<Longrightarrow> 1 \<le> ?d div i" using zdiv_mono1 [of i ?d i] assms(2) by simp
  have nn: "0 \<le> ?d div i" using less assms(2) by (simp add: pos_imp_zdiv_nonneg_iff)
  have un: "uint n = (if i < ?d then (if tol = 0 \<or> ?d mod i < tol then ?d div i - 1 else ?d div i) else 0)"
    using pos nn assms(4) by (auto simp: n uint_pred uint_word_of_int_eq take_bit_int_eq_self)
  have le: "uint n \<le> ?d div i" using un nn by simp
  then have "uint (n + 1) = uint n + 1" using assms(4) by (simp add: uint_word_ariths)
  moreover have "(uint n + 1) * i \<le> ?d + i"
  proof -
    have "uint n * i \<le> ?d div i * i" using le assms(2) by simp
    also have "\<dots> \<le> ?d" using assms(2) by (rule zdiv_mult_le)
    finally show ?thesis by (simp add: algebra_simps)
  qed
  moreover have "0 \<le> (uint n + 1) * i" using assms(2) by simp
  ultimately have "start = t0 + (uint n + 1) * i" using start assms(3) by (simp add: wrap64_id)
  then show ?thesis using less un by auto
qed

text \<open>
  Property C27.  The start of a round is aligned to the genesis time, lies within one interval of the
  current time, and is at most the tolerated overtime in the past.
\<close>

theorem round_contains_now:
  assumes "roundInfo c height i now tol = Inr (n, start)" "lastBlockTimeOf c height i = Inr t0"
    and "BlockProposeTime (rcChain c) 0 = Inr g" "0 < i" "0 \<le> tol"
    and "now - t0 + i < 2 ^ 63" "(now - t0) div i < 2 ^ 32 - 1"
  shows "i dvd (start - g) \<and> t0 + i \<le> start \<and> start \<le> now + i \<and> now < start + i \<and>
    (start \<le> now \<longrightarrow> tol = 0 \<or> now - start < tol) \<and> (t0 + i < now \<longrightarrow> tol = 0 \<longrightarrow> start \<le> now)"
proof -
  let ?d = "now - t0"
  have at: "t0 < now" "start = t0 + (uint n + 1) * i"
    "uint n = (if now \<le> t0 + i then 0 else if tol = 0 \<or> ?d mod i < tol then ?d div i - 1 else ?d div i)"
    using roundAt_Inr [of i now tol t0 n start] assms by (simp_all add: roundInfo_def)
  have "start - g = (t0 - g) + (uint n + 1) * i" using at(2) by simp
  also have "i dvd \<dots>" using lastBlockTime_aligned [OF assms(2,3,4)] by simp
  finally have dvd: "i dvd (start - g)" .
  define Q where "Q = ?d div i * i"
  define M where "M = ?d mod i"
  have md: "Q + M = ?d" "0 \<le> M" "M < i" using assms(4) by (simp_all add: Q_def M_def)
  have "0 \<le> uint n * i" using assms(4) by simp
  then have lo: "t0 + i \<le> start" using at(2) by (simp add: algebra_simps)
  consider (first) "now \<le> t0 + i" "start = t0 + i"
    | (down) "t0 + i < now" "tol = 0 \<or> M < tol" "start = t0 + Q"
    | (up) "t0 + i < now" "tol \<noteq> 0" "\<not> M < tol" "start = t0 + Q + i"
    using at(2,3) by (auto simp: algebra_simps Q_def M_def split: if_splits)
  then show ?thesis
  proof cases
    case first
    then show ?thesis using dvd at(1) assms(4,5) by auto
  qed (use dvd md lo in auto)
qed

section \<open>A concrete committee\<close>

definition renderKey :: "char \<Rightarrow> byte list \<Rightarrow> string" where
  "renderKey c k = c # map (\<lambda>b. char_of (unat b)) k"

definition exCrypto :: crypto_env where
  "exCrypto = \<lparr>HexString = renderKey (CHR ''k''), keyAddress = (\<lambda>k. Some (renderKey (CHR ''a'') k)),
     VerifySig = (\<lambda>k h sig. sig = k @ h), PublicKey = (\<lambda>k. k), Sign = (\<lambda>k h. Inr (k @ h)),
     BytesToPublicKey = (\<lambda>k. Inr k), Hash256b = (\<lambda>h. h), voteDigest = (\<lambda>(h, t). t # h)\<rparr>"

lemma exCrypto_unique: "unique_address exCrypto"
proof -
  have inj: "inj (\<lambda>b :: byte. char_of (unat b) :: char)"
  proof (rule injI)
    fix x y :: byte assume "char_of (unat x) = (char_of (unat y) :: char)"
    then have "of_char (char_of (unat x) :: char) = (of_char (char_of (unat y) :: char) :: nat)" by simp
    then have "unat x mod 256 = unat y mod 256" by simp
    moreover have "unat z < 256" for z :: byte by (rule order_less_le_trans [OF unsigned_less]) simp
    ultimately show "x = y" by (simp add: word_unat_eq_iff)
  qed
  then show ?thesis
    unfolding unique_address_def exCrypto_def renderKey_def by (auto simp: inj_map_eq_map)
qed

definition exTiming :: consensusCfg where
  "exTiming = (let t = \<lparr>tmUnmatchedEventTTL = 3, tmUnmatchedEventInterval = 1, tmAcceptBlockTTL = 4,
       tmAcceptProposalEndorsementTTL = 2, tmAcceptLockEndorsementTTL = 2, tmCommitTTL = 2, tmBlockInterval = 10, tmDelay = 5\<rparr>
     in \<lparr>cfgTiming = t, cfgDardanelles = t, cfgDardanellesHeight = 100, cfgWake = t, cfgWakeHeight = 200\<rparr>)"

definition exDelegates :: "string list" where
  "exDelegates = map (renderKey (CHR ''a'')) [[1], [2], [3], [4]]"

definition exChain :: ForkChain where
  "exChain = \<lparr>TipHash = [0], BlockProposeTime = (\<lambda>_. Inr 0), BlockCommitTime = (\<lambda>_. Inr 0)\<rparr>"

definition exCalc :: roundCalculator where
  "exCalc = \<lparr>rcChain = exChain, timeBasedRotation = False, rp = NewProtocol 4 4 2 [],
     delegatesByEpochFunc = (\<lambda>_ _. Inr exDelegates), proposersByEpochFunc = (\<lambda>_ _. Inr exDelegates), beringHeight = 0\<rparr>"

definition exSigned :: "bhash \<Rightarrow> byte \<Rightarrow> privkey \<Rightarrow> Endorsement" where
  "exSigned h topic key =
     (case Endorse exCrypto (vote_Hash exCrypto \<lparr>voteBlkHash = h, voteTopic = topic\<rparr>) 30 [key] of
        Inr [en] \<Rightarrow> en | _ \<Rightarrow> \<lparr>enTs = 0, enEndorser = [], enSignature = []\<rparr>)"

definition exProposed :: "bhash \<Rightarrow> privkey list \<Rightarrow> block" where
  "exProposed h keys = \<lparr>HashBlock = h, blkHeight = 5, blkTimestamp = 25, PrevHash = [0],
     ProducerAddress = renderKey (CHR ''a'') [2], VerifySignature = True,
     footerEndorsements = map (exSigned h COMMIT) keys, commitTime = 30\<rparr>"

lemma exDelegates_facts:
  "Delegates exCalc 5 = Inr exDelegates" "distinct exDelegates" "length exDelegates = 4"
  "unat (numDelegates (rp exCalc)) = 4" "numDelegates (rp exCalc) = 4"
  by code_simp+

lemma exFooters:
  "ValidateBlockFooter exCrypto exTiming exCalc (exProposed [7] [[1], [2], [3]]) = Inr ()"
  "ValidateBlockFooter exCrypto exTiming exCalc (exProposed [8] [[2], [3], [4]]) = Inr ()"
  by code_simp+

theorem accepted_footers_share_signers_witness:
  "ValidateBlockFooter exCrypto exTiming exCalc (exProposed [7] [[1], [2], [3]]) = Inr () \<and>
   ValidateBlockFooter exCrypto exTiming exCalc (exProposed [8] [[2], [3], [4]]) = Inr () \<and>
   4 < 3 * card (set exDelegates \<inter> commitSigners exCrypto (exProposed [7] [[1], [2], [3]]) \<inter>
     commitSigners exCrypto (exProposed [8] [[2], [3], [4]]))"
  using accepted_footers_share_signers [OF exFooters exCrypto_unique, of exDelegates] exDelegates_facts exFooters
  by (simp add: exProposed_def)

text \<open>A node that has seen the block and the votes, and the messages it receives.\<close>

definition exFresh :: roundCtx where
  "exFresh = (case NewRound exCrypto exCalc 5 10 25 None of
     Inr r \<Rightarrow> AddBlock (exProposed [7] []) r | Inl _ \<Rightarrow> undefined)"

definition exCtx :: rollDPoSCtx where
  "exCtx = \<lparr>ctxCfg = exTiming, ctxChain = \<lparr>cmTipHeight = 4, cmFork = (\<lambda>_. Inr exChain), cmValidateBlock = (\<lambda>_. Inr ()),
       cmMintNewBlock = (\<lambda>_ _ _. Inr (exProposed [7] [])), cmCommitBlock = (\<lambda>_. Inr ())\<rparr>,
     roundCalc = exCalc, toleratedOvertime = 2, encodedAddrs = [renderKey (CHR ''a'') [1]], priKeys = [[1]],
     round = exFresh, ctxActive = True\<rparr>"

definition exVote :: "byte \<Rightarrow> privkey \<Rightarrow> EndorsedConsensusMessage" where
  "exVote topic key = \<lparr>msgHeight = 5, msgDocument = DocVote \<lparr>voteBlkHash = [7], voteTopic = topic\<rparr>,
     msgEndorsement = exSigned [7] topic key\<rparr>"

definition exLocked :: rollDPoSCtx where
  "exLocked = fold (\<lambda>key s. snd (NewLockEndorsement exCrypto (exVote PROPOSAL key) s)) [[1], [2], [3]] exCtx"

definition exCommitting :: rollDPoSCtx where
  "exCommitting = fold (\<lambda>key s. snd (CommitMsg exCrypto (exVote COMMIT key) s)) [[1], [2]] exLocked"

lemma exFresh_inv: "lock_inv exCrypto exFresh \<and> delegates_ok exFresh"
proof -
  have ok: "(case NewRound exCrypto exCalc 5 10 25 None of Inr r \<Rightarrow> True | Inl _ \<Rightarrow> False)"
    "distinct (delegates exFresh) \<and> length (delegates exFresh) = unat (numOfDelegates exFresh) \<and> length (delegates exFresh) < 9"
    by code_simp+
  then obtain r where r: "NewRound exCrypto exCalc 5 10 25 None = Inr r" by (auto split: sum.splits)
  note new = newRound_Inr [OF r [unfolded NewRound_def]]
  have "round_inv exCrypto exFresh" using new(1) r by (simp add: exFresh_def round_inv_AddBlock)
  moreover have "status exFresh = st_open" using new(6) r by (simp add: exFresh_def AddBlock_def)
  ultimately show ?thesis using ok(2) by (simp add: lock_inv_def delegates_ok_def)
qed

lemma ctx_run_lock:
  "(ctx_step env ph)\<^sup>*\<^sup>* s s1 \<Longrightarrow> (ctx_step env ph)\<^sup>*\<^sup>* s (snd (NewLockEndorsement env msg s1))"
  by (erule rtranclp.rtrancl_into_rtrancl) (rule ctx_endorseLock)

lemma ctx_run_commit:
  "(ctx_step env ph)\<^sup>*\<^sup>* s s1 \<Longrightarrow> (ctx_step env ph)\<^sup>*\<^sup>* s (snd (CommitMsg env msg s1))"
  by (erule rtranclp.rtrancl_into_rtrancl) (rule ctx_commit)

lemma exLocked_run: "(ctx_step exCrypto (\<lambda>_. Inr []))\<^sup>*\<^sup>* exCtx exLocked"
  unfolding exLocked_def fold.simps comp_def id_apply by (intro ctx_run_lock rtranclp.rtrancl_refl)

lemma exCommitting_run: "(ctx_step exCrypto (\<lambda>_. Inr []))\<^sup>*\<^sup>* exCtx exCommitting"
  unfolding exCommitting_def fold.simps comp_def id_apply by (intro ctx_run_commit exLocked_run)

lemma exLocked_facts: "status (round exLocked) = st_locked" "blockInLock (round exLocked) = [7]"
  "distinct (delegates (round exLocked)) \<and> length (delegates (round exLocked)) = unat (numOfDelegates (round exLocked)) \<and>
   length (delegates (round exLocked)) = 4"
  by code_simp+

theorem lock_is_certified_witness:
  "IsLocked (round exLocked) \<and> blockInLock (round exLocked) = [7] \<and>
   8 < 3 * card (endorsedBy exCrypto [7] [PROPOSAL, COMMIT] (proofOfLock (round exLocked)))"
  using lock_is_certified [OF exLocked_run] exFresh_inv exCrypto_unique exLocked_facts
  by (simp add: exCtx_def delegates_ok_def)

text \<open>The lock stays on its block when another is added, and two votes for the empty block do not release it; the third does.\<close>

definition exEmptyVotes :: "privkey list \<Rightarrow> roundCtx res" where
  "exEmptyVotes keys = foldl (\<lambda>res key. bindR res (AddVoteEndorsement exCrypto \<lparr>voteBlkHash = [], voteTopic = PROPOSAL\<rparr>
     (exSigned [] PROPOSAL key))) (Inr (round exLocked)) keys"

lemma exEmptyVotes_facts:
  "(case exEmptyVotes [[1], [2]] of Inr r \<Rightarrow> status r = st_locked \<and> rHeight r = 5 | Inl _ \<Rightarrow> False)"
  "(case exEmptyVotes [[1], [2], [3]] of Inr r \<Rightarrow> status r \<noteq> st_locked \<and> rHeight r = 5 | Inl _ \<Rightarrow> False)"
  by code_simp+

theorem lock_only_released_witness:
  "IsLocked (AddBlock (exProposed [8] []) (round exLocked)) \<and>
   blockInLock (AddBlock (exProposed [8] []) (round exLocked)) = [7] \<and>
   (\<exists>r r'. exEmptyVotes [[1], [2]] = Inr r \<and> exEmptyVotes [[1], [2], [3]] = Inr r' \<and> IsLocked r \<and>
      IsUnlocked r' \<and> EndorsedByMajority [] [PROPOSAL, COMMIT] r')"
proof -
  obtain r r' where r: "exEmptyVotes [[1], [2]] = Inr r" "status r = st_locked" "rHeight r = 5"
    and r': "exEmptyVotes [[1], [2], [3]] = Inr r'" "status r' \<noteq> st_locked" "rHeight r' = 5"
    using exEmptyVotes_facts by (auto split: sum.splits)
  have "AddVoteEndorsement exCrypto \<lparr>voteBlkHash = [], voteTopic = PROPOSAL\<rparr> (exSigned [] PROPOSAL [3]) r = Inr r'"
    using r(1) r'(1) by (simp add: exEmptyVotes_def bindR_def)
  then have "IsUnlocked r' \<and> EndorsedByMajority [] [PROPOSAL, COMMIT] r'"
    using lock_only_released [OF step_vote] r r' by (fastforce simp: IsLocked_def)
  then show ?thesis
    using lock_only_released [OF step_block [of exCrypto "round exLocked" "exProposed [8] []"]] exLocked_facts r r'
    by (auto simp: AddBlock_def IsLocked_def IsUnlocked_def)
qed

definition exFinal :: block where
  "exFinal = (case fst (CommitMsg exCrypto (exVote COMMIT [3]) exCommitting) of Inr (Some b) \<Rightarrow> b | _ \<Rightarrow> exProposed [] [])"

lemma exFinal_facts:
  "(case fst (CommitMsg exCrypto (exVote COMMIT [3]) exCommitting) of Inr (Some b) \<Rightarrow> True | _ \<Rightarrow> False)"
  "blkHeight exFinal = 5" "blkTimestamp exFinal = 25" "PrevHash exFinal = [0]"
  "delegates (round exCommitting) = exDelegates" "numOfDelegates (round exCommitting) = 4"
  "(case NewRound exCrypto exCalc 5 10 25 None of Inr r \<Rightarrow> delegates r = exDelegates \<and> numOfDelegates r = 4 | Inl _ \<Rightarrow> False)"
  "length (footerEndorsements exFinal) = 3"
  by code_simp+

text \<open>The proposal of the block by the second delegate, and the round calculator of a node that checks it.\<close>

definition exProposal :: blockProposal where
  "exProposal = \<lparr>propBlock = exProposed [7] [], propProofOfLock = []\<rparr>"

lemma exProposal_facts:
  "CheckBlockProposer exCrypto 5 exProposal (exSigned [7] PROPOSAL [2]) exCtx = Inr ()"
  "exFinal = (propBlock exProposal)\<lparr>footerEndorsements := footerEndorsements exFinal, commitTime := commitTime exFinal\<rparr>"
  "ProducerAddress exFinal \<noteq> []"
  by code_simp+

theorem committed_block_accepted_witness:
  "fst (CommitMsg exCrypto (exVote COMMIT [3]) exCommitting) = Inr (Some exFinal) \<and>
   CheckBlockProposer exCrypto 5 exProposal (exSigned [7] PROPOSAL [2]) exCtx = Inr () \<and>
   length (footerEndorsements exFinal) = 3 \<and> ValidateBlockFooter exCrypto exTiming exCalc exFinal = Inr ()"
proof -
  have fin: "fst (CommitMsg exCrypto (exVote COMMIT [3]) exCommitting) = Inr (Some exFinal)"
    using exFinal_facts(1) by (auto simp: exFinal_def split: sum.splits option.splits)
  have "lock_inv exCrypto (round exCommitting)"
    using lock_inv_ctx [OF exCommitting_run] exFresh_inv by (simp add: exCtx_def)
  then have inv: "round_inv exCrypto (round exCommitting)" by (simp add: lock_inv_def)
  have node: "cmFork (ctxChain exCtx) (PrevHash exFinal) = Inr exChain" "exCalc = (roundCalc exCtx)\<lparr>rcChain := exChain\<rparr>"
    "proposersByEpochFunc (roundCalc exCtx) = delegatesByEpochFunc (roundCalc exCtx)" "ctxCfg exCtx = exTiming"
    by (simp_all add: exCtx_def exCalc_def)
  have "ValidateBlockFooter exCrypto (ctxCfg exCtx) exCalc exFinal = Inr ()"
    by (rule committed_block_accepted [OF prod_eqI inv _ exProposal_facts(2,3) node(1,2,3)])
      (use fin exFinal_facts exProposal_facts(1) exDelegates_facts in \<open>simp_all\<close>)
  then show ?thesis using fin exFinal_facts exProposal_facts(1) node(4) by simp
qed

theorem round_contains_now_witness:
  "roundInfo exCalc 5 10 25 2 = Inr (2, 30) \<and> (10 :: int) dvd 30 - 0 \<and> (0 :: int) + 10 \<le> 30 \<and> (30 :: int) \<le> 25 + 10 \<and> (25 :: int) < 30 + 10"
proof -
  have run: "roundInfo exCalc 5 10 25 2 = Inr (2, 30)" "lastBlockTimeOf exCalc 5 10 = Inr 0" by code_simp+
  show ?thesis using round_contains_now [OF run, of 0] run by (simp add: exCalc_def exChain_def)
qed

end
