(* ===== verification/ConsensusFSM.thy ===== *)
theory ConsensusFSM
  imports ConsensusSafety
begin

text \<open>
  The state machine of a consensus round (\<^verbatim>\<open>consensus/consensusfsm/fsm.go\<close>) over the context of
  \<open>Rounds\<close>: its transition table, the handlers of its events, the events they schedule and the
  messages they broadcast.

  The dispatch of an event to the handler of the table is the third-party \<^verbatim>\<open>go-fsm\<close> package; it is an
  argument of \<open>handle\<close>.  The event queue and the timers are one list of delays and events, in the order
  in which they are produced.  Data of an event that a handler casts to a type it has not is an error,
  as in the source.
\<close>

section \<open>States, events and the table\<close>

text \<open>A state is a string: the five constants of the table, or any other (\<open>OtherState\<close>).\<close>

datatype fsm_state =
    sPrepare
  | sAcceptBlockProposal
  | sAcceptProposalEndorsement
  | sAcceptLockEndorsement
  | sAcceptPreCommitEndorsement
  | OtherState string

datatype event_type =
    eCalibrate
  | ePrepare
  | eReceiveBlock
  | eFailedToReceiveBlock
  | eReceiveProposalEndorsement
  | eStopReceivingProposalEndorsement
  | eReceiveLockEndorsement
  | eStopReceivingLockEndorsement
  | eReceivePreCommitEndorsement
  | eStopReceivingPreCommitEndorsement
  | eBroadcastPreCommitEndorsement
  | BackdoorEvent

datatype event_data =
    NoData
  | HeightData u64
  | StateData fsm_state
  | MsgData EndorsedConsensusMessage
  | MsgsData "EndorsedConsensusMessage list"

record ConsensusEvent =
  evHeight :: u64
  evRound :: u32
  evType :: event_type
  evTime :: int
  evData :: event_data

text \<open>The machine: its context, what it has produced and broadcast, and the clock.\<close>

record machine =
  mCtx :: rollDPoSCtx
  mProduced :: "(int \<times> ConsensusEvent) list"
  mSent :: "event_data list"
  mNow :: int

definition consensusStates :: "fsm_state list" where
  "consensusStates = [sPrepare, sAcceptBlockProposal, sAcceptProposalEndorsement, sAcceptLockEndorsement,
     sAcceptPreCommitEndorsement]"

section \<open>Producing events\<close>

fun eventsOf :: "rollDPoSCtx \<Rightarrow> int \<Rightarrow> event_type \<Rightarrow> EndorsedConsensusMessage list \<Rightarrow> ConsensusEvent list option" where
  "eventsOf ctx now et [] = Some []"
| "eventsOf ctx now et (msg # msgs) =
     (case RoundInfo (roundCalc ctx) (msgHeight msg) (BlockInterval (ctxCfg ctx) (msgHeight msg)) (enTs (msgEndorsement msg)) of
        Inl _ \<Rightarrow> None
      | Inr (n, _) \<Rightarrow> map_option (\<lambda>es.
          \<lparr>evHeight = msgHeight msg, evRound = n, evType = et, evTime = now, evData = MsgData msg\<rparr> # es)
          (eventsOf ctx now et msgs))"

definition newConsensusEvent :: "rollDPoSCtx \<Rightarrow> int \<Rightarrow> event_type \<Rightarrow> event_data \<Rightarrow> ConsensusEvent list" where
  "newConsensusEvent ctx now et data =
     (let msgs = (case data of MsgData m \<Rightarrow> Some [m] | MsgsData ms \<Rightarrow> Some ms | _ \<Rightarrow> None) in
      case msgs of
        None \<Rightarrow> [\<lparr>evHeight = rHeight (round ctx), evRound = roundNum (round ctx), evType = et, evTime = now, evData = data\<rparr>]
      | Some ms \<Rightarrow> (case eventsOf ctx now et ms of None \<Rightarrow> [] | Some es \<Rightarrow> es))"

definition delayProduce :: "int \<Rightarrow> ConsensusEvent list \<Rightarrow> (machine, unit) op" where
  "delayProduce delay evts = modifyS (\<lambda>m. m\<lparr>mProduced := mProduced m @ map (\<lambda>e. (max 0 delay, e)) evts\<rparr>)"

definition produceData :: "event_type \<Rightarrow> event_data \<Rightarrow> int \<Rightarrow> (machine, unit) op" where
  "produceData et data delay m = delayProduce delay (newConsensusEvent (mCtx m) (mNow m) et data) m"

definition produceConsensusEvent :: "event_type \<Rightarrow> int \<Rightarrow> (machine, unit) op" where
  "produceConsensusEvent et delay = produceData et NoData delay"

definition Calibrate :: "u64 \<Rightarrow> (machine, unit) op" where
  "Calibrate height = produceData eCalibrate (HeightData height) 0"

definition BackToPrepare :: "int \<Rightarrow> (machine, fsm_state) op" where
  "BackToPrepare delay =
     bindS (readS (\<lambda>m. ctxActive (mCtx m))) (\<lambda>active.
     thenS (whenS active (produceConsensusEvent ePrepare delay)) (
     returnS sPrepare))"

definition Broadcast :: "event_data \<Rightarrow> (machine, unit) op" where
  "Broadcast data = modifyS (\<lambda>m. m\<lparr>mSent := mSent m @ [data]\<rparr>)"

text \<open>Run an operation of the context; an error may be caught by the handler, a panic goes through it.\<close>

definition onCtx :: "(rollDPoSCtx, 'a) op \<Rightarrow> (machine, 'a) op" where
  "onCtx f m = (case f (mCtx m) of (r, ctx) \<Rightarrow> (r, m\<lparr>mCtx := ctx\<rparr>))"

fun is_panic :: "go_error \<Rightarrow> bool" where
  "is_panic (Panic _) = True"
| "is_panic _ = False"

definition catch :: "(machine, 'a) op \<Rightarrow> ('a \<Rightarrow> (machine, 'b) op) \<Rightarrow> (go_error \<Rightarrow> (machine, 'b) op) \<Rightarrow> (machine, 'b) op" where
  "catch m f g s = (case m s of
      (Inr x, s1) \<Rightarrow> f x s1
    | (Inl e, s1) \<Rightarrow> if is_panic e then (Inl e, s1) else g e s1)"

definition msgOf :: "event_data \<Rightarrow> EndorsedConsensusMessage res" where
  "msgOf data = (case data of MsgData msg \<Rightarrow> Inr msg | _ \<Rightarrow> Inl (Errorf ''invalid msg''))"

section \<open>Handlers\<close>

definition calibrate :: "ConsensusEvent \<Rightarrow> (machine, fsm_state) op" where
  "calibrate evt =
     (case evData evt of
        HeightData height \<Rightarrow>
          bindS (readS (\<lambda>m. rHeight (round (mCtx m)))) (\<lambda>consensusHeight.
          thenS (checkS (\<not> height < consensusHeight) ErrOldCalibrateEvt) (
          BackToPrepare 0))
      | _ \<Rightarrow> failS (Errorf ''invalid data type''))"

text \<open>How late the round starts: sleeping until it starts leaves no overtime.\<close>

definition WaitUntilRoundStart :: "machine \<Rightarrow> int" where
  "WaitUntilRoundStart m =
     (let start = roundStartTime (round (mCtx m)); overTime = timeSub (mNow m) start in
      if mNow m < start then 0
      else if \<not> hasDelegate (mCtx m) \<and> overTime < toleratedOvertime (mCtx m) then 0
      else overTime)"

definition scheduleRound :: "int \<Rightarrow> (machine, fsm_state) op" where
  "scheduleRound overtime =
     bindS (readS mCtx) (\<lambda>ctx.
     let h = rHeight (round ctx); cfg = ctxCfg ctx;
         t1 = AcceptBlockTTL cfg h - overtime;
         t2 = t1 + AcceptProposalEndorsementTTL cfg h;
         t3 = t2 + AcceptLockEndorsementTTL cfg h;
         t4 = t3 + CommitTTL cfg h in
     case PreCommitEndorsement ctx of
       Some ens \<Rightarrow>
         bindS (readS (\<lambda>m. newConsensusEvent (mCtx m) (mNow m) eBroadcastPreCommitEndorsement (MsgsData ens))) (\<lambda>cEvt.
         thenS (delayProduce t1 cEvt) (
         thenS (delayProduce t2 cEvt) (
         thenS (delayProduce t3 cEvt) (
         thenS (produceConsensusEvent eStopReceivingPreCommitEndorsement t4) (
         returnS sAcceptPreCommitEndorsement)))))
     | None \<Rightarrow>
         thenS (produceConsensusEvent eFailedToReceiveBlock t1) (
         thenS (produceConsensusEvent eStopReceivingProposalEndorsement t2) (
         thenS (produceConsensusEvent eStopReceivingLockEndorsement t3) (
         thenS (produceConsensusEvent eStopReceivingPreCommitEndorsement t4) (
         returnS sAcceptBlockProposal)))))"

definition prepare ::
  "crypto_env \<Rightarrow> (blockProposal \<Rightarrow> byte list res) \<Rightarrow> (machine, fsm_state) op" where
  "prepare env ph =
     bindS (readS mNow) (\<lambda>now.
     catch (onCtx (Prepare now)) (\<lambda>_.
       catch (onCtx (Proposal env ph)) (\<lambda>proposal.
         bindS (readS WaitUntilRoundStart) (\<lambda>overtime.
         thenS (case proposal of Some p \<Rightarrow> Broadcast (MsgData p) | None \<Rightarrow> returnS ()) (
         bindS (readS (\<lambda>m. hasDelegate (mCtx m))) (\<lambda>ok.
         if \<not> ok then BackToPrepare 0
         else
           thenS (case proposal of Some p \<Rightarrow> produceData eReceiveBlock (MsgData p) 0 | None \<Rightarrow> returnS ()) (
           scheduleRound overtime)))))
       (\<lambda>_. BackToPrepare 0))
     (\<lambda>_. BackToPrepare 0))"

definition processBlock :: "crypto_env \<Rightarrow> EndorsedConsensusMessage option \<Rightarrow> (machine, unit) op" where
  "processBlock env block_msg =
     bindS (onCtx (NewProposalEndorsement env block_msg)) (\<lambda>ens.
     thenS (produceData eReceiveProposalEndorsement (MsgsData ens) 0) (
     Broadcast (MsgsData ens)))"

text \<open>A nil block is the empty one; data of another type is an invalid block.\<close>

definition onReceiveBlock :: "crypto_env \<Rightarrow> ConsensusEvent \<Rightarrow> (machine, fsm_state) op" where
  "onReceiveBlock env evt =
     catch (case evData evt of
         NoData \<Rightarrow> processBlock env None
       | MsgData msg \<Rightarrow> processBlock env (Some msg)
       | _ \<Rightarrow> failS (Errorf ''invalid endorsed block''))
     (\<lambda>_. returnS sAcceptProposalEndorsement) (\<lambda>_. returnS sAcceptBlockProposal)"

definition onFailedToReceiveBlock :: "crypto_env \<Rightarrow> ConsensusEvent \<Rightarrow> (machine, fsm_state) op" where
  "onFailedToReceiveBlock env evt =
     catch (processBlock env None) (\<lambda>_. returnS sAcceptProposalEndorsement) (\<lambda>_. returnS sAcceptProposalEndorsement)"

definition onReceiveProposalEndorsement :: "crypto_env \<Rightarrow> fsm_state \<Rightarrow> ConsensusEvent \<Rightarrow> (machine, fsm_state) op" where
  "onReceiveProposalEndorsement env currentState evt =
     catch (bindS (liftS (msgOf (evData evt))) (\<lambda>msg. onCtx (NewLockEndorsement env msg)))
     (\<lambda>lock. case lock of
        None \<Rightarrow> returnS currentState
      | Some ens \<Rightarrow>
          thenS (produceData eReceiveLockEndorsement (MsgsData ens) 0) (
          thenS (Broadcast (MsgsData ens)) (
          returnS sAcceptLockEndorsement)))
     (\<lambda>_. returnS currentState)"

definition onStopReceivingProposalEndorsement :: "ConsensusEvent \<Rightarrow> (machine, fsm_state) op" where
  "onStopReceivingProposalEndorsement evt = returnS sAcceptLockEndorsement"

definition onReceiveLockEndorsement :: "crypto_env \<Rightarrow> ConsensusEvent \<Rightarrow> (machine, fsm_state) op" where
  "onReceiveLockEndorsement env evt =
     bindS (liftS (msgOf (evData evt))) (\<lambda>msg.
     bindS (onCtx (NewPreCommitEndorsement env msg)) (\<lambda>pre. case pre of
       None \<Rightarrow> returnS sAcceptLockEndorsement
     | Some ens \<Rightarrow>
         thenS (produceData eReceivePreCommitEndorsement (MsgsData ens) 0) (
         thenS (Broadcast (MsgsData ens)) (
         returnS sAcceptPreCommitEndorsement))))"

definition onBroadcastPreCommitEndorsement :: "ConsensusEvent \<Rightarrow> (machine, fsm_state) op" where
  "onBroadcastPreCommitEndorsement evt =
     thenS (Broadcast (evData evt)) (returnS sAcceptPreCommitEndorsement)"

definition onStopReceivingLockEndorsement :: "ConsensusEvent \<Rightarrow> (machine, fsm_state) op" where
  "onStopReceivingLockEndorsement evt = BackToPrepare 0"

definition onReceivePreCommitEndorsement :: "crypto_env \<Rightarrow> ConsensusEvent \<Rightarrow> (machine, fsm_state) op" where
  "onReceivePreCommitEndorsement env evt =
     bindS (liftS (msgOf (evData evt))) (\<lambda>msg.
     bindS (onCtx (CommitMsg env msg)) (\<lambda>committed.
     if committed = None then returnS sAcceptPreCommitEndorsement else BackToPrepare 0))"

definition onStopReceivingPreCommitEndorsement :: "ConsensusEvent \<Rightarrow> (machine, fsm_state) op" where
  "onStopReceivingPreCommitEndorsement evt = BackToPrepare 0"

definition handleBackdoorEvt :: "ConsensusEvent \<Rightarrow> (machine, fsm_state) op" where
  "handleBackdoorEvt evt =
     (case evData evt of StateData dst \<Rightarrow> returnS dst | _ \<Rightarrow> failS (Errorf ''the data is not a fsm.State''))"

section \<open>The transition table (NewConsensusFSM)\<close>

fun roundTransition ::
  "crypto_env \<Rightarrow> (blockProposal \<Rightarrow> byte list res) \<Rightarrow> fsm_state \<Rightarrow> event_type \<Rightarrow>
   ((ConsensusEvent \<Rightarrow> (machine, fsm_state) op) \<times> fsm_state list) option" where
  "roundTransition env ph sPrepare ePrepare =
     Some (\<lambda>_. prepare env ph, [sPrepare, sAcceptBlockProposal, sAcceptPreCommitEndorsement])"
| "roundTransition env ph sAcceptBlockProposal eReceiveBlock =
     Some (onReceiveBlock env, [sAcceptBlockProposal, sAcceptProposalEndorsement])"
| "roundTransition env ph sAcceptBlockProposal eFailedToReceiveBlock =
     Some (onFailedToReceiveBlock env, [sAcceptProposalEndorsement])"
| "roundTransition env ph sAcceptProposalEndorsement eReceiveProposalEndorsement =
     Some (onReceiveProposalEndorsement env sAcceptProposalEndorsement, [sAcceptProposalEndorsement, sAcceptLockEndorsement])"
| "roundTransition env ph sAcceptProposalEndorsement eReceivePreCommitEndorsement =
     Some (onReceiveProposalEndorsement env sAcceptProposalEndorsement, [sAcceptProposalEndorsement, sAcceptLockEndorsement])"
| "roundTransition env ph sAcceptProposalEndorsement eStopReceivingProposalEndorsement =
     Some (onStopReceivingProposalEndorsement, [sAcceptLockEndorsement])"
| "roundTransition env ph sAcceptLockEndorsement eReceiveProposalEndorsement =
     Some (onReceiveProposalEndorsement env sAcceptLockEndorsement, [sAcceptLockEndorsement])"
| "roundTransition env ph sAcceptLockEndorsement eReceiveLockEndorsement =
     Some (onReceiveLockEndorsement env, [sAcceptLockEndorsement, sAcceptPreCommitEndorsement])"
| "roundTransition env ph sAcceptLockEndorsement eReceivePreCommitEndorsement =
     Some (onReceiveLockEndorsement env, [sAcceptLockEndorsement, sAcceptPreCommitEndorsement])"
| "roundTransition env ph sAcceptLockEndorsement eStopReceivingLockEndorsement =
     Some (onStopReceivingLockEndorsement, [sPrepare])"
| "roundTransition env ph sAcceptPreCommitEndorsement eBroadcastPreCommitEndorsement =
     Some (onBroadcastPreCommitEndorsement, [sAcceptPreCommitEndorsement])"
| "roundTransition env ph sAcceptPreCommitEndorsement eStopReceivingPreCommitEndorsement =
     Some (onStopReceivingPreCommitEndorsement, [sPrepare])"
| "roundTransition env ph sAcceptPreCommitEndorsement eReceivePreCommitEndorsement =
     Some (onReceivePreCommitEndorsement env, [sAcceptPreCommitEndorsement, sPrepare])"
| "roundTransition env ph _ _ = None"

definition transition ::
  "crypto_env \<Rightarrow> (blockProposal \<Rightarrow> byte list res) \<Rightarrow> fsm_state \<Rightarrow> event_type \<Rightarrow>
   ((ConsensusEvent \<Rightarrow> (machine, fsm_state) op) \<times> fsm_state list) option" where
  "transition env ph st et =
     (if et = BackdoorEvent then
        (if st \<in> set consensusStates then Some (handleBackdoorEvt, consensusStates) else None)
      else if et = eCalibrate then
        (if st \<in> set consensusStates \<and> st \<noteq> sPrepare then Some (calibrate, [sPrepare, st]) else None)
      else roundTransition env ph st et)"

section \<open>Events (handle)\<close>

definition ErrTransitionNotFound :: go_error where
  "ErrTransitionNotFound = Errorf ''transition not found''"

definition IsStaleUnmatchedEvent :: "ConsensusEvent \<Rightarrow> machine \<Rightarrow> bool" where
  "IsStaleUnmatchedEvent evt m \<longleftrightarrow>
     UnmatchedEventTTL (ctxCfg (mCtx m)) (rHeight (round (mCtx m))) < timeSub (mNow m) (evTime evt)"

text \<open>\<open>fsmHandle\<close> is \<^verbatim>\<open>m.fsm.Handle\<close> of the go-fsm package.\<close>

definition handle :: "(ConsensusEvent \<Rightarrow> (machine, unit) op) \<Rightarrow> ConsensusEvent \<Rightarrow> (machine, unit) op" where
  "handle fsmHandle evt m =
     (let r = round (mCtx m);
          msg = (case evData evt of MsgData msg \<Rightarrow> Some msg | _ \<Rightarrow> None);
          later = delayProduce (UnmatchedEventInterval (ctxCfg (mCtx m)) (evHeight evt)) [evt] in
      if IsStale (evHeight evt) (evRound evt) msg r then (Inr (), m)
      else if IsFuture (evHeight evt) (evRound evt) r then later m
      else (case fsmHandle evt m of
          (Inr _, m1) \<Rightarrow> (Inr (), m1)
        | (Inl e, m1) \<Rightarrow>
            if e = ErrTransitionNotFound then (if IsStaleUnmatchedEvent evt m1 then (Inr (), m1) else later m1)
            else if e = ErrOldCalibrateEvt then (Inr (), m1)
            else (Inl e, m1)))"

section \<open>Destinations of the table\<close>

lemma catch_run [run_simps]:
  "catch m f g s = (Inr y, s') \<longleftrightarrow>
     (\<exists>x s1. m s = (Inr x, s1) \<and> f x s1 = (Inr y, s')) \<or> (\<exists>e s1. m s = (Inl e, s1) \<and> \<not> is_panic e \<and> g e s1 = (Inr y, s'))"
  by (auto simp: catch_def split: prod.splits sum.splits)

lemma BackToPrepare_dst: "BackToPrepare d m = (Inr dst, m') \<Longrightarrow> dst = sPrepare"
  by (auto simp: BackToPrepare_def run_simps)

lemma scheduleRound_dst:
  "scheduleRound ot m = (Inr dst, m') \<Longrightarrow> dst = sAcceptBlockProposal \<or> dst = sAcceptPreCommitEndorsement"
  by (auto simp: scheduleRound_def Let_def run_simps split: option.splits)

lemma prepare_dst:
  "prepare env ph m = (Inr dst, m') \<Longrightarrow> dst \<in> {sPrepare, sAcceptBlockProposal, sAcceptPreCommitEndorsement}"
  by (auto simp: prepare_def run_simps split: if_splits dest: BackToPrepare_dst scheduleRound_dst)

lemma onReceiveProposalEndorsement_dst:
  "onReceiveProposalEndorsement env st evt m = (Inr dst, m') \<Longrightarrow> dst = st \<or> dst = sAcceptLockEndorsement"
  by (auto simp: onReceiveProposalEndorsement_def run_simps split: option.splits)

lemma onReceiveLockEndorsement_dst:
  "onReceiveLockEndorsement env evt m = (Inr dst, m') \<Longrightarrow>
     dst = sAcceptLockEndorsement \<or> dst = sAcceptPreCommitEndorsement"
  by (auto simp: onReceiveLockEndorsement_def run_simps split: option.splits)

lemma onReceivePreCommitEndorsement_dst:
  "onReceivePreCommitEndorsement env evt m = (Inr dst, m') \<Longrightarrow> dst = sAcceptPreCommitEndorsement \<or> dst = sPrepare"
  by (auto simp: onReceivePreCommitEndorsement_def run_simps split: if_splits dest: BackToPrepare_dst)

lemma onReceiveBlock_dst:
  "onReceiveBlock env evt m = (Inr dst, m') \<Longrightarrow> dst = sAcceptBlockProposal \<or> dst = sAcceptProposalEndorsement"
  by (auto simp: onReceiveBlock_def run_simps)

lemma calibrate_dst: "calibrate evt m = (Inr dst, m') \<Longrightarrow> dst = sPrepare"
  by (auto simp: calibrate_def run_simps split: event_data.splits dest: BackToPrepare_dst)

lemmas handler_dst = prepare_dst onReceiveProposalEndorsement_dst onReceiveLockEndorsement_dst
  onReceivePreCommitEndorsement_dst onReceiveBlock_dst BackToPrepare_dst

lemmas silent_handlers = onFailedToReceiveBlock_def onStopReceivingProposalEndorsement_def
  onStopReceivingLockEndorsement_def onBroadcastPreCommitEndorsement_def onStopReceivingPreCommitEndorsement_def

lemma roundTransition_dst:
  assumes "roundTransition env ph st et = Some (h, dsts)" "h evt m = (Inr dst, m')"
  shows "dst \<in> set dsts"
  using assms
  by (cases "(env, ph, st, et)" rule: roundTransition.cases)
    (auto simp: silent_handlers run_simps dest: handler_dst)

lemma roundTransition_states:
  assumes "roundTransition env ph st et = Some (h, dsts)"
  shows "st \<in> set consensusStates \<and> set dsts \<subseteq> set consensusStates"
  using assms
  by (cases "(env, ph, st, et)" rule: roundTransition.cases) (auto simp: consensusStates_def)

lemma transition_states:
  assumes "transition env ph st et = Some (h, dsts)"
  shows "st \<in> set consensusStates \<and> set dsts \<subseteq> set consensusStates"
  using assms roundTransition_states [of env ph st et h dsts]
  by (auto simp: transition_def consensusStates_def split: if_splits)

lemma handleBackdoorEvt_dst: "handleBackdoorEvt evt m = (Inr dst, m') \<longleftrightarrow> evData evt = StateData dst \<and> m' = m"
  by (auto simp: handleBackdoorEvt_def run_simps split: event_data.splits)

text \<open>
  Property C23.  The table of the consensus state machine is sound.  It has entries only for the five
  states of the machine, and their declared destinations are among these.  Whatever the event carries
  and whatever the state of the context, the handler of an event of the protocol that succeeds returns
  one of the destinations declared for it, so the machine never refuses the outcome of such a handler.
  The handler of the backdoor event is the exception: it changes nothing and returns exactly the state
  that the event carries, whether the table knows it or not.
\<close>

theorem handler_destination_declared:
  assumes "transition env ph st et = Some (h, dsts)" "h evt m = (Inr dst, m')"
  shows "st \<in> set consensusStates \<and> set dsts \<subseteq> set consensusStates \<and>
     (if et = BackdoorEvent then dsts = consensusStates \<and> evData evt = StateData dst \<and> m' = m
      else dst \<in> set dsts)"
  using assms transition_states [OF assms(1)] roundTransition_dst [of env ph st et h dsts evt m dst m']
  by (auto simp: transition_def handleBackdoorEvt_dst split: if_splits dest: calibrate_dst)

section \<open>A round ends\<close>

text \<open>The timeout that leaves each state, and how many timeouts away the next round is.\<close>

fun timeoutOf :: "fsm_state \<Rightarrow> event_type" where
  "timeoutOf sAcceptBlockProposal = eFailedToReceiveBlock"
| "timeoutOf sAcceptProposalEndorsement = eStopReceivingProposalEndorsement"
| "timeoutOf sAcceptLockEndorsement = eStopReceivingLockEndorsement"
| "timeoutOf sAcceptPreCommitEndorsement = eStopReceivingPreCommitEndorsement"
| "timeoutOf _ = ePrepare"

fun stage :: "fsm_state \<Rightarrow> nat" where
  "stage sAcceptBlockProposal = 3"
| "stage sAcceptProposalEndorsement = 2"
| "stage sAcceptLockEndorsement = 1"
| "stage sAcceptPreCommitEndorsement = 1"
| "stage sPrepare = 0"
| "stage (OtherState _) = 4"

lemma delayProduce_run [run_simps]:
  "delayProduce d es m = (Inr u, m') \<longleftrightarrow> m' = m\<lparr>mProduced := mProduced m @ map (\<lambda>e. (max 0 d, e)) es\<rparr>"
  by (auto simp: delayProduce_def run_simps)

definition roundEvent :: "machine \<Rightarrow> event_type \<Rightarrow> ConsensusEvent" where
  "roundEvent m et = \<lparr>evHeight = rHeight (round (mCtx m)), evRound = roundNum (round (mCtx m)), evType = et,
     evTime = mNow m, evData = NoData\<rparr>"

lemma roundEvent_update [simp]: "roundEvent (m\<lparr>mProduced := p\<rparr>) et = roundEvent m et"
  by (simp add: roundEvent_def)

lemma produceConsensusEvent_eq:
  "produceConsensusEvent et d m = (Inr (), m\<lparr>mProduced := mProduced m @ [(max 0 d, roundEvent m et)]\<rparr>)"
  by (simp add: produceConsensusEvent_def produceData_def newConsensusEvent_def delayProduce_def modifyS_def roundEvent_def)

lemma BackToPrepare_eq:
  "\<exists>m'. BackToPrepare d m = (Inr sPrepare, m') \<and>
     (ctxActive (mCtx m) \<longrightarrow> (\<exists>e. (max 0 d, e) \<in> set (mProduced m') \<and> evType e = ePrepare))"
  by (cases "ctxActive (mCtx m)")
    (auto simp: BackToPrepare_def op_defs produceConsensusEvent_eq roundEvent_def)

lemma scheduleRound_timeouts:
  assumes "scheduleRound ot m = (Inr sAcceptBlockProposal, m')"
  obtains t1 t2 t3 t4 where "roundEvent m' = roundEvent m"
    "mProduced m' = mProduced m @ [(t1, roundEvent m eFailedToReceiveBlock), (t2, roundEvent m eStopReceivingProposalEndorsement),
       (t3, roundEvent m eStopReceivingLockEndorsement), (t4, roundEvent m eStopReceivingPreCommitEndorsement)]"
proof (cases "PreCommitEndorsement (mCtx m)")
  case None
  with assms that show ?thesis
    unfolding scheduleRound_def Let_def bindS_def readS_def thenS_def returnS_def
    by (auto simp: produceConsensusEvent_eq fun_eq_iff)
next
  case (Some ens)
  with assms show ?thesis
    by (simp add: scheduleRound_def Let_def run_simps)
qed

lemma prepare_scheduled:
  assumes "prepare env ph m = (Inr sAcceptBlockProposal, m')"
  obtains m2 ot where "scheduleRound ot m2 = (Inr sAcceptBlockProposal, m')"
proof -
  from assms have "\<exists>m2 ot. scheduleRound ot m2 = (Inr sAcceptBlockProposal, m')"
    unfolding prepare_def by (auto simp only: run_simps split: if_splits dest!: BackToPrepare_dst)
  with that show ?thesis by blast
qed

lemma prepare_timeouts:
  assumes "prepare env ph m = (Inr sAcceptBlockProposal, m')" "s \<in> set consensusStates" "s \<noteq> sPrepare"
  shows "\<exists>d. (d, roundEvent m' (timeoutOf s)) \<in> set (mProduced m')"
proof -
  obtain m2 ot where sch: "scheduleRound ot m2 = (Inr sAcceptBlockProposal, m')"
    using prepare_scheduled [OF assms(1)] .
  have "timeoutOf s \<in> {eFailedToReceiveBlock, eStopReceivingProposalEndorsement, eStopReceivingLockEndorsement,
      eStopReceivingPreCommitEndorsement}"
    using assms(2,3) by (auto simp: consensusStates_def)
  moreover have "\<exists>d. (d, roundEvent m' et) \<in> set (mProduced m')"
    if "et \<in> {eFailedToReceiveBlock, eStopReceivingProposalEndorsement, eStopReceivingLockEndorsement,
      eStopReceivingPreCommitEndorsement}" for et
    by (rule scheduleRound_timeouts [OF sch]) (use that in auto)
  ultimately show ?thesis by blast
qed

text \<open>Signing fails with an error of the key or of the vote, never with a panic.\<close>

lemma signAll_no_panic: "signAll env h t ks = Inl e \<Longrightarrow> \<not> is_panic e"
proof (induction ks arbitrary: e)
  case (Cons k ks)
  then show ?case by (cases "Sign env k h") (auto simp: bindR_def split: sum.splits)
qed simp

lemma processBlock_no_panic: "processBlock env None m = (Inl e, m') \<Longrightarrow> \<not> is_panic e"
  by (auto simp: processBlock_def NewProposalEndorsement_def newEndorsement_def Endorse_def hashDocWithTime_def
      vote_Hash_def vote_Proto_def op_defs bindR_def onCtx_def produceData_def delayProduce_def Broadcast_def
      split: sum.splits prod.splits if_splits dest: signAll_no_panic)

lemma onFailedToReceiveBlock_succeeds:
  "\<exists>m'. onFailedToReceiveBlock env e m = (Inr sAcceptProposalEndorsement, m')"
  using processBlock_no_panic [of env m]
  by (auto simp: onFailedToReceiveBlock_def catch_def returnS_def split: prod.splits sum.splits)

lemma timeout_advances:
  assumes "s \<in> set consensusStates" "s \<noteq> sPrepare"
  shows "\<exists>h ds s' m3. transition env ph s (timeoutOf s) = Some (h, ds) \<and> h e m2 = (Inr s', m3) \<and>
     stage s' < stage s \<and>
     (s' = sPrepare \<and> ctxActive (mCtx m2) \<longrightarrow> (\<exists>p. (0, p) \<in> set (mProduced m3) \<and> evType p = ePrepare))"
  using assms BackToPrepare_eq [of 0 m2] onFailedToReceiveBlock_succeeds [of env e m2]
  by (cases s) (auto simp: transition_def consensusStates_def onStopReceivingProposalEndorsement_def
      onStopReceivingLockEndorsement_def onStopReceivingPreCommitEndorsement_def returnS_def)

text \<open>
  Property C24.  A consensus round always ends.  When \<^verbatim>\<open>prepare\<close> starts a round, every state that the
  round can be in has its timeout scheduled, stamped with the height and the number of the round; and
  whatever has happened to the context meanwhile, the handler of that timeout succeeds and moves the
  machine strictly closer to the next round, which the last of them starts by producing \<^verbatim>\<open>ePrepare\<close> if
  the node is active.
\<close>

theorem round_times_out:
  assumes "prepare env ph m = (Inr sAcceptBlockProposal, m1)" "s \<in> set consensusStates" "s \<noteq> sPrepare"
  shows "\<exists>d e. (d, e) \<in> set (mProduced m1) \<and>
     evHeight e = rHeight (round (mCtx m1)) \<and> evRound e = roundNum (round (mCtx m1)) \<and>
     (\<forall>m2. \<exists>h ds s' m3. transition env ph s (evType e) = Some (h, ds) \<and> h e m2 = (Inr s', m3) \<and>
        stage s' < stage s \<and>
        (s' = sPrepare \<and> ctxActive (mCtx m2) \<longrightarrow> (\<exists>p. (0, p) \<in> set (mProduced m3) \<and> evType p = ePrepare)))"
proof -
  obtain d where "(d, roundEvent m1 (timeoutOf s)) \<in> set (mProduced m1)"
    using prepare_timeouts [OF assms] by blast
  moreover have "evType (roundEvent m1 (timeoutOf s)) = timeoutOf s"
    "evHeight (roundEvent m1 (timeoutOf s)) = rHeight (round (mCtx m1))"
    "evRound (roundEvent m1 (timeoutOf s)) = roundNum (round (mCtx m1))"
    by (simp_all add: roundEvent_def)
  ultimately show ?thesis
    using timeout_advances [OF assms(2,3), of env ph "roundEvent m1 (timeoutOf s)"] by metis
qed

text \<open>The node of the concrete committee that starts the round of block 5.\<close>

definition exMachine :: machine where
  "exMachine = \<lparr>mCtx = exCtx, mProduced = [], mSent = [], mNow = 25\<rparr>"

definition exStarted :: machine where
  "exStarted = snd (prepare exCrypto (\<lambda>_. Inr []) exMachine)"

lemma exStarted_run: "prepare exCrypto (\<lambda>_. Inr []) exMachine = (Inr sAcceptBlockProposal, exStarted)"
proof -
  have "(case fst (prepare exCrypto (\<lambda>_. Inr []) exMachine) of Inr dst \<Rightarrow> dst = sAcceptBlockProposal | Inl _ \<Rightarrow> False)"
    by code_simp
  then have "fst (prepare exCrypto (\<lambda>_. Inr []) exMachine) = Inr sAcceptBlockProposal"
    by (auto split: sum.splits)
  then show ?thesis by (metis exStarted_def prod.collapse)
qed

theorem handler_destination_declared_witness:
  "(\<exists>h dsts. transition exCrypto (\<lambda>_. Inr []) sPrepare ePrepare = Some (h, dsts) \<and>
      h (roundEvent exMachine ePrepare) exMachine = (Inr sAcceptBlockProposal, exStarted) \<and>
      sAcceptBlockProposal \<in> set dsts \<and> set dsts \<subseteq> set consensusStates)"
  using handler_destination_declared
      [of exCrypto "\<lambda>_. Inr []" sPrepare ePrepare _ _ "roundEvent exMachine ePrepare" exMachine]
    exStarted_run
  by (simp add: transition_def)

theorem round_times_out_witness:
  "\<exists>d e. (d, e) \<in> set (mProduced exStarted) \<and> evHeight e = 5 \<and>
     (\<exists>h ds s' m3. transition exCrypto (\<lambda>_. Inr []) sAcceptLockEndorsement (evType e) = Some (h, ds) \<and>
        h e exStarted = (Inr s', m3) \<and> s' = sPrepare \<and> (\<exists>p. (0, p) \<in> set (mProduced m3) \<and> evType p = ePrepare))"
proof -
  have facts: "rHeight (round (mCtx exStarted)) = 5" "ctxActive (mCtx exStarted)" by code_simp+
  obtain d e where de: "(d, e) \<in> set (mProduced exStarted)" "evHeight e = 5"
    and out: "\<exists>h ds s' m3. transition exCrypto (\<lambda>_. Inr []) sAcceptLockEndorsement (evType e) = Some (h, ds) \<and>
      h e exStarted = (Inr s', m3) \<and> stage s' < stage sAcceptLockEndorsement \<and>
      (s' = sPrepare \<and> ctxActive (mCtx exStarted) \<longrightarrow> (\<exists>p. (0, p) \<in> set (mProduced m3) \<and> evType p = ePrepare))"
    using round_times_out [OF exStarted_run, of sAcceptLockEndorsement] facts(1) by (auto simp: consensusStates_def)
  have "stage s' < stage sAcceptLockEndorsement \<Longrightarrow> s' = sPrepare" for s' by (cases s') auto
  with de out facts(2) show ?thesis by blast
qed

end
