(* ===== verification/ConsensusMessages.thy ===== *)
theory ConsensusMessages
  imports ConsensusFSM
begin

text \<open>
  Consensus messages between nodes: their protobuf form
  (\<^verbatim>\<open>consensus/scheme/rolldpos/endorsedconsensusmessage.go\<close>, \<^verbatim>\<open>blockproposal.go\<close>) and the entry
  points of the scheme (\<^verbatim>\<open>rolldpos.go\<close>): starting, activating, receiving a message.

  A block inside a message is the block itself, as in \<open>Endorsements\<close>; the channel \<^verbatim>\<open>ready\<close> that delays the
  first message until the scheme has started is left out.
\<close>

section \<open>Encoded messages\<close>

record blockProposal_pb =
  bpBlock :: block
  bpEndorsements :: "endorsement_pb list"

datatype document_pb = PbVote "bhash \<times> byte" | PbBlockProposal blockProposal_pb | PbUnset

record consensusMessage_pb =
  cmHeight :: u64
  cmEndorsement :: endorsement_pb
  cmMsg :: document_pb

definition proposal_Proto :: "blockProposal \<Rightarrow> blockProposal_pb" where
  "proposal_Proto bp = \<lparr>bpBlock = propBlock bp, bpEndorsements = map endorsement_Proto (propProofOfLock bp)\<rparr>"

text \<open>\<open>fromBlockProto\<close> is the deserializer of blocks.\<close>

fun loadProof :: "crypto_env \<Rightarrow> endorsement_pb list \<Rightarrow> Endorsement list res" where
  "loadProof env [] = Inr []"
| "loadProof env (pb # pbs) =
     bindR (endorsement_LoadProto env pb) (\<lambda>en. bindR (loadProof env pbs) (\<lambda>ens. Inr (en # ens)))"

definition proposal_LoadProto ::
  "crypto_env \<Rightarrow> (block \<Rightarrow> block res) \<Rightarrow> blockProposal_pb \<Rightarrow> blockProposal res" where
  "proposal_LoadProto env fromBlockProto pb =
     bindR (fromBlockProto (bpBlock pb)) (\<lambda>blk.
     bindR (loadProof env (bpEndorsements pb)) (\<lambda>ens.
     Inr \<lparr>propBlock = blk, propProofOfLock = ens\<rparr>))"

definition message_Proto :: "EndorsedConsensusMessage \<Rightarrow> consensusMessage_pb res" where
  "message_Proto ecm =
     bindR (case msgDocument ecm of
         DocVote v \<Rightarrow> bindR (vote_Proto v) (\<lambda>pb. Inr (PbVote pb))
       | DocProposal bp \<Rightarrow> Inr (PbBlockProposal (proposal_Proto bp))) (\<lambda>doc.
     Inr \<lparr>cmHeight = msgHeight ecm, cmEndorsement = endorsement_Proto (msgEndorsement ecm), cmMsg = doc\<rparr>)"

definition message_LoadProto ::
  "crypto_env \<Rightarrow> (block \<Rightarrow> block res) \<Rightarrow> consensusMessage_pb \<Rightarrow> EndorsedConsensusMessage res" where
  "message_LoadProto env fromBlockProto msg =
     bindR (case cmMsg msg of
         PbVote v \<Rightarrow> bindR (vote_LoadProto v) (\<lambda>vote. Inr (DocVote vote))
       | PbBlockProposal pb \<Rightarrow> bindR (proposal_LoadProto env fromBlockProto pb) (\<lambda>bp. Inr (DocProposal bp))
       | PbUnset \<Rightarrow> Inl (Errorf ''unknown message'')) (\<lambda>doc.
     bindR (endorsement_LoadProto env (cmEndorsement msg)) (\<lambda>en.
     Inr \<lparr>msgHeight = cmHeight msg, msgDocument = doc, msgEndorsement = en\<rparr>))"

section \<open>Entry points (rolldpos.go)\<close>

definition documentHash ::
  "crypto_env \<Rightarrow> (blockProposal \<Rightarrow> byte list res) \<Rightarrow> Document \<Rightarrow> byte list res" where
  "documentHash env proposalHash doc =
     (case doc of DocVote v \<Rightarrow> vote_Hash env v | DocProposal bp \<Rightarrow> proposalHash bp)"

definition VerifyEndorsedDocument ::
  "crypto_env \<Rightarrow> (blockProposal \<Rightarrow> byte list res) \<Rightarrow> EndorsedConsensusMessage \<Rightarrow> bool" where
  "VerifyEndorsedDocument env proposalHash msg =
     VerifyEndorsement env (documentHash env proposalHash (msgDocument msg)) (msgEndorsement msg)"

definition ErrNotSupported :: go_error where "ErrNotSupported = Errorf ''not supported''"

definition voteEvent :: "byte \<Rightarrow> event_type option" where
  "voteEvent topic =
     (if topic = PROPOSAL then Some eReceiveProposalEndorsement
      else if topic = LOCK then Some eReceiveLockEndorsement
      else if topic = COMMIT then Some eReceivePreCommitEndorsement
      else None)"

definition dispatchMessage :: "crypto_env \<Rightarrow> EndorsedConsensusMessage \<Rightarrow> (machine, unit) op" where
  "dispatchMessage env msg m =
     (case msgDocument msg of
        DocProposal bp \<Rightarrow>
          (case CheckBlockProposer env (msgHeight msg) bp (msgEndorsement msg) (mCtx m) of
             Inl e \<Rightarrow> (Inl e, m)
           | Inr _ \<Rightarrow> produceData eReceiveBlock (MsgData msg) 0 m)
      | DocVote vote \<Rightarrow>
          (case CheckVoteEndorser env (msgHeight msg) (msgEndorsement msg) (mCtx m) of
             Inl e \<Rightarrow> if e = ErrNotSupported then (Inr (), m) else (Inl e, m)
           | Inr _ \<Rightarrow> (case voteEvent (voteTopic vote) of
               None \<Rightarrow> (Inr (), m)
             | Some et \<Rightarrow> produceData et (MsgData msg) 0 m)))"

definition HandleConsensusMsg ::
  "crypto_env \<Rightarrow> (blockProposal \<Rightarrow> byte list res) \<Rightarrow> (block \<Rightarrow> block res) \<Rightarrow> consensusMessage_pb \<Rightarrow> (machine, unit) op" where
  "HandleConsensusMsg env proposalHash fromBlockProto msg m =
     (let consensusHeight = rHeight (round (mCtx m)) in
      if \<not> ctxActive (mCtx m) then (Inr (), m)
      else if consensusHeight = 0 then (Inr (), m)
      else if cmHeight msg < consensusHeight then (Inr (), m)
      else if consensusHeight + 1 < cmHeight msg then (Inr (), m)
      else (case message_LoadProto env fromBlockProto msg of
          Inl e \<Rightarrow> (Inl e, m)
        | Inr ecm \<Rightarrow>
            if \<not> VerifyEndorsedDocument env proposalHash ecm
            then (Inl (Errorf ''failed to verify signature in endorsement''), m)
            else dispatchMessage env ecm m))"

definition Activate :: "bool \<Rightarrow> (machine, unit) op" where
  "Activate active =
     thenS (modifyS (\<lambda>m. m\<lparr>mCtx := (mCtx m)\<lparr>ctxActive := active\<rparr>\<rparr>)) (
     bindS (BackToPrepare 0) (\<lambda>_. returnS ()))"

definition Active :: "fsm_state \<Rightarrow> machine \<Rightarrow> bool" where
  "Active st m \<longleftrightarrow> ctxActive (mCtx m) \<or> st \<noteq> sPrepare"

definition UpdateProducerKeys :: "crypto_env \<Rightarrow> privkey list \<Rightarrow> (machine, unit) op" where
  "UpdateProducerKeys env keys m =
     (let addrs = map (\<lambda>k. keyAddress env (PublicKey env k)) keys in
      if None \<in> set addrs then (Inl (Panic ''nil address''), m)
      else (Inr (), m\<lparr>mCtx := (mCtx m)\<lparr>encodedAddrs := map the addrs, priKeys := keys\<rparr>\<rparr>))"

text \<open>The context starts in a round at height 0, with the stored endorsements if there is a database.\<close>

definition startCtx :: "crypto_env \<Rightarrow> int \<Rightarrow> endorsementManager option \<Rightarrow> (rollDPoSCtx, unit) op" where
  "startCtx env now stored ctx =
     (case NewRoundWithToleration env (roundCalc ctx) 0 (BlockInterval (ctxCfg ctx) 0) now stored (toleratedOvertime ctx) of
        Inl e \<Rightarrow> (Inl e, ctx)
      | Inr r \<Rightarrow> (Inr (), ctx\<lparr>round := r\<rparr>))"

definition StartRollDPoS :: "crypto_env \<Rightarrow> int \<Rightarrow> endorsementManager option \<Rightarrow> (machine, unit) op" where
  "StartRollDPoS env startDelay stored =
     bindS (readS mNow) (\<lambda>now.
     thenS (onCtx (startCtx env now stored)) (
     bindS (BackToPrepare startDelay) (\<lambda>_. returnS ())))"

section \<open>Round trip of a message\<close>

text \<open>What a node relies on in the key library: the bytes of a public key decode to it.\<close>

definition keys_decode :: "crypto_env \<Rightarrow> bool" where
  "keys_decode env \<longleftrightarrow> (\<forall>k. BytesToPublicKey env k = Inr k)"

definition valid_time :: "int \<Rightarrow> bool" where
  "valid_time t \<longleftrightarrow> CheckValid (timestamppb t) = Inr ()"

lemma endorsement_roundtrip:
  "BytesToPublicKey env (enEndorser en) = Inr (enEndorser en) \<Longrightarrow> valid_time (enTs en) \<Longrightarrow>
     endorsement_LoadProto env (endorsement_Proto en) = Inr en"
  by (simp add: endorsement_LoadProto_def endorsement_Proto_def valid_time_def)

lemma vote_roundtrip: "vote_Proto v = Inr pb \<Longrightarrow> vote_LoadProto pb = Inr v"
  by (auto simp: vote_Proto_def vote_LoadProto_def split: if_splits)

lemma loadProof_roundtrip:
  "keys_decode env \<Longrightarrow> \<forall>en \<in> set ens. valid_time (enTs en) \<Longrightarrow>
     loadProof env (map endorsement_Proto ens) = Inr ens"
  by (induction ens) (auto simp: endorsement_roundtrip keys_decode_def)

fun proofTimes :: "Document \<Rightarrow> int list" where
  "proofTimes (DocVote _) = []"
| "proofTimes (DocProposal bp) = map enTs (propProofOfLock bp)"

lemma message_roundtrip:
  assumes "message_Proto msg = Inr pb" "keys_decode env" "valid_time (enTs (msgEndorsement msg))"
    "\<forall>t \<in> set (proofTimes (msgDocument msg)). valid_time t"
    "\<And>bp. msgDocument msg = DocProposal bp \<Longrightarrow> fromBlockProto (propBlock bp) = Inr (propBlock bp)"
  shows "message_LoadProto env fromBlockProto pb = Inr msg"
proof (cases "msgDocument msg")
  case (DocVote v)
  with assms(1-3) show ?thesis
    by (auto simp: message_Proto_def message_LoadProto_def bindR_Inr vote_roundtrip endorsement_roundtrip keys_decode_def)
next
  case (DocProposal bp)
  have "loadProof env (map endorsement_Proto (propProofOfLock bp)) = Inr (propProofOfLock bp)"
    using assms(2,4) DocProposal by (intro loadProof_roundtrip) auto
  with assms DocProposal show ?thesis
    by (auto simp: message_Proto_def message_LoadProto_def proposal_Proto_def proposal_LoadProto_def
      endorsement_roundtrip keys_decode_def)
qed


section \<open>What a received message can do\<close>

lemma newConsensusEvent_msg:
  "newConsensusEvent ctx now et (MsgData msg) = [] \<or>
   (\<exists>n. newConsensusEvent ctx now et (MsgData msg) =
      [\<lparr>evHeight = msgHeight msg, evRound = n, evType = et, evTime = now, evData = MsgData msg\<rparr>])"
  by (auto simp: newConsensusEvent_def split: sum.splits prod.splits)

lemma produceData_msg:
  assumes "produceData et (MsgData msg) 0 m = (r, m')"
  shows "r = Inr ()" "mCtx m' = mCtx m" "mSent m' = mSent m"
    "mProduced m' = mProduced m @ map (Pair 0) (newConsensusEvent (mCtx m) (mNow m) et (MsgData msg))"
  using assms by (auto simp: produceData_def delayProduce_def modifyS_def)

text \<open>
  A message is genuine for a node when its signature verifies and its signer has the role that the
  message claims at its height: a delegate for a vote, the proposer of the round for a block.
\<close>

definition genuine ::
  "crypto_env \<Rightarrow> (blockProposal \<Rightarrow> byte list res) \<Rightarrow> rollDPoSCtx \<Rightarrow> EndorsedConsensusMessage \<Rightarrow> bool" where
  "genuine env ph ctx msg \<longleftrightarrow>
     VerifyEndorsement env (documentHash env ph (msgDocument msg)) (msgEndorsement msg) \<and>
     (case msgDocument msg of
        DocVote v \<Rightarrow>
          \<exists>a fork ds. keyAddress env (enEndorser (msgEndorsement msg)) = Some a \<and>
            cmFork (ctxChain ctx) (prevHash (round ctx)) = Inr fork \<and>
            Delegates ((roundCalc ctx)\<lparr>rcChain := fork\<rparr>) (msgHeight msg) = Inr ds \<and> a \<in> set ds
      | DocProposal bp \<Rightarrow>
          \<exists>a fork. keyAddress env (enEndorser (msgEndorsement msg)) = Some a \<and>
            cmFork (ctxChain ctx) (PrevHash (propBlock bp)) = Inr fork \<and>
            blkHeight (propBlock bp) = msgHeight msg \<and> VerifySignature (propBlock bp) \<and>
            Proposer env ((roundCalc ctx)\<lparr>rcChain := fork\<rparr>) (msgHeight msg)
              (BlockInterval (ctxCfg ctx) (msgHeight msg)) (enTs (msgEndorsement msg)) = a)"

lemma CheckVoteEndorser_Inr:
  assumes "CheckVoteEndorser env h en ctx = Inr u"
  obtains a fork ds where "keyAddress env (enEndorser en) = Some a"
    "cmFork (ctxChain ctx) (prevHash (round ctx)) = Inr fork"
    "Delegates ((roundCalc ctx)\<lparr>rcChain := fork\<rparr>) h = Inr ds" "a \<in> set ds"
  using assms
proof -
  obtain a fork where *: "keyAddress env (enEndorser en) = Some a" "cmFork (ctxChain ctx) (prevHash (round ctx)) = Inr fork"
    "rc_IsDelegate ((roundCalc ctx)\<lparr>rcChain := fork\<rparr>) a h"
    using assms by (auto simp: CheckVoteEndorser_def res_simps split: option.splits)
  then show ?thesis
    using that by (cases "Delegates ((roundCalc ctx)\<lparr>rcChain := fork\<rparr>) h") (auto simp: rc_IsDelegate_def)
qed

lemma CheckBlockProposer_Inr:
  assumes "CheckBlockProposer env h bp en ctx = Inr u"
  obtains a fork where "keyAddress env (enEndorser en) = Some a"
    "cmFork (ctxChain ctx) (PrevHash (propBlock bp)) = Inr fork"
    "blkHeight (propBlock bp) = h" "VerifySignature (propBlock bp)"
    "Proposer env ((roundCalc ctx)\<lparr>rcChain := fork\<rparr>) h (BlockInterval (ctxCfg ctx) h) (enTs en) = a"
  using assms
  by (auto simp: CheckBlockProposer_def res_simps Let_def split: option.splits)

lemma genuine_vote:
  "CheckVoteEndorser env (msgHeight msg) (msgEndorsement msg) ctx = Inr u \<Longrightarrow> msgDocument msg = DocVote v \<Longrightarrow>
     VerifyEndorsedDocument env ph msg \<Longrightarrow> genuine env ph ctx msg"
  by (elim CheckVoteEndorser_Inr) (simp add: genuine_def VerifyEndorsedDocument_def)

lemma genuine_proposal:
  "CheckBlockProposer env (msgHeight msg) bp (msgEndorsement msg) ctx = Inr u \<Longrightarrow> msgDocument msg = DocProposal bp \<Longrightarrow>
     VerifyEndorsedDocument env ph msg \<Longrightarrow> genuine env ph ctx msg"
  by (elim CheckBlockProposer_Inr) (simp add: genuine_def VerifyEndorsedDocument_def)

lemma dispatchMessage_produces:
  assumes "dispatchMessage env msg m = (r, m')" "m' \<noteq> m" "VerifyEndorsedDocument env ph msg"
  shows "genuine env ph (mCtx m) msg \<and> (\<exists>et. produceData et (MsgData msg) 0 m = (r, m'))"
  using assms genuine_vote [of env msg "mCtx m"] genuine_proposal [of env msg _ "mCtx m"]
  by (cases "msgDocument msg") (auto simp: dispatchMessage_def split: sum.splits if_splits option.splits)

text \<open>
  Property C25.  Receiving a message never changes the consensus context and never broadcasts.  It
  appends at most one event to the queue, and only when the node is active, the height of the message is
  that of the node or the next one, the signature verifies and the signer has the claimed role; the event
  carries exactly the decoded message.
\<close>

theorem received_message_verified:
  assumes "HandleConsensusMsg env ph fromBlock pb m = (r, m')"
  shows "m' = m \<or>
    (ctxActive (mCtx m) \<and> rHeight (round (mCtx m)) \<le> cmHeight pb \<and> cmHeight pb \<le> rHeight (round (mCtx m)) + 1 \<and>
     mCtx m' = mCtx m \<and> mSent m' = mSent m \<and>
     (\<exists>msg. message_LoadProto env fromBlock pb = Inr msg \<and> genuine env ph (mCtx m) msg \<and>
        (mProduced m' = mProduced m \<or>
         (\<exists>e. mProduced m' = mProduced m @ [(0, e)] \<and> evData e = MsgData msg \<and> evHeight e = cmHeight pb))))"
proof (cases "m' = m")
  case False
  then obtain msg where msg: "message_LoadProto env fromBlock pb = Inr msg" "VerifyEndorsedDocument env ph msg"
      "dispatchMessage env msg m = (r, m')"
    and h: "ctxActive (mCtx m)" "rHeight (round (mCtx m)) \<le> cmHeight pb" "cmHeight pb \<le> rHeight (round (mCtx m)) + 1"
    using assms by (auto simp: HandleConsensusMsg_def Let_def not_less split: if_splits sum.splits)
  have height: "msgHeight msg = cmHeight pb"
    using msg(1) by (auto simp: message_LoadProto_def res_simps)
  obtain et where gen: "genuine env ph (mCtx m) msg" and et: "produceData et (MsgData msg) 0 m = (r, m')"
    using dispatchMessage_produces [OF msg(3) False msg(2)] by blast
  note pr = produceData_msg [OF et]
  have "mProduced m' = mProduced m \<or>
      (\<exists>e. mProduced m' = mProduced m @ [(0, e)] \<and> evData e = MsgData msg \<and> evHeight e = cmHeight pb)"
    using newConsensusEvent_msg [of "mCtx m" "mNow m" et msg] height by (auto simp: pr(4))
  with h msg(1) gen pr show ?thesis by blast
qed simp

section \<open>An honest vote arrives\<close>

text \<open>What the votes rely on in the key library: what a key signs verifies under its public key.\<close>

definition signatures_verify :: "crypto_env \<Rightarrow> bool" where
  "signatures_verify env \<longleftrightarrow> (\<forall>k h sig. Sign env k h = Inr sig \<longrightarrow> VerifySig env (PublicKey env k) h sig)"

lemma signAll_elem:
  "signAll env h t ks = Inr ens \<Longrightarrow> en \<in> set ens \<Longrightarrow>
     \<exists>k \<in> set ks. \<exists>sig. Sign env k h = Inr sig \<and> en = \<lparr>enTs = t, enEndorser = PublicKey env k, enSignature = sig\<rparr>"
proof (induction ks arbitrary: ens)
  case (Cons k ks)
  then show ?case by (cases "Sign env k h") (auto simp: res_simps)
qed simp

lemma newEndorsement_elem:
  assumes "newEndorsement env h topic t ctx = Inr msgs" "msg \<in> set msgs" "signatures_verify env"
  obtains k where "k \<in> set (priKeys ctx)" "msgHeight msg = rHeight (round ctx)"
    "msgDocument msg = DocVote \<lparr>voteBlkHash = h, voteTopic = topic\<rparr>"
    "enEndorser (msgEndorsement msg) = PublicKey env k" "enTs (msgEndorsement msg) = t"
    "VerifyEndorsement env (vote_Hash env \<lparr>voteBlkHash = h, voteTopic = topic\<rparr>) (msgEndorsement msg)"
proof -
  from assms(1) obtain ks ens hd where ens: "hashDocWithTime env (vote_Hash env \<lparr>voteBlkHash = h, voteTopic = topic\<rparr>) t = Inr hd"
    "signAll env hd t ks = Inr ens" "set ks \<subseteq> set (priKeys ctx)"
    "msgs = map (\<lambda>en. \<lparr>msgHeight = rHeight (round ctx), msgDocument = DocVote \<lparr>voteBlkHash = h, voteTopic = topic\<rparr>,
       msgEndorsement = en\<rparr>) ens"
    by (fastforce simp: newEndorsement_def Endorse_def res_simps Let_def dest: set_zip_rightD)
  with assms(2) obtain en where en: "en \<in> set ens" "msg = \<lparr>msgHeight = rHeight (round ctx),
      msgDocument = DocVote \<lparr>voteBlkHash = h, voteTopic = topic\<rparr>, msgEndorsement = en\<rparr>"
    by auto
  obtain k sig where "k \<in> set ks" "Sign env k hd = Inr sig"
    "en = \<lparr>enTs = t, enEndorser = PublicKey env k, enSignature = sig\<rparr>"
    using signAll_elem [OF ens(2) en(1)] by blast
  with ens en that assms(3) show ?thesis
    by (auto simp: VerifyEndorsement_def signatures_verify_def)
qed

text \<open>
  Property C26.  An honest vote reaches the other delegates.  A vote that a node signs in
  \<^verbatim>\<open>newEndorsement\<close>, encoded, sent and decoded, is accepted by every active node that is at the same
  height and counts the signer among the delegates of that height: the node queues the event for the topic
  of the vote, in the round the time of the endorsement belongs to.
\<close>

theorem honest_vote_received:
  assumes "newEndorsement env h topic t sender = Inr msgs" "msg \<in> set msgs"
    and crypto: "signatures_verify env" "keys_decode env" "valid_time t"
    and node: "ctxActive (mCtx m)" "rHeight (round (mCtx m)) = rHeight (round sender)" "rHeight (round sender) \<noteq> 0"
      "unat (rHeight (round sender)) + 1 < 2 ^ 64"
    and delegate: "CheckVoteEndorser env (rHeight (round sender)) (msgEndorsement msg) (mCtx m) = Inr ()"
    and time: "RoundInfo (roundCalc (mCtx m)) (rHeight (round sender))
      (BlockInterval (ctxCfg (mCtx m)) (rHeight (round sender))) t = Inr (n, start)"
  shows "\<exists>pb et. message_Proto msg = Inr pb \<and> voteEvent topic = Some et \<and>
    HandleConsensusMsg env ph fromBlock pb m = (Inr (), m\<lparr>mProduced := mProduced m @
      [(0, \<lparr>evHeight = rHeight (round sender), evRound = n, evType = et, evTime = mNow m, evData = MsgData msg\<rparr>)]\<rparr>)"
proof -
  obtain k where k: "msgHeight msg = rHeight (round sender)" "msgDocument msg = DocVote \<lparr>voteBlkHash = h, voteTopic = topic\<rparr>"
    "enTs (msgEndorsement msg) = t"
    "VerifyEndorsement env (vote_Hash env \<lparr>voteBlkHash = h, voteTopic = topic\<rparr>) (msgEndorsement msg)"
    using newEndorsement_elem [OF assms(1,2) crypto(1)] by blast
  then have topic: "topic = PROPOSAL \<or> topic = LOCK \<or> topic = COMMIT"
    by (auto simp: VerifyEndorsement_def hashDocWithTime_def vote_Hash_def vote_Proto_def split: if_splits)
  then obtain pb where pb: "message_Proto msg = Inr pb" "cmHeight pb = rHeight (round sender)"
    using k(1,2) by (auto simp: message_Proto_def vote_Proto_def)
  have load: "message_LoadProto env fromBlock pb = Inr msg"
    by (rule message_roundtrip [OF pb(1) crypto(2)]) (use k crypto(3) in auto)
  obtain et where et: "voteEvent topic = Some et"
    using topic by (auto simp: voteEvent_def)
  have "VerifyEndorsedDocument env ph msg"
    using k by (simp add: VerifyEndorsedDocument_def documentHash_def)
  moreover have "\<not> rHeight (round sender) + 1 < rHeight (round sender)"
    using node(4) by (simp add: word_less_nat_alt unat_word_ariths)
  ultimately show ?thesis
    using pb et load node delegate time k
    by (simp add: HandleConsensusMsg_def dispatchMessage_def produceData_def newConsensusEvent_def delayProduce_def modifyS_def)
qed

section \<open>Two nodes of the concrete committee\<close>

definition exTold :: machine where
  "exTold = exMachine\<lparr>mCtx := exCtx\<lparr>encodedAddrs := [renderKey (CHR ''a'') [2]], priKeys := [[2]]\<rparr>\<rparr>"

definition exBallot :: EndorsedConsensusMessage where
  "exBallot = (case newEndorsement exCrypto [7] COMMIT 30 exCtx of Inr (m # _) \<Rightarrow> m | _ \<Rightarrow> exVote LOCK [])"

definition exBallot_pb :: consensusMessage_pb where
  "exBallot_pb = (case message_Proto exBallot of Inr pb \<Rightarrow> pb | _ \<Rightarrow> undefined)"

lemma exBallot_made: "newEndorsement exCrypto [7] COMMIT 30 exCtx = Inr [exBallot]"
proof -
  have "(case newEndorsement exCrypto [7] COMMIT 30 exCtx of Inr [m] \<Rightarrow> True | _ \<Rightarrow> False)" by code_simp
  then show ?thesis by (auto simp: exBallot_def split: sum.splits list.splits)
qed

lemma exCrypto_laws: "signatures_verify exCrypto" "keys_decode exCrypto" "valid_time 30"
  by (auto simp: signatures_verify_def keys_decode_def valid_time_def exCrypto_def) code_simp

lemma exTold_facts:
  "ctxActive (mCtx exTold)" "rHeight (round (mCtx exTold)) = 5" "rHeight (round exCtx) = 5"
  "mProduced exTold = []" "mNow exTold = 25"
  "CheckVoteEndorser exCrypto 5 (msgEndorsement exBallot) (mCtx exTold) = Inr ()"
  "RoundInfo (roundCalc (mCtx exTold)) 5 (BlockInterval (ctxCfg (mCtx exTold)) 5) 30 = Inr (2, 30)"
  "voteEvent COMMIT = Some eReceivePreCommitEndorsement"
  by code_simp+

theorem honest_vote_received_witness:
  "\<exists>pb. message_Proto exBallot = Inr pb \<and>
    HandleConsensusMsg exCrypto (\<lambda>_. Inr []) Inr pb exTold = (Inr (), exTold\<lparr>mProduced :=
      [(0, \<lparr>evHeight = 5, evRound = 2, evType = eReceivePreCommitEndorsement, evTime = 25, evData = MsgData exBallot\<rparr>)]\<rparr>)"
  using honest_vote_received [OF exBallot_made _ exCrypto_laws, of exBallot exTold 2 30 "\<lambda>_. Inr []" Inr]
  by (simp add: exTold_facts)

theorem received_message_verified_witness:
  "\<exists>msg. message_LoadProto exCrypto Inr exBallot_pb = Inr msg \<and> genuine exCrypto (\<lambda>_. Inr []) (mCtx exTold) msg"
proof -
  obtain r m' where run: "HandleConsensusMsg exCrypto (\<lambda>_. Inr []) Inr exBallot_pb exTold = (r, m')"
    by fastforce
  have "length (mProduced (snd (HandleConsensusMsg exCrypto (\<lambda>_. Inr []) Inr exBallot_pb exTold))) = 1"
    by code_simp
  then have "m' \<noteq> exTold" using run exTold_facts(4) by auto
  then show ?thesis using received_message_verified [OF run] by blast
qed

end
