(* ===== verification/ProposalPool.thy ===== *)
theory ProposalPool
  imports Rounds
begin

text \<open>
  The pool of draft blocks (\<^verbatim>\<open>consensus/scheme/rolldpos/proposalpool.go\<close>) and the chain manager that
  forks the chain at them (\<^verbatim>\<open>chainmanager.go\<close>).

  The map of leaves is an association list, in the arbitrary order of the iteration.  The loops that
  follow the previous hash of a block are \<open>partial_function\<close>s; that they return rests on the hashes of
  blocks being acyclic, which is what collision resistance provides: a block is \<open>linked\<close> when its hash
  determines its previous hash and lies deeper than it.  The chain and the state factory are arguments.
\<close>

section \<open>The pool (proposalpool.go)\<close>

record proposalPool =
  nodes :: "bhash \<rightharpoonup> block"
  leaves :: "(bhash \<times> int) list"
  root :: bhash

definition newProposalPool :: proposalPool where
  "newProposalPool = \<lparr>nodes = Map.empty, leaves = [], root = []\<rparr>"

definition pool_Init :: "bhash \<Rightarrow> proposalPool \<Rightarrow> proposalPool" where
  "pool_Init r d = d\<lparr>root := r\<rparr>"

definition pool_AddBlock :: "block \<Rightarrow> (proposalPool, unit) op" where
  "pool_AddBlock blk d =
     (let h = HashBlock blk; prev = PrevHash blk in
      if nodes d h \<noteq> None then (Inr (), d)
      else if map_of (leaves d) prev \<noteq> None then
        (Inr (), d\<lparr>leaves := AList.update h (blkTimestamp blk) (AList.delete prev (leaves d)), nodes := (nodes d)(h \<mapsto> blk)\<rparr>)
      else if prev \<noteq> root d \<and> nodes d prev = None then
        (Inl (Errorf ''block is not a tip of any fork''), d)
      else
        (Inr (), d\<lparr>leaves := AList.update h (blkTimestamp blk) (leaves d), nodes := (nodes d)(h \<mapsto> blk)\<rparr>))"

partial_function (option) contain :: "(bhash \<rightharpoonup> block) \<Rightarrow> bhash \<Rightarrow> bhash \<Rightarrow> bool option" where
  "contain ns node b =
     (if b = node then Some True
      else (case ns b of None \<Rightarrow> Some False | Some blk \<Rightarrow> contain ns node (PrevHash blk)))"

partial_function (option) removeFrom :: "(bhash \<rightharpoonup> block) \<Rightarrow> block option \<Rightarrow> (bhash \<rightharpoonup> block) option" where
  "removeFrom ns start =
     (case start of
        None \<Rightarrow> Some ns
      | Some b \<Rightarrow> (let ns' = ns(HashBlock b := None) in removeFrom ns' (ns' (PrevHash b))))"

fun receiveLeaves :: "block \<Rightarrow> bhash list \<Rightarrow> (bhash \<rightharpoonup> block) \<Rightarrow> ((bhash \<rightharpoonup> block) \<times> bhash list) option" where
  "receiveLeaves blk [] ns = Some (ns, [])"
| "receiveLeaves blk (leaf # ls) ns =
     (case contain ns (HashBlock blk) leaf of
        None \<Rightarrow> None
      | Some has \<Rightarrow>
          (case removeFrom ns (if has then Some blk else ns leaf) of
             None \<Rightarrow> None
           | Some ns' \<Rightarrow>
               (case receiveLeaves blk ls ns' of
                  None \<Rightarrow> None
                | Some (ns'', del) \<Rightarrow>
                    Some (ns'', if \<not> has \<or> HashBlock blk = leaf then leaf # del else del))))"

definition pool_ReceiveBlock :: "block \<Rightarrow> proposalPool \<Rightarrow> proposalPool option" where
  "pool_ReceiveBlock blk d =
     (case receiveLeaves blk (map fst (leaves d)) (nodes d) of
        None \<Rightarrow> None
      | Some (ns, leavesToDelete) \<Rightarrow>
          Some \<lparr>nodes = ns, leaves = fold AList.delete leavesToDelete (leaves d), root = HashBlock blk\<rparr>)"

definition BlockByHash :: "bhash \<Rightarrow> proposalPool \<Rightarrow> block option" where
  "BlockByHash h d = nodes d h"

section \<open>The chain manager (chainmanager.go)\<close>

text \<open>
  What the manager reads of the blockchain; a header is the block record without its footer.  \<open>bcStateReader\<close>
  tells whether the state at a block can be read.
\<close>

record blockchain =
  bcTipHeight :: u64
  bcTipHash :: bhash
  bcGenesisHash :: bhash
  bcGenesisTime :: int
  bcHeaderByHeight :: "u64 \<Rightarrow> block res"
  bcHeader :: "bhash \<Rightarrow> block res"
  bcCommitTime :: "u64 \<Rightarrow> int res"
  bcStateReader :: "u64 \<Rightarrow> bhash \<Rightarrow> unit res"

definition cm_BlockProposeTime :: "blockchain \<Rightarrow> u64 \<Rightarrow> int res" where
  "cm_BlockProposeTime bc height =
     (if height = 0 then Inr (bcGenesisTime bc)
      else bindR (bcHeaderByHeight bc height) (\<lambda>head. Inr (blkTimestamp head)))"

definition cm_BlockCommitTime :: "blockchain \<Rightarrow> u64 \<Rightarrow> int res" where
  "cm_BlockCommitTime bc height = bcCommitTime bc height"

text \<open>The draft block at a height below a tip; the condition of the loop is tested before its body.\<close>

partial_function (option) draftFrom :: "proposalPool \<Rightarrow> u64 \<Rightarrow> block option \<Rightarrow> block option option" where
  "draftFrom d height cur =
     (case cur of
        None \<Rightarrow> Some None
      | Some blk \<Rightarrow>
          if blkHeight blk < height then Some None
          else if blkHeight blk = height then Some (Some blk)
          else draftFrom d height (BlockByHash (PrevHash blk) d))"

definition draftBlockByHeight :: "u64 \<Rightarrow> bhash \<Rightarrow> proposalPool \<Rightarrow> block option option" where
  "draftBlockByHeight height tip d = draftFrom d height (BlockByHash tip d)"

definition cm_header :: "blockchain \<Rightarrow> proposalPool \<Rightarrow> u64 \<Rightarrow> bhash \<Rightarrow> block res option" where
  "cm_header bc d height tip =
     (case bcHeaderByHeight bc height of
        Inr head \<Rightarrow> Some (Inr head)
      | Inl e \<Rightarrow>
          if e = ErrNotExist then
            (case draftBlockByHeight height tip d of
               None \<Rightarrow> None
             | Some (Some blk) \<Rightarrow> Some (Inr blk)
             | Some None \<Rightarrow> Some (Inl e))
          else Some (Inl e))"

definition fc_tipHash :: "blockchain \<Rightarrow> block \<Rightarrow> bhash" where
  "fc_tipHash bc head = (if blkHeight head = 0 then bcGenesisHash bc else HashBlock head)"

definition fc_BlockProposeTime :: "blockchain \<Rightarrow> proposalPool \<Rightarrow> block \<Rightarrow> u64 \<Rightarrow> int res option" where
  "fc_BlockProposeTime bc d head height =
     (case cm_BlockProposeTime bc height of
        Inr t \<Rightarrow> Some (Inr t)
      | Inl e \<Rightarrow>
          if e = ErrNotExist then map_option (\<lambda>r. bindR r (\<lambda>h. Inr (blkTimestamp h))) (cm_header bc d height (fc_tipHash bc head))
          else Some (Inl e))"

definition cm_getBlockTime :: "blockchain \<Rightarrow> proposalPool \<Rightarrow> u64 \<Rightarrow> bhash \<Rightarrow> int res option" where
  "cm_getBlockTime bc d height tip =
     (if height = 0 then Some (Inr (bcGenesisTime bc))
      else map_option (\<lambda>r. bindR r (\<lambda>h. Inr (blkTimestamp h))) (cm_header bc d height tip))"

definition cm_TipHash :: "blockchain \<Rightarrow> bhash" where
  "cm_TipHash bc = (if bcTipHeight bc = 0 then bcGenesisHash bc else bcTipHash bc)"

text \<open>The head block of the fork at a hash.\<close>

definition cm_Fork :: "blockchain \<Rightarrow> proposalPool \<Rightarrow> bhash \<Rightarrow> block res" where
  "cm_Fork bc d h =
     bindR (case BlockByHash h d of Some blk \<Rightarrow> Inr blk | None \<Rightarrow> bcHeader bc h) (\<lambda>head.
     bindR (bcStateReader bc (blkHeight head) h) (\<lambda>_. Inr head))"

definition cm_Start :: "blockchain \<Rightarrow> proposalPool \<Rightarrow> proposalPool" where
  "cm_Start bc d = pool_Init (bcTipHash bc) d"

text \<open>A minted or validated block is drafted; a failure to draft it is only logged.\<close>

definition draft :: "block \<Rightarrow> (proposalPool, unit) op" where
  "draft blk d = (Inr (), snd (pool_AddBlock blk d))"

text \<open>
  The hash in the tip info; it is nil when the header of the tip cannot be read, and then minting
  dereferences it.  The other fields of the tip info are only handed on to the block builder, whose result
  is \<open>minted\<close>.
\<close>

definition cm_tipInfo :: "blockchain \<Rightarrow> bhash option" where
  "cm_tipInfo bc =
     (if bcTipHeight bc = 0 then Some (bcGenesisHash bc)
      else (case bcHeaderByHeight bc (bcTipHeight bc) of Inl _ \<Rightarrow> None | Inr head \<Rightarrow> Some (HashBlock head)))"

definition cm_mintNewBlock :: "block res \<Rightarrow> bhash \<Rightarrow> bhash option \<Rightarrow> (proposalPool, block) op" where
  "cm_mintNewBlock minted prev tip =
     (case tip of
        None \<Rightarrow> failS (Panic ''nil tip info'')
      | Some tipHash \<Rightarrow>
          thenS (checkS (prev = tipHash) (Errorf ''invalid prev hash'')) (
          bindS (liftS minted) (\<lambda>blk.
          thenS (draft blk) (
          returnS blk))))"

definition cm_ValidateBlock :: "(block \<Rightarrow> unit res) \<Rightarrow> block \<Rightarrow> (proposalPool, unit) op" where
  "cm_ValidateBlock validate blk = thenS (liftS (validate blk)) (draft blk)"

section \<open>Chains of draft blocks\<close>

text \<open>What collision resistance gives: \<open>parent\<close> and \<open>depth\<close> are functions of the hash of a block.\<close>

definition linked :: "(bhash \<Rightarrow> bhash) \<Rightarrow> (bhash \<Rightarrow> nat) \<Rightarrow> block \<Rightarrow> bool" where
  "linked parent depth b \<longleftrightarrow> PrevHash b = parent (HashBlock b) \<and> depth (PrevHash b) < depth (HashBlock b)"

definition stores :: "(bhash \<Rightarrow> bhash) \<Rightarrow> (bhash \<Rightarrow> nat) \<Rightarrow> (bhash \<rightharpoonup> block) \<Rightarrow> bool" where
  "stores parent depth ns \<longleftrightarrow> (\<forall>h b. ns h = Some b \<longrightarrow> HashBlock b = h \<and> linked parent depth b)"

definition edge :: "(bhash \<rightharpoonup> block) \<Rightarrow> bhash \<Rightarrow> bhash \<Rightarrow> bool" where
  "edge ns h a \<longleftrightarrow> (\<exists>b. ns h = Some b \<and> PrevHash b = a)"

abbreviation path :: "(bhash \<rightharpoonup> block) \<Rightarrow> bhash \<Rightarrow> bhash \<Rightarrow> bool" where
  "path ns \<equiv> (edge ns)\<^sup>*\<^sup>*"

abbreviation below :: "(bhash \<rightharpoonup> block) \<Rightarrow> bhash \<Rightarrow> bhash \<Rightarrow> bool" where
  "below ns \<equiv> (edge ns)\<^sup>+\<^sup>+"

lemma edge_depth: "stores parent depth ns \<Longrightarrow> edge ns h a \<Longrightarrow> a = parent h \<and> depth a < depth h"
  by (auto simp: stores_def edge_def linked_def)

lemma path_depth: "path ns h a \<Longrightarrow> stores parent depth ns \<Longrightarrow> h = a \<or> depth a < depth h"
  by (induction rule: rtranclp_induct) (auto dest: edge_depth)

lemma below_depth: "below ns h a \<Longrightarrow> stores parent depth ns \<Longrightarrow> depth a < depth h"
  by (induction rule: tranclp_induct) (auto dest: edge_depth)

lemma edge_fun: "edge ns h a \<Longrightarrow> edge ns h b \<Longrightarrow> a = b"
  by (auto simp: edge_def)

text \<open>Chains are linear: of two blocks below the same one, one is on the way to the other.\<close>

lemma path_linear: "path ns l x \<Longrightarrow> path ns l y \<Longrightarrow> path ns x y \<or> below ns y x"
proof (induction rule: rtranclp_induct)
  case (step x z)
  from step.IH [OF step.prems] show ?case
  proof
    assume "path ns x y"
    then show ?thesis
    proof (cases rule: converse_rtranclpE)
      case base with step.hyps(2) show ?thesis by blast
    next
      case (step w) with step.hyps(2) \<open>edge ns x z\<close> show ?thesis by (metis edge_fun)
    qed
  qed (use step.hyps(2) in \<open>auto intro: tranclp.trancl_into_trancl\<close>)
qed auto

lemma path_cases: "path ns x y \<longleftrightarrow> x = y \<or> (\<exists>z. edge ns x z \<and> path ns z y)"
  by (metis converse_rtranclpE converse_rtranclp_into_rtranclp rtranclp.rtrancl_refl)

lemma below_path: "below ns x y \<longleftrightarrow> (\<exists>z. edge ns x z \<and> path ns z y)"
  by (metis tranclpD rtranclp_into_tranclp2)

section \<open>The loops return\<close>

lemma contain_returns:
  assumes st: "stores parent depth ns" and kept: "\<And>x. below ns x h \<Longrightarrow> x \<notin> R"
  shows "contain (ns |` (- R)) h x = Some (path ns x h)"
proof (induction "depth x" arbitrary: x rule: less_induct)
  case less
  show ?case
  proof (cases "x = h \<or> x \<in> R \<or> ns x = None")
    case True
    then have "x \<noteq> h \<Longrightarrow> \<not> path ns x h"
      using kept [of x] by (auto simp: path_cases [of ns x h] below_path edge_def)
    with True show ?thesis by (subst contain.simps) (auto simp: restrict_map_def)
  next
    case False
    then obtain b where b: "ns x = Some b" by auto
    then have "depth (PrevHash b) < depth x" using st unfolding stores_def linked_def by metis
    note IH = less [OF this]
    have "path ns x h \<longleftrightarrow> path ns (PrevHash b) h"
      using False b by (simp add: path_cases [of ns x h] edge_def)
    then show ?thesis using IH False b by (subst contain.simps) auto
  qed
qed

definition closed :: "(bhash \<rightharpoonup> block) \<Rightarrow> bhash set \<Rightarrow> bool" where
  "closed ns R \<longleftrightarrow> (\<forall>x y. x \<in> R \<longrightarrow> edge ns x y \<longrightarrow> y \<in> R)"

lemma closed_path: "closed ns R \<Longrightarrow> path ns x y \<Longrightarrow> x \<in> R \<Longrightarrow> y \<in> R"
  by (rotate_tac 1, induction rule: rtranclp_induct) (auto simp: closed_def)

lemma closed_Un: "closed ns R \<Longrightarrow> closed ns {y. path ns x y} \<and> closed ns (R \<union> {y. path ns x y})"
  by (auto simp: closed_def intro: rtranclp.rtrancl_into_rtrancl)

lemma removeFrom_step:
  "removeFrom ns (Some b) = removeFrom (ns(HashBlock b := None)) ((ns(HashBlock b := None)) (PrevHash b))"
  by (subst removeFrom.simps) (simp add: Let_def)

lemma removeFrom_returns:
  assumes st: "stores parent depth ns" and cl: "closed ns R"
  shows "(\<And>p. p \<in> P \<Longrightarrow> \<not> path ns x p) \<Longrightarrow>
     removeFrom (ns |` (- (R \<union> P))) ((ns |` (- (R \<union> P))) x) = Some (ns |` (- (R \<union> P \<union> {y. path ns x y})))"
proof (induction "depth x" arbitrary: x P rule: less_induct)
  case less
  show ?case
  proof (cases "x \<in> R \<or> ns x = None")
    case True
    have "x \<notin> P" using less.prems by blast
    have gone: "ns y = None \<or> y \<in> R" if "path ns x y" for y
      using that True closed_path [OF cl that] by (auto simp: path_cases [of ns x y] edge_def)
    then have "ns |` (- (R \<union> P \<union> {y. path ns x y})) = ns |` (- (R \<union> P))"
      unfolding restrict_map_def fun_eq_iff by (metis (no_types, lifting) Compl_iff UnCI UnE mem_Collect_eq)
    with True show ?thesis by (subst removeFrom.simps) (auto simp: restrict_map_def)
  next
    case False
    then obtain b where b: "ns x = Some b" by auto
    have xb: "HashBlock b = x" "depth (PrevHash b) < depth x"
      using st b unfolding stores_def linked_def by metis+
    have anc: "{y. path ns x y} = insert x {y. path ns (PrevHash b) y}"
      using b by (auto simp: path_cases [of ns x] edge_def)
    have "\<not> path ns (PrevHash b) p" if "p \<in> insert x P" for p
      using that less.prems anc xb(2) path_depth [OF _ st, of "PrevHash b" x] by auto
    note IH = less.hyps [OF xb(2) this]
    have upd: "(ns |` (- (R \<union> P)))(x := None) = ns |` (- (R \<union> insert x P))"
      by (auto simp: restrict_map_def fun_eq_iff)
    have "(ns |` (- (R \<union> P))) x = Some b"
      using b False less.prems by (auto simp: restrict_map_def)
    then have "removeFrom (ns |` (- (R \<union> P))) ((ns |` (- (R \<union> P))) x) =
        Some (ns |` (- (R \<union> insert x P \<union> {y. path ns (PrevHash b) y})))"
      using IH [of "insert x P"] by (simp only: removeFrom_step xb(1) upd)
    then show ?thesis by (simp add: anc)
  qed
qed

section \<open>Receiving a block\<close>

text \<open>What the leaves of a chain give up when a block is received: itself and what is below it, or all of it.\<close>

definition dropped :: "(bhash \<rightharpoonup> block) \<Rightarrow> block \<Rightarrow> bhash \<Rightarrow> bhash set" where
  "dropped ns blk l =
     (if path ns l (HashBlock blk) then insert (HashBlock blk) {y. path ns (PrevHash blk) y} else {y. path ns l y})"

lemma dropped_closed:
  assumes "stores parent depth ns" "linked parent depth blk"
  shows "closed ns (dropped ns blk l)"
  using assms closed_Un [of ns "{}"]
  by (auto simp: closed_def dropped_def dest!: edge_depth intro: rtranclp.rtrancl_into_rtrancl) (auto simp: linked_def)

lemma dropped_keeps:
  assumes "stores parent depth ns" "linked parent depth blk" "below ns x (HashBlock blk)"
  shows "x \<notin> dropped ns blk l"
proof
  assume x: "x \<in> dropped ns blk l"
  have d: "depth (HashBlock blk) < depth x" using below_depth [OF assms(3,1)] .
  show False
  proof (cases "path ns l (HashBlock blk)")
    case True
    with x d have "path ns (PrevHash blk) x" by (auto simp: dropped_def)
    with d assms(2) path_depth [OF this assms(1)] show False by (auto simp: linked_def)
  next
    case False
    with x have "path ns l x" by (auto simp: dropped_def)
    with assms(3) False show False by (meson rtranclp_trans tranclp_into_rtranclp)
  qed
qed

lemma receiveLeaves_returns:
  assumes "stores parent depth ns" "linked parent depth blk" "closed ns R" "\<And>x. below ns x (HashBlock blk) \<Longrightarrow> x \<notin> R"
  shows "receiveLeaves blk ls (ns |` (- R)) =
     Some (ns |` (- (R \<union> (\<Union>l \<in> set ls. dropped ns blk l))),
       filter (\<lambda>l. \<not> path ns l (HashBlock blk) \<or> HashBlock blk = l) ls)"
  using assms(3,4)
proof (induction ls arbitrary: R)
  case (Cons l ls)
  note st = assms(1) and lk = assms(2)
  let ?R = "R \<union> dropped ns blk l"
  have "removeFrom (ns |` (- R)) (if path ns l (HashBlock blk) then Some blk else (ns |` (- R)) l) = Some (ns |` (- ?R))"
  proof (cases "path ns l (HashBlock blk)")
    case True
    have upd: "(ns |` (- R))(HashBlock blk := None) = ns |` (- (R \<union> {HashBlock blk}))"
      by (auto simp: restrict_map_def fun_eq_iff)
    have "\<not> path ns (PrevHash blk) (HashBlock blk)"
      using path_depth [OF _ st] lk by (fastforce simp: linked_def)
    then have "removeFrom (ns |` (- R)) (Some blk) = Some (ns |` (- (R \<union> {HashBlock blk} \<union> {y. path ns (PrevHash blk) y})))"
      using removeFrom_returns [OF st Cons.prems(1), of "{HashBlock blk}" "PrevHash blk"]
      unfolding removeFrom_step upd by blast
    then show ?thesis using True by (simp add: dropped_def)
  next
    case False
    then show ?thesis
      using removeFrom_returns [OF st Cons.prems(1), of "{}" l] by (simp add: dropped_def)
  qed
  moreover have "closed ns ?R"
    using Cons.prems(1) dropped_closed [OF st lk, of l] unfolding closed_def by blast
  moreover have "x \<notin> ?R" if "below ns x (HashBlock blk)" for x
    using that Cons.prems(2) dropped_keeps [OF st lk] by blast
  ultimately show ?case
    using Cons.IH [of ?R] contain_returns [OF st, of "HashBlock blk" R l] Cons.prems(2)
    by (simp add: Un_assoc)
qed simp

section \<open>The invariant of the pool\<close>

definition pool_inv :: "(bhash \<Rightarrow> bhash) \<Rightarrow> (bhash \<Rightarrow> nat) \<Rightarrow> proposalPool \<Rightarrow> bool" where
  "pool_inv parent depth d \<longleftrightarrow> stores parent depth (nodes d) \<and>
     (\<forall>h. nodes d h \<noteq> None \<longrightarrow> below (nodes d) h (root d)) \<and>
     (\<forall>h. nodes d h \<noteq> None \<longrightarrow> (\<exists>l \<in> set (map fst (leaves d)). path (nodes d) l h)) \<and>
     (\<forall>l \<in> set (map fst (leaves d)). nodes d l \<noteq> None) \<and>
     distinct (map fst (leaves d))"

lemma pool_inv_new: "pool_inv parent depth (pool_Init r newProposalPool)"
  by (simp add: pool_inv_def pool_Init_def newProposalPool_def stores_def)

lemma dropped_complement:
  assumes "pool_inv parent depth d" "linked parent depth blk"
  shows "nodes d |` (- (\<Union>l \<in> set (map fst (leaves d)). dropped (nodes d) blk l)) =
     nodes d |` {x. below (nodes d) x (HashBlock blk)}"
proof
  fix x
  note inv = assms(1)[unfolded pool_inv_def]
  let ?D = "\<Union>l \<in> set (map fst (leaves d)). dropped (nodes d) blk l"
  have st: "stores parent depth (nodes d)" using inv by blast
  have "x \<in> ?D" if x: "nodes d x \<noteq> None" "\<not> below (nodes d) x (HashBlock blk)"
  proof -
    obtain l where l: "l \<in> set (map fst (leaves d))" "path (nodes d) l x" using inv x(1) by blast
    have "x \<in> dropped (nodes d) blk l"
    proof (cases "path (nodes d) l (HashBlock blk)")
      case True
      then have "x = HashBlock blk \<or> below (nodes d) (HashBlock blk) x"
        using path_linear [OF l(2) True] x(2) by (auto simp: path_cases [of _ x] below_path [of _ x])
      then show ?thesis
        using True st assms(2)
        by (auto simp: dropped_def below_path linked_def dest: edge_depth)
    qed (use l(2) in \<open>simp add: dropped_def\<close>)
    with l(1) show ?thesis by blast
  qed
  moreover have "x \<notin> ?D" if "below (nodes d) x (HashBlock blk)"
    using that dropped_keeps [OF st assms(2)] by blast
  ultimately show "(nodes d |` (- ?D)) x = (nodes d |` {x. below (nodes d) x (HashBlock blk)}) x"
    by (cases "nodes d x") (auto simp: restrict_map_def)
qed

lemma path_restrict:
  assumes "path ns l h" "\<And>x. path ns l x \<Longrightarrow> below ns x h \<Longrightarrow> x \<in> A"
  shows "path (ns |` A) l h"
  using assms
proof (induction rule: converse_rtranclp_induct)
  case (step l z)
  have "below ns l h" using step.hyps by (rule rtranclp_into_tranclp2)
  then have "l \<in> A" using step.prems by blast
  then have "edge (ns |` A) l z" using step.hyps(1) by (simp add: edge_def restrict_map_def)
  moreover have "path (ns |` A) z h"
    using step.prems step.hyps(1) by (intro step.IH) (meson converse_rtranclp_into_rtranclp)
  ultimately show ?case by (rule converse_rtranclp_into_rtranclp)
qed simp

lemma below_restrict:
  assumes "below ns x h"
  shows "below (ns |` {x. below ns x h}) x h"
proof -
  let ?A = "{x. below ns x h}"
  obtain z where z: "edge ns x z" "path ns z h" using assms by (auto simp: below_path)
  have "edge (ns |` ?A) x z" using z(1) assms by (auto simp: edge_def restrict_map_def)
  moreover have "path (ns |` ?A) z h" using z(2) by (intro path_restrict) auto
  ultimately show ?thesis by (rule rtranclp_into_tranclp2)
qed

text \<open>The descendants of a block keep the invariant, with the block as their root.\<close>

lemma pool_inv_descendants:
  assumes "pool_inv parent depth d" "set (map fst ls) = {l \<in> set (map fst (leaves d)). below (nodes d) l h}"
    "distinct (map fst ls)"
  shows "pool_inv parent depth \<lparr>nodes = nodes d |` {x. below (nodes d) x h}, leaves = ls, root = h\<rparr>"
proof -
  note inv = assms(1)[unfolded pool_inv_def]
  let ?ns = "nodes d |` {x. below (nodes d) x h}"
  have "\<exists>l \<in> set (map fst ls). path ?ns l x" if x: "?ns x \<noteq> None" for x
  proof -
    have bx: "below (nodes d) x h" "nodes d x \<noteq> None" using x by (auto simp: restrict_map_def split: if_splits)
    then obtain l where l: "l \<in> set (map fst (leaves d))" "path (nodes d) l x" using inv by blast
    have "below (nodes d) y h" if "path (nodes d) l y" "below (nodes d) y x" for y
      using that(2) bx(1) by (rule tranclp_trans)
    then have "path ?ns l x" using l(2) by (intro path_restrict) auto
    moreover have "below (nodes d) l h" using l(2) bx(1) by (rule rtranclp_tranclp_tranclp)
    ultimately show ?thesis using l(1) assms(2) by blast
  qed
  moreover have "stores parent depth ?ns" using inv by (auto simp: stores_def restrict_map_def)
  moreover have "below ?ns x h" if "?ns x \<noteq> None" for x
    using that below_restrict [of "nodes d" x h] by (auto simp: restrict_map_def split: if_splits)
  moreover have "?ns l \<noteq> None" if "l \<in> set (map fst ls)" for l
    using that assms(2) inv by (auto simp: restrict_map_def)
  ultimately show ?thesis
    using assms(3) unfolding pool_inv_def by (simp only: proposalPool.simps) blast
qed

lemma delete_leaves: "fold AList.delete ds ls = filter (\<lambda>(k, _). k \<notin> set ds) ls"
  by (induction ds arbitrary: ls) (auto simp: AList.delete_eq intro: filter_cong)

text \<open>Receiving a block returns, and keeps the drafts above it.\<close>

lemma ReceiveBlock_returns:
  assumes "pool_inv parent depth d" "linked parent depth blk"
  shows "pool_ReceiveBlock blk d = Some
    \<lparr>nodes = nodes d |` {x. below (nodes d) x (HashBlock blk)},
     leaves = filter (\<lambda>(l, _). below (nodes d) l (HashBlock blk)) (leaves d), root = HashBlock blk\<rparr>"
proof -
  have st: "stores parent depth (nodes d)" using assms(1) by (simp add: pool_inv_def)
  have "receiveLeaves blk (map fst (leaves d)) (nodes d |` (- {})) =
    Some (nodes d |` (- ({} \<union> (\<Union>l \<in> set (map fst (leaves d)). dropped (nodes d) blk l))),
       filter (\<lambda>l. \<not> path (nodes d) l (HashBlock blk) \<or> HashBlock blk = l) (map fst (leaves d)))"
    by (rule receiveLeaves_returns [OF st assms(2)]) (auto simp: closed_def)
  then have run: "receiveLeaves blk (map fst (leaves d)) (nodes d) =
      Some (nodes d |` {x. below (nodes d) x (HashBlock blk)},
       filter (\<lambda>l. \<not> path (nodes d) l (HashBlock blk) \<or> HashBlock blk = l) (map fst (leaves d)))"
    using dropped_complement [OF assms] by (simp add: restrict_map_def [of _ UNIV])
  have "below (nodes d) l h \<longleftrightarrow> path (nodes d) l h \<and> l \<noteq> h" for l h
    using below_depth [OF _ st, of l l] by (auto simp: path_cases [of _ l] below_path)
  then have "fold AList.delete (filter (\<lambda>l. \<not> path (nodes d) l (HashBlock blk) \<or> HashBlock blk = l) (map fst (leaves d)))
      (leaves d) = filter (\<lambda>(l, _). below (nodes d) l (HashBlock blk)) (leaves d)"
    unfolding delete_leaves by (intro filter_cong) force+
  then show ?thesis by (simp add: pool_ReceiveBlock_def run)
qed

lemma pool_inv_ReceiveBlock:
  assumes "pool_inv parent depth d" "linked parent depth blk" "pool_ReceiveBlock blk d = Some d'"
  shows "pool_inv parent depth d'"
proof -
  have "distinct (map fst (leaves d))" using assms(1) by (simp add: pool_inv_def)
  then have "distinct (map fst (filter (\<lambda>(l, _). below (nodes d) l (HashBlock blk)) (leaves d)))"
    by (rule distinct_map_filter)
  then have "pool_inv parent depth \<lparr>nodes = nodes d |` {x. below (nodes d) x (HashBlock blk)},
     leaves = filter (\<lambda>(l, _). below (nodes d) l (HashBlock blk)) (leaves d), root = HashBlock blk\<rparr>"
    by (intro pool_inv_descendants [OF assms(1)]) force+
  with assms ReceiveBlock_returns show ?thesis by simp
qed

section \<open>Adding a block\<close>

lemma path_insert: "ns h = None \<Longrightarrow> path ns x y \<Longrightarrow> path (ns(h \<mapsto> b)) x y"
  by (erule rtranclp_mono [THEN predicate2D, rotated]) (auto simp: edge_def)

lemma below_insert:
  assumes "ns h = None" "below ns x y"
  shows "below (ns(h \<mapsto> b)) x y"
proof -
  obtain z where "edge ns x z" "path ns z y" using assms(2) by (auto simp: below_path)
  then have "edge (ns(h \<mapsto> b)) x z" "path (ns(h \<mapsto> b)) z y"
    using path_insert [of ns h, OF assms(1)] assms(1) by (auto simp: edge_def)
  then show ?thesis by (rule rtranclp_into_tranclp2)
qed

lemma keys_delete: "fst ` set (AList.delete k al) = fst ` set al - {k}"
  by (metis delete_keys set_map set_removeAll)

lemma pool_inv_insert:
  assumes "pool_inv parent depth d" "linked parent depth blk" "nodes d (HashBlock blk) = None"
    and prev: "PrevHash blk = root d \<or> nodes d (PrevHash blk) \<noteq> None"
    and ls: "set (map fst ls) = insert (HashBlock blk) (set (map fst (leaves d)) - L)" "L \<subseteq> {PrevHash blk}"
      "distinct (map fst ls)"
  shows "pool_inv parent depth (d\<lparr>leaves := ls, nodes := (nodes d)(HashBlock blk \<mapsto> blk)\<rparr>)"
proof -
  note inv = assms(1)[unfolded pool_inv_def]
  let ?h = "HashBlock blk" and ?ns = "(nodes d)(HashBlock blk \<mapsto> blk)"
  have e: "edge ?ns ?h (PrevHash blk)" by (simp add: edge_def)
  have "stores parent depth ?ns" using inv assms(2) by (simp add: stores_def)
  moreover have "below ?ns x (root d)" if "?ns x \<noteq> None" for x
  proof (cases "x = ?h")
    case True
    from prev have "path ?ns (PrevHash blk) (root d)"
      using inv below_insert [of "nodes d" ?h, OF assms(3)] by (metis rtranclp.rtrancl_refl tranclp_into_rtranclp)
    with e True show ?thesis by (metis rtranclp_into_tranclp2)
  next
    case False
    with that inv below_insert [of "nodes d" ?h, OF assms(3)] show ?thesis by simp
  qed
  moreover have "\<exists>l \<in> set (map fst ls). path ?ns l x" if "?ns x \<noteq> None" for x
  proof (cases "x = ?h")
    case False
    with that have "nodes d x \<noteq> None" by simp
    with inv obtain l where l: "l \<in> set (map fst (leaves d))" "path (nodes d) l x" by blast
    have "path ?ns l x" using path_insert [of "nodes d" ?h, OF assms(3) l(2)] .
    moreover have "path ?ns ?h x" if "l = PrevHash blk"
      using e calculation that by (metis converse_rtranclp_into_rtranclp)
    ultimately show ?thesis using l(1) ls(1,2) by blast
  qed (use ls(1) in blast)
  moreover have "?ns l \<noteq> None" if "l \<in> set (map fst ls)" for l
    using that ls(1) inv by auto
  moreover have sel: "nodes (d\<lparr>leaves := ls, nodes := ?ns\<rparr>) = ?ns" "leaves (d\<lparr>leaves := ls, nodes := ?ns\<rparr>) = ls"
    "root (d\<lparr>leaves := ls, nodes := ?ns\<rparr>) = root d" by simp_all
  ultimately show ?thesis
    using ls(3) unfolding pool_inv_def sel by blast
qed

lemma pool_inv_AddBlock:
  assumes "pool_inv parent depth d" "linked parent depth blk"
  shows "pool_inv parent depth (snd (pool_AddBlock blk d))"
proof -
  let ?h = "HashBlock blk" and ?p = "PrevHash blk" and ?t = "blkTimestamp blk"
  have dist: "distinct (map fst (leaves d))" and leaf: "map_of (leaves d) ?p \<noteq> None \<Longrightarrow> nodes d ?p \<noteq> None"
    using assms(1) by (auto simp: pool_inv_def dest: map_of_SomeD)
  consider (old) "nodes d ?h \<noteq> None" | (tip) "nodes d ?h = None" "map_of (leaves d) ?p \<noteq> None"
    | (bad) "nodes d ?h = None" "map_of (leaves d) ?p = None" "?p \<noteq> root d \<and> nodes d ?p = None"
    | (fork) "nodes d ?h = None" "map_of (leaves d) ?p = None" "?p = root d \<or> nodes d ?p \<noteq> None" by blast
  then show ?thesis
  proof cases
    case tip
    have "pool_inv parent depth (d\<lparr>leaves := AList.update ?h ?t (AList.delete ?p (leaves d)), nodes := (nodes d)(?h \<mapsto> blk)\<rparr>)"
      by (rule pool_inv_insert [OF assms tip(1), of _ "{?p}"])
        (use leaf [OF tip(2)] distinct_update [OF distinct_delete [OF dist]] in \<open>auto simp: dom_update keys_delete\<close>)
    with tip show ?thesis by (auto simp: pool_AddBlock_def Let_def)
  next
    case fork
    have "pool_inv parent depth (d\<lparr>leaves := AList.update ?h ?t (leaves d), nodes := (nodes d)(?h \<mapsto> blk)\<rparr>)"
      by (rule pool_inv_insert [OF assms fork(1,3), of _ "{}"]) (use dist in \<open>auto simp: dom_update distinct_update\<close>)
    with fork show ?thesis by (auto simp: pool_AddBlock_def Let_def)
  qed (use assms(1) in \<open>auto simp: pool_AddBlock_def Let_def\<close>)
qed

section \<open>Runs of the pool\<close>

inductive pool_run :: "(bhash \<Rightarrow> bhash) \<Rightarrow> (bhash \<Rightarrow> nat) \<Rightarrow> proposalPool \<Rightarrow> bool" for parent depth where
  run_start: "pool_run parent depth (cm_Start bc newProposalPool)"
| run_draft: "pool_run parent depth d \<Longrightarrow> linked parent depth blk \<Longrightarrow> pool_run parent depth (snd (draft blk d))"
| run_receive: "pool_run parent depth d \<Longrightarrow> linked parent depth blk \<Longrightarrow> pool_ReceiveBlock blk d = Some d' \<Longrightarrow>
    pool_run parent depth d'"

lemma pool_run_inv: "pool_run parent depth d \<Longrightarrow> pool_inv parent depth d"
  by (induction rule: pool_run.induct)
    (auto simp: cm_Start_def pool_inv_new draft_def pool_inv_AddBlock intro: pool_inv_ReceiveBlock)

lemma draftFrom_returns:
  assumes "stores parent depth (nodes d)"
  shows "\<exists>r. draftFrom d height (BlockByHash h d) = Some r \<and>
     (\<forall>b. r = Some b \<longrightarrow> blkHeight b = height \<and> path (nodes d) h (HashBlock b) \<and> nodes d (HashBlock b) = Some b)"
proof (induction "depth h" arbitrary: h rule: less_induct)
  case less
  show ?case
  proof (cases "nodes d h")
    case None
    then show ?thesis by (subst draftFrom.simps) (simp add: BlockByHash_def)
  next
    case (Some b)
    then have b: "HashBlock b = h" "depth (PrevHash b) < depth h"
      using assms unfolding stores_def linked_def by metis+
    have e: "path (nodes d) h y" if "path (nodes d) (PrevHash b) y" for y
      using that Some by (auto simp: path_cases [of _ h] edge_def)
    show ?thesis
      using less [OF b(2)] Some b(1) e
      by (subst draftFrom.simps) (auto simp: BlockByHash_def)
  qed
qed

text \<open>
  Property C28.  In every run of the pool, receiving a committed block returns and keeps exactly the drafts
  that descend from it, whatever the order in which the leaves are visited and whether or not the block was
  drafted: older blocks and other forks are gone, each draft left leads down to the new root, and each is
  below a leaf.  Searching the draft at a height returns too, with a draft of the fork that has the height.
\<close>

theorem received_block_keeps_descendants:
  assumes "pool_run parent depth d" "linked parent depth blk"
  shows "\<exists>d'. pool_ReceiveBlock blk d = Some d' \<and> root d' = HashBlock blk \<and>
    (\<forall>h. BlockByHash h d' = (if below (nodes d) h (HashBlock blk) then BlockByHash h d else None)) \<and>
    (\<forall>h. BlockByHash h d' \<noteq> None \<longrightarrow> below (nodes d') h (root d') \<and>
       (\<exists>l t. (l, t) \<in> set (leaves d') \<and> path (nodes d') l h)) \<and>
    (\<forall>tip height. \<exists>r. draftBlockByHeight height tip d' = Some r \<and>
       (\<forall>b. r = Some b \<longrightarrow> blkHeight b = height \<and> path (nodes d') tip (HashBlock b)))"
proof -
  note inv = pool_run_inv [OF assms(1)]
  obtain d' where d': "pool_ReceiveBlock blk d = Some d'"
    "nodes d' = nodes d |` {x. below (nodes d) x (HashBlock blk)}" "root d' = HashBlock blk"
    using ReceiveBlock_returns [OF inv assms(2)] by auto
  have inv': "pool_inv parent depth d'" using pool_inv_ReceiveBlock [OF inv assms(2) d'(1)] .
  have "\<exists>r. draftBlockByHeight height tip d' = Some r \<and>
      (\<forall>b. r = Some b \<longrightarrow> blkHeight b = height \<and> path (nodes d') tip (HashBlock b))" for tip height
    using draftFrom_returns [of parent depth d' height tip] inv' by (auto simp: draftBlockByHeight_def pool_inv_def)
  moreover have "BlockByHash h d' \<noteq> None \<longrightarrow> below (nodes d') h (root d') \<and>
      (\<exists>l t. (l, t) \<in> set (leaves d') \<and> path (nodes d') l h)" for h
    using inv' by (fastforce simp: pool_inv_def BlockByHash_def)
  ultimately show ?thesis using d' by (auto simp: BlockByHash_def restrict_map_def)
qed

text \<open>Two drafts on the genesis block, one of them with a successor.\<close>

definition exDraft :: "byte \<Rightarrow> byte \<Rightarrow> block" where
  "exDraft h prev = \<lparr>HashBlock = [h], blkHeight = 1, blkTimestamp = 0, PrevHash = [prev], ProducerAddress = [],
     VerifySignature = True, footerEndorsements = [], commitTime = 0\<rparr>"

definition exParent :: "bhash \<Rightarrow> bhash" where
  "exParent h = (if h = [2] then [1] else [0])"

definition exDepth :: "bhash \<Rightarrow> nat" where
  "exDepth h = (if h = [0] then 0 else if h = [2] then 2 else 1)"

definition exPool :: proposalPool where
  "exPool = fold (\<lambda>b d. snd (draft b d)) [exDraft 1 0, exDraft 3 0, exDraft 2 1] (newProposalPool\<lparr>root := [0]\<rparr>)"

lemma exPool_run: "pool_run exParent exDepth exPool"
proof -
  have "pool_run exParent exDepth (cm_Start (undefined\<lparr>bcTipHash := [0]\<rparr>) newProposalPool)" by (rule run_start)
  then have "pool_run exParent exDepth (newProposalPool\<lparr>root := [0]\<rparr>)" by (simp add: cm_Start_def pool_Init_def)
  then show ?thesis
    unfolding exPool_def
    by (auto intro!: run_draft simp: linked_def exDraft_def exParent_def exDepth_def)
qed

theorem received_block_keeps_descendants_witness:
  "\<exists>d'. pool_ReceiveBlock (exDraft 1 0) exPool = Some d' \<and> root d' = [1] \<and>
     BlockByHash [2] d' = Some (exDraft 2 1) \<and> BlockByHash [3] d' = None"
proof -
  have ok: "linked exParent exDepth (exDraft 1 0)" by (simp add: linked_def exDraft_def exParent_def exDepth_def)
  have n: "nodes exPool [2] = Some (exDraft 2 1)" by (simp add: exPool_def draft_def pool_AddBlock_def newProposalPool_def exDraft_def Let_def)
  have "below (nodes exPool) [2] [1]" using n by (auto simp: edge_def exDraft_def)
  moreover have "\<not> below (nodes exPool) [3] [1]"
    using below_depth [of "nodes exPool" "[3]" "[1]" exParent exDepth] pool_run_inv [OF exPool_run]
    by (auto simp: pool_inv_def exDepth_def)
  moreover have "HashBlock (exDraft 1 0) = [1]" by (simp add: exDraft_def)
  ultimately show ?thesis
    using received_block_keeps_descendants [OF exPool_run ok] n by (fastforce simp: BlockByHash_def)
qed

end
