(* ===== verification/Batch.thy ===== *)
theory Batch
  imports Prelude "HOL-Library.AList"
begin

text \<open>
  Batches of writes (\<^verbatim>\<open>db/batch/batch_impl.go\<close>, \<^verbatim>\<open>kv_cache.go\<close>, \<^verbatim>\<open>writeinfo.go\<close>): the write queue, the
  two-level cache, and the cached batch with snapshots that the working set of a block writes into.

  The map from keys to tags is an association list, in the arbitrary order of its iteration.  An index out
  of range and a read of an empty slice are a \<open>Panic\<close>.  Locks and fill percents are left out.

  A cached batch is compared with a list of segments, the writes between its snapshots: \<open>represents\<close> says what
  its queue, its caches and its two indexes are in terms of the segments, and every operation is shown to do
  to the batch what its one-line counterpart does to the segments.
\<close>

section \<open>Writes (writeinfo.go)\<close>

datatype WriteType = Put | Delete

record WriteInfo =
  writeType :: WriteType
  namespace :: string
  wkey :: "byte list"
  wvalue :: "byte list"
  errorMessage :: string

definition NewWriteInfo :: "WriteType \<Rightarrow> string \<Rightarrow> byte list \<Rightarrow> byte list \<Rightarrow> string \<Rightarrow> WriteInfo" where
  "NewWriteInfo t ns k v msg = \<lparr>writeType = t, namespace = ns, wkey = k, wvalue = v, errorMessage = msg\<rparr>"

definition SerializeWithoutWriteType :: "(string \<Rightarrow> byte list) \<Rightarrow> WriteInfo \<Rightarrow> byte list" where
  "SerializeWithoutWriteType bytesOf wi = bytesOf (namespace wi) @ wkey wi @ wvalue wi"

definition SerializeInfo :: "(string \<Rightarrow> byte list) \<Rightarrow> WriteInfo \<Rightarrow> byte list" where
  "SerializeInfo bytesOf wi =
     (case writeType wi of Put \<Rightarrow> 0 | Delete \<Rightarrow> 1) # SerializeWithoutWriteType bytesOf wi"

section \<open>The two-level cache (kv\_cache.go)\<close>

type_synonym kvCacheKey = "string \<times> byte list"

record cache_node =
  nodeValue :: "byte list"
  deleted :: bool

type_synonym kvCache = "string \<rightharpoonup> (byte list \<rightharpoonup> cache_node)"

definition NewKVCache :: kvCache where "NewKVCache = Map.empty"

definition cache_Read :: "kvCacheKey \<Rightarrow> kvCache \<Rightarrow> byte list res" where
  "cache_Read h c =
     (case c (fst h) of
        None \<Rightarrow> Inl ErrNotExist
      | Some ns \<Rightarrow>
          (case ns (snd h) of
             None \<Rightarrow> Inl ErrNotExist
           | Some n \<Rightarrow> if deleted n then Inl ErrAlreadyDeleted else Inr (nodeValue n)))"

definition setNode :: "kvCacheKey \<Rightarrow> cache_node \<Rightarrow> kvCache \<Rightarrow> kvCache" where
  "setNode h n c = c(fst h \<mapsto> (case c (fst h) of None \<Rightarrow> Map.empty | Some ns \<Rightarrow> ns)(snd h \<mapsto> n))"

definition cache_Write :: "kvCacheKey \<Rightarrow> byte list \<Rightarrow> kvCache \<Rightarrow> kvCache" where
  "cache_Write h v = setNode h \<lparr>nodeValue = v, deleted = False\<rparr>"

definition WriteIfNotExist :: "kvCacheKey \<Rightarrow> byte list \<Rightarrow> kvCache \<Rightarrow> kvCache res" where
  "WriteIfNotExist h v c =
     (case cache_Read h c of Inr _ \<Rightarrow> Inl ErrAlreadyExist | Inl _ \<Rightarrow> Inr (cache_Write h v c))"

definition cache_Evict :: "kvCacheKey \<Rightarrow> kvCache \<Rightarrow> kvCache" where
  "cache_Evict h = setNode h \<lparr>nodeValue = [], deleted = True\<rparr>"

text \<open>Later caches override earlier ones, key by key.\<close>

definition mergeNs :: "kvCache \<Rightarrow> kvCache \<Rightarrow> kvCache" where
  "mergeNs c cc = (\<lambda>k1. case cc k1 of
     None \<Rightarrow> c k1
   | Some ns \<Rightarrow> Some ((case c k1 of None \<Rightarrow> Map.empty | Some ns0 \<Rightarrow> ns0) ++ ns))"

definition cache_Append :: "kvCache list \<Rightarrow> kvCache \<Rightarrow> kvCache" where
  "cache_Append ccs c = fold (\<lambda>cc c. mergeNs c cc) ccs c"

section \<open>The write queue (baseKVStoreBatch)\<close>

type_synonym baseKVStoreBatch = "WriteInfo list"

definition base_batch :: "WriteType \<Rightarrow> string \<Rightarrow> byte list \<Rightarrow> byte list \<Rightarrow> string \<Rightarrow> baseKVStoreBatch \<Rightarrow> baseKVStoreBatch" where
  "base_batch op ns k v msg b = b @ [\<lparr>writeType = op, namespace = ns, wkey = k, wvalue = v, errorMessage = msg\<rparr>]"

definition base_Put :: "string \<Rightarrow> byte list \<Rightarrow> byte list \<Rightarrow> string \<Rightarrow> baseKVStoreBatch \<Rightarrow> baseKVStoreBatch" where
  "base_Put ns k v msg = base_batch Put ns k v msg"

definition base_Delete :: "string \<Rightarrow> byte list \<Rightarrow> string \<Rightarrow> baseKVStoreBatch \<Rightarrow> baseKVStoreBatch" where
  "base_Delete ns k msg = base_batch Delete ns k [] msg"

definition base_Entry :: "int \<Rightarrow> baseKVStoreBatch \<Rightarrow> WriteInfo res" where
  "base_Entry i b = (if i < 0 \<or> int (length b) \<le> i then Inl ErrOutOfBound else Inr (b ! nat i))"

text \<open>Append reads the entries of the receiver itself, not those of its argument.\<close>

definition base_appendOne :: "int \<Rightarrow> baseKVStoreBatch \<Rightarrow> baseKVStoreBatch res" where
  "base_appendOne i b =
     (case base_Entry i b of
        Inl _ \<Rightarrow> Inl (Panic ''out of bound'')
      | Inr wi \<Rightarrow>
          Inr (case writeType wi of
              Put \<Rightarrow> base_batch Put (namespace wi) (wkey wi) (wvalue wi) (errorMessage wi) b
            | Delete \<Rightarrow> base_batch Delete (namespace wi) (wkey wi) [] (errorMessage wi) b))"

definition base_Append :: "baseKVStoreBatch \<Rightarrow> baseKVStoreBatch \<Rightarrow> baseKVStoreBatch res" where
  "base_Append kvb b = fold (\<lambda>i r. bindR r (base_appendOne i)) (map int [0..<length kvb]) (Inr b)"

definition base_SerializeQueue ::
  "(WriteInfo \<Rightarrow> byte list) \<Rightarrow> (WriteInfo \<Rightarrow> bool) option \<Rightarrow> baseKVStoreBatch \<Rightarrow> byte list" where
  "base_SerializeQueue serialize skip b =
     concat (map (\<lambda>wi. case skip of Some f \<Rightarrow> if f wi then [] else serialize wi | None \<Rightarrow> serialize wi) b)"

definition base_Translate :: "(WriteInfo \<Rightarrow> WriteInfo option) option \<Rightarrow> baseKVStoreBatch \<Rightarrow> baseKVStoreBatch" where
  "base_Translate wit b = (case wit of None \<Rightarrow> b | Some f \<Rightarrow> List.map_filter f b)"

definition truncateQueue :: "nat \<Rightarrow> baseKVStoreBatch \<Rightarrow> baseKVStoreBatch res" where
  "truncateQueue n b = (if n \<le> length b then Inr (take n b) else Inl (Panic ''slice bounds out of range''))"

section \<open>The cached batch\<close>

record cachedBatch =
  writeQueue :: baseKVStoreBatch
  tag :: nat
  batchShots :: "nat list"
  caches :: "kvCache list"
  keyTags :: "(kvCacheKey \<times> nat list) list"
  tagKeys :: "kvCacheKey list list"

definition resetSnapshotIgnoreThreshold :: nat where "resetSnapshotIgnoreThreshold = 10"

definition NewCachedBatch :: cachedBatch where
  "NewCachedBatch = \<lparr>writeQueue = [], tag = 0, batchShots = [], caches = [NewKVCache], keyTags = [], tagKeys = [[]]\<rparr>"

definition cb_clear :: "cachedBatch \<Rightarrow> cachedBatch" where
  "cb_clear cb = cb\<lparr>writeQueue := [], tag := 0, batchShots := [], caches := [NewKVCache], keyTags := [], tagKeys := [[]]\<rparr>"

definition recordKey :: "kvCacheKey \<Rightarrow> cachedBatch \<Rightarrow> cachedBatch res" where
  "recordKey h cb =
     (if tag cb < length (tagKeys cb)
      then Inr (cb\<lparr>tagKeys := (tagKeys cb)[tag cb := tagKeys cb ! tag cb @ [h]]\<rparr>)
      else Inl (Panic ''index out of range''))"

definition touchKey :: "kvCacheKey \<Rightarrow> cachedBatch \<Rightarrow> cachedBatch res" where
  "touchKey h cb =
     (case map_of (keyTags cb) h of
        None \<Rightarrow> recordKey h (cb\<lparr>keyTags := AList.update h [tag cb] (keyTags cb)\<rparr>)
      | Some tags \<Rightarrow>
          if tags = [] then Inl (Panic ''index out of range'')
          else if last tags \<noteq> tag cb then recordKey h (cb\<lparr>keyTags := AList.update h (tags @ [tag cb]) (keyTags cb)\<rparr>)
          else Inr cb)"

definition onCurrentCache :: "(kvCache \<Rightarrow> kvCache) \<Rightarrow> cachedBatch \<Rightarrow> cachedBatch res" where
  "onCurrentCache f cb =
     (if caches cb = [] then Inl (Panic ''index out of range'')
      else Inr (cb\<lparr>caches := butlast (caches cb) @ [f (last (caches cb))]\<rparr>))"

definition cb_put :: "string \<Rightarrow> byte list \<Rightarrow> byte list \<Rightarrow> string \<Rightarrow> cachedBatch \<Rightarrow> cachedBatch res" where
  "cb_put ns k v msg cb =
     bindR (touchKey (ns, k) cb) (\<lambda>cb.
     bindR (onCurrentCache (cache_Write (ns, k) v) cb) (\<lambda>cb.
     Inr (cb\<lparr>writeQueue := base_batch Put ns k v msg (writeQueue cb)\<rparr>)))"

definition cb_delete :: "string \<Rightarrow> byte list \<Rightarrow> string \<Rightarrow> cachedBatch \<Rightarrow> cachedBatch res" where
  "cb_delete ns k msg cb =
     bindR (touchKey (ns, k) cb) (\<lambda>cb.
     bindR (onCurrentCache (cache_Evict (ns, k)) cb) (\<lambda>cb.
     Inr (cb\<lparr>writeQueue := base_batch Delete ns k [] msg (writeQueue cb)\<rparr>)))"

fun cb_Append :: "WriteInfo list \<Rightarrow> cachedBatch \<Rightarrow> cachedBatch res" where
  "cb_Append [] cb = Inr cb"
| "cb_Append (wi # ws) cb =
     bindR (case writeType wi of
         Put \<Rightarrow> cb_put (namespace wi) (wkey wi) (wvalue wi) (errorMessage wi) cb
       | Delete \<Rightarrow> cb_delete (namespace wi) (wkey wi) (errorMessage wi) cb) (cb_Append ws)"

fun readTags :: "kvCacheKey \<Rightarrow> kvCache list \<Rightarrow> nat list \<Rightarrow> byte list res" where
  "readTags h cs [] = Inl ErrNotExist"
| "readTags h cs (t # ts) =
     (if t < length cs
      then (case cache_Read h (cs ! t) of
          Inl e \<Rightarrow> if e = ErrNotExist then readTags h cs ts else Inl e
        | Inr v \<Rightarrow> Inr v)
      else Inl (Panic ''index out of range''))"

definition cb_Get :: "string \<Rightarrow> byte list \<Rightarrow> cachedBatch \<Rightarrow> byte list res" where
  "cb_Get ns k cb =
     (case map_of (keyTags cb) (ns, k) of
        None \<Rightarrow> Inl ErrNotExist
      | Some tags \<Rightarrow> readTags (ns, k) (caches cb) (rev tags))"

definition cb_Snapshot :: "cachedBatch \<Rightarrow> nat \<times> cachedBatch" where
  "cb_Snapshot cb = (tag cb, cb\<lparr>batchShots := batchShots cb @ [length (writeQueue cb)],
     caches := caches cb @ [NewKVCache], tagKeys := tagKeys cb @ [[]], tag := tag cb + 1\<rparr>)"

definition popTag :: "kvCacheKey \<Rightarrow> (kvCacheKey \<times> nat list) list \<Rightarrow> (kvCacheKey \<times> nat list) list res" where
  "popTag key kts =
     (case map_of kts key of
        None \<Rightarrow> Inl (Panic ''nil tags'')
      | Some tags \<Rightarrow>
          if tags = [] then Inl (Panic ''slice bounds out of range'')
          else if butlast tags = [] then Inr (AList.delete key kts)
          else Inr (AList.update key (butlast tags) kts))"

definition popTags :: "kvCacheKey list \<Rightarrow> (kvCacheKey \<times> nat list) list \<Rightarrow> (kvCacheKey \<times> nat list) list res" where
  "popTags keys kts = fold (\<lambda>key r. bindR r (popTag key)) keys (Inr kts)"

definition RevertSnapshot :: "int \<Rightarrow> cachedBatch \<Rightarrow> cachedBatch res" where
  "RevertSnapshot snapshot cb =
     (if snapshot < 0 \<or> int (tag cb) \<le> snapshot then Inl ErrOutOfBound
      else
        let s = nat snapshot; t = s + 1 in
        if length (batchShots cb) < t \<or> length (caches cb) < t + 1 \<or> length (tagKeys cb) < t + 1
        then Inl (Panic ''slice bounds out of range'')
        else
          bindR (truncateQueue (batchShots cb ! s) (writeQueue cb)) (\<lambda>q.
          bindR (popTags (concat (drop t (tagKeys cb))) (keyTags cb)) (\<lambda>kts.
          Inr (cb\<lparr>tag := t, batchShots := take t (batchShots cb), writeQueue := q,
            caches := take t (caches cb) @ [NewKVCache], keyTags := kts,
            tagKeys := take t (tagKeys cb) @ [[]]\<rparr>))))"

definition ResetSnapshots :: "cachedBatch \<Rightarrow> cachedBatch" where
  "ResetSnapshots cb =
     (if tag cb \<le> resetSnapshotIgnoreThreshold then cb
      else cb\<lparr>tag := 0, batchShots := [],
        caches := (case caches cb of c # c' # cs \<Rightarrow> [cache_Append (c' # cs) c] | cs \<Rightarrow> cs),
        keyTags := map (\<lambda>(k, _). (k, [0])) (keyTags cb),
        tagKeys := [map fst (keyTags cb)]\<rparr>)"

section \<open>Segments of writes\<close>

declare split_paired_All [simp del] split_paired_Ex [simp del]

definition keyOf :: "WriteInfo \<Rightarrow> kvCacheKey" where
  "keyOf wi = (namespace wi, wkey wi)"

definition effect :: "WriteInfo \<Rightarrow> byte list option" where
  "effect wi = (case writeType wi of Put \<Rightarrow> Some (wvalue wi) | Delete \<Rightarrow> None)"

text \<open>The last write of a key, and what a store looks like after a list of writes.\<close>

fun lastWrite :: "WriteInfo list \<Rightarrow> kvCacheKey \<Rightarrow> byte list option option" where
  "lastWrite [] h = None"
| "lastWrite (w # ws) h =
     (case lastWrite ws h of Some e \<Rightarrow> Some e | None \<Rightarrow> if keyOf w = h then Some (effect w) else None)"

definition applyWrites :: "WriteInfo list \<Rightarrow> (kvCacheKey \<rightharpoonup> byte list) \<Rightarrow> (kvCacheKey \<rightharpoonup> byte list)" where
  "applyWrites ws m = fold (\<lambda>w m. m(keyOf w := effect w)) ws m"

lemma lastWrite_append:
  "lastWrite (xs @ ys) h = (case lastWrite ys h of Some e \<Rightarrow> Some e | None \<Rightarrow> lastWrite xs h)"
  by (induction xs) (auto split: option.splits)

lemma lastWrite_None: "lastWrite ws h = None \<longleftrightarrow> h \<notin> keyOf ` set ws"
  by (induction ws) (auto split: option.splits)

lemma applyWrites_lookup:
  "applyWrites ws m h = (case lastWrite ws h of Some e \<Rightarrow> e | None \<Rightarrow> m h)"
  unfolding applyWrites_def by (induction ws arbitrary: m) (auto split: option.splits)

lemma applyWrites_append: "applyWrites (xs @ ys) m = applyWrites ys (applyWrites xs m)"
  by (simp add: applyWrites_def)

text \<open>What a cache holds of a key.\<close>

definition cached :: "kvCache \<Rightarrow> kvCacheKey \<Rightarrow> byte list option option" where
  "cached c h = (case c (fst h) of None \<Rightarrow> None | Some ns \<Rightarrow>
     map_option (\<lambda>n. if deleted n then None else Some (nodeValue n)) (ns (snd h)))"

definition answer :: "byte list option option \<Rightarrow> byte list res" where
  "answer e = (case e of None \<Rightarrow> Inl ErrNotExist | Some None \<Rightarrow> Inl ErrAlreadyDeleted | Some (Some v) \<Rightarrow> Inr v)"

lemma cache_Read_cached: "cache_Read h c = answer (cached c h)"
  by (auto simp: cache_Read_def cached_def answer_def split: option.splits)

lemma cached_new [simp]: "cached NewKVCache h = None"
  by (simp add: cached_def NewKVCache_def)

lemma cached_set: "cached (setNode h n c) h' =
    (if h = h' then Some (if deleted n then None else Some (nodeValue n)) else cached c h')"
  by (auto simp: cached_def setNode_def prod_eq_iff split: option.splits)

lemma cached_merge: "cached (mergeNs c cc) h = (case cached cc h of Some e \<Rightarrow> Some e | None \<Rightarrow> cached c h)"
  by (auto simp: cached_def mergeNs_def map_add_def split: option.splits)

section \<open>A cached batch represents its segments\<close>

definition tagsOf :: "WriteInfo list list \<Rightarrow> kvCacheKey \<Rightarrow> nat list" where
  "tagsOf segs h = filter (\<lambda>i. h \<in> keyOf ` set (segs ! i)) [0..<length segs]"

definition tags_ok :: "WriteInfo list list \<Rightarrow> (kvCacheKey \<times> nat list) list \<Rightarrow> bool" where
  "tags_ok segs kts \<longleftrightarrow> distinct (map fst kts) \<and>
     (\<forall>h. map_of kts h = (if tagsOf segs h = [] then None else Some (tagsOf segs h)))"

definition represents :: "WriteInfo list list \<Rightarrow> cachedBatch \<Rightarrow> bool" where
  "represents segs cb \<longleftrightarrow> segs \<noteq> [] \<and> tag cb = length segs - 1 \<and>
     writeQueue cb = concat segs \<and>
     batchShots cb = map (\<lambda>i. length (concat (take (Suc i) segs))) [0..<length segs - 1] \<and>
     length (caches cb) = length segs \<and> (\<forall>i < length segs. cached (caches cb ! i) = lastWrite (segs ! i)) \<and>
     tags_ok segs (keyTags cb) \<and>
     length (tagKeys cb) = length segs \<and>
     (\<forall>i < length segs. distinct (tagKeys cb ! i) \<and> set (tagKeys cb ! i) = keyOf ` set (segs ! i))"

lemma tagsOf_snoc: "tagsOf (segs @ [seg]) h = tagsOf segs h @ (if h \<in> keyOf ` set seg then [length segs] else [])"
  by (auto simp: tagsOf_def nth_append intro: filter_cong)

lemma tagsOf_Nil_iff: "tagsOf segs h = [] \<longleftrightarrow> h \<notin> keyOf ` set (concat segs)"
proof -
  have "h \<in> keyOf ` set (concat segs) \<longleftrightarrow> (\<exists>i < length segs. h \<in> keyOf ` set (segs ! i))"
    by (force simp: in_set_conv_nth [of _ segs])
  then show ?thesis by (auto simp: tagsOf_def filter_empty_conv)
qed

lemma tags_okD: "tags_ok segs kts \<Longrightarrow> map_of kts h = (if tagsOf segs h = [] then None else Some (tagsOf segs h))"
  unfolding tags_ok_def by blast

lemma represents_new: "represents [[]] NewCachedBatch"
  by (simp add: represents_def NewCachedBatch_def tags_ok_def tagsOf_def fun_eq_iff)

lemma represents_clear: "represents segs cb \<Longrightarrow> represents [[]] (cb_clear cb)"
  by (simp add: represents_def cb_clear_def tags_ok_def tagsOf_def fun_eq_iff)

text \<open>Recording a key keeps the two indexes of the last segment in step.\<close>

lemma touchKey_ok:
  assumes tk: "tags_ok (segs @ [seg]) (keyTags cb)" and len: "length (tagKeys cb) = Suc (length segs)" "tag cb = length segs"
    and last: "distinct (last (tagKeys cb))" "set (last (tagKeys cb)) = keyOf ` set seg"
  obtains cb' where "touchKey (keyOf w) cb = Inr cb'" "cb' = cb\<lparr>keyTags := keyTags cb', tagKeys := tagKeys cb'\<rparr>"
    "tags_ok (segs @ [seg @ [w]]) (keyTags cb')"
    "butlast (tagKeys cb') = butlast (tagKeys cb)" "length (tagKeys cb') = Suc (length segs)"
    "distinct (last (tagKeys cb'))" "set (last (tagKeys cb')) = keyOf ` set (seg @ [w])"
proof (cases "keyOf w \<in> keyOf ` set seg")
  case True
  then have "insert (keyOf w) (keyOf ` set seg) = keyOf ` set seg" by blast
  moreover have "touchKey (keyOf w) cb = Inr cb"
    using tags_okD [OF tk, of "keyOf w"] True len(2) by (simp add: touchKey_def tagsOf_snoc)
  ultimately show ?thesis
    using that [of cb] tk len last True by (simp add: tags_ok_def tagsOf_snoc)
next
  case False
  have ne: "tagKeys cb \<noteq> []" using len(1) by auto
  let ?tags = "tagsOf segs (keyOf w) @ [length segs]"
  define cb' where "cb' = cb\<lparr>keyTags := AList.update (keyOf w) ?tags (keyTags cb),
    tagKeys := (tagKeys cb)[length segs := tagKeys cb ! length segs @ [keyOf w]]\<rparr>"
  have lst: "last (tagKeys cb) = tagKeys cb ! length segs" using len(1) ne by (simp add: last_conv_nth)
  have "length segs \<notin> set (tagsOf segs (keyOf w))" by (simp add: tagsOf_def)
  then have "tagsOf segs (keyOf w) \<noteq> [] \<Longrightarrow> last (tagsOf segs (keyOf w)) \<noteq> length segs" by (metis last_in_set)
  then have "touchKey (keyOf w) cb = Inr cb'"
    using tags_okD [OF tk, of "keyOf w"] False len by (auto simp: touchKey_def tagsOf_snoc recordKey_def cb'_def)
  moreover have "tags_ok (segs @ [seg @ [w]]) (keyTags cb')"
    using tk False by (auto simp: tags_ok_def tagsOf_snoc cb'_def update_conv' distinct_update)
  moreover have "last (tagKeys cb') = last (tagKeys cb) @ [keyOf w]"
    using len(1) ne lst by (simp add: cb'_def last_list_update)
  moreover have "butlast (tagKeys cb') = butlast (tagKeys cb)"
    using len(1) by (simp add: cb'_def butlast_list_update)
  ultimately show ?thesis
    using that [of cb'] False last len(1) by (auto simp: cb'_def)
qed

lemma onCurrentCache_ok:
  assumes "length (caches cb) = Suc (length segs)"
  shows "onCurrentCache f cb = Inr (cb\<lparr>caches := butlast (caches cb) @ [f (last (caches cb))]\<rparr>)"
  using assms by (auto simp: onCurrentCache_def)

definition cacheStep :: "WriteInfo \<Rightarrow> kvCache \<Rightarrow> kvCache" where
  "cacheStep w = (case writeType w of Put \<Rightarrow> cache_Write (keyOf w) (wvalue w) | Delete \<Rightarrow> cache_Evict (keyOf w))"

lemma cached_step: "cached c = lastWrite seg \<Longrightarrow> cached (cacheStep w c) = lastWrite (seg @ [w])"
  by (auto simp: fun_eq_iff lastWrite_append cacheStep_def cache_Write_def cache_Evict_def cached_set effect_def
    split: WriteType.splits)

definition normal :: "WriteInfo \<Rightarrow> WriteInfo" where
  "normal w = (case writeType w of Put \<Rightarrow> w | Delete \<Rightarrow> w\<lparr>wvalue := []\<rparr>)"

definition cb_write :: "WriteInfo \<Rightarrow> cachedBatch \<Rightarrow> cachedBatch res" where
  "cb_write w cb =
     bindR (touchKey (keyOf w) cb) (\<lambda>cb.
     bindR (onCurrentCache (cacheStep w) cb) (\<lambda>cb.
     Inr (cb\<lparr>writeQueue := writeQueue cb @ [w]\<rparr>)))"

lemma cb_put_write: "cb_put ns k v msg = cb_write \<lparr>writeType = Put, namespace = ns, wkey = k, wvalue = v, errorMessage = msg\<rparr>"
  by (simp add: fun_eq_iff cb_put_def cb_write_def keyOf_def cacheStep_def base_batch_def)

lemma cb_delete_write: "cb_delete ns k msg = cb_write \<lparr>writeType = Delete, namespace = ns, wkey = k, wvalue = [], errorMessage = msg\<rparr>"
  by (simp add: fun_eq_iff cb_delete_def cb_write_def keyOf_def cacheStep_def base_batch_def)

lemma nth_butlast_snoc:
  "length xs = Suc n \<Longrightarrow> i < Suc n \<Longrightarrow> (butlast xs @ [x]) ! i = (if i = n then x else xs ! i)"
  by (simp add: nth_append nth_butlast)

lemma represents_write:
  assumes "represents (segs @ [seg]) cb"
  shows "\<exists>cb'. cb_write w cb = Inr cb' \<and> represents (segs @ [seg @ [w]]) cb'"
proof -
  note r = assms[unfolded represents_def]
  have len: "length (tagKeys cb) = Suc (length segs)" "tag cb = length segs" "length (caches cb) = Suc (length segs)"
    using r by auto
  have ne: "tagKeys cb \<noteq> []" "caches cb \<noteq> []" using len by auto
  have l: "distinct (last (tagKeys cb))" "set (last (tagKeys cb)) = keyOf ` set seg" "cached (last (caches cb)) = lastWrite seg"
    using r len ne by (auto simp: last_conv_nth)
  obtain c1 where c1: "touchKey (keyOf w) cb = Inr c1" "c1 = cb\<lparr>keyTags := keyTags c1, tagKeys := tagKeys c1\<rparr>"
    "tags_ok (segs @ [seg @ [w]]) (keyTags c1)"
    "butlast (tagKeys c1) = butlast (tagKeys cb)" "length (tagKeys c1) = Suc (length segs)"
    "distinct (last (tagKeys c1))" "set (last (tagKeys c1)) = keyOf ` set (seg @ [w])"
    by (rule touchKey_ok [OF _ len(1,2) l(1,2), of w]) (use r in blast)
  have same: "caches c1 = caches cb" "writeQueue c1 = writeQueue cb" "batchShots c1 = batchShots cb" "tag c1 = tag cb"
    by (subst c1(2), simp)+
  have tk: "tagKeys c1 = butlast (tagKeys cb) @ [last (tagKeys c1)]"
    using c1(4,5) by (metis append_butlast_last_id length_0_conv nat.distinct(1))
  define cb' where "cb' = c1\<lparr>caches := butlast (caches cb) @ [cacheStep w (last (caches cb))], writeQueue := writeQueue cb @ [w]\<rparr>"
  have run: "cb_write w cb = Inr cb'"
    using c1(1) len(3) same(1,2) by (simp add: cb_write_def onCurrentCache_ok [of c1 segs] cb'_def)
  have "distinct (tagKeys cb' ! i) \<and> set (tagKeys cb' ! i) = keyOf ` set ((segs @ [seg @ [w]]) ! i)"
    if "i < length (segs @ [seg @ [w]])" for i
  proof (cases "i = length segs")
    case True
    then have "tagKeys cb' ! i = last (tagKeys c1)" by (simp add: cb'_def) (subst tk, simp add: nth_append len)
    with c1(6,7) True show ?thesis by simp
  next
    case False
    then have "tagKeys cb' ! i = tagKeys cb ! i"
      using that by (simp add: cb'_def) (subst tk, simp add: nth_append nth_butlast len)
    with r False that show ?thesis by (auto simp: nth_append)
  qed
  moreover have "cached (caches cb' ! i) = lastWrite ((segs @ [seg @ [w]]) ! i)" if "i < length (segs @ [seg @ [w]])" for i
  proof (cases "i = length segs")
    case False
    then have "caches cb' ! i = caches cb ! i" using that len(3) by (simp add: cb'_def nth_append nth_butlast)
    with r that False show ?thesis by (auto simp: nth_append)
  qed (use cached_step [OF l(3), of w] len(3) in \<open>simp add: cb'_def nth_append\<close>)
  moreover have "batchShots cb = map (\<lambda>i. length (concat (take (Suc i) (segs @ [seg @ [w]])))) [0..<length segs]"
    using r by (auto intro!: map_cong)
  ultimately show ?thesis
    using run r c1(3,5) same len by (intro exI [of _ cb']) (simp add: represents_def cb'_def)
qed

lemma represents_Append:
  assumes "represents (segs @ [seg]) cb"
  shows "\<exists>cb'. cb_Append ws cb = Inr cb' \<and> represents (segs @ [seg @ map normal ws]) cb'"
  using assms
proof (induction ws arbitrary: seg cb)
  case (Cons w ws)
  have "(case writeType w of Put \<Rightarrow> cb_put (namespace w) (wkey w) (wvalue w) (errorMessage w) cb
      | Delete \<Rightarrow> cb_delete (namespace w) (wkey w) (errorMessage w) cb) = cb_write (normal w) cb"
    by (cases w) (simp add: normal_def cb_put_write cb_delete_write split: WriteType.splits)
  then show ?case
    using represents_write [OF Cons.prems, of "normal w"] Cons.IH [of "seg @ [normal w]"] by auto
qed (simp add: normal_def)

section \<open>Reading\<close>

lemma readTags_prefix:
  assumes "length cs = length segs" "\<And>i. i < length segs \<Longrightarrow> cached (cs ! i) = lastWrite (segs ! i)" "n \<le> length segs"
  shows "readTags h cs (rev (filter (\<lambda>i. h \<in> keyOf ` set (segs ! i)) [0..<n])) = answer (lastWrite (concat (take n segs)) h)"
  using assms(3)
proof (induction n)
  case (Suc n)
  have t: "concat (take (Suc n) segs) = concat (take n segs) @ segs ! n" using Suc.prems by (simp add: take_Suc_conv_app_nth)
  show ?case
  proof (cases "lastWrite (segs ! n) h")
    case None
    then have "h \<notin> keyOf ` set (segs ! n)" by (simp add: lastWrite_None)
    with Suc None t show ?thesis by (simp add: lastWrite_append)
  next
    case (Some e)
    then have "h \<in> keyOf ` set (segs ! n)" by (metis lastWrite_None option.distinct(1))
    with Suc.prems assms(1,2) Some t show ?thesis
      by (cases e) (simp_all add: lastWrite_append cache_Read_cached answer_def)
  qed
qed (simp add: answer_def)

lemma represents_Get:
  assumes "represents segs cb"
  shows "cb_Get ns k cb = answer (lastWrite (concat segs) (ns, k))"
proof -
  have "tags_ok segs (keyTags cb)" using assms by (simp add: represents_def)
  note tags = tags_okD [OF this, of "(ns, k)"]
  show ?thesis
  proof (cases "tagsOf segs (ns, k) = []")
    case True
    then have "lastWrite (concat segs) (ns, k) = None" by (simp add: tagsOf_Nil_iff lastWrite_None)
    with tags True show ?thesis by (simp add: cb_Get_def answer_def)
  next
    case False
    then show ?thesis
      using tags readTags_prefix [of "caches cb" segs "length segs" "(ns, k)"] assms
      by (simp add: cb_Get_def represents_def tagsOf_def)
  qed
qed

section \<open>Snapshots\<close>

lemma represents_Snapshot:
  assumes "represents segs cb"
  shows "fst (cb_Snapshot cb) = length segs - 1 \<and> represents (segs @ [[]]) (snd (cb_Snapshot cb))"
proof -
  note r = assms[unfolded represents_def]
  have "batchShots cb @ [length (writeQueue cb)] =
      map (\<lambda>i. length (concat (take (Suc i) (segs @ [[]])))) [0..<length (segs @ [[]]) - 1]"
  proof -
    obtain n where n: "length segs = Suc n" using r by (cases segs) auto
    then have "map (\<lambda>i. length (concat (take (Suc i) (segs @ [[]])))) [0..<length segs] =
        map (\<lambda>i. length (concat (take (Suc i) segs))) [0..<n] @ [length (concat segs)]"
      by (auto intro!: map_cong)
    with r n show ?thesis by simp
  qed
  moreover have "tags_ok (segs @ [[]]) (keyTags cb)"
    using r by (simp add: tags_ok_def tagsOf_snoc)
  moreover have "cached ((caches cb @ [NewKVCache]) ! i) = lastWrite ((segs @ [[]]) ! i)" if "i < Suc (length segs)" for i
    using r that by (cases "i = length segs") (auto simp: nth_append fun_eq_iff)
  moreover have "distinct ((tagKeys cb @ [[]]) ! i) \<and> set ((tagKeys cb @ [[]]) ! i) = keyOf ` set ((segs @ [[]]) ! i)"
    if "i < Suc (length segs)" for i
    using r that by (cases "i = length segs") (auto simp: nth_append)
  ultimately show ?thesis
    using r by (simp add: represents_def cb_Snapshot_def)
qed

lemma popTags_ok:
  assumes "distinct (map fst kts)" "\<And>h. map_of kts h = (if T h = [] then None else Some (T h))"
    "\<And>h. count_list ks h \<le> length (T h)"
  shows "\<exists>kts'. popTags ks kts = Inr kts' \<and> distinct (map fst kts') \<and>
    (\<forall>h. map_of kts' h = (let ts = take (length (T h) - count_list ks h) (T h) in if ts = [] then None else Some ts))"
  using assms
proof (induction ks arbitrary: kts T)
  case (Cons key ks)
  have ne: "T key \<noteq> []" using Cons.prems(3) [of key] by auto
  let ?T = "T(key := butlast (T key))"
  obtain kts1 where pop: "popTag key kts = Inr kts1" "distinct (map fst kts1)"
    "\<And>h. map_of kts1 h = (if ?T h = [] then None else Some (?T h))"
  proof (cases "butlast (T key) = []")
    case True
    show ?thesis
      by (rule that [of "AList.delete key kts"])
        (use Cons.prems(1,2) ne True in \<open>auto simp: popTag_def delete_conv' intro: distinct_delete\<close>)
  next
    case False
    show ?thesis
      by (rule that [of "AList.update key (butlast (T key)) kts"])
        (use Cons.prems(1,2) ne False in \<open>auto simp: popTag_def update_conv' intro: distinct_update\<close>)
  qed
  have "count_list ks h \<le> length (?T h)" for h using Cons.prems(3) [of h] by (auto split: if_splits)
  note IH = Cons.IH [OF pop(2,3) this]
  moreover have "take (length (?T h) - count_list ks h) (?T h) = take (length (T h) - count_list (key # ks) h) (T h)" for h
    using ne by (simp add: butlast_conv_take)
  ultimately show ?case using pop(1) unfolding popTags_def by (simp only: fold_simps bindR_simps comp_apply)
qed (auto simp: popTags_def Let_def)

lemma count_list_distinct: "distinct xs \<Longrightarrow> count_list xs h = (if h \<in> set xs then 1 else 0)"
  by (induction xs) auto

lemma count_list_concat: "count_list (concat xss) h = sum_list (map (\<lambda>xs. count_list xs h) xss)"
  by (induction xss) auto

lemma sum_list_filter: "(\<Sum>i \<leftarrow> xs. if P i then 1 else 0) = length (filter P xs)"
  by (induction xs) auto

lemma map_of_const: "map_of (map (\<lambda>(k, _). (k, c)) kvs) h = (if h \<in> set (map fst kvs) then Some c else None)"
  by (induction kvs) (auto simp: image_iff)

lemma tagKeys_count:
  assumes "length tks = length segs" "\<And>i. i < length segs \<Longrightarrow> distinct (tks ! i) \<and> set (tks ! i) = keyOf ` set (segs ! i)"
  shows "count_list (concat (drop t tks)) h = length (filter (\<lambda>i. h \<in> keyOf ` set (segs ! i)) [t..<length segs])"
proof -
  have "count_list (concat (drop t tks)) h = (\<Sum>i \<leftarrow> [t..<length segs]. count_list (tks ! i) h)"
  proof -
    have "drop t tks = map (\<lambda>i. tks ! i) [t..<length segs]"
      using assms(1) by (intro nth_equalityI) auto
    then show ?thesis by (simp only: count_list_concat list.map_comp comp_def)
  qed
  also have "\<dots> = (\<Sum>i \<leftarrow> [t..<length segs]. if h \<in> keyOf ` set (segs ! i) then 1 else 0)"
    using assms(2) by (intro arg_cong [where f = sum_list] map_cong) (simp_all add: count_list_distinct)
  also have "\<dots> = length (filter (\<lambda>i. h \<in> keyOf ` set (segs ! i)) [t..<length segs])"
    by (rule sum_list_filter)
  finally show ?thesis .
qed

lemma represents_Revert:
  assumes "represents segs cb" "s < length segs - 1"
  shows "\<exists>cb'. RevertSnapshot (int s) cb = Inr cb' \<and> represents (take (Suc s) segs @ [[]]) cb'"
proof -
  note r = assms(1)[unfolded represents_def]
  let ?t = "Suc s" and ?P = "\<lambda>h i. h \<in> keyOf ` set (segs ! i)" and ?segs = "take (Suc s) segs @ [[]]"
  have cnt: "count_list (concat (drop ?t (tagKeys cb))) h = length (filter (?P h) [?t..<length segs])" for h
    using r by (intro tagKeys_count) auto
  have split: "tagsOf segs h = filter (?P h) [0..<?t] @ filter (?P h) [?t..<length segs]" for h
  proof -
    have "[0..<length segs] = [0..<?t] @ [?t..<length segs]"
    proof -
      obtain k where "length segs = ?t + k"
        using le_Suc_ex [of ?t "length segs"] assms(2) by fastforce
      then show ?thesis using upt_add_eq_append [of 0 ?t k] by (simp only: le0)
    qed
    then show ?thesis by (metis filter_append tagsOf_def)
  qed
  have "tagsOf ?segs h = filter (?P h) [0..<?t]" for h
    using assms(2) by (auto simp: tagsOf_def nth_append intro: filter_cong)
  then have "take (length (tagsOf segs h) - count_list (concat (drop ?t (tagKeys cb))) h) (tagsOf segs h) = tagsOf ?segs h" for h
    by (simp add: split cnt)
  then obtain kts where kts: "popTags (concat (drop ?t (tagKeys cb))) (keyTags cb) = Inr kts" "tags_ok ?segs kts"
    using popTags_ok [of "keyTags cb" "tagsOf segs" "concat (drop ?t (tagKeys cb))"] r cnt split
    by (auto simp: tags_ok_def Let_def)
  have shot: "batchShots cb ! s = length (concat (take ?t segs))" using r assms(2) by simp
  have "concat segs = concat (take ?t segs) @ concat (drop ?t segs)" by (metis append_take_drop_id concat_append)
  then have q: "truncateQueue (batchShots cb ! s) (writeQueue cb) = Inr (concat (take ?t segs))"
    using r shot by (simp add: truncateQueue_def)
  define cb' where "cb' = cb\<lparr>tag := ?t, batchShots := take ?t (batchShots cb), writeQueue := concat (take ?t segs),
    caches := take ?t (caches cb) @ [NewKVCache], keyTags := kts, tagKeys := take ?t (tagKeys cb) @ [[]]\<rparr>"
  have run: "RevertSnapshot (int s) cb = Inr cb'"
    using r assms(2) q kts(1) by (simp add: RevertSnapshot_def cb'_def)
  have "cached ((take ?t (caches cb) @ [NewKVCache]) ! i) = lastWrite (?segs ! i)" if "i < Suc ?t" for i
    using r that assms(2) by (cases "i = ?t") (auto simp: nth_append fun_eq_iff)
  moreover have "distinct ((take ?t (tagKeys cb) @ [[]]) ! i) \<and> set ((take ?t (tagKeys cb) @ [[]]) ! i) = keyOf ` set (?segs ! i)"
    if "i < Suc ?t" for i
    using r that assms(2) by (cases "i = ?t") (auto simp: nth_append)
  moreover have "take ?t (batchShots cb) = map (\<lambda>i. length (concat (take (Suc i) ?segs))) [0..<?t]"
    using r assms(2) by (auto simp: take_map min_def take_upt intro!: map_cong)
  ultimately show ?thesis
    using run r kts(2) assms(2) by (intro exI [of _ cb']) (simp add: represents_def cb'_def)
qed

lemma cached_Append:
  assumes "length cs = length segs" "\<And>i. i < length segs \<Longrightarrow> cached (cs ! i) = lastWrite (segs ! i)" "cached c = lastWrite seg"
  shows "cached (cache_Append cs c) = lastWrite (seg @ concat segs)"
  using assms
proof (induction cs arbitrary: segs c seg)
  case (Cons cc cs)
  from Cons.prems(1) obtain sg sgs where segs: "segs = sg # sgs" by (cases segs) auto
  have "cached (mergeNs c cc) = lastWrite (seg @ sg)"
    using Cons.prems(2) [of 0] Cons.prems(3) segs by (intro ext) (simp add: cached_merge lastWrite_append split: option.split)
  moreover have "cached (cs ! i) = lastWrite (sgs ! i)" if "i < length sgs" for i
    using Cons.prems(2) [of "Suc i"] that segs by simp
  ultimately show ?case
    using Cons.IH [of sgs "mergeNs c cc" "seg @ sg"] Cons.prems(1) segs by (simp add: cache_Append_def)
qed (simp add: cache_Append_def)

definition spec_reset :: "WriteInfo list list \<Rightarrow> WriteInfo list list" where
  "spec_reset segs = (if length segs - 1 \<le> resetSnapshotIgnoreThreshold then segs else [concat segs])"

lemma represents_Reset:
  assumes "represents segs cb"
  shows "represents (spec_reset segs) (ResetSnapshots cb)"
proof (cases "tag cb \<le> resetSnapshotIgnoreThreshold")
  case True
  with assms show ?thesis by (simp add: ResetSnapshots_def spec_reset_def represents_def)
next
  case False
  note r = assms[unfolded represents_def]
  have big: "1 < length segs" using r False by (simp add: resetSnapshotIgnoreThreshold_def)
  then obtain s0 s1 ss where segs: "segs = s0 # s1 # ss" by (cases segs; cases "tl segs") auto
  then obtain c0 c1 cs where cs: "caches cb = c0 # c1 # cs" using r by (cases "caches cb"; cases "tl (caches cb)") auto
  have "cached ((c1 # cs) ! i) = lastWrite ((s1 # ss) ! i)" if "i < length (s1 # ss)" for i
    using r segs cs that by (metis Suc_less_eq length_Cons nth_Cons_Suc)
  moreover have "cached c0 = lastWrite s0" using r segs cs by (metis length_greater_0_conv list.discI nth_Cons_0)
  ultimately have merged: "cached (cache_Append (c1 # cs) c0) = lastWrite (concat segs)"
    using cached_Append [of "c1 # cs" "s1 # ss" c0 s0] r segs cs by simp
  have tk: "tags_ok segs (keyTags cb)" using r by blast
  have keys: "set (map fst (keyTags cb)) = keyOf ` set (concat segs)"
  proof (rule set_eqI)
    fix h show "h \<in> set (map fst (keyTags cb)) \<longleftrightarrow> h \<in> keyOf ` set (concat segs)"
      using tags_okD [OF tk, of h] tagsOf_Nil_iff [of segs h] map_of_eq_None_iff [of "keyTags cb" h]
      by (simp split: if_splits)
  qed
  have "tags_ok [concat segs] (map (\<lambda>(k, _). (k, [0])) (keyTags cb))"
    using r keys unfolding tags_ok_def map_of_const by (simp add: tagsOf_def comp_def case_prod_beta)
  then show ?thesis
    using False r merged keys cs by (auto simp: represents_def ResetSnapshots_def spec_reset_def tags_ok_def)
qed

end
