(* ===== verification/BufferedStore.thy ===== *)
theory BufferedStore
  imports Batch
begin

text \<open>
  A key-value store behind a write buffer (\<^verbatim>\<open>db/kvstorewithbuffer.go\<close>) on top of BoltDB
  (\<^verbatim>\<open>db/db_bolt.go\<close>): the store in which the state of a block is built, reverted and finally flushed.

  The bolt package is an argument: the operations a transaction calls, and for every attempt whether its
  commit reaches the disk.  \<open>bolt_laws\<close> states what its documentation promises.

  The abstract store is a map with a stack of copies of it, one per snapshot.  The interface \<open>write_buffer\<close>
  lists what the buffered store relies on in a batch; the cached batch of \<open>Batch\<close> provides it.
\<close>

section \<open>BoltDB (db\_bolt.go)\<close>

record 'tx bolt_api =
  btHas :: "string \<Rightarrow> 'tx \<Rightarrow> bool"
  btCreate :: "string \<Rightarrow> 'tx \<Rightarrow> 'tx res"
  btPut :: "string \<Rightarrow> byte list \<Rightarrow> byte list \<Rightarrow> 'tx \<Rightarrow> 'tx res"
  btDelete :: "string \<Rightarrow> byte list \<Rightarrow> 'tx \<Rightarrow> 'tx res"
  btGet :: "string \<Rightarrow> byte list \<Rightarrow> 'tx \<Rightarrow> byte list option"

record 'tx BoltDB =
  boltReady :: bool
  boltRetries :: nat
  boltData :: 'tx

definition ErrIO :: go_error where "ErrIO = Errorf ''DB I/O operation error''"
definition ErrDBNotStarted :: go_error where "ErrDBNotStarted = Errorf ''db has not started''"

text \<open>A transaction is tried again until its commit succeeds; a failed one leaves the data alone.\<close>

fun bolt_update :: "(nat \<Rightarrow> bool) \<Rightarrow> ('tx \<Rightarrow> 'tx res) \<Rightarrow> nat \<Rightarrow> nat \<Rightarrow> unit res \<Rightarrow> 'tx \<Rightarrow> unit res \<times> 'tx" where
  "bolt_update commits f c 0 err d = (err, d)"
| "bolt_update commits f c (Suc n) err d =
     (case f d of
        Inr d' \<Rightarrow> if commits c then (Inr (), d') else bolt_update commits f (Suc c) n (Inl ErrIO) d
      | Inl _ \<Rightarrow> bolt_update commits f (Suc c) n (Inl ErrIO) d)"

definition inBolt :: "(nat \<Rightarrow> bool) \<Rightarrow> ('tx \<Rightarrow> 'tx res) \<Rightarrow> ('tx BoltDB, unit) op" where
  "inBolt commits f db =
     (if \<not> boltReady db then (Inl ErrDBNotStarted, db)
      else case bolt_update commits f 0 (boltRetries db) (Inr ()) (boltData db) of
        (r, d) \<Rightarrow> (r, db\<lparr>boltData := d\<rparr>))"

definition bolt_Put :: "'tx bolt_api \<Rightarrow> (nat \<Rightarrow> bool) \<Rightarrow> string \<Rightarrow> byte list \<Rightarrow> byte list \<Rightarrow> ('tx BoltDB, unit) op" where
  "bolt_Put api commits ns k v =
     inBolt commits (\<lambda>tx. bindR (btCreate api ns tx) (btPut api ns k v))"

definition bolt_Get :: "'tx bolt_api \<Rightarrow> string \<Rightarrow> byte list \<Rightarrow> 'tx BoltDB \<Rightarrow> byte list res" where
  "bolt_Get api ns k db =
     (if \<not> boltReady db then Inl ErrDBNotStarted
      else if \<not> btHas api ns (boltData db) then Inl ErrNotExist
      else (case btGet api ns k (boltData db) of None \<Rightarrow> Inl ErrNotExist | Some v \<Rightarrow> Inr v))"

text \<open>Only the last write of each key is kept, in the order of the batch.\<close>

fun uniqFrom :: "kvCacheKey list \<Rightarrow> WriteInfo list \<Rightarrow> WriteInfo list" where
  "uniqFrom seen [] = []"
| "uniqFrom seen (w # ws) =
     (if keyOf w \<in> set seen then uniqFrom seen ws else w # uniqFrom (keyOf w # seen) ws)"

definition uniqEntries :: "WriteInfo list \<Rightarrow> WriteInfo list" where
  "uniqEntries ws = uniqFrom [] (rev ws)"

definition bolt_applyOne :: "'tx bolt_api \<Rightarrow> WriteInfo \<Rightarrow> 'tx \<Rightarrow> 'tx res" where
  "bolt_applyOne api w tx =
     (case writeType w of
        Put \<Rightarrow> bindR (btCreate api (namespace w) tx) (btPut api (namespace w) (wkey w) (wvalue w))
      | Delete \<Rightarrow> if btHas api (namespace w) tx then btDelete api (namespace w) (wkey w) tx else Inr tx)"

fun bolt_applyAll :: "'tx bolt_api \<Rightarrow> WriteInfo list \<Rightarrow> 'tx \<Rightarrow> 'tx res" where
  "bolt_applyAll api [] tx = Inr tx"
| "bolt_applyAll api (w # ws) tx = bindR (bolt_applyOne api w tx) (bolt_applyAll api ws)"

text \<open>
  All retries failing is \<open>ErrIO\<close>.  If the disk is full the node stops there instead (\<^verbatim>\<open>log.Fatal\<close>), with the
  same data on the disk.
\<close>

definition bolt_WriteBatch :: "'tx bolt_api \<Rightarrow> (nat \<Rightarrow> bool) \<Rightarrow> WriteInfo list \<Rightarrow> ('tx BoltDB, unit) op" where
  "bolt_WriteBatch api commits ws = inBolt commits (bolt_applyAll api (rev (uniqEntries ws)))"

definition bolt_laws :: "'tx bolt_api \<Rightarrow> bool" where
  "bolt_laws api \<longleftrightarrow>
     (\<forall>ns tx k. \<not> btHas api ns tx \<longrightarrow> btGet api ns k tx = None) \<and>
     (\<forall>ns tx tx' n k. btCreate api ns tx = Inr tx' \<longrightarrow> btGet api n k tx' = btGet api n k tx) \<and>
     (\<forall>ns k v tx tx' n k'. btPut api ns k v tx = Inr tx' \<longrightarrow>
        btGet api n k' tx' = (if (n, k') = (ns, k) then Some v else btGet api n k' tx)) \<and>
     (\<forall>ns k tx tx' n k'. btDelete api ns k tx = Inr tx' \<longrightarrow>
        btGet api n k' tx' = (if (n, k') = (ns, k) then None else btGet api n k' tx))"

section \<open>The buffered store (kvstorewithbuffer.go)\<close>

record 'tx kvStoreWithBuffer =
  kvbStore :: "'tx BoltDB"
  kvbBuffer :: cachedBatch

definition onBuffer :: "(cachedBatch \<Rightarrow> cachedBatch res) \<Rightarrow> ('tx kvStoreWithBuffer, unit) op" where
  "onBuffer f kvb = (case f (kvbBuffer kvb) of Inr b \<Rightarrow> (Inr (), kvb\<lparr>kvbBuffer := b\<rparr>) | Inl e \<Rightarrow> (Inl e, kvb))"

text \<open>The error messages only name the key and the namespace.\<close>

definition kvb_Put :: "string \<Rightarrow> byte list \<Rightarrow> byte list \<Rightarrow> ('tx kvStoreWithBuffer, unit) op" where
  "kvb_Put ns k v = onBuffer (cb_put ns k v ''failed to put'')"

definition kvb_Delete :: "string \<Rightarrow> byte list \<Rightarrow> ('tx kvStoreWithBuffer, unit) op" where
  "kvb_Delete ns k = onBuffer (cb_delete ns k ''failed to delete'')"

definition kvb_WriteBatch :: "WriteInfo list \<Rightarrow> ('tx kvStoreWithBuffer, unit) op" where
  "kvb_WriteBatch ws = onBuffer (cb_Append ws)"

definition kvb_Snapshot :: "('tx kvStoreWithBuffer, nat) op" where
  "kvb_Snapshot kvb = (case cb_Snapshot (kvbBuffer kvb) of (s, b) \<Rightarrow> (Inr s, kvb\<lparr>kvbBuffer := b\<rparr>))"

definition kvb_RevertSnapshot :: "int \<Rightarrow> ('tx kvStoreWithBuffer, unit) op" where
  "kvb_RevertSnapshot sid = onBuffer (RevertSnapshot sid)"

definition kvb_ResetSnapshots :: "('tx kvStoreWithBuffer, unit) op" where
  "kvb_ResetSnapshots kvb = (Inr (), kvb\<lparr>kvbBuffer := ResetSnapshots (kvbBuffer kvb)\<rparr>)"

definition kvb_Get :: "'tx bolt_api \<Rightarrow> string \<Rightarrow> byte list \<Rightarrow> 'tx kvStoreWithBuffer \<Rightarrow> byte list res" where
  "kvb_Get api ns k kvb =
     (let r = cb_Get ns k (kvbBuffer kvb);
          r' = (if r = Inl ErrNotExist then bolt_Get api ns k (kvbStore kvb) else r) in
      if r' = Inl ErrAlreadyDeleted then Inl ErrNotExist else r')"

text \<open>
  Filter lays the buffered writes over what the store returned, in their order; \<open>bytes_less\<close> is the order of
  \<^verbatim>\<open>bytes.Compare\<close>.
\<close>

fun bytes_less :: "byte list \<Rightarrow> byte list \<Rightarrow> bool" where
  "bytes_less [] [] = False"
| "bytes_less [] (_ # _) = True"
| "bytes_less (_ # _) [] = False"
| "bytes_less (x # xs) (y # ys) = (x < y \<or> (x = y \<and> bytes_less xs ys))"

fun dropFirst :: "byte list \<Rightarrow> (byte list \<times> byte list) list \<Rightarrow> (byte list \<times> byte list) list" where
  "dropFirst k [] = []"
| "dropFirst k (kv # kvs) = (if fst kv = k then kvs else kv # dropFirst k kvs)"

definition filterOne ::
  "string \<Rightarrow> (byte list \<Rightarrow> byte list \<Rightarrow> bool) \<Rightarrow> byte list \<Rightarrow> byte list \<Rightarrow> WriteInfo \<Rightarrow>
   (byte list \<times> byte list) list \<Rightarrow> (byte list \<times> byte list) list" where
  "filterOne ns cond minKey maxKey w kvs =
     (if namespace w \<noteq> ns then kvs
      else if minKey \<noteq> [] \<and> bytes_less (wkey w) minKey then kvs
      else if maxKey \<noteq> [] \<and> bytes_less maxKey (wkey w) then kvs
      else if cond (wkey w) (wvalue w) then
        (case writeType w of
           Put \<Rightarrow> dropFirst (wkey w) kvs @ [(wkey w, wvalue w)]
         | Delete \<Rightarrow> dropFirst (wkey w) kvs)
      else kvs)"

definition kvb_Filter ::
  "((byte list \<times> byte list) list res) \<Rightarrow> string \<Rightarrow> (byte list \<Rightarrow> byte list \<Rightarrow> bool) \<Rightarrow> byte list \<Rightarrow> byte list \<Rightarrow>
   'tx kvStoreWithBuffer \<Rightarrow> (byte list \<times> byte list) list res" where
  "kvb_Filter stored ns cond minKey maxKey kvb =
     bindR stored (\<lambda>kvs. Inr (fold (filterOne ns cond minKey maxKey) (writeQueue (kvbBuffer kvb)) kvs))"

definition Flush ::
  "'tx bolt_api \<Rightarrow> (nat \<Rightarrow> bool) \<Rightarrow> (WriteInfo \<Rightarrow> WriteInfo option) option \<Rightarrow> ('tx kvStoreWithBuffer, unit) op" where
  "Flush api commits wit kvb =
     (case bolt_WriteBatch api commits (base_Translate wit (writeQueue (kvbBuffer kvb))) (kvbStore kvb) of
        (Inl e, s) \<Rightarrow> (Inl e, kvb\<lparr>kvbStore := s\<rparr>)
      | (Inr _, s) \<Rightarrow> (Inr (), kvb\<lparr>kvbStore := s, kvbBuffer := cb_clear (kvbBuffer kvb)\<rparr>))"

definition flusher_SerializeQueue ::
  "(WriteInfo \<Rightarrow> byte list) \<Rightarrow> (WriteInfo \<Rightarrow> bool) option \<Rightarrow> 'tx kvStoreWithBuffer \<Rightarrow> byte list" where
  "flusher_SerializeQueue serialize skip kvb = base_SerializeQueue serialize skip (writeQueue (kvbBuffer kvb))"

section \<open>The flusher of the state database (statedb.go)\<close>

text \<open>
  \<^verbatim>\<open>flusherOptions\<close>: which writes the state database hashes and which it flushes.  The view of the staking
  protocol is never written; the state of the staking contracts only when \<open>storeContractStaking\<close> says so.
\<close>

definition StakingViewNamespace :: string where "StakingViewNamespace = ''StakingView''"
definition StakingContractMetaNamespace :: string where "StakingContractMetaNamespace = ''staking_contract_meta''"
definition CodeKVNameSpace :: string where "CodeKVNameSpace = ''Code''"
definition CandsMapNamespace :: string where "CandsMapNamespace = ''CandsMap''"

definition contractStakingPrefixes :: "string list" where
  "contractStakingPrefixes = [''cs_bucket_'', ''cs_bucket_type_'']"

definition HasPrefix :: "string \<Rightarrow> string \<Rightarrow> bool" where
  "HasPrefix s p \<longleftrightarrow> take (length p) s = p"

definition flushFiltered :: "bool \<Rightarrow> string \<Rightarrow> bool" where
  "flushFiltered storeContractStaking ns \<longleftrightarrow>
     ns \<in> set (StakingViewNamespace # (if \<not> storeContractStaking then [StakingContractMetaNamespace] else [])) \<or>
     list_ex (HasPrefix ns) (if \<not> storeContractStaking then contractStakingPrefixes else [])"

definition flushTranslate :: "bool \<Rightarrow> WriteInfo \<Rightarrow> WriteInfo option" where
  "flushTranslate storeContractStaking wi = (if flushFiltered storeContractStaking (namespace wi) then None else Some wi)"

definition serializeFilter :: "bool \<Rightarrow> bool \<Rightarrow> WriteInfo \<Rightarrow> bool" where
  "serializeFilter preEaster storeContractStaking wi \<longleftrightarrow>
     namespace wi \<in> set (StakingViewNamespace # (if preEaster then [CodeKVNameSpace, CandsMapNamespace] else []) @
       (if \<not> storeContractStaking then [StakingContractMetaNamespace] else [])) \<or>
     list_ex (HasPrefix (namespace wi)) (if \<not> storeContractStaking then contractStakingPrefixes else [])"

definition stateSerialize :: "(string \<Rightarrow> byte list) \<Rightarrow> bool \<Rightarrow> WriteInfo \<Rightarrow> byte list" where
  "stateSerialize bytesOf preEaster wi =
     (if preEaster then SerializeWithoutWriteType bytesOf wi else SerializeInfo bytesOf wi)"

section \<open>The abstract store\<close>

type_synonym kv_map = "kvCacheKey \<rightharpoonup> byte list"

record snapshot_store =
  cur :: kv_map
  shots :: "kv_map list"

definition spec_write :: "WriteInfo \<Rightarrow> snapshot_store \<Rightarrow> snapshot_store" where
  "spec_write w s = s\<lparr>cur := (cur s)(keyOf w := effect w)\<rparr>"

definition spec_snapshot :: "snapshot_store \<Rightarrow> nat \<times> snapshot_store" where
  "spec_snapshot s = (length (shots s), s\<lparr>shots := shots s @ [cur s]\<rparr>)"

definition spec_revert :: "int \<Rightarrow> snapshot_store \<Rightarrow> snapshot_store res" where
  "spec_revert sid s =
     (if sid < 0 \<or> int (length (shots s)) \<le> sid then Inl ErrOutOfBound
      else Inr (s\<lparr>cur := shots s ! nat sid, shots := take (Suc (nat sid)) (shots s)\<rparr>))"

definition spec_forget :: "snapshot_store \<Rightarrow> snapshot_store" where
  "spec_forget s = (if length (shots s) \<le> resetSnapshotIgnoreThreshold then s else s\<lparr>shots := []\<rparr>)"

text \<open>What the segments of a batch make of the store below.\<close>

definition views :: "kv_map \<Rightarrow> WriteInfo list list \<Rightarrow> snapshot_store" where
  "views base segs = \<lparr>cur = applyWrites (concat segs) base,
     shots = map (\<lambda>i. applyWrites (concat (take (Suc i) segs)) base) [0..<length segs - 1]\<rparr>"

lemma views_write: "views base (segs @ [seg @ [w]]) = spec_write w (views base (segs @ [seg]))"
  by (auto simp: views_def spec_write_def applyWrites_def)

lemma views_snapshot: "segs \<noteq> [] \<Longrightarrow> views base (segs @ [[]]) = snd (spec_snapshot (views base segs))"
proof -
  assume "segs \<noteq> []"
  then obtain n where n: "length segs = Suc n" by (cases segs) auto
  then show ?thesis by (auto simp: views_def spec_snapshot_def)
qed

lemma views_revert:
  assumes "s < length segs - 1"
  shows "spec_revert (int s) (views base segs) = Inr (views base (take (Suc s) segs @ [[]]))"
proof -
  have "take (Suc s) (map (\<lambda>i. applyWrites (concat (take (Suc i) segs)) base) [0..<length segs - 1]) =
      map (\<lambda>i. applyWrites (concat (take (Suc i) (take (Suc s) segs @ [[]]))) base) [0..<Suc s]"
    using assms by (auto simp: take_map min_def take_upt simp del: upt_Suc intro!: map_cong)
  with assms show ?thesis by (simp add: views_def spec_revert_def)
qed

lemma views_reset: "views base (spec_reset segs) = spec_forget (views base segs)"
  by (simp add: views_def spec_reset_def spec_forget_def)

section \<open>What the store relies on in its buffer\<close>

locale write_buffer =
  fixes rep :: "WriteInfo list list \<Rightarrow> 'b \<Rightarrow> bool"
    and bwrite :: "WriteInfo \<Rightarrow> 'b \<Rightarrow> 'b res"
    and bsnapshot :: "'b \<Rightarrow> nat \<times> 'b"
    and brevert :: "int \<Rightarrow> 'b \<Rightarrow> 'b res"
    and breset :: "'b \<Rightarrow> 'b"
    and bget :: "string \<Rightarrow> byte list \<Rightarrow> 'b \<Rightarrow> byte list res"
  assumes rep_ne: "rep segs b \<Longrightarrow> segs \<noteq> []"
    and rep_write: "rep (segs @ [seg]) b \<Longrightarrow> \<exists>b'. bwrite w b = Inr b' \<and> rep (segs @ [seg @ [w]]) b'"
    and rep_snapshot: "rep segs b \<Longrightarrow> fst (bsnapshot b) = length segs - 1 \<and> rep (segs @ [[]]) (snd (bsnapshot b))"
    and rep_revert: "rep segs b \<Longrightarrow> s < length segs - 1 \<Longrightarrow>
      \<exists>b'. brevert (int s) b = Inr b' \<and> rep (take (Suc s) segs @ [[]]) b'"
    and rep_no_revert: "rep segs b \<Longrightarrow> sid < 0 \<or> int (length segs - 1) \<le> sid \<Longrightarrow> brevert sid b = Inl ErrOutOfBound"
    and rep_reset: "rep segs b \<Longrightarrow> rep (spec_reset segs) (breset b)"
    and rep_get: "rep segs b \<Longrightarrow> bget ns k b = answer (lastWrite (concat segs) (ns, k))"
begin

text \<open>The buffer over a store holds an abstract store.\<close>

definition holds :: "kv_map \<Rightarrow> snapshot_store \<Rightarrow> 'b \<Rightarrow> bool" where
  "holds base s b \<longleftrightarrow> (\<exists>segs. rep segs b \<and> s = views base segs)"

lemma holds_write:
  assumes "holds base s b"
  shows "\<exists>b'. bwrite w b = Inr b' \<and> holds base (spec_write w s) b'"
proof -
  obtain segs where segs: "rep segs b" "s = views base segs" using assms by (auto simp: holds_def)
  obtain ss seg where "segs = ss @ [seg]" using rep_ne [OF segs(1)] by (cases segs rule: rev_cases) auto
  with segs rep_write [of ss seg b w] show ?thesis by (auto simp: holds_def simp flip: views_write)
qed

lemma holds_snapshot:
  assumes "holds base s b"
  shows "fst (bsnapshot b) = fst (spec_snapshot s) \<and> holds base (snd (spec_snapshot s)) (snd (bsnapshot b))"
proof -
  obtain segs where segs: "rep segs b" "s = views base segs" using assms by (auto simp: holds_def)
  with rep_snapshot [OF segs(1)] views_snapshot [OF rep_ne [OF segs(1)], of base] show ?thesis
    by (auto simp: holds_def spec_snapshot_def views_def)
qed

lemma holds_revert:
  assumes "holds base s b"
  shows "case spec_revert sid s of Inl e \<Rightarrow> brevert sid b = Inl e
    | Inr s' \<Rightarrow> \<exists>b'. brevert sid b = Inr b' \<and> holds base s' b'"
proof -
  obtain segs where segs: "rep segs b" "s = views base segs" using assms by (auto simp: holds_def)
  show ?thesis
  proof (cases "sid < 0 \<or> int (length segs - 1) \<le> sid")
    case True
    with segs rep_no_revert [OF segs(1) True] show ?thesis by (auto simp: spec_revert_def views_def)
  next
    case False
    then have "nat sid < length segs - 1" "int (nat sid) = sid" by auto
    with segs rep_revert [OF segs(1), of "nat sid"] views_revert [of "nat sid" segs base] show ?thesis
      by (auto simp: holds_def)
  qed
qed

lemma holds_reset: "holds base s b \<Longrightarrow> holds base (spec_forget s) (breset b)"
  unfolding holds_def by (metis rep_reset views_reset)

text \<open>Reading through the buffer, with the store below answering what the buffer does not know.\<close>

lemma holds_get:
  assumes "holds base s b"
  shows "cur s (ns, k) = (if bget ns k b = Inl ErrNotExist then base (ns, k)
    else case bget ns k b of Inr v \<Rightarrow> Some v | Inl _ \<Rightarrow> None)"
    "(\<exists>v. bget ns k b = Inr v) \<or> bget ns k b = Inl ErrNotExist \<or> bget ns k b = Inl ErrAlreadyDeleted"
  using assms by (auto simp: holds_def rep_get views_def answer_def applyWrites_lookup split: option.splits)

end

interpretation cb: write_buffer represents cb_write cb_Snapshot RevertSnapshot ResetSnapshots cb_Get
proof
  fix segs cb and sid :: int
  assume r: "represents segs cb"
  then show "segs \<noteq> []" by (simp add: represents_def)
  assume "sid < 0 \<or> int (length segs - 1) \<le> sid"
  with r show "RevertSnapshot sid cb = Inl ErrOutOfBound" by (auto simp: RevertSnapshot_def represents_def)
qed (simp_all add: represents_write represents_Snapshot represents_Revert represents_Reset represents_Get)

section \<open>Commands\<close>

datatype store_cmd =
    CmdPut string "byte list" "byte list"
  | CmdDelete string "byte list"
  | CmdWriteBatch "WriteInfo list"
  | CmdSnapshot
  | CmdRevert int
  | CmdReset
  | CmdGet string "byte list"

datatype store_reply = Done | Snapshotted nat | Value "byte list" | Failed go_error

definition replyUnit :: "unit res \<Rightarrow> store_reply" where
  "replyUnit r = (case r of Inr _ \<Rightarrow> Done | Inl e \<Rightarrow> Failed e)"

definition replyVal :: "byte list res \<Rightarrow> store_reply" where
  "replyVal r = (case r of Inr v \<Rightarrow> Value v | Inl e \<Rightarrow> Failed e)"

fun kvb_exec :: "'tx bolt_api \<Rightarrow> store_cmd \<Rightarrow> 'tx kvStoreWithBuffer \<Rightarrow> store_reply \<times> 'tx kvStoreWithBuffer" where
  "kvb_exec api (CmdPut ns k v) kvb = apfst replyUnit (kvb_Put ns k v kvb)"
| "kvb_exec api (CmdDelete ns k) kvb = apfst replyUnit (kvb_Delete ns k kvb)"
| "kvb_exec api (CmdWriteBatch ws) kvb = apfst replyUnit (kvb_WriteBatch ws kvb)"
| "kvb_exec api CmdSnapshot kvb =
     apfst (\<lambda>r. case r of Inr n \<Rightarrow> Snapshotted n | Inl e \<Rightarrow> Failed e) (kvb_Snapshot kvb)"
| "kvb_exec api (CmdRevert sid) kvb = apfst replyUnit (kvb_RevertSnapshot sid kvb)"
| "kvb_exec api CmdReset kvb = apfst replyUnit (kvb_ResetSnapshots kvb)"
| "kvb_exec api (CmdGet ns k) kvb = (replyVal (kvb_Get api ns k kvb), kvb)"

fun spec_exec :: "store_cmd \<Rightarrow> snapshot_store \<Rightarrow> store_reply \<times> snapshot_store" where
  "spec_exec (CmdPut ns k v) s = (Done, s\<lparr>cur := (cur s)((ns, k) \<mapsto> v)\<rparr>)"
| "spec_exec (CmdDelete ns k) s = (Done, s\<lparr>cur := (cur s)((ns, k) := None)\<rparr>)"
| "spec_exec (CmdWriteBatch ws) s = (Done, s\<lparr>cur := applyWrites ws (cur s)\<rparr>)"
| "spec_exec CmdSnapshot s = (case spec_snapshot s of (n, s') \<Rightarrow> (Snapshotted n, s'))"
| "spec_exec (CmdRevert sid) s = (case spec_revert sid s of Inl e \<Rightarrow> (Failed e, s) | Inr s' \<Rightarrow> (Done, s'))"
| "spec_exec CmdReset s = (Done, spec_forget s)"
| "spec_exec (CmdGet ns k) s =
     ((case cur s (ns, k) of Some v \<Rightarrow> Value v | None \<Rightarrow> Failed ErrNotExist), s)"

fun run_cmds :: "(store_cmd \<Rightarrow> 's \<Rightarrow> store_reply \<times> 's) \<Rightarrow> store_cmd list \<Rightarrow> 's \<Rightarrow> store_reply list \<times> 's" where
  "run_cmds exec [] s = ([], s)"
| "run_cmds exec (c # cs) s =
     (case exec c s of (r, s1) \<Rightarrow> (case run_cmds exec cs s1 of (rs, s2) \<Rightarrow> (r # rs, s2)))"

definition boltView :: "'tx bolt_api \<Rightarrow> 'tx BoltDB \<Rightarrow> kv_map" where
  "boltView api db = (\<lambda>(ns, k). btGet api ns k (boltData db))"

definition exhibits :: "'tx bolt_api \<Rightarrow> 'tx kvStoreWithBuffer \<Rightarrow> snapshot_store \<Rightarrow> bool" where
  "exhibits api kvb s \<longleftrightarrow> boltReady (kvbStore kvb) \<and> cb.holds (boltView api (kvbStore kvb)) s (kvbBuffer kvb)"

lemma bolt_Get_view:
  assumes "bolt_laws api" "boltReady db"
  shows "bolt_Get api ns k db = (case boltView api db (ns, k) of Some v \<Rightarrow> Inr v | None \<Rightarrow> Inl ErrNotExist)"
  using assms by (auto simp: bolt_Get_def boltView_def bolt_laws_def split: option.splits)

lemma exhibits_Get:
  assumes "bolt_laws api" "exhibits api kvb s"
  shows "kvb_Get api ns k kvb = (case cur s (ns, k) of Some v \<Rightarrow> Inr v | None \<Rightarrow> Inl ErrNotExist)"
proof -
  have h: "cb.holds (boltView api (kvbStore kvb)) s (kvbBuffer kvb)" "boltReady (kvbStore kvb)"
    using assms(2) by (auto simp: exhibits_def)
  show ?thesis
    using cb.holds_get [OF h(1), of ns k] bolt_Get_view [OF assms(1) h(2), of ns k]
    by (auto simp: kvb_Get_def Let_def split: option.splits)
qed

lemma exhibits_write:
  assumes "exhibits api kvb s" "\<And>b. f b = cb_write w b"
  shows "\<exists>kvb'. onBuffer f kvb = (Inr (), kvb') \<and> exhibits api kvb' (spec_write w s)"
  using assms(1) cb.holds_write [of "boltView api (kvbStore kvb)" s "kvbBuffer kvb" w]
  by (auto simp: exhibits_def onBuffer_def assms(2))

lemma cb_Append_Cons: "cb_Append (w # ws) b = bindR (cb_write (normal w) b) (cb_Append ws)"
  by (cases w) (simp add: normal_def cb_put_write cb_delete_write split: WriteType.splits)

lemma effect_normal [simp]: "effect (normal w) = effect w" "keyOf (normal w) = keyOf w"
  by (auto simp: effect_def normal_def keyOf_def split: WriteType.splits)

lemma holds_Append:
  "cb.holds base s b \<Longrightarrow> \<exists>b'. cb_Append ws b = Inr b' \<and> cb.holds base (s\<lparr>cur := applyWrites ws (cur s)\<rparr>) b'"
proof (induction ws arbitrary: s b)
  case (Cons w ws)
  obtain b1 where b1: "cb_write (normal w) b = Inr b1" "cb.holds base (spec_write (normal w) s) b1"
    using cb.holds_write [OF Cons.prems] by blast
  with Cons.IH [OF b1(2)] show ?case
    unfolding cb_Append_Cons by (auto simp: spec_write_def applyWrites_def fun_upd_def)
qed (simp add: applyWrites_def)

lemma exec_refines:
  assumes "bolt_laws api" "exhibits api kvb s"
  shows "fst (kvb_exec api c kvb) = fst (spec_exec c s) \<and> exhibits api (snd (kvb_exec api c kvb)) (snd (spec_exec c s)) \<and>
    kvbStore (snd (kvb_exec api c kvb)) = kvbStore kvb"
proof -
  have h: "cb.holds (boltView api (kvbStore kvb)) s (kvbBuffer kvb)" "boltReady (kvbStore kvb)"
    using assms(2) by (auto simp: exhibits_def)
  show ?thesis
  proof (cases c)
    case (CmdPut ns k v)
    with cb.holds_write [OF h(1), of "\<lparr>writeType = Put, namespace = ns, wkey = k, wvalue = v, errorMessage = ''failed to put''\<rparr>"] h(2)
    show ?thesis
      by (auto simp: kvb_Put_def onBuffer_def cb_put_write replyUnit_def spec_write_def keyOf_def effect_def exhibits_def)
  next
    case (CmdDelete ns k)
    with cb.holds_write [OF h(1), of "\<lparr>writeType = Delete, namespace = ns, wkey = k, wvalue = [], errorMessage = ''failed to delete''\<rparr>"] h(2)
    show ?thesis
      by (auto simp: kvb_Delete_def onBuffer_def cb_delete_write replyUnit_def spec_write_def keyOf_def effect_def exhibits_def)
  next
    case (CmdWriteBatch ws)
    with holds_Append [OF h(1), of ws] h(2) show ?thesis
      by (auto simp: kvb_WriteBatch_def onBuffer_def replyUnit_def exhibits_def)
  next
    case CmdSnapshot
    with cb.holds_snapshot [OF h(1)] h(2) show ?thesis
      by (auto simp: kvb_Snapshot_def exhibits_def split: prod.splits)
  next
    case (CmdRevert sid)
    with cb.holds_revert [OF h(1), of sid] h show ?thesis
      by (auto simp: kvb_RevertSnapshot_def onBuffer_def replyUnit_def exhibits_def split: sum.splits)
  next
    case CmdReset
    with cb.holds_reset [OF h(1)] h(2) show ?thesis
      by (simp add: kvb_ResetSnapshots_def replyUnit_def exhibits_def)
  next
    case (CmdGet ns k)
    with exhibits_Get [OF assms, of ns k] assms(2) show ?thesis
      by (auto simp: replyVal_def split: option.splits)
  qed
qed

lemma run_refines:
  assumes "bolt_laws api" "exhibits api kvb s"
  shows "fst (run_cmds (kvb_exec api) cs kvb) = fst (run_cmds spec_exec cs s) \<and>
    exhibits api (snd (run_cmds (kvb_exec api) cs kvb)) (snd (run_cmds spec_exec cs s)) \<and>
    kvbStore (snd (run_cmds (kvb_exec api) cs kvb)) = kvbStore kvb"
  using assms(2)
proof (induction cs arbitrary: kvb s)
  case (Cons c cs)
  obtain r kvb1 where r: "kvb_exec api c kvb = (r, kvb1)" by fastforce
  obtain r' s1 where s: "spec_exec c s = (r', s1)" by fastforce
  have "r = r'" "exhibits api kvb1 s1" "kvbStore kvb1 = kvbStore kvb"
    using exec_refines [OF assms(1) Cons.prems, of c] r s by auto
  with Cons.IH [of kvb1 s1] r s show ?case by (auto split: prod.splits)
qed simp

lemma exhibits_new:
  "boltReady db \<Longrightarrow> exhibits api \<lparr>kvbStore = db, kvbBuffer = NewCachedBatch\<rparr> \<lparr>cur = boltView api db, shots = []\<rparr>"
  using represents_new by (fastforce simp: exhibits_def cb.holds_def views_def applyWrites_def)

text \<open>
  Property C15.  The buffered store is a map with snapshots.  Whatever commands a block issues, puts, deletes,
  batches, snapshots, reverts to any snapshot number, resets and reads, every reply is the one of a map that
  copies itself at a snapshot and restores the copy at a revert, and nothing is written to the database.
\<close>

theorem buffered_store_refines:
  assumes "bolt_laws api" "boltReady db"
  shows "fst (run_cmds (kvb_exec api) cs \<lparr>kvbStore = db, kvbBuffer = NewCachedBatch\<rparr>) =
      fst (run_cmds spec_exec cs \<lparr>cur = boltView api db, shots = []\<rparr>) \<and>
    kvbStore (snd (run_cmds (kvb_exec api) cs \<lparr>kvbStore = db, kvbBuffer = NewCachedBatch\<rparr>)) = db"
  using run_refines [OF assms(1) exhibits_new [OF assms(2)], of cs] by simp

section \<open>Flushing\<close>

lemma uniqFrom_lastWrite: "lastWrite (rev (uniqFrom seen ws)) h = (if h \<in> set seen then None else lastWrite (rev ws) h)"
  by (induction seen ws rule: uniqFrom.induct) (auto simp: lastWrite_append split: option.splits)

lemma uniqEntries_lastWrite: "lastWrite (rev (uniqEntries ws)) = lastWrite ws"
  by (simp add: fun_eq_iff uniqEntries_def uniqFrom_lastWrite)

lemma uniqEntries_view: "applyWrites (rev (uniqEntries ws)) m = applyWrites ws m"
  by (intro ext) (simp add: applyWrites_lookup uniqEntries_lastWrite)

lemma bolt_law_has: "bolt_laws api \<Longrightarrow> \<not> btHas api ns tx \<Longrightarrow> btGet api ns k tx = None"
  unfolding bolt_laws_def by metis

lemma bolt_law_create: "bolt_laws api \<Longrightarrow> btCreate api ns tx = Inr tx' \<Longrightarrow> btGet api n k' tx' = btGet api n k' tx"
  unfolding bolt_laws_def by metis

lemma bolt_law_put: "bolt_laws api \<Longrightarrow> btPut api ns k v tx = Inr tx' \<Longrightarrow>
     btGet api n k' tx' = (if (n, k') = (ns, k) then Some v else btGet api n k' tx)"
  unfolding bolt_laws_def by (elim conjE) presburger

lemma bolt_law_delete: "bolt_laws api \<Longrightarrow> btDelete api ns k tx = Inr tx' \<Longrightarrow>
     btGet api n k' tx' = (if (n, k') = (ns, k) then None else btGet api n k' tx)"
  unfolding bolt_laws_def by (elim conjE) presburger

lemma bolt_applyOne_view:
  assumes "bolt_laws api" "bolt_applyOne api w tx = Inr tx'"
  shows "(\<lambda>(ns, k). btGet api ns k tx') = (\<lambda>(ns, k). btGet api ns k tx)(keyOf w := effect w)"
proof (cases "writeType w")
  case Put
  then obtain t where t: "btCreate api (namespace w) tx = Inr t" "btPut api (namespace w) (wkey w) (wvalue w) t = Inr tx'"
    using assms(2) by (auto simp: bolt_applyOne_def bindR_Inr)
  have "btGet api n k tx' = (if (n, k) = keyOf w then effect w else btGet api n k tx)" for n k
    unfolding bolt_law_put [OF assms(1) t(2)] bolt_law_create [OF assms(1) t(1)] using Put by (simp add: keyOf_def effect_def)
  then show ?thesis by (auto simp: fun_eq_iff split: prod.splits)
next
  case Delete
  then have "(btHas api (namespace w) tx \<and> btDelete api (namespace w) (wkey w) tx = Inr tx') \<or>
      (\<not> btHas api (namespace w) tx \<and> tx' = tx)"
    using assms(2) by (auto simp: bolt_applyOne_def split: if_splits)
  with Delete show ?thesis
    by (auto simp: fun_eq_iff keyOf_def effect_def bolt_law_delete [OF assms(1)] bolt_law_has [OF assms(1)]
      split: if_splits)
qed

lemma bolt_applyAll_view:
  "bolt_laws api \<Longrightarrow> bolt_applyAll api ws tx = Inr tx' \<Longrightarrow>
     (\<lambda>(ns, k). btGet api ns k tx') = applyWrites ws (\<lambda>(ns, k). btGet api ns k tx)"
  by (induction ws arbitrary: tx) (auto simp: bindR_Inr applyWrites_def dest!: bolt_applyOne_view)

lemma bolt_update_cases:
  "bolt_update commits f c n err d = (r, d') \<Longrightarrow>
     (d' = d \<and> (r = err \<or> r = Inl ErrIO)) \<or> (r = Inr () \<and> f d = Inr d')"
  by (induction commits f c n err d rule: bolt_update.induct) (auto split: sum.splits if_splits)

lemma bolt_update_commits:
  "f d = Inr d' \<Longrightarrow> c \<le> a \<Longrightarrow> a < c + n \<Longrightarrow> commits a \<Longrightarrow> bolt_update commits f c n err d = (Inr (), d')"
proof (induction n arbitrary: c err)
  case (Suc n)
  then show ?case by (cases "c = a") auto
qed simp

lemma bolt_update_tried: "bolt_update commits f c n err d = (Inr (), d') \<Longrightarrow> err \<noteq> Inr () \<or> 0 < n \<Longrightarrow> f d = Inr d'"
  by (induction commits f c n err d rule: bolt_update.induct) (auto split: sum.splits if_splits)

lemma WriteBatch_outcome:
  assumes "bolt_laws api" "boltReady db" "0 < boltRetries db" "bolt_WriteBatch api commits ws db = (r, db')"
  shows "(\<exists>e. r = Inl e \<and> db' = db) \<or> (r = Inr () \<and> boltReady db' \<and> boltView api db' = applyWrites ws (boltView api db))"
proof -
  obtain d where d: "bolt_update commits (bolt_applyAll api (rev (uniqEntries ws))) 0 (boltRetries db) (Inr ()) (boltData db) = (r, d)"
    "db' = db\<lparr>boltData := d\<rparr>"
    using assms(2,4) by (auto simp: bolt_WriteBatch_def inBolt_def split: prod.splits)
  show ?thesis
  proof (cases r)
    case (Inl e)
    with bolt_update_cases [OF d(1)] d(2) show ?thesis by auto
  next
    case (Inr u)
    then have "bolt_applyAll api (rev (uniqEntries ws)) (boltData db) = Inr d"
      using bolt_update_tried [of commits _ 0 "boltRetries db" "Inr ()" "boltData db" d] d(1) assms(3) by simp
    from bolt_applyAll_view [OF assms(1) this] Inr d(2) assms(2) show ?thesis
      by (simp add: boltView_def uniqEntries_view)
  qed
qed

text \<open>
  What a translation does to a key: it keeps all its writes as they are and adds none, or it lets no write to
  it through.
\<close>

definition translated :: "(WriteInfo \<Rightarrow> WriteInfo option) option \<Rightarrow> WriteInfo \<Rightarrow> WriteInfo option" where
  "translated wit w = (case wit of None \<Rightarrow> Some w | Some f \<Rightarrow> f w)"

definition dropsKey :: "(WriteInfo \<Rightarrow> WriteInfo option) option \<Rightarrow> WriteInfo list \<Rightarrow> kvCacheKey \<Rightarrow> bool" where
  "dropsKey wit ws h \<longleftrightarrow> (\<forall>w\<in>set ws. case translated wit w of None \<Rightarrow> True | Some w' \<Rightarrow> keyOf w' \<noteq> h)"

definition keepsKey :: "(WriteInfo \<Rightarrow> WriteInfo option) option \<Rightarrow> WriteInfo list \<Rightarrow> kvCacheKey \<Rightarrow> bool" where
  "keepsKey wit ws h \<longleftrightarrow>
     (\<forall>w\<in>set ws. if keyOf w = h then translated wit w = Some w
        else case translated wit w of None \<Rightarrow> True | Some w' \<Rightarrow> keyOf w' \<noteq> h)"

lemma keepsKey_None: "keepsKey None ws h"
  by (simp add: keepsKey_def translated_def)

text \<open>The flusher of the state database keeps or drops a key by its namespace.\<close>

lemma flushTranslate_keys:
  "flushFiltered sc ns \<Longrightarrow> dropsKey (Some (flushTranslate sc)) ws (ns, k)"
  "\<not> flushFiltered sc ns \<Longrightarrow> keepsKey (Some (flushTranslate sc)) ws (ns, k)"
  by (auto simp: dropsKey_def keepsKey_def translated_def flushTranslate_def keyOf_def)

lemma base_Translate_eq: "base_Translate wit ws = List.map_filter (translated wit) ws"
  by (cases wit) (auto simp: base_Translate_def translated_def List.map_filter_def comp_def)

lemma lastWrite_keeps: "keepsKey wit ws h \<Longrightarrow> lastWrite (base_Translate wit ws) h = lastWrite ws h"
  unfolding base_Translate_eq
proof (induction ws)
  case (Cons w ws)
  then have "keepsKey wit ws h" and w: "if keyOf w = h then translated wit w = Some w
      else case translated wit w of None \<Rightarrow> True | Some w' \<Rightarrow> keyOf w' \<noteq> h"
    by (simp_all add: keepsKey_def)
  with Cons.IH show ?case
    by (cases "keyOf w = h"; cases "translated wit w") (auto simp: map_filter_simps split: option.splits)
qed (simp add: map_filter_simps)

lemma lastWrite_drops: "dropsKey wit ws h \<Longrightarrow> lastWrite (base_Translate wit ws) h = None"
  unfolding base_Translate_eq
proof (induction ws)
  case (Cons w ws)
  then have "dropsKey wit ws h" and w: "case translated wit w of None \<Rightarrow> True | Some w' \<Rightarrow> keyOf w' \<noteq> h"
    by (simp_all add: dropsKey_def)
  with Cons.IH show ?case by (cases "translated wit w") (auto simp: map_filter_simps)
qed (simp add: map_filter_simps)

lemma Flush_cases:
  assumes "bolt_laws api" "boltReady (kvbStore kvb)" "0 < boltRetries (kvbStore kvb)" "Flush api commits wit kvb = (r, kvb')"
  obtains (failed) e where "r = Inl e" "kvb' = kvb"
  | (flushed) "r = Inr ()" "kvbBuffer kvb' = cb_clear (kvbBuffer kvb)" "boltReady (kvbStore kvb')"
      "boltView api (kvbStore kvb') =
         applyWrites (base_Translate wit (writeQueue (kvbBuffer kvb))) (boltView api (kvbStore kvb))"
proof -
  obtain r1 db1 where w: "bolt_WriteBatch api commits (base_Translate wit (writeQueue (kvbBuffer kvb))) (kvbStore kvb) = (r1, db1)"
    by fastforce
  with WriteBatch_outcome [OF assms(1-3) w] assms(4) show thesis
    by (cases r1) (auto simp: Flush_def intro: failed flushed)
qed

lemma Flush_commits:
  assumes "boltReady (kvbStore kvb)" "Flush api commits wit kvb = (r, kvb')" "a < boltRetries (kvbStore kvb)" "commits a"
    and "bolt_applyAll api (rev (uniqEntries (base_Translate wit (writeQueue (kvbBuffer kvb))))) (boltData (kvbStore kvb)) = Inr d"
  shows "r = Inr ()"
  using assms bolt_update_commits
    [of "bolt_applyAll api (rev (uniqEntries (base_Translate wit (writeQueue (kvbBuffer kvb)))))" "boltData (kvbStore kvb)" d
      0 a "boltRetries (kvbStore kvb)" commits "Inr ()"]
  by (auto simp: bolt_WriteBatch_def inBolt_def Flush_def)

text \<open>
  Property C16.  Flushing is atomic and writes what the flusher lets through.  When the buffered store of a run
  is flushed with any translation of its writes, either the database and the buffer stay as they were and an
  error is returned, or the buffer is empty and the database is what it was with the translated writes applied
  in their order, although only the last write of each key is sent.  A key whose writes the translation keeps
  then has in the database the value that the buffered store showed before, and reads of it give the same
  answer; a key whose writes it drops has the value that the database held before, not the buffered one.
  Without a translation every key is kept; with the one of the state database a key is kept or dropped by its
  namespace (\<open>flushTranslate_keys\<close>).  The flush succeeds when the translated writes are accepted and one of the
  attempts commits.
\<close>

theorem flush_is_atomic:
  assumes "bolt_laws api" "boltReady db" "0 < boltRetries db"
    and run: "kvb = snd (run_cmds (kvb_exec api) cs \<lparr>kvbStore = db, kvbBuffer = NewCachedBatch\<rparr>)"
    and fl: "Flush api commits wit kvb = (r, kvb')"
  shows "((\<exists>e. r = Inl e \<and> kvb' = kvb) \<or>
     (r = Inr () \<and> writeQueue (kvbBuffer kvb') = [] \<and>
      boltView api (kvbStore kvb') = applyWrites (base_Translate wit (writeQueue (kvbBuffer kvb))) (boltView api db) \<and>
      (\<forall>ns k. keepsKey wit (writeQueue (kvbBuffer kvb)) (ns, k) \<longrightarrow>
         boltView api (kvbStore kvb') (ns, k) = cur (snd (run_cmds spec_exec cs \<lparr>cur = boltView api db, shots = []\<rparr>)) (ns, k) \<and>
         kvb_Get api ns k kvb' = kvb_Get api ns k kvb) \<and>
      (\<forall>ns k. dropsKey wit (writeQueue (kvbBuffer kvb)) (ns, k) \<longrightarrow>
         boltView api (kvbStore kvb') (ns, k) = boltView api db (ns, k) \<and> kvb_Get api ns k kvb' = bolt_Get api ns k db))) \<and>
    (\<forall>a < boltRetries db. \<forall>d. commits a \<longrightarrow>
       bolt_applyAll api (rev (uniqEntries (base_Translate wit (writeQueue (kvbBuffer kvb))))) (boltData db) = Inr d \<longrightarrow> r = Inr ())"
proof -
  let ?s = "snd (run_cmds spec_exec cs \<lparr>cur = boltView api db, shots = []\<rparr>)" and ?q = "writeQueue (kvbBuffer kvb)"
  have sh: "exhibits api kvb ?s" and db: "kvbStore kvb = db"
    using run_refines [OF assms(1) exhibits_new [OF assms(2)], of cs] run by auto
  then obtain segs where segs: "represents segs (kvbBuffer kvb)" "?s = views (boltView api db) segs"
    by (auto simp: exhibits_def cb.holds_def)
  then have cur: "cur ?s = applyWrites ?q (boltView api db)"
    by (simp add: views_def represents_def)
  show ?thesis
  proof (rule conjI, goal_cases)
    case 1
    show ?case
    proof (cases rule: Flush_cases [OF assms(1) _ _ fl, case_names ready tries failed flushed])
      case flushed
      let ?v = "boltView api (kvbStore kvb')"
      have new: "exhibits api kvb' \<lparr>cur = ?v, shots = []\<rparr>"
        using represents_clear [OF segs(1)] flushed(2,3)
        by (auto simp: exhibits_def cb.holds_def views_def applyWrites_def intro!: exI [of _ "[[]]"])
      have v: "?v h = (case lastWrite (base_Translate wit ?q) h of Some e \<Rightarrow> e | None \<Rightarrow> boltView api db h)" for h
        using flushed(4) by (simp add: applyWrites_lookup db)
      have "?v h = cur ?s h" if "keepsKey wit ?q h" for h
        using lastWrite_keeps [OF that] by (simp add: v cur applyWrites_lookup)
      moreover have "?v h = boltView api db h" if "dropsKey wit ?q h" for h
        using lastWrite_drops [OF that] by (simp add: v)
      ultimately show ?thesis
        using flushed db
        by (simp add: exhibits_Get [OF assms(1) new] exhibits_Get [OF assms(1) sh] bolt_Get_view [OF assms(1,2)] cb_clear_def)
    qed (use assms(2,3) in \<open>auto simp: db\<close>)
  next
    case 2
    then show ?case using Flush_commits [OF _ fl] assms(2) db by blast
  qed
qed

section \<open>A concrete engine\<close>

definition exBolt :: "(string \<rightharpoonup> (byte list \<rightharpoonup> byte list)) bolt_api" where
  "exBolt = \<lparr>btHas = (\<lambda>ns d. d ns \<noteq> None),
     btCreate = (\<lambda>ns d. Inr (if d ns = None then d(ns \<mapsto> Map.empty) else d)),
     btPut = (\<lambda>ns k v d. case d ns of None \<Rightarrow> Inl ErrIO | Some b \<Rightarrow> Inr (d(ns \<mapsto> b(k \<mapsto> v)))),
     btDelete = (\<lambda>ns k d. case d ns of None \<Rightarrow> Inl ErrIO | Some b \<Rightarrow> Inr (d(ns \<mapsto> b(k := None)))),
     btGet = (\<lambda>ns k d. case d ns of None \<Rightarrow> None | Some b \<Rightarrow> b k)\<rparr>"

lemma exBolt_laws: "bolt_laws exBolt"
  unfolding bolt_laws_def exBolt_def by (auto split: option.splits if_splits)

definition exDB :: "(string \<rightharpoonup> (byte list \<rightharpoonup> byte list)) BoltDB" where
  "exDB = \<lparr>boltReady = True, boltRetries = 3, boltData = [''A'' \<mapsto> [[1] \<mapsto> [10]]]\<rparr>"

definition exScript :: "store_cmd list" where
  "exScript = [CmdPut ''A'' [2] [20], CmdSnapshot, CmdDelete ''A'' [1], CmdPut ''A'' [2] [21], CmdRevert 0,
     CmdGet ''A'' [2], CmdGet ''A'' [1], CmdRevert 5, CmdDelete ''B'' [1]]"

theorem buffered_store_refines_witness:
  "fst (run_cmds (kvb_exec exBolt) exScript \<lparr>kvbStore = exDB, kvbBuffer = NewCachedBatch\<rparr>) =
     [Done, Snapshotted 0, Done, Done, Done, Value [20], Value [10], Failed ErrOutOfBound, Done]"
proof -
  have "fst (run_cmds spec_exec exScript \<lparr>cur = boltView exBolt exDB, shots = []\<rparr>) =
     [Done, Snapshotted 0, Done, Done, Done, Value [20], Value [10], Failed ErrOutOfBound, Done]"
    by (simp add: exScript_def spec_snapshot_def spec_revert_def boltView_def exBolt_def exDB_def)
  then show ?thesis using buffered_store_refines [OF exBolt_laws, of exDB exScript] by (simp add: exDB_def)
qed

text \<open>The store of the script with a write to the view of the staking protocol, flushed as the state database does.\<close>

definition exFlushed :: "store_cmd list" where
  "exFlushed = exScript @ [CmdPut StakingViewNamespace [3] [30]]"

definition exBuffered :: "(string \<rightharpoonup> (byte list \<rightharpoonup> byte list)) kvStoreWithBuffer" where
  "exBuffered = snd (run_cmds (kvb_exec exBolt) exFlushed \<lparr>kvbStore = exDB, kvbBuffer = NewCachedBatch\<rparr>)"

lemma exBolt_accepts: "\<exists>d. bolt_applyAll exBolt ws tx = Inr d"
proof (induction ws arbitrary: tx)
  case (Cons w ws)
  have "\<exists>d. bolt_applyOne exBolt w tx = Inr d"
    by (cases "writeType w") (auto simp: bolt_applyOne_def exBolt_def)
  with Cons show ?case by auto
qed simp

theorem flush_is_atomic_witness:
  "\<exists>kvb'. Flush exBolt (\<lambda>c. c = 2) (Some (flushTranslate False)) exBuffered = (Inr (), kvb') \<and>
     boltView exBolt (kvbStore kvb') (''A'', [2]) = Some [20] \<and> boltView exBolt (kvbStore kvb') (''A'', [1]) = Some [10] \<and>
     kvb_Get exBolt ''A'' [2] kvb' = kvb_Get exBolt ''A'' [2] exBuffered \<and>
     boltView exBolt (kvbStore kvb') (StakingViewNamespace, [3]) = None"
proof -
  let ?wit = "Some (flushTranslate False)"
  obtain r kvb' where fl: "Flush exBolt (\<lambda>c. c = 2) ?wit exBuffered = (r, kvb')" by fastforce
  have ok: "boltReady exDB" "0 < boltRetries exDB" "2 < boltRetries exDB" by (simp_all add: exDB_def)
  note out = flush_is_atomic [OF exBolt_laws ok(1,2) exBuffered_def fl]
  obtain d where "bolt_applyAll exBolt (rev (uniqEntries (base_Translate ?wit (writeQueue (kvbBuffer exBuffered))))) (boltData exDB) = Inr d"
    using exBolt_accepts by blast
  with out ok(3) have r: "r = Inr ()" by blast
  have keys: "keepsKey ?wit (writeQueue (kvbBuffer exBuffered)) (''A'', k)"
    "dropsKey ?wit (writeQueue (kvbBuffer exBuffered)) (StakingViewNamespace, k)" for k
    by (rule flushTranslate_keys; simp add: flushFiltered_def HasPrefix_def contractStakingPrefixes_def
        StakingViewNamespace_def StakingContractMetaNamespace_def)+
  have "cur (snd (run_cmds spec_exec exFlushed \<lparr>cur = boltView exBolt exDB, shots = []\<rparr>)) (''A'', [2]) = Some [20]"
    "cur (snd (run_cmds spec_exec exFlushed \<lparr>cur = boltView exBolt exDB, shots = []\<rparr>)) (''A'', [1]) = Some [10]"
    "boltView exBolt exDB (StakingViewNamespace, [3]) = None"
    by (simp_all add: exFlushed_def exScript_def spec_snapshot_def spec_revert_def boltView_def exBolt_def exDB_def StakingViewNamespace_def)
  with out r fl keys show ?thesis by auto
qed

end
