(* ===== verification/GoHeap.thy ===== *)
theory GoHeap
  imports Prelude "HOL-Library.Multiset"
begin

text \<open>
  The package \<^verbatim>\<open>container/heap\<close> of the Go standard library, which the action pool uses for its three
  priority queues.  The interface \<^verbatim>\<open>heap.Interface\<close> is a record of functions on a state: the state holds
  the slice and what its \<^verbatim>\<open>Swap\<close>, \<^verbatim>\<open>Push\<close> and \<^verbatim>\<open>Pop\<close> write besides the slice.  The functions of the
  package are translated loop by loop.

  The locale \<open>go_heap\<close> states what an implementation of the interface promises: which elements the slice
  holds and that every element knows its index.  Its lemmas say that the functions of the package keep this,
  add or remove exactly one element and change nothing else.  \<open>go_heap_ordered\<close> adds a strict weak order;
  then the functions keep the heap order and the first element is a least one.
\<close>

section \<open>The package\<close>

record ('s, 'x) heapInterface =
  Len :: "'s \<Rightarrow> nat"
  Less :: "'s \<Rightarrow> nat \<Rightarrow> nat \<Rightarrow> bool"
  Swap :: "'s \<Rightarrow> nat \<Rightarrow> nat \<Rightarrow> 's"
  Push :: "'s \<Rightarrow> 'x \<Rightarrow> 's"
  Pop :: "'s \<Rightarrow> 'x option \<times> 's"

text \<open>\<^verbatim>\<open>up(h, j)\<close>: the element at \<open>j\<close> rises while it is less than its parent.\<close>

function heap_up :: "('s, 'x) heapInterface \<Rightarrow> 's \<Rightarrow> nat \<Rightarrow> 's" where
  "heap_up h s j =
    (let i = (j - 1) div 2 in
     if i = j \<or> \<not> Less h s j i then s else heap_up h (Swap h s i j) i)"
  by pat_completeness auto
termination by (relation "measure (\<lambda>(h, s, j). j)") auto

text \<open>\<^verbatim>\<open>down(h, i0, n)\<close>: the element at \<open>i0\<close> sinks; the result is the last index.\<close>

function heap_down :: "('s, 'x) heapInterface \<Rightarrow> 's \<Rightarrow> nat \<Rightarrow> nat \<Rightarrow> 's \<times> nat" where
  "heap_down h s i n =
    (let j1 = 2 * i + 1; j2 = j1 + 1 in
     if n \<le> j1 then (s, i)
     else let j = (if j2 < n \<and> Less h s j2 j1 then j2 else j1) in
       if \<not> Less h s j i then (s, i) else heap_down h (Swap h s i j) j n)"
  by pat_completeness auto
termination by (relation "measure (\<lambda>(h, s, i, n). n - i)") (auto simp: Let_def split: if_splits)

declare heap_up.simps [simp del] heap_down.simps [simp del]

text \<open>\<^verbatim>\<open>down\<close> reports whether the element moved; \<^verbatim>\<open>Fix\<close> and \<^verbatim>\<open>Remove\<close> then try \<^verbatim>\<open>up\<close>.\<close>

definition heap_settle :: "('s, 'x) heapInterface \<Rightarrow> 's \<Rightarrow> nat \<Rightarrow> nat \<Rightarrow> 's" where
  "heap_settle h s i n =
    (case heap_down h s i n of (s', i') \<Rightarrow> if i < i' then s' else heap_up h s' i)"

fun heap_initFrom :: "('s, 'x) heapInterface \<Rightarrow> 's \<Rightarrow> nat \<Rightarrow> nat \<Rightarrow> 's" where
  "heap_initFrom h s 0 n = s"
| "heap_initFrom h s (Suc i) n = heap_initFrom h (fst (heap_down h s i n)) i n"

definition heap_Init :: "('s, 'x) heapInterface \<Rightarrow> 's \<Rightarrow> 's" where
  "heap_Init h s = heap_initFrom h s (Len h s div 2) (Len h s)"

definition heap_Push :: "('s, 'x) heapInterface \<Rightarrow> 's \<Rightarrow> 'x \<Rightarrow> 's" where
  "heap_Push h s x = (let s' = Push h s x in heap_up h s' (Len h s' - 1))"

definition heap_Pop :: "('s, 'x) heapInterface \<Rightarrow> ('s, 'x option) op" where
  "heap_Pop h s =
    (if Len h s = 0 then (Inl (Panic ''index out of range''), s)
     else let n = Len h s - 1; (x, s') = Pop h (fst (heap_down h (Swap h s 0 n) 0 n)) in (Inr x, s'))"

definition heap_Remove :: "('s, 'x) heapInterface \<Rightarrow> nat \<Rightarrow> ('s, 'x option) op" where
  "heap_Remove h i s =
    (if \<not> i < Len h s then (Inl (Panic ''index out of range''), s)
     else let n = Len h s - 1;
              s' = (if n \<noteq> i then heap_settle h (Swap h s i n) i n else s);
              (x, s'') = Pop h s' in (Inr x, s''))"

definition heap_Fix :: "('s, 'x) heapInterface \<Rightarrow> nat \<Rightarrow> ('s, unit) op" where
  "heap_Fix h i s =
    (if i < Len h s \<or> i = 0 then (Inr (), heap_settle h s i (Len h s))
     else (Inl (Panic ''index out of range''), s))"

section \<open>Swapping in a list\<close>

definition swp :: "nat \<Rightarrow> nat \<Rightarrow> 'a list \<Rightarrow> 'a list" where
  "swp i j xs = xs[i := xs ! j, j := xs ! i]"

lemma swp_length [simp]: "length (swp i j xs) = length xs"
  by (simp add: swp_def)

lemma swp_nth: "i < length xs \<Longrightarrow> j < length xs \<Longrightarrow> k < length xs \<Longrightarrow>
    swp i j xs ! k = (if k = j then xs ! i else if k = i then xs ! j else xs ! k)"
  by (simp add: swp_def nth_list_update)

lemma swp_mset [simp]: "i < length xs \<Longrightarrow> j < length xs \<Longrightarrow> mset (swp i j xs) = mset xs"
  by (simp add: swp_def mset_swap)

lemma swp_distinct [simp]: "i < length xs \<Longrightarrow> j < length xs \<Longrightarrow> distinct (swp i j xs) = distinct xs"
  by (simp add: swp_def)

lemma swp_set [simp]: "i < length xs \<Longrightarrow> j < length xs \<Longrightarrow> set (swp i j xs) = set xs"
  by (simp add: swp_def)

section \<open>Heap order on lists\<close>

definition par :: "nat \<Rightarrow> nat" where
  "par k = (k - 1) div 2"

lemma par_child: "0 < k \<Longrightarrow> par k = i \<longleftrightarrow> k = 2 * i + 1 \<or> k = 2 * i + 2"
  by (auto simp: par_def)

lemma par_less: "0 < k \<Longrightarrow> par k < k"
  by (auto simp: par_def)

text \<open>Every pair of a parent, from position \<open>m\<close> on, and its child before \<open>n\<close> is in order.\<close>

definition heapOrd :: "('x \<Rightarrow> 'x \<Rightarrow> bool) \<Rightarrow> nat \<Rightarrow> nat \<Rightarrow> 'x list \<Rightarrow> bool" where
  "heapOrd lt m n xs \<longleftrightarrow> (\<forall>k. 0 < k \<and> k < n \<and> m \<le> par k \<longrightarrow> \<not> lt (xs ! k) (xs ! par k))"

text \<open>The same, except for the pairs the position \<open>i\<close> is in; its children are not below its parent.\<close>

definition heapExc :: "('x \<Rightarrow> 'x \<Rightarrow> bool) \<Rightarrow> nat \<Rightarrow> nat \<Rightarrow> nat \<Rightarrow> 'x list \<Rightarrow> bool" where
  "heapExc lt m n i xs \<longleftrightarrow>
    (\<forall>k. 0 < k \<and> k < n \<and> m \<le> par k \<and> par k \<noteq> i \<and> k \<noteq> i \<longrightarrow> \<not> lt (xs ! k) (xs ! par k)) \<and>
    (\<forall>k. 0 < i \<and> m \<le> par i \<and> 0 < k \<and> k < n \<and> par k = i \<longrightarrow> \<not> lt (xs ! k) (xs ! par i))"

definition aboveOk :: "('x \<Rightarrow> 'x \<Rightarrow> bool) \<Rightarrow> nat \<Rightarrow> nat \<Rightarrow> 'x list \<Rightarrow> bool" where
  "aboveOk lt m i xs \<longleftrightarrow> (0 < i \<and> m \<le> par i \<longrightarrow> \<not> lt (xs ! i) (xs ! par i))"

definition belowOk :: "('x \<Rightarrow> 'x \<Rightarrow> bool) \<Rightarrow> nat \<Rightarrow> nat \<Rightarrow> 'x list \<Rightarrow> bool" where
  "belowOk lt n i xs \<longleftrightarrow> (\<forall>k. 0 < k \<and> k < n \<and> par k = i \<longrightarrow> \<not> lt (xs ! k) (xs ! i))"

lemma heapOrd_split: "heapExc lt m n i xs \<Longrightarrow> aboveOk lt m i xs \<Longrightarrow> belowOk lt n i xs \<Longrightarrow> heapOrd lt m n xs"
  unfolding heapOrd_def heapExc_def aboveOk_def belowOk_def by metis

lemma belowOk_children:
  "belowOk lt n i xs \<longleftrightarrow> (2 * i + 1 < n \<longrightarrow> \<not> lt (xs ! (2 * i + 1)) (xs ! i)) \<and>
     (2 * i + 2 < n \<longrightarrow> \<not> lt (xs ! (2 * i + 2)) (xs ! i))"
  unfolding belowOk_def using par_child by (metis add_gr_0 zero_less_numeral zero_less_one)

lemma heapExc_append:
  assumes "heapOrd lt 0 (length xs) xs"
  shows "heapExc lt 0 (Suc (length xs)) (length xs) (xs @ [x])" "belowOk lt (Suc (length xs)) (length xs) (xs @ [x])"
proof -
  have none: "\<not> (0 < k \<and> k < Suc (length xs) \<and> par k = length xs)" for k
    using par_less [of k] by auto
  show "belowOk lt (Suc (length xs)) (length xs) (xs @ [x])" using none by (auto simp: belowOk_def)
  have "\<not> lt ((xs @ [x]) ! k) ((xs @ [x]) ! par k)" if "0 < k" "k < length xs" for k
    using assms that par_less [OF that(1)] by (simp add: heapOrd_def nth_append)
  then show "heapExc lt 0 (Suc (length xs)) (length xs) (xs @ [x])"
    unfolding heapExc_def using none by (metis less_SucE)
qed

lemma heapOrd_butlast:
  assumes "heapOrd lt 0 (length xs - 1) xs"
  shows "heapOrd lt 0 (length (butlast xs)) (butlast xs)"
  unfolding heapOrd_def
proof (intro allI impI; elim conjE)
  fix k assume k: "0 < k" "k < length (butlast xs)"
  then have "par k < length (butlast xs)" using par_less [of k] by simp
  then show "\<not> lt (butlast xs ! k) (butlast xs ! par k)" using assms k by (simp add: nth_butlast heapOrd_def)
qed

locale weak_order =
  fixes lt :: "'x \<Rightarrow> 'x \<Rightarrow> bool"
  assumes asym: "lt a b \<Longrightarrow> \<not> lt b a"
    and trans: "\<not> lt b a \<Longrightarrow> \<not> lt c b \<Longrightarrow> \<not> lt c a"
begin

lemma heapOrd_exc: "heapOrd lt m n xs \<Longrightarrow> heapExc lt m n i xs"
  unfolding heapOrd_def heapExc_def using trans par_less by (metis le_trans less_imp_le order_less_trans)

lemma heapOrd_root: "heapOrd lt 0 n xs \<Longrightarrow> k < n \<Longrightarrow> \<not> lt (xs ! k) (xs ! 0)"
proof (induction k rule: less_induct)
  case (less k)
  show ?case
  proof (cases "k = 0")
    case True then show ?thesis using asym by blast
  next
    case False
    then have p: "par k < k" by (simp add: par_less)
    then have "\<not> lt (xs ! par k) (xs ! 0)" using less by simp
    moreover have "\<not> lt (xs ! k) (xs ! par k)" using less.prems False by (simp add: heapOrd_def)
    ultimately show ?thesis by (rule trans)
  qed
qed

lemma sink_step:
  assumes exc: "heapExc lt m n i xs" and j: "0 < j" "j < n" "par j = i" and n: "n \<le> length xs" "m \<le> i"
    and less: "lt (xs ! j) (xs ! i)"
    and least: "\<And>k. 0 < k \<Longrightarrow> k < n \<Longrightarrow> par k = i \<Longrightarrow> \<not> lt (xs ! k) (xs ! j)"
  shows "heapExc lt m n j (swp i j xs)" "aboveOk lt m j (swp i j xs)"
proof -
  have ij: "i < j" using j par_less by blast
  have nth: "swp i j xs ! k = (if k = j then xs ! i else if k = i then xs ! j else xs ! k)" if "k < n" for k
    using that ij j n by (intro swp_nth) auto
  have pk: "par k < n" if "0 < k" "k < n" for k using par_less [OF that(1)] that by simp
  show "aboveOk lt m j (swp i j xs)"
    using asym [OF less] ij j nth by (simp add: aboveOk_def)
  show "heapExc lt m n j (swp i j xs)"
    unfolding heapExc_def
  proof (intro conjI allI impI; elim conjE)
    fix k assume k: "0 < k" "k < n" "m \<le> par k" "par k \<noteq> j" "k \<noteq> j"
    show "\<not> lt (swp i j xs ! k) (swp i j xs ! par k)"
    proof (cases "k = i")
      case True
      then show ?thesis using exc j k ij nth pk par_less [OF k(1)] by (auto simp: heapExc_def)
    next
      case False
      then show ?thesis using exc k nth pk least by (auto simp: heapExc_def)
    qed
  next
    fix k assume k: "0 < j" "m \<le> par j" "0 < k" "k < n" "par k = j"
    have "j < k" using par_less [OF k(3)] k(5) by simp
    moreover have "\<not> lt (xs ! k) (xs ! j)"
      using conjunct1 [OF exc [unfolded heapExc_def], rule_format, of k] k ij n(2) \<open>j < k\<close> by simp
    ultimately show "\<not> lt (swp i j xs ! k) (swp i j xs ! par j)"
      using j k ij nth by simp
  qed
qed

lemma rise_step:
  assumes exc: "heapExc lt 0 n j xs" and j: "0 < j" "j < n" and n: "n \<le> length xs"
    and below: "belowOk lt n j xs" and less: "lt (xs ! j) (xs ! par j)"
  shows "heapExc lt 0 n (par j) (swp (par j) j xs)" "belowOk lt n (par j) (swp (par j) j xs)"
proof -
  define i where "i = par j"
  have ij: "i < j" using j par_less i_def by blast
  have nth: "swp i j xs ! k = (if k = j then xs ! i else if k = i then xs ! j else xs ! k)" if "k < n" for k
    using that ij j n by (intro swp_nth) auto
  have pk: "par k < n" if "0 < k" "k < n" for k using par_less [OF that(1)] that by simp
  have sib: "\<not> lt (xs ! k) (xs ! i)" if "0 < k" "k < n" "par k = i" "k \<noteq> j" for k
    using exc that ij unfolding heapExc_def by auto
  have up: "\<not> lt (xs ! i) (xs ! par i)" if "0 < i"
    using exc that ij j par_less [OF that] unfolding heapExc_def by auto
  show "belowOk lt n (par j) (swp (par j) j xs)"
    unfolding belowOk_def i_def [symmetric]
  proof (intro allI impI; elim conjE)
    fix k assume k: "0 < k" "k < n" "par k = i"
    then have "i < k" using par_less by blast
    then show "\<not> lt (swp i j xs ! k) (swp i j xs ! i)"
      using k nth ij j asym [OF less] sib trans [of "xs ! i" "xs ! j" "xs ! k"] by (auto simp: i_def)
  qed
  show "heapExc lt 0 n (par j) (swp (par j) j xs)"
    unfolding heapExc_def i_def [symmetric]
  proof (intro conjI allI impI; elim conjE)
    fix k assume k: "0 < k" "k < n" "par k \<noteq> i" "k \<noteq> i"
    then have "k \<noteq> j" by (auto simp: i_def)
    then show "\<not> lt (swp i j xs ! k) (swp i j xs ! par k)"
      using exc j k nth pk unfolding heapExc_def i_def by auto
  next
    fix k assume k: "0 < i" "0 < k" "k < n" "par k = i"
    have "par i < i" "i < k" using k par_less by blast+
    then show "\<not> lt (swp i j xs ! k) (swp i j xs ! par i)"
      using k nth ij j up sib trans [of "xs ! i" "xs ! par i" "xs ! k"] by auto
  qed
qed

end

section \<open>One step of sinking\<close>

lemma heap_down_cases:
  obtains (stop) "heap_down h s i n = (s, i)"
      "n \<le> 2 * i + 1 \<or> (\<exists>j. 0 < j \<and> j < n \<and> par j = i \<and> \<not> Less h s j i \<and>
         (\<forall>k. 0 < k \<and> k < n \<and> par k = i \<and> k \<noteq> j \<longrightarrow> Less h s j k \<or> \<not> Less h s k j))"
    | (sink) j where "0 < j" "j < n" "par j = i" "Less h s j i"
      "\<forall>k. 0 < k \<and> k < n \<and> par k = i \<and> k \<noteq> j \<longrightarrow> Less h s j k \<or> \<not> Less h s k j"
      "heap_down h s i n = heap_down h (Swap h s i j) j n"
proof (cases "n \<le> 2 * i + 1")
  case True
  show ?thesis using True by (intro stop) (simp_all add: heap_down.simps)
next
  case False
  define j where "j = (if 2 * i + 2 < n \<and> Less h s (2 * i + 2) (2 * i + 1) then 2 * i + 2 else 2 * i + 1)"
  have j: "0 < j" "j < n" "par j = i" using False by (auto simp: j_def par_child)
  have least: "\<forall>k. 0 < k \<and> k < n \<and> par k = i \<and> k \<noteq> j \<longrightarrow> Less h s j k \<or> \<not> Less h s k j"
  proof (intro allI impI; elim conjE)
    fix k assume "0 < k" "k < n" "par k = i" "k \<noteq> j"
    then show "Less h s j k \<or> \<not> Less h s k j" using par_child [of k i] by (auto simp: j_def split: if_splits)
  qed
  have eq: "heap_down h s i n = (if \<not> Less h s j i then (s, i) else heap_down h (Swap h s i j) j n)"
    using False by (subst heap_down.simps) (simp add: Let_def j_def)
  show ?thesis
  proof (cases "Less h s j i")
    case True
    show ?thesis using True eq by (intro sink [of j] j least) simp_all
  next
    case False
    then show ?thesis using eq j least by (intro stop) auto
  qed
qed

section \<open>What an implementation of the interface promises\<close>

text \<open>
  \<open>elems\<close> is the slice, \<open>idx\<close> the index an element keeps of itself, \<open>frame\<close> the rest of the state, which
  decides the comparisons.
\<close>

locale go_heap =
  fixes h :: "('s, 'x) heapInterface"
    and elems :: "'s \<Rightarrow> 'x list"
    and idx :: "'s \<Rightarrow> 'x \<Rightarrow> nat"
    and frame :: "'s \<Rightarrow> 'f"
    and lt :: "'f \<Rightarrow> 'x \<Rightarrow> 'x \<Rightarrow> bool"
  assumes Len: "Len h s = length (elems s)"
    and Less: "i < length (elems s) \<Longrightarrow> j < length (elems s) \<Longrightarrow>
      Less h s i j = lt (frame s) (elems s ! i) (elems s ! j)"
    and Swap: "i < length (elems s) \<Longrightarrow> j < length (elems s) \<Longrightarrow> elems (Swap h s i j) = swp i j (elems s)"
    and Swap_idx: "i < length (elems s) \<Longrightarrow> j < length (elems s) \<Longrightarrow>
      idx (Swap h s i j) = (idx s)(elems s ! j := i, elems s ! i := j)"
    and Swap_frame: "i < length (elems s) \<Longrightarrow> j < length (elems s) \<Longrightarrow> frame (Swap h s i j) = frame s"
    and Push: "elems (Push h s x) = elems s @ [x]"
    and Push_idx: "idx (Push h s x) = (idx s)(x := length (elems s))"
    and Push_frame: "frame (Push h s x) = frame s"
    and Pop: "elems s \<noteq> [] \<Longrightarrow> fst (Pop h s) = Some (last (elems s))"
    and Pop_elems: "elems s \<noteq> [] \<Longrightarrow> elems (snd (Pop h s)) = butlast (elems s)"
    and Pop_idx: "elems s \<noteq> [] \<Longrightarrow> idx (snd (Pop h s)) = idx s"
    and Pop_frame: "elems s \<noteq> [] \<Longrightarrow> frame (snd (Pop h s)) = frame s"
begin

definition indexed :: "'s \<Rightarrow> bool" where
  "indexed s \<longleftrightarrow> distinct (elems s) \<and> (\<forall>i < length (elems s). idx s (elems s ! i) = i)"

text \<open>\<open>moved n s t\<close>: the elements before \<open>n\<close> have been permuted, nothing else has changed.\<close>

definition moved :: "nat \<Rightarrow> 's \<Rightarrow> 's \<Rightarrow> bool" where
  "moved n s t \<longleftrightarrow> frame t = frame s \<and> mset (elems t) = mset (elems s) \<and> (indexed s \<longrightarrow> indexed t) \<and>
     (\<forall>k. n \<le> k \<and> k < length (elems s) \<longrightarrow> elems t ! k = elems s ! k)"

lemma moved_refl [simp]: "moved n s s"
  by (simp add: moved_def)

lemma moved_length: "moved n s t \<Longrightarrow> length (elems t) = length (elems s)"
  by (metis moved_def size_mset)

lemma moved_trans: "moved n s t \<Longrightarrow> moved n t u \<Longrightarrow> moved n s u"
  using moved_length [of n s t] by (auto simp: moved_def)

lemma Swap_indexed:
  assumes "indexed s" and ij: "i < length (elems s)" "j < length (elems s)"
  shows "indexed (Swap h s i j)"
proof -
  let ?e = "elems s"
  have d: "distinct ?e" and ix: "\<And>k. k < length ?e \<Longrightarrow> idx s (?e ! k) = k"
    using assms by (auto simp: indexed_def)
  have inj: "?e ! k = ?e ! l \<longleftrightarrow> k = l" if "k < length ?e" "l < length ?e" for k l
    using nth_eq_iff_index_eq [OF d that] .
  show ?thesis
    unfolding indexed_def Swap [OF ij] Swap_idx [OF ij]
    using d ij ix by (auto simp: swp_nth inj)
qed

lemma Swap_moved: "i < n \<Longrightarrow> j < n \<Longrightarrow> n \<le> length (elems s) \<Longrightarrow> moved n s (Swap h s i j)"
  using Swap_indexed [of s i j] by (simp add: moved_def Swap_frame Swap swp_nth)

lemma up_moved: "j < n \<Longrightarrow> n \<le> length (elems s) \<Longrightarrow> moved n s (heap_up h s j)"
proof (induction j arbitrary: s rule: less_induct)
  case (less j)
  let ?i = "(j - 1) div 2"
  show ?case
  proof (cases "?i = j \<or> \<not> Less h s j ?i")
    case True then show ?thesis by (subst heap_up.simps) (simp add: Let_def)
  next
    case False
    then have i: "?i < j" by linarith
    then have m: "moved n s (Swap h s ?i j)" using less.prems by (intro Swap_moved) simp_all
    then have "moved n (Swap h s ?i j) (heap_up h (Swap h s ?i j) ?i)"
      using less.prems i moved_length [OF m] by (intro less.IH) simp_all
    with m have "moved n s (heap_up h (Swap h s ?i j) ?i)" by (rule moved_trans)
    then show ?thesis using False by (subst heap_up.simps) (simp add: Let_def)
  qed
qed

lemma down_moved: "n \<le> length (elems s) \<Longrightarrow> moved n s (fst (heap_down h s i n))"
proof (induction "n - i" arbitrary: s i rule: less_induct)
  case less
  show ?case
  proof (cases rule: heap_down_cases [of h s i n])
    case stop then show ?thesis by simp
  next
    case (sink j)
    then have i: "i < j" using par_less by blast
    have m: "moved n s (Swap h s i j)" using sink i less.prems by (intro Swap_moved) simp_all
    moreover have "moved n (Swap h s i j) (fst (heap_down h (Swap h s i j) j n))"
      using sink i less.prems moved_length [OF m] by (intro less.hyps) simp_all
    ultimately show ?thesis using moved_trans sink by simp
  qed
qed

lemma settle_moved: "i < n \<Longrightarrow> n \<le> length (elems s) \<Longrightarrow> moved n s (heap_settle h s i n)"
  using down_moved [of n s i] up_moved [of i n "fst (heap_down h s i n)"]
    moved_length [of n s "fst (heap_down h s i n)"]
  by (auto simp: heap_settle_def split: prod.split intro: moved_trans)

lemma initFrom_moved: "n \<le> length (elems s) \<Longrightarrow> moved n s (heap_initFrom h s i n)"
proof (induction i arbitrary: s)
  case (Suc i)
  then show ?case
    using down_moved [of n s i] moved_length [of n s "fst (heap_down h s i n)"] by (auto intro: moved_trans)
qed simp

lemma Init_moved: "moved (length (elems s)) s (heap_Init h s)"
  by (simp add: heap_Init_def Len initFrom_moved)

lemma Push_indexed: "indexed s \<Longrightarrow> x \<notin> set (elems s) \<Longrightarrow> indexed (Push h s x)"
  by (auto simp: indexed_def Push Push_idx nth_append less_Suc_eq dest: nth_mem)

lemma heap_Push_effect:
  "frame (heap_Push h s x) = frame s"
  "mset (elems (heap_Push h s x)) = add_mset x (mset (elems s))"
  "indexed s \<Longrightarrow> x \<notin> set (elems s) \<Longrightarrow> indexed (heap_Push h s x)"
  using up_moved [of "length (elems s)" "Suc (length (elems s))" "Push h s x"] Push_indexed [of s x]
  by (simp_all add: heap_Push_def Let_def Len Push moved_def Push_frame)

text \<open>Taking the last element off.\<close>

lemma Pop_effect:
  assumes "elems s \<noteq> []"
  shows "\<exists>s'. Pop h s = (Some (last (elems s)), s') \<and> frame s' = frame s \<and> elems s' = butlast (elems s) \<and>
     mset (elems s) = add_mset (last (elems s)) (mset (elems s')) \<and> (indexed s \<longrightarrow> indexed s')"
proof -
  let ?s' = "snd (Pop h s)"
  have "Pop h s = (Some (last (elems s)), ?s')" using Pop [OF assms] by (metis prod.collapse)
  moreover have "mset (elems s) = add_mset (last (elems s)) (mset (butlast (elems s)))"
    using arg_cong [OF append_butlast_last_id [OF assms], of mset] by simp
  moreover have "indexed s \<longrightarrow> indexed ?s'"
    using assms by (auto simp: indexed_def Pop_elems Pop_idx nth_butlast distinct_butlast)
  ultimately show ?thesis using assms by (auto simp: Pop_elems Pop_frame)
qed

text \<open>
  \<open>extracts x s s'\<close>: the element \<open>x\<close> has been taken out of the queue.
\<close>

definition extracts :: "'x \<Rightarrow> 's \<Rightarrow> 's \<Rightarrow> bool" where
  "extracts x s s' \<longleftrightarrow> frame s' = frame s \<and> mset (elems s) = add_mset x (mset (elems s')) \<and>
     (indexed s \<longrightarrow> indexed s')"

text \<open>Both ways of removal bring an element to the end, permute the others and take it off.\<close>

lemma moved_Pop:
  assumes m: "moved (length (elems s) - 1) (Swap h s i (length (elems s) - 1)) t" and i: "i < length (elems s)"
  shows "\<exists>s'. Pop h t = (Some (elems s ! i), s') \<and> extracts (elems s ! i) s s' \<and> elems s' = butlast (elems t)"
proof -
  let ?n = "length (elems s) - 1"
  have n: "?n < length (elems s)" using i by simp
  have sw: "moved (length (elems s)) s (Swap h s i ?n)" using i n by (intro Swap_moved) simp_all
  have len: "length (elems t) = length (elems s)" using moved_length [OF m] moved_length [OF sw] by simp
  have "elems t ! ?n = elems s ! i"
    using m i n by (simp add: moved_def Swap swp_nth)
  then have l: "last (elems t) = elems s ! i" using len i by (subst last_conv_nth) auto
  have ne: "elems t \<noteq> []" using len i by auto
  show ?thesis
    using Pop_effect [OF ne] m sw unfolding l extracts_def moved_def by auto
qed

lemma heap_Pop_effect:
  assumes "elems s \<noteq> []"
  shows "\<exists>s'. heap_Pop h s = (Inr (Some (elems s ! 0)), s') \<and> extracts (elems s ! 0) s s' \<and>
    elems s' = butlast (elems (fst (heap_down h (Swap h s 0 (length (elems s) - 1)) 0 (length (elems s) - 1))))"
  using moved_Pop [of s 0 "fst (heap_down h (Swap h s 0 (length (elems s) - 1)) 0 (length (elems s) - 1))"] assms
    down_moved [of "length (elems s) - 1" "Swap h s 0 (length (elems s) - 1)" 0]
  by (auto simp: heap_Pop_def Len Let_def Swap)

text \<open>The state of a removal before the last element is taken off.\<close>

definition removing :: "nat \<Rightarrow> 's \<Rightarrow> 's" where
  "removing i s = (let n = length (elems s) - 1 in if n \<noteq> i then heap_settle h (Swap h s i n) i n else s)"

lemma heap_Remove_effect:
  assumes "i < length (elems s)"
  shows "\<exists>s'. heap_Remove h i s = (Inr (Some (elems s ! i)), s') \<and> extracts (elems s ! i) s s' \<and>
    elems s' = butlast (elems (removing i s))"
proof -
  let ?n = "length (elems s) - 1"
  have "\<exists>s'. Pop h (removing i s) = (Some (elems s ! i), s') \<and> extracts (elems s ! i) s s' \<and>
    elems s' = butlast (elems (removing i s))"
  proof (cases "?n = i")
    case True
    have ne: "elems s \<noteq> []" using assms by auto
    then have l: "last (elems s) = elems s ! i" using True by (simp add: last_conv_nth)
    have "removing i s = s" using True by (simp add: removing_def)
    then show ?thesis using Pop_effect [OF ne] unfolding l extracts_def by auto
  next
    case False
    then show ?thesis
      using moved_Pop [of s i "removing i s"] settle_moved [of i ?n "Swap h s i ?n"] assms
      by (auto simp: removing_def Let_def Swap)
  qed
  then show ?thesis using assms by (auto simp: heap_Remove_def Len removing_def Let_def)
qed

lemma heap_Fix_effect:
  "i < length (elems s) \<Longrightarrow> \<exists>s'. heap_Fix h i s = (Inr (), s') \<and> moved (length (elems s)) s s'"
  using settle_moved [of i "length (elems s)" s] by (simp add: heap_Fix_def Len)

lemma extracts_set: "extracts x s s' \<Longrightarrow> distinct (elems s) \<Longrightarrow> set (elems s') = set (elems s) - {x}"
  unfolding extracts_def
  by (metis Diff_insert_absorb distinct.simps(2) mset.simps(2) mset_eq_imp_distinct_iff mset_eq_setD list.simps(15))

end

locale go_heap_ordered = go_heap +
  assumes weak: "weak_order (lt f)"
begin

definition ordered :: "'a \<Rightarrow> bool" where
  "ordered s \<longleftrightarrow> heapOrd (lt (frame s)) 0 (length (elems s)) (elems s)"

lemma stop_below:
  assumes stop: "n \<le> 2 * i + 1 \<or> (\<exists>j. 0 < j \<and> j < n \<and> par j = i \<and> \<not> Less h s j i \<and>
         (\<forall>k. 0 < k \<and> k < n \<and> par k = i \<and> k \<noteq> j \<longrightarrow> Less h s j k \<or> \<not> Less h s k j))"
    and n: "n \<le> length (elems s)"
  shows "belowOk (lt (frame s)) n i (elems s)"
  using stop
proof (elim disjE exE conjE)
  assume "n \<le> 2 * i + 1" then show ?thesis by (simp add: belowOk_children)
next
  fix j assume j: "0 < j" "j < n" "par j = i" "\<not> Less h s j i"
    "\<forall>k. 0 < k \<and> k < n \<and> par k = i \<and> k \<noteq> j \<longrightarrow> Less h s j k \<or> \<not> Less h s k j"
  have i: "i < n" using j par_less [of j] by simp
  show ?thesis
    unfolding belowOk_def
  proof (intro allI impI; elim conjE)
    fix k assume k: "0 < k" "k < n" "par k = i"
    have "k = j \<or> \<not> lt (frame s) (elems s ! k) (elems s ! j)"
      using j(2,5) k n weak_order.asym [OF weak] by (auto simp: Less)
    moreover have "\<not> lt (frame s) (elems s ! j) (elems s ! i)" using j i n by (simp add: Less)
    ultimately show "\<not> lt (frame s) (elems s ! k) (elems s ! i)"
      using weak_order.trans [OF weak] by blast
  qed
qed

lemma sink_exc:
  assumes j: "0 < j" "j < n" "par j = i" "Less h s j i"
      "\<forall>k. 0 < k \<and> k < n \<and> par k = i \<and> k \<noteq> j \<longrightarrow> Less h s j k \<or> \<not> Less h s k j"
    and exc: "heapExc (lt (frame s)) m n i (elems s)" and n: "n \<le> length (elems s)" "m \<le> i"
  shows "heapExc (lt (frame s)) m n j (elems (Swap h s i j))" "aboveOk (lt (frame s)) m j (elems (Swap h s i j))"
    "frame (Swap h s i j) = frame s" "length (elems (Swap h s i j)) = length (elems s)" "i < j"
proof -
  show i: "i < j" using j par_less [of j] by simp
  have l: "lt (frame s) (elems s ! j) (elems s ! i)" using j i n by (simp add: Less)
  have least: "\<not> lt (frame s) (elems s ! k) (elems s ! j)" if "0 < k" "k < n" "par k = i" for k
    using that j n weak_order.asym [OF weak] by (cases "k = j") (auto simp: Less)
  have el: "elems (Swap h s i j) = swp i j (elems s)" using j i n by (simp add: Swap)
  show "frame (Swap h s i j) = frame s" "length (elems (Swap h s i j)) = length (elems s)"
    using j i n by (simp_all add: Swap Swap_frame)
  show "heapExc (lt (frame s)) m n j (elems (Swap h s i j))" "aboveOk (lt (frame s)) m j (elems (Swap h s i j))"
    unfolding el by (rule weak_order.sink_step [OF weak exc j(1,2,3) n l least]; assumption)+
qed

lemma down_ordered:
  assumes "heapExc (lt (frame s)) m n i (elems s)" "aboveOk (lt (frame s)) m i (elems s)"
    "n \<le> length (elems s)" "m \<le> i"
  shows "heapOrd (lt (frame s)) m n (elems (fst (heap_down h s i n)))"
  using assms
proof (induction "n - i" arbitrary: s i rule: less_induct)
  case less
  show ?case
  proof (cases rule: heap_down_cases [of h s i n])
    case stop
    then show ?thesis using less.prems stop_below [OF stop(2)] heapOrd_split by simp
  next
    case (sink j)
    note st = sink_exc [OF sink(1-5) less.prems(1,3,4)]
    have "heapOrd (lt (frame (Swap h s i j))) m n (elems (fst (heap_down h (Swap h s i j) j n)))"
      by (rule less.hyps) (use st sink(2) less.prems in auto)
    then show ?thesis unfolding sink(6) st(3) .
  qed
qed

lemma down_index: "i \<le> snd (heap_down h s i n)"
proof (induction "n - i" arbitrary: s i rule: less_induct)
  case less
  show ?case
  proof (cases rule: heap_down_cases [of h s i n])
    case stop then show ?thesis by simp
  next
    case (sink j)
    have "i < j" using sink par_less by blast
    moreover from this have "j \<le> snd (heap_down h (Swap h s i j) j n)" using sink(2) by (intro less.hyps) simp
    ultimately show ?thesis using sink(6) by simp
  qed
qed

lemma up_ordered:
  assumes "heapExc (lt (frame s)) 0 n j (elems s)" "belowOk (lt (frame s)) n j (elems s)"
    "j < n" "n \<le> length (elems s)"
  shows "heapOrd (lt (frame s)) 0 n (elems (heap_up h s j))"
  using assms
proof (induction j arbitrary: s rule: less_induct)
  case (less j)
  show ?case
  proof (cases "par j = j \<or> \<not> Less h s j (par j)")
    case True
    then have "heap_up h s j = s" by (subst heap_up.simps) (auto simp: Let_def par_def)
    moreover have "aboveOk (lt (frame s)) 0 j (elems s)"
      using True less.prems par_less [of j] by (auto simp: aboveOk_def Less)
    ultimately show ?thesis using less.prems heapOrd_split by metis
  next
    case False
    then have j: "0 < j" "par j < j" by (auto simp: par_def)
    have eq: "heap_up h s j = heap_up h (Swap h s (par j) j) (par j)"
      using False by (subst heap_up.simps) (auto simp: Let_def par_def)
    have "lt (frame s) (elems s ! j) (elems s ! par j)" using False j less.prems by (simp add: Less)
    note st = weak_order.rise_step [OF weak less.prems(1) j(1) less.prems(3,4,2) this]
    have el: "elems (Swap h s (par j) j) = swp (par j) j (elems s)" "frame (Swap h s (par j) j) = frame s"
      using j less.prems by (simp_all add: Swap Swap_frame)
    have "heapOrd (lt (frame (Swap h s (par j) j))) 0 n (elems (heap_up h (Swap h s (par j) j) (par j)))"
      by (rule less.IH) (use j st less.prems in \<open>auto simp: el\<close>)
    then show ?thesis unfolding eq el .
  qed
qed

lemma settle_ordered:
  assumes exc: "heapExc (lt (frame s)) 0 n i (elems s)" and n: "i < n" "n \<le> length (elems s)"
  shows "heapOrd (lt (frame s)) 0 n (elems (heap_settle h s i n))"
proof (cases rule: heap_down_cases [of h s i n])
  case stop
  then show ?thesis using exc n stop_below [OF stop(2)] by (simp add: heap_settle_def up_ordered)
next
  case (sink j)
  note st = sink_exc [OF sink(1-5) exc n(2)]
  have "i < snd (heap_down h (Swap h s i j) j n)" using down_index [of j "Swap h s i j" n] st by simp
  then show ?thesis
    using down_ordered [of "Swap h s i j" 0 n j] st n sink(6)
    by (auto simp: heap_settle_def split: prod.split)
qed

lemma heap_Push_ordered: "ordered s \<Longrightarrow> ordered (heap_Push h s x)"
proof -
  assume o: "ordered s"
  let ?n = "length (elems s)" and ?s = "Push h s x"
  have "heapExc (lt (frame s)) 0 (Suc ?n) ?n (elems ?s)" "belowOk (lt (frame s)) (Suc ?n) ?n (elems ?s)"
    using heapExc_append [of _ "elems s"] o by (simp_all add: ordered_def Push)
  then have "heapOrd (lt (frame s)) 0 (Suc ?n) (elems (heap_up h ?s ?n))"
    using up_ordered [of ?s "Suc ?n" ?n] by (simp add: Push Push_frame)
  moreover have "length (elems (heap_up h ?s ?n)) = Suc ?n"
    using moved_length [OF up_moved [of ?n "Suc ?n" ?s]] by (simp add: Push)
  ultimately show ?thesis using heap_Push_effect(1) [of s x]
    by (simp add: ordered_def heap_Push_def Let_def Len Push)
qed

lemma Swap_last_exc:
  assumes o: "ordered s" and i: "i < length (elems s) - 1"
  shows "heapExc (lt (frame s)) 0 (length (elems s) - 1) i (elems (Swap h s i (length (elems s) - 1)))"
proof -
  let ?n = "length (elems s) - 1"
  have exc: "heapExc (lt (frame s)) 0 (length (elems s)) i (elems s)"
    using weak_order.heapOrd_exc [OF weak] o by (simp add: ordered_def)
  have nth: "elems (Swap h s i ?n) ! k = elems s ! k" if "k < ?n" "k \<noteq> i" for k
    using that i by (simp add: Swap swp_nth)
  show ?thesis
    unfolding heapExc_def
  proof (intro conjI allI impI; elim conjE)
    fix k assume k: "0 < k" "k < ?n" "par k \<noteq> i" "k \<noteq> i"
    then have "par k < ?n" using par_less [of k] by simp
    then show "\<not> lt (frame s) (elems (Swap h s i ?n) ! k) (elems (Swap h s i ?n) ! par k)"
      using exc k nth [of k] nth [of "par k"] by (simp add: heapExc_def)
  next
    fix k assume k: "0 < i" "0 < k" "k < ?n" "par k = i"
    have "i < k" "par i < i" using k par_less by blast+
    moreover from this have "par i < ?n" using i by simp
    ultimately show "\<not> lt (frame s) (elems (Swap h s i ?n) ! k) (elems (Swap h s i ?n) ! par i)"
      using exc k nth [of k] nth [of "par i"] by (simp add: heapExc_def)
  qed
qed

lemma heap_Pop_ordered:
  assumes o: "ordered s" and run: "heap_Pop h s = (Inr x, s')" and ne: "elems s \<noteq> []"
  shows "ordered s'"
proof -
  let ?n = "length (elems s) - 1"
  let ?sw = "Swap h s 0 ?n" and ?t = "fst (heap_down h (Swap h s 0 ?n) 0 ?n)"
  have l: "length (elems ?sw) = length (elems s)" "frame ?sw = frame s" using ne by (simp_all add: Swap Swap_frame)
  have "heapExc (lt (frame s)) 0 ?n 0 (elems ?sw)"
  proof (cases "0 < ?n")
    case True then show ?thesis by (rule Swap_last_exc [OF o])
  qed (simp add: heapExc_def)
  then have "heapOrd (lt (frame s)) 0 ?n (elems ?t)"
    using down_ordered [of ?sw 0 ?n 0] l by (simp add: aboveOk_def)
  moreover have "length (elems ?t) = length (elems s)" using moved_length [OF down_moved [of ?n ?sw 0]] l by simp
  ultimately show ?thesis
    using heap_Pop_effect [OF ne] run heapOrd_butlast [of _ "elems ?t"] by (auto simp: ordered_def extracts_def)
qed

lemma heap_Remove_ordered:
  assumes o: "ordered s" and run: "heap_Remove h i s = (Inr x, s')" and i: "i < length (elems s)"
  shows "ordered s'"
proof -
  let ?n = "length (elems s) - 1"
  let ?sw = "Swap h s i ?n"
  have "heapOrd (lt (frame s)) 0 ?n (elems (removing i s)) \<and> length (elems (removing i s)) = length (elems s)"
  proof (cases "?n = i")
    case True
    have "k < ?n \<Longrightarrow> k < length (elems s)" for k by simp
    then show ?thesis using True o unfolding removing_def ordered_def heapOrd_def by auto
  next
    case False
    then have lt: "i < ?n" using i by simp
    have l: "length (elems ?sw) = length (elems s)" "frame ?sw = frame s" using i by (simp_all add: Swap Swap_frame)
    show ?thesis
      using settle_ordered [of ?sw ?n i] Swap_last_exc [OF o lt] moved_length [OF settle_moved [of i ?n ?sw]] lt l False
      by (simp add: removing_def Let_def)
  qed
  then show ?thesis
    using heap_Remove_effect [OF i] run heapOrd_butlast [of _ "elems (removing i s)"]
    by (auto simp: ordered_def extracts_def)
qed

lemma initFrom_ordered:
  "heapOrd (lt (frame s)) i n (elems s) \<Longrightarrow> n \<le> length (elems s) \<Longrightarrow>
     heapOrd (lt (frame s)) 0 n (elems (heap_initFrom h s i n))"
proof (induction i arbitrary: s)
  case (Suc i)
  have exc: "heapExc (lt (frame s)) i n i (elems s)" "aboveOk (lt (frame s)) i i (elems s)"
    using Suc.prems par_less [of i] by (auto simp: heapExc_def heapOrd_def aboveOk_def)
  have m: "moved n s (fst (heap_down h s i n))" using Suc.prems(2) by (rule down_moved)
  then have fr: "frame (fst (heap_down h s i n)) = frame s" by (simp add: moved_def)
  show ?case
    using Suc.IH [of "fst (heap_down h s i n)"] down_ordered [OF exc Suc.prems(2)] Suc.prems(2) moved_length [OF m]
    by (simp add: fr)
qed simp

lemma heap_Init_ordered: "ordered (heap_Init h s)"
proof -
  let ?n = "length (elems s)"
  have "heapOrd (lt (frame s)) (?n div 2) ?n (elems s)" by (auto simp: heapOrd_def par_def)
  then have "heapOrd (lt (frame s)) 0 ?n (elems (heap_Init h s))"
    by (simp add: heap_Init_def Len initFrom_ordered)
  then show ?thesis using Init_moved [of s] moved_length [OF Init_moved [of s]] by (simp add: ordered_def moved_def)
qed

lemma ordered_first: "ordered s \<Longrightarrow> x \<in> set (elems s) \<Longrightarrow> \<not> lt (frame s) x (elems s ! 0)"
  using weak_order.heapOrd_root [OF weak] by (auto simp: ordered_def in_set_conv_nth)

end

end
