(* ===== verification/ActQueue.thy ===== *)
theory ActQueue
  imports GoHeap
begin

text \<open>
  The queue of an account in the action pool (\<^verbatim>\<open>src/actpool/actqueue.go\<close>,
  \<^verbatim>\<open>src/actpool/priorityqueue.go\<close>).  A queue holds the actions of an account by nonce, two priority
  queues of the nonces, ascending and descending, and the pending nonce with the balance that is left
  before every pending nonce.

  A \<^verbatim>\<open>*nonceWithTTL\<close> is shared by the two priority queues, which both write into it: the cells are a
  store \<open>nodes\<close>, a pointer is its address, and \<open>allocated\<close> is the next free address.  A nil pointer in a
  list of actions is \<open>None\<close>.  The loop that advances the pending nonce wraps around at the largest
  nonce and may then run forever; it is a \<open>partial_function\<close> and the operations that call it have type
  \<open>lop\<close>, with \<open>None\<close> for not returning.

  The interface \<open>go_heap_ordered\<close> is interpreted for both priority queues.  \<open>queueInv\<close> is kept by every
  operation: the two priority queues hold the nonces of the actions, in heap order, the pending nonces
  are consecutive from the nonce of the account and all pending actions can be paid together.
\<close>

section \<open>Operations that may not return\<close>

type_synonym ('s, 'a) lop = "'s \<Rightarrow> ('a res \<times> 's) option"

section \<open>Data\<close>

text \<open>What the pool reads of a \<^verbatim>\<open>SealedEnvelope\<close> that has passed \<^verbatim>\<open>checkSelpData\<close>.\<close>

record selp =
  Hash :: "256 word"
  SenderAddress :: addr
  Nonce :: u64
  Cost :: int
  GasFeeCap :: int
  GasTipCap :: int
  BlobGasFeeCap :: int
  BlobHashes :: "256 word list"
  IntrinsicGas :: u64
  Destination :: "addr option"

record nonceWithTTL =
  ascIdx :: nat
  descIdx :: nat
  nttl_nonce :: u64
  deadline :: int

record actQueue =
  q_items :: "u64 \<rightharpoonup> selp"
  ascQueue :: "nat list"
  descQueue :: "nat list"
  nodes :: "nat \<Rightarrow> nonceWithTTL"
  allocated :: nat
  pendingNonce :: u64
  pendingBalance :: "u64 \<rightharpoonup> int"
  accountNonce :: u64
  accountBalance :: int
  q_ttl :: int

abbreviation nonceAt :: "actQueue \<Rightarrow> nat \<Rightarrow> u64" where
  "nonceAt q a \<equiv> nttl_nonce (nodes q a)"

section \<open>The two priority queues\<close>

definition asc_Less :: "actQueue \<Rightarrow> nat \<Rightarrow> nat \<Rightarrow> bool" where
  "asc_Less q i j \<longleftrightarrow> nonceAt q (ascQueue q ! i) < nonceAt q (ascQueue q ! j)"

definition setAscIdx :: "nat \<Rightarrow> nat \<Rightarrow> actQueue \<Rightarrow> actQueue" where
  "setAscIdx a i q = q\<lparr>nodes := (nodes q)(a := (nodes q a)\<lparr>ascIdx := i\<rparr>)\<rparr>"

definition asc_Swap :: "actQueue \<Rightarrow> nat \<Rightarrow> nat \<Rightarrow> actQueue" where
  "asc_Swap q i j =
    (let xs = swp i j (ascQueue q) in
     setAscIdx (xs ! j) j (setAscIdx (xs ! i) i (q\<lparr>ascQueue := xs\<rparr>)))"

definition asc_Push :: "actQueue \<Rightarrow> nat \<Rightarrow> actQueue" where
  "asc_Push q a = (setAscIdx a (length (ascQueue q)) q)\<lparr>ascQueue := ascQueue q @ [a]\<rparr>"

definition asc_Pop :: "actQueue \<Rightarrow> nat option \<times> actQueue" where
  "asc_Pop q = (if ascQueue q = [] then (None, q)
     else (Some (last (ascQueue q)), q\<lparr>ascQueue := butlast (ascQueue q)\<rparr>))"

definition ascHeap :: "(actQueue, nat) heapInterface" where
  "ascHeap = \<lparr>Len = (\<lambda>q. length (ascQueue q)), Less = asc_Less, Swap = asc_Swap, Push = asc_Push, Pop = asc_Pop\<rparr>"

definition desc_Less :: "actQueue \<Rightarrow> nat \<Rightarrow> nat \<Rightarrow> bool" where
  "desc_Less q i j \<longleftrightarrow> nonceAt q (descQueue q ! i) > nonceAt q (descQueue q ! j)"

definition setDescIdx :: "nat \<Rightarrow> nat \<Rightarrow> actQueue \<Rightarrow> actQueue" where
  "setDescIdx a i q = q\<lparr>nodes := (nodes q)(a := (nodes q a)\<lparr>descIdx := i\<rparr>)\<rparr>"

definition desc_Swap :: "actQueue \<Rightarrow> nat \<Rightarrow> nat \<Rightarrow> actQueue" where
  "desc_Swap q i j =
    (let xs = swp i j (descQueue q) in
     setDescIdx (xs ! j) j (setDescIdx (xs ! i) i (q\<lparr>descQueue := xs\<rparr>)))"

definition desc_Push :: "actQueue \<Rightarrow> nat \<Rightarrow> actQueue" where
  "desc_Push q a = (setDescIdx a (length (descQueue q)) q)\<lparr>descQueue := descQueue q @ [a]\<rparr>"

definition desc_Pop :: "actQueue \<Rightarrow> nat option \<times> actQueue" where
  "desc_Pop q = (if descQueue q = [] then (None, q)
     else (Some (last (descQueue q)), q\<lparr>descQueue := butlast (descQueue q)\<rparr>))"

definition descHeap :: "(actQueue, nat) heapInterface" where
  "descHeap = \<lparr>Len = (\<lambda>q. length (descQueue q)), Less = desc_Less, Swap = desc_Swap, Push = desc_Push, Pop = desc_Pop\<rparr>"

text \<open>What the operations of one priority queue leave as it is.\<close>

definition ascFrame :: "actQueue \<Rightarrow> actQueue" where
  "ascFrame q = q\<lparr>ascQueue := [], nodes := (\<lambda>a. (nodes q a)\<lparr>ascIdx := 0\<rparr>)\<rparr>"

definition descFrame :: "actQueue \<Rightarrow> actQueue" where
  "descFrame q = q\<lparr>descQueue := [], nodes := (\<lambda>a. (nodes q a)\<lparr>descIdx := 0\<rparr>)\<rparr>"

interpretation asc: go_heap_ordered ascHeap ascQueue "\<lambda>q a. ascIdx (nodes q a)" ascFrame
  "\<lambda>f a b. nonceAt f a < nonceAt f b"
  by unfold_locales
    (auto simp: ascHeap_def asc_Less_def asc_Swap_def asc_Push_def asc_Pop_def setAscIdx_def ascFrame_def Let_def
      swp_nth fun_eq_iff)

interpretation desc: go_heap_ordered descHeap descQueue "\<lambda>q a. descIdx (nodes q a)" descFrame
  "\<lambda>f a b. nonceAt f a > nonceAt f b"
  by unfold_locales
    (auto simp: descHeap_def desc_Less_def desc_Swap_def desc_Push_def desc_Pop_def setDescIdx_def descFrame_def
      Let_def swp_nth fun_eq_iff)

section \<open>The operations of the queue\<close>

definition NewActQueue :: "u64 \<Rightarrow> int \<Rightarrow> int \<Rightarrow> actQueue" where
  "NewActQueue nonce balance expiry =
    \<lparr>q_items = Map.empty, ascQueue = [], descQueue = [],
     nodes = (\<lambda>_. \<lparr>ascIdx = 0, descIdx = 0, nttl_nonce = 0, deadline = 0\<rparr>), allocated = 0,
     pendingNonce = nonce, pendingBalance = Map.empty, accountNonce = nonce, accountBalance = balance,
     q_ttl = expiry\<rparr>"

definition getPendingBalanceAtNonce :: "actQueue \<Rightarrow> u64 \<Rightarrow> int" where
  "getPendingBalanceAtNonce q nonce =
    (let n = (if nonce > pendingNonce q then pendingNonce q else nonce) in
     case pendingBalance q n of None \<Rightarrow> accountBalance q | Some b \<Rightarrow> b)"

text \<open>The loop of \<^verbatim>\<open>updateFromNonce\<close>; \<^verbatim>\<open>start++\<close> wraps around.\<close>

partial_function (option) updateLoop ::
  "(u64 \<rightharpoonup> selp) \<Rightarrow> u64 \<Rightarrow> int \<Rightarrow> (u64 \<rightharpoonup> int) \<Rightarrow> (u64 \<times> (u64 \<rightharpoonup> int)) option" where
  "updateLoop items start balance pb =
    (case items start of
       None \<Rightarrow> Some (start, pb)
     | Some act \<Rightarrow>
         if balance < Cost act then Some (start, pb)
         else updateLoop items (start + 1) (balance - Cost act) (pb(start + 1 \<mapsto> balance - Cost act)))"

definition updateFromNonce :: "u64 \<Rightarrow> actQueue \<Rightarrow> actQueue option" where
  "updateFromNonce start q =
    (if start > pendingNonce q then Some q
     else map_option (\<lambda>(n, pb). q\<lparr>pendingBalance := pb, pendingNonce := n\<rparr>)
       (updateLoop (q_items q) start (getPendingBalanceAtNonce q start) (pendingBalance q)))"

text \<open>A blob transaction is replaced only by a blob transaction with twice the caps.\<close>

definition blobUnderpriced :: "selp \<Rightarrow> selp \<Rightarrow> bool" where
  "blobUnderpriced actInPool act \<longleftrightarrow>
    BlobHashes actInPool \<noteq> [] \<and>
    (BlobHashes act = [] \<or> GasFeeCap act < GasFeeCap actInPool * 2 \<or> GasTipCap act < GasTipCap actInPool * 2 \<or>
     BlobGasFeeCap act < BlobGasFeeCap actInPool * 2)"

text \<open>The loop of \<^verbatim>\<open>Put\<close> that renews the deadline of the first cell with the nonce.\<close>

fun renewDeadline :: "u64 \<Rightarrow> int \<Rightarrow> nat list \<Rightarrow> actQueue \<Rightarrow> actQueue" where
  "renewDeadline nonce d [] q = q"
| "renewDeadline nonce d (a # as) q =
    (if nonceAt q a = nonce then q\<lparr>nodes := (nodes q)(a := (nodes q a)\<lparr>deadline := d\<rparr>)\<rparr>
     else renewDeadline nonce d as q)"

definition pushNonce :: "u64 \<Rightarrow> int \<Rightarrow> actQueue \<Rightarrow> actQueue" where
  "pushNonce nonce d q =
    (let a = allocated q;
         q1 = q\<lparr>allocated := Suc a,
                nodes := (nodes q)(a := \<lparr>ascIdx = 0, descIdx = 0, nttl_nonce = nonce, deadline = d\<rparr>)\<rparr>
     in heap_Push descHeap (heap_Push ascHeap q1 a) a)"

text \<open>The actions that \<^verbatim>\<open>Put\<close> hands to \<^verbatim>\<open>removeInvalidActs\<close> of the pool are its result.\<close>

definition Put :: "int \<Rightarrow> selp \<Rightarrow> (actQueue, selp option list) lop" where
  "Put now act q =
    (let nonce = Nonce act in
     if getPendingBalanceAtNonce q nonce < Cost act then Some (Inl ErrInsufficientFunds, q)
     else case q_items q nonce of
       Some actInPool \<Rightarrow>
         if nonce < pendingNonce q \<and> \<not> GasFeeCap act > GasFeeCap actInPool
         then Some (Inl ErrReplaceUnderpriced, q)
         else if blobUnderpriced actInPool act then Some (Inl ErrReplaceUnderpriced, q)
         else map_option (\<lambda>q'. (Inr [Some actInPool], q'))
           (updateFromNonce nonce
             (renewDeadline nonce (now + q_ttl q) (ascQueue q) (q\<lparr>q_items := (q_items q)(nonce \<mapsto> act)\<rparr>)))
     | None \<Rightarrow>
         let q1 = pushNonce nonce (now + q_ttl q) q; q2 = q1\<lparr>q_items := (q_items q1)(nonce \<mapsto> act)\<rparr> in
         if nonce = pendingNonce q2
         then map_option (\<lambda>q'. (Inr [], q')) (updateFromNonce (pendingNonce q2) q2)
         else Some (Inr [], q2))"

text \<open>
  \<^verbatim>\<open>cleanTimeout\<close>: the first loop overwrites a timed out entry with the last one, the second one
  copies what is left into the other slice and numbers the cells.
\<close>

function timeoutLoop :: "int \<Rightarrow> nat \<Rightarrow> nat \<Rightarrow> selp option list \<Rightarrow> actQueue \<Rightarrow> nat \<times> selp option list \<times> actQueue" where
  "timeoutLoop now i sz removed q =
    (if i < sz then
       let a = ascQueue q ! i; nonce = nonceAt q a in
       if now > deadline (nodes q a) \<and> nonce > pendingNonce q
       then timeoutLoop now i (sz - 1) (removed @ [q_items q nonce])
         (q\<lparr>q_items := (q_items q)(nonce := None), pendingBalance := (pendingBalance q)(nonce := None),
            ascQueue := (ascQueue q)[i := ascQueue q ! (sz - 1)]\<rparr>)
       else timeoutLoop now (Suc i) sz removed q
     else (sz, removed, q))"
  by pat_completeness auto
termination by (relation "measure (\<lambda>(now, i, sz, removed, q). sz - i)") auto

declare timeoutLoop.simps [simp del]

definition renumber :: "nat \<Rightarrow> actQueue \<Rightarrow> actQueue" where
  "renumber i q =
    (let a = ascQueue q ! i in
     setDescIdx a i (setAscIdx a i (q\<lparr>descQueue := (descQueue q)[i := a]\<rparr>)))"

definition cleanTimeout :: "int \<Rightarrow> (actQueue, selp option list) op" where
  "cleanTimeout now q =
    (if q_ttl q = 0 then (Inr [], q)
     else case timeoutLoop now 0 (length (ascQueue q)) [] q of
       (sz, removed, q1) \<Rightarrow>
         if length (descQueue q1) < sz then (Inl (Panic ''index out of range''), q1)
         else let q2 = fold renumber [0..<sz] q1;
                  q3 = q2\<lparr>ascQueue := take sz (ascQueue q2), descQueue := take sz (descQueue q2)\<rparr>
              in (Inr removed, heap_Init descHeap (heap_Init ascHeap q3)))"

definition UpdateQueue :: "int \<Rightarrow> (actQueue, selp option list) lop" where
  "UpdateQueue now q =
    (case cleanTimeout now q of
       (Inl e, q1) \<Rightarrow> Some (Inl e, q1)
     | (Inr removed, q1) \<Rightarrow> map_option (\<lambda>q2. (Inr removed, q2)) (updateFromNonce (pendingNonce q1) q1))"

text \<open>
  The loop of \<^verbatim>\<open>UpdateAccountState\<close>; every turn takes one entry off the ascending queue.
\<close>

lemma heap_Pop_asc:
  assumes "heap_Pop ascHeap q = (Inr x, q1)"
  shows "ascQueue q \<noteq> []" "x = Some (ascQueue q ! 0)" "length (ascQueue q1) < length (ascQueue q)"
proof -
  show ne: "ascQueue q \<noteq> []" using assms by (auto simp: heap_Pop_def ascHeap_def)
  from asc.heap_Pop_effect [OF ne] assms show "x = Some (ascQueue q ! 0)" by auto
  have "mset (ascQueue q) = add_mset (ascQueue q ! 0) (mset (ascQueue q1))"
    using asc.heap_Pop_effect [OF ne] assms by (auto simp: asc.extracts_def)
  then show "length (ascQueue q1) < length (ascQueue q)" by (metis lessI size_add_mset size_mset)
qed

lemma heap_Remove_desc:
  assumes "heap_Remove descHeap i q = (Inr x, q1)"
  shows "i < length (descQueue q)" "ascQueue q1 = ascQueue q"
proof -
  show i: "i < length (descQueue q)" using assms by (auto simp: heap_Remove_def descHeap_def split: if_splits)
  have "descFrame q1 = descFrame q"
    using desc.heap_Remove_effect [OF i] assms by (auto simp: desc.extracts_def)
  then have "ascQueue (descFrame q1) = ascQueue (descFrame q)" by simp
  then show "ascQueue q1 = ascQueue q" by (simp add: descFrame_def)
qed

function dropConfirmed :: "selp option list \<Rightarrow> (actQueue, selp option list) op" where
  "dropConfirmed removed q =
    (if ascQueue q \<noteq> [] \<and> nonceAt q (ascQueue q ! 0) < accountNonce q then
       case heap_Pop ascHeap q of
         (Inr (Some a), q1) \<Rightarrow>
           (case heap_Remove descHeap (descIdx (nodes q1 a)) q1 of
              (Inr x, q2) \<Rightarrow>
                let nonce = nonceAt q2 a in
                dropConfirmed (removed @ [q_items q2 nonce]) (q2\<lparr>q_items := (q_items q2)(nonce := None)\<rparr>)
            | (Inl e, q2) \<Rightarrow> (Inl e, q2))
       | (Inr None, q1) \<Rightarrow> (Inl (Panic ''interface conversion''), q1)
       | (Inl e, q1) \<Rightarrow> (Inl e, q1)
     else (Inr removed, q))"
  by pat_completeness auto
termination
  by (relation "measure (\<lambda>(removed, q). length (ascQueue q))")
    (auto dest!: sym [of _ "heap_Pop ascHeap _"] sym [of _ "heap_Remove descHeap _ _"] dest!: heap_Pop_asc(3) heap_Remove_desc(2))

declare dropConfirmed.simps [simp del]

definition UpdateAccountState :: "u64 \<Rightarrow> int \<Rightarrow> (actQueue, selp option list) op" where
  "UpdateAccountState nonce balance q =
    dropConfirmed [] (q\<lparr>pendingNonce := nonce, pendingBalance := Map.empty, accountNonce := nonce,
      accountBalance := balance\<rparr>)"

definition q_Len :: "actQueue \<Rightarrow> nat" where
  "q_Len q = card (dom (q_items q))"

definition q_Empty :: "actQueue \<Rightarrow> bool" where
  "q_Empty q \<longleftrightarrow> dom (q_items q) = {}"

definition q_Reset :: "actQueue \<Rightarrow> actQueue" where
  "q_Reset q = q\<lparr>q_items := Map.empty, ascQueue := [], descQueue := [], pendingNonce := 0,
     pendingBalance := Map.empty, accountNonce := 0, accountBalance := 0\<rparr>"

text \<open>The price is nil for an empty queue.\<close>

definition NextAction :: "actQueue \<Rightarrow> bool \<times> int option" where
  "NextAction q =
    (if ascQueue q = [] then (False, None)
     else (pendingNonce q > accountNonce q, map_option GasFeeCap (q_items q (nonceAt q (ascQueue q ! 0)))))"

text \<open>The loop of \<^verbatim>\<open>PendingActs\<close>, from the confirmed nonce and balance.\<close>

partial_function (option) pendingLoop ::
  "(u64 \<rightharpoonup> selp) \<Rightarrow> u64 \<Rightarrow> int \<Rightarrow> selp list \<Rightarrow> selp list option" where
  "pendingLoop items nonce balance acts =
    (case items nonce of
       None \<Rightarrow> Some acts
     | Some act \<Rightarrow>
         if balance < Cost act then Some acts
         else pendingLoop items (nonce + 1) (balance - Cost act) (acts @ [act]))"

text \<open>The first argument is the confirmed nonce and balance of the account, or the error of reading them.\<close>

definition PendingActs :: "(u64 \<times> int) res \<Rightarrow> actQueue \<Rightarrow> selp list option" where
  "PendingActs confirmed q =
    (if q_Len q = 0 then Some []
     else case confirmed of
       Inl e \<Rightarrow> Some []
     | Inr (nonce, balance) \<Rightarrow> pendingLoop (q_items q) nonce balance [])"

definition AllActs :: "actQueue \<Rightarrow> selp option list" where
  "AllActs q = (if q_Len q = 0 then [] else map (\<lambda>a. q_items q (nonceAt q a)) (ascQueue q))"

definition PopActionWithLargestNonce :: "(actQueue, selp option) lop" where
  "PopActionWithLargestNonce q =
    (if q_Len q = 0 then Some (Inr None, q)
     else case heap_Pop descHeap q of
       (Inl e, q1) \<Rightarrow> Some (Inl e, q1)
     | (Inr None, q1) \<Rightarrow> Some (Inl (Panic ''interface conversion''), q1)
     | (Inr (Some a), q1) \<Rightarrow>
         (case heap_Remove ascHeap (ascIdx (nodes q1 a)) q1 of
            (Inl e, q2) \<Rightarrow> Some (Inl e, q2)
          | (Inr _, q2) \<Rightarrow>
              let nonce = nonceAt q2 a in
              map_option (\<lambda>q3. (Inr (q_items q2 nonce), q3))
                (updateFromNonce nonce (q2\<lparr>q_items := (q_items q2)(nonce := None)\<rparr>))))"

section \<open>Consecutive nonces\<close>

lemma u64_next: "(x :: u64) \<noteq> - 1 \<Longrightarrow> unat (x + 1) = Suc (unat x)"
  using unatSuc [of x] by (metis add.commute add_eq_0_iff)

lemma u64_next_less: "(x :: u64) \<noteq> - 1 \<Longrightarrow> x < x + 1"
  by (simp add: word_less_nat_alt u64_next)

lemma u64_less_next: "(x :: u64) \<noteq> - 1 \<Longrightarrow> x < y \<longleftrightarrow> x + 1 \<le> y"
  by (simp add: word_less_nat_alt word_le_nat_alt u64_next Suc_le_eq)

lemma u64_top: "(x :: u64) < y \<Longrightarrow> x \<noteq> - 1"
  by (metis word_not_simps(2) word_order.extremum_strict)

text \<open>The balance before a nonce, read from the pending balances.\<close>

definition balAt :: "(u64 \<rightharpoonup> int) \<Rightarrow> int \<Rightarrow> u64 \<Rightarrow> int" where
  "balAt pb b n = (case pb n of None \<Rightarrow> b | Some x \<Rightarrow> x)"

text \<open>The nonces from \<open>s\<close> to before \<open>e\<close> are taken, and each action is paid from what the last one left.\<close>

definition payable :: "(u64 \<rightharpoonup> selp) \<Rightarrow> (u64 \<rightharpoonup> int) \<Rightarrow> int \<Rightarrow> u64 \<Rightarrow> u64 \<Rightarrow> bool" where
  "payable items pb b s e \<longleftrightarrow> (\<forall>n. s \<le> n \<and> n < e \<longrightarrow>
     (\<exists>act. items n = Some act \<and> Cost act \<le> balAt pb b n \<and> pb (n + 1) = Some (balAt pb b n - Cost act)))"

lemma updateLoop_spec:
  assumes "items (- 1) = None" "balAt pb ab s = b"
  shows "\<exists>e pb'. updateLoop items s b pb = Some (e, pb') \<and> s \<le> e \<and> (\<forall>n \<le> s. pb' n = pb n) \<and>
    payable items pb' ab s e \<and> (\<forall>act. items e = Some act \<longrightarrow> balAt pb' ab e < Cost act)"
  using assms
proof (induction "unat (- 1 - s)" arbitrary: s b pb rule: less_induct)
  case less
  show ?case
  proof (cases "\<exists>act. items s = Some act \<and> Cost act \<le> b")
    case False
    then have "updateLoop items s b pb = Some (s, pb)"
      by (subst updateLoop.simps) (auto split: option.splits)
    then show ?thesis using False less.prems by (auto simp: payable_def)
  next
    case True
    then obtain act where act: "items s = Some act" "Cost act \<le> b" by blast
    then have s: "s \<noteq> - 1" using less.prems by auto
    let ?pb = "pb(s + 1 \<mapsto> b - Cost act)"
    have eq: "updateLoop items s b pb = updateLoop items (s + 1) (b - Cost act) ?pb"
      using act by (subst updateLoop.simps) simp
    have m: "unat (- 1 - (s + 1)) < unat (- 1 - s)"
    proof -
      have "(- 1 - s) - 1 = - 1 - (s + 1)" "- 1 - s \<noteq> 0" using s by (auto simp: algebra_simps)
      then show ?thesis by (metis measure_unat)
    qed
    have bal: "balAt ?pb ab (s + 1) = b - Cost act" by (simp add: balAt_def)
    obtain e pb' where IH: "updateLoop items (s + 1) (b - Cost act) ?pb = Some (e, pb')" "s + 1 \<le> e"
      "\<forall>n \<le> s + 1. pb' n = ?pb n" "payable items pb' ab (s + 1) e"
      "\<forall>act. items e = Some act \<longrightarrow> balAt pb' ab e < Cost act"
      using less.hyps [OF m less.prems(1) bal] by blast
    have lt: "s < s + 1" using u64_next_less [OF s] .
    have low: "\<forall>n \<le> s. pb' n = pb n" using IH(3) lt by (auto dest: order_trans)
    have "payable items pb' ab s e"
      unfolding payable_def
    proof (intro allI impI)
      fix n assume n: "s \<le> n \<and> n < e"
      show "\<exists>act. items n = Some act \<and> Cost act \<le> balAt pb' ab n \<and> pb' (n + 1) = Some (balAt pb' ab n - Cost act)"
      proof (cases "n = s")
        case True
        have "balAt pb' ab s = b" using low less.prems(2) by (simp add: balAt_def)
        then show ?thesis using True act IH(3) by simp
      next
        case False
        then have "s + 1 \<le> n" using n u64_less_next [OF s, of n] by auto
        then show ?thesis using IH(4) n by (simp add: payable_def)
      qed
    qed
    then show ?thesis using eq IH low lt by auto
  qed
qed

section \<open>The invariant of a queue\<close>

definition heapsInv :: "actQueue \<Rightarrow> bool" where
  "heapsInv q \<longleftrightarrow>
    asc.indexed q \<and> desc.indexed q \<and> asc.ordered q \<and> desc.ordered q \<and>
    set (descQueue q) = set (ascQueue q) \<and> (\<forall>a \<in> set (ascQueue q). a < allocated q) \<and>
    inj_on (nonceAt q) (set (ascQueue q)) \<and> dom (q_items q) = nonceAt q ` set (ascQueue q)"

definition itemsInv :: "actQueue \<Rightarrow> bool" where
  "itemsInv q \<longleftrightarrow> (\<forall>n act. q_items q n = Some act \<longrightarrow> Nonce act = n \<and> accountNonce q \<le> n \<and> n \<noteq> - 1)"

definition pendingInv :: "actQueue \<Rightarrow> bool" where
  "pendingInv q \<longleftrightarrow> accountNonce q \<le> pendingNonce q \<and> pendingBalance q (accountNonce q) = None \<and>
     payable (q_items q) (pendingBalance q) (accountBalance q) (accountNonce q) (pendingNonce q)"

definition queueInv :: "actQueue \<Rightarrow> bool" where
  "queueInv q \<longleftrightarrow> heapsInv q \<and> itemsInv q \<and> pendingInv q"

text \<open>\<open>updateFromNonce\<close> returns and keeps the invariant when the nonces before the start are in order.\<close>

lemma updateFromNonce_spec:
  assumes top: "q_items q (- 1) = None"
    and pend: "accountNonce q \<le> pendingNonce q" "pendingBalance q (accountNonce q) = None"
      "payable (q_items q) (pendingBalance q) (accountBalance q) (accountNonce q) (min start (pendingNonce q))"
    and start: "accountNonce q \<le> start"
  shows "\<exists>n pb. updateFromNonce start q = Some (q\<lparr>pendingBalance := pb, pendingNonce := n\<rparr>) \<and>
    pendingInv (q\<lparr>pendingBalance := pb, pendingNonce := n\<rparr>)"
proof (cases "start > pendingNonce q")
  case True
  then have "updateFromNonce start q = Some (q\<lparr>pendingBalance := pendingBalance q, pendingNonce := pendingNonce q\<rparr>)"
    by (simp add: updateFromNonce_def)
  moreover have "pendingInv q" using True pend by (simp add: pendingInv_def)
  then have "pendingInv (q\<lparr>pendingBalance := pendingBalance q, pendingNonce := pendingNonce q\<rparr>)" by simp
  ultimately show ?thesis by blast
next
  case False
  let ?b = "getPendingBalanceAtNonce q start" and ?ab = "accountBalance q"
  have b: "balAt (pendingBalance q) ?ab start = ?b" using False by (simp add: getPendingBalanceAtNonce_def balAt_def)
  obtain e pb where up: "updateLoop (q_items q) start ?b (pendingBalance q) = Some (e, pb)" "start \<le> e"
      "\<forall>n \<le> start. pb n = pendingBalance q n" "payable (q_items q) pb ?ab start e"
    using updateLoop_spec [of "q_items q", OF top b] by blast
  have "payable (q_items q) pb ?ab (accountNonce q) e"
    unfolding payable_def
  proof (intro allI impI)
    fix n assume n: "accountNonce q \<le> n \<and> n < e"
    show "\<exists>act. q_items q n = Some act \<and> Cost act \<le> balAt pb ?ab n \<and> pb (n + 1) = Some (balAt pb ?ab n - Cost act)"
    proof (cases "start \<le> n")
      case True
      then show ?thesis using up(4) n by (simp add: payable_def)
    next
      case lt: False
      then have "n < start" by simp
      then have "n + 1 \<le> start" using u64_less_next [OF u64_top] by blast
      then show ?thesis using pend(3) n lt False up(3) by (auto simp: payable_def balAt_def)
    qed
  qed
  moreover have "updateFromNonce start q = Some (q\<lparr>pendingBalance := pb, pendingNonce := e\<rparr>)"
    using False up(1) by (simp add: updateFromNonce_def)
  moreover from calculation have "pendingInv (q\<lparr>pendingBalance := pb, pendingNonce := e\<rparr>)"
    using pend(1,2) start up(2,3) by (simp add: pendingInv_def)
  ultimately show ?thesis by blast
qed

section \<open>The two priority queues do not disturb each other\<close>

lemma frame_nonceAt [simp]: "nonceAt (ascFrame q) a = nonceAt q a" "nonceAt (descFrame q) a = nonceAt q a"
  by (simp_all add: ascFrame_def descFrame_def)

lemma asc_cong:
  assumes "ascQueue q' = ascQueue q" "\<And>a. a \<in> set (ascQueue q) \<Longrightarrow> nonceAt q' a = nonceAt q a"
  shows "asc.ordered q' = asc.ordered q"
    "(\<And>a. a \<in> set (ascQueue q) \<Longrightarrow> ascIdx (nodes q' a) = ascIdx (nodes q a)) \<Longrightarrow> asc.indexed q' = asc.indexed q"
proof -
  have "nonceAt q' (ascQueue q ! k) = nonceAt q (ascQueue q ! k)" if "k < length (ascQueue q)" for k
    using assms(2) that by simp
  moreover have "par k < length (ascQueue q)" if "0 < k" "k < length (ascQueue q)" for k
    using par_less [OF that(1)] that by simp
  ultimately show "asc.ordered q' = asc.ordered q" by (auto simp: asc.ordered_def heapOrd_def assms(1))
  show "(\<And>a. a \<in> set (ascQueue q) \<Longrightarrow> ascIdx (nodes q' a) = ascIdx (nodes q a)) \<Longrightarrow> asc.indexed q' = asc.indexed q"
    by (simp add: asc.indexed_def assms(1))
qed

lemma desc_cong:
  assumes "descQueue q' = descQueue q" "\<And>a. a \<in> set (descQueue q) \<Longrightarrow> nonceAt q' a = nonceAt q a"
  shows "desc.ordered q' = desc.ordered q"
    "(\<And>a. a \<in> set (descQueue q) \<Longrightarrow> descIdx (nodes q' a) = descIdx (nodes q a)) \<Longrightarrow> desc.indexed q' = desc.indexed q"
proof -
  have "nonceAt q' (descQueue q ! k) = nonceAt q (descQueue q ! k)" if "k < length (descQueue q)" for k
    using assms(2) that by simp
  moreover have "par k < length (descQueue q)" if "0 < k" "k < length (descQueue q)" for k
    using par_less [OF that(1)] that by simp
  ultimately show "desc.ordered q' = desc.ordered q" by (auto simp: desc.ordered_def heapOrd_def assms(1))
  show "(\<And>a. a \<in> set (descQueue q) \<Longrightarrow> descIdx (nodes q' a) = descIdx (nodes q a)) \<Longrightarrow> desc.indexed q' = desc.indexed q"
    by (simp add: desc.indexed_def assms(1))
qed

text \<open>\<open>sameBase q q'\<close>: nothing but the two priority queues and the indices in the cells differs.\<close>

definition sameBase :: "actQueue \<Rightarrow> actQueue \<Rightarrow> bool" where
  "sameBase q q' \<longleftrightarrow>
     q_items q' = q_items q \<and> allocated q' = allocated q \<and> pendingNonce q' = pendingNonce q \<and>
     pendingBalance q' = pendingBalance q \<and> accountNonce q' = accountNonce q \<and>
     accountBalance q' = accountBalance q \<and> q_ttl q' = q_ttl q \<and>
     (\<forall>a. nonceAt q' a = nonceAt q a \<and> deadline (nodes q' a) = deadline (nodes q a))"

lemma sameBase_trans: "sameBase q q' \<Longrightarrow> sameBase q' q'' \<Longrightarrow> sameBase q q''"
  by (simp add: sameBase_def)

lemma asc_frame:
  assumes "ascFrame q' = ascFrame q"
  shows "sameBase q q'" "descQueue q' = descQueue q" "desc.indexed q' = desc.indexed q"
    "desc.ordered q' = desc.ordered q" "descIdx (nodes q' a) = descIdx (nodes q a)"
proof -
  have nd: "(nodes q' a)\<lparr>ascIdx := 0\<rparr> = (nodes q a)\<lparr>ascIdx := 0\<rparr>" for a
    using arg_cong [OF assms, of nodes] by (simp add: ascFrame_def fun_eq_iff)
  have nn: "nonceAt q' a = nonceAt q a \<and> deadline (nodes q' a) = deadline (nodes q a) \<and>
      descIdx (nodes q' a) = descIdx (nodes q a)" for a
    using arg_cong [OF nd, of nttl_nonce] arg_cong [OF nd, of deadline] arg_cong [OF nd, of descIdx] by simp
  then show "descIdx (nodes q' a) = descIdx (nodes q a)" by simp
  show d: "descQueue q' = descQueue q" using arg_cong [OF assms, of descQueue] by (simp add: ascFrame_def)
  show "desc.indexed q' = desc.indexed q" "desc.ordered q' = desc.ordered q"
    using desc_cong [OF d] nn by simp_all
  have f: "f (ascFrame q') = f (ascFrame q)" for f :: "actQueue \<Rightarrow> 'x" using assms by simp
  show "sameBase q q'"
    using nn f [of q_items] f [of allocated] f [of pendingNonce] f [of pendingBalance] f [of accountNonce]
      f [of accountBalance] f [of q_ttl]
    by (simp add: sameBase_def ascFrame_def)
qed

lemma desc_frame:
  assumes "descFrame q' = descFrame q"
  shows "sameBase q q'" "ascQueue q' = ascQueue q" "asc.indexed q' = asc.indexed q"
    "asc.ordered q' = asc.ordered q" "ascIdx (nodes q' a) = ascIdx (nodes q a)"
proof -
  have nd: "(nodes q' a)\<lparr>descIdx := 0\<rparr> = (nodes q a)\<lparr>descIdx := 0\<rparr>" for a
    using arg_cong [OF assms, of nodes] by (simp add: descFrame_def fun_eq_iff)
  have nn: "nonceAt q' a = nonceAt q a \<and> deadline (nodes q' a) = deadline (nodes q a) \<and>
      ascIdx (nodes q' a) = ascIdx (nodes q a)" for a
    using arg_cong [OF nd, of nttl_nonce] arg_cong [OF nd, of deadline] arg_cong [OF nd, of ascIdx] by simp
  then show "ascIdx (nodes q' a) = ascIdx (nodes q a)" by simp
  show d: "ascQueue q' = ascQueue q" using arg_cong [OF assms, of ascQueue] by (simp add: descFrame_def)
  show "asc.indexed q' = asc.indexed q" "asc.ordered q' = asc.ordered q"
    using asc_cong [OF d] nn by simp_all
  have f: "f (descFrame q') = f (descFrame q)" for f :: "actQueue \<Rightarrow> 'x" using assms by simp
  show "sameBase q q'"
    using nn f [of q_items] f [of allocated] f [of pendingNonce] f [of pendingBalance] f [of accountNonce]
      f [of accountBalance] f [of q_ttl]
    by (simp add: sameBase_def descFrame_def)
qed

section \<open>Adding a nonce\<close>

lemma pushNonce_spec:
  fixes q :: actQueue and d :: int
  assumes inv: "heapsInv q" and new: "q_items q nonce = None"
  defines "q' \<equiv> pushNonce nonce d q"
  shows "heapsInv (q'\<lparr>q_items := (q_items q')(nonce \<mapsto> act)\<rparr>)" and
    "sameBase (q\<lparr>allocated := Suc (allocated q), nodes := nodes q'\<rparr>) q'"
proof -
  let ?a = "allocated q"
  define q1 where "q1 = q\<lparr>allocated := Suc ?a,
    nodes := (nodes q)(?a := \<lparr>ascIdx = 0, descIdx = 0, nttl_nonce = nonce, deadline = d\<rparr>)\<rparr>"
  define q2 where "q2 = heap_Push ascHeap q1 ?a"
  have q': "q' = heap_Push descHeap q2 ?a" by (simp add: q'_def pushNonce_def Let_def q1_def q2_def)
  have fresh: "?a \<notin> set (ascQueue q)" "?a \<notin> set (descQueue q)" using inv by (auto simp: heapsInv_def)
  have q1q: "ascQueue q1 = ascQueue q" "descQueue q1 = descQueue q" by (simp_all add: q1_def)
  have keep: "nodes q1 b = nodes q b" if "b \<in> set (ascQueue q) \<or> b \<in> set (descQueue q)" for b
    using that fresh by (auto simp: q1_def)
  have q1: "asc.indexed q1" "asc.ordered q1" "desc.indexed q1" "desc.ordered q1"
    using inv asc_cong [OF q1q(1)] desc_cong [OF q1q(2)] by (simp_all add: heapsInv_def keep)
  have f2: "ascFrame q2 = ascFrame q1" unfolding q2_def by (rule asc.heap_Push_effect(1))
  have q2: "asc.indexed q2" "asc.ordered q2" "mset (ascQueue q2) = add_mset ?a (mset (ascQueue q1))"
    unfolding q2_def using q1 fresh by (simp_all add: q1q asc.heap_Push_effect asc.heap_Push_ordered)
  note b2 = asc_frame [OF f2]
  have f3: "descFrame q' = descFrame q2" unfolding q' by (rule desc.heap_Push_effect(1))
  have q3: "desc.indexed q'" "desc.ordered q'" "mset (descQueue q') = add_mset ?a (mset (descQueue q2))"
    unfolding q' using q1 b2 fresh by (simp_all add: q1q desc.heap_Push_effect desc.heap_Push_ordered)
  note b3 = desc_frame [OF f3]
  have base: "sameBase q1 q'" using b2(1) b3(1) by (rule sameBase_trans)
  then show "sameBase (q\<lparr>allocated := Suc (allocated q), nodes := nodes q'\<rparr>) q'"
    by (simp add: sameBase_def q1_def)
  have s: "set (ascQueue q') = insert ?a (set (ascQueue q))" "set (descQueue q') = insert ?a (set (descQueue q))"
    using arg_cong [OF q2(3), of set_mset] arg_cong [OF q3(3), of set_mset] b2(2) b3(2) by (simp_all add: q1q)
  have old: "nonceAt q' b = nonceAt q b" if "b \<in> set (ascQueue q)" for b
    using base that fresh by (auto simp: sameBase_def q1_def)
  have na: "nonceAt q' ?a = nonce" using base by (simp add: sameBase_def q1_def)
  have img: "nonceAt q' ` set (ascQueue q) = dom (q_items q)" using inv old by (auto simp: heapsInv_def image_iff)
  have al: "allocated q' = Suc ?a" "q_items q' = q_items q" using base by (simp_all add: sameBase_def q1_def)
  let ?r = "q'\<lparr>q_items := (q_items q')(nonce \<mapsto> act)\<rparr>"
  have "asc.indexed ?r" "asc.ordered ?r" "desc.indexed ?r" "desc.ordered ?r"
    using q2 q3 b3 asc_cong [of ?r q'] desc_cong [of ?r q'] by simp_all
  moreover have "inj_on (nonceAt q') (set (ascQueue q'))"
  proof -
    have "inj_on (nonceAt q') (set (ascQueue q))"
      using inv old by (auto simp: heapsInv_def inj_on_def)
    moreover have "nonceAt q' ?a \<notin> nonceAt q' ` set (ascQueue q)" using img na new by auto
    ultimately show ?thesis by (simp add: s) blast
  qed
  moreover have "set (descQueue q') = set (ascQueue q')" "\<forall>b \<in> set (ascQueue q'). b < Suc ?a"
    using inv s by (auto simp: heapsInv_def)
  ultimately show "heapsInv ?r"
    using img na by (auto simp: heapsInv_def s al)
qed

section \<open>Removing a nonce\<close>

lemma heaps_extract:
  assumes inv: "heapsInv q" and a: "a \<in> set (ascQueue q)"
    and base: "sameBase q q'" and n: "nonce = nonceAt q a"
    and asc: "asc.indexed q'" "asc.ordered q'" "mset (ascQueue q) = add_mset a (mset (ascQueue q'))"
    and desc: "desc.indexed q'" "desc.ordered q'" "mset (descQueue q) = add_mset a (mset (descQueue q'))"
  shows "heapsInv (q'\<lparr>q_items := (q_items q')(nonce := None)\<rparr>)"
proof -
  let ?r = "q'\<lparr>q_items := (q_items q')(nonce := None)\<rparr>"
  have d: "distinct (ascQueue q)" "distinct (descQueue q)"
    using inv by (simp_all add: heapsInv_def asc.indexed_def desc.indexed_def)
  have "set (ascQueue q') = set (ascQueue q) - {a}" "set (descQueue q') = set (descQueue q) - {a}"
    using asc(3) desc(3) d
    by (metis Diff_insert_absorb distinct.simps(2) mset.simps(2) mset_eq_imp_distinct_iff mset_eq_setD list.simps(15))+
  moreover have "asc.indexed ?r" "asc.ordered ?r" "desc.indexed ?r" "desc.ordered ?r"
    using asc desc asc_cong [of ?r q'] desc_cong [of ?r q'] by simp_all
  moreover have nn: "nonceAt q' b = nonceAt q b" for b using base by (simp add: sameBase_def)
  moreover have "nonceAt q ` (set (ascQueue q) - {a}) = nonceAt q ` set (ascQueue q) - {nonce}"
    using inv a n by (auto simp: heapsInv_def inj_on_def)
  ultimately show ?thesis
    using inv base by (auto simp: heapsInv_def sameBase_def inj_on_def)
qed

text \<open>A step of \<open>dropConfirmed\<close>.\<close>

lemma asc_extract:
  assumes inv: "heapsInv q" and ne: "ascQueue q \<noteq> []"
  shows "\<exists>q1 q2 x. heap_Pop ascHeap q = (Inr (Some (ascQueue q ! 0)), q1) \<and>
    heap_Remove descHeap (descIdx (nodes q1 (ascQueue q ! 0))) q1 = (Inr x, q2) \<and> sameBase q q2 \<and>
    heapsInv (q2\<lparr>q_items := (q_items q2)(nonceAt q2 (ascQueue q ! 0) := None)\<rparr>)"
proof -
  let ?a = "ascQueue q ! 0"
  have a: "?a \<in> set (ascQueue q)" using ne by simp
  obtain q1 where q1: "heap_Pop ascHeap q = (Inr (Some ?a), q1)" "asc.extracts ?a q q1"
    using asc.heap_Pop_effect [OF ne] by blast
  note f1 = asc_frame [of q1 q]
  have fr1: "ascFrame q1 = ascFrame q" using q1 by (simp add: asc.extracts_def)
  obtain i where i: "i < length (descQueue q)" "descQueue q ! i = ?a"
    using inv a unfolding heapsInv_def by (metis in_set_conv_nth)
  then have ix: "descIdx (nodes q1 ?a) = i"
    using inv f1(5) [OF fr1, of ?a] by (auto simp: heapsInv_def desc.indexed_def)
  have i1: "i < length (descQueue q1)" "descQueue q1 ! i = ?a" using i f1(2) [OF fr1] by simp_all
  obtain q2 where q2: "heap_Remove descHeap i q1 = (Inr (Some ?a), q2)" "desc.extracts ?a q1 q2"
    using desc.heap_Remove_effect [OF i1(1)] i1(2) by auto
  have fr2: "descFrame q2 = descFrame q1" using q2 by (simp add: desc.extracts_def)
  have base: "sameBase q q2" using f1(1) [OF fr1] desc_frame(1) [OF fr2] by (rule sameBase_trans)
  have "asc.ordered q1" using asc.heap_Pop_ordered [OF _ q1(1) ne] inv by (simp add: heapsInv_def)
  moreover have "desc.ordered q2"
    using desc.heap_Remove_ordered [OF _ q2(1) i1(1)] inv f1(4) [OF fr1] by (simp add: heapsInv_def)
  ultimately have "heapsInv (q2\<lparr>q_items := (q_items q2)(nonceAt q2 ?a := None)\<rparr>)"
    using q1(2) q2(2) desc_frame [OF fr2] f1 [OF fr1] inv base
    by (intro heaps_extract [OF inv a base])
      (simp_all add: asc.extracts_def desc.extracts_def heapsInv_def sameBase_def)
  then show ?thesis using q1(1) q2(1) ix base by auto
qed

text \<open>The removals of \<open>PopActionWithLargestNonce\<close>.\<close>

lemma desc_extract:
  assumes inv: "heapsInv q" and ne: "descQueue q \<noteq> []"
  shows "\<exists>q1 q2 x. heap_Pop descHeap q = (Inr (Some (descQueue q ! 0)), q1) \<and>
    heap_Remove ascHeap (ascIdx (nodes q1 (descQueue q ! 0))) q1 = (Inr x, q2) \<and> sameBase q q2 \<and>
    heapsInv (q2\<lparr>q_items := (q_items q2)(nonceAt q2 (descQueue q ! 0) := None)\<rparr>)"
proof -
  let ?a = "descQueue q ! 0"
  have a: "?a \<in> set (ascQueue q)" using ne inv by (metis heapsInv_def length_greater_0_conv nth_mem)
  obtain q1 where q1: "heap_Pop descHeap q = (Inr (Some ?a), q1)" "desc.extracts ?a q q1"
    using desc.heap_Pop_effect [OF ne] by blast
  note f1 = desc_frame [of q1 q]
  have fr1: "descFrame q1 = descFrame q" using q1 by (simp add: desc.extracts_def)
  obtain i where i: "i < length (ascQueue q)" "ascQueue q ! i = ?a"
    using a by (auto simp: in_set_conv_nth)
  then have ix: "ascIdx (nodes q1 ?a) = i"
    using inv f1(5) [OF fr1, of ?a] by (auto simp: heapsInv_def asc.indexed_def)
  have i1: "i < length (ascQueue q1)" "ascQueue q1 ! i = ?a" using i f1(2) [OF fr1] by simp_all
  obtain q2 where q2: "heap_Remove ascHeap i q1 = (Inr (Some ?a), q2)" "asc.extracts ?a q1 q2"
    using asc.heap_Remove_effect [OF i1(1)] i1(2) by auto
  have fr2: "ascFrame q2 = ascFrame q1" using q2 by (simp add: asc.extracts_def)
  have base: "sameBase q q2" using f1(1) [OF fr1] asc_frame(1) [OF fr2] by (rule sameBase_trans)
  have "desc.ordered q1" using desc.heap_Pop_ordered [OF _ q1(1) ne] inv by (simp add: heapsInv_def)
  moreover have "asc.ordered q2"
    using asc.heap_Remove_ordered [OF _ q2(1) i1(1)] inv f1(4) [OF fr1] by (simp add: heapsInv_def)
  ultimately have "heapsInv (q2\<lparr>q_items := (q_items q2)(nonceAt q2 ?a := None)\<rparr>)"
    using q1(2) q2(2) asc_frame [OF fr2] f1 [OF fr1] inv base
    by (intro heaps_extract [OF inv a base])
      (simp_all add: asc.extracts_def desc.extracts_def heapsInv_def sameBase_def)
  then show ?thesis using q1(1) q2(1) ix base by auto
qed

lemma heapsInvD:
  assumes "heapsInv q"
  shows "set (descQueue q) = set (ascQueue q)" "dom (q_items q) = nonceAt q ` set (ascQueue q)"
    "asc.ordered q" "desc.ordered q" "asc.indexed q" "desc.indexed q"
  using assms by (simp_all only: heapsInv_def)

lemma heapsInv_dom:
  "heapsInv q \<Longrightarrow> ascQueue q = [] \<longleftrightarrow> dom (q_items q) = {}"
  "heapsInv q \<Longrightarrow> descQueue q = [] \<longleftrightarrow> dom (q_items q) = {}"
  using heapsInvD(1,2) [of q] by (metis image_is_empty set_empty)+

lemma asc_least: "heapsInv q \<Longrightarrow> n \<in> dom (q_items q) \<Longrightarrow> nonceAt q (ascQueue q ! 0) \<le> n"
proof -
  assume inv: "heapsInv q" and n: "n \<in> dom (q_items q)"
  then obtain a where "a \<in> set (ascQueue q)" "n = nonceAt q a" using heapsInvD(2) [OF inv] by blast
  then show ?thesis using asc.ordered_first [OF heapsInvD(3) [OF inv], of a] by simp
qed

lemma desc_greatest: "heapsInv q \<Longrightarrow> n \<in> dom (q_items q) \<Longrightarrow> n \<le> nonceAt q (descQueue q ! 0)"
proof -
  assume inv: "heapsInv q" and n: "n \<in> dom (q_items q)"
  then obtain a where "a \<in> set (descQueue q)" "n = nonceAt q a" using heapsInvD(1,2) [OF inv] by blast
  then show ?thesis using desc.ordered_first [OF heapsInvD(4) [OF inv], of a] by simp
qed

lemma asc_first_dom: "heapsInv q \<Longrightarrow> ascQueue q \<noteq> [] \<Longrightarrow> nonceAt q (ascQueue q ! 0) \<in> dom (q_items q)"
  using heapsInvD(2) [of q] by simp

lemma desc_first_dom: "heapsInv q \<Longrightarrow> descQueue q \<noteq> [] \<Longrightarrow> nonceAt q (descQueue q ! 0) \<in> dom (q_items q)"
  using heapsInvD(1,2) [of q] by (metis image_eqI length_greater_0_conv nth_mem)

text \<open>The nonces below a bound, in ascending order.\<close>

definition noncesBelow :: "(u64 \<rightharpoonup> selp) \<Rightarrow> u64 \<Rightarrow> u64 list" where
  "noncesBelow items b = sorted_list_of_set {n \<in> dom items. n < b}"

lemma noncesBelow_Cons:
  assumes "n \<in> dom items" "n < b" "\<And>m. m \<in> dom items \<Longrightarrow> n \<le> m"
  shows "noncesBelow items b = n # noncesBelow (items(n := None)) b"
proof -
  let ?S = "{m \<in> dom items. m < b}"
  have "Min ?S = n" using assms by (intro Min_eqI) auto
  moreover have "?S \<noteq> {}" using assms by auto
  moreover have "?S - {n} = {m \<in> dom (items(n := None)). m < b}" by auto
  ultimately show ?thesis unfolding noncesBelow_def by (simp add: sorted_list_of_set_nonempty)
qed

lemma dropConfirmed_spec:
  assumes "heapsInv q"
  shows "\<exists>q'. dropConfirmed removed q =
      (Inr (removed @ map (q_items q) (noncesBelow (q_items q) (accountNonce q))), q') \<and>
    heapsInv q' \<and> sameBase (q\<lparr>q_items := q_items q |` {accountNonce q..}, nodes := nodes q'\<rparr>) q'"
  using assms
proof (induction "card (dom (q_items q))" arbitrary: q removed rule: less_induct)
  case less
  let ?a = "ascQueue q ! 0"
  show ?case
  proof (cases "ascQueue q \<noteq> [] \<and> nonceAt q ?a < accountNonce q")
    case False
    have ge: "accountNonce q \<le> n" if "n \<in> dom (q_items q)" for n
      using False that asc_least [OF less.prems that] heapsInv_dom [OF less.prems] by auto
    then have "{n \<in> dom (q_items q). n < accountNonce q} = {}" by (auto simp: leD)
    then have "noncesBelow (q_items q) (accountNonce q) = []" unfolding noncesBelow_def by simp
    moreover have "q_items q |` {accountNonce q..} = q_items q"
      using ge by (intro ext) (metis atLeast_iff domIff restrict_map_def)
    moreover have "dropConfirmed removed q = (Inr removed, q)" using False by (subst dropConfirmed.simps) auto
    ultimately show ?thesis using less.prems by (simp add: sameBase_def)
  next
    case True
    define n where "n = nonceAt q ?a"
    obtain q1 q2 x where st: "heap_Pop ascHeap q = (Inr (Some ?a), q1)"
        "heap_Remove descHeap (descIdx (nodes q1 ?a)) q1 = (Inr x, q2)" "sameBase q q2"
        "heapsInv (q2\<lparr>q_items := (q_items q2)(nonceAt q2 ?a := None)\<rparr>)"
      using asc_extract [OF less.prems] True by blast
    have n2: "nonceAt q2 ?a = n" "q_items q2 = q_items q" "accountNonce q2 = accountNonce q"
      using st(3) by (simp_all add: sameBase_def n_def)
    let ?q = "q2\<lparr>q_items := (q_items q)(n := None)\<rparr>"
    have eq: "dropConfirmed removed q = dropConfirmed (removed @ [q_items q n]) ?q"
      using True st(1,2) n2 by (subst dropConfirmed.simps) (simp add: Let_def)
    have nd: "n \<in> dom (q_items q)" using asc_first_dom [OF less.prems] True by (simp add: n_def)
    have inv: "heapsInv ?q" using st(4) n2 by simp
    have "card (dom (q_items ?q)) < card (dom (q_items q))"
      using card_Diff1_less [of "dom (q_items q)" n] nd by simp
    from less.hyps [OF this inv, of "removed @ [q_items q n]"] obtain q' where
      q': "dropConfirmed (removed @ [q_items q n]) ?q = (Inr ((removed @ [q_items q n]) @
         map (q_items ?q) (noncesBelow (q_items ?q) (accountNonce ?q))), q')" "heapsInv q'"
        "sameBase (?q\<lparr>q_items := q_items ?q |` {accountNonce ?q..}, nodes := nodes q'\<rparr>) q'" by blast
    have "noncesBelow (q_items q) (accountNonce q) = n # noncesBelow ((q_items q)(n := None)) (accountNonce q)"
      using noncesBelow_Cons [OF nd] asc_least [OF less.prems] True by (simp add: n_def)
    moreover have "map ((q_items q)(n := None)) (noncesBelow ((q_items q)(n := None)) (accountNonce q)) =
        map (q_items q) (noncesBelow ((q_items q)(n := None)) (accountNonce q))"
      unfolding noncesBelow_def by (intro map_cong) auto
    ultimately have "dropConfirmed removed q =
        (Inr (removed @ map (q_items q) (noncesBelow (q_items q) (accountNonce q))), q')"
      using eq q'(1) n2 by simp
    moreover have "(q_items q)(n := None) |` {accountNonce q..} = q_items q |` {accountNonce q..}"
      using True by (auto simp: n_def restrict_map_def fun_eq_iff)
    then have "sameBase (q\<lparr>q_items := q_items q |` {accountNonce q..}, nodes := nodes q'\<rparr>) q'"
      using q'(3) st(3) n2 by (simp add: sameBase_def)
    ultimately show ?thesis using q'(2) by blast
  qed
qed

lemma UpdateAccountState_spec:
  assumes inv: "queueInv q"
  shows "\<exists>q'. UpdateAccountState nonce balance q = (Inr (map (q_items q) (noncesBelow (q_items q) nonce)), q') \<and>
    queueInv q' \<and> q_items q' = q_items q |` {nonce..} \<and> pendingNonce q' = nonce \<and> accountNonce q' = nonce \<and>
    accountBalance q' = balance \<and> pendingBalance q' = Map.empty"
proof -
  let ?q = "q\<lparr>pendingNonce := nonce, pendingBalance := Map.empty, accountNonce := nonce, accountBalance := balance\<rparr>"
  have "heapsInv ?q"
    using inv asc_cong [of ?q q] desc_cong [of ?q q] by (simp add: queueInv_def heapsInv_def)
  from dropConfirmed_spec [OF this, of "[]"] obtain q' where q':
    "UpdateAccountState nonce balance q = (Inr (map (q_items q) (noncesBelow (q_items q) nonce)), q')" "heapsInv q'"
    "sameBase (?q\<lparr>q_items := q_items q |` {nonce..}, nodes := nodes q'\<rparr>) q'"
    by (auto simp: UpdateAccountState_def)
  have f: "q_items q' = q_items q |` {nonce..}" "pendingNonce q' = nonce" "accountNonce q' = nonce"
    "accountBalance q' = balance" "pendingBalance q' = Map.empty"
    using q'(3) by (simp_all add: sameBase_def)
  moreover have "itemsInv q'" using inv f by (auto simp: queueInv_def itemsInv_def restrict_map_def)
  moreover have "pendingInv q'" using f by (auto simp: pendingInv_def payable_def)
  ultimately show ?thesis using q'(1,2) by (simp add: queueInv_def)
qed

section \<open>The operations that advance the pending nonce\<close>

lemma heapsInv_cong:
  assumes "ascQueue q' = ascQueue q" "descQueue q' = descQueue q" "dom (q_items q') = dom (q_items q)"
    "allocated q' = allocated q"
    "\<And>a. nonceAt q' a = nonceAt q a \<and> ascIdx (nodes q' a) = ascIdx (nodes q a) \<and>
       descIdx (nodes q' a) = descIdx (nodes q a)"
  shows "heapsInv q' = heapsInv q"
  using asc_cong [OF assms(1)] desc_cong [OF assms(2)] assms by (simp add: heapsInv_def)

lemma update_queueInv:
  assumes inv: "heapsInv q" "itemsInv q"
    and pend: "accountNonce q \<le> pendingNonce q" "pendingBalance q (accountNonce q) = None"
      "payable (q_items q) (pendingBalance q) (accountBalance q) (accountNonce q) (min start (pendingNonce q))"
    and start: "accountNonce q \<le> start"
  shows "\<exists>q'. updateFromNonce start q = Some q' \<and> queueInv q' \<and> q_items q' = q_items q \<and>
    accountNonce q' = accountNonce q \<and> accountBalance q' = accountBalance q \<and> ascQueue q' = ascQueue q"
proof -
  have "q_items q (- 1) = None" using inv(2) by (cases "q_items q (- 1)") (auto simp: itemsInv_def)
  from updateFromNonce_spec [OF this pend start] obtain n pb where
    u: "updateFromNonce start q = Some (q\<lparr>pendingBalance := pb, pendingNonce := n\<rparr>)"
       "pendingInv (q\<lparr>pendingBalance := pb, pendingNonce := n\<rparr>)" by blast
  have "heapsInv (q\<lparr>pendingBalance := pb, pendingNonce := n\<rparr>)"
    using inv(1) heapsInv_cong [of "q\<lparr>pendingBalance := pb, pendingNonce := n\<rparr>" q] by simp
  then show ?thesis using u inv(2) by (simp add: queueInv_def itemsInv_def)
qed

text \<open>Payments only depend on the actions before the end.\<close>

lemma payable_cong:
  "payable items pb b s e \<Longrightarrow> e' \<le> e \<Longrightarrow> (\<And>n. s \<le> n \<Longrightarrow> n < e' \<Longrightarrow> items' n = items n) \<Longrightarrow>
    payable items' pb b s e'"
  unfolding payable_def by (metis order_less_le_trans)

lemma PopActionWithLargestNonce_spec:
  assumes inv: "queueInv q" and ne: "dom (q_items q) \<noteq> {}"
  defines "n \<equiv> Max (dom (q_items q))"
  shows "\<exists>q'. PopActionWithLargestNonce q = Some (Inr (q_items q n), q') \<and> queueInv q' \<and>
    q_items q' = (q_items q)(n := None) \<and> accountNonce q' = accountNonce q \<and> accountBalance q' = accountBalance q"
proof -
  let ?a = "descQueue q ! 0"
  have h: "heapsInv q" and it: "itemsInv q" and pd: "pendingInv q" using inv by (simp_all add: queueInv_def)
  have nn: "descQueue q \<noteq> []" using heapsInv_dom(2) [OF h] ne by simp
  have n: "nonceAt q ?a = n"
    unfolding n_def using desc_first_dom [OF h nn] desc_greatest [OF h] by (intro Max_eqI [symmetric]) auto
  have nd: "n \<in> dom (q_items q)" using desc_first_dom [OF h nn] n by simp
  obtain q1 q2 x where st: "heap_Pop descHeap q = (Inr (Some ?a), q1)"
      "heap_Remove ascHeap (ascIdx (nodes q1 ?a)) q1 = (Inr x, q2)" "sameBase q q2"
      "heapsInv (q2\<lparr>q_items := (q_items q2)(nonceAt q2 ?a := None)\<rparr>)"
    using desc_extract [OF h nn] by blast
  let ?q = "q2\<lparr>q_items := (q_items q)(n := None)\<rparr>"
  have b: "nonceAt q2 ?a = n" "q_items q2 = q_items q" using st(3) n by (simp_all add: sameBase_def)
  have f: "accountNonce ?q = accountNonce q" "pendingNonce ?q = pendingNonce q" "accountBalance ?q = accountBalance q"
    "pendingBalance ?q = pendingBalance q" using st(3) by (simp_all add: sameBase_def)
  have "\<exists>q'. updateFromNonce n ?q = Some q' \<and> queueInv q' \<and> q_items q' = q_items ?q \<and>
      accountNonce q' = accountNonce ?q \<and> accountBalance q' = accountBalance ?q \<and> ascQueue q' = ascQueue ?q"
  proof (rule update_queueInv)
    show "heapsInv ?q" using st(4) b by simp
    show "itemsInv ?q" using it f by (auto simp: itemsInv_def)
    show "accountNonce ?q \<le> pendingNonce ?q" "pendingBalance ?q (accountNonce ?q) = None"
      using pd f by (simp_all add: pendingInv_def)
    show "accountNonce ?q \<le> n" using it nd f by (auto simp: itemsInv_def)
    show "payable (q_items ?q) (pendingBalance ?q) (accountBalance ?q) (accountNonce ?q) (min n (pendingNonce ?q))"
      unfolding f using pd unfolding pendingInv_def by (elim conjE payable_cong) auto
  qed
  moreover have "q_Len q \<noteq> 0" using ne by (simp add: q_Len_def)
  ultimately show ?thesis using st(1,2) b f by (auto simp: PopActionWithLargestNonce_def Let_def)
qed

lemma PopAction_empty: "dom (q_items q) = {} \<Longrightarrow> PopActionWithLargestNonce q = Some (Inr None, q)"
  by (simp add: PopActionWithLargestNonce_def q_Len_def)

section \<open>Putting an action\<close>

lemma renewDeadline_nodes: "\<exists>f. renewDeadline nonce d as q = q\<lparr>nodes := (\<lambda>a. (nodes q a)\<lparr>deadline := f a\<rparr>)\<rparr>"
proof (induction as)
  case Nil
  have "q = q\<lparr>nodes := (\<lambda>a. (nodes q a)\<lparr>deadline := deadline (nodes q a)\<rparr>)\<rparr>" by simp
  then show ?case by (metis renewDeadline.simps(1))
next
  case (Cons a as)
  have "(nodes q)(a := (nodes q a)\<lparr>deadline := d\<rparr>) =
      (\<lambda>b. (nodes q b)\<lparr>deadline := (if b = a then d else deadline (nodes q b))\<rparr>)" by auto
  then have "q\<lparr>nodes := (nodes q)(a := (nodes q a)\<lparr>deadline := d\<rparr>)\<rparr> =
      q\<lparr>nodes := (\<lambda>b. (nodes q b)\<lparr>deadline := (if b = a then d else deadline (nodes q b))\<rparr>)\<rparr>" by simp
  then show ?case using Cons by (cases "nonceAt q a = nonce") auto
qed

lemma Put_replace:
  assumes inv: "queueInv q" and n: "accountNonce q \<le> Nonce act" "q_items q (Nonce act) = Some old"
  shows "\<exists>q'. updateFromNonce (Nonce act)
      (renewDeadline (Nonce act) d (ascQueue q) (q\<lparr>q_items := (q_items q)(Nonce act \<mapsto> act)\<rparr>)) = Some q' \<and>
    queueInv q' \<and> q_items q' = (q_items q)(Nonce act \<mapsto> act) \<and>
    accountNonce q' = accountNonce q \<and> accountBalance q' = accountBalance q"
proof -
  let ?q = "q\<lparr>q_items := (q_items q)(Nonce act \<mapsto> act)\<rparr>"
  obtain f where f: "renewDeadline (Nonce act) d (ascQueue q) ?q = ?q\<lparr>nodes := (\<lambda>a. (nodes ?q a)\<lparr>deadline := f a\<rparr>)\<rparr>"
    using renewDeadline_nodes [of "Nonce act" d "ascQueue q" ?q] by blast
  let ?r = "?q\<lparr>nodes := (\<lambda>a. (nodes ?q a)\<lparr>deadline := f a\<rparr>)\<rparr>"
  have d: "dom (q_items ?r) = dom (q_items q)" using n(2) by auto
  have top: "Nonce act \<noteq> - 1" using inv n(2) by (auto simp: queueInv_def itemsInv_def)
  have "\<exists>q'. updateFromNonce (Nonce act) ?r = Some q' \<and> queueInv q' \<and> q_items q' = q_items ?r \<and>
      accountNonce q' = accountNonce ?r \<and> accountBalance q' = accountBalance ?r \<and> ascQueue q' = ascQueue ?r"
  proof (rule update_queueInv)
    show "heapsInv ?r" using heapsInv_cong [of ?r q, OF _ _ d] inv by (simp add: queueInv_def)
    show "itemsInv ?r" using inv n top by (auto simp: queueInv_def itemsInv_def)
    show "accountNonce ?r \<le> pendingNonce ?r" "pendingBalance ?r (accountNonce ?r) = None"
      using inv by (simp_all add: queueInv_def pendingInv_def)
    show "payable (q_items ?r) (pendingBalance ?r) (accountBalance ?r) (accountNonce ?r) (min (Nonce act) (pendingNonce ?r))"
      by (rule payable_cong [of "q_items q" _ _ _ "pendingNonce q"])
        (use inv in \<open>auto simp: queueInv_def pendingInv_def\<close>)
    show "accountNonce ?r \<le> Nonce act" using n(1) by simp
  qed
  then show ?thesis unfolding f by auto
qed

lemma Put_fresh:
  fixes d :: int
  assumes inv: "queueInv q" and n: "accountNonce q \<le> Nonce act" "Nonce act \<noteq> - 1" "q_items q (Nonce act) = None"
  defines "q2 \<equiv> (pushNonce (Nonce act) d q)\<lparr>q_items := (q_items (pushNonce (Nonce act) d q))(Nonce act \<mapsto> act)\<rparr>"
  shows "queueInv q2" "q_items q2 = (q_items q)(Nonce act \<mapsto> act)" "accountNonce q2 = accountNonce q"
    "accountBalance q2 = accountBalance q" "pendingNonce q2 = pendingNonce q"
proof -
  have h: "heapsInv q2" unfolding q2_def
    using pushNonce_spec(1) [OF _ n(3)] inv by (simp add: queueInv_def)
  have b: "sameBase (q\<lparr>allocated := Suc (allocated q), nodes := nodes (pushNonce (Nonce act) d q)\<rparr>) (pushNonce (Nonce act) d q)"
    using pushNonce_spec(2) [OF _ n(3)] inv by (simp add: queueInv_def)
  show f: "q_items q2 = (q_items q)(Nonce act \<mapsto> act)" "accountNonce q2 = accountNonce q"
    "accountBalance q2 = accountBalance q" "pendingNonce q2 = pendingNonce q"
    using b by (simp_all add: q2_def sameBase_def)
  have pb: "pendingBalance q2 = pendingBalance q" using b by (simp add: q2_def sameBase_def)
  have "itemsInv q2" using inv n by (auto simp: queueInv_def itemsInv_def f)
  moreover have "payable (q_items q2) (pendingBalance q) (accountBalance q) (accountNonce q) (pendingNonce q)"
    by (rule payable_cong [of "q_items q" _ _ _ "pendingNonce q"])
      (use inv n(3) in \<open>auto simp: queueInv_def pendingInv_def payable_def f\<close>)
  ultimately show "queueInv q2" using h inv by (simp add: queueInv_def pendingInv_def f pb)
qed

text \<open>
  \<open>Put\<close> returns: it refuses an action and leaves the queue, or it stores the action and hands out the one
  it replaces.
\<close>

lemma Put_spec:
  assumes inv: "queueInv q" and n: "accountNonce q \<le> Nonce act" "Nonce act \<noteq> - 1"
  shows "(\<exists>e. Put now act q = Some (Inl e, q) \<and> e \<in> {ErrInsufficientFunds, ErrReplaceUnderpriced}) \<or>
    (\<exists>q'. Put now act q = Some (Inr (case q_items q (Nonce act) of None \<Rightarrow> [] | Some old \<Rightarrow> [Some old]), q') \<and>
       queueInv q' \<and> q_items q' = (q_items q)(Nonce act \<mapsto> act) \<and> accountNonce q' = accountNonce q \<and>
       accountBalance q' = accountBalance q)"
proof (cases "q_items q (Nonce act)")
  case (Some old)
  show ?thesis using Put_replace [OF inv n(1) Some, of "now + q_ttl q"] Some
    by (auto simp: Put_def Let_def)
next
  case None
  define q2 where "q2 = (pushNonce (Nonce act) (now + q_ttl q) q)\<lparr>q_items :=
    (q_items (pushNonce (Nonce act) (now + q_ttl q) q))(Nonce act \<mapsto> act)\<rparr>"
  note q2 = Put_fresh [OF inv n None, of "now + q_ttl q", folded q2_def]
  have "\<exists>q'. updateFromNonce (pendingNonce q2) q2 = Some q' \<and> queueInv q' \<and> q_items q' = q_items q2 \<and>
      accountNonce q' = accountNonce q2 \<and> accountBalance q' = accountBalance q2 \<and> ascQueue q' = ascQueue q2"
    using q2(1) by (intro update_queueInv) (simp_all add: queueInv_def pendingInv_def)
  then show ?thesis using None q2 by (auto simp: Put_def Let_def q2_def [symmetric])
qed

section \<open>Removing what has timed out\<close>

definition expired :: "int \<Rightarrow> actQueue \<Rightarrow> nat \<Rightarrow> bool" where
  "expired now q a \<longleftrightarrow> now > deadline (nodes q a) \<and> nonceAt q a > pendingNonce q"

text \<open>Overwriting position \<open>i\<close> with the last element and shortening removes the element at \<open>i\<close>.\<close>

lemma take_overwrite:
  assumes "i < sz" "sz \<le> length xs" "distinct (take sz xs)"
  defines "ys \<equiv> xs[i := xs ! (sz - 1)]"
  shows "distinct (take (sz - 1) ys)" "take i ys = take i xs"
    "set (drop i (take (sz - 1) ys)) = set (drop i (take sz xs)) - {xs ! i}"
    "set (take (sz - 1) ys) = set (take sz xs) - {xs ! i}"
proof -
  have m: "mset (drop i (take sz xs)) = add_mset (xs ! i) (mset (drop i (take (sz - 1) ys)))"
  proof -
    have "drop i (take sz xs) = xs ! i # drop (Suc i) (take sz xs)"
      using assms(1,2) by (simp add: Cons_nth_drop_Suc [symmetric])
    moreover have "mset (drop (Suc i) (take sz xs)) = mset (drop i (take (sz - 1) ys))"
    proof (cases "Suc i = sz")
      case True then show ?thesis using assms(2) by (simp add: ys_def)
    next
      case False
      then have i: "i < sz - 1" using assms(1) by simp
      have "drop (Suc i) (take sz xs) = drop (Suc i) (take (sz - 1) xs) @ [xs ! (sz - 1)]"
        using i assms(2) take_Suc_conv_app_nth [of "sz - 1" xs] by simp
      moreover have "drop i (take (sz - 1) ys) = xs ! (sz - 1) # drop (Suc i) (take (sz - 1) xs)"
        using i assms(2) by (simp add: ys_def Cons_nth_drop_Suc [symmetric] take_update_swap)
      ultimately show ?thesis by simp
    qed
    ultimately show ?thesis by simp
  qed
  show t: "take i ys = take i xs" by (simp add: ys_def)
  have split: "take sz xs = take i xs @ drop i (take sz xs)" "take (sz - 1) ys = take i xs @ drop i (take (sz - 1) ys)"
    using assms(1,2) t by (metis append_take_drop_id less_imp_le_nat min.absorb1 take_take, metis append_take_drop_id min.absorb1 take_take Suc_pred' less_Suc_eq_le gr_implies_not0 not_gr_zero)
  have m': "mset (take sz xs) = add_mset (xs ! i) (mset (take (sz - 1) ys))"
    by (subst split(1), subst split(2)) (simp add: m)
  then have d: "distinct (xs ! i # take (sz - 1) ys)" using assms(3) by (metis mset.simps(2) mset_eq_imp_distinct_iff)
  then show "distinct (take (sz - 1) ys)" by simp
  have "xs ! i \<notin> set (drop i (take (sz - 1) ys))" using d by (meson distinct.simps(2) in_set_dropD)
  then show "set (drop i (take (sz - 1) ys)) = set (drop i (take sz xs)) - {xs ! i}"
    using arg_cong [OF m, of set_mset] by auto
  show "set (take (sz - 1) ys) = set (take sz xs) - {xs ! i}" using arg_cong [OF m', of set_mset] d by auto
qed

lemma restrict_map_UNIV: "m |` UNIV = m"
  by (rule ext) simp

lemma timeoutLoop_spec:
  assumes "i \<le> sz" "sz \<le> length (ascQueue q)" "distinct (take sz (ascQueue q))"
    "inj_on (nonceAt q) (set (take sz (ascQueue q)))"
    "E = {a \<in> set (drop i (take sz (ascQueue q))). expired now q a}"
  shows "\<exists>sz' r xs. timeoutLoop now i sz removed q = (sz', removed @ r,
       q\<lparr>q_items := q_items q |` (- nonceAt q ` E), pendingBalance := pendingBalance q |` (- nonceAt q ` E),
         ascQueue := xs\<rparr>) \<and>
     sz' \<le> sz \<and> length xs = length (ascQueue q) \<and> distinct (take sz' xs) \<and>
     set (take sz' xs) = set (take sz (ascQueue q)) - E \<and> set r = (\<lambda>a. q_items q (nonceAt q a)) ` E"
  using assms
proof (induction "sz - i" arbitrary: i sz removed q E rule: less_induct)
  case less
  let ?xs = "ascQueue q"
  show ?case
  proof (cases "i < sz")
    case False
    then have E: "E = {}" using less.prems(1) unfolding less.prems(5) by simp
    have "timeoutLoop now i sz removed q = (sz, removed @ [],
       q\<lparr>q_items := q_items q |` (- nonceAt q ` E), pendingBalance := pendingBalance q |` (- nonceAt q ` E),
         ascQueue := ?xs\<rparr>)"
      using False by (subst timeoutLoop.simps) (simp add: E restrict_map_UNIV)
    then show ?thesis using less.prems(3) E by (intro exI conjI) auto
  next
    case True
    have dr: "drop i (take sz ?xs) = ?xs ! i # drop (Suc i) (take sz ?xs)"
      using True less.prems(2) by (simp add: Cons_nth_drop_Suc [symmetric])
    show ?thesis
    proof (cases "expired now q (?xs ! i)")
      case ex: False
      then have eq: "timeoutLoop now i sz removed q = timeoutLoop now (Suc i) sz removed q"
        using True by (subst timeoutLoop.simps) (auto simp: Let_def expired_def)
      have E: "E = {a \<in> set (drop (Suc i) (take sz ?xs)). expired now q a}"
        unfolding less.prems(5) dr using ex by auto
      show ?thesis unfolding eq E
        using True less.prems(1-4) by (intro less.hyps) auto
    next
      case ex: True
      define n where "n = nonceAt q (?xs ! i)"
      define q1 where "q1 = q\<lparr>q_items := (q_items q)(n := None), pendingBalance := (pendingBalance q)(n := None),
        ascQueue := ?xs[i := ?xs ! (sz - 1)]\<rparr>"
      have eq: "timeoutLoop now i sz removed q = timeoutLoop now i (sz - 1) (removed @ [q_items q n]) q1"
        using True ex by (subst timeoutLoop.simps) (simp add: Let_def expired_def n_def q1_def)
      note ov = take_overwrite [OF True less.prems(2,3)]
      define E1 where "E1 = {a \<in> set (drop i (take (sz - 1) (ascQueue q1))). expired now q1 a}"
      have x: "?xs ! i \<in> set (drop i (take sz ?xs))" unfolding dr by simp
      have E1: "E = insert (?xs ! i) E1" "?xs ! i \<notin> E1"
        unfolding less.prems(5) E1_def using ex ov(3) x by (auto simp: q1_def expired_def)
      have sub: "set (drop i (take sz ?xs)) \<subseteq> set (take sz ?xs)" by (rule set_drop_subset)
      have nn: "nonceAt q a \<noteq> n" if "a \<in> E1" for a
        using that E1 less.prems(4) x sub unfolding less.prems(5) n_def inj_on_def by blast
      have "\<exists>sz' r xs. timeoutLoop now i (sz - 1) (removed @ [q_items q n]) q1 = (sz', (removed @ [q_items q n]) @ r,
         q1\<lparr>q_items := q_items q1 |` (- nonceAt q1 ` E1), pendingBalance := pendingBalance q1 |` (- nonceAt q1 ` E1),
           ascQueue := xs\<rparr>) \<and>
         sz' \<le> sz - 1 \<and> length xs = length (ascQueue q1) \<and> distinct (take sz' xs) \<and>
         set (take sz' xs) = set (take (sz - 1) (ascQueue q1)) - E1 \<and> set r = (\<lambda>a. q_items q1 (nonceAt q1 a)) ` E1"
        unfolding E1_def
        using True less.prems(2,4) ov(1,4)
        by (intro less.hyps) (auto simp: q1_def intro: inj_on_diff)
      then obtain sz' r xs where IH: "timeoutLoop now i (sz - 1) (removed @ [q_items q n]) q1 = (sz', (removed @ [q_items q n]) @ r,
         q1\<lparr>q_items := q_items q1 |` (- nonceAt q1 ` E1), pendingBalance := pendingBalance q1 |` (- nonceAt q1 ` E1),
           ascQueue := xs\<rparr>)"
         "sz' \<le> sz - 1" "length xs = length (ascQueue q1)" "distinct (take sz' xs)"
         "set (take sz' xs) = set (take (sz - 1) (ascQueue q1)) - E1" "set r = (\<lambda>a. q_items q1 (nonceAt q1 a)) ` E1"
        by blast
      have res: "(m(n := None)) |` (- nonceAt q ` E1) = m |` (- nonceAt q ` E)" for m :: "u64 \<rightharpoonup> 'x"
        by (rule ext) (simp add: E1 n_def restrict_map_def)
      have "timeoutLoop now i sz removed q = (sz', removed @ (q_items q n # r),
         q\<lparr>q_items := q_items q |` (- nonceAt q ` E), pendingBalance := pendingBalance q |` (- nonceAt q ` E),
           ascQueue := xs\<rparr>)"
        using eq IH(1) res [of "q_items q"] res [of "pendingBalance q"] by (simp add: q1_def)
      moreover have "set (q_items q n # r) = (\<lambda>a. q_items q (nonceAt q a)) ` E"
        using IH(6) nn by (auto simp: E1 n_def q1_def)
      moreover have "set (take sz' xs) = set (take sz ?xs) - E" using IH(5) ov(4) by (auto simp: E1 q1_def)
      ultimately show ?thesis using IH(2,3,4) by (intro exI conjI) (auto simp: q1_def)
    qed
  qed
qed

lemma renumber_spec:
  assumes "k \<le> length (ascQueue q)" "k \<le> length (descQueue q)" "distinct (take k (ascQueue q))"
    "q' = fold renumber [0..<k] q"
  shows "ascQueue q' = ascQueue q \<and> descQueue q' = take k (ascQueue q) @ drop k (descQueue q) \<and> sameBase q q' \<and>
    (\<forall>j < k. ascIdx (nodes q' (ascQueue q ! j)) = j \<and> descIdx (nodes q' (ascQueue q ! j)) = j)"
  using assms
proof (induction k arbitrary: q')
  case 0 then show ?case by (simp add: sameBase_def)
next
  case (Suc k)
  define p where "p = fold renumber [0..<k] q"
  have d: "distinct (take k (ascQueue q))" "ascQueue q ! k \<noteq> ascQueue q ! j" if "j < k" for j
    using Suc.prems(1,3) that by (simp_all add: take_Suc_conv_app_nth) (metis distinct_take nth_eq_iff_index_eq nth_take_lemma in_set_conv_nth length_take min.absorb2 nth_take Suc_leD)
  have IH: "ascQueue p = ascQueue q" "descQueue p = take k (ascQueue q) @ drop k (descQueue q)" "sameBase q p"
    "\<forall>j < k. ascIdx (nodes p (ascQueue q ! j)) = j \<and> descIdx (nodes p (ascQueue q ! j)) = j"
    using Suc.IH [of p] Suc.prems by (simp_all add: p_def take_Suc_conv_app_nth)
  have q': "q' = renumber k p" unfolding Suc.prems(4) p_def by simp
  have "descQueue q' = take (Suc k) (ascQueue q) @ drop (Suc k) (descQueue q)"
    using Suc.prems(1,2) IH(1,2)
    by (simp add: q' renumber_def Let_def setAscIdx_def setDescIdx_def list_update_append take_Suc_conv_app_nth
        Cons_nth_drop_Suc [symmetric])
  moreover have "sameBase q q'" "ascQueue q' = ascQueue q"
    using IH by (auto simp: q' renumber_def Let_def setAscIdx_def setDescIdx_def sameBase_def)
  moreover have "\<forall>j < Suc k. ascIdx (nodes q' (ascQueue q ! j)) = j \<and> descIdx (nodes q' (ascQueue q ! j)) = j"
    using IH(1,4) d(2) d(2) [THEN not_sym] by (auto simp: q' renumber_def Let_def setAscIdx_def setDescIdx_def less_Suc_eq)
  ultimately show ?case by blast
qed

text \<open>Both slices hold the same numbered cells; sorting them into heaps gives the invariant of the heaps.\<close>

lemma heap_Init_both:
  assumes same: "descQueue q = ascQueue q" and d: "distinct (ascQueue q)"
    and ix: "\<And>j. j < length (ascQueue q) \<Longrightarrow>
      ascIdx (nodes q (ascQueue q ! j)) = j \<and> descIdx (nodes q (ascQueue q ! j)) = j"
    and al: "\<forall>a \<in> set (ascQueue q). a < allocated q" and inj: "inj_on (nonceAt q) (set (ascQueue q))"
    and dom: "dom (q_items q) = nonceAt q ` set (ascQueue q)"
  defines "q' \<equiv> heap_Init descHeap (heap_Init ascHeap q)"
  shows "heapsInv q'" "sameBase q q'"
proof -
  define q1 where "q1 = heap_Init ascHeap q"
  have i0: "asc.indexed q" "desc.indexed q" using same d ix by (simp_all add: asc.indexed_def desc.indexed_def)
  have m1: "ascFrame q1 = ascFrame q" "mset (ascQueue q1) = mset (ascQueue q)" "asc.indexed q1" "asc.ordered q1"
    unfolding q1_def using asc.Init_moved [of q] i0 asc.heap_Init_ordered by (simp_all add: asc.moved_def)
  note f1 = asc_frame [OF m1(1)]
  have m2: "descFrame q' = descFrame q1" "mset (descQueue q') = mset (descQueue q1)" "desc.indexed q'" "desc.ordered q'"
    unfolding q'_def q1_def [symmetric] using desc.Init_moved [of q1] i0 f1 desc.heap_Init_ordered
    by (simp_all add: desc.moved_def)
  note f2 = desc_frame [OF m2(1)]
  show b: "sameBase q q'" using f1(1) f2(1) by (rule sameBase_trans)
  have s: "set (ascQueue q') = set (ascQueue q)" "set (descQueue q') = set (ascQueue q)"
    using m1(2) m2(2) f1(2) f2(2) same by (metis mset_eq_setD)+
  have nn: "nonceAt q' a = nonceAt q a" for a using b by (simp add: sameBase_def)
  show "heapsInv q'"
    using m1(3,4) m2(3,4) f2(3,4) al inj dom b by (simp add: heapsInv_def s nn sameBase_def)
qed

definition timedOut :: "int \<Rightarrow> actQueue \<Rightarrow> u64 set" where
  "timedOut now q = (if q_ttl q = 0 then {} else nonceAt q ` {a \<in> set (ascQueue q). expired now q a})"

lemma timedOut_pending: "n \<in> timedOut now q \<Longrightarrow> pendingNonce q < n"
  by (auto simp: timedOut_def expired_def split: if_splits)

lemma cleanTimeout_spec:
  assumes inv: "queueInv q"
  shows "\<exists>r q'. cleanTimeout now q = (Inr r, q') \<and> heapsInv q' \<and> q_items q' = q_items q |` (- timedOut now q) \<and>
    pendingBalance q' = pendingBalance q |` (- timedOut now q) \<and> pendingNonce q' = pendingNonce q \<and>
    accountNonce q' = accountNonce q \<and> accountBalance q' = accountBalance q \<and> q_ttl q' = q_ttl q \<and>
    set r = q_items q ` timedOut now q"
proof (cases "q_ttl q = 0")
  case True
  then show ?thesis using inv by (simp add: cleanTimeout_def timedOut_def restrict_map_UNIV queueInv_def)
next
  case False
  let ?N = "timedOut now q" and ?xs = "ascQueue q"
  define E where "E = {a \<in> set ?xs. expired now q a}"
  have N: "nonceAt q ` E = ?N" using False by (simp add: timedOut_def E_def)
  have h: "heapsInv q" using inv by (simp add: queueInv_def)
  have d: "distinct ?xs" "distinct (descQueue q)" "inj_on (nonceAt q) (set ?xs)"
    using h by (simp_all add: heapsInv_def asc.indexed_def desc.indexed_def)
  have len: "length (descQueue q) = length ?xs" using d heapsInvD(1) [OF h] by (metis distinct_card)
  have "\<exists>sz' r xs. timeoutLoop now 0 (length ?xs) [] q = (sz', [] @ r,
       q\<lparr>q_items := q_items q |` (- nonceAt q ` E), pendingBalance := pendingBalance q |` (- nonceAt q ` E),
         ascQueue := xs\<rparr>) \<and>
     sz' \<le> length ?xs \<and> length xs = length ?xs \<and> distinct (take sz' xs) \<and>
     set (take sz' xs) = set (take (length ?xs) ?xs) - E \<and> set r = (\<lambda>a. q_items q (nonceAt q a)) ` E"
    using d by (intro timeoutLoop_spec) (simp_all add: E_def)
  then obtain sz r xs where lp: "timeoutLoop now 0 (length ?xs) [] q = (sz, r,
       q\<lparr>q_items := q_items q |` (- ?N), pendingBalance := pendingBalance q |` (- ?N), ascQueue := xs\<rparr>)"
      "sz \<le> length ?xs" "length xs = length ?xs" "distinct (take sz xs)" "set (take sz xs) = set ?xs - E"
      "set r = (\<lambda>a. q_items q (nonceAt q a)) ` E"
    unfolding N by auto
  define q1 where "q1 = q\<lparr>q_items := q_items q |` (- ?N), pendingBalance := pendingBalance q |` (- ?N), ascQueue := xs\<rparr>"
  define q2 where "q2 = fold renumber [0..<sz] q1"
  define q3 where "q3 = q2\<lparr>ascQueue := take sz (ascQueue q2), descQueue := take sz (descQueue q2)\<rparr>"
  have r: "ascQueue q2 = xs \<and> descQueue q2 = take sz xs @ drop sz (descQueue q) \<and> sameBase q1 q2 \<and>
      (\<forall>j < sz. ascIdx (nodes q2 (xs ! j)) = j \<and> descIdx (nodes q2 (xs ! j)) = j)"
    using renumber_spec [of sz q1 q2] lp len by (simp add: q1_def q2_def)
  have q3: "ascQueue q3 = take sz xs" "descQueue q3 = take sz xs" "sameBase q1 q3" "nodes q3 = nodes q2"
    using r lp by (simp_all add: q3_def sameBase_def)
  have nn: "nonceAt q3 a = nonceAt q a" for a using q3(3) by (simp add: sameBase_def q1_def)
  have dm: "dom (q_items q3) = nonceAt q ` (set ?xs - E)"
  proof -
    have "dom (q_items q3) = dom (q_items q) - nonceAt q ` E" using q3(3) N by (auto simp: sameBase_def q1_def)
    also have "\<dots> = nonceAt q ` (set ?xs - E)"
      unfolding heapsInvD(2) [OF h] by (rule inj_on_image_set_diff [OF d(3), symmetric]) (auto simp: E_def)
    finally show ?thesis .
  qed
  have al: "allocated q3 = allocated q" using q3(3) by (simp add: sameBase_def q1_def)
  note fin = heap_Init_both [of q3]
  have pre: "heapsInv (heap_Init descHeap (heap_Init ascHeap q3))" "sameBase q3 (heap_Init descHeap (heap_Init ascHeap q3))"
    by (rule fin; use q3(1,2,4) lp(3,4,5) r h d dm al nn in
        \<open>auto simp: heapsInv_def intro: inj_on_subset\<close>)+
  have "cleanTimeout now q = (Inr r, heap_Init descHeap (heap_Init ascHeap q3))"
    using False lp(1,2) len by (simp add: cleanTimeout_def Let_def q1_def [symmetric] q2_def [symmetric] q3_def [symmetric])
      (simp add: q1_def)
  moreover have "set r = q_items q ` ?N" unfolding lp(6) N [symmetric] by (simp add: image_image)
  ultimately show ?thesis using pre q3(3) by (simp add: sameBase_def q1_def)
qed

lemma UpdateQueue_spec:
  assumes inv: "queueInv q"
  shows "\<exists>r q'. UpdateQueue now q = Some (Inr r, q') \<and> queueInv q' \<and>
    q_items q' = q_items q |` (- timedOut now q) \<and> accountNonce q' = accountNonce q \<and>
    accountBalance q' = accountBalance q \<and> set r = q_items q ` timedOut now q"
proof -
  obtain r q1 where c: "cleanTimeout now q = (Inr r, q1)" "heapsInv q1" "q_items q1 = q_items q |` (- timedOut now q)"
    "pendingBalance q1 = pendingBalance q |` (- timedOut now q)" "pendingNonce q1 = pendingNonce q"
    "accountNonce q1 = accountNonce q" "accountBalance q1 = accountBalance q" "set r = q_items q ` timedOut now q"
    using cleanTimeout_spec [OF inv, of now] by blast
  have keep: "m \<notin> timedOut now q" if "m \<le> pendingNonce q" for m
    using timedOut_pending [of m now q] that by auto
  have "payable (q_items q1) (pendingBalance q1) (accountBalance q) (accountNonce q) (pendingNonce q)"
    unfolding payable_def c(3,4)
  proof (intro allI impI)
    fix n assume n: "accountNonce q \<le> n \<and> n < pendingNonce q"
    then have "n \<le> pendingNonce q" "n + 1 \<le> pendingNonce q" using u64_less_next [OF u64_top] by auto
    with keep have k: "n \<notin> timedOut now q" "n + 1 \<notin> timedOut now q" by blast+
    have "payable (q_items q) (pendingBalance q) (accountBalance q) (accountNonce q) (pendingNonce q)"
      using inv by (simp add: queueInv_def pendingInv_def)
    then show "\<exists>act. (q_items q |` (- timedOut now q)) n = Some act \<and>
        Cost act \<le> balAt (pendingBalance q |` (- timedOut now q)) (accountBalance q) n \<and>
        (pendingBalance q |` (- timedOut now q)) (n + 1) =
          Some (balAt (pendingBalance q |` (- timedOut now q)) (accountBalance q) n - Cost act)"
      using n k by (simp add: payable_def balAt_def)
  qed
  moreover have "itemsInv q1" using inv c(3,6) by (auto simp: queueInv_def itemsInv_def restrict_map_def split: if_splits)
  moreover have "pendingBalance q1 (accountNonce q1) = None"
    using inv c(4,6) by (simp add: queueInv_def pendingInv_def restrict_map_def)
  moreover have "accountNonce q \<le> pendingNonce q" using inv by (simp add: queueInv_def pendingInv_def)
  ultimately obtain q2 where "updateFromNonce (pendingNonce q1) q1 = Some q2" "queueInv q2" "q_items q2 = q_items q1"
      "accountNonce q2 = accountNonce q" "accountBalance q2 = accountBalance q"
    using update_queueInv [of q1 "pendingNonce q1"] c by auto
  then show ?thesis using c by (simp add: UpdateQueue_def)
qed

section \<open>The life of a queue\<close>

lemma NewActQueue_inv: "queueInv (NewActQueue nonce balance expiry)"
  by (auto simp: queueInv_def heapsInv_def itemsInv_def pendingInv_def payable_def NewActQueue_def asc.indexed_def
      desc.indexed_def asc.ordered_def desc.ordered_def heapOrd_def)

lemma q_Reset_inv: "queueInv (q_Reset q)"
  by (auto simp: queueInv_def heapsInv_def itemsInv_def pendingInv_def payable_def q_Reset_def asc.indexed_def
      desc.indexed_def asc.ordered_def desc.ordered_def heapOrd_def)

text \<open>
  One call on the queue of an account.  The worker calls \<^verbatim>\<open>Put\<close> only with a nonce from the one of the account
  on (\<^verbatim>\<open>checkSelpWithState\<close>); the nonce before the wrap-around is left out.
\<close>

inductive queueStep :: "actQueue \<Rightarrow> actQueue \<Rightarrow> bool" where
  put: "accountNonce q \<le> Nonce act \<Longrightarrow> Nonce act \<noteq> - 1 \<Longrightarrow> Put now act q = Some (r, q') \<Longrightarrow> queueStep q q'"
| update: "UpdateQueue now q = Some (r, q') \<Longrightarrow> queueStep q q'"
| account: "UpdateAccountState nonce balance q = (r, q') \<Longrightarrow> queueStep q q'"
| popLargest: "PopActionWithLargestNonce q = Some (r, q') \<Longrightarrow> queueStep q q'"
| reset: "queueStep q (q_Reset q)"

lemma queueStep_inv: "queueStep q q' \<Longrightarrow> queueInv q \<Longrightarrow> queueInv q'"
proof (induction rule: queueStep.induct)
  case (put q act now r q')
  then show ?case using Put_spec [OF put.prems put.hyps(1,2), of now] by auto
next
  case (update now q r q')
  then show ?case using UpdateQueue_spec [OF update.prems, of now] by auto
next
  case (account nonce balance q r q')
  then show ?case using UpdateAccountState_spec [OF account.prems, of nonce balance] by auto
next
  case (popLargest q r q')
  then show ?case
    using PopActionWithLargestNonce_spec [OF popLargest.prems] PopAction_empty [of q] by (cases "dom (q_items q) = {}") auto
next
  case (reset q)
  show ?case by (rule q_Reset_inv)
qed

lemma queue_reachable_inv: "queueStep\<^sup>*\<^sup>* (NewActQueue nonce balance expiry) q \<Longrightarrow> queueInv q"
  by (induction rule: rtranclp_induct) (auto intro: NewActQueue_inv queueStep_inv)

text \<open>What is left before a pending nonce is the balance without the costs of all earlier actions.\<close>

lemma payable_balance:
  assumes pay: "payable items pb b s e" and start: "pb s = None" and m: "s \<le> m" "m \<le> e"
  shows "balAt pb b m = b - (\<Sum>k\<in>{s..<m}. Cost (the (items k)))"
  using m
proof (induction "unat m" arbitrary: m)
  case 0
  then have "m = s" by (simp add: unat_eq_zero)
  then show ?case using start by (simp add: balAt_def)
next
  case (Suc l)
  show ?case
  proof (cases "m = s")
    case True then show ?thesis using start by (simp add: balAt_def)
  next
    case False
    define p where "p = m - 1"
    have m: "m = p + 1" by (simp add: p_def)
    have "unat p = l" using Suc.hyps(2) unfolding p_def by (metis diff_Suc_1 unat_0 unat_minus_one zero_neq_one Suc_neq_Zero)
    moreover have top: "p \<noteq> - 1" using Suc.hyps(2) m by auto
    then have "s \<le> p" using False Suc.prems(1) m u64_less_next [OF top]
      by (metis linorder_not_less order_antisym_conv order_less_imp_le)
    moreover have pe: "p < e" using Suc.prems(2) m u64_less_next [OF top] by simp
    ultimately have IH: "balAt pb b p = b - (\<Sum>k\<in>{s..<p}. Cost (the (items k)))"
      using Suc.hyps(1) [of p] by simp
    have lt: "k < p + 1 \<longleftrightarrow> k \<le> p" for k using u64_less_next [OF top, of k] by (metis linorder_not_less)
    have "{s..<m} = {s..p}" unfolding m using lt by (simp add: set_eq_iff)
    also have "\<dots> = insert p {s..<p}" using \<open>s \<le> p\<close> by (rule ivl_disj_un_singleton(6) [symmetric, THEN trans]) simp
    finally have sm: "(\<Sum>k\<in>{s..<m}. Cost (the (items k))) = Cost (the (items p)) + (\<Sum>k\<in>{s..<p}. Cost (the (items k)))"
      by simp
    obtain act where "items p = Some act" "pb (p + 1) = Some (balAt pb b p - Cost act)"
      using pay \<open>s \<le> p\<close> pe by (auto simp: payable_def)
    then show ?thesis using IH sm m by (simp add: balAt_def)
  qed
qed

lemma payable_nonneg:
  assumes "payable items pb b s e" "pb s = None" "s < m" "m \<le> e"
  shows "(\<Sum>k\<in>{s..<m}. Cost (the (items k))) \<le> b"
proof -
  define p where "p = m - 1"
  have m: "m = p + 1" by (simp add: p_def)
  have "p \<noteq> - 1" using assms(3) m by auto
  then have p: "s \<le> p" "p < e" using assms(3,4) m u64_less_next [of p] by (metis linorder_not_less order_less_le_trans)+
  then obtain act where "items p = Some act" "Cost act \<le> balAt pb b p" "pb m = Some (balAt pb b p - Cost act)"
    using assms(1) m by (auto simp: payable_def)
  then have "0 \<le> balAt pb b m" by (simp add: balAt_def)
  then show ?thesis using payable_balance [OF assms(1,2) _ assms(4)] assms(3) by simp
qed

text \<open>\<^verbatim>\<open>PendingActs\<close> returns, with actions of consecutive nonces that the confirmed balance pays.\<close>

lemma pendingLoop_spec:
  assumes "items (- 1) = None"
  shows "\<exists>acts'. pendingLoop items nonce balance acts = Some (acts @ acts') \<and>
    (\<forall>i < length acts'. items (nonce + of_nat i) = Some (acts' ! i)) \<and>
    (acts' \<noteq> [] \<longrightarrow> sum_list (map Cost acts') \<le> balance)"
  using assms
proof (induction "unat (- 1 - nonce)" arbitrary: nonce balance acts rule: less_induct)
  case less
  show ?case
  proof (cases "\<exists>act. items nonce = Some act \<and> Cost act \<le> balance")
    case False
    then have "pendingLoop items nonce balance acts = Some (acts @ [])"
      by (subst pendingLoop.simps) (auto split: option.splits)
    then show ?thesis by (intro exI [of _ "[]"]) simp
  next
    case True
    then obtain act where act: "items nonce = Some act" "Cost act \<le> balance" by blast
    then have "nonce \<noteq> - 1" using less.prems by auto
    then have "(- 1 - nonce) - 1 = - 1 - (nonce + 1)" "- 1 - nonce \<noteq> 0" by (auto simp: algebra_simps)
    then have "unat (- 1 - (nonce + 1)) < unat (- 1 - nonce)" by (metis measure_unat)
    from less.hyps [OF this less.prems, of "balance - Cost act" "acts @ [act]"] obtain acts' where
      IH: "pendingLoop items (nonce + 1) (balance - Cost act) (acts @ [act]) = Some ((acts @ [act]) @ acts')"
        "\<forall>i < length acts'. items (nonce + 1 + of_nat i) = Some (acts' ! i)"
        "acts' \<noteq> [] \<longrightarrow> sum_list (map Cost acts') \<le> balance - Cost act" by blast
    have "items (nonce + of_nat i) = Some ((act # acts') ! i)" if "i < length (act # acts')" for i
      using that act IH(2) by (cases i) (auto simp: add.assoc)
    moreover have "sum_list (map Cost (act # acts')) \<le> balance" using IH(3) act by (cases acts') auto
    moreover have "pendingLoop items nonce balance acts = Some (acts @ (act # acts'))"
      using act IH(1) by (subst pendingLoop.simps) simp
    ultimately show ?thesis by blast
  qed
qed

section \<open>Pending actions\<close>

text \<open>
  Property C17.  In every state that a queue reaches, the nonces from the one of the account to the pending
  nonce are taken without a gap, each by the action with that nonce, and the balance of the account pays the
  actions up to any pending nonce together.
\<close>

theorem pending_actions_affordable:
  assumes "queueStep\<^sup>*\<^sup>* (NewActQueue nonce balance expiry) q"
  shows "accountNonce q \<le> pendingNonce q \<and>
    (\<forall>m. accountNonce q \<le> m \<and> m < pendingNonce q \<longrightarrow> (\<exists>act. q_items q m = Some act \<and> Nonce act = m)) \<and>
    (\<forall>m. accountNonce q < m \<and> m \<le> pendingNonce q \<longrightarrow>
       (\<Sum>k\<in>{accountNonce q..<m}. Cost (the (q_items q k))) \<le> accountBalance q)"
proof -
  have inv: "itemsInv q" "pendingInv q" using queue_reachable_inv [OF assms] by (simp_all add: queueInv_def)
  then have pay: "payable (q_items q) (pendingBalance q) (accountBalance q) (accountNonce q) (pendingNonce q)"
    "pendingBalance q (accountNonce q) = None" by (simp_all add: pendingInv_def)
  have "\<exists>act. q_items q m = Some act \<and> Nonce act = m" if "accountNonce q \<le> m \<and> m < pendingNonce q" for m
    using pay(1) inv(1) that unfolding payable_def itemsInv_def by blast
  moreover have "accountNonce q \<le> pendingNonce q" using inv(2) by (simp add: pendingInv_def)
  ultimately show ?thesis using payable_nonneg [OF pay] by blast
qed

definition sampleAct :: selp where
  "sampleAct = \<lparr>Hash = 7, SenderAddress = 3, Nonce = 1, Cost = 60, GasFeeCap = 2, GasTipCap = 1, BlobGasFeeCap = 0,
     BlobHashes = [], IntrinsicGas = 10000, Destination = None\<rparr>"

lemma heap_up_root: "heap_up h s 0 = s"
  by (subst heap_up.simps) simp

lemma sampleAct_push:
  "pushNonce 1 0 (NewActQueue 1 100 0) = (NewActQueue 1 100 0)\<lparr>allocated := 1, ascQueue := [0], descQueue := [0],
     nodes := (nodes (NewActQueue 1 100 0))(0 := \<lparr>ascIdx = 0, descIdx = 0, nttl_nonce = 1, deadline = 0\<rparr>)\<rparr>"
  by (simp add: pushNonce_def NewActQueue_def Let_def heap_Push_def ascHeap_def descHeap_def asc_Push_def
      desc_Push_def setAscIdx_def setDescIdx_def heap_up_root)

lemma sampleAct_loop: "updateLoop [1 \<mapsto> sampleAct] 1 100 Map.empty = Some (2, [2 \<mapsto> 40])"
proof -
  have "updateLoop [1 \<mapsto> sampleAct] 2 40 [2 \<mapsto> 40] = Some (2, [2 \<mapsto> 40])"
    by (subst updateLoop.simps) simp
  then show ?thesis by (subst updateLoop.simps) (simp add: sampleAct_def)
qed

lemma sampleAct_put:
  "\<exists>q. Put 0 sampleAct (NewActQueue 1 100 0) = Some (Inr [], q) \<and> accountNonce q = 1 \<and> pendingNonce q = 2 \<and>
     accountBalance q = 100 \<and> q_items q = [1 \<mapsto> sampleAct]"
proof -
  have a: "Nonce sampleAct = 1" "Cost sampleAct = 60" by (simp_all add: sampleAct_def)
  show ?thesis
    using sampleAct_push sampleAct_loop
    by (simp add: Put_def Let_def a updateFromNonce_def getPendingBalanceAtNonce_def NewActQueue_def)
qed

text \<open>Witness: the queue of a fresh account with balance 100 that takes an action of cost 60.\<close>

theorem pending_actions_affordable_witness:
  "\<exists>q. Put 0 sampleAct (NewActQueue 1 100 0) = Some (Inr [], q) \<and> accountNonce q = 1 \<and> pendingNonce q = 2 \<and>
     (\<Sum>k\<in>{1..<2}. Cost (the (q_items q k))) \<le> 100"
proof -
  obtain q where q: "Put 0 sampleAct (NewActQueue 1 100 0) = Some (Inr [], q)" "accountNonce q = 1"
      "pendingNonce q = 2" "accountBalance q = 100"
    using sampleAct_put by blast
  have "queueStep (NewActQueue 1 100 0) q"
    by (rule queueStep.put [OF _ _ q(1)]) (simp_all add: NewActQueue_def sampleAct_def)
  then have "queueStep\<^sup>*\<^sup>* (NewActQueue 1 100 0) q" by simp
  from pending_actions_affordable [OF this] q show ?thesis by (intro exI [of _ q]) simp
qed

end
