(* ===== verification/ActPool.thy ===== *)
theory ActPool
  imports ActQueue Ledger
begin

text \<open>
  The accounts of the action pool (\<^verbatim>\<open>src/actpool/accountpool.go\<close>), the worker that owns them
  (\<^verbatim>\<open>src/actpool/queueworker.go\<close>), the bookkeeping of the pool (\<^verbatim>\<open>src/actpool/actpool.go\<close>) and the count
  of blob transactions (\<^verbatim>\<open>src/actpool/validator.go\<close>).

  The pool has sixteen workers, each with its own accounts; \<open>worker\<close> is one of them together with what
  the workers share.  An \<^verbatim>\<open>*accountItem\<close> is an address in the store \<open>cells\<close>.  The cache type
  \<^verbatim>\<open>ttl.Cache\<close> of go-pkgs and the store of blob transactions are arguments of the model (\<open>pool_env\<close>), as
  are the confirmed accounts, the clock and the order in which Go visits a map.

  \<open>workerInv\<close>: the priority queue of accounts and the map agree, every queue satisfies its invariant and
  holds no nonce beyond the window of the account.
\<close>

section \<open>Data\<close>

text \<open>
  What the pool uses of its environment.  There are two caches, \<^verbatim>\<open>allActions\<close> with hashes as keys and
  \<^verbatim>\<open>emptyAccounts\<close> with addresses.
\<close>

record ('c, 'e, 'st) pool_env =
  acts_Set :: "256 word \<Rightarrow> selp \<Rightarrow> 'c \<Rightarrow> 'c"
  acts_Get :: "'c \<Rightarrow> 256 word \<Rightarrow> selp option"
  acts_Delete :: "256 word \<Rightarrow> 'c \<Rightarrow> 'c"
  acts_Count :: "'c \<Rightarrow> nat"
  empties_Set :: "addr \<Rightarrow> 'e \<Rightarrow> 'e"
  empties_Keys :: "'e \<Rightarrow> addr list"
  empties_Reset :: "'e \<Rightarrow> 'e"
  store_Put :: "selp \<Rightarrow> 'st \<Rightarrow> 'st"
  store_Delete :: "256 word \<Rightarrow> 'st \<Rightarrow> 'st"
  store_Get :: "'st \<Rightarrow> 256 word \<Rightarrow> selp res"
  AccountState :: "addr \<Rightarrow> account res"
  UseZeroNonceForFreshAccount :: bool
  MaxNumActsPerAcct :: u64
  ActionExpiry :: int
  Now :: int

record accountItem =
  index :: nat
  item_queue :: actQueue

record ('c, 'e, 'st) worker =
  accounts :: "addr \<rightharpoonup> nat"
  priorityQueue :: "nat list"
  cells :: "nat \<Rightarrow> accountItem"
  allocatedItems :: nat
  emptyAccounts :: 'e
  allActions :: 'c
  gasInPool :: u64
  accountDesActs :: "addr \<rightharpoonup> (256 word \<rightharpoonup> selp)"
  store :: "'st option"
  blobCntPerAcc :: "addr \<Rightarrow> u64"

abbreviation queueAt :: "('c, 'e, 'st) worker \<Rightarrow> nat \<Rightarrow> actQueue" where
  "queueAt w p \<equiv> item_queue (cells w p)"

definition setQueue :: "nat \<Rightarrow> actQueue \<Rightarrow> ('c, 'e, 'st) worker \<Rightarrow> ('c, 'e, 'st) worker" where
  "setQueue p q w = w\<lparr>cells := (cells w)(p := (cells w p)\<lparr>item_queue := q\<rparr>)\<rparr>"

text \<open>Sequencing operations that may fail or not return.\<close>

definition bindL :: "('s, 'a) lop \<Rightarrow> ('a \<Rightarrow> ('s, 'b) lop) \<Rightarrow> ('s, 'b) lop" where
  "bindL m f s = (case m s of None \<Rightarrow> None | Some (Inl e, s') \<Rightarrow> Some (Inl e, s') | Some (Inr x, s') \<Rightarrow> f x s')"

definition liftL :: "('s, 'a) op \<Rightarrow> ('s, 'a) lop" where
  "liftL m s = Some (m s)"

definition modL :: "('s \<Rightarrow> 's) \<Rightarrow> ('s, unit) lop" where
  "modL f s = Some (Inr (), f s)"

text \<open>An operation on the queue of an account.\<close>

definition onQueue :: "nat \<Rightarrow> (actQueue, 'a) lop \<Rightarrow> (('c, 'e, 'st) worker, 'a) lop" where
  "onQueue p m w = map_option (\<lambda>(r, q). (r, setQueue p q w)) (m (queueAt w p))"

section \<open>The priority queue of accounts\<close>

text \<open>\<^verbatim>\<open>Less\<close> compares what the two queues offer next: is it pending, and at which price.\<close>

definition nextLess :: "bool \<times> int option \<Rightarrow> bool \<times> int option \<Rightarrow> bool" where
  "nextLess i j \<longleftrightarrow>
    (case (i, j) of ((is, igp), (js, jgp)) \<Rightarrow>
      (case jgp of
         None \<Rightarrow> True
       | Some jp \<Rightarrow>
           (case igp of
              None \<Rightarrow> False
            | Some ip \<Rightarrow> if \<not> is \<and> js then True else if \<not> js \<and> is then False else ip < jp)))"

definition acct_Less :: "('c, 'e, 'st) worker \<Rightarrow> nat \<Rightarrow> nat \<Rightarrow> bool" where
  "acct_Less w i j \<longleftrightarrow>
    nextLess (NextAction (queueAt w (priorityQueue w ! i))) (NextAction (queueAt w (priorityQueue w ! j)))"

definition setIndex :: "nat \<Rightarrow> nat \<Rightarrow> ('c, 'e, 'st) worker \<Rightarrow> ('c, 'e, 'st) worker" where
  "setIndex p i w = w\<lparr>cells := (cells w)(p := (cells w p)\<lparr>index := i\<rparr>)\<rparr>"

definition acct_Swap :: "('c, 'e, 'st) worker \<Rightarrow> nat \<Rightarrow> nat \<Rightarrow> ('c, 'e, 'st) worker" where
  "acct_Swap w i j =
    (let xs = swp i j (priorityQueue w) in
     setIndex (xs ! j) j (setIndex (xs ! i) i (w\<lparr>priorityQueue := xs\<rparr>)))"

definition acct_Push :: "('c, 'e, 'st) worker \<Rightarrow> nat \<Rightarrow> ('c, 'e, 'st) worker" where
  "acct_Push w p = (setIndex p (length (priorityQueue w)) w)\<lparr>priorityQueue := priorityQueue w @ [p]\<rparr>"

definition acct_Pop :: "('c, 'e, 'st) worker \<Rightarrow> nat option \<times> ('c, 'e, 'st) worker" where
  "acct_Pop w = (if priorityQueue w = [] then (None, w)
     else (Some (last (priorityQueue w)), w\<lparr>priorityQueue := butlast (priorityQueue w)\<rparr>))"

definition acctHeap :: "(('c, 'e, 'st) worker, nat) heapInterface" where
  "acctHeap = \<lparr>Len = (\<lambda>w. length (priorityQueue w)), Less = acct_Less, Swap = acct_Swap, Push = acct_Push,
     Pop = acct_Pop\<rparr>"

definition acctFrame :: "('c, 'e, 'st) worker \<Rightarrow> ('c, 'e, 'st) worker" where
  "acctFrame w = w\<lparr>priorityQueue := [], cells := (\<lambda>p. (cells w p)\<lparr>index := 0\<rparr>)\<rparr>"

text \<open>
  \<^verbatim>\<open>Less\<close> is no strict order, since an empty queue is less than an empty queue, so only the structure of
  the heap is claimed.
\<close>

interpretation acct: go_heap acctHeap priorityQueue "\<lambda>w p. index (cells w p)" acctFrame
  "\<lambda>f a b. nextLess (NextAction (queueAt f a)) (NextAction (queueAt f b))"
  by unfold_locales
    (auto simp: acctHeap_def acct_Less_def acct_Swap_def acct_Push_def acct_Pop_def setIndex_def acctFrame_def Let_def
      swp_nth fun_eq_iff)

section \<open>The bookkeeping of the pool\<close>

definition OnAdded :: "selp \<Rightarrow> (addr \<Rightarrow> u64) \<Rightarrow> (addr \<Rightarrow> u64)" where
  "OnAdded act cnt =
    (if BlobHashes act = [] then cnt else cnt(SenderAddress act := cnt (SenderAddress act) + 1))"

definition OnRemoved :: "selp \<Rightarrow> (addr \<Rightarrow> u64) \<Rightarrow> (addr \<Rightarrow> u64)" where
  "OnRemoved act cnt =
    (if BlobHashes act = [] then cnt
     else if cnt (SenderAddress act) = 0 then cnt
     else cnt(SenderAddress act := cnt (SenderAddress act) - 1))"

definition blob_Validate :: "u64 \<Rightarrow> (addr \<Rightarrow> u64) \<Rightarrow> selp \<Rightarrow> unit res" where
  "blob_Validate limit cnt act =
    (if BlobHashes act = [] then Inr () else checkR (cnt (SenderAddress act) < limit) ErrNonceTooHigh)"

definition des_addAction :: "selp \<Rightarrow> (addr \<rightharpoonup> (256 word \<rightharpoonup> selp)) \<Rightarrow> (addr \<rightharpoonup> (256 word \<rightharpoonup> selp)) res" where
  "des_addAction act des =
    (case Destination act of
       None \<Rightarrow> Inl (Errorf ''the recipient is empty'')
     | Some destn \<Rightarrow>
         let old = (case des destn of None \<Rightarrow> Map.empty | Some m \<Rightarrow> m) in
         Inr (des(destn \<mapsto> old(Hash act \<mapsto> act))))"

definition des_delete :: "selp \<Rightarrow> (addr \<rightharpoonup> (256 word \<rightharpoonup> selp)) \<Rightarrow> (addr \<rightharpoonup> (256 word \<rightharpoonup> selp))" where
  "des_delete act des =
    (case Destination act of
       None \<Rightarrow> des
     | Some desAddress \<Rightarrow>
         (case des desAddress of
            None \<Rightarrow> des
          | Some dst \<Rightarrow>
              let dst' = dst(Hash act := None) in
              if dom dst' = {} then des(desAddress := None) else des(desAddress \<mapsto> dst')))"

text \<open>\<^verbatim>\<open>removeInvalidActs\<close>; hashing a nil action dereferences it.\<close>

fun removeInvalidActs :: "('c, 'e, 'st) pool_env \<Rightarrow> selp option list \<Rightarrow> (('c, 'e, 'st) worker, unit) op" where
  "removeInvalidActs env [] w = (Inr (), w)"
| "removeInvalidActs env (None # acts) w = (Inl (Panic ''nil action''), w)"
| "removeInvalidActs env (Some act # acts) w =
    removeInvalidActs env acts
      (w\<lparr>allActions := acts_Delete env (Hash act) (allActions w),
         gasInPool := gasInPool w - IntrinsicGas act,
         accountDesActs := des_delete act (accountDesActs w),
         store := map_option (store_Delete env (Hash act)) (store w),
         blobCntPerAcc := OnRemoved act (blobCntPerAcc w)\<rparr>)"

section \<open>The pool of accounts\<close>

definition newQueueWorker :: "'e \<Rightarrow> 'c \<Rightarrow> 'st option \<Rightarrow> ('c, 'e, 'st) worker" where
  "newQueueWorker empties acts st =
    heap_Init acctHeap
      \<lparr>accounts = Map.empty, priorityQueue = [],
       cells = (\<lambda>_. \<lparr>index = 0, item_queue = NewActQueue 0 0 0\<rparr>), allocatedItems = 0,
       emptyAccounts = empties, allActions = acts, gasInPool = 0, accountDesActs = Map.empty, store = st,
       blobCntPerAcc = (\<lambda>_. 0)\<rparr>"

text \<open>The result is the popped \<^verbatim>\<open>accountItem\<close>.\<close>

definition PopAccount :: "addr \<Rightarrow> (('c, 'e, 'st) worker, nat option) op" where
  "PopAccount a w =
    (case accounts w a of
       None \<Rightarrow> (Inr None, w)
     | Some p \<Rightarrow>
         (case heap_Remove acctHeap (index (cells w p)) w of
            (Inl e, w1) \<Rightarrow> (Inl e, w1)
          | (Inr _, w1) \<Rightarrow> (Inr (Some p), w1\<lparr>accounts := (accounts w1)(a := None)\<rparr>)))"

definition PutAction ::
  "('c, 'e, 'st) pool_env \<Rightarrow> addr \<Rightarrow> u64 \<Rightarrow> int \<Rightarrow> selp \<Rightarrow> (('c, 'e, 'st) worker, unit) lop" where
  "PutAction env a confirmedNonce confirmedBalance act w =
    (case accounts w a of
       None \<Rightarrow>
         (case Put (Now env) act (NewActQueue confirmedNonce confirmedBalance (ActionExpiry env)) of
            None \<Rightarrow> None
          | Some (Inl e, q) \<Rightarrow> Some (Inl e, w)
          | Some (Inr removed, q) \<Rightarrow>
              bindL (liftL (removeInvalidActs env removed))
                (\<lambda>_. modL (\<lambda>w.
                  let p = allocatedItems w in
                  heap_Push acctHeap
                    (w\<lparr>allocatedItems := Suc p,
                       cells := (cells w)(p := \<lparr>index = card (dom (accounts w)), item_queue = q\<rparr>),
                       accounts := (accounts w)(a \<mapsto> p)\<rparr>) p)) w)
     | Some p \<Rightarrow>
         bindL (onQueue p (Put (Now env) act)) (\<lambda>removed.
         bindL (liftL (removeInvalidActs env removed)) (\<lambda>_.
         liftL (\<lambda>w. heap_Fix acctHeap (index (cells w p)) w))) w)"

definition PopPeek :: "(('c, 'e, 'st) worker, selp option) lop" where
  "PopPeek w =
    (if card (dom (accounts w)) = 0 then Some (Inr None, w)
     else case priorityQueue w of
       [] \<Rightarrow> Some (Inl (Panic ''index out of range''), w)
     | p # _ \<Rightarrow>
         bindL (onQueue p PopActionWithLargestNonce) (\<lambda>act.
         bindL (liftL (heap_Fix acctHeap 0)) (\<lambda>_ w. Some (Inr act, w))) w)"

definition DeleteIfEmpty :: "addr \<Rightarrow> (('c, 'e, 'st) worker, unit) op" where
  "DeleteIfEmpty a w =
    (case accounts w a of
       None \<Rightarrow> (Inr (), w)
     | Some p \<Rightarrow>
         if q_Empty (queueAt w p) then
           (case heap_Remove acctHeap (index (cells w p)) w of
              (Inl e, w1) \<Rightarrow> (Inl e, w1)
            | (Inr _, w1) \<Rightarrow> (Inr (), w1\<lparr>accounts := (accounts w1)(a := None)\<rparr>))
         else (Inr (), w))"

text \<open>\<^verbatim>\<open>Range\<close> visits the accounts in some order and then restores the heap; the results are collected.\<close>

fun rangeAccounts ::
  "(addr \<Rightarrow> nat \<Rightarrow> (('c, 'e, 'st) worker, 'a list) lop) \<Rightarrow> addr list \<Rightarrow> (('c, 'e, 'st) worker, 'a list) lop" where
  "rangeAccounts cb [] w = Some (Inr [], heap_Init acctHeap w)"
| "rangeAccounts cb (a # order) w =
    (case accounts w a of
       None \<Rightarrow> rangeAccounts cb order w
     | Some p \<Rightarrow>
         bindL (cb a p) (\<lambda>xs. bindL (rangeAccounts cb order) (\<lambda>ys w. Some (Inr (xs @ ys), w))) w)"

section \<open>The worker\<close>

definition confirmedNonceOf :: "('c, 'e, 'st) pool_env \<Rightarrow> account \<Rightarrow> u64 res" where
  "confirmedNonceOf env acc =
    (if UseZeroNonceForFreshAccount env then PendingNonceConsideringFreshAccount acc else PendingNonce acc)"

text \<open>A stored account has a balance; copying a nil one panics.\<close>

definition balanceOf :: "account \<Rightarrow> int res" where
  "balanceOf acc = (case Balance acc of None \<Rightarrow> Inl (Panic ''nil balance'') | Some b \<Rightarrow> Inr b)"

definition getConfirmedState :: "('c, 'e, 'st) pool_env \<Rightarrow> addr \<Rightarrow> ('c, 'e, 'st) worker \<Rightarrow> (u64 \<times> int) res" where
  "getConfirmedState env a w =
    (case accounts w a of
       None \<Rightarrow>
         bindR (AccountState env a) (\<lambda>acc.
         bindR (confirmedNonceOf env acc) (\<lambda>n.
         bindR (balanceOf acc) (\<lambda>b. Inr (n, b))))
     | Some p \<Rightarrow> Inr (accountNonce (queueAt w p), accountBalance (queueAt w p)))"

definition worker_PendingNonce :: "addr \<Rightarrow> ('c, 'e, 'st) worker \<Rightarrow> u64 option" where
  "worker_PendingNonce a w = map_option (\<lambda>p. pendingNonce (queueAt w p)) (accounts w a)"

definition checkSelpWithState ::
  "('c, 'e, 'st) pool_env \<Rightarrow> selp \<Rightarrow> u64 \<Rightarrow> int \<Rightarrow> ('c, 'e, 'st) worker \<Rightarrow> unit res" where
  "checkSelpWithState env act confirmedNonce balance w =
    (if Nonce act < confirmedNonce then Inl ErrNonceTooLow
     else if Nonce act - confirmedNonce \<ge> MaxNumActsPerAcct env then Inl ErrNonceTooHigh
     else if BlobHashes act \<noteq> [] \<and>
       Nonce act > (case worker_PendingNonce (SenderAddress act) w of None \<Rightarrow> confirmedNonce | Some n \<Rightarrow> n)
     then Inl ErrNonceTooHigh
     else if balance < Cost act then Inl ErrInsufficientFunds
     else Inr ())"

fun deleteEmpties :: "addr list \<Rightarrow> (('c, 'e, 'st) worker, unit) op" where
  "deleteEmpties [] w = (Inr (), w)"
| "deleteEmpties (a # ks) w =
    (case DeleteIfEmpty a w of (Inl e, w1) \<Rightarrow> (Inl e, w1) | (Inr _, w1) \<Rightarrow> deleteEmpties ks w1)"

definition removeEmptyAccounts :: "('c, 'e, 'st) pool_env \<Rightarrow> (('c, 'e, 'st) worker, unit) op" where
  "removeEmptyAccounts env w =
    (if empties_Keys env (emptyAccounts w) = [] then (Inr (), w)
     else case deleteEmpties (empties_Keys env (emptyAccounts w)) w of
       (Inl e, w1) \<Rightarrow> (Inl e, w1)
     | (Inr _, w1) \<Rightarrow> (Inr (), w1\<lparr>emptyAccounts := empties_Reset env (emptyAccounts w1)\<rparr>))"

text \<open>What \<^verbatim>\<open>Handle\<close> records once the action is in its queue.\<close>

definition recordAdded :: "('c, 'e, 'st) pool_env \<Rightarrow> selp \<Rightarrow> ('c, 'e, 'st) worker \<Rightarrow> ('c, 'e, 'st) worker" where
  "recordAdded env act w =
    w\<lparr>allActions := acts_Set env (Hash act) act (allActions w),
      blobCntPerAcc := OnAdded act (blobCntPerAcc w),
      store := (if BlobHashes act \<noteq> [] then map_option (store_Put env act) (store w) else store w),
      accountDesActs :=
        (if Destination act \<noteq> None \<and> Destination act \<noteq> Some (SenderAddress act)
         then case des_addAction act (accountDesActs w) of Inl _ \<Rightarrow> accountDesActs w | Inr m \<Rightarrow> m
         else accountDesActs w),
      gasInPool := gasInPool w + IntrinsicGas act\<rparr>"

text \<open>
  The end of \<^verbatim>\<open>Handle\<close>.  When the pool is full an action is dropped; the error is reported when the dropped
  action is of the same sender and has the nonce the sender was confirmed with.
\<close>

definition dropForSpace ::
  "('c, 'e, 'st) pool_env \<Rightarrow> selp \<Rightarrow> u64 \<Rightarrow> (('c, 'e, 'st) worker, unit) lop" where
  "dropForSpace env act confirmedNonce =
    bindL PopPeek (\<lambda>popped. case popped of
      None \<Rightarrow> (\<lambda>w. Some (Inr (), w))
    | Some actToReplace \<Rightarrow>
        bindL (liftL (removeInvalidActs env [Some actToReplace])) (\<lambda>_.
        bindL (liftL (removeEmptyAccounts env)) (\<lambda>_ w.
          Some (if SenderAddress actToReplace = SenderAddress act \<and> Nonce actToReplace = confirmedNonce
                then Inl ErrTxPoolOverflow else Inr (), w))))"

definition Handle ::
  "('c, 'e, 'st) pool_env \<Rightarrow> go_error option \<Rightarrow> selp \<Rightarrow> bool \<Rightarrow> (('c, 'e, 'st) worker, unit) lop" where
  "Handle env ctxErr act rep w =
    (case ctxErr of
       Some e \<Rightarrow> Some (Inl e, w)
     | None \<Rightarrow>
         (case getConfirmedState env (SenderAddress act) w of
            Inl e \<Rightarrow> Some (Inl e, w)
          | Inr (n, b) \<Rightarrow>
              (case checkSelpWithState env act n b w of
                 Inl e \<Rightarrow> Some (Inl e, w)
               | Inr _ \<Rightarrow>
                   bindL (PutAction env (SenderAddress act) n b act) (\<lambda>_.
                   bindL (modL (recordAdded env act)) (\<lambda>_.
                     if rep then dropForSpace env act n else liftL (removeEmptyAccounts env))) w)))"

text \<open>The callback of \<^verbatim>\<open>Reset\<close>: the confirmed state of the account replaces the one in the queue.\<close>

definition resetAccountQueue :: "('c, 'e, 'st) pool_env \<Rightarrow> addr \<Rightarrow> nat \<Rightarrow> (('c, 'e, 'st) worker, unit list) lop" where
  "resetAccountQueue env a p w =
    (case AccountState env a of
       Inl e \<Rightarrow>
         Some (Inr [], (setQueue p (q_Reset (queueAt w p)) w)\<lparr>
           emptyAccounts := empties_Set env a (emptyAccounts w)\<rparr>)
     | Inr acc \<Rightarrow>
         (case bindR (confirmedNonceOf env acc) (\<lambda>n. bindR (balanceOf acc) (\<lambda>b. Inr (n, b))) of
            Inl e \<Rightarrow> Some (Inl e, w)
          | Inr (n, b) \<Rightarrow>
              bindL (onQueue p (liftL (UpdateAccountState n b))) (\<lambda>acts.
              bindL (onQueue p (UpdateQueue (Now env))) (\<lambda>acts2.
              bindL (liftL (removeInvalidActs env (acts @ acts2))) (\<lambda>_ w.
                Some (Inr [],
                  if q_Empty (queueAt w p)
                  then w\<lparr>emptyAccounts := empties_Set env a (emptyAccounts w)\<rparr> else w)))) w))"

definition worker_Reset :: "('c, 'e, 'st) pool_env \<Rightarrow> addr list \<Rightarrow> (('c, 'e, 'st) worker, unit list) lop" where
  "worker_Reset env order = rangeAccounts (resetAccountQueue env) order"

text \<open>The callback of \<^verbatim>\<open>PendingActions\<close>.\<close>

definition confirmedFor :: "('c, 'e, 'st) pool_env \<Rightarrow> addr \<Rightarrow> (u64 \<times> int) res res" where
  "confirmedFor env a =
    (case AccountState env a of
       Inl e \<Rightarrow> Inr (Inl e)
     | Inr acc \<Rightarrow> bindR (confirmedNonceOf env acc) (\<lambda>n. bindR (balanceOf acc) (\<lambda>b. Inr (Inr (n, b)))))"

definition pendingOfAccount ::
  "('c, 'e, 'st) pool_env \<Rightarrow> addr \<Rightarrow> nat \<Rightarrow> (('c, 'e, 'st) worker, (addr \<times> selp list) list) lop" where
  "pendingOfAccount env a p w =
    (if q_Empty (queueAt w p) then Some (Inr [], w)
     else
       bindL (onQueue p (UpdateQueue (Now env))) (\<lambda>acts.
       bindL (liftL (removeInvalidActs env acts)) (\<lambda>_ w.
         if q_Len (queueAt w p) = 0 then Some (Inr [], w)
         else case confirmedFor env a of
           Inl e \<Rightarrow> Some (Inl e, w)
         | Inr c \<Rightarrow>
             map_option (\<lambda>pd. (Inr (if pd = [] then [] else [(a, pd)]), w)) (PendingActs c (queueAt w p)))) w)"

definition PendingActions ::
  "('c, 'e, 'st) pool_env \<Rightarrow> addr list \<Rightarrow> (('c, 'e, 'st) worker, (addr \<times> selp list) list) lop" where
  "PendingActions env order = rangeAccounts (pendingOfAccount env) order"

text \<open>\<^verbatim>\<open>AllActions\<close> sorts by nonce; comparing a nil action dereferences it.\<close>

definition AllActions :: "addr \<Rightarrow> ('c, 'e, 'st) worker \<Rightarrow> selp option list option res" where
  "AllActions a w =
    (case accounts w a of
       None \<Rightarrow> Inr None
     | Some p \<Rightarrow>
         let acts = AllActs (queueAt w p) in
         if None \<in> set acts \<and> length acts > 1 then Inl (Panic ''nil action'')
         else Inr (Some (if length acts \<le> 1 then acts else sort_key (\<lambda>act. Nonce (the act)) acts)))"

definition ResetAccount :: "('c, 'e, 'st) pool_env \<Rightarrow> addr \<Rightarrow> (('c, 'e, 'st) worker, selp option list) op" where
  "ResetAccount env a w =
    (case PopAccount a w of
       (Inl e, w1) \<Rightarrow> (Inl e, w1)
     | (Inr None, w1) \<Rightarrow> (Inr [], w1)
     | (Inr (Some p), w1) \<Rightarrow>
         (Inr (AllActs (queueAt w1 p)),
          (setQueue p (q_Reset (queueAt w1 p)) w1)\<lparr>emptyAccounts := empties_Set env a (emptyAccounts w1)\<rparr>))"

definition DeleteAction :: "('c, 'e, 'st) pool_env \<Rightarrow> addr option \<Rightarrow> (('c, 'e, 'st) worker, unit) op" where
  "DeleteAction env caller w =
    (case caller of
       None \<Rightarrow> (Inr (), w)
     | Some a \<Rightarrow>
         (case ResetAccount env a w of
            (Inl e, w1) \<Rightarrow> (Inl e, w1)
          | (Inr acts, w1) \<Rightarrow> removeInvalidActs env acts w1))"

section \<open>Admission to the pool\<close>

text \<open>The configuration of the pool that the checks read.\<close>

record pool_config =
  MaxNumActsPerPool :: u64
  MaxGasLimitPerPool :: u64
  MinGasPrice :: int
  senderBlackList :: "addr list"
  BlackListActiveHeight :: u64
  MaxNumBlobsPerAcct :: u64

definition allocatedWorker :: "addr \<Rightarrow> nat" where
  "allocatedWorker a = unat (ucast a :: byte) mod 16"

definition isBlackListed :: "pool_config \<Rightarrow> addr \<Rightarrow> u64 \<Rightarrow> bool" where
  "isBlackListed cfg a height \<longleftrightarrow>
    (if a \<notin> set (senderBlackList cfg) then False
     else if BlackListActiveHeight cfg = 0 then True
     else height \<ge> BlackListActiveHeight cfg)"

fun runValidators :: "(selp \<Rightarrow> unit res) list \<Rightarrow> selp \<Rightarrow> unit res" where
  "runValidators [] act = Inr ()"
| "runValidators (v # vs) act = bindR (v act) (\<lambda>_. runValidators vs act)"

text \<open>
  \<open>unprotected\<close>: the encoding of the action is \<^verbatim>\<open>ETHEREUM_UNPROTECTED\<close>.  The blob validator of the pool runs
  before the validators that were added to it.
\<close>

definition checkSelpWithoutState ::
  "('c, 'e, 'st) pool_env \<Rightarrow> pool_config \<Rightarrow> (selp \<Rightarrow> unit res) list \<Rightarrow> u64 \<Rightarrow> bool \<Rightarrow> selp \<Rightarrow>
   ('c, 'e, 'st) worker \<Rightarrow> unit res" where
  "checkSelpWithoutState env cfg validators height unprotected act w =
    (if acts_Get env (allActions w) (Hash act) \<noteq> None then Inl ErrExistedInPool
     else if \<not> unprotected \<and> GasFeeCap act < MinGasPrice cfg then Inl ErrUnderpriced
     else if isBlackListed cfg (SenderAddress act) height then Inl (Errorf ''invalid address'')
     else runValidators (blob_Validate (MaxNumBlobsPerAcct cfg) (blobCntPerAcc w) # validators) act)"

text \<open>
  \<^verbatim>\<open>add\<close> with the worker of the sender: \<open>sys\<close> is \<^verbatim>\<open>IsSystemAction\<close>, \<open>dataErr\<close> the error of \<^verbatim>\<open>checkSelpData\<close>.  The
  subtraction of the limit wraps around, but is guarded by the check before it.
\<close>

definition pool_add ::
  "('c, 'e, 'st) pool_env \<Rightarrow> pool_config \<Rightarrow> (selp \<Rightarrow> unit res) list \<Rightarrow> u64 \<Rightarrow> bool \<Rightarrow> bool \<Rightarrow> go_error option \<Rightarrow>
   go_error option \<Rightarrow> selp \<Rightarrow> (('c, 'e, 'st) worker, unit) lop" where
  "pool_add env cfg validators height unprotected sys dataErr ctxErr act w =
    (if sys then Some (Inl (Errorf ''invalid action type''), w)
     else case dataErr of
       Some e \<Rightarrow> Some (Inl e, w)
     | None \<Rightarrow>
         (case checkSelpWithoutState env cfg validators height unprotected act w of
            Inl e \<Rightarrow> Some (Inl e, w)
          | Inr _ \<Rightarrow>
              if IntrinsicGas act > MaxGasLimitPerPool cfg then Some (Inl ErrGasTooHigh, w)
              else Handle env ctxErr act
                (gasInPool w > MaxGasLimitPerPool cfg - IntrinsicGas act \<or>
                 acts_Count env (allActions w) \<ge> unat (MaxNumActsPerPool cfg)) w))"

definition pool_validate ::
  "('c, 'e, 'st) pool_env \<Rightarrow> pool_config \<Rightarrow> (selp \<Rightarrow> unit res) list \<Rightarrow> u64 \<Rightarrow> selp \<Rightarrow> ('c, 'e, 'st) worker \<Rightarrow> unit res" where
  "pool_validate env cfg validators height act w =
    (if isBlackListed cfg (SenderAddress act) height then Inl (Errorf ''invalid address'')
     else if acts_Get env (allActions w) (Hash act) \<noteq> None then Inr ()
     else runValidators validators act)"

definition GetPendingNonce :: "('c, 'e, 'st) pool_env \<Rightarrow> addr \<Rightarrow> ('c, 'e, 'st) worker \<Rightarrow> u64 res" where
  "GetPendingNonce env a w =
    (case worker_PendingNonce a w of
       Some n \<Rightarrow> Inr n
     | None \<Rightarrow> bindR (AccountState env a) (confirmedNonceOf env))"

section \<open>Queries\<close>

abbreviation errBlobNotFound :: go_error where
  "errBlobNotFound \<equiv> Errorf ''blob not found''"

definition GetActionByHash :: "('c, 'e, 'st) pool_env \<Rightarrow> 256 word \<Rightarrow> ('c, 'e, 'st) worker \<Rightarrow> selp res" where
  "GetActionByHash env h w =
    (case acts_Get env (allActions w) h of
       Some act \<Rightarrow> Inr act
     | None \<Rightarrow>
         (case store w of
            None \<Rightarrow> Inl (Errorf ''action not found'')
          | Some st \<Rightarrow>
              (case store_Get env st h of
                 Inr act \<Rightarrow> Inr act
               | Inl e \<Rightarrow> if e = errBlobNotFound then Inl (Errorf ''action not found'') else Inl e)))"

text \<open>\<open>order\<close> is the order in which Go visits the hashes of the destination.\<close>

definition actionsByDestination ::
  "256 word list \<Rightarrow> addr \<Rightarrow> (addr \<rightharpoonup> (256 word \<rightharpoonup> selp)) \<Rightarrow> selp list" where
  "actionsByDestination order a des =
    (case des a of
       None \<Rightarrow> []
     | Some m \<Rightarrow> sort_key Nonce (List.map_filter m order))"

definition GetUnconfirmedActs :: "256 word list \<Rightarrow> addr \<Rightarrow> ('c, 'e, 'st) worker \<Rightarrow> selp option list res" where
  "GetUnconfirmedActs order a w =
    bindR (AllActions a w) (\<lambda>own.
      Inr ((case own of None \<Rightarrow> [] | Some acts \<Rightarrow> acts) @
        map Some (actionsByDestination order a (accountDesActs w))))"

text \<open>\<^verbatim>\<open>PendingActionMap\<close> collects what the workers report, worker by worker.\<close>

definition PendingActionMap :: "(addr \<times> selp list) list list \<Rightarrow> (addr \<rightharpoonup> selp list)" where
  "PendingActionMap actsFromWorker =
    fold (fold (\<lambda>(sender, acts) ret. ret(sender \<mapsto> acts))) actsFromWorker Map.empty"

section \<open>Runs of operations\<close>

text \<open>\<open>runsL P m Q\<close>: from a state in \<open>P\<close> the operation returns, with a result and a state in \<open>Q\<close>.\<close>

definition runsL :: "('s \<Rightarrow> bool) \<Rightarrow> ('s, 'a) lop \<Rightarrow> ('a res \<Rightarrow> 's \<Rightarrow> bool) \<Rightarrow> bool" where
  "runsL P m Q \<longleftrightarrow> (\<forall>s. P s \<longrightarrow> (\<exists>r s'. m s = Some (r, s') \<and> Q r s'))"

lemma runsL_bind:
  assumes "runsL P m Q" "\<And>x. runsL (Q (Inr x)) (f x) R" "\<And>e s. Q (Inl e) s \<Longrightarrow> R (Inl e) s"
  shows "runsL P (bindL m f) R"
  unfolding runsL_def
proof (intro allI impI)
  fix s assume "P s"
  then obtain r s' where m: "m s = Some (r, s')" "Q r s'" using assms(1) by (auto simp: runsL_def)
  show "\<exists>r s'. bindL m f s = Some (r, s') \<and> R r s'"
  proof (cases r)
    case (Inl e) then show ?thesis using m assms(3) by (auto simp: bindL_def)
  next
    case (Inr x) then show ?thesis using m assms(2) [of x] by (auto simp: bindL_def runsL_def)
  qed
qed

lemma runsL_weaken: "runsL P m Q \<Longrightarrow> (\<And>s. P' s \<Longrightarrow> P s) \<Longrightarrow> (\<And>r s. Q r s \<Longrightarrow> Q' r s) \<Longrightarrow> runsL P' m Q'"
  unfolding runsL_def by blast

lemma runsL_lift: "(\<And>s. P s \<Longrightarrow> \<exists>r s'. m s = (r, s') \<and> Q r s') \<Longrightarrow> runsL P (liftL m) Q"
  by (auto simp: runsL_def liftL_def)

lemma runsL_mod: "(\<And>s. P s \<Longrightarrow> Q (Inr ()) (f s)) \<Longrightarrow> runsL P (modL f) Q"
  by (auto simp: runsL_def modL_def)

section \<open>The window of an account\<close>

definition queueOk :: "u64 \<Rightarrow> actQueue \<Rightarrow> bool" where
  "queueOk mx q \<longleftrightarrow> queueInv q \<and> unat (accountNonce q) + unat mx < 2 ^ 64 \<and>
     (\<forall>n \<in> dom (q_items q). unat n < unat (accountNonce q) + unat mx)"

lemma queueOk_Len:
  assumes "queueOk mx q"
  shows "q_Len q \<le> unat mx"
proof -
  let ?a = "unat (accountNonce q)"
  have "unat ` dom (q_items q) \<subseteq> {?a ..< ?a + unat mx}"
    using assms by (auto simp: queueOk_def queueInv_def itemsInv_def word_le_nat_alt)
  then have "card (unat ` dom (q_items q)) \<le> unat mx"
    using card_mono [of "{?a ..< ?a + unat mx}"] by fastforce
  moreover have "inj_on unat (dom (q_items q))" by (simp add: inj_on_def word_unat_eq_iff)
  ultimately show ?thesis by (simp add: q_Len_def card_image)
qed

lemma queueOk_top: "queueOk mx q \<Longrightarrow> q_items q (- 1) = None"
  by (cases "q_items q (- 1)") (auto simp: queueOk_def queueInv_def itemsInv_def)

lemma queueOk_new: "unat n + unat mx < 2 ^ 64 \<Longrightarrow> queueOk mx (NewActQueue n b expiry)"
  using NewActQueue_inv [of n b expiry] by (simp add: queueOk_def NewActQueue_def)

lemma queueOk_reset: "queueOk mx (q_Reset q)"
  using q_Reset_inv [of q] unsigned_less [of mx] by (simp add: queueOk_def q_Reset_def)

lemma Put_ok:
  assumes "queueOk mx q" "accountNonce q \<le> Nonce act" "Nonce act - accountNonce q < mx"
  shows "(\<exists>e. Put now act q = Some (Inl e, q) \<and> e \<in> {ErrInsufficientFunds, ErrReplaceUnderpriced}) \<or>
    (\<exists>acts q'. Put now act q = Some (Inr acts, q') \<and> None \<notin> set acts \<and> queueOk mx q')"
proof -
  have u: "unat (Nonce act) < unat (accountNonce q) + unat mx"
    using assms(2,3) by (simp add: word_less_nat_alt word_le_nat_alt unat_sub less_diff_conv2 add.commute)
  moreover have "unat (- 1 :: u64) = 2 ^ 64 - 1" by (simp add: unsigned_minus_1_eq_mask mask_eq_exp_minus_1)
  ultimately have "Nonce act \<noteq> - 1" using assms(1) by (auto simp: queueOk_def)
  then show ?thesis
    using Put_spec [of q act now] assms u by (auto simp: queueOk_def split: option.splits)
qed

lemma UpdateQueue_ok:
  assumes "queueOk mx q"
  shows "\<exists>acts q'. UpdateQueue now q = Some (Inr acts, q') \<and> None \<notin> set acts \<and> queueOk mx q' \<and>
    accountNonce q' = accountNonce q"
proof -
  have h: "heapsInv q" using assms by (simp add: queueOk_def queueInv_def)
  have "timedOut now q \<subseteq> dom (q_items q)"
    unfolding heapsInvD(2) [OF h] by (auto simp: timedOut_def)
  then have "None \<notin> q_items q ` timedOut now q" by (auto simp: domIff)
  then show ?thesis
    using UpdateQueue_spec [of q now] assms by (fastforce simp: queueOk_def)
qed

lemma UpdateAccountState_ok:
  assumes "queueOk mx q" "accountNonce q \<le> n" "unat n + unat mx < 2 ^ 64"
  shows "\<exists>acts q'. UpdateAccountState n b q = (Inr acts, q') \<and> None \<notin> set acts \<and> queueOk mx q' \<and>
    accountNonce q' = n"
proof -
  obtain q' where q': "UpdateAccountState n b q = (Inr (map (q_items q) (noncesBelow (q_items q) n)), q')" "queueInv q'"
      "q_items q' = q_items q |` {n..}" "accountNonce q' = n"
    using UpdateAccountState_spec [of q n b] assms(1) by (auto simp: queueOk_def)
  have "None \<notin> set (map (q_items q) (noncesBelow (q_items q) n))" by (auto simp: noncesBelow_def)
  moreover have "unat m < unat n + unat mx" if "m \<in> dom (q_items q')" for m
  proof -
    have "unat m < unat (accountNonce q) + unat mx" using that assms(1) by (auto simp: queueOk_def q'(3))
    then show ?thesis using assms(2) by (simp add: word_le_nat_alt)
  qed
  ultimately show ?thesis using q' assms(3) by (simp add: queueOk_def)
qed

lemma PopAction_ok:
  assumes "queueOk mx q"
  shows "\<exists>act q'. PopActionWithLargestNonce q = Some (Inr act, q') \<and> queueOk mx q'"
proof (cases "dom (q_items q) = {}")
  case True
  then show ?thesis using PopAction_empty assms by blast
next
  case False
  then obtain q' where "PopActionWithLargestNonce q = Some (Inr (q_items q (Max (dom (q_items q)))), q')" "queueInv q'"
      "q_items q' = (q_items q)(Max (dom (q_items q)) := None)" "accountNonce q' = accountNonce q"
    using PopActionWithLargestNonce_spec [of q] assms by (auto simp: queueOk_def)
  then show ?thesis using assms by (auto simp: queueOk_def)
qed

lemma AllActs_some:
  assumes "queueInv q"
  shows "None \<notin> set (AllActs q)"
proof
  have dm: "dom (q_items q) = nonceAt q ` set (ascQueue q)"
    using heapsInvD(2) assms unfolding queueInv_def by blast
  assume "None \<in> set (AllActs q)"
  then obtain a where a: "a \<in> set (ascQueue q)" "q_items q (nonceAt q a) = None"
    by (auto simp: AllActs_def split: if_splits)
  from a(1) have "nonceAt q a \<in> dom (q_items q)" unfolding dm by (rule imageI)
  then show False using a(2) by (simp add: domIff)
qed

section \<open>The invariant of a worker\<close>

definition workerInv :: "u64 \<Rightarrow> ('c, 'e, 'st) worker \<Rightarrow> bool" where
  "workerInv mx w \<longleftrightarrow> acct.indexed w \<and> set (priorityQueue w) = ran (accounts w) \<and>
     inj_on (accounts w) (dom (accounts w)) \<and> (\<forall>p \<in> ran (accounts w). p < allocatedItems w) \<and>
     (\<forall>p. queueOk mx (queueAt w p))"

text \<open>The result of an operation that did not panic, in a state that satisfies the invariant.\<close>

definition fine :: "u64 \<Rightarrow> 'a res \<Rightarrow> ('c, 'e, 'st) worker \<Rightarrow> bool" where
  "fine mx r w \<longleftrightarrow> workerInv mx w \<and> (\<forall>msg. r \<noteq> Inl (Panic msg))"

lemma acct_frame:
  fixes w w' :: "('c, 'e, 'st) worker"
  assumes "acctFrame w' = acctFrame w"
  shows "accounts w' = accounts w" "allocatedItems w' = allocatedItems w" "queueAt w' p = queueAt w p"
proof -
  have f: "f (acctFrame w') = f (acctFrame w)" for f :: "('c, 'e, 'st) worker \<Rightarrow> 'x" using assms by simp
  show "accounts w' = accounts w" "allocatedItems w' = allocatedItems w"
    using f [of accounts] f [of allocatedItems] by (simp_all add: acctFrame_def)
  have "(cells w' p)\<lparr>index := 0\<rparr> = (cells w p)\<lparr>index := 0\<rparr>"
    using fun_cong [OF f [of cells], of p] by (simp add: acctFrame_def)
  from arg_cong [OF this, of item_queue] show "queueAt w' p = queueAt w p" by simp
qed

lemma workerInv_base:
  assumes "priorityQueue w' = priorityQueue w" "accounts w' = accounts w" "allocatedItems w' = allocatedItems w"
    "cells w' = cells w"
  shows "workerInv mx w' = workerInv mx w"
  using assms by (simp add: workerInv_def acct.indexed_def)

lemma workerInv_setQueue: "workerInv mx w \<Longrightarrow> queueOk mx q \<Longrightarrow> workerInv mx (setQueue p q w)"
  by (auto simp: workerInv_def setQueue_def acct.indexed_def)

lemma workerInv_moved:
  assumes "workerInv mx w" "acct.moved n w w'"
  shows "workerInv mx w'" "accounts w' = accounts w"
proof -
  have fr: "acctFrame w' = acctFrame w" "mset (priorityQueue w') = mset (priorityQueue w)" "acct.indexed w'"
    using assms by (auto simp: acct.moved_def workerInv_def)
  show a: "accounts w' = accounts w" using acct_frame [OF fr(1)] by simp
  show "workerInv mx w'"
    using assms(1) fr(3) acct_frame [OF fr(1)] mset_eq_setD [OF fr(2)] by (simp add: workerInv_def)
qed

lemma account_index:
  assumes "workerInv mx w" "accounts w a = Some p"
  shows "index (cells w p) < length (priorityQueue w)" "priorityQueue w ! index (cells w p) = p"
proof -
  have "p \<in> set (priorityQueue w)" using assms by (auto simp: workerInv_def ran_def)
  then obtain i where "i < length (priorityQueue w)" "priorityQueue w ! i = p" by (auto simp: in_set_conv_nth)
  moreover have "index (cells w p) = i" using calculation assms(1) by (auto simp: workerInv_def acct.indexed_def)
  ultimately show "index (cells w p) < length (priorityQueue w)" "priorityQueue w ! index (cells w p) = p" by simp_all
qed

text \<open>Removing the item of an account from the heap and the account from the map.\<close>

lemma remove_account:
  assumes inv: "workerInv mx w" and a: "accounts w a = Some p"
  shows "\<exists>x w1. heap_Remove acctHeap (index (cells w p)) w = (Inr x, w1) \<and>
    workerInv mx (w1\<lparr>accounts := (accounts w1)(a := None)\<rparr>) \<and> accounts w1 = accounts w"
proof -
  note ix = account_index [OF inv a]
  obtain w1 where w1: "heap_Remove acctHeap (index (cells w p)) w = (Inr (Some p), w1)" "acct.extracts p w w1"
    using acct.heap_Remove_effect [OF ix(1)] ix(2) by auto
  have fr: "acctFrame w1 = acctFrame w" "mset (priorityQueue w) = add_mset p (mset (priorityQueue w1))" "acct.indexed w1"
    using w1(2) inv by (auto simp: acct.extracts_def workerInv_def)
  note b = acct_frame [OF fr(1)]
  have d: "distinct (priorityQueue w)" using inv by (simp add: workerInv_def acct.indexed_def)
  have s: "set (priorityQueue w1) = set (priorityQueue w) - {p}" using acct.extracts_set [OF w1(2) d] .
  have inj: "inj_on (accounts w) (dom (accounts w))" using inv by (simp add: workerInv_def)
  have ran: "ran ((accounts w)(a := None)) = ran (accounts w) - {p}"
  proof
    show "ran ((accounts w)(a := None)) \<subseteq> ran (accounts w) - {p}"
    proof
      fix x assume "x \<in> ran ((accounts w)(a := None))"
      then obtain c where c: "c \<noteq> a" "accounts w c = Some x" by (auto simp: ran_def split: if_splits)
      then have "x \<noteq> p" using inj a by (metis domI inj_onD)
      then show "x \<in> ran (accounts w) - {p}" using c by (auto simp: ran_def)
    qed
    show "ran (accounts w) - {p} \<subseteq> ran ((accounts w)(a := None))"
      using a by (auto simp: ran_def) (metis option.inject)
  qed
  have inj': "inj_on ((accounts w)(a := None)) (dom (accounts w) - {a})" using inj by (auto simp: inj_on_def)
  have "workerInv mx (w1\<lparr>accounts := (accounts w1)(a := None)\<rparr>)"
    using inv fr(3) s ran inj' b by (auto simp: workerInv_def acct.indexed_def)
  then show ?thesis using w1(1) b(1) by blast
qed

section \<open>The operations of a worker\<close>

lemma fine_Inr [simp]: "fine mx (Inr x) w \<longleftrightarrow> workerInv mx w"
  by (simp add: fine_def)

lemma fine_Inl: "fine mx (Inl e) w \<longleftrightarrow> workerInv mx w \<and> (\<forall>msg. e \<noteq> Panic msg)"
  by (simp add: fine_def)

lemma removeInvalidActs_ok:
  "workerInv mx w \<Longrightarrow> None \<notin> set acts \<Longrightarrow>
    \<exists>w'. removeInvalidActs env acts w = (Inr (), w') \<and> workerInv mx w' \<and> accounts w' = accounts w \<and> cells w' = cells w"
proof (induction env acts w rule: removeInvalidActs.induct)
  case (3 env act acts w)
  let ?w = "w\<lparr>allActions := acts_Delete env (Hash act) (allActions w),
         gasInPool := gasInPool w - IntrinsicGas act,
         accountDesActs := des_delete act (accountDesActs w),
         store := map_option (store_Delete env (Hash act)) (store w),
         blobCntPerAcc := OnRemoved act (blobCntPerAcc w)\<rparr>"
  have "workerInv mx ?w" using 3(2) workerInv_base [of ?w w] by simp
  then show ?case using 3 by simp
qed simp_all

lemma remove_runs:
  "None \<notin> set acts \<Longrightarrow>
    runsL (\<lambda>w. workerInv mx w \<and> I (accounts w)) (liftL (removeInvalidActs env acts))
      (\<lambda>r w. fine mx r w \<and> I (accounts w))"
  using removeInvalidActs_ok by (intro runsL_lift) fastforce

lemma onQueue_runs:
  assumes "\<And>q. queueOk mx q \<Longrightarrow> J q \<Longrightarrow> \<exists>r q'. m q = Some (r, q') \<and> queueOk mx q' \<and> (\<forall>msg. r \<noteq> Inl (Panic msg)) \<and> R r q'"
  shows "runsL (\<lambda>w. workerInv mx w \<and> I (accounts w) \<and> J (queueAt w p)) (onQueue p m)
    (\<lambda>r w. fine mx r w \<and> I (accounts w) \<and> R r (queueAt w p))"
  unfolding runsL_def
proof (intro allI impI)
  fix w assume w: "workerInv mx w \<and> I (accounts w) \<and> J (queueAt w p)"
  then obtain r q' where q': "m (queueAt w p) = Some (r, q')" "queueOk mx q'" "\<forall>msg. r \<noteq> Inl (Panic msg)" "R r q'"
    using assms [of "queueAt w p"] unfolding workerInv_def by blast
  then show "\<exists>r s'. onQueue p m w = Some (r, s') \<and> fine mx r s' \<and> I (accounts s') \<and> R r (queueAt s' p)"
    using w workerInv_setQueue [of mx w q' p] by (simp add: onQueue_def fine_def) (simp add: setQueue_def)
qed

lemma fix_runs: "runsL (\<lambda>w. workerInv mx w \<and> accounts w a = Some p)
    (liftL (\<lambda>w. heap_Fix acctHeap (index (cells w p)) w)) (fine mx)"
proof (rule runsL_lift)
  fix w assume w: "workerInv mx w \<and> accounts w a = Some p"
  then show "\<exists>r s'. heap_Fix acctHeap (index (cells w p)) w = (r, s') \<and> fine mx r s'"
    using acct.heap_Fix_effect [OF account_index(1)] workerInv_moved(1) by (metis fine_Inr)
qed

text \<open>A new account: its item is pushed onto the heap.\<close>

lemma push_account:
  assumes inv: "workerInv mx w" and new: "accounts w a = None" and q: "queueOk mx q"
  shows "workerInv mx (heap_Push acctHeap (w\<lparr>allocatedItems := Suc (allocatedItems w),
    cells := (cells w)(allocatedItems w := \<lparr>index = i, item_queue = q\<rparr>),
    accounts := (accounts w)(a \<mapsto> allocatedItems w)\<rparr>) (allocatedItems w))"
proof -
  let ?p = "allocatedItems w"
  define w1 where "w1 = w\<lparr>allocatedItems := Suc ?p, cells := (cells w)(?p := \<lparr>index = i, item_queue = q\<rparr>),
    accounts := (accounts w)(a \<mapsto> ?p)\<rparr>"
  let ?w2 = "heap_Push acctHeap w1 ?p"
  have fresh: "?p \<notin> set (priorityQueue w)" "?p \<notin> ran (accounts w)" using inv by (auto simp: workerInv_def)
  have "priorityQueue w ! k \<noteq> ?p" if "k < length (priorityQueue w)" for k using fresh(1) that by (metis nth_mem)
  then have "acct.indexed w1" using inv by (auto simp: workerInv_def acct.indexed_def w1_def)
  moreover have pq: "priorityQueue w1 = priorityQueue w" by (simp add: w1_def)
  ultimately have ix: "acct.indexed ?w2" using acct.heap_Push_effect(3) [of w1 ?p] fresh(1) by simp
  have s: "set (priorityQueue ?w2) = insert ?p (set (priorityQueue w))"
    using arg_cong [OF acct.heap_Push_effect(2) [of w1 ?p], of set_mset] pq by simp
  note b = acct_frame [OF acct.heap_Push_effect(1) [of w1 ?p]]
  have "ran ((accounts w)(a \<mapsto> ?p)) = insert ?p (ran (accounts w))" using new by simp
  moreover have "inj_on ((accounts w)(a \<mapsto> ?p)) (insert a (dom (accounts w)))"
    using inv fresh(2) new by (auto simp: workerInv_def inj_on_def ran_def)
  ultimately have "workerInv mx ?w2"
    using inv ix s q b unfolding workerInv_def by (auto simp: w1_def)
  then show ?thesis unfolding w1_def .
qed

lemma PutAction_ok:
  assumes inv: "workerInv mx w" and n: "n \<le> Nonce act" "Nonce act - n < mx"
    and known: "\<And>p. accounts w a = Some p \<Longrightarrow> n = accountNonce (queueAt w p)"
    and fresh: "accounts w a = None \<Longrightarrow> unat n + unat mx < 2 ^ 64"
  shows "\<exists>r w'. PutAction env a n b act w = Some (r, w') \<and> fine mx r w'"
proof (cases "accounts w a")
  case None
  let ?q = "NewActQueue n b (ActionExpiry env)"
  have "queueOk mx ?q" "accountNonce ?q = n" using queueOk_new [OF fresh [OF None]] by (simp_all add: NewActQueue_def)
  with Put_ok [of mx ?q act "Now env"] n consider
      (err) e where "Put (Now env) act ?q = Some (Inl e, ?q)" "e \<in> {ErrInsufficientFunds, ErrReplaceUnderpriced}"
    | (ok) acts q' where "Put (Now env) act ?q = Some (Inr acts, q')" "None \<notin> set acts" "queueOk mx q'" by auto
  then show ?thesis
  proof cases
    case err
    then show ?thesis using None inv by (auto simp: PutAction_def fine_def)
  next
    case ok
    obtain w1 where w1: "removeInvalidActs env acts w = (Inr (), w1)" "workerInv mx w1" "accounts w1 = accounts w"
      using removeInvalidActs_ok [OF inv ok(2)] by blast
    show ?thesis
      using None ok(1) w1 push_account [OF w1(2) _ ok(3), of a]
      by (simp add: PutAction_def bindL_def liftL_def modL_def Let_def)
  qed
next
  case (Some p)
  have "runsL (\<lambda>w. workerInv mx w \<and> accounts w a = Some p \<and> n = accountNonce (queueAt w p))
      (bindL (onQueue p (Put (Now env) act)) (\<lambda>removed.
         bindL (liftL (removeInvalidActs env removed)) (\<lambda>_.
         liftL (\<lambda>w. heap_Fix acctHeap (index (cells w p)) w)))) (fine mx)"
  proof (rule runsL_bind)
    show "runsL (\<lambda>w. workerInv mx w \<and> accounts w a = Some p \<and> n = accountNonce (queueAt w p)) (onQueue p (Put (Now env) act))
        (\<lambda>r w. fine mx r w \<and> accounts w a = Some p \<and> (\<forall>acts. r = Inr acts \<longrightarrow> None \<notin> set acts))"
    proof (rule onQueue_runs [where I = "\<lambda>m. m a = Some p" and R = "\<lambda>r q. \<forall>acts. r = Inr acts \<longrightarrow> None \<notin> set acts"])
      fix q assume "queueOk mx q" "n = accountNonce q"
      then show "\<exists>r q'. Put (Now env) act q = Some (r, q') \<and> queueOk mx q' \<and> (\<forall>msg. r \<noteq> Inl (Panic msg)) \<and>
          (\<forall>acts. r = Inr acts \<longrightarrow> None \<notin> set acts)"
        using Put_ok [of mx q act "Now env"] n by fastforce
    qed
    fix acts :: "selp option list"
    show "runsL (\<lambda>w. fine mx (Inr acts) w \<and> accounts w a = Some p \<and> (\<forall>acts'. Inr acts = Inr acts' \<longrightarrow> None \<notin> set acts'))
        (bindL (liftL (removeInvalidActs env acts)) (\<lambda>_. liftL (\<lambda>w. heap_Fix acctHeap (index (cells w p)) w))) (fine mx)"
    proof (cases "None \<in> set acts")
      case False
      show ?thesis
        by (rule runsL_weaken [OF runsL_bind [OF remove_runs [OF False, where I = "\<lambda>m. m a = Some p" and mx = mx]]])
          (auto intro: runsL_weaken [OF fix_runs])
    qed (simp add: runsL_def)
  qed (auto simp: fine_Inl)
  then show ?thesis using Some inv known by (simp add: runsL_def PutAction_def)
qed

lemma PopPeek_ok:
  assumes inv: "workerInv mx w"
  shows "\<exists>act w'. PopPeek w = Some (Inr act, w') \<and> workerInv mx w'"
proof (cases "dom (accounts w) = {}")
  case True
  then show ?thesis using inv by (simp add: PopPeek_def)
next
  case False
  then obtain a p where "accounts w a = Some p" by (auto simp: dom_def)
  then have "priorityQueue w \<noteq> []" using inv by (auto simp: workerInv_def ran_def)
  then obtain p ps where pq: "priorityQueue w = p # ps" by (cases "priorityQueue w") auto
  obtain act q where q: "PopActionWithLargestNonce (queueAt w p) = Some (Inr act, q)" "queueOk mx q"
    using PopAction_ok [of mx "queueAt w p"] inv by (auto simp: workerInv_def)
  have w1: "workerInv mx (setQueue p q w)" using inv q(2) by (rule workerInv_setQueue)
  have "0 < length (priorityQueue (setQueue p q w))" using pq by (simp add: setQueue_def)
  from acct.heap_Fix_effect [OF this] obtain w2 where "heap_Fix acctHeap 0 (setQueue p q w) = (Inr (), w2)"
      "workerInv mx w2" using workerInv_moved(1) [OF w1] by blast
  then show ?thesis using False pq q(1) by (simp add: PopPeek_def bindL_def onQueue_def liftL_def)
qed

lemma DeleteIfEmpty_ok: "workerInv mx w \<Longrightarrow> \<exists>w'. DeleteIfEmpty a w = (Inr (), w') \<and> workerInv mx w'"
proof (cases "accounts w a")
  case (Some p)
  assume inv: "workerInv mx w"
  show ?thesis using remove_account [OF inv Some] inv Some by (auto simp: DeleteIfEmpty_def)
qed (simp add: DeleteIfEmpty_def)

lemma deleteEmpties_ok: "workerInv mx w \<Longrightarrow> \<exists>w'. deleteEmpties ks w = (Inr (), w') \<and> workerInv mx w'"
proof (induction ks arbitrary: w)
  case (Cons a ks)
  then show ?case using DeleteIfEmpty_ok [OF Cons.prems, of a] by auto
qed simp

lemma workerInv_empties [simp]: "workerInv mx (w\<lparr>emptyAccounts := c\<rparr>) = workerInv mx w"
  by (rule workerInv_base) simp_all

lemma removeEmptyAccounts_ok: "workerInv mx w \<Longrightarrow> \<exists>w'. removeEmptyAccounts env w = (Inr (), w') \<and> workerInv mx w'"
  using deleteEmpties_ok [of mx w "empties_Keys env (emptyAccounts w)"] by (auto simp: removeEmptyAccounts_def)

lemma dropForSpace_ok:
  assumes inv: "workerInv mx w"
  shows "\<exists>r w'. dropForSpace env act n w = Some (r, w') \<and> fine mx r w'"
proof -
  obtain popped w1 where w1: "PopPeek w = Some (Inr popped, w1)" "workerInv mx w1" using PopPeek_ok [OF inv] by blast
  show ?thesis
  proof (cases popped)
    case None
    then show ?thesis using w1 by (simp add: dropForSpace_def bindL_def)
  next
    case (Some old)
    obtain w2 where w2: "removeInvalidActs env [Some old] w1 = (Inr (), w2)" "workerInv mx w2"
      using removeInvalidActs_ok [OF w1(2), of "[Some old]"] by auto
    obtain w3 where "removeEmptyAccounts env w2 = (Inr (), w3)" "workerInv mx w3"
      using removeEmptyAccounts_ok [OF w2(2)] by blast
    then show ?thesis using Some w1(1) w2(1)
      by (simp add: dropForSpace_def bindL_def liftL_def fine_def del: removeInvalidActs.simps)
  qed
qed

text \<open>
  What the confirmed state promises: known account types, nonces for which the window of the account does not
  wrap around, errors that are no panics.
\<close>

definition goodEnv :: "('c, 'e, 'st) pool_env \<Rightarrow> bool" where
  "goodEnv env \<longleftrightarrow>
    (\<forall>a. case AccountState env a of
       Inl e \<Rightarrow> \<forall>msg. e \<noteq> Panic msg
     | Inr acc \<Rightarrow> Balance acc \<noteq> None \<and>
         (\<exists>n. confirmedNonceOf env acc = Inr n \<and> unat n + unat (MaxNumActsPerAcct env) < 2 ^ 64))"

text \<open>The confirmed nonce of an account does not fall below the one its queue has seen.\<close>

definition confirmsFrom :: "('c, 'e, 'st) pool_env \<Rightarrow> ('c, 'e, 'st) worker \<Rightarrow> bool" where
  "confirmsFrom env w \<longleftrightarrow>
    (\<forall>a p acc n. accounts w a = Some p \<and> AccountState env a = Inr acc \<and> confirmedNonceOf env acc = Inr n \<longrightarrow>
       accountNonce (queueAt w p) \<le> n)"

lemma goodEnv_cases:
  assumes "goodEnv env"
  obtains (err) e where "AccountState env a = Inl e" "\<forall>msg. e \<noteq> Panic msg"
    | (acc) acc n b where "AccountState env a = Inr acc" "Balance acc = Some b" "confirmedNonceOf env acc = Inr n"
        "unat n + unat (MaxNumActsPerAcct env) < 2 ^ 64"
proof (cases "AccountState env a")
  case (Inl e)
  then show thesis using assms by (intro err) (auto simp: goodEnv_def split: sum.splits)
next
  case (Inr x)
  have "case AccountState env a of Inl e \<Rightarrow> \<forall>msg. e \<noteq> Panic msg
     | Inr acc \<Rightarrow> Balance acc \<noteq> None \<and>
         (\<exists>n. confirmedNonceOf env acc = Inr n \<and> unat n + unat (MaxNumActsPerAcct env) < 2 ^ 64)"
    using assms unfolding goodEnv_def by (rule spec)
  then show thesis using Inr by (auto intro: acc)
qed

lemma getConfirmedState_cases:
  assumes "goodEnv env"
  obtains (err) e where "getConfirmedState env a w = Inl e" "\<forall>msg. e \<noteq> Panic msg"
    | (ok) n b where "getConfirmedState env a w = Inr (n, b)"
        "\<And>p. accounts w a = Some p \<Longrightarrow> n = accountNonce (queueAt w p)"
        "accounts w a = None \<Longrightarrow> unat n + unat (MaxNumActsPerAcct env) < 2 ^ 64"
proof (cases "accounts w a")
  case None
  show thesis
  proof (cases rule: goodEnv_cases [OF assms, of a])
    case (1 e)
    then show thesis using None by (intro err) (auto simp: getConfirmedState_def)
  next
    case (2 acc n b)
    then show thesis using None by (intro ok [of n b]) (auto simp: getConfirmedState_def balanceOf_def)
  qed
next
  case (Some p)
  then show thesis by (intro ok [of "accountNonce (queueAt w p)" "accountBalance (queueAt w p)"])
    (auto simp: getConfirmedState_def)
qed

lemma recordAdded_ok: "workerInv mx (recordAdded env act w) = workerInv mx w"
  by (rule workerInv_base) (simp_all add: recordAdded_def)

lemma Handle_ok:
  assumes inv: "workerInv (MaxNumActsPerAcct env) w" and env: "goodEnv env" and ctx: "\<And>msg. ctxErr \<noteq> Some (Panic msg)"
  shows "\<exists>r w'. Handle env ctxErr act rep w = Some (r, w') \<and> fine (MaxNumActsPerAcct env) r w'"
proof (cases ctxErr)
  case (Some e)
  then show ?thesis using inv ctx by (simp add: Handle_def fine_def)
next
  case None
  let ?a = "SenderAddress act" and ?mx = "MaxNumActsPerAcct env"
  show ?thesis
  proof (cases rule: getConfirmedState_cases [OF env, of ?a w])
    case 1
    then show ?thesis using None inv by (simp add: Handle_def fine_def)
  next
    case ok: (2 n b)
    show ?thesis
    proof (cases "checkSelpWithState env act n b w")
      case (Inl e)
      moreover have "e \<noteq> Panic msg" for msg using Inl by (auto simp: checkSelpWithState_def split: if_splits)
      ultimately show ?thesis using None ok(1) inv by (simp add: Handle_def fine_def)
    next
      case (Inr u)
      then have n: "n \<le> Nonce act" "Nonce act - n < ?mx" by (auto simp: checkSelpWithState_def split: if_splits)
      obtain r w1 where w1: "PutAction env ?a n b act w = Some (r, w1)" "fine ?mx r w1"
        using PutAction_ok [OF inv n ok(2,3)] by blast
      show ?thesis
      proof (cases r)
        case (Inl e)
        then show ?thesis using None ok(1) Inr w1 by (simp add: Handle_def bindL_def fine_def)
      next
        case r: (Inr u)
        let ?w2 = "recordAdded env act w1"
        have w2: "workerInv ?mx ?w2" using w1(2) r by (simp add: recordAdded_ok)
        have eq: "Handle env ctxErr act rep w =
            (if rep then dropForSpace env act n else liftL (removeEmptyAccounts env)) ?w2"
          using None ok(1) Inr w1(1) r by (simp add: Handle_def bindL_def modL_def)
        show ?thesis
          unfolding eq
          using dropForSpace_ok [OF w2, of env act n] removeEmptyAccounts_ok [OF w2, of env]
          by (cases rep) (auto simp: liftL_def)
      qed
    qed
  qed
qed

lemma pool_add_ok:
  assumes inv: "workerInv (MaxNumActsPerAcct env) w" and env: "goodEnv env" and ctx: "\<And>msg. ctxErr \<noteq> Some (Panic msg)"
  shows "\<exists>r w'. pool_add env cfg validators height unprotected sys dataErr ctxErr act w = Some (r, w') \<and>
    workerInv (MaxNumActsPerAcct env) w'"
proof -
  have "\<exists>r w'. Handle env ctxErr act rep w = Some (r, w') \<and> workerInv (MaxNumActsPerAcct env) w'" for rep
    using Handle_ok [OF inv env ctx, of act rep] unfolding fine_def by blast
  then show ?thesis using inv by (simp add: pool_add_def split: option.splits sum.splits)
qed

text \<open>The pending nonce that the pool reports never lies below the nonce of the account in the queue.\<close>

lemma GetPendingNonce_from:
  assumes "workerInv mx w" "accounts w a = Some p"
  shows "\<exists>n. GetPendingNonce env a w = Inr n \<and> accountNonce (queueAt w p) \<le> n"
  using assms by (auto simp: GetPendingNonce_def worker_PendingNonce_def workerInv_def queueOk_def queueInv_def pendingInv_def)

text \<open>Visiting the accounts.\<close>

lemma rangeAccounts_ok:
  assumes cb: "\<And>a p w. J w \<Longrightarrow> accounts w a = Some p \<Longrightarrow>
      \<exists>r w'. cb a p w = Some (r, w') \<and> (\<forall>msg. r \<noteq> Inl (Panic msg)) \<and> J w'"
    and J: "\<And>w. J w \<Longrightarrow> workerInv mx w"
  shows "J w \<Longrightarrow> \<exists>r w'. rangeAccounts cb order w = Some (r, w') \<and> fine mx r w'"
proof (induction order arbitrary: w)
  case Nil
  then show ?case using J workerInv_moved(1) [OF _ acct.Init_moved] by auto
next
  case (Cons a order)
  show ?case
  proof (cases "accounts w a")
    case None
    then show ?thesis using Cons by simp
  next
    case (Some p)
    obtain r w1 where w1: "cb a p w = Some (r, w1)" "\<forall>msg. r \<noteq> Inl (Panic msg)" "J w1"
      using cb [OF Cons.prems Some] by blast
    obtain r2 w2 where w2: "rangeAccounts cb order w1 = Some (r2, w2)" "fine mx r2 w2"
      using Cons.IH [OF w1(3)] by blast
    show ?thesis
    proof (cases r)
      case (Inl e)
      then show ?thesis using Some w1 J by (simp add: bindL_def fine_def)
    next
      case (Inr xs)
      then show ?thesis using Some w1 w2 by (cases r2) (simp_all add: bindL_def fine_def)
    qed
  qed
qed

lemma resetAccountQueue_ok:
  assumes inv: "workerInv (MaxNumActsPerAcct env) w \<and> confirmsFrom env w" and env: "goodEnv env"
    and a: "accounts w a = Some p"
  shows "\<exists>r w'. resetAccountQueue env a p w = Some (r, w') \<and> (\<forall>msg. r \<noteq> Inl (Panic msg)) \<and>
    workerInv (MaxNumActsPerAcct env) w' \<and> confirmsFrom env w'"
proof -
  let ?mx = "MaxNumActsPerAcct env"
  have other: "p' \<noteq> p" if "accounts w c = Some p'" "c \<noteq> a" for c p'
    using inv a that unfolding workerInv_def by (metis domI inj_onD)
  have mono: "confirmsFrom env w'"
    if "accounts w' = accounts w" "\<And>p'. p' \<noteq> p \<Longrightarrow> cells w' p' = cells w p'"
      "\<And>acc n. AccountState env a = Inr acc \<Longrightarrow> confirmedNonceOf env acc = Inr n \<Longrightarrow> accountNonce (queueAt w' p) \<le> n" for w'
    unfolding confirmsFrom_def
  proof (intro allI impI; elim conjE)
    fix c p' acc n
    assume c: "accounts w' c = Some p'" "AccountState env c = Inr acc" "confirmedNonceOf env acc = Inr n"
    show "accountNonce (queueAt w' p') \<le> n"
    proof (cases "c = a")
      case True then show ?thesis using c that(1,3) a by simp
    next
      case False
      then have "p' \<noteq> p" using other c(1) that(1) by simp
      then show ?thesis using c that(1,2) inv unfolding confirmsFrom_def by metis
    qed
  qed
  show ?thesis
  proof (cases rule: goodEnv_cases [OF env, of a])
    case (1 e)
    let ?w = "(setQueue p (q_Reset (queueAt w p)) w)\<lparr>emptyAccounts := empties_Set env a (emptyAccounts w)\<rparr>"
    have "workerInv ?mx ?w" using inv by (simp add: workerInv_setQueue queueOk_reset)
    moreover have "confirmsFrom env ?w" by (rule mono) (simp_all add: setQueue_def 1)
    ultimately show ?thesis using 1 by (simp add: resetAccountQueue_def)
  next
    case (2 acc n b)
    have "queueOk ?mx (queueAt w p)" "accountNonce (queueAt w p) \<le> n"
      using inv a 2 unfolding workerInv_def confirmsFrom_def by blast+
    from UpdateAccountState_ok [OF this 2(4), of b] obtain acts q1 where
      q1: "UpdateAccountState n b (queueAt w p) = (Inr acts, q1)" "None \<notin> set acts" "queueOk ?mx q1" "accountNonce q1 = n"
      by blast
    obtain acts2 q2 where q2: "UpdateQueue (Now env) q1 = Some (Inr acts2, q2)" "None \<notin> set acts2" "queueOk ?mx q2"
        "accountNonce q2 = n"
      using UpdateQueue_ok [OF q1(3)] q1(4) by blast
    let ?w2 = "setQueue p q2 (setQueue p q1 w)"
    have "workerInv ?mx ?w2" using inv q1(3) q2(3) by (simp add: workerInv_setQueue)
    from removeInvalidActs_ok [OF this, of "acts @ acts2" env] q1(2) q2(2) obtain w3 where
      w3: "removeInvalidActs env (acts @ acts2) ?w2 = (Inr (), w3)" "workerInv ?mx w3" "accounts w3 = accounts w"
        "cells w3 = cells ?w2" by (auto simp: setQueue_def)
    have c3: "confirmsFrom env w3"
      by (rule mono) (use w3(3,4) q2(4) 2 in \<open>auto simp: setQueue_def\<close>)
    then have "confirmsFrom env (w3\<lparr>emptyAccounts := e\<rparr>)" for e by (simp add: confirmsFrom_def)
    moreover have "queueAt (setQueue p q1 w) p = q1" by (simp add: setQueue_def)
    ultimately show ?thesis
      using 2 q1(1) q2(1) w3(1,2) c3
      by (auto simp: resetAccountQueue_def balanceOf_def bindL_def onQueue_def liftL_def)
  qed
qed

lemma worker_Reset_ok:
  assumes "workerInv (MaxNumActsPerAcct env) w" "confirmsFrom env w" "goodEnv env"
  shows "\<exists>r w'. worker_Reset env order w = Some (r, w') \<and> fine (MaxNumActsPerAcct env) r w'"
  unfolding worker_Reset_def
proof (rule rangeAccounts_ok [where J = "\<lambda>w. workerInv (MaxNumActsPerAcct env) w \<and> confirmsFrom env w"])
  fix a p w assume "workerInv (MaxNumActsPerAcct env) w \<and> confirmsFrom env w" "accounts w a = Some p"
  then show "\<exists>r w'. resetAccountQueue env a p w = Some (r, w') \<and> (\<forall>msg. r \<noteq> Inl (Panic msg)) \<and>
      workerInv (MaxNumActsPerAcct env) w' \<and> confirmsFrom env w'"
    using assms(3) by (intro resetAccountQueue_ok)
qed (use assms in auto)

lemma pendingOfAccount_ok:
  assumes inv: "workerInv mx w" and env: "goodEnv env"
  shows "\<exists>r w'. pendingOfAccount env a p w = Some (r, w') \<and> (\<forall>msg. r \<noteq> Inl (Panic msg)) \<and> workerInv mx w'"
proof (cases "q_Empty (queueAt w p)")
  case True
  then show ?thesis using inv by (simp add: pendingOfAccount_def)
next
  case False
  obtain acts q1 where q1: "UpdateQueue (Now env) (queueAt w p) = Some (Inr acts, q1)" "None \<notin> set acts" "queueOk mx q1"
    using UpdateQueue_ok [of mx "queueAt w p" "Now env"] inv unfolding workerInv_def by blast
  have "workerInv mx (setQueue p q1 w)" using inv q1(3) by (rule workerInv_setQueue)
  from removeInvalidActs_ok [OF this q1(2), of env] obtain w2 where
    w2: "removeInvalidActs env acts (setQueue p q1 w) = (Inr (), w2)" "workerInv mx w2" by blast
  have "q_items (queueAt w2 p) (- 1) = None"
    using queueOk_top w2(2) unfolding workerInv_def by blast
  from pendingLoop_spec [of "q_items (queueAt w2 p)", OF this] have pl:
    "\<exists>pd. pendingLoop (q_items (queueAt w2 p)) n b [] = Some pd" for n b
    by (metis append_Nil)
  have conf: "\<exists>c. confirmedFor env a = Inr c"
    by (rule goodEnv_cases [OF env, of a]) (auto simp: confirmedFor_def balanceOf_def)
  then obtain c where c: "confirmedFor env a = Inr c" by blast
  have "\<exists>pd. PendingActs c (queueAt w2 p) = Some pd"
    using pl by (cases c) (auto simp: PendingActs_def)
  then obtain pd where "PendingActs c (queueAt w2 p) = Some pd" by blast
  then have "pendingOfAccount env a p w =
      Some (Inr (if q_Len (queueAt w2 p) = 0 \<or> pd = [] then [] else [(a, pd)]), w2)"
    using False q1(1) w2(1) c by (simp add: pendingOfAccount_def bindL_def onQueue_def liftL_def)
  then show ?thesis using w2(2) by simp
qed

lemma PendingActions_ok:
  fixes w :: "('c, 'e, 'st) worker"
  assumes "workerInv mx w" "goodEnv env"
  shows "\<exists>r w'. PendingActions env order w = Some (r, w') \<and> fine mx r w'"
  unfolding PendingActions_def
proof (rule rangeAccounts_ok [where J = "workerInv mx"])
  fix a p and w :: "('c, 'e, 'st) worker" assume "workerInv mx w" "accounts w a = Some p"
  then show "\<exists>r w'. pendingOfAccount env a p w = Some (r, w') \<and> (\<forall>msg. r \<noteq> Inl (Panic msg)) \<and> workerInv mx w'"
    using assms(2) by (intro pendingOfAccount_ok)
qed (use assms in auto)

lemma DeleteAction_ok:
  assumes inv: "workerInv mx w"
  shows "\<exists>w'. DeleteAction env caller w = (Inr (), w') \<and> workerInv mx w'"
proof (cases caller)
  case None then show ?thesis using inv by (simp add: DeleteAction_def)
next
  case (Some a)
  show ?thesis
  proof (cases "accounts w a")
    case None
    then show ?thesis using Some inv by (simp add: DeleteAction_def ResetAccount_def PopAccount_def)
  next
    case p: (Some p)
    obtain x w1 where w1: "heap_Remove acctHeap (index (cells w p)) w = (Inr x, w1)"
        "workerInv mx (w1\<lparr>accounts := (accounts w1)(a := None)\<rparr>)"
      using remove_account [OF inv p] by blast
    let ?w2 = "w1\<lparr>accounts := (accounts w1)(a := None)\<rparr>"
    let ?w3 = "(setQueue p (q_Reset (queueAt ?w2 p)) ?w2)\<lparr>emptyAccounts := empties_Set env a (emptyAccounts ?w2)\<rparr>"
    have "workerInv mx ?w3" using workerInv_setQueue [OF w1(2) queueOk_reset] by simp
    moreover have "None \<notin> set (AllActs (queueAt ?w2 p))"
      using AllActs_some w1(2) unfolding workerInv_def queueOk_def by blast
    ultimately show ?thesis
      using removeInvalidActs_ok [of mx ?w3 "AllActs (queueAt ?w2 p)" env] Some p w1(1)
      by (auto simp: DeleteAction_def ResetAccount_def PopAccount_def)
  qed
qed

section \<open>The life of a worker\<close>

lemma newQueueWorker_inv: "workerInv mx (newQueueWorker empties acts st)"
proof -
  let ?w = "\<lparr>accounts = Map.empty, priorityQueue = [],
       cells = (\<lambda>_. \<lparr>index = 0, item_queue = NewActQueue 0 0 0\<rparr>), allocatedItems = 0,
       emptyAccounts = empties, allActions = acts, gasInPool = 0, accountDesActs = Map.empty, store = st,
       blobCntPerAcc = (\<lambda>_. 0)\<rparr>"
  have "workerInv mx ?w" using queueOk_new [of 0 mx] unsigned_less [of mx] by (simp add: workerInv_def acct.indexed_def)
  then show ?thesis unfolding newQueueWorker_def by (rule workerInv_moved(1)) (rule acct.Init_moved)
qed

text \<open>One call on a worker of a pool that admits \<open>mx\<close> actions per account.\<close>

inductive workerStep :: "u64 \<Rightarrow> ('c, 'e, 'st) worker \<Rightarrow> ('c, 'e, 'st) worker \<Rightarrow> bool" for mx where
  handle: "MaxNumActsPerAcct env = mx \<Longrightarrow> goodEnv env \<Longrightarrow> (\<And>msg. ctxErr \<noteq> Some (Panic msg)) \<Longrightarrow>
    Handle env ctxErr act rep w = Some (r, w') \<Longrightarrow> workerStep mx w w'"
| resetAll: "MaxNumActsPerAcct env = mx \<Longrightarrow> goodEnv env \<Longrightarrow> confirmsFrom env w \<Longrightarrow>
    worker_Reset env order w = Some (r, w') \<Longrightarrow> workerStep mx w w'"
| pending: "goodEnv env \<Longrightarrow> PendingActions env order w = Some (r, w') \<Longrightarrow> workerStep mx w w'"
| delete: "DeleteAction env caller w = (r, w') \<Longrightarrow> workerStep mx w w'"

lemma workerStep_inv: "workerStep mx w w' \<Longrightarrow> workerInv mx w \<Longrightarrow> workerInv mx w'"
proof (induction rule: workerStep.induct)
  case (handle env ctxErr act rep w r w')
  then show ?case using Handle_ok [of env w ctxErr act rep] by (auto simp: fine_def)
next
  case (resetAll env w order r w')
  then show ?case using worker_Reset_ok [of env w order] by (auto simp: fine_def)
next
  case (pending env order w r w')
  then show ?case using PendingActions_ok [of mx w env order] by (auto simp: fine_def)
next
  case (delete env caller w r w')
  then show ?case using DeleteAction_ok [of mx w env caller] by auto
qed

lemma worker_reachable_inv: "(workerStep mx)\<^sup>*\<^sup>* (newQueueWorker empties acts st) w \<Longrightarrow> workerInv mx w"
  by (induction rule: rtranclp_induct) (auto intro: newQueueWorker_inv workerStep_inv)

text \<open>
  Property C18.  Whatever a worker of the pool has been asked to do, no account holds more actions than the
  configured maximum, all of them have nonces in the window that starts at the nonce of the account, and the
  account can be found at the index its item remembers.  The next action is handled: the call returns
  and neither a missing entry nor a stale index makes it panic.
\<close>

theorem account_window_bounded:
  assumes "(workerStep mx)\<^sup>*\<^sup>* (newQueueWorker empties acts st) w"
  shows "(\<forall>a p. accounts w a = Some p \<longrightarrow>
      q_Len (queueAt w p) \<le> unat mx \<and>
      (\<forall>n \<in> dom (q_items (queueAt w p)). accountNonce (queueAt w p) \<le> n \<and> unat n < unat (accountNonce (queueAt w p)) + unat mx) \<and>
      index (cells w p) < length (priorityQueue w) \<and> priorityQueue w ! index (cells w p) = p) \<and>
    (\<forall>env ctxErr act rep. MaxNumActsPerAcct env = mx \<and> goodEnv env \<and> (\<forall>msg. ctxErr \<noteq> Some (Panic msg)) \<longrightarrow>
      (\<exists>r w'. Handle env ctxErr act rep w = Some (r, w') \<and> (\<forall>msg. r \<noteq> Inl (Panic msg))))"
proof -
  have inv: "workerInv mx w" using worker_reachable_inv [OF assms] .
  then have q: "queueOk mx (queueAt w p)" for p by (simp add: workerInv_def)
  have win: "accountNonce (queueAt w p) \<le> n \<and> unat n < unat (accountNonce (queueAt w p)) + unat mx"
    if "n \<in> dom (q_items (queueAt w p))" for n p
    using q [of p] that by (auto simp: queueOk_def queueInv_def itemsInv_def)
  have "\<exists>r w'. Handle env ctxErr act rep w = Some (r, w') \<and> (\<forall>msg. r \<noteq> Inl (Panic msg))"
    if "MaxNumActsPerAcct env = mx \<and> goodEnv env \<and> (\<forall>msg. ctxErr \<noteq> Some (Panic msg))" for env ctxErr act rep
  proof -
    have "\<exists>r w'. Handle env ctxErr act rep w = Some (r, w') \<and> fine (MaxNumActsPerAcct env) r w'"
      using inv that by (intro Handle_ok) auto
    then show ?thesis by (auto simp: fine_def)
  qed
  then show ?thesis
    using queueOk_Len [OF q] win account_index [OF inv] by (intro conjI allI impI ballI) auto
qed

text \<open>Witness: a worker handles the first action of an account with nonce 1 and balance 100.\<close>

definition sampleEnv :: "(unit, unit, unit) pool_env" where
  "sampleEnv = \<lparr>acts_Set = (\<lambda>_ _ c. c), acts_Get = (\<lambda>_ _. None), acts_Delete = (\<lambda>_ c. c), acts_Count = (\<lambda>_. 0),
     empties_Set = (\<lambda>_ e. e), empties_Keys = (\<lambda>_. []), empties_Reset = (\<lambda>e. e),
     store_Put = (\<lambda>_ s. s), store_Delete = (\<lambda>_ s. s), store_Get = (\<lambda>_ _. Inl (Errorf ''blob not found'')),
     AccountState = (\<lambda>_. Inr \<lparr>nonce = 1, Balance = Some 100, Root = [], CodeHash = [], isCandidate = False,
       votingWeight = Some 0, accountType = 1\<rparr>),
     UseZeroNonceForFreshAccount = True, MaxNumActsPerAcct = 10, ActionExpiry = 0, Now = 0\<rparr>"

lemma sampleEnv_good: "goodEnv sampleEnv"
  by (simp add: goodEnv_def sampleEnv_def confirmedNonceOf_def PendingNonceConsideringFreshAccount_def PendingNonce_def)

lemma sampleEnv_confirmed:
  "accounts w a = None \<Longrightarrow> getConfirmedState sampleEnv a w = Inr (1, 100)"
  by (simp add: getConfirmedState_def sampleEnv_def confirmedNonceOf_def PendingNonceConsideringFreshAccount_def
      PendingNonce_def balanceOf_def)

lemma newQueueWorker_fields:
  "accounts (newQueueWorker empties acts st) = Map.empty" "priorityQueue (newQueueWorker empties acts st) = []"
  "allocatedItems (newQueueWorker empties acts st) = 0"
  by (simp_all add: newQueueWorker_def heap_Init_def acctHeap_def)

lemma sampleHandle:
  "\<exists>w. Handle sampleEnv None sampleAct False (newQueueWorker () () None) = Some (Inr (), w) \<and> accounts w 3 = Some 0"
proof -
  obtain q where q: "Put 0 sampleAct (NewActQueue 1 100 0) = Some (Inr [], q)" using sampleAct_put by blast
  have a: "SenderAddress sampleAct = 3" "Nonce sampleAct = 1" "Cost sampleAct = 60" "BlobHashes sampleAct = []"
    by (simp_all add: sampleAct_def)
  have e: "Now sampleEnv = 0" "ActionExpiry sampleEnv = 0" "MaxNumActsPerAcct sampleEnv = 10"
    "empties_Keys sampleEnv c = []" for c by (simp_all add: sampleEnv_def)
  show ?thesis
    using q by (simp add: Handle_def sampleEnv_confirmed newQueueWorker_fields checkSelpWithState_def a e PutAction_def
        bindL_def liftL_def modL_def Let_def heap_Push_def acctHeap_def acct_Push_def setIndex_def heap_up_root
        removeEmptyAccounts_def recordAdded_def)
qed

theorem account_window_bounded_witness:
  "\<exists>w. Handle sampleEnv None sampleAct False (newQueueWorker () () None) = Some (Inr (), w) \<and>
     accounts w 3 = Some 0 \<and> q_Len (queueAt w 0) \<le> 10 \<and>
     (\<exists>r w'. Handle sampleEnv None sampleAct True w = Some (r, w') \<and> (\<forall>msg. r \<noteq> Inl (Panic msg)))"
proof -
  obtain w where w: "Handle sampleEnv None sampleAct False (newQueueWorker () () None) = Some (Inr (), w)"
      "accounts w 3 = Some 0" using sampleHandle by blast
  have mx: "MaxNumActsPerAcct sampleEnv = 10" by (simp add: sampleEnv_def)
  have "workerStep 10 (newQueueWorker () () None) w"
    by (rule workerStep.handle [OF mx sampleEnv_good _ w(1)]) simp
  then have r: "(workerStep 10)\<^sup>*\<^sup>* (newQueueWorker () () None) w" by simp
  note t = account_window_bounded [OF r]
  have "q_Len (queueAt w 0) \<le> 10" using conjunct1 [OF t] w(2) by simp
  moreover have "\<exists>r w'. Handle sampleEnv None sampleAct True w = Some (r, w') \<and> (\<forall>msg. r \<noteq> Inl (Panic msg))"
    using conjunct2 [OF t] mx sampleEnv_good by simp
  ultimately show ?thesis using w by blast
qed

section \<open>An action that is dropped without an error\<close>

text \<open>
  When the pool is full, \<^verbatim>\<open>Handle\<close> means to report \<^verbatim>\<open>ErrTxPoolOverflow\<close> if the action it drops is the one it was
  given, but it compares the nonce of the dropped action with the confirmed nonce of the sender.  A full pool
  takes an action that leaves a gap after the nonce of its sender, drops it again and reports success.
\<close>

definition lateAct :: selp where
  "lateAct = sampleAct\<lparr>Nonce := 2\<rparr>"

lemma heap_down_leaf: "n \<le> 1 \<Longrightarrow> heap_down h s 0 n = (s, 0)"
  by (subst heap_down.simps) simp

lemma lateAct_put:
  "\<exists>q. Put 0 lateAct (NewActQueue 1 100 0) = Some (Inr [], q) \<and> queueInv q \<and> q_items q = [2 \<mapsto> lateAct]"
proof -
  let ?Q = "NewActQueue 1 100 0"
  have n: "Nonce lateAct = 2" "Cost lateAct = 60" by (simp_all add: lateAct_def sampleAct_def)
  have Q: "accountNonce ?Q = 1" "q_items ?Q = Map.empty" "pendingNonce ?Q = 1" "q_ttl ?Q = 0"
    "getPendingBalanceAtNonce ?Q 2 = 100"
    by (simp_all add: NewActQueue_def getPendingBalanceAtNonce_def)
  define q where "q = (pushNonce (Nonce lateAct) 0 ?Q)\<lparr>q_items := (q_items (pushNonce (Nonce lateAct) 0 ?Q))(Nonce lateAct \<mapsto> lateAct)\<rparr>"
  have f: "queueInv q" "q_items q = [2 \<mapsto> lateAct]" "pendingNonce q = 1"
    using Put_fresh [OF NewActQueue_inv [of 1 100 0], of lateAct 0] by (simp_all add: n Q q_def)
  have "Put 0 lateAct ?Q = Some (Inr [], q)"
    unfolding Put_def Let_def n Q q_def [unfolded n, symmetric] add_0 using f(3)
    by (simp add: Q q_def [unfolded n, symmetric])
  then show ?thesis using f by blast
qed

lemma full_pool_drops_silently:
  "\<exists>w. Handle sampleEnv None lateAct True (newQueueWorker () () None) = Some (Inr (), w) \<and>
     (\<forall>p. q_items (queueAt w p) = Map.empty)"
proof -
  obtain q where q: "Put 0 lateAct (NewActQueue 1 100 0) = Some (Inr [], q)" "queueInv q" "q_items q = [2 \<mapsto> lateAct]"
    using lateAct_put by blast
  obtain q' where q': "PopActionWithLargestNonce q = Some (Inr (Some lateAct), q')" "q_items q' = Map.empty"
    using PopActionWithLargestNonce_spec [OF q(2)] by (auto simp: q(3))
  have a: "SenderAddress lateAct = 3" "Nonce lateAct = 2" "Cost lateAct = 60" "BlobHashes lateAct = []"
    "Destination lateAct = None"
    by (simp_all add: lateAct_def sampleAct_def)
  have e: "Now sampleEnv = 0" "ActionExpiry sampleEnv = 0" "MaxNumActsPerAcct sampleEnv = 10"
    "empties_Keys sampleEnv c = []" for c by (simp_all add: sampleEnv_def)
  have ten: "\<not> (10 :: u64) \<le> 1" by (simp add: word_le_nat_alt)
  have c0: "queueAt (newQueueWorker () () (None :: unit option)) p = NewActQueue 0 0 0" for p
    by (simp add: newQueueWorker_def heap_Init_def acctHeap_def)
  have "q_items (NewActQueue 0 0 0) = Map.empty" by (simp add: NewActQueue_def)
  then show ?thesis
    using q(1) q' c0 ten
    by (simp add: Handle_def sampleEnv_confirmed newQueueWorker_fields checkSelpWithState_def a e PutAction_def
        bindL_def liftL_def modL_def Let_def heap_Push_def acctHeap_def acct_Push_def setIndex_def heap_up_root
        removeEmptyAccounts_def recordAdded_def dropForSpace_def PopPeek_def onQueue_def setQueue_def heap_Fix_def
        heap_settle_def heap_down_leaf)
qed

end
