(* ===== verification/Spec2Isabelle.thy ===== *)
theory Spec2Isabelle
  imports Epoch CandidateCodec StakingLifecycle RewardHandling ConsensusMessages ProposalPool BufferedStore ActPool
begin

text \<open>
  Verification of the core of iotex-core, a proof-of-stake blockchain node: the ledger that the native
  actions change, the consensus that decides on blocks, the pool of actions that wait for a block, and the
  buffered store in which the state of a block is built.

  \<^bold>\<open>The program.\<close>  A block is a list of actions.  The working set of a block
  (\<^verbatim>\<open>src/state/factory/workingset.go\<close>) runs every action through the protocols; a protocol's \<^verbatim>\<open>Handle\<close>
  either returns an error, which rejects the block, or a receipt with a status and transaction logs; a
  failed receipt has been reverted to a snapshot and still pays its gas.  The account protocol moves
  balances, the rewarding protocol keeps the fund that pays the producers, the staking protocol keeps
  candidates and vote buckets.  All of them write through a key-value store with a write buffer
  (\<^verbatim>\<open>src/db\<close>), which is flushed when the block is committed.  Blocks are proposed and voted on in rounds by
  the roll-DPoS consensus (\<^verbatim>\<open>src/consensus\<close>); the proposer takes the actions of a block from the action pool
  (\<^verbatim>\<open>src/actpool\<close>).

  \<^bold>\<open>How the model is written.\<close>  \<open>Prelude\<close>: Go errors are the datatype \<open>go_error\<close>, a fallible function
  returns \<open>'a res\<close> (\<open>Inl\<close> the error), a method that changes its receiver or the state manager is
  \<open>('s, 'a) op\<close>, a function from a state to a result and the new state, composed by \<open>bindS\<close>, \<open>thenS\<close>,
  \<open>checkS\<close> in the order of the source; an error keeps the state reached so far, as in Go.  A panic is the
  error \<open>Panic\<close>.  \<^verbatim>\<open>uint64\<close> is \<open>64 word\<close>; \<^verbatim>\<open>big.Int\<close> is \<open>int\<close>, with its string form in \<open>BigInt\<close>; a map
  that is only looked up is \<open>'k \<rightharpoonup> 'v\<close>; a map that is iterated over is an association list, in an
  arbitrary order; a time is an \<open>int\<close> of nanoseconds.  The rules \<open>run_simps\<close>, \<open>preserves_intros\<close> and
  \<open>wp_intros\<close> take runs of operations apart; \<open>kv_store\<close> is the interface of a store with its laws, which
  the accounts, the rewarding store and the endorsements of staking provide.

  \<^bold>\<open>Ledger.\<close>
  \<^item> \<open>Ledger\<close>: accounts (\<^verbatim>\<open>src/state/account.go\<close>, \<^verbatim>\<open>src/action/protocol/account/util\<close>); nonces and
    balances never wrap or become negative, an account survives its stored form.
  \<^item> \<open>Features\<close>, \<open>Context\<close>: fork heights and feature flags (\<^verbatim>\<open>src/blockchain/genesis\<close>,
    \<^verbatim>\<open>src/action/protocol/context.go\<close>), the action context, receipts and transaction logs.
  \<^item> \<open>FeeMarket\<close>: base fee and blob fee (\<^verbatim>\<open>eip1559.go\<close>, \<^verbatim>\<open>eip4844.go\<close>); bounds of the base fee, the exact
    split of the gas price, the blob fee loop returns.
  \<^item> \<open>AccountProtocol\<close>: transfers.  \<open>RewardFund\<close>: the two generations of the rewarding store, the fund and
    gas deposits.  A transfer conserves the supply, with the base fee, which goes into the fund; its logs
    explain every balance, and a payable transfer to an account that is not a contract succeeds.
  \<^item> \<open>Rewarding\<close>, \<open>RewardLedger\<close>, \<open>RewardHandling\<close>: block and epoch rewards, slashing and claims
    (\<^verbatim>\<open>src/action/protocol/rewarding\<close>).  The fund is solvent while nothing is slashed, owed rewards can be
    claimed, a block is rewarded once.
  \<^item> \<open>Epoch\<close>: epoch arithmetic (\<^verbatim>\<open>src/action/protocol/rolldpos/epoch.go\<close>).  \<^verbatim>\<open>GetEpochNum\<close> and
    \<^verbatim>\<open>GetEpochHeight\<close> call each other; the model has fuel \<open>epochFuel\<close> (6), more than the depth of the
    recursion, and \<open>GetEpochNum_equation\<close> shows that it is enough, by the equations of both.
  \<^item> \<open>CandidateCenter\<close>, \<open>CandidateCodec\<close>, \<open>LinkedList\<close>: candidates, their indexes across the changes of a
    block, their stored forms (\<^verbatim>\<open>candidate.go\<close>, \<^verbatim>\<open>candidate_center.go\<close>, \<^verbatim>\<open>src/state/candidate_linklist.go\<close>).
    Updates keep names, operators and self-stake buckets unique if owners are; a commit keeps the visible
    candidates under every feature flag, and exact indexes once the alias bug is fixed.
  \<^item> \<open>StakingState\<close>, \<open>StakingHandlers\<close>, \<open>StakingDispatch\<close>: buckets, the pool, indices, endorsements, every
    native staking action, its settlement, slashing and genesis (\<^verbatim>\<open>src/action/protocol/staking\<close>).
    \<open>StakingMoney\<close> shows that the supply is conserved, \<open>StakingInvariant\<close> that candidates stay unique and
    the pool exact (but for a failed deposit), \<open>StakingView\<close> that a refused action leaves no trace and that a
    restart from a consistent state rebuilds the same view, \<open>StakingLifecycle\<close> that every action is a step of
    the life cycle of a bucket and that, after the fork \<open>CannotUnstakeAgain\<close>, a stake stays locked until it
    has matured.

  \<^bold>\<open>Consensus\<close> (\<^verbatim>\<open>src/consensus\<close>, \<^verbatim>\<open>src/endorsement\<close>).
  \<^item> \<open>Endorsements\<close>: signed votes, the collected endorsements and the round context with its lock.
  \<^item> \<open>Rounds\<close>: the timing of rounds, the round calculator, the operations of \<^verbatim>\<open>rollDPoSCtx\<close> and the
    validation of a block footer.  \<open>ConsensusSafety\<close>: two accepted blocks of a height share more than a
    third of the delegates as signers; a committed block passes the validation of the nodes that let its
    proposal pass; a lock is certified by more than two thirds and only released by a majority for the empty
    block or the next height; a round contains the moment it was computed for.
  \<^item> \<open>ConsensusFSM\<close>: the transition table and the handlers of \<^verbatim>\<open>fsm.go\<close>; states are open, like
    the strings of the source.  Destinations are the declared ones, but for the backdoor event, and every
    round ends by its timeouts.
  \<^item> \<open>ConsensusMessages\<close>: encoded messages and \<^verbatim>\<open>HandleConsensusMsg\<close>; only verified messages of signers with
    the claimed role are queued, and an honest vote is queued by every node of the committee.
  \<^item> \<open>ProposalPool\<close>: draft blocks and forks; receiving a block keeps exactly its descendants, and the loops
    over previous hashes return.

  \<^bold>\<open>Store\<close> (\<^verbatim>\<open>src/db\<close>).
  \<^item> \<open>Batch\<close>: write queue, two-level cache and cached batch with snapshots, compared with a list of segments.
  \<^item> \<open>BufferedStore\<close>: the buffered store on BoltDB.  It refines a map that copies itself at a snapshot, and a
    flush is atomic and writes what its translator lets through; the translator of the state database
    (\<^verbatim>\<open>src/state/factory/statedb.go\<close>) drops whole namespaces.  The interface \<open>write_buffer\<close> is what the store relies on in the
    batch.

  \<^bold>\<open>Action pool\<close> (\<^verbatim>\<open>src/actpool\<close>).
  \<^item> \<open>GoHeap\<close>: the package \<^verbatim>\<open>container/heap\<close>, with the interface \<open>go_heap\<close> (elements and their indices) and its
    extension \<open>go_heap_ordered\<close>; the functions of the package keep the indices and the heap order.
  \<^item> \<open>ActQueue\<close>: the queue of an account (\<^verbatim>\<open>actqueue.go\<close>, \<^verbatim>\<open>priorityqueue.go\<close>); pending nonces have no gap, all
    pending actions are paid by the balance, confirmed actions are removed in the order of their nonces and
    the action with the largest nonce is dropped first.
  \<^item> \<open>ActPool\<close>: accounts, workers and admission (\<^verbatim>\<open>accountpool.go\<close>, \<^verbatim>\<open>queueworker.go\<close>, \<^verbatim>\<open>actpool.go\<close>); an account
    never exceeds its window of nonces and handling an action returns without a panic.

  \<^bold>\<open>What is an argument of the model.\<close>  Cryptography (\<open>crypto_env\<close>), the rendering of addresses, the bolt
  package (\<open>bolt_api\<close>, with \<open>bolt_laws\<close>), the go-fsm dispatcher, the poll protocol and its candidates, the
  selection of delegates, the chain that consensus reads and the block builder, the caches and the blob store
  of the action pool (\<open>pool_env\<close>).  Hypotheses on them name what
  they document: \<open>unique_address\<close>, \<open>signatures_verify\<close>, \<open>keys_decode\<close>, \<open>linked\<close>, \<open>bolt_laws\<close>,
  \<open>goodEnv\<close>, \<open>confirmsFrom\<close>.

  \<^bold>\<open>Bounds.\<close>  Apart from \<open>epochFuel\<close> no definition has fuel: loops are structural recursion, or
  \<open>partial_function (option)\<close> with a proof that they return (the blob fee, the walks over draft blocks,
  the pending nonces).

  \<^bold>\<open>Not modelled.\<close>  The EVM and its state adapter (they run the go-ethereum interpreter), and with it contract
  staking, its indexers and stake migration; polling of delegates; block storage and the state factory but the options
  of its flusher;
  protobuf marshalling and hashing of blocks and actions; the other database engines and the Merkle
  Patricia trie; synchronization, networking, the API, the command line client and the
  wiring of the server; locks and goroutines, since every modelled operation runs under the lock of its
  object; metrics and logging.
\<close>

end
